(* ===== verification/Prelude.thy ===== *)
theory Prelude
  imports Main "HOL-Library.Sublist" "HOL-Library.Signed_Division"
begin

text \<open>
  Shared vocabulary of the development: the names of the model's basic types, the C++ integer
  conversions the code performs implicitly, the byte-level list operations that file contents
  need, and the generic list lemmas the components share.

  A C++ \<^verbatim>\<open>std::string\<close> is a sequence of bytes; HOL's \<open>string\<close> is a list of 8-bit characters, so
  the two agree, embedded NULs included.  Signed integers are \<open>int\<close>; a conversion or an
  assignment to a narrower type is written out with \<open>to_i32\<close> and \<open>to_i64\<close> (two's complement),
  and C++ division, which truncates towards zero, is \<open>sdiv\<close> and \<open>smod\<close> of the library.
\<close>

named_theorems conv_simps \<open>integer conversions that do not wrap\<close>
named_theorems path_simps \<open>evaluation of std::filesystem::path operations\<close>
named_theorems fs_simps \<open>evaluation of file-system operations\<close>
named_theorems queue_simps \<open>evaluation of queue operations\<close>

type_synonym bytes = string
type_synonym time_ms = int

section \<open>Integer conversions\<close>

definition to_i32 :: "int \<Rightarrow> int" where
  "to_i32 x = (x + 2 ^ 31) mod 2 ^ 32 - 2 ^ 31"

definition to_i64 :: "int \<Rightarrow> int" where
  "to_i64 x = (x + 2 ^ 63) mod 2 ^ 64 - 2 ^ 63"

definition i32_range :: "int \<Rightarrow> bool" where
  "i32_range x \<longleftrightarrow> - (2 ^ 31) \<le> x \<and> x < 2 ^ 31"

definition i64_range :: "int \<Rightarrow> bool" where
  "i64_range x \<longleftrightarrow> - (2 ^ 63) \<le> x \<and> x < 2 ^ 63"

lemma to_i32_id [conv_simps]: "i32_range x \<Longrightarrow> to_i32 x = x"
  by (simp add: to_i32_def i32_range_def)

lemma to_i64_id [conv_simps]: "i64_range x \<Longrightarrow> to_i64 x = x"
  by (simp add: to_i64_def i64_range_def)

lemma to_i32_range: "i32_range (to_i32 x)"
  by (simp add: to_i32_def i32_range_def)

lemma to_i64_range: "i64_range (to_i64 x)"
  by (simp add: to_i64_def i64_range_def)

lemma to_i64_small [conv_simps]: "0 \<le> x \<Longrightarrow> x < 2 ^ 63 \<Longrightarrow> to_i64 x = x"
  by (rule to_i64_id) (simp add: i64_range_def)

lemma sdiv_nonneg [conv_simps]: "0 \<le> a \<Longrightarrow> 0 < b \<Longrightarrow> a sdiv b = a div (b::int)"
  by (simp add: signed_divide_int_def sgn_if)

lemma smod_nonneg [conv_simps]: "0 \<le> a \<Longrightarrow> 0 < b \<Longrightarrow> a smod b = a mod (b::int)"
  by (cases "a = 0") (simp_all add: signed_modulo_int_def signed_divide_int_def sgn_if
      minus_div_mult_eq_mod)

section \<open>Overwriting a byte range\<close>

text \<open>
  \<open>overwrite k c s\<close> is what a positioned write of \<open>c\<close> at offset \<open>k\<close> makes of a file that holds
  \<open>s\<close>: a gap beyond the end reads as zero bytes.
\<close>

definition overwrite :: "nat \<Rightarrow> bytes \<Rightarrow> bytes \<Rightarrow> bytes" where
  "overwrite k c s = take k s @ replicate (k - length s) (CHR 0x00) @ c @ drop (k + length c) s"

lemma length_overwrite: "length (overwrite k c s) = max (length s) (k + length c)"
  by (simp add: overwrite_def)

lemma overwrite_within: "k + length c \<le> length s \<Longrightarrow> length (overwrite k c s) = length s"
  by (simp add: length_overwrite)

lemma nth_overwrite:
  assumes "k + length c \<le> length s" and "j < length s"
  shows "overwrite k c s ! j = (if k \<le> j \<and> j < k + length c then c ! (j - k) else s ! j)"
proof -
  have gap: "k - length s = 0" using assms(1) by simp
  consider "j < k" | "k \<le> j" "j < k + length c" | "k + length c \<le> j" by linarith
  then show ?thesis
  proof cases
    case 1
    then show ?thesis using assms gap by (simp add: overwrite_def nth_append)
  next
    case 2
    then have "j - k < length c" by arith
    then show ?thesis using 2 assms gap by (simp add: overwrite_def nth_append)
  next
    case 3
    then have "\<not> j - k < length c" and "j - k - length c = j - (k + length c)" by auto
    then show ?thesis using assms gap 3 by (simp add: overwrite_def nth_append)
  qed
qed

section \<open>Slices\<close>

definition slice :: "nat \<Rightarrow> nat \<Rightarrow> 'a list \<Rightarrow> 'a list" where
  "slice k n s = take n (drop k s)"

lemma length_slice: "length (slice k n s) = min n (length s - k)"
  by (simp add: slice_def min.commute)

lemma nth_slice: "j < n \<Longrightarrow> k + j < length s \<Longrightarrow> slice k n s ! j = s ! (k + j)"
  by (simp add: slice_def)

text \<open>
  \<open>agrees f d j\<close>: the file \<open>f\<close> holds, at offset \<open>j\<close>, the byte of \<open>d\<close>.  Writing a slice of \<open>d\<close> at
  its own offset makes the two agree on the slice and keeps every agreement there was.
\<close>

lemma overwrite_slice_nth:
  assumes "length s = length d" and "j < length d"
  shows "overwrite k (slice k n d) s ! j = (if k \<le> j \<and> j < k + n then d ! j else s ! j)"
proof (cases "k \<le> length d")
  case True
  then have fit: "k + length (slice k n d) \<le> length s"
    using assms(1) by (simp add: length_slice)
  show ?thesis
    using assms True by (auto simp: nth_overwrite [OF fit] length_slice nth_slice)
next
  case False
  then have empty: "slice k n d = []" by (simp add: slice_def)
  from False assms show ?thesis by (simp add: empty overwrite_def nth_append)
qed

lemma overwrite_slice_length:
  assumes "length s = length d" and "k \<le> length d"
  shows "length (overwrite k (slice k n d) s) = length d"
  using assms by (simp add: length_overwrite length_slice)

section \<open>Lists and strings\<close>

lemma prefix_replace_hd: "prefix (c # p) s \<Longrightarrow> \<exists>s'. s = c # s' \<and> prefix p s'"
  by (cases s) auto

lemma takeWhile_neq_append:
  "c \<notin> set xs \<Longrightarrow> takeWhile (\<lambda>x. x \<noteq> c) (xs @ c # ys) = xs"
  by (induction xs) auto

lemma dropWhile_neq_append:
  "c \<notin> set xs \<Longrightarrow> dropWhile (\<lambda>x. x \<noteq> c) (xs @ c # ys) = c # ys"
  by (induction xs) auto

lemma takeWhile_neq_id: "c \<notin> set xs \<Longrightarrow> takeWhile (\<lambda>x. x \<noteq> c) xs = xs"
  by (induction xs) auto

lemma dropWhile_neq_Nil: "c \<notin> set xs \<Longrightarrow> dropWhile (\<lambda>x. x \<noteq> c) xs = []"
  by (induction xs) auto

section \<open>Invariants of operation sequences\<close>

text \<open>
  A component that keeps a state through a family of operations, each of which, called with
  valid arguments, preserves an invariant: then every sequence of such calls does.
\<close>

locale op_invariant =
  fixes step :: "'o \<Rightarrow> 's \<Rightarrow> 's" and valid :: "'o \<Rightarrow> bool" and inv :: "'s \<Rightarrow> bool"
  assumes step_inv: "inv s \<Longrightarrow> valid c \<Longrightarrow> inv (step c s)"
begin

lemma run_inv: "inv s \<Longrightarrow> list_all valid cs \<Longrightarrow> inv (fold step cs s)"
  by (induction cs arbitrary: s) (auto intro: step_inv)

end

end
