(* ===== verification/StdPath.thy ===== *)
theory StdPath
  imports Prelude
begin

text \<open>
  The part of the C++ standard library that handles path strings and that the sources use:
  \<^verbatim>\<open>std::filesystem::path\<close> on a POSIX system (\<^verbatim>\<open>is_absolute\<close>, \<^verbatim>\<open>parent_path\<close>, \<^verbatim>\<open>filename\<close>,
  \<^verbatim>\<open>stem\<close>, \<^verbatim>\<open>extension\<close>), the \<^verbatim>\<open>std::getline\<close> loop over a string stream, and the splitting of a
  path into the components the kernel walks.
\<close>

abbreviation slash :: char where
  "slash \<equiv> CHR ''/''"

section \<open>Splitting at a separator\<close>

fun split_on :: "char \<Rightarrow> string \<Rightarrow> string list" where
  "split_on d [] = [[]]"
| "split_on d (c # cs) =
     (if c = d then [] # split_on d cs
      else (case split_on d cs of [] \<Rightarrow> [[c]] | p # ps \<Rightarrow> (c # p) # ps))"

fun join_with :: "string \<Rightarrow> string list \<Rightarrow> string" where
  "join_with d [] = []"
| "join_with d [p] = p"
| "join_with d (p # q # ps) = p @ d @ join_with d (q # ps)"

text \<open>
  The tokens a loop \<^verbatim>\<open>while (std::getline(ss, token, d))\<close> sees: the pieces between separators,
  except that nothing is read after a separator that ends the stream.
\<close>

definition getline_tokens :: "char \<Rightarrow> string \<Rightarrow> string list" where
  "getline_tokens d s = (let ps = split_on d s in if last ps = [] then butlast ps else ps)"

lemma split_on_nonempty [simp]: "split_on d s \<noteq> []"
  by (induction s) (auto split: list.splits)

lemma split_on_no_sep: "p \<in> set (split_on d s) \<Longrightarrow> d \<notin> set p"
proof (induction s arbitrary: p)
  case (Cons c cs)
  then show ?case by (auto split: if_splits list.splits)
qed simp

lemma split_on_noseps: "d \<notin> set s \<Longrightarrow> split_on d s = [s]"
  by (induction s) auto

lemma split_on_append_sep: "split_on d (xs @ d # ys) = split_on d xs @ split_on d ys"
proof (induction xs)
  case (Cons c cs)
  then show ?case by (cases "split_on d cs") auto
qed simp

lemma join_split: "join_with [d] (split_on d s) = s"
proof (induction s)
  case (Cons c cs)
  obtain p ps where ps: "split_on d cs = p # ps" by (cases "split_on d cs") auto
  with Cons show ?case by (cases ps) auto
qed simp

lemma split_join:
  assumes "ps \<noteq> []" and "\<forall>p \<in> set ps. d \<notin> set p"
  shows "split_on d (join_with [d] ps) = ps"
  using assms
proof (induction ps rule: induct_list012)
  case (2 p)
  then show ?case by (simp add: split_on_noseps)
next
  case (3 p q ps)
  then show ?case by (simp add: split_on_append_sep split_on_noseps)
qed simp

section \<open>std::filesystem::path\<close>

definition is_absolute :: "string \<Rightarrow> bool" where
  "is_absolute s = (case s of [] \<Rightarrow> False | c # _ \<Rightarrow> c = slash)"

definition filename :: "string \<Rightarrow> string" where
  "filename s = rev (takeWhile (\<lambda>c. c \<noteq> slash) (rev s))"

definition dir_part :: "string \<Rightarrow> string" where
  "dir_part s = rev (dropWhile (\<lambda>c. c \<noteq> slash) (rev s))"

definition strip_slashes :: "string \<Rightarrow> string" where
  "strip_slashes s = rev (dropWhile (\<lambda>c. c = slash) (rev s))"

text \<open>
  \<^verbatim>\<open>parent_path\<close>: a path with no relative part (empty, or slashes only) is its own parent;
  otherwise the last component and the slashes before it are cut, and what is left of a path
  whose only other component is the root directory is that root.
\<close>

definition parent_path :: "string \<Rightarrow> string" where
  "parent_path s =
     (if list_all (\<lambda>c. c = slash) s then s
      else let d = dir_part s; r = strip_slashes d
           in if d \<noteq> [] \<and> r = [] then [slash] else r)"

definition has_parent_path :: "string \<Rightarrow> bool" where
  "has_parent_path s \<longleftrightarrow> parent_path s \<noteq> []"

definition dot :: char where
  "dot = CHR ''.''"

definition stem_len :: "string \<Rightarrow> nat" where
  "stem_len f =
     (if f = ''.'' \<or> f = ''..'' then length f
      else let k = length (dropWhile (\<lambda>c. c \<noteq> dot) (rev f))
           in if k \<le> 1 then length f else k - 1)"

definition path_stem :: "string \<Rightarrow> string" where
  "path_stem s = take (stem_len (filename s)) (filename s)"

definition path_extension :: "string \<Rightarrow> string" where
  "path_extension s = drop (stem_len (filename s)) (filename s)"

lemma stem_extension: "path_stem s @ path_extension s = filename s"
  by (simp add: path_stem_def path_extension_def)

text \<open>The components the kernel walks: empty ones and \<^verbatim>\<open>.\<close> stand for the directory itself.\<close>

definition path_comps :: "string \<Rightarrow> string list" where
  "path_comps s = filter (\<lambda>p. p \<noteq> [] \<and> p \<noteq> ''.'') (split_on slash s)"

lemma path_comps_append: "path_comps (a @ slash # b) = path_comps a @ path_comps b"
  by (simp add: path_comps_def split_on_append_sep)

definition plain_name :: "string \<Rightarrow> bool" where
  "plain_name p \<longleftrightarrow> p \<noteq> [] \<and> p \<noteq> ''.'' \<and> p \<noteq> ''..'' \<and> slash \<notin> set p"

lemma path_comps_plain_name: "plain_name p \<Longrightarrow> path_comps p = [p]"
  by (simp add: plain_name_def path_comps_def split_on_noseps)

lemma dir_part_filename: "dir_part s @ filename s = s"
  by (metis dir_part_def filename_def rev_append rev_rev_ident takeWhile_dropWhile_id)

lemma dir_part_append [path_simps]:
  "slash \<notin> set f \<Longrightarrow> dir_part (d @ slash # f) = d @ [slash]"
  by (simp add: dir_part_def dropWhile_append2 dropWhile_neq_append)

lemma filename_append [path_simps]: "slash \<notin> set f \<Longrightarrow> filename (d @ slash # f) = f"
  by (simp add: filename_def takeWhile_neq_append)

lemma strip_slashes_snoc [path_simps]: "strip_slashes (s @ [slash]) = strip_slashes s"
  by (simp add: strip_slashes_def)

lemma strip_slashes_id: "s \<noteq> [] \<Longrightarrow> last s \<noteq> slash \<Longrightarrow> strip_slashes s = s"
  by (cases s rule: rev_cases) (auto simp: strip_slashes_def)

lemma strip_slashes_Nil [path_simps]: "strip_slashes [] = []"
  by (simp add: strip_slashes_def)

lemma parent_path_append:
  assumes "f \<noteq> []" and "slash \<notin> set f"
  shows "parent_path (d @ slash # f) = (if strip_slashes d = [] then [slash] else strip_slashes d)"
proof -
  have rel: "list_all (\<lambda>c. c = slash) (d @ slash # f) = False"
    using assms by (cases f) auto
  show ?thesis
    unfolding parent_path_def rel using assms(2) by (simp add: Let_def path_simps)
qed

lemma parent_path_child:
  assumes "d \<noteq> []" and "last d \<noteq> slash" and "f \<noteq> []" and "slash \<notin> set f"
  shows "parent_path (d @ slash # f) = d"
  using assms by (simp add: parent_path_append strip_slashes_id)

lemma parent_path_root_child: "f \<noteq> [] \<Longrightarrow> slash \<notin> set f \<Longrightarrow> parent_path (slash # f) = [slash]"
  using parent_path_append [of f "[]"] by (simp add: strip_slashes_def)

lemma parent_path_noslash: "f \<noteq> [] \<Longrightarrow> slash \<notin> set f \<Longrightarrow> parent_path f = []"
  by (cases f) (auto simp: parent_path_def dir_part_def strip_slashes_def Let_def
      dropWhile_neq_Nil)

lemma length_strip_slashes: "length (strip_slashes s) \<le> length s"
  using length_dropWhile_le [of "\<lambda>c. c = slash" "rev s"] by (simp add: strip_slashes_def)

text \<open>The parent is strictly shorter, unless the path has no relative part.\<close>

lemma parent_path_shorter:
  assumes "\<not> list_all (\<lambda>c. c = slash) s"
  shows "length (parent_path s) < length s"
proof (cases "slash \<in> set s")
  case False
  with assms have "parent_path s = []" and "s \<noteq> []"
    by (auto intro: parent_path_noslash)
  then show ?thesis by simp
next
  case True
  have split: "dir_part s @ filename s = s" by (rule dir_part_filename)
  have nonempty: "dropWhile (\<lambda>c. c \<noteq> slash) (rev s) \<noteq> []" using True by simp
  then have ends: "dir_part s \<noteq> []" "last (dir_part s) = slash"
    using hd_dropWhile [OF nonempty] by (simp_all add: dir_part_def last_rev)
  then obtain d where d: "dir_part s = d @ [slash]" by (metis append_butlast_last_id)
  have len: "length s = Suc (length d) + length (filename s)"
    using split d by (metis length_append length_append_singleton)
  show ?thesis
  proof (cases "strip_slashes d = []")
    case True
    have "parent_path s = [slash]"
      using assms d True by (simp add: parent_path_def Let_def path_simps)
    moreover have "length s \<noteq> 1"
      using assms d len split by (cases d) auto
    ultimately show ?thesis using len by simp
  next
    case False
    then have "parent_path s = strip_slashes d"
      using assms d by (simp add: parent_path_def Let_def path_simps)
    then show ?thesis using len length_strip_slashes [of d] by simp
  qed
qed

end
