(* ===== verification/BoostString.thy ===== *)
theory BoostString
  imports StdPath
begin

text \<open>
  The string algorithms of the Boost library that the sources call.  Boost is not part of the
  repository, so the model takes its functions as an argument: a record \<open>boost_api\<close>, written \<open>B\<close>
  in the definitions that use it.  The locale \<open>boost_string\<close> states their documented behaviour;
  \<open>boost_ref\<close> is an implementation of it on which the locale is interpreted.
\<close>

record boost_api =
  boost_starts_with :: "string \<Rightarrow> string \<Rightarrow> bool"
  boost_ends_with :: "string \<Rightarrow> string \<Rightarrow> bool"
  boost_contains :: "string \<Rightarrow> string \<Rightarrow> bool"
  boost_replace_all :: "string \<Rightarrow> string \<Rightarrow> string \<Rightarrow> string"
  boost_trim_left :: "string \<Rightarrow> string"
  boost_trim_right :: "string \<Rightarrow> string"
  boost_trim_all :: "string \<Rightarrow> string"
  boost_split :: "string \<Rightarrow> string \<Rightarrow> string list"

definition is_space :: "char \<Rightarrow> bool" where
  "is_space c \<longleftrightarrow> c \<in> {CHR '' '', CHR 0x09, CHR 0x0A, CHR 0x0B, CHR 0x0C, CHR 0x0D}"

text \<open>Pieces between single characters of a class, adjacent separators not merged.\<close>

fun split_class :: "(char \<Rightarrow> bool) \<Rightarrow> string \<Rightarrow> string list" where
  "split_class P [] = [[]]"
| "split_class P (c # cs) =
     (if P c then [] # split_class P cs
      else (case split_class P cs of [] \<Rightarrow> [[c]] | p # ps \<Rightarrow> (c # p) # ps))"

text \<open>Every run of spaces compressed to its first character.\<close>

fun squeeze_spaces :: "string \<Rightarrow> string" where
  "squeeze_spaces [] = []"
| "squeeze_spaces [c] = [c]"
| "squeeze_spaces (c # d # cs) =
     (if is_space c \<and> is_space d then squeeze_spaces (c # cs) else c # squeeze_spaces (d # cs))"

locale boost_string =
  fixes B :: boost_api
  assumes starts_with: "boost_starts_with B s p \<longleftrightarrow> prefix p s"
    and ends_with: "boost_ends_with B s p \<longleftrightarrow> suffix p s"
    and contains: "boost_contains B s p \<longleftrightarrow> sublist p s"
    and replace_all_Nil: "boost_replace_all B [] f t = []"
    and replace_all_hit: "f \<noteq> [] \<Longrightarrow> boost_replace_all B (f @ s) f t = t @ boost_replace_all B s f t"
    and replace_all_miss:
      "f \<noteq> [] \<Longrightarrow> \<not> prefix f (c # s) \<Longrightarrow>
       boost_replace_all B (c # s) f t = c # boost_replace_all B s f t"
    and trim_left: "boost_trim_left B s = dropWhile is_space s"
    and trim_right: "boost_trim_right B s = rev (dropWhile is_space (rev s))"
    and trim_all:
      "boost_trim_all B s = squeeze_spaces (dropWhile is_space (rev (dropWhile is_space (rev s))))"
    and split: "boost_split B s d = split_class (\<lambda>c. c \<in> set d) s"
begin

lemma replace_all_none:
  assumes "f \<noteq> []" and "\<not> sublist f s"
  shows "boost_replace_all B s f t = s"
  using assms(2)
proof (induction s)
  case Nil
  show ?case by (rule replace_all_Nil)
next
  case (Cons c s)
  then have "\<not> prefix f (c # s)" and "\<not> sublist f s"
    by (auto simp: sublist_Cons_right)
  with assms(1) Cons.IH show ?case by (simp add: replace_all_miss)
qed

end

section \<open>A reference implementation\<close>

function ref_replace_all :: "string \<Rightarrow> string \<Rightarrow> string \<Rightarrow> string" where
  "ref_replace_all s f t =
     (case s of [] \<Rightarrow> []
      | c # cs \<Rightarrow>
          if f \<noteq> [] \<and> prefix f s then t @ ref_replace_all (drop (length f) s) f t
          else c # ref_replace_all cs f t)"
  by pat_completeness auto
termination
  by (relation "measure (\<lambda>(s, f, t). length s)") auto

declare ref_replace_all.simps [simp del]

lemma ref_replace_all_Nil [simp]: "ref_replace_all [] f t = []"
  by (subst ref_replace_all.simps) simp

lemma ref_replace_all_hit:
  "f \<noteq> [] \<Longrightarrow> ref_replace_all (f @ s) f t = t @ ref_replace_all s f t"
  by (cases f) (simp_all add: ref_replace_all.simps [of "_ # _ @ _"])

lemma ref_replace_all_miss:
  "\<not> prefix f (c # s) \<Longrightarrow> ref_replace_all (c # s) f t = c # ref_replace_all s f t"
  by (subst ref_replace_all.simps) simp

definition boost_ref :: boost_api where
  "boost_ref =
     \<lparr> boost_starts_with = (\<lambda>s p. prefix p s),
       boost_ends_with = (\<lambda>s p. suffix p s),
       boost_contains = (\<lambda>s p. sublist p s),
       boost_replace_all = ref_replace_all,
       boost_trim_left = dropWhile is_space,
       boost_trim_right = (\<lambda>s. rev (dropWhile is_space (rev s))),
       boost_trim_all = (\<lambda>s. squeeze_spaces (dropWhile is_space (rev (dropWhile is_space (rev s))))),
       boost_split = (\<lambda>s d. split_class (\<lambda>c. c \<in> set d) s) \<rparr>"

lemma boost_ref_simps [simp]:
  "boost_starts_with boost_ref = (\<lambda>s p. prefix p s)"
  "boost_ends_with boost_ref = (\<lambda>s p. suffix p s)"
  "boost_contains boost_ref = (\<lambda>s p. sublist p s)"
  "boost_replace_all boost_ref = ref_replace_all"
  by (simp_all add: boost_ref_def)

interpretation ref: boost_string boost_ref
  by unfold_locales (simp_all add: boost_ref_def ref_replace_all_hit ref_replace_all_miss)

end
