(* ===== verification/UtilPath.thy ===== *)
theory UtilPath
  imports BoostString
begin

text \<open>
  The path routines of \<^verbatim>\<open>src/src/util/util.cc\<close>: \<^verbatim>\<open>UnifyDir\<close>, \<^verbatim>\<open>StartWith\<close> and its siblings,
  \<^verbatim>\<open>FindCommonRoot\<close>, \<^verbatim>\<open>Relative\<close>, \<^verbatim>\<open>ParentPath\<close>, \<^verbatim>\<open>SimplifyPath\<close> and \<^verbatim>\<open>RepoFilePath\<close>.  They work
  on strings only.  \<^verbatim>\<open>FindCommonRoot\<close> and the climbing loop of \<^verbatim>\<open>Relative\<close> are unbounded loops,
  so they are partial functions and \<open>None\<close> stands for not returning.
\<close>

section \<open>Definitions\<close>

definition StartWith :: "boost_api \<Rightarrow> string \<Rightarrow> string \<Rightarrow> bool" where
  "StartWith B str p = boost_starts_with B str p"

definition EndWith :: "boost_api \<Rightarrow> string \<Rightarrow> string \<Rightarrow> bool" where
  "EndWith B str p = boost_ends_with B str p"

definition Contain :: "boost_api \<Rightarrow> string \<Rightarrow> string \<Rightarrow> bool" where
  "Contain B str p = boost_contains B str p"

definition ReplaceAll :: "boost_api \<Rightarrow> string \<Rightarrow> string \<Rightarrow> string \<Rightarrow> string" where
  "ReplaceAll B s from to = boost_replace_all B s from to"

definition UnifyDir :: "boost_api \<Rightarrow> string \<Rightarrow> string" where
  "UnifyDir B path =
     ReplaceAll B
       (if length path > 1 \<and> last path = slash then butlast path else path) ''//'' ''/''"

definition IsAbsolute :: "string \<Rightarrow> bool" where
  "IsAbsolute src = is_absolute src"

definition ParentPath :: "string \<Rightarrow> string" where
  "ParentPath path = (if has_parent_path path then parent_path path else '''')"

partial_function (option) FindCommonRoot ::
  "boost_api \<Rightarrow> string \<Rightarrow> string \<Rightarrow> string option" where
  "FindCommonRoot B path t =
     (if StartWith B path t then Some t
      else if t = ''/'' then Some ''''
      else if has_parent_path t then FindCommonRoot B path (parent_path t)
      else Some '''')"

text \<open>The loop \<^verbatim>\<open>while (common_parent != t.string())\<close> of \<^verbatim>\<open>Relative\<close>.\<close>

partial_function (option) climb_to :: "string \<Rightarrow> string \<Rightarrow> string \<Rightarrow> string option" where
  "climb_to common t rel =
     (if common = t then Some rel else climb_to common (parent_path t) (rel @ ''../''))"

declare FindCommonRoot.simps [code] climb_to.simps [code]

text \<open>The returned flag and the final value of \<^verbatim>\<open>*relative\<close>.\<close>

definition Relative :: "boost_api \<Rightarrow> string \<Rightarrow> string \<Rightarrow> (bool \<times> string) option" where
  "Relative B path base =
     (let u_path = UnifyDir B path; u_base = UnifyDir B base
      in case FindCommonRoot B u_path u_base of
           None \<Rightarrow> None
         | Some common \<Rightarrow>
             if common = '''' then Some (False, '''')
             else (case climb_to common u_base '''' of
                     None \<Rightarrow> None
                   | Some rel \<Rightarrow>
                       Some (True, UnifyDir B
                         (if length u_path > length common
                          then rel @ drop (length common + 1) u_path else rel))))"

text \<open>The token loop of \<^verbatim>\<open>SimplifyPath\<close>; the head of the list is the top of \<^verbatim>\<open>dirs\<close>.\<close>

fun simplify_tokens :: "string list \<Rightarrow> string list \<Rightarrow> string list option" where
  "simplify_tokens [] dirs = Some dirs"
| "simplify_tokens (token # ts) dirs =
     (if token = ''..'' then
        (case dirs of [] \<Rightarrow> None | _ # ds \<Rightarrow> simplify_tokens ts ds)
      else if token \<noteq> '''' \<and> token \<noteq> ''.'' then simplify_tokens ts (token # dirs)
      else simplify_tokens ts dirs)"

fun unstack_dirs :: "string list \<Rightarrow> string \<Rightarrow> string" where
  "unstack_dirs [] out = out"
| "unstack_dirs (d # ds) out = unstack_dirs ds (d @ ''/'' @ out)"

definition SimplifyPath :: "boost_api \<Rightarrow> string \<Rightarrow> string \<Rightarrow> bool \<times> string" where
  "SimplifyPath B path out =
     (case simplify_tokens (getline_tokens slash path) [] of
        None \<Rightarrow> (False, out)
      | Some dirs \<Rightarrow>
          let out1 = unstack_dirs dirs out;
              out2 = (if path \<noteq> '''' \<and> path ! 0 = slash then ''/'' @ out1 else out1)
          in (True, UnifyDir B out2))"

text \<open>\<open>None\<close>: \<^verbatim>\<open>sha256.substr(2, 2)\<close> throws \<^verbatim>\<open>std::out_of_range\<close> on a hash of one byte or none.\<close>

definition RepoFilePath :: "boost_api \<Rightarrow> string \<Rightarrow> string \<Rightarrow> string option" where
  "RepoFilePath B repo_path sha256 =
     (if length sha256 < 2 then None
      else Some (UnifyDir B repo_path @ ''/'' @ take 2 sha256 @ ''/'' @ take 2 (drop 2 sha256)
                 @ ''/'' @ sha256))"

section \<open>Unified paths\<close>

text \<open>No two adjacent slashes.\<close>

fun no_dslash :: "string \<Rightarrow> bool" where
  "no_dslash (c # d # s) \<longleftrightarrow> \<not> (c = slash \<and> d = slash) \<and> no_dslash (d # s)"
| "no_dslash s \<longleftrightarrow> True"

definition unified :: "string \<Rightarrow> bool" where
  "unified s \<longleftrightarrow> no_dslash s \<and> (length s > 1 \<longrightarrow> last s \<noteq> slash)"

lemma no_dslash_sublist: "no_dslash s \<longleftrightarrow> \<not> sublist ''//'' s"
proof (induction s rule: no_dslash.induct)
  case (1 c d s)
  then show ?case by (auto simp: sublist_Cons_right)
qed (auto dest: sublist_length_le)

lemma no_dslash_append:
  "no_dslash (a @ b) \<longleftrightarrow>
     no_dslash a \<and> no_dslash b \<and> \<not> (a \<noteq> [] \<and> b \<noteq> [] \<and> last a = slash \<and> hd b = slash)"
proof (induction a rule: no_dslash.induct [case_names pair empty single])
  case (single v)
  show ?case by (cases b) auto
qed auto

lemma no_dslash_noslash: "slash \<notin> set s \<Longrightarrow> no_dslash s"
  by (induction s rule: no_dslash.induct) auto

lemma no_dslash_butlast: "no_dslash s \<Longrightarrow> no_dslash (butlast s)"
  by (cases s rule: rev_cases) (simp_all add: no_dslash_append)

lemma path_comps_slash: "path_comps (slash # s) = path_comps s"
  using path_comps_append [of "[]" s] by (simp add: path_comps_def)

lemma path_comps_snoc_slash: "path_comps (s @ [slash]) = path_comps s"
  using path_comps_append [of s "[]"] by (simp add: path_comps_def)

text \<open>Every run of slashes collapsed to one: what \<^verbatim>\<open>UnifyDir\<close> is for.\<close>

fun squeeze_slashes :: "string \<Rightarrow> string" where
  "squeeze_slashes (c # d # s) =
     (if c = slash \<and> d = slash then squeeze_slashes (d # s) else c # squeeze_slashes (d # s))"
| "squeeze_slashes s = s"

lemma hd_squeeze: "s \<noteq> [] \<Longrightarrow> squeeze_slashes s \<noteq> [] \<and> hd (squeeze_slashes s) = hd s"
  by (induction s rule: squeeze_slashes.induct) auto

lemma last_squeeze: "s \<noteq> [] \<Longrightarrow> last (squeeze_slashes s) = last s"
  by (induction s rule: squeeze_slashes.induct) (use hd_squeeze in auto)

lemma squeeze_no_dslash: "no_dslash (squeeze_slashes s)"
proof (induction s rule: squeeze_slashes.induct)
  case (1 c d s)
  obtain e t where "squeeze_slashes (d # s) = e # t" and "e = d"
    using hd_squeeze [of "d # s"] by (cases "squeeze_slashes (d # s)") auto
  with 1 show ?case by auto
qed auto

section \<open>UnifyDir\<close>

context boost_string
begin

lemma replace_dslash_none: "no_dslash s \<Longrightarrow> boost_replace_all B s ''//'' ''/'' = s"
  by (rule replace_all_none) (simp_all add: no_dslash_sublist)

lemma unify_no_dslash:
  "no_dslash s \<Longrightarrow>
     UnifyDir B s = (if length s > 1 \<and> last s = slash then butlast s else s)"
  by (simp add: UnifyDir_def ReplaceAll_def replace_dslash_none no_dslash_butlast)

lemma unify_unified: "unified s \<Longrightarrow> UnifyDir B s = s"
  by (auto simp: unified_def unify_no_dslash)

lemma replace_dslash_squeeze:
  "\<not> sublist ''///'' s \<Longrightarrow> boost_replace_all B s ''//'' ''/'' = squeeze_slashes s"
proof (induction s rule: length_induct)
  case (1 s)
  show ?case
  proof (cases "prefix ''//'' s")
    case True
    then obtain r where s: "s = slash # slash # r" by (auto simp: prefix_def)
    have sub: "\<not> sublist ''///'' r" using 1(2) s by (auto simp: sublist_Cons_right)
    have IH: "boost_replace_all B r ''//'' ''/'' = squeeze_slashes r"
      using 1(1) sub s by simp
    have "r = [] \<or> hd r \<noteq> slash" using 1(2) s by (cases r) (auto simp: sublist_Cons_right)
    then have "squeeze_slashes s = slash # squeeze_slashes r" by (cases r) (auto simp: s)
    with IH show ?thesis using replace_all_hit [of "''//''" r "''/''"] by (simp add: s)
  next
    case miss: False
    show ?thesis
    proof (cases s)
      case Nil
      then show ?thesis by (simp add: replace_all_Nil)
    next
      case (Cons c r)
      then have "\<not> sublist ''///'' r" using 1(2) by (auto simp: sublist_Cons_right)
      then have IH: "boost_replace_all B r ''//'' ''/'' = squeeze_slashes r"
        using 1(1) Cons by simp
      have "squeeze_slashes s = c # squeeze_slashes r"
        using miss Cons by (cases r) auto
      with IH miss show ?thesis by (simp add: Cons replace_all_miss)
    qed
  qed
qed

lemma replace_dslash_pieces:
  "hd (split_on slash (boost_replace_all B s ''//'' ''/'')) = hd (split_on slash s) \<and>
   filter (\<lambda>p. p \<noteq> [] \<and> p \<noteq> ''.'') (tl (split_on slash (boost_replace_all B s ''//'' ''/''))) =
   filter (\<lambda>p. p \<noteq> [] \<and> p \<noteq> ''.'') (tl (split_on slash s))"
proof (induction s rule: length_induct)
  case (1 s)
  show ?case
  proof (cases "prefix ''//'' s")
    case True
    then obtain r where s: "s = slash # slash # r" by (auto simp: prefix_def)
    define R where "R = boost_replace_all B r ''//'' ''/''"
    have IH: "hd (split_on slash R) = hd (split_on slash r)"
      "filter (\<lambda>p. p \<noteq> [] \<and> p \<noteq> ''.'') (tl (split_on slash R)) =
       filter (\<lambda>p. p \<noteq> [] \<and> p \<noteq> ''.'') (tl (split_on slash r))"
      using 1 s unfolding R_def by auto
    have "boost_replace_all B s ''//'' ''/'' = slash # R"
      using replace_all_hit [of "''//''" r "''/''"] by (simp add: s R_def)
    with IH show ?thesis
      by (cases "split_on slash R"; cases "split_on slash r") (auto simp: s)
  next
    case miss: False
    show ?thesis
    proof (cases s)
      case Nil
      then show ?thesis by (simp add: replace_all_Nil)
    next
      case (Cons c r)
      define R where "R = boost_replace_all B r ''//'' ''/''"
      have IH: "hd (split_on slash R) = hd (split_on slash r)"
        "filter (\<lambda>p. p \<noteq> [] \<and> p \<noteq> ''.'') (tl (split_on slash R)) =
         filter (\<lambda>p. p \<noteq> [] \<and> p \<noteq> ''.'') (tl (split_on slash r))"
        using 1 Cons unfolding R_def by auto
      have "boost_replace_all B s ''//'' ''/'' = c # R"
        using miss Cons by (simp add: replace_all_miss R_def)
      with IH show ?thesis
        by (cases "split_on slash R"; cases "split_on slash r") (auto simp: Cons)
    qed
  qed
qed

lemma path_comps_replace_dslash:
  "path_comps (boost_replace_all B s ''//'' ''/'') = path_comps s"
  using replace_dslash_pieces [of s]
  by (cases "split_on slash s"; cases "split_on slash (boost_replace_all B s ''//'' ''/'')")
     (auto simp: path_comps_def)

lemma path_comps_UnifyDir: "path_comps (UnifyDir B s) = path_comps s"
proof (cases "length s > 1 \<and> last s = slash")
  case True
  then obtain r where "s = r @ [slash]" by (cases s rule: rev_cases) auto
  then show ?thesis
    using True by (simp add: UnifyDir_def ReplaceAll_def path_comps_replace_dslash
        path_comps_snoc_slash)
next
  case False
  then show ?thesis by (auto simp: UnifyDir_def ReplaceAll_def path_comps_replace_dslash)
qed

lemma hd_replace_dslash:
  "s \<noteq> [] \<Longrightarrow> boost_replace_all B s ''//'' ''/'' \<noteq> [] \<and>
     hd (boost_replace_all B s ''//'' ''/'') = hd s"
proof (cases "prefix ''//'' s")
  case True
  then obtain r where "s = ''//'' @ r" by (auto simp: prefix_def)
  then show ?thesis using replace_all_hit [of "''//''" r "''/''"] by simp
next
  case False
  assume "s \<noteq> []"
  with False show ?thesis by (cases s) (auto simp: replace_all_miss)
qed

lemma is_absolute_UnifyDir: "is_absolute (UnifyDir B s) = is_absolute s"
proof -
  define r where "r = (if length s > 1 \<and> last s = slash then butlast s else s)"
  have r: "r = [] \<longleftrightarrow> s = []" "s \<noteq> [] \<Longrightarrow> hd r = hd s"
    unfolding r_def by (cases s; cases "tl s"; auto)+
  have "UnifyDir B s = boost_replace_all B r ''//'' ''/''"
    by (simp add: UnifyDir_def ReplaceAll_def r_def)
  with r hd_replace_dslash [of r] show ?thesis
    by (cases s; cases "boost_replace_all B r ''//'' ''/''")
       (auto simp: is_absolute_def replace_all_Nil)
qed

end

section \<open>FindCommonRoot and Relative\<close>

lemma parent_path_not_slashes:
  assumes "\<not> list_all (\<lambda>c. c = slash) s"
  shows "\<not> (list_all (\<lambda>c. c = slash) (parent_path s) \<and> 2 \<le> length (parent_path s))"
proof -
  define r where "r = strip_slashes (dir_part s)"
  have "r = [] \<or> last r \<noteq> slash"
    using hd_dropWhile [of "\<lambda>c. c = slash" "rev (dir_part s)"]
    by (auto simp: r_def strip_slashes_def last_rev)
  moreover have "parent_path s = r \<or> parent_path s = [slash]"
    using assms by (simp add: parent_path_def Let_def r_def)
  ultimately show ?thesis
    by (cases r rule: rev_cases) auto
qed

text \<open>\<open>ancestor a t\<close>: climbing from \<open>t\<close> by \<^verbatim>\<open>parent_path\<close> reaches \<open>a\<close>.\<close>

inductive ancestor :: "string \<Rightarrow> string \<Rightarrow> bool" for a where
  ancestor_self: "ancestor a a"
| ancestor_up: "ancestor a (parent_path t) \<Longrightarrow> ancestor a t"

fun ups :: "nat \<Rightarrow> string" where
  "ups 0 = ''''"
| "ups (Suc n) = ''../'' @ ups n"

lemma climb_to_ancestor:
  "ancestor a t \<Longrightarrow> \<exists>n. climb_to a t rel = Some (rel @ ups n)"
proof (induction arbitrary: rel rule: ancestor.induct)
  case ancestor_self
  have "climb_to a a rel = Some (rel @ ups 0)" by (simp add: climb_to.simps)
  then show ?case by blast
next
  case (ancestor_up t)
  show ?case
  proof (cases "a = t")
    case True
    then have "climb_to a t rel = Some (rel @ ups 0)" by (simp add: climb_to.simps)
    then show ?thesis by blast
  next
    case False
    obtain n where "climb_to a (parent_path t) (rel @ ''../'') = Some ((rel @ ''../'') @ ups n)"
      using ancestor_up.IH by blast
    then have "climb_to a t rel = Some (rel @ ups (Suc n))"
      using False by (simp add: climb_to.simps [of a t])
    then show ?thesis by blast
  qed
qed

fun child_path :: "string \<Rightarrow> string list \<Rightarrow> string" where
  "child_path d [] = d"
| "child_path d (n # ns) = child_path (d @ slash # n) ns"

lemma child_path_snoc: "child_path d (ns @ [n]) = child_path d ns @ slash # n"
  by (induction ns arbitrary: d) auto

lemma child_path_prefix: "prefix d (child_path d ns)"
proof (induction ns arbitrary: d)
  case (Cons n ns)
  have "prefix d (d @ slash # n)" by simp
  then show ?case using Cons prefix_order.trans by fastforce
qed simp

lemma child_path_prefix1: "ns \<noteq> [] \<Longrightarrow> prefix (d @ slash # hd ns) (child_path d ns)"
  by (cases ns) (simp_all add: child_path_prefix)

lemma child_path_end:
  "d \<noteq> [] \<Longrightarrow> last d \<noteq> slash \<Longrightarrow> \<forall>n \<in> set ns. n \<noteq> [] \<and> slash \<notin> set n \<Longrightarrow>
   child_path d ns \<noteq> [] \<and> last (child_path d ns) \<noteq> slash"
proof (induction ns arbitrary: d)
  case (Cons n ns)
  have "last n \<noteq> slash" using Cons.prems(3) by (metis last_in_set list.set_intros(1))
  then have "last (d @ slash # n) \<noteq> slash" using Cons.prems by simp
  then show ?case using Cons by simp
qed simp

lemma parent_child_path:
  assumes "d \<noteq> []" "last d \<noteq> slash" "\<forall>n \<in> set (ns @ [n]). n \<noteq> [] \<and> slash \<notin> set n"
  shows "parent_path (child_path d (ns @ [n])) = child_path d ns"
  using assms child_path_end [of d ns] by (simp add: child_path_snoc parent_path_child)

lemma climb_child_path:
  assumes "d \<noteq> []" "last d \<noteq> slash" "\<forall>n \<in> set ns. n \<noteq> [] \<and> slash \<notin> set n"
  shows "climb_to d (child_path d ns) rel = Some (rel @ ups (length ns))"
  using assms(3)
proof (induction ns arbitrary: rel rule: rev_induct)
  case Nil
  then show ?case by (simp add: climb_to.simps)
next
  case (snoc n ns)
  have "length d < length (child_path d (ns @ [n]))"
    using prefix_length_le [OF child_path_prefix, of d ns] by (simp add: child_path_snoc)
  then have "d \<noteq> child_path d (ns @ [n])" by auto
  moreover have "parent_path (child_path d (ns @ [n])) = child_path d ns"
    using snoc.prems by (intro parent_child_path assms) auto
  ultimately show ?case
    using snoc by (simp add: climb_to.simps [of d "child_path d (ns @ [n])"])
qed

lemma ups_end: "ups (Suc n) \<noteq> [] \<and> last (ups (Suc n)) = slash \<and> no_dslash (ups n)"
proof (induction n)
  case (Suc n)
  have "no_dslash (''../'' @ ups n)"
    using Suc by (cases n) (simp_all add: no_dslash_append del: append.simps)
  then show ?case using Suc by simp
qed simp

context boost_string
begin

lemma common_root_unfold:
  "FindCommonRoot B path t =
     (if prefix t path then Some t
      else if t = ''/'' then Some ''''
      else if has_parent_path t then FindCommonRoot B path (parent_path t)
      else Some '''')"
  by (subst FindCommonRoot.simps) (simp add: StartWith_def starts_with)

lemma common_root_returns:
  "(list_all (\<lambda>c. c = slash) t \<and> 2 \<le> length t \<longrightarrow> prefix t path) \<Longrightarrow>
   \<exists>r. FindCommonRoot B path t = Some r \<and> (r = '''' \<or> prefix r path \<and> ancestor r t)"
proof (induction t rule: length_induct)
  case (1 t)
  show ?case
  proof (cases "prefix t path \<or> t = ''/'' \<or> \<not> has_parent_path t")
    case True
    then show ?thesis
      by (auto simp: common_root_unfold [of path t] intro: ancestor_self)
  next
    case False
    have rel: "\<not> list_all (\<lambda>c. c = slash) t"
    proof
      assume "list_all (\<lambda>c. c = slash) t"
      with False 1(2) have "t = '''' \<or> t = ''/''"
        by (cases t; cases "tl t") auto
      with False show False by auto
    qed
    have "length (parent_path t) < length t" using rel by (rule parent_path_shorter)
    with 1(1) parent_path_not_slashes [OF rel] obtain r where
      "FindCommonRoot B path (parent_path t) = Some r"
      "r = '''' \<or> prefix r path \<and> ancestor r (parent_path t)" by blast
    with False show ?thesis
      by (auto simp: common_root_unfold [of path t] intro: ancestor_up)
  qed
qed

lemma common_root_diverges:
  assumes "list_all (\<lambda>c. c = slash) t" "2 \<le> length t" "\<not> prefix t path"
  shows "FindCommonRoot B path t = None"
proof (rule ccontr)
  assume "FindCommonRoot B path t \<noteq> None"
  then obtain r where ret: "FindCommonRoot B path t = Some r" by blast
  let ?P = "\<lambda>B' path' t' r. B' = B \<and> path' = path \<and> t' = t \<longrightarrow> False"
  have self: "parent_path t = t" "has_parent_path t" "t \<noteq> ''/''"
    using assms by (auto simp: parent_path_def has_parent_path_def)
  have "?P B path t r"
    using FindCommonRoot.raw_induct [where P = ?P, OF _ ret] assms(3) self
    by (fastforce simp: StartWith_def starts_with)
  then show False by simp
qed

lemma common_root_child_path:
  assumes "d \<noteq> []" "last d \<noteq> slash" "\<forall>n \<in> set ns. n \<noteq> [] \<and> slash \<notin> set n"
    and "prefix d path" and "ns \<noteq> [] \<longrightarrow> \<not> prefix (d @ slash # hd ns) path"
  shows "FindCommonRoot B path (child_path d ns) = Some d"
  using assms(3,5)
proof (induction ns rule: rev_induct)
  case Nil
  then show ?case using assms(4) by (simp add: common_root_unfold)
next
  case (snoc n ns)
  let ?t = "child_path d (ns @ [n])"
  have par: "parent_path ?t = child_path d ns"
    using snoc.prems by (intro parent_child_path assms) auto
  have "prefix (d @ slash # hd (ns @ [n])) ?t" by (rule child_path_prefix1) simp
  then have miss: "\<not> prefix ?t path" using snoc.prems(2) prefix_order.trans by blast
  have "has_parent_path ?t"
    using child_path_end [OF assms(1,2), of ns] snoc.prems(1) by (simp add: has_parent_path_def par)
  moreover have "?t \<noteq> ''/''"
    using child_path_end [OF assms(1,2), of ns] snoc.prems(1)
    by (cases "child_path d ns") (auto simp: child_path_snoc)
  moreover have "FindCommonRoot B path (child_path d ns) = Some d"
  proof (cases "ns = []")
    case True
    then show ?thesis using assms(4) by (simp add: common_root_unfold)
  next
    case False
    then show ?thesis using snoc by auto
  qed
  ultimately show ?case by (simp add: common_root_unfold [of path ?t] miss par)
qed

lemma relative_child_path:
  assumes d: "d \<noteq> []" "last d \<noteq> slash" and ns: "\<forall>n \<in> set ns. n \<noteq> [] \<and> slash \<notin> set n"
    and p: "unified (d @ slash # rest)" "rest \<noteq> []"
    and b: "unified (child_path d ns)"
    and apart: "ns \<noteq> [] \<longrightarrow> \<not> prefix (d @ slash # hd ns) (d @ slash # rest)"
  shows "Relative B (d @ slash # rest) (child_path d ns) = Some (True, ups (length ns) @ rest)"
proof -
  have root: "FindCommonRoot B (d @ slash # rest) (child_path d ns) = Some d"
    using d ns apart by (intro common_root_child_path) auto
  have rest: "no_dslash rest" "hd rest \<noteq> slash" "last rest \<noteq> slash"
    using p by (auto simp: unified_def no_dslash_append neq_Nil_conv)
  have "unified (ups (length ns) @ rest)"
  proof (cases "length ns")
    case 0
    then show ?thesis using rest by (auto simp: unified_def)
  next
    case (Suc k)
    then show ?thesis
      using rest p(2) ups_end [of k] ups_end [of "Suc k"]
      by (auto simp: unified_def no_dslash_append simp del: ups.simps)
  qed
  then show ?thesis
    using d ns by (simp add: Relative_def Let_def unify_unified p(1) b root climb_child_path)
qed

end

section \<open>SimplifyPath\<close>

text \<open>Does a walk along the components, started at depth \<open>n\<close>, ever leave the top directory?\<close>

fun escapes :: "nat \<Rightarrow> string list \<Rightarrow> bool" where
  "escapes n [] = False"
| "escapes n (c # cs) =
     (if c = ''..'' then (case n of 0 \<Rightarrow> True | Suc m \<Rightarrow> escapes m cs) else escapes (Suc n) cs)"

definition render_path :: "bool \<Rightarrow> string list \<Rightarrow> string" where
  "render_path a names = (if a then ''/'' else '''') @ join_with ''/'' names"

lemma simplify_tokens_filter:
  "simplify_tokens (filter (\<lambda>p. p \<noteq> [] \<and> p \<noteq> ''.'') ts) ds = simplify_tokens ts ds"
  by (induction ts ds rule: simplify_tokens.induct) (auto split: list.splits)

lemma filter_getline_tokens:
  "filter (\<lambda>p. p \<noteq> [] \<and> p \<noteq> ''.'') (getline_tokens slash p) = path_comps p"
proof -
  obtain ps l where "split_on slash p = ps @ [l]"
    by (cases "split_on slash p" rule: rev_cases) auto
  then show ?thesis by (simp add: getline_tokens_def path_comps_def Let_def)
qed

lemma simplify_getline:
  "simplify_tokens (getline_tokens slash p) ds = simplify_tokens (path_comps p) ds"
  using simplify_tokens_filter [of "getline_tokens slash p" ds]
  by (simp add: filter_getline_tokens)

lemma simplify_None_iff:
  "\<forall>t \<in> set ts. t \<noteq> [] \<and> t \<noteq> ''.'' \<Longrightarrow>
   simplify_tokens ts ds = None \<longleftrightarrow> escapes (length ds) ts"
  by (induction ts ds rule: simplify_tokens.induct) (auto split: list.splits nat.splits)

lemma simplify_names:
  "simplify_tokens ts ds = Some r \<Longrightarrow> \<forall>d \<in> set ds. plain_name d \<Longrightarrow>
   \<forall>t \<in> set ts. slash \<notin> set t \<Longrightarrow> \<forall>d \<in> set r. plain_name d"
proof (induction ts ds rule: simplify_tokens.induct)
  case (2 token ts dirs)
  show ?case
  proof (cases "token = ''..''")
    case True
    then show ?thesis using 2 by (cases dirs) simp_all
  next
    case False
    show ?thesis
    proof (cases "token \<noteq> [] \<and> token \<noteq> ''.''")
      case True
      then have "plain_name token" using False 2(6) by (simp add: plain_name_def)
      then show ?thesis using 2(2,4,5,6) False True by simp
    next
      case skip: False
      then have "simplify_tokens ts dirs = Some r" using 2(4) False by auto
      then show ?thesis using 2(3,5,6) False skip by auto
    qed
  qed
qed simp

lemma simplify_plain:
  "\<forall>t \<in> set ts. plain_name t \<Longrightarrow> simplify_tokens ts ds = Some (rev ts @ ds)"
  by (induction ts arbitrary: ds) (auto simp: plain_name_def)

lemma unstack_dirs_eq: "unstack_dirs ds out = concat (map (\<lambda>d. d @ ''/'') (rev ds)) @ out"
  by (induction ds arbitrary: out) auto

lemma concat_names:
  "ns \<noteq> [] \<Longrightarrow> concat (map (\<lambda>d. d @ ''/'') ns) = join_with ''/'' ns @ ''/''"
  by (induction ns rule: induct_list012) auto

lemma path_comps_noslash: "t \<in> set (path_comps p) \<Longrightarrow> slash \<notin> set t"
  by (auto simp: path_comps_def dest: split_on_no_sep)

lemma path_comps_proper: "t \<in> set (path_comps p) \<Longrightarrow> t \<noteq> [] \<and> t \<noteq> ''.''"
  by (simp add: path_comps_def)

lemma path_comps_join: "\<forall>t \<in> set ns. plain_name t \<Longrightarrow> path_comps (join_with ''/'' ns) = ns"
proof (induction ns rule: induct_list012)
  case 1
  then show ?case by (simp add: path_comps_def)
next
  case (2 n)
  then show ?case by (simp add: path_comps_plain_name)
next
  case (3 n m ns)
  then show ?case by (simp add: path_comps_append path_comps_plain_name)
qed

lemma plain_name_ends:
  assumes "plain_name t"
  shows "t \<noteq> [] \<and> hd t \<noteq> slash \<and> last t \<noteq> slash \<and> no_dslash t"
proof -
  have "t \<noteq> []" "slash \<notin> set t" using assms by (simp_all add: plain_name_def)
  then show ?thesis by (metis hd_in_set last_in_set no_dslash_noslash)
qed

lemma join_names_shape:
  "ns \<noteq> [] \<Longrightarrow> \<forall>t \<in> set ns. plain_name t \<Longrightarrow>
   join_with ''/'' ns \<noteq> [] \<and> hd (join_with ''/'' ns) \<noteq> slash \<and>
   last (join_with ''/'' ns) \<noteq> slash \<and> no_dslash (join_with ''/'' ns)"
proof (induction ns rule: induct_list012)
  case (3 n m ns)
  let ?j = "join_with ''/'' (m # ns)"
  have j: "?j \<noteq> []" "hd ?j \<noteq> slash" "last ?j \<noteq> slash" "no_dslash ?j" using 3 by auto
  have n: "n \<noteq> []" "hd n \<noteq> slash" "last n \<noteq> slash" "no_dslash n"
    using 3 plain_name_ends by auto
  have "no_dslash (n @ [slash] @ ?j)"
    unfolding no_dslash_append [of n] no_dslash_append [of "[slash]"] using j n by auto
  with j n show ?case by simp
qed (simp_all add: plain_name_ends)

lemma render_comps: "\<forall>t \<in> set ns. plain_name t \<Longrightarrow> path_comps (render_path a ns) = ns"
  by (simp add: render_path_def path_comps_slash path_comps_join)

lemma render_absolute: "\<forall>t \<in> set ns. plain_name t \<Longrightarrow> is_absolute (render_path a ns) = a"
  using join_names_shape [of ns]
  by (cases ns; cases "join_with ''/'' ns") (auto simp: render_path_def is_absolute_def)

lemma render_unified: "\<forall>t \<in> set ns. plain_name t \<Longrightarrow> unified (render_path a ns)"
proof (cases "ns = []")
  case False
  assume "\<forall>t \<in> set ns. plain_name t"
  with False have j: "join_with ''/'' ns \<noteq> []" "hd (join_with ''/'' ns) \<noteq> slash"
    "last (join_with ''/'' ns) \<noteq> slash" "no_dslash (join_with ''/'' ns)"
    using join_names_shape by auto
  have "no_dslash ([slash] @ join_with ''/'' ns)"
    unfolding no_dslash_append using j by auto
  with j show ?thesis by (simp add: unified_def render_path_def)
qed (simp add: unified_def render_path_def)

context boost_string
begin

lemma unify_render_slash:
  assumes "\<forall>t \<in> set ns. plain_name t" and "ns \<noteq> []"
  shows "UnifyDir B (render_path a ns @ ''/'') = render_path a ns"
proof -
  have "unified (render_path a ns)" using assms(1) by (rule render_unified)
  moreover have "join_with ''/'' ns \<noteq> []" using assms join_names_shape by blast
  then have "render_path a ns \<noteq> []" "length (render_path a ns @ ''/'') > 1"
    "last (render_path a ns) \<noteq> slash"
    using join_names_shape [OF assms(2,1)] by (auto simp: render_path_def)
  ultimately have "no_dslash (render_path a ns @ ''/'')"
    by (simp add: unified_def no_dslash_append)
  then show ?thesis
    using \<open>length (render_path a ns @ ''/'') > 1\<close> by (simp add: unify_no_dslash)
qed

lemma simplify_value:
  "SimplifyPath B p '''' =
     (case simplify_tokens (path_comps p) [] of
        None \<Rightarrow> (False, '''')
      | Some ds \<Rightarrow> (True, render_path (is_absolute p) (rev ds)))"
proof (cases "simplify_tokens (path_comps p) []")
  case None
  then show ?thesis by (simp add: SimplifyPath_def simplify_getline)
next
  case (Some ds)
  have names: "\<forall>d \<in> set (rev ds). plain_name d"
    using simplify_names [OF Some] path_comps_noslash by simp
  have abs: "(p \<noteq> [] \<and> p ! 0 = slash) = is_absolute p"
    by (cases p) (auto simp: is_absolute_def)
  have "UnifyDir B ((if is_absolute p then ''/'' else '''') @ unstack_dirs ds '''') =
      render_path (is_absolute p) (rev ds)"
  proof (cases "ds = []")
    case True
    then show ?thesis by (simp add: render_path_def unify_no_dslash)
  next
    case False
    then have "(if is_absolute p then ''/'' else '''') @ unstack_dirs ds '''' =
        render_path (is_absolute p) (rev ds) @ ''/''"
      by (simp add: unstack_dirs_eq concat_names render_path_def)
    then show ?thesis using unify_render_slash [OF names] False by simp
  qed
  then show ?thesis
    using abs by (simp add: SimplifyPath_def simplify_getline Some Let_def split: if_splits)
qed

lemma simplify_correct:
  assumes "SimplifyPath B p '''' = (True, r)"
  shows "\<forall>t \<in> set (path_comps r). plain_name t" "is_absolute r = is_absolute p" "unified r"
    "simplify_tokens (path_comps p) [] = Some (rev (path_comps r))"
    "SimplifyPath B r '''' = (True, r)"
proof -
  obtain ds where ds: "simplify_tokens (path_comps p) [] = Some ds"
    and r: "r = render_path (is_absolute p) (rev ds)"
    using assms by (auto simp: simplify_value split: option.splits)
  have names: "\<forall>d \<in> set (rev ds). plain_name d"
    using simplify_names [OF ds] path_comps_noslash by simp
  then have comps: "path_comps r = rev ds" by (simp only: r render_comps)
  show "\<forall>t \<in> set (path_comps r). plain_name t" using names comps by simp
  show abs: "is_absolute r = is_absolute p" using names by (simp only: r render_absolute)
  show "unified r" using names by (simp only: r render_unified)
  show "simplify_tokens (path_comps p) [] = Some (rev (path_comps r))" by (simp add: ds comps)
  show "SimplifyPath B r '''' = (True, r)"
    using names by (simp add: simplify_value comps simplify_plain abs) (simp add: r)
qed

end

section \<open>Properties\<close>

text \<open>\<^verbatim>\<open>UnifyDir\<close> never changes which file a path names: for every input, the components
  the kernel walks and whether the path is absolute stay the same.\<close>

theorem UnifyDir_same_file:
  assumes "boost_string B"
  shows "path_comps (UnifyDir B p) = path_comps p \<and> is_absolute (UnifyDir B p) = is_absolute p"
  using assms by (simp add: boost_string.path_comps_UnifyDir boost_string.is_absolute_UnifyDir)

theorem UnifyDir_same_file_witness:
  "path_comps (UnifyDir boost_ref ''/data///x/'') = [''data'', ''x''] \<and>
   is_absolute (UnifyDir boost_ref ''/data///x/'')"
  using UnifyDir_same_file [OF ref.boost_string_axioms, of "''/data///x/''"]
  by (simp add: path_comps_def is_absolute_def)

text \<open>On every path without three adjacent slashes that does not end in two, \<^verbatim>\<open>UnifyDir\<close>
  computes the canonical spelling: each run of slashes collapsed and no trailing slash, and it
  is a fixed point of \<^verbatim>\<open>UnifyDir\<close>.\<close>

theorem UnifyDir_canonical:
  assumes "boost_string B" and "\<not> sublist ''///'' p" and "\<not> suffix ''//'' p"
  shows "unified (UnifyDir B p) \<and> UnifyDir B (UnifyDir B p) = UnifyDir B p \<and>
         UnifyDir B p =
           squeeze_slashes (if length p > 1 \<and> last p = slash then butlast p else p)"
proof -
  define q where "q = (if length p > 1 \<and> last p = slash then butlast p else p)"
  have "sublist q p" by (auto simp: q_def sublist_butlast)
  then have "\<not> sublist ''///'' q" using assms(2) sublist_order.order_trans by blast
  then have val: "UnifyDir B p = squeeze_slashes q"
    using boost_string.replace_dslash_squeeze [OF assms(1)]
    unfolding UnifyDir_def ReplaceAll_def q_def [symmetric] by blast
  have "q \<noteq> [] \<and> last q = slash \<longrightarrow> length q \<le> 1"
    using assms(3) by (cases p rule: rev_cases; cases "butlast p" rule: rev_cases)
      (auto simp: q_def suffix_def butlast_append)
  then have "unified (squeeze_slashes q)"
    using squeeze_no_dslash [of q] last_squeeze [of q]
    by (cases q rule: squeeze_slashes.cases) (auto simp: unified_def)
  then show ?thesis
    using val boost_string.unify_unified [OF assms(1)] unfolding q_def [symmetric] by simp
qed

theorem UnifyDir_canonical_witness:
  "unified (UnifyDir boost_ref ''/data//test/'') \<and>
   UnifyDir boost_ref ''/data//test/'' = ''/data/test''"
  using UnifyDir_canonical [OF ref.boost_string_axioms, of "''/data//test/''"]
  by (simp add: sublist_Cons_right suffix_def Cons_eq_append_conv unified_def)

text \<open>C36: \<^verbatim>\<open>FindCommonRoot\<close> returns on every input except a base of two or more slashes that is
  not a prefix of the path, where its loop runs for ever (\<^verbatim>\<open>parent_path\<close> of such a base is the
  base itself).\<close>

theorem FindCommonRoot_returns_iff:
  assumes "boost_string B"
  shows "(\<exists>r. FindCommonRoot B path base = Some r) \<longleftrightarrow>
         (list_all (\<lambda>c. c = slash) base \<and> 2 \<le> length base \<longrightarrow> prefix base path)"
  using boost_string.common_root_returns [OF assms, of base path]
    boost_string.common_root_diverges [OF assms, of base path]
  by (cases "FindCommonRoot B path base") auto

theorem FindCommonRoot_returns_iff_witness:
  "FindCommonRoot boost_ref ''/a'' ''//'' = None \<and>
   (\<exists>r. FindCommonRoot boost_ref ''/a'' ''/b/c'' = Some r)"
  using FindCommonRoot_returns_iff [OF ref.boost_string_axioms, of "''/a''" "''//''"]
    FindCommonRoot_returns_iff [OF ref.boost_string_axioms, of "''/a''" "''/b/c''"]
  by auto

text \<open>\<^verbatim>\<open>Relative\<close> of a path below a directory \<open>d\<close>, seen from a base \<open>ns\<close> levels below the same
  directory, climbs exactly those levels and then names the rest of the path; with no levels
  it is the rest itself, so base, slash and result give the path back.\<close>

theorem Relative_via_common_dir:
  assumes "boost_string B" and "d \<noteq> []" and "last d \<noteq> slash"
    and "\<forall>n \<in> set ns. n \<noteq> [] \<and> slash \<notin> set n"
    and "unified (d @ ''/'' @ rest)" and "rest \<noteq> []" and "unified (child_path d ns)"
    and "ns \<noteq> [] \<longrightarrow> \<not> prefix (d @ ''/'' @ hd ns) (d @ ''/'' @ rest)"
  shows "Relative B (d @ ''/'' @ rest) (child_path d ns) = Some (True, ups (length ns) @ rest)"
  using boost_string.relative_child_path [OF assms(1-4), of rest] assms(5-8) by simp

theorem Relative_via_common_dir_witness:
  "Relative boost_ref (''/usr'' @ ''/'' @ ''test1/x'') (child_path ''/usr'' [''a'', ''b'']) =
     Some (True, ups (length [''a'', ''b'']) @ ''test1/x'')"
  by (rule Relative_via_common_dir [OF ref.boost_string_axioms]) (simp_all add: unified_def)

text \<open>\<^verbatim>\<open>FindCommonRoot\<close> compares strings, not components: a sibling whose name extends the
  base's name by one character is reported as the base itself (an empty relative path), and
  relative to the root directory the first character of the path is lost.\<close>

theorem Relative_string_prefix:
  assumes "boost_string B" and "unified d" and "d \<noteq> []" and "c \<noteq> slash"
    and "unified (''/'' @ [c] @ rest)"
  shows "Relative B (d @ [c]) d = Some (True, '''') \<and>
         Relative B (''/'' @ [c] @ rest) ''/'' = Some (True, rest)"
proof -
  note unify = boost_string.unify_unified [OF assms(1)]
  have rel: "Relative B (e @ [c] @ r) e = Some (True, r)"
    if e: "unified e" "e \<noteq> []" "unified (e @ [c] @ r)" "unified r" for e r
  proof -
    have "FindCommonRoot B (e @ [c] @ r) e = Some e"
      by (simp add: boost_string.common_root_unfold [OF assms(1)])
    moreover have "climb_to e e '''' = Some ''''" by (simp add: climb_to.simps)
    ultimately show ?thesis using e by (simp add: Relative_def Let_def unify)
  qed
  have "no_dslash (d @ [c])" using assms(2,4) by (simp add: unified_def no_dslash_append)
  then have "unified (d @ [c] @ [])" using assms(4) by (simp add: unified_def)
  moreover have "unified rest" using assms(5)
    by (auto simp: unified_def no_dslash_append [of "''/'' @ [c]" rest, simplified]
        split: if_splits)
  moreover have "unified ''/''" "unified ''''" by (simp_all add: unified_def)
  ultimately show ?thesis
    using rel [of d "[]"] rel [of "''/''" rest] assms(2,3,5) by auto
qed

theorem Relative_string_prefix_witness:
  "Relative boost_ref (''/data/ab'' @ [CHR ''c'']) ''/data/ab'' = Some (True, '''') \<and>
   Relative boost_ref (''/'' @ [CHR ''c''] @ ''fg'') ''/'' = Some (True, ''fg'')"
  by (rule Relative_string_prefix [OF ref.boost_string_axioms]) (simp_all add: unified_def)



end
