(* ===== verification/UtilString.thy ===== *)
theory UtilString
  imports UtilPath
begin

text \<open>
  The string routines of \<^verbatim>\<open>src/src/util/util.cc\<close> and \<^verbatim>\<open>util.h\<close>: case conversion, trimming,
  splitting, number parsing with \<^verbatim>\<open>std::from_chars\<close> and hexadecimal printing.  The hexadecimal
  printer is the fmt library's, a parameter with the law \<open>fmt_hex\<close>.
\<close>

section \<open>std::from_chars\<close>

datatype errc = invalid_argument | result_out_of_range

definition digit_val :: "char \<Rightarrow> nat option" where
  "digit_val c =
     (let n = of_char c :: nat
      in if 48 \<le> n \<and> n \<le> 57 then Some (n - 48)
         else if 97 \<le> n \<and> n \<le> 122 then Some (n - 87)
         else if 65 \<le> n \<and> n \<le> 90 then Some (n - 55)
         else None)"

definition is_digit :: "nat \<Rightarrow> char \<Rightarrow> bool" where
  "is_digit b c = (case digit_val c of None \<Rightarrow> False | Some v \<Rightarrow> v < b)"

fun digits_val :: "nat \<Rightarrow> nat \<Rightarrow> string \<Rightarrow> nat" where
  "digits_val b acc [] = acc"
| "digits_val b acc (c # cs) = digits_val b (acc * b + the (digit_val c)) cs"

text \<open>
  An optional minus sign and the longest run of digits; the value is stored only when there is
  a digit and the number is in the range of the target type.
\<close>

definition from_chars :: "nat \<Rightarrow> int \<Rightarrow> int \<Rightarrow> string \<Rightarrow> errc + int" where
  "from_chars b lo hi str =
     (let neg = (str \<noteq> [] \<and> hd str = CHR ''-'');
          ds = takeWhile (is_digit b) (if neg then tl str else str);
          v = (if neg then - int (digits_val b 0 ds) else int (digits_val b 0 ds))
      in if ds = [] then Inl invalid_argument
         else if lo \<le> v \<and> v \<le> hi then Inr v else Inl result_out_of_range)"

section \<open>Definitions\<close>

definition toupper :: "char \<Rightarrow> char" where
  "toupper c = (let n = of_char c :: nat in if 97 \<le> n \<and> n \<le> 122 then char_of (n - 32) else c)"

definition tolower :: "char \<Rightarrow> char" where
  "tolower c = (let n = of_char c :: nat in if 65 \<le> n \<and> n \<le> 90 then char_of (n + 32) else c)"

definition ToUpper :: "string \<Rightarrow> string" where
  "ToUpper str = map toupper str"

definition ToLower :: "string \<Rightarrow> string" where
  "ToLower str = map tolower str"

definition Trim :: "boost_api \<Rightarrow> string \<Rightarrow> string" where
  "Trim B str = boost_trim_left B (boost_trim_right B str)"

definition Split :: "boost_api \<Rightarrow> string \<Rightarrow> string \<Rightarrow> bool \<Rightarrow> string list" where
  "Split B str delim trim_empty =
     (if str = '''' then []
      else if trim_empty then boost_split B (boost_trim_all B str) delim
      else boost_split B str delim)"

text \<open>The two \<^verbatim>\<open>ToInt\<close> templates at \<^verbatim>\<open>int32_t\<close> and \<^verbatim>\<open>int64_t\<close>.\<close>

definition ToInt32 :: "string \<Rightarrow> int" where
  "ToInt32 str = (case from_chars 10 (- (2 ^ 31)) (2 ^ 31 - 1) str of Inl _ \<Rightarrow> 0 | Inr n \<Rightarrow> n)"

definition ToInt64 :: "string \<Rightarrow> int" where
  "ToInt64 str = (case from_chars 10 (- (2 ^ 63)) (2 ^ 63 - 1) str of Inl _ \<Rightarrow> 0 | Inr n \<Rightarrow> n)"

text \<open>The returned flag and the value of \<^verbatim>\<open>*out\<close>.\<close>

definition HexStrToInt64 :: "string \<Rightarrow> bool \<times> int" where
  "HexStrToInt64 str =
     (case from_chars 16 (- (2 ^ 63)) (2 ^ 63 - 1) str of
        Inr v \<Rightarrow> (False, v) | Inl _ \<Rightarrow> (True, 0))"

type_synonym fmt_hex_fn = "bool \<Rightarrow> nat \<Rightarrow> nat \<Rightarrow> string"

definition ToHexStr_u64 :: "fmt_hex_fn \<Rightarrow> nat \<Rightarrow> bool \<Rightarrow> string" where
  "ToHexStr_u64 fmt n upper = fmt upper 16 n"

definition ToHexStr :: "fmt_hex_fn \<Rightarrow> bytes \<Rightarrow> bool \<Rightarrow> string" where
  "ToHexStr fmt s upper = concat (map (\<lambda>c. fmt upper 2 (of_char c)) s)"

section \<open>Hexadecimal printing\<close>

text \<open>
  The documented behaviour of the format specification \<^verbatim>\<open>{:0Wx}\<close> for a value of at most \<^verbatim>\<open>W\<close>
  digits: exactly \<^verbatim>\<open>W\<close> hexadecimal digits whose value is the number.
\<close>

locale fmt_hex =
  fixes fmt :: fmt_hex_fn
  assumes hex_length: "n < 16 ^ w \<Longrightarrow> length (fmt u w n) = w"
    and hex_digits: "n < 16 ^ w \<Longrightarrow> c \<in> set (fmt u w n) \<Longrightarrow> is_digit 16 c"
    and hex_value: "n < 16 ^ w \<Longrightarrow> digits_val 16 0 (fmt u w n) = n"
begin

lemma hex_inj: "n < 16 ^ w \<Longrightarrow> m < 16 ^ w \<Longrightarrow> fmt u w n = fmt u w m \<Longrightarrow> n = m"
  using hex_value by metis

lemma byte_bound: "of_char (c :: char) < (16 ^ 2 :: nat)"
  by simp

lemma hex_str_length: "length (ToHexStr fmt s u) = 2 * length s"
  by (induction s) (simp_all add: ToHexStr_def hex_length)

lemma hex_str_inj: "ToHexStr fmt s u = ToHexStr fmt t u \<Longrightarrow> s = t"
proof (induction s arbitrary: t)
  case Nil
  then have "length (ToHexStr fmt t u) = 0" by (simp add: ToHexStr_def)
  then show ?case by (simp add: hex_str_length)
next
  case (Cons c s)
  then have "length (ToHexStr fmt t u) = 2 * length (c # s)"
    by (metis hex_str_length)
  then obtain d t' where t: "t = d # t'"
    by (cases t) (auto simp: hex_str_length)
  have "fmt u 2 (of_char c) @ ToHexStr fmt s u = fmt u 2 (of_char d) @ ToHexStr fmt t' u"
    using Cons.prems by (simp add: t ToHexStr_def)
  then have eq: "fmt u 2 (of_char c) = fmt u 2 (of_char d)" "ToHexStr fmt s u = ToHexStr fmt t' u"
    by (simp_all add: append_eq_append_conv hex_length)
  then have "of_char c = (of_char d :: nat)" by (intro hex_inj [OF byte_bound byte_bound])
  then show ?case using Cons.IH [OF eq(2)] by (simp add: t)
qed

lemma hex_str_digits: "c \<in> set (ToHexStr fmt s u) \<Longrightarrow> is_digit 16 c"
  by (auto simp: ToHexStr_def dest!: hex_digits [OF byte_bound])

lemma hex_u64_parse:
  assumes "n < 2 ^ 63"
  shows "from_chars 16 (- (2 ^ 63)) (2 ^ 63 - 1) (ToHexStr_u64 fmt n u) = Inr (int n)"
proof -
  have n: "n < 16 ^ 16" using assms by simp
  let ?s = "fmt u 16 n"
  have digits: "takeWhile (is_digit 16) ?s = ?s" using hex_digits [OF n] by (simp add: takeWhile_eq_all_conv)
  have ne: "?s \<noteq> []" using hex_length [OF n, of u] by auto
  then have "is_digit 16 (hd ?s)" using hex_digits [OF n, of "hd ?s" u] hd_in_set by blast
  then have "hd ?s \<noteq> CHR ''-''" by (auto simp: is_digit_def digit_val_def)
  then have "from_chars 16 (- (2 ^ 63)) (2 ^ 63 - 1) ?s =
      (if int n \<le> 2 ^ 63 - 1 then Inr (int n) else Inl result_out_of_range)"
    unfolding from_chars_def Let_def using ne by (simp add: digits hex_value [OF n])
  then show ?thesis using assms by (simp add: ToHexStr_u64_def)
qed

end

text \<open>A printer with these laws.\<close>

definition hex_digit :: "bool \<Rightarrow> nat \<Rightarrow> char" where
  "hex_digit upper v = (if v < 10 then char_of (48 + v) else char_of ((if upper then 55 else 87) + v))"

fun hex_pad :: "bool \<Rightarrow> nat \<Rightarrow> nat \<Rightarrow> string" where
  "hex_pad upper 0 n = []"
| "hex_pad upper (Suc w) n = hex_pad upper w (n div 16) @ [hex_digit upper (n mod 16)]"

lemma hex_digit_val: "v < 16 \<Longrightarrow> digit_val (hex_digit u v) = Some v"
  by (auto simp: digit_val_def hex_digit_def Let_def of_char_of take_bit_nat_def)

lemma digits_val_snoc: "digits_val b a (s @ [c]) = digits_val b a s * b + the (digit_val c)"
  by (induction s arbitrary: a) auto

lemma hex_pad_length: "length (hex_pad u w n) = w"
  by (induction w arbitrary: n) auto

lemma hex_pad_digits: "c \<in> set (hex_pad u w n) \<Longrightarrow> is_digit 16 c"
  by (induction w arbitrary: n) (auto simp: is_digit_def hex_digit_val)

lemma hex_pad_value: "n < 16 ^ w \<Longrightarrow> digits_val 16 0 (hex_pad u w n) = n"
proof (induction w arbitrary: n)
  case (Suc w)
  then have "n div 16 < 16 ^ w" by (simp add: less_mult_imp_div_less)
  then show ?case using Suc.IH by (simp add: digits_val_snoc hex_digit_val)
qed simp

interpretation hex_ref: fmt_hex hex_pad
  by unfold_locales (simp_all add: hex_pad_length hex_pad_digits hex_pad_value)

section \<open>Properties\<close>

text \<open>\<^verbatim>\<open>ToHexStr\<close> of a byte string is twice as long and loses nothing: equal hexadecimal
  strings come from equal byte strings, so comparing hashes in hexadecimal compares the digests.\<close>

theorem ToHexStr_faithful:
  assumes "fmt_hex fmt"
  shows "length (ToHexStr fmt s u) = 2 * length s \<and>
         (ToHexStr fmt s u = ToHexStr fmt t u \<longleftrightarrow> s = t)"
  using fmt_hex.hex_str_length [OF assms] fmt_hex.hex_str_inj [OF assms] by blast

theorem ToHexStr_faithful_witness:
  "length (ToHexStr hex_pad ''Az'' False) = 4 \<and>
   ToHexStr hex_pad ''Az'' False \<noteq> ToHexStr hex_pad ''Ay'' False"
  using ToHexStr_faithful [OF hex_ref.fmt_hex_axioms, of "''Az''" False "''Ay''"] by simp

text \<open>Parsing the sixteen-digit form of a 63-bit number with \<^verbatim>\<open>HexStrToInt64\<close> recovers the
  number, while the flag it returns for this success is false.\<close>

theorem HexStrToInt64_roundtrip:
  assumes "fmt_hex fmt" and "n < 2 ^ 63"
  shows "HexStrToInt64 (ToHexStr_u64 fmt n u) = (False, int n)"
  using fmt_hex.hex_u64_parse [OF assms] by (simp add: HexStrToInt64_def)

theorem HexStrToInt64_roundtrip_witness:
  "HexStrToInt64 (ToHexStr_u64 hex_pad 255 False) = (False, 255)"
  using HexStrToInt64_roundtrip [OF hex_ref.fmt_hex_axioms, of 255] by simp

end
