(* ===== verification/BlockingQueue.thy ===== *)
theory BlockingQueue
  imports Prelude
begin

text \<open>
  The two queues of the program: \<^verbatim>\<open>common::BlockingQueue\<close> (\<^verbatim>\<open>src/src/common/blocking_queue.h\<close>), used
  by the connection pool and the scan and sync workers, and \<^verbatim>\<open>async_grpc::common::BlockingQueue\<close>
  (\<^verbatim>\<open>src/src/async_grpc/common/blocking_queue.h\<close>), the bounded event queue of the RPC server.  Each
  member function runs under the queue's mutex, so it is one atomic step; a call that waits for a
  condition is a partial step (\<open>None\<close>: it blocks in this state).
\<close>

section \<open>common::BlockingQueue\<close>

type_synonym 'a bqueue = "'a list"

definition BQ_Size :: "'a bqueue \<Rightarrow> nat" where
  "BQ_Size q = length q"

definition BQ_PushBack :: "'a \<Rightarrow> 'a bqueue \<Rightarrow> 'a bqueue" where
  "BQ_PushBack t q = q @ [t]"

definition BQ_PopBack :: "'a bqueue \<Rightarrow> ('a \<times> 'a bqueue) option" where
  "BQ_PopBack q = (if q = [] then None else Some (last q, butlast q))"

definition BQ_PopFront :: "'a bqueue \<Rightarrow> ('a \<times> 'a bqueue) option" where
  "BQ_PopFront q = (case q of [] \<Rightarrow> None | t # q' \<Rightarrow> Some (t, q'))"

definition BQ_Clear :: "'a bqueue \<Rightarrow> 'a bqueue" where
  "BQ_Clear q = []"

section \<open>async_grpc::common::BlockingQueue\<close>

record 'a abq =
  queue_size :: nat
  deque :: "'a list"

definition kInfiniteQueueSize :: nat where
  "kInfiniteQueueSize = 0"

definition QueueEmptyCondition :: "'a abq \<Rightarrow> bool" where
  "QueueEmptyCondition q \<longleftrightarrow> deque q = []"

definition QueueNotFullCondition :: "'a abq \<Rightarrow> bool" where
  "QueueNotFullCondition q \<longleftrightarrow>
     queue_size q = kInfiniteQueueSize \<or> length (deque q) < queue_size q"

definition ABQ_Push :: "'a \<Rightarrow> 'a abq \<Rightarrow> 'a abq option" where
  "ABQ_Push t q = (if QueueNotFullCondition q then Some (q\<lparr>deque := deque q @ [t]\<rparr>) else None)"

text \<open>The state is the one in which the wait ends, by the condition or by the timeout.\<close>

definition ABQ_PushWithTimeout :: "'a \<Rightarrow> 'a abq \<Rightarrow> bool \<times> 'a abq" where
  "ABQ_PushWithTimeout t q =
     (if \<not> QueueNotFullCondition q then (False, q) else (True, q\<lparr>deque := deque q @ [t]\<rparr>))"

definition ABQ_Pop :: "'a abq \<Rightarrow> ('a \<times> 'a abq) option" where
  "ABQ_Pop q =
     (if \<not> QueueEmptyCondition q then Some (hd (deque q), q\<lparr>deque := tl (deque q)\<rparr>) else None)"

definition ABQ_PopWithTimeout :: "'a abq \<Rightarrow> 'a option \<times> 'a abq" where
  "ABQ_PopWithTimeout q =
     (if QueueEmptyCondition q then (None, q)
      else (Some (hd (deque q)), q\<lparr>deque := tl (deque q)\<rparr>))"

definition ABQ_Peek :: "'a abq \<Rightarrow> 'a option" where
  "ABQ_Peek q = (case deque q of [] \<Rightarrow> None | t # _ \<Rightarrow> Some t)"

definition ABQ_Size :: "'a abq \<Rightarrow> nat" where
  "ABQ_Size q = length (deque q)"

definition ABQ_WaitUntilEmpty :: "'a abq \<Rightarrow> unit option" where
  "ABQ_WaitUntilEmpty q = (if QueueEmptyCondition q then Some () else None)"

section \<open>First in, first out\<close>

datatype 'a qop = QPush 'a | QPop

text \<open>
  A schedule of calls by any number of threads, in the order in which they get the lock; a call
  that would block is not scheduled in that state and changes nothing.  The trace keeps what was
  pushed and what was popped.
\<close>

fun qrun ::
  "('a \<Rightarrow> 'q \<Rightarrow> 'q option) \<Rightarrow> ('q \<Rightarrow> ('a \<times> 'q) option) \<Rightarrow> 'a qop list \<Rightarrow> 'q \<times> 'a list \<times> 'a list
   \<Rightarrow> 'q \<times> 'a list \<times> 'a list" where
  "qrun push pop [] st = st"
| "qrun push pop (QPush x # ops) (q, ins, outs) =
     (case push x q of
        None \<Rightarrow> qrun push pop ops (q, ins, outs)
      | Some q' \<Rightarrow> qrun push pop ops (q', ins @ [x], outs))"
| "qrun push pop (QPop # ops) (q, ins, outs) =
     (case pop q of
        None \<Rightarrow> qrun push pop ops (q, ins, outs)
      | Some (x, q') \<Rightarrow> qrun push pop ops (q', ins, outs @ [x]))"

locale fifo =
  fixes push :: "'a \<Rightarrow> 'q \<Rightarrow> 'q option" and pop :: "'q \<Rightarrow> ('a \<times> 'q) option"
    and items :: "'q \<Rightarrow> 'a list" and ok :: "'q \<Rightarrow> bool"
  assumes push_items: "push x q = Some q' \<Longrightarrow> items q' = items q @ [x]"
    and pop_items: "pop q = Some (x, q') \<Longrightarrow> items q = x # items q'"
    and pop_None: "pop q = None \<longleftrightarrow> items q = []"
    and push_ok: "ok q \<Longrightarrow> push x q = Some q' \<Longrightarrow> ok q'"
    and pop_ok: "ok q \<Longrightarrow> pop q = Some (x, q') \<Longrightarrow> ok q'"
begin

lemma run_order:
  "qrun push pop ops (q, ins, outs) = (q', ins', outs') \<Longrightarrow> ins = outs @ items q
   \<Longrightarrow> ins' = outs' @ items q'"
proof (induction ops arbitrary: q ins outs)
  case (Cons op ops)
  show ?case
  proof (cases op)
    case (QPush x)
    then show ?thesis
      using Cons.IH Cons.prems push_items by (cases "push x q") fastforce+
  next
    case QPop
    then show ?thesis
      using Cons.IH Cons.prems pop_items by (cases "pop q") fastforce+
  qed
qed simp

lemma run_ok: "qrun push pop ops (q, ins, outs) = (q', ins', outs') \<Longrightarrow> ok q \<Longrightarrow> ok q'"
proof (induction ops arbitrary: q ins outs)
  case (Cons op ops)
  show ?case
  proof (cases op)
    case (QPush x)
    then show ?thesis using Cons push_ok by (cases "push x q") auto
  next
    case QPop
    then show ?thesis using Cons pop_ok by (cases "pop q") auto
  qed
qed simp

end

definition abq_bounded :: "'a abq \<Rightarrow> bool" where
  "abq_bounded q \<longleftrightarrow> queue_size q = kInfiniteQueueSize \<or> length (deque q) \<le> queue_size q"

interpretation bq: fifo "\<lambda>x q. Some (BQ_PushBack x q)" BQ_PopFront id "\<lambda>q. True"
  by unfold_locales (auto simp: BQ_PushBack_def BQ_PopFront_def split: list.splits)

interpretation abq: fifo ABQ_Push ABQ_Pop deque abq_bounded
  by unfold_locales
    (auto simp: ABQ_Push_def ABQ_Pop_def abq_bounded_def QueueNotFullCondition_def
      QueueEmptyCondition_def split: if_splits)

text \<open>A pool: what is pushed and popped at the same end.\<close>

locale pool =
  fixes put :: "'a \<Rightarrow> 'q \<Rightarrow> 'q" and get :: "'q \<Rightarrow> ('a \<times> 'q) option" and content :: "'q \<Rightarrow> 'a list"
  assumes put_content: "content (put x q) = content q @ [x]"
    and get_content: "get q = Some (x, q') \<Longrightarrow> content q = content q' @ [x]"
    and get_None: "get q = None \<longleftrightarrow> content q = []"
begin

lemma get_mem: "get q = Some (x, q') \<Longrightarrow> x \<in> set (content q) \<and> set (content q') \<subseteq> set (content q)"
  using get_content [of q x q'] by auto

lemma get_distinct:
  "get q = Some (x, q') \<Longrightarrow> distinct (content q) \<Longrightarrow> distinct (content q') \<and> x \<notin> set (content q')"
  using get_content [of q x q'] by auto

lemma get_count: "get q = Some (x, q') \<Longrightarrow> length (content q) = Suc (length (content q'))"
  using get_content [of q x q'] by auto

end

interpretation conn_pool: pool BQ_PushBack BQ_PopBack id
  by unfold_locales (auto simp: BQ_PushBack_def BQ_PopBack_def split: if_splits)

section \<open>Properties\<close>



text \<open>
  \<^verbatim>\<open>common::BlockingQueue\<close> used with \<^verbatim>\<open>PushBack\<close> and \<^verbatim>\<open>PopFront\<close> delivers every value exactly
  once and in order, under every interleaving of its callers.
\<close>

theorem BQ_fifo:
  assumes "qrun (\<lambda>x q. Some (BQ_PushBack x q)) BQ_PopFront ops ([], [], []) = (q, ins, outs)"
  shows "ins = outs @ q"
  using bq.run_order [OF assms] by simp

theorem BQ_fifo_witness:
  "qrun (\<lambda>x q. Some (BQ_PushBack x q)) BQ_PopFront [QPush (7::nat), QPop, QPop, QPush 8] ([], [], [])
     = ([8], [7, 8], [7]) \<and> [7, 8] = [7] @ [8::nat]"
proof -
  have run: "qrun (\<lambda>x q. Some (BQ_PushBack x q)) BQ_PopFront [QPush (7::nat), QPop, QPop, QPush 8] ([], [], [])
     = ([8], [7, 8], [7])" by code_simp
  from BQ_fifo [OF run] run show ?thesis by blast
qed

end
