(* ===== verification/FileSystem.thy ===== *)
theory FileSystem
  imports UtilPath "HOL-Library.AList"
begin

text \<open>
  The file system the program runs on: the part of POSIX and of \<^verbatim>\<open>std::filesystem\<close> that the
  sources call.  A file system is a table from absolute component lists to nodes; a name is
  looked up by walking its components, following symbolic links (at most 40, as Linux does).
  Whatever makes a call fail for a reason outside this table (permissions, a full disk, an I/O
  error) is an input: \<open>fs_faults\<close> holds one entry for each call that can fail in such a way, and
  an exhausted list means that no such failure happens.  \<open>fs_clock\<close> is the time stamp that a
  modification leaves.  Read-only queries fail only for the reasons the table shows.
\<close>

datatype errno =
  ENOENT | EEXIST | ENOTDIR | EISDIR | EACCES | ENOSPC | ELOOP | ENOTEMPTY | EINVAL | EBUSY
  | ENXIO | EIO

datatype fkind = KDir | KReg bytes | KLink string | KSock

record fnode =
  nkind :: fkind
  nmtime :: "int \<times> int"
  nuid :: int
  ngid :: int

text \<open>
  A failure the environment injects.  A stream write may stop after some bytes: \<open>Short\<close> is
  noticed by the write call itself, \<open>Late\<close> only when the buffer is flushed by \<^verbatim>\<open>close\<close>.
\<close>

datatype fault = NoFault | SysErr errno | Short nat errno | Late nat errno

type_synonym fpath = "string list"
type_synonym fnodes = "(fpath \<times> fnode) list"

record fs =
  fs_nodes :: fnodes
  fs_cwd :: fpath
  fs_clock :: "int \<times> int"
  fs_ids :: "int \<times> int"
  fs_faults :: "fault list"

definition node_at :: "fnodes \<Rightarrow> fpath \<Rightarrow> fnode option" where
  "node_at N p = map_of N p"

definition kind_at :: "fnodes \<Rightarrow> fpath \<Rightarrow> fkind option" where
  "kind_at N p = map_option nkind (node_at N p)"

definition is_dir :: "fnodes \<Rightarrow> fpath \<Rightarrow> bool" where
  "is_dir N p \<longleftrightarrow> kind_at N p = Some KDir"

definition next_fault :: "fs \<Rightarrow> fault \<times> fs" where
  "next_fault s =
     (case fs_faults s of [] \<Rightarrow> (NoFault, s) | f # fl \<Rightarrow> (f, s\<lparr>fs_faults := fl\<rparr>))"

fun fault_errno :: "fault \<Rightarrow> errno option" where
  "fault_errno NoFault = None"
| "fault_errno (SysErr e) = Some e"
| "fault_errno (Short n e) = Some e"
| "fault_errno (Late n e) = None"

section \<open>Name lookup\<close>

text \<open>
  The components of a path name.  A name that ends in a slash stands for the directory of that
  name, which a final \<^verbatim>\<open>.\<close> expresses.
\<close>

definition walk_comps :: "string \<Rightarrow> string list" where
  "walk_comps s =
     (let cs = filter (\<lambda>p. p \<noteq> []) (split_on slash s)
      in if cs \<noteq> [] \<and> last s = slash then cs @ [''.''] else cs)"

text \<open>
  \<open>walk links N follow dir cs\<close> looks up \<open>cs\<close> from \<open>dir\<close>; \<open>follow\<close> says whether a symbolic link in
  the last position is followed; the last component need not exist.
\<close>

function walk :: "nat \<Rightarrow> fnodes \<Rightarrow> bool \<Rightarrow> fpath \<Rightarrow> string list \<Rightarrow> errno + fpath" where
  "walk links N follow dir [] = Inr dir"
| "walk links N follow dir (c # cs) =
     (case kind_at N dir of
        None \<Rightarrow> Inl ENOENT
      | Some k \<Rightarrow>
          if k \<noteq> KDir then Inl ENOTDIR
          else if c = ''.'' then walk links N follow dir cs
          else if c = ''..'' then walk links N follow (butlast dir) cs
          else (case kind_at N (dir @ [c]) of
                  None \<Rightarrow> if cs = [] then Inr (dir @ [c]) else Inl ENOENT
                | Some k' \<Rightarrow>
                    (case k' of
                       KLink t \<Rightarrow>
                         if cs = [] \<and> \<not> follow then Inr (dir @ [c])
                         else if links = 0 then Inl ELOOP
                         else if t = [] then Inl ENOENT
                         else walk (links - 1) N follow
                                (if is_absolute t then [] else dir) (walk_comps t @ cs)
                     | _ \<Rightarrow> walk links N follow (dir @ [c]) cs)))"
  by pat_completeness auto
termination
  by (relation "measures [\<lambda>(l, N, f, d, cs). l, \<lambda>(l, N, f, d, cs). length cs]") auto

definition max_links :: nat where
  "max_links = 40"

definition resolve :: "fs \<Rightarrow> bool \<Rightarrow> string \<Rightarrow> errno + fpath" where
  "resolve s follow path =
     (if path = [] then Inl ENOENT
      else walk max_links (fs_nodes s) follow
             (if is_absolute path then [] else fs_cwd s) (walk_comps path))"

section \<open>Queries\<close>

definition stat_at :: "fs \<Rightarrow> bool \<Rightarrow> string \<Rightarrow> errno + fnode" where
  "stat_at s follow path =
     (case resolve s follow path of
        Inl e \<Rightarrow> Inl e
      | Inr p \<Rightarrow> (case node_at (fs_nodes s) p of None \<Rightarrow> Inl ENOENT | Some n \<Rightarrow> Inr n))"

definition sys_lstat :: "fs \<Rightarrow> string \<Rightarrow> errno + fnode" where
  "sys_lstat s path = stat_at s False path"

definition sys_stat :: "fs \<Rightarrow> string \<Rightarrow> errno + fnode" where
  "sys_stat s path = stat_at s True path"

text \<open>
  \<^verbatim>\<open>std::filesystem::status\<close>: a name that is not there is the ordinary result \<^verbatim>\<open>not_found\<close>
  (\<open>Inr None\<close>), every other error is thrown (\<open>Inl\<close>).
\<close>

definition status_of :: "errno + fnode \<Rightarrow> errno + fkind option" where
  "status_of r =
     (case r of
        Inr n \<Rightarrow> Inr (Some (nkind n))
      | Inl e \<Rightarrow> if e = ENOENT \<or> e = ENOTDIR then Inr None else Inl e)"

definition fs_status :: "fs \<Rightarrow> string \<Rightarrow> errno + fkind option" where
  "fs_status s path = status_of (sys_stat s path)"

definition fs_symlink_status :: "fs \<Rightarrow> string \<Rightarrow> errno + fkind option" where
  "fs_symlink_status s path = status_of (sys_lstat s path)"

definition fs_exists :: "fs \<Rightarrow> string \<Rightarrow> errno + bool" where
  "fs_exists s path = map_sum id (\<lambda>k. k \<noteq> None) (fs_status s path)"

definition fs_is_symlink :: "fs \<Rightarrow> string \<Rightarrow> errno + bool" where
  "fs_is_symlink s path =
     map_sum id (\<lambda>k. case k of Some (KLink t) \<Rightarrow> True | _ \<Rightarrow> False) (fs_symlink_status s path)"

definition fs_is_directory :: "fs \<Rightarrow> string \<Rightarrow> errno + bool" where
  "fs_is_directory s path = map_sum id (\<lambda>k. k = Some KDir) (fs_status s path)"

definition fs_is_regular :: "fs \<Rightarrow> string \<Rightarrow> errno + bool" where
  "fs_is_regular s path =
     map_sum id (\<lambda>k. case k of Some (KReg d) \<Rightarrow> True | _ \<Rightarrow> False) (fs_status s path)"

definition fs_read_symlink :: "fs \<Rightarrow> string \<Rightarrow> errno + string" where
  "fs_read_symlink s path =
     (case sys_lstat s path of
        Inl e \<Rightarrow> Inl e
      | Inr n \<Rightarrow> (case nkind n of KLink t \<Rightarrow> Inr t | _ \<Rightarrow> Inl EINVAL))"

text \<open>The size \<^verbatim>\<open>stat\<close> reports; a directory's own size is not modelled and counts as 4096.\<close>

fun kind_size :: "fkind \<Rightarrow> nat" where
  "kind_size KDir = 4096"
| "kind_size (KReg d) = length d"
| "kind_size (KLink t) = length t"
| "kind_size KSock = 0"

text \<open>The entries of a directory, in the order of the table.\<close>

definition children :: "fnodes \<Rightarrow> fpath \<Rightarrow> string list" where
  "children N p = map last (filter (\<lambda>q. q \<noteq> [] \<and> butlast q = p) (map fst N))"

definition fs_list_dir :: "fs \<Rightarrow> string \<Rightarrow> errno + string list" where
  "fs_list_dir s path =
     (case resolve s True path of
        Inl e \<Rightarrow> Inl e
      | Inr p \<Rightarrow>
          (case kind_at (fs_nodes s) p of
             None \<Rightarrow> Inl ENOENT
           | Some k \<Rightarrow> if k = KDir then Inr (children (fs_nodes s) p) else Inl ENOTDIR))"

text \<open>
  Reading a whole file through \<^verbatim>\<open>std::ifstream\<close>: a directory can be opened for reading, the
  first read then fails and sets \<^verbatim>\<open>badbit\<close> (the flag of the pair); a socket cannot be opened.
\<close>

definition read_stream :: "fs \<Rightarrow> string \<Rightarrow> errno + bytes \<times> bool" where
  "read_stream s path =
     (case sys_stat s path of
        Inl e \<Rightarrow> Inl e
      | Inr n \<Rightarrow>
          (case nkind n of
             KReg d \<Rightarrow> Inr (d, False)
           | KDir \<Rightarrow> Inr ([], True)
           | _ \<Rightarrow> Inl ENXIO))"

definition render :: "fpath \<Rightarrow> string" where
  "render p = (if p = [] then ''/'' else concat (map (\<lambda>c. slash # c) p))"

section \<open>Updates\<close>

definition new_node :: "fs \<Rightarrow> fkind \<Rightarrow> fnode" where
  "new_node s k = \<lparr>nkind = k, nmtime = fs_clock s, nuid = fst (fs_ids s), ngid = snd (fs_ids s)\<rparr>"

definition put_node :: "fpath \<Rightarrow> fnode \<Rightarrow> fs \<Rightarrow> fs" where
  "put_node p n s = s\<lparr>fs_nodes := AList.update p n (fs_nodes s)\<rparr>"

text \<open>New content for the regular file at \<open>p\<close>; the modification time moves to the clock.\<close>

definition set_content :: "fpath \<Rightarrow> bytes \<Rightarrow> fs \<Rightarrow> fs" where
  "set_content p d s =
     (case node_at (fs_nodes s) p of
        None \<Rightarrow> s
      | Some n \<Rightarrow>
          (case nkind n of
             KReg _ \<Rightarrow> put_node p (n\<lparr>nkind := KReg d, nmtime := fs_clock s\<rparr>) s
           | _ \<Rightarrow> s))"

definition content_at :: "fs \<Rightarrow> fpath \<Rightarrow> bytes" where
  "content_at s p = (case kind_at (fs_nodes s) p of Some (KReg d) \<Rightarrow> d | _ \<Rightarrow> [])"

text \<open>
  \<^verbatim>\<open>open\<close> for writing: \<open>creat\<close> is \<^verbatim>\<open>O_CREAT\<close>, \<open>trunc\<close> is \<^verbatim>\<open>O_TRUNC\<close>.  The result is the file the
  name leads to.
\<close>

definition sys_open_write :: "bool \<Rightarrow> bool \<Rightarrow> string \<Rightarrow> fs \<Rightarrow> (errno + fpath) \<times> fs" where
  "sys_open_write creat trunc path s =
     (let (f, s1) = next_fault s
      in case fault_errno f of
           Some e \<Rightarrow> (Inl e, s1)
         | None \<Rightarrow>
             (case resolve s1 True path of
                Inl e \<Rightarrow> (Inl e, s1)
              | Inr p \<Rightarrow>
                  (case kind_at (fs_nodes s1) p of
                     None \<Rightarrow>
                       if creat then (Inr p, put_node p (new_node s1 (KReg [])) s1)
                       else (Inl ENOENT, s1)
                   | Some k \<Rightarrow>
                       (case k of
                          KReg d \<Rightarrow> (Inr p, if trunc then set_content p [] s1 else s1)
                        | KDir \<Rightarrow> (Inl EISDIR, s1)
                        | _ \<Rightarrow> (Inl ENXIO, s1)))))"

text \<open>
  Writing \<open>c\<close> at offset \<open>k\<close> of an open stream and closing it: the error that the write call
  reports, and the file system after the close.
\<close>

definition stream_write :: "fpath \<Rightarrow> nat \<Rightarrow> bytes \<Rightarrow> fs \<Rightarrow> errno option \<times> fs" where
  "stream_write p k c s =
     (let (f, s1) = next_fault s; d = content_at s1 p
      in case f of
           NoFault \<Rightarrow> (None, if c = [] then s1 else set_content p (overwrite k c d) s1)
         | SysErr e \<Rightarrow> (Some e, s1)
         | Short n e \<Rightarrow> (Some e, if take n c = [] then s1 else set_content p (overwrite k (take n c) d) s1)
         | Late n e \<Rightarrow> (None, if take n c = [] then s1 else set_content p (overwrite k (take n c) d) s1))"

definition resize_to :: "nat \<Rightarrow> bytes \<Rightarrow> bytes" where
  "resize_to n d = take n d @ replicate (n - length d) (CHR 0x00)"

definition sys_ftruncate :: "fpath \<Rightarrow> int \<Rightarrow> fs \<Rightarrow> errno option \<times> fs" where
  "sys_ftruncate p sz s =
     (let (f, s1) = next_fault s
      in case fault_errno f of
           Some e \<Rightarrow> (Some e, s1)
         | None \<Rightarrow>
             if sz < 0 then (Some EINVAL, s1)
             else (None, set_content p (resize_to (nat sz) (content_at s1 p)) s1))"

definition sys_mkdir :: "fpath \<Rightarrow> fs \<Rightarrow> errno option \<times> fs" where
  "sys_mkdir p s =
     (let (f, s1) = next_fault s
      in case fault_errno f of
           Some e \<Rightarrow> (Some e, s1)
         | None \<Rightarrow> (None, put_node p (new_node s1 KDir) s1))"

text \<open>
  \<^verbatim>\<open>std::filesystem::create_directories\<close>: the missing directories are made from the outermost
  inwards, along the components of the name.
\<close>

fun make_dirs :: "bool \<Rightarrow> string list \<Rightarrow> string list \<Rightarrow> fs \<Rightarrow> errno option \<times> fs" where
  "make_dirs ab pre0 [] s = (None, s)"
| "make_dirs ab pre0 (c # cs) s =
     (let pre = pre0 @ [c];
          name = (if ab then ''/'' else '''') @ join_with ''/'' pre
      in case resolve s True name of
           Inl e \<Rightarrow> (Some e, s)
         | Inr p \<Rightarrow>
             (case kind_at (fs_nodes s) p of
                None \<Rightarrow>
                  (case sys_mkdir p s of
                     (Some e, s1) \<Rightarrow> (Some e, s1)
                   | (None, s1) \<Rightarrow> make_dirs ab pre cs s1)
              | Some k \<Rightarrow> if k = KDir then make_dirs ab pre cs s else (Some ENOTDIR, s)))"

definition fs_create_directories :: "string \<Rightarrow> fs \<Rightarrow> (errno + bool) \<times> fs" where
  "fs_create_directories path s =
     (if path = [] then (Inl ENOENT, s)
      else case fs_status s path of
        Inl e \<Rightarrow> (Inl e, s)
      | Inr (Some k) \<Rightarrow> if k = KDir then (Inr False, s) else (Inl ENOTDIR, s)
      | Inr None \<Rightarrow>
          (case make_dirs (is_absolute path) [] (filter (\<lambda>p. p \<noteq> []) (split_on slash path)) s of
             (Some e, s1) \<Rightarrow> (Inl e, s1)
           | (None, s1) \<Rightarrow> (Inr True, s1)))"

text \<open>
  \<^verbatim>\<open>std::filesystem::remove_all\<close>: the number of entries removed.  A call that fails for an outside
  reason fails before anything is removed.
\<close>

definition fs_remove_all :: "string \<Rightarrow> fs \<Rightarrow> (errno + nat) \<times> fs" where
  "fs_remove_all path s =
     (let (f, s1) = next_fault s
      in case fault_errno f of
           Some e \<Rightarrow> (Inl e, s1)
         | None \<Rightarrow>
             (case resolve s1 False path of
                Inl e \<Rightarrow> (if e = ENOENT \<or> e = ENOTDIR then Inr 0 else Inl e, s1)
              | Inr p \<Rightarrow>
                  if p = [] then
                    (Inl EBUSY, s1\<lparr>fs_nodes := filter (\<lambda>(q, n). q = []) (fs_nodes s1)\<rparr>)
                  else
                    (Inr (length (filter (\<lambda>(q, n). prefix p q) (fs_nodes s1))),
                     s1\<lparr>fs_nodes := filter (\<lambda>(q, n). \<not> prefix p q) (fs_nodes s1)\<rparr>)))"

definition fs_create_symlink :: "string \<Rightarrow> string \<Rightarrow> fs \<Rightarrow> errno option \<times> fs" where
  "fs_create_symlink target path s =
     (let (f, s1) = next_fault s
      in case fault_errno f of
           Some e \<Rightarrow> (Some e, s1)
         | None \<Rightarrow>
             if target = [] then (Some ENOENT, s1)
             else (case resolve s1 False path of
                     Inl e \<Rightarrow> (Some e, s1)
                   | Inr p \<Rightarrow>
                       (case kind_at (fs_nodes s1) p of
                          Some k \<Rightarrow> (Some EEXIST, s1)
                        | None \<Rightarrow> (None, put_node p (new_node s1 (KLink target)) s1))))"

text \<open>\<^verbatim>\<open>rename\<close>: the subtree at the old name moves to the new one.\<close>

definition rekey :: "fpath \<Rightarrow> fpath \<Rightarrow> fpath \<Rightarrow> fpath" where
  "rekey p q x = (if prefix p x then q @ drop (length p) x else x)"

definition fs_rename :: "string \<Rightarrow> string \<Rightarrow> fs \<Rightarrow> errno option \<times> fs" where
  "fs_rename old new s =
     (let (f, s1) = next_fault s
      in case fault_errno f of
           Some e \<Rightarrow> (Some e, s1)
         | None \<Rightarrow>
             (case resolve s1 False old of
                Inl e \<Rightarrow> (Some e, s1)
              | Inr p \<Rightarrow>
             (case resolve s1 False new of
                Inl e \<Rightarrow> (Some e, s1)
              | Inr q \<Rightarrow>
             (case kind_at (fs_nodes s1) p of
                None \<Rightarrow> (Some ENOENT, s1)
              | Some k \<Rightarrow>
                  if p = [] \<or> q = [] then (Some EBUSY, s1)
                  else if p = q then (None, s1)
                  else if prefix p q then (Some EINVAL, s1)
                  else (case kind_at (fs_nodes s1) q of
                          None \<Rightarrow> (None, s1\<lparr>fs_nodes := map (map_prod (rekey p q) id) (fs_nodes s1)\<rparr>)
                        | Some k' \<Rightarrow>
                            if k = KDir \<and> k' \<noteq> KDir then (Some ENOTDIR, s1)
                            else if k \<noteq> KDir \<and> k' = KDir then (Some EISDIR, s1)
                            else if children (fs_nodes s1) q \<noteq> [] then (Some ENOTEMPTY, s1)
                            else (None, s1\<lparr>fs_nodes := map (map_prod (rekey p q) id)
                                   (filter (\<lambda>(x, n). x \<noteq> q) (fs_nodes s1))\<rparr>))))))"

datatype copy_options = Copy_none | Copy_skip_existing | Copy_overwrite_existing | Copy_update_existing

definition mtime_newer :: "fnode \<Rightarrow> fnode \<Rightarrow> bool" where
  "mtime_newer a b \<longleftrightarrow>
     fst (nmtime a) > fst (nmtime b)
     \<or> fst (nmtime a) = fst (nmtime b) \<and> snd (nmtime a) > snd (nmtime b)"

text \<open>
  The copying part of \<^verbatim>\<open>std::filesystem::copy_file\<close>: open the destination, send the data, close;
  unlike a C++ stream it reports every write error.
\<close>

definition copy_data :: "bytes \<Rightarrow> string \<Rightarrow> fs \<Rightarrow> (errno + bool) \<times> fs" where
  "copy_data d dst s =
     (case sys_open_write True True dst s of
        (Inl e, s1) \<Rightarrow> (Inl e, s1)
      | (Inr p, s1) \<Rightarrow>
          (let (f, s2) = next_fault s1
           in case f of
                NoFault \<Rightarrow> (Inr True, set_content p d s2)
              | SysErr e \<Rightarrow> (Inl e, s2)
              | Short n e \<Rightarrow> (Inl e, set_content p (take n d) s2)
              | Late n e \<Rightarrow> (Inl e, set_content p (take n d) s2)))"

definition fs_copy_file :: "string \<Rightarrow> string \<Rightarrow> copy_options \<Rightarrow> fs \<Rightarrow> (errno + bool) \<times> fs" where
  "fs_copy_file src dst opt s =
     (case sys_stat s src of
        Inl e \<Rightarrow> (Inl e, s)
      | Inr n \<Rightarrow>
          (case nkind n of
             KReg d \<Rightarrow>
               (case sys_stat s dst of
                  Inl e \<Rightarrow> if e = ENOENT \<or> e = ENOTDIR then copy_data d dst s else (Inl e, s)
                | Inr m \<Rightarrow>
                    (case nkind m of
                       KReg _ \<Rightarrow>
                         if resolve s True src = resolve s True dst then (Inl EEXIST, s)
                         else (case opt of
                                 Copy_none \<Rightarrow> (Inl EEXIST, s)
                               | Copy_skip_existing \<Rightarrow> (Inr False, s)
                               | Copy_update_existing \<Rightarrow>
                                   if mtime_newer n m then copy_data d dst s else (Inr False, s)
                               | Copy_overwrite_existing \<Rightarrow> copy_data d dst s)
                     | _ \<Rightarrow> (Inl EEXIST, s)))
           | _ \<Rightarrow> (Inl EINVAL, s)))"

text \<open>\<^verbatim>\<open>utimensat\<close> with \<^verbatim>\<open>AT_SYMLINK_NOFOLLOW\<close>, relative to the directory \<open>base\<close>.\<close>

definition sys_utimensat :: "fpath \<Rightarrow> string \<Rightarrow> int \<times> int \<Rightarrow> fs \<Rightarrow> errno option \<times> fs" where
  "sys_utimensat base path t s =
     (let (f, s1) = next_fault s
      in case fault_errno f of
           Some e \<Rightarrow> (Some e, s1)
         | None \<Rightarrow>
             if path = [] then (Some ENOENT, s1)
             else if snd t < 0 \<or> snd t \<ge> 1000000000 then (Some EINVAL, s1)
             else (case walk max_links (fs_nodes s1) False
                          (if is_absolute path then [] else base) (walk_comps path) of
                     Inl e \<Rightarrow> (Some e, s1)
                   | Inr p \<Rightarrow>
                       (case node_at (fs_nodes s1) p of
                          None \<Rightarrow> (Some ENOENT, s1)
                        | Some n \<Rightarrow> (None, put_node p (n\<lparr>nmtime := t\<rparr>) s1))))"

section \<open>Well-formed file systems\<close>

text \<open>
  A table is a tree: the root is a directory, every entry's parent is a directory, names are
  proper file names, and no entry occurs twice.
\<close>

definition good_at :: "fnodes \<Rightarrow> fpath \<Rightarrow> bool" where
  "good_at N p \<longleftrightarrow> list_all plain_name p \<and> (p \<noteq> [] \<longrightarrow> is_dir N (butlast p))"

definition wf_nodes :: "fnodes \<Rightarrow> bool" where
  "wf_nodes N \<longleftrightarrow>
     distinct (map fst N) \<and> is_dir N [] \<and> (\<forall>p \<in> set (map fst N). good_at N p)"

definition fs_wf :: "fs \<Rightarrow> bool" where
  "fs_wf s \<longleftrightarrow> wf_nodes (fs_nodes s)"

lemma kind_at_in_keys: "kind_at N p = Some k \<Longrightarrow> p \<in> set (map fst N)"
  by (auto simp: kind_at_def node_at_def dest: map_of_SomeD intro: rev_image_eqI)

lemma wf_good: "wf_nodes N \<Longrightarrow> kind_at N p = Some k \<Longrightarrow> good_at N p"
  by (metis kind_at_in_keys wf_nodes_def)

lemma wf_dir_good: "wf_nodes N \<Longrightarrow> is_dir N p \<Longrightarrow> good_at N p"
  by (simp add: is_dir_def wf_good)

lemma wf_parent_good: "wf_nodes N \<Longrightarrow> is_dir N p \<Longrightarrow> good_at N (butlast p)"
  by (metis butlast.simps(1) good_at_def wf_dir_good)

lemma wf_root_good [simp]: "good_at N []"
  by (simp add: good_at_def)

lemma walk_comps_names: "c \<in> set (walk_comps t) \<Longrightarrow> c \<noteq> [] \<and> slash \<notin> set c"
  by (auto simp: walk_comps_def Let_def split: if_splits dest: split_on_no_sep)

lemma walk_dir_step:
  assumes "walk l N f dir (c # cs) = Inr p"
  shows "is_dir N dir"
  using assms by (auto simp: is_dir_def split: option.splits if_splits)

lemma walk_good:
  assumes "wf_nodes N" and "\<forall>c \<in> set cs. c \<noteq> [] \<and> slash \<notin> set c"
    and "walk l N f dir cs = Inr p" and "cs = [] \<Longrightarrow> good_at N dir"
  shows "good_at N p"
  using assms
proof (induction l N f dir cs rule: walk.induct)
  case (2 links N follow dir c cs)
  note wf = "2.prems"(1) and eq = "2.prems"(3)
  have d: "is_dir N dir" using eq by (rule walk_dir_step)
  then have k: "kind_at N dir = Some KDir" by (simp add: is_dir_def)
  have names: "\<forall>c \<in> set cs. c \<noteq> [] \<and> slash \<notin> set c" using "2.prems"(2) by simp
  consider "c = ''.''" | "c = ''..''" | (new) "c \<noteq> ''.''" "c \<noteq> ''..''" by blast
  then show ?case
  proof cases
    case 1
    then show ?thesis
      using "2.IH"(1) [OF k _ 1 wf names] eq k wf_dir_good [OF wf d] by simp
  next
    case 2
    then show ?thesis
      using "2.IH"(2) [OF k _ _ 2 wf names] eq k wf_parent_good [OF wf d] by simp
  next
    case new
    have good: "good_at N (dir @ [c])"
      using new "2.prems"(2) d wf_dir_good [OF wf d] by (simp add: good_at_def plain_name_def)
    show ?thesis
    proof (cases "kind_at N (dir @ [c])")
      case None
      then show ?thesis using eq k new good by (simp split: if_splits)
    next
      case (Some k')
      show ?thesis
      proof (cases k')
        case KDir
        then show ?thesis using "2.IH"(3) [OF k _ new Some KDir wf names] eq k new Some good by simp
      next
        case (KReg d)
        then show ?thesis using "2.IH"(4) [OF k _ new Some KReg wf names] eq k new Some good by simp
      next
        case KSock
        then show ?thesis using "2.IH"(6) [OF k _ new Some KSock wf names] eq k new Some good by simp
      next
        case (KLink t)
        show ?thesis
        proof (cases "cs = [] \<and> \<not> follow")
          case True
          then show ?thesis using eq k new Some KLink good by simp
        next
          case False
          have names': "\<forall>c \<in> set (walk_comps t @ cs). c \<noteq> [] \<and> slash \<notin> set c"
            using names walk_comps_names by auto
          have start: "good_at N (if is_absolute t then [] else dir)"
            using wf_dir_good [OF wf d] by simp
          show ?thesis
            using "2.IH"(5) [OF k _ new Some KLink False _ _ wf names'] eq k new Some KLink False start
            by (simp split: if_splits)
        qed
      qed
    qed
  qed
qed simp

lemma walk_comps_relative:
  assumes "path \<noteq> []" and "\<not> is_absolute path"
  shows "walk_comps path \<noteq> []"
proof -
  obtain c r where c: "path = c # r" "c \<noteq> slash"
    using assms by (cases path) (auto simp: is_absolute_def)
  obtain q qs where "split_on slash r = q # qs" by (cases "split_on slash r") auto
  then show ?thesis using c by (simp add: walk_comps_def Let_def)
qed

lemma resolve_good:
  assumes "fs_wf s" and "resolve s f path = Inr p"
  shows "good_at (fs_nodes s) p"
proof -
  have ne: "path \<noteq> []" using assms(2) by (auto simp: resolve_def)
  let ?dir = "if is_absolute path then [] else fs_cwd s"
  have start: "good_at (fs_nodes s) ?dir" if "walk_comps path = []"
    using that walk_comps_relative [OF ne] by auto
  have names: "\<forall>c \<in> set (walk_comps path). c \<noteq> [] \<and> slash \<notin> set c"
    using walk_comps_names by blast
  have "walk max_links (fs_nodes s) f ?dir (walk_comps path) = Inr p"
    using assms(2) ne by (simp only: resolve_def if_False)
  from walk_good [OF _ names this start] assms(1) show ?thesis by (simp add: fs_wf_def)
qed
section \<open>Every operation keeps the tree\<close>

lemma kind_at_update [fs_simps]:
  "kind_at (AList.update p n N) q = (if q = p then Some (nkind n) else kind_at N q)"
  by (simp add: kind_at_def node_at_def update_conv')

lemma node_at_update [fs_simps]:
  "node_at (AList.update p n N) q = (if q = p then Some n else node_at N q)"
  by (simp add: node_at_def update_conv')

lemma nodes_put [fs_simps]: "fs_nodes (put_node p n s) = AList.update p n (fs_nodes s)"
  by (simp add: put_node_def)

lemma good_at_update:
  assumes "good_at N q" and "is_dir N p \<Longrightarrow> nkind n = KDir"
  shows "good_at (AList.update p n N) q"
  using assms by (auto simp: good_at_def is_dir_def fs_simps)

lemma put_node_wf:
  assumes "fs_wf s" and "good_at (fs_nodes s) p" and "is_dir (fs_nodes s) p \<Longrightarrow> nkind n = KDir"
  shows "fs_wf (put_node p n s)"
proof -
  let ?N = "fs_nodes s"
  have wf: "wf_nodes ?N" using assms(1) by (simp add: fs_wf_def)
  have root: "is_dir (AList.update p n ?N) []"
    using wf assms(3) by (auto simp: wf_nodes_def is_dir_def fs_simps)
  have good: "good_at (AList.update p n ?N) q" if "q \<in> set (map fst (AList.update p n ?N))" for q
  proof -
    have "q = p \<or> q \<in> set (map fst ?N)" using that by (simp add: dom_update)
    then have "good_at ?N q" using assms(2) wf by (auto simp: wf_nodes_def)
    then show ?thesis using assms(3) by (rule good_at_update)
  qed
  have "distinct (map fst (AList.update p n ?N))"
    using wf by (auto simp: wf_nodes_def intro: distinct_update)
  with root good show ?thesis by (simp add: fs_wf_def wf_nodes_def fs_simps)
qed

lemma set_content_wf: "fs_wf s \<Longrightarrow> fs_wf (set_content p d s)"
proof (cases "node_at (fs_nodes s) p")
  case (Some n)
  assume wf: "fs_wf s"
  have k: "kind_at (fs_nodes s) p = Some (nkind n)" using Some by (simp add: kind_at_def)
  have "good_at (fs_nodes s) p" using wf k by (auto simp: fs_wf_def intro: wf_good)
  then show ?thesis
    using wf k Some
    by (cases "nkind n") (auto simp: set_content_def is_dir_def intro!: put_node_wf)
qed (simp add: set_content_def)

lemma next_fault_nodes [fs_simps]:
  "next_fault s = (f, s1) \<Longrightarrow> fs_nodes s1 = fs_nodes s"
  by (auto simp: next_fault_def split: list.splits)

lemma next_fault_cwd [fs_simps]:
  "next_fault s = (f, s1) \<Longrightarrow> fs_cwd s1 = fs_cwd s"
  by (auto simp: next_fault_def split: list.splits)

lemma next_fault_wf: "next_fault s = (f, s1) \<Longrightarrow> fs_wf s \<Longrightarrow> fs_wf s1"
  by (simp add: fs_wf_def next_fault_nodes)

lemma put_new_wf:
  assumes "fs_wf s" and "resolve s f path = Inr p" and "kind_at (fs_nodes s) p = None"
  shows "fs_wf (put_node p n s)"
  using assms by (intro put_node_wf resolve_good) (auto simp: is_dir_def)

lemma sys_open_write_wf:
  assumes "fs_wf s" and "sys_open_write creat trunc path s = (r, s')"
  shows "fs_wf s'"
proof -
  obtain f s1 where nf: "next_fault s = (f, s1)" by (cases "next_fault s")
  have wf: "fs_wf s1" by (rule next_fault_wf [OF nf assms(1)])
  show ?thesis
    using assms(2) nf wf
    by (auto simp: sys_open_write_def Let_def set_content_wf intro: put_new_wf
        split: option.splits sum.splits fkind.splits if_splits)
qed

lemma stream_write_wf:
  assumes "fs_wf s" and "stream_write p k c s = (r, s')"
  shows "fs_wf s'"
proof -
  obtain f s1 where nf: "next_fault s = (f, s1)" by (cases "next_fault s")
  show ?thesis
    using assms(2) nf next_fault_wf [OF nf assms(1)]
    by (auto simp: stream_write_def Let_def set_content_wf split: fault.splits if_splits)
qed

lemma sys_ftruncate_wf:
  assumes "fs_wf s" and "sys_ftruncate p sz s = (r, s')"
  shows "fs_wf s'"
proof -
  obtain f s1 where nf: "next_fault s = (f, s1)" by (cases "next_fault s")
  show ?thesis
    using assms(2) nf next_fault_wf [OF nf assms(1)]
    by (auto simp: sys_ftruncate_def Let_def set_content_wf split: option.splits if_splits)
qed

lemma sys_mkdir_wf:
  assumes "fs_wf s" and "good_at (fs_nodes s) p" and "sys_mkdir p s = (r, s')"
  shows "fs_wf s'"
proof -
  obtain f s1 where nf: "next_fault s = (f, s1)" by (cases "next_fault s")
  have wf: "fs_wf s1" and good: "good_at (fs_nodes s1) p"
    using next_fault_wf [OF nf assms(1)] assms(2) nf by (simp_all add: fs_simps)
  show ?thesis
    using assms(3) nf wf good
    by (auto simp: sys_mkdir_def Let_def new_node_def intro!: put_node_wf split: option.splits)
qed

lemma make_dirs_wf: "fs_wf s \<Longrightarrow> make_dirs ab pre cs s = (r, s') \<Longrightarrow> fs_wf s'"
proof (induction ab pre cs s rule: make_dirs.induct)
  case (2 ab pre0 c cs s)
  let ?name = "(if ab then ''/'' else '''') @ join_with ''/'' (pre0 @ [c])"
  show ?case
  proof (cases "resolve s True ?name")
    case (Inl e)
    then show ?thesis using "2.prems" by (simp add: Let_def)
  next
    case (Inr p)
    have good: "good_at (fs_nodes s) p" using "2.prems"(1) Inr by (rule resolve_good)
    show ?thesis
    proof (cases "kind_at (fs_nodes s) p")
      case None
      obtain r1 s1 where mk: "sys_mkdir p s = (r1, s1)" by (cases "sys_mkdir p s")
      have "fs_wf s1" by (rule sys_mkdir_wf [OF "2.prems"(1) good mk])
      then show ?thesis
        using "2.IH"(1) [OF refl refl Inr None mk [symmetric]] "2.prems"(2) Inr None mk
        by (cases r1) (simp_all add: Let_def)
    next
      case (Some k)
      then show ?thesis
        using "2.IH"(2) [OF refl refl Inr Some] "2.prems" Inr
        by (cases "k = KDir") (simp_all add: Let_def)
    qed
  qed
qed simp

lemma fs_create_directories_wf:
  "fs_wf s \<Longrightarrow> fs_create_directories path s = (r, s') \<Longrightarrow> fs_wf s'"
  by (auto simp: fs_create_directories_def dest: make_dirs_wf
      split: if_splits sum.splits option.splits prod.splits)

lemma kind_at_filter [fs_simps]:
  "kind_at (filter (\<lambda>(q, n). P q) N) x = (if P x then kind_at N x else None)"
  by (induction N) (auto simp: kind_at_def node_at_def)

lemma not_prefix_butlast: "q \<noteq> [] \<Longrightarrow> \<not> prefix q (butlast q)"
  using prefix_length_le [of q "butlast q"] by (cases q) auto

lemma remove_subtree_wf:
  assumes wf: "wf_nodes N" and "p \<noteq> []"
  shows "wf_nodes (filter (\<lambda>(q, n). \<not> prefix p q) N)"
proof -
  let ?M = "filter (\<lambda>(q, n). \<not> prefix p q) N"
  have kind: "kind_at ?M q = (if prefix p q then None else kind_at N q)" for q
    by (simp add: kind_at_filter)
  have keys: "set (map fst ?M) = {q \<in> set (map fst N). \<not> prefix p q}"
    by (auto intro: rev_image_eqI)
  have "good_at ?M q" if "q \<in> set (map fst ?M)" for q
  proof -
    have q: "good_at N q" "\<not> prefix p q" using that wf keys by (auto simp: wf_nodes_def)
    then have "\<not> prefix p (butlast q)" using prefix_order.trans prefixeq_butlast by blast
    then show ?thesis using q by (simp add: good_at_def is_dir_def kind)
  qed
  moreover have "distinct (map fst ?M)"
    using wf by (simp add: wf_nodes_def distinct_map_filter)
  moreover have "is_dir ?M []" using wf assms(2) by (simp add: wf_nodes_def is_dir_def kind)
  ultimately show ?thesis by (simp add: wf_nodes_def)
qed

lemma fs_remove_all_wf:
  assumes "fs_wf s" and "fs_remove_all path s = (r, s')"
  shows "fs_wf s'"
proof -
  obtain f s1 where nf: "next_fault s = (f, s1)" by (cases "next_fault s")
  have wf: "fs_wf s1" by (rule next_fault_wf [OF nf assms(1)])
  have root: "wf_nodes (filter (\<lambda>(q, n). q = []) (fs_nodes s1))"
  proof -
    show ?thesis
      using wf unfolding fs_wf_def wf_nodes_def
      by (auto simp: is_dir_def kind_at_filter distinct_map_filter)
  qed
  show ?thesis
    using assms(2) nf wf root remove_subtree_wf
    by (auto simp: fs_remove_all_def Let_def fs_wf_def split: option.splits sum.splits if_splits)
qed

lemma fs_create_symlink_wf:
  assumes "fs_wf s" and "fs_create_symlink target path s = (r, s')"
  shows "fs_wf s'"
proof -
  obtain f s1 where nf: "next_fault s = (f, s1)" by (cases "next_fault s")
  show ?thesis
    using assms(2) nf next_fault_wf [OF nf assms(1)]
    by (auto simp: fs_create_symlink_def Let_def intro: put_new_wf
        split: option.splits sum.splits if_splits)
qed

lemma copy_data_wf:
  assumes "fs_wf s" and "copy_data d dst s = (r, s')"
  shows "fs_wf s'"
proof -
  obtain r1 s1 where op: "sys_open_write True True dst s = (r1, s1)"
    by (cases "sys_open_write True True dst s")
  have wf1: "fs_wf s1" by (rule sys_open_write_wf [OF assms(1) op])
  obtain f s2 where nf: "next_fault s1 = (f, s2)" by (cases "next_fault s1")
  show ?thesis
    using assms(2) op nf wf1 next_fault_wf [OF nf wf1]
    by (auto simp: copy_data_def Let_def set_content_wf split: sum.splits fault.splits)
qed

lemma fs_copy_file_wf: "fs_wf s \<Longrightarrow> fs_copy_file src dst opt s = (r, s') \<Longrightarrow> fs_wf s'"
  by (auto simp: fs_copy_file_def dest: copy_data_wf
      split: sum.splits fkind.splits copy_options.splits if_splits)

lemma sys_utimensat_wf:
  assumes "fs_wf s" and "sys_utimensat base path t s = (r, s')"
  shows "fs_wf s'"
proof -
  obtain f s1 where nf: "next_fault s = (f, s1)" by (cases "next_fault s")
  have wf: "fs_wf s1" by (rule next_fault_wf [OF nf assms(1)])
  have touch: "fs_wf (put_node p (n\<lparr>nmtime := t\<rparr>) s1)" if "node_at (fs_nodes s1) p = Some n" for p n
    using that wf
    by (intro put_node_wf) (auto simp: fs_wf_def kind_at_def is_dir_def intro!: wf_good)
  show ?thesis
    using assms(2) nf wf touch
    by (auto simp: sys_utimensat_def Let_def split: option.splits sum.splits if_splits)
qed

text \<open>Moving a subtree: the new name must be free, outside the subtree, in a directory.\<close>

lemma rekey_kind:
  assumes "\<forall>x \<in> set (map fst N). \<not> prefix q x" and "\<not> prefix p q" and "\<not> prefix q p"
  shows "kind_at (map (map_prod (rekey p q) id) N) y =
    (if prefix q y then kind_at N (p @ drop (length q) y)
     else if prefix p y then None else kind_at N y)"
  using assms(1)
proof (induction N)
  case (Cons a N)
  obtain x n where a: "a = (x, n)" by (cases a)
  have apart: "\<not> (prefix p z \<and> prefix q z)" for z
    using assms(2,3) by (meson prefix_same_cases)
  have x: "\<not> prefix q x" using Cons.prems a by simp
  have "y = rekey p q x \<longleftrightarrow>
    (if prefix q y then x = p @ drop (length q) y else \<not> prefix p y \<and> x = y)"
  proof (cases "prefix p x")
    case True
    then obtain r where r: "x = p @ r" by (auto simp: prefix_def)
    then show ?thesis using x apart by (auto simp: rekey_def prefix_def)
  next
    case False
    then show ?thesis using x apart by (auto simp: rekey_def)
  qed
  then show ?case using Cons a by (auto simp: kind_at_def node_at_def)
qed (simp add: kind_at_def node_at_def)

lemma rekey_wf:
  assumes wf: "wf_nodes N" and p: "p \<in> set (map fst N)" "p \<noteq> []" and q: "good_at N q" "q \<noteq> []"
    and free: "\<forall>x \<in> set (map fst N). \<not> prefix q x" and out: "\<not> prefix p q"
  shows "wf_nodes (map (map_prod (rekey p q) id) N)"
proof -
  let ?M = "map (map_prod (rekey p q) id) N"
  have qp: "\<not> prefix q p" using free p(1) by blast
  note kind = rekey_kind [OF free out qp]
  have root: "is_dir ?M []" using wf p(2) q(2) by (simp add: wf_nodes_def is_dir_def kind)
  have keys: "set (map fst ?M) = rekey p q ` set (map fst N)" by force
  have inj: "inj_on (rekey p q) (set (map fst N))"
  proof (rule inj_onI)
    fix x y
    assume k: "x \<in> set (map fst N)" "y \<in> set (map fst N)" "rekey p q x = rekey p q y"
    then have "\<not> prefix q x" "\<not> prefix q y" using free by auto
    with k(3) show "x = y" by (auto simp: rekey_def prefix_def split: if_splits)
  qed
  have "map fst ?M = map (rekey p q) (map fst N)" by simp
  then have dist: "distinct (map fst ?M)"
    using wf inj by (simp only: distinct_map wf_nodes_def)
  have "good_at ?M (rekey p q x)" if x: "x \<in> set (map fst N)" for x
  proof -
    have gx: "good_at N x" using wf x by (auto simp: wf_nodes_def)
    have nx: "\<not> prefix q x" using free x by blast
    show ?thesis
    proof (cases "prefix p x")
      case True
      then obtain r where r: "x = p @ r" by (auto simp: prefix_def)
      have y: "rekey p q x = q @ r" using r by (simp add: rekey_def)
      show ?thesis
      proof (cases "r = []")
        case True
        have "\<not> prefix q (butlast q)" using q(2) by (rule not_prefix_butlast)
        moreover have "\<not> prefix p (butlast q)" using out prefix_order.trans prefixeq_butlast by blast
        ultimately show ?thesis using q y True by (simp add: good_at_def is_dir_def kind)
      next
        case False
        then show ?thesis using gx q y r by (simp add: good_at_def is_dir_def kind butlast_append)
      qed
    next
      case False
      then have "\<not> prefix p (butlast x)" "\<not> prefix q (butlast x)"
        using nx prefix_order.trans prefixeq_butlast by blast+
      then show ?thesis using gx False by (simp add: good_at_def is_dir_def kind rekey_def)
    qed
  qed
  then have "\<forall>y \<in> set (map fst ?M). good_at ?M y" unfolding keys by blast
  then show ?thesis using root dist by (simp add: wf_nodes_def)
qed

text \<open>In a tree, an entry below \<open>q\<close> makes \<open>q\<close> a directory with a child.\<close>

lemma wf_below:
  assumes wf: "wf_nodes N" and "q @ r \<in> set (map fst N)" and "r \<noteq> []"
  shows "is_dir N q \<and> children N q \<noteq> []"
  using assms(2,3)
proof (induction r rule: rev_induct)
  case (snoc c r)
  have good: "good_at N (q @ r @ [c])" using wf snoc.prems(1) unfolding wf_nodes_def by (metis append.assoc)
  then have d: "is_dir N (q @ r)" by (simp add: good_at_def butlast_append)
  show ?case
  proof (cases "r = []")
    case True
    then have "q @ [c] \<in> set (map fst N)" using snoc.prems(1) by simp
    then have "filter (\<lambda>x. x \<noteq> [] \<and> butlast x = q) (map fst N) \<noteq> []"
      unfolding filter_empty_conv
      by (metis append_is_Nil_conv butlast_snoc list.distinct(1))
    then show ?thesis using d True by (simp add: children_def)
  next
    case False
    then show ?thesis using snoc.IH d by (auto simp: is_dir_def dest: kind_at_in_keys)
  qed
qed simp

lemma fs_rename_wf:
  assumes "fs_wf s" and "fs_rename old new s = (r, s')"
  shows "fs_wf s'"
proof -
  obtain f s1 where nf: "next_fault s = (f, s1)" by (cases "next_fault s")
  let ?N = "fs_nodes s1"
  have wf1: "fs_wf s1" by (rule next_fault_wf [OF nf assms(1)])
  then have wf: "wf_nodes ?N" by (simp add: fs_wf_def)
  have move: "wf_nodes (map (map_prod (rekey p q) id) (filter (\<lambda>(x, n). x \<noteq> q) ?N))"
    if k: "kind_at ?N p = Some k" "p \<noteq> []" "q \<noteq> []" "p \<noteq> q" "\<not> prefix p q" "good_at ?N q"
      and leaf: "\<not> is_dir ?N q \<or> children ?N q = []" for p q k
  proof -
    have below: "prefix q x \<longleftrightarrow> x = q" if "x \<in> set (map fst ?N)" for x
      using wf_below [OF wf] leaf that by (metis prefix_def append.right_neutral prefix_order.refl)
    have same: "filter (\<lambda>(x, n). x \<noteq> q) ?N = filter (\<lambda>(x, n). \<not> prefix q x) ?N"
      by (rule filter_cong [OF refl]) (use below in force)
    let ?M = "filter (\<lambda>(x, n). \<not> prefix q x) ?N"
    have wfM: "wf_nodes ?M" by (rule remove_subtree_wf [OF wf k(3)])
    have np: "\<not> prefix q p" using below [OF kind_at_in_keys [OF k(1)]] k(4) by blast
    have pM: "p \<in> set (map fst ?M)"
      using k(1) np by (intro kind_at_in_keys [of _ _ k]) (simp add: kind_at_filter)
    have "\<not> prefix q (butlast q)" using k(3) by (rule not_prefix_butlast)
    then have qM: "good_at ?M q" using k(6) by (simp add: good_at_def is_dir_def kind_at_filter)
    have "\<forall>x \<in> set (map fst ?M). \<not> prefix q x" by auto
    from rekey_wf [OF wfM pM k(2) qM k(3) this k(5)] show ?thesis by (simp only: same)
  qed
  have free: "filter (\<lambda>(x, n). x \<noteq> q) ?N = ?N" if "kind_at ?N q = None" for q
    using that by (force simp: filter_id_conv kind_at_def node_at_def map_of_eq_None_iff)
  have move0: "wf_nodes (map (map_prod (rekey p q) id) ?N)"
    if "kind_at ?N p = Some k" "p \<noteq> []" "q \<noteq> []" "p \<noteq> q" "\<not> prefix p q" "good_at ?N q"
      and none: "kind_at ?N q = None" for p q k
    using move [OF that(1-6)] free [OF none] none by (simp add: is_dir_def)
  show ?thesis
    using assms(2) nf wf1 move [OF _ _ _ _ _ resolve_good [OF wf1]]
      move0 [OF _ _ _ _ _ resolve_good [OF wf1]]
    by (auto simp: fs_rename_def Let_def fs_wf_def split: option.splits sum.splits if_splits)
qed

section \<open>Direct names\<close>

text \<open>
  \<open>plain_at path p\<close>: the string is an absolute path spelled with proper file names only.  Where
  its parent is a directory and it is not itself a symbolic link, lookup leads to \<open>p\<close>.
\<close>

definition plain_at :: "string \<Rightarrow> fpath \<Rightarrow> bool" where
  "plain_at path p \<longleftrightarrow> is_absolute path \<and> walk_comps path = p \<and> list_all plain_name p"

definition not_link :: "fnodes \<Rightarrow> fpath \<Rightarrow> bool" where
  "not_link N p \<longleftrightarrow> (case kind_at N p of Some (KLink t) \<Rightarrow> False | _ \<Rightarrow> True)"

lemma wf_ancestor_dir:
  assumes "wf_nodes N" and "is_dir N (q @ r)"
  shows "is_dir N q"
  using assms wf_below [OF assms(1), of q r]
  by (cases "r = []") (auto simp: is_dir_def dest: kind_at_in_keys)

lemma walk_step_plain:
  assumes "is_dir N d" and "plain_name c"
  shows "walk l N f d (c # cs) =
    (case kind_at N (d @ [c]) of
       None \<Rightarrow> if cs = [] then Inr (d @ [c]) else Inl ENOENT
     | Some (KLink t) \<Rightarrow>
         if cs = [] \<and> \<not> f then Inr (d @ [c])
         else if l = 0 then Inl ELOOP
         else if t = [] then Inl ENOENT
         else walk (l - 1) N f (if is_absolute t then [] else d) (walk_comps t @ cs)
     | Some _ \<Rightarrow> walk l N f (d @ [c]) cs)"
  using assms by (simp add: is_dir_def plain_name_def split: option.splits fkind.splits)

lemma walk_plain:
  assumes "wf_nodes N" and "list_all plain_name cs" and "is_dir N d"
    and "cs \<noteq> [] \<Longrightarrow> is_dir N (d @ butlast cs)" and "f \<Longrightarrow> not_link N (d @ cs)"
  shows "walk l N f d cs = Inr (d @ cs)"
  using assms(2-)
proof (induction cs arbitrary: d)
  case (Cons c cs)
  have c: "plain_name c" using Cons.prems(1) by simp
  show ?case
  proof (cases "cs = []")
    case True
    then show ?thesis
      using Cons.prems c
      by (auto simp: walk_step_plain not_link_def simp del: walk.simps(2)
          split: option.splits fkind.splits)
  next
    case False
    have "is_dir N ((d @ [c]) @ butlast cs)" using Cons.prems(3) False by simp
    then have d': "is_dir N (d @ [c])" by (rule wf_ancestor_dir [OF assms(1)])
    have "walk l N f (d @ [c]) cs = Inr ((d @ [c]) @ cs)"
      using Cons.prems d' False by (intro Cons.IH) auto
    then show ?thesis
      using Cons.prems(2) c d'
      by (simp add: walk_step_plain del: walk.simps(2)) (simp add: is_dir_def)
  qed
qed simp

lemma resolve_plain:
  assumes "fs_wf s" and "plain_at path p" and "p \<noteq> [] \<Longrightarrow> is_dir (fs_nodes s) (butlast p)"
    and "f \<Longrightarrow> not_link (fs_nodes s) p"
  shows "resolve s f path = Inr p"
proof -
  have "path \<noteq> []" using assms(2) by (auto simp: plain_at_def is_absolute_def)
  moreover have "walk max_links (fs_nodes s) f [] p = Inr ([] @ p)"
    using assms by (intro walk_plain) (auto simp: fs_wf_def wf_nodes_def plain_at_def)
  ultimately show ?thesis using assms(2) by (simp add: resolve_def plain_at_def)
qed

lemma not_linkI [intro]:
  "is_dir N p \<Longrightarrow> not_link N p"
  "kind_at N p = None \<Longrightarrow> not_link N p"
  "kind_at N p = Some (KReg d) \<Longrightarrow> not_link N p"
  by (simp_all add: not_link_def is_dir_def)

text \<open>
  \<open>reg_file s path p d\<close>: the plain path \<open>path\<close> is the regular file \<open>p\<close> with content \<open>d\<close>;
  \<open>free_name s path p\<close>: the name is unused, in an existing directory.
\<close>

definition reg_file :: "fs \<Rightarrow> string \<Rightarrow> fpath \<Rightarrow> bytes \<Rightarrow> bool" where
  "reg_file s path p d \<longleftrightarrow> fs_wf s \<and> plain_at path p \<and> kind_at (fs_nodes s) p = Some (KReg d)"

definition free_name :: "fs \<Rightarrow> string \<Rightarrow> fpath \<Rightarrow> bool" where
  "free_name s path p \<longleftrightarrow>
     fs_wf s \<and> plain_at path p \<and> p \<noteq> [] \<and> is_dir (fs_nodes s) (butlast p)
     \<and> kind_at (fs_nodes s) p = None"

lemma reg_file_resolve: "reg_file s path p d \<Longrightarrow> resolve s f path = Inr p"
proof -
  assume r: "reg_file s path p d"
  then have "good_at (fs_nodes s) p" by (auto simp: reg_file_def fs_wf_def intro: wf_good)
  then show ?thesis
    using r by (intro resolve_plain) (auto simp: reg_file_def good_at_def)
qed

lemma free_name_resolve: "free_name s path p \<Longrightarrow> resolve s f path = Inr p"
  by (rule resolve_plain) (auto simp: free_name_def)

lemma reg_file_stat:
  assumes "reg_file s path p d"
  shows "\<exists>n. stat_at s f path = Inr n \<and> nkind n = KReg d \<and> node_at (fs_nodes s) p = Some n"
  using assms reg_file_resolve [OF assms, of f]
  by (auto simp: stat_at_def reg_file_def kind_at_def)

lemma reg_file_status:
  assumes "reg_file s path p d"
  shows "fs_symlink_status s path = Inr (Some (KReg d))" and "fs_status s path = Inr (Some (KReg d))"
  using reg_file_stat [OF assms, of False] reg_file_stat [OF assms, of True]
  by (auto simp: fs_symlink_status_def fs_status_def sys_lstat_def sys_stat_def status_of_def)

lemma free_name_status:
  assumes "free_name s path p"
  shows "fs_symlink_status s path = Inr None" and "fs_status s path = Inr None"
  using assms free_name_resolve [OF assms]
  by (auto simp: fs_symlink_status_def fs_status_def sys_lstat_def sys_stat_def status_of_def
      stat_at_def free_name_def kind_at_def)

lemma reg_file_read: "reg_file s path p d \<Longrightarrow> read_stream s path = Inr (d, False)"
  using reg_file_stat [of s path p d True] by (auto simp: read_stream_def sys_stat_def)

lemma reg_file_content: "reg_file s path p d \<Longrightarrow> content_at s p = d"
  by (simp add: reg_file_def content_at_def)

text \<open>Writing one file leaves all others as they are.\<close>

lemma kind_at_set_content [fs_simps]:
  "kind_at (fs_nodes (set_content p d s)) q =
    (if q = p then (case kind_at (fs_nodes s) p of Some (KReg _) \<Rightarrow> Some (KReg d) | k \<Rightarrow> k)
     else kind_at (fs_nodes s) q)"
  by (auto simp: set_content_def kind_at_def fs_simps split: option.splits fkind.splits)

lemma set_content_other [fs_simps]:
  "fs_faults (set_content p d s) = fs_faults s" "fs_cwd (set_content p d s) = fs_cwd s"
  "fs_clock (set_content p d s) = fs_clock s"
  by (simp_all add: set_content_def put_node_def split: option.splits fkind.splits)

lemma set_content_reg_file:
  assumes "reg_file s path p d"
  shows "reg_file (set_content p d' s) path p d'"
  using assms by (simp add: reg_file_def set_content_wf fs_simps)

lemma no_fault [fs_simps]: "fs_faults s = [] \<Longrightarrow> next_fault s = (NoFault, s)"
  by (simp add: next_fault_def)

lemma open_existing:
  assumes "reg_file s path p d" and "fs_faults s = []"
  shows "sys_open_write creat trunc path s = (Inr p, if trunc then set_content p [] s else s)"
  using assms reg_file_resolve [OF assms(1)]
  by (simp add: sys_open_write_def fs_simps reg_file_def)

lemma open_new:
  assumes "free_name s path p" and "fs_faults s = []"
  shows "sys_open_write True trunc path s = (Inr p, put_node p (new_node s (KReg [])) s)"
  using assms free_name_resolve [OF assms(1)]
  by (simp add: sys_open_write_def fs_simps free_name_def)

lemma new_file_reg:
  assumes "free_name s path p"
  shows "reg_file (put_node p (new_node s (KReg d)) s) path p d"
proof -
  have "good_at (fs_nodes s) p" using assms by (auto simp: free_name_def good_at_def plain_at_def)
  then have "fs_wf (put_node p (new_node s (KReg d)) s)"
    using assms by (intro put_node_wf) (auto simp: free_name_def is_dir_def)
  then show ?thesis using assms by (simp add: reg_file_def free_name_def fs_simps new_node_def)
qed

section \<open>Parents and directories of plain paths\<close>

lemma comps_strip_slashes:
  "filter (\<lambda>p. p \<noteq> []) (split_on slash (strip_slashes d)) = filter (\<lambda>p. p \<noteq> []) (split_on slash d)"
proof (induction d rule: rev_induct)
  case (snoc c d)
  show ?case
  proof (cases "c = slash")
    case True
    then show ?thesis using snoc by (simp add: path_simps split_on_append_sep)
  next
    case False
    then show ?thesis by (simp add: strip_slashes_def)
  qed
qed (simp add: strip_slashes_def)

lemma last_strip_slashes: "strip_slashes d \<noteq> [] \<Longrightarrow> last (strip_slashes d) \<noteq> slash"
  using hd_dropWhile [of "\<lambda>c. c = slash" "rev d"] by (simp add: strip_slashes_def last_rev)

lemma walk_comps_strip:
  "walk_comps (strip_slashes d) = filter (\<lambda>p. p \<noteq> []) (split_on slash d)"
  using last_strip_slashes [of d] comps_strip_slashes [of d]
  by (cases "strip_slashes d = []") (auto simp: walk_comps_def Let_def)

lemma plain_at_split:
  assumes "plain_at path p" and "p \<noteq> []"
  shows "\<exists>d f. path = d @ slash # f \<and> plain_name f
    \<and> p = filter (\<lambda>p. p \<noteq> []) (split_on slash d) @ [f] \<and> (d = [] \<or> is_absolute d)"
proof -
  have ab: "is_absolute path" and cs: "walk_comps path = p" and pl: "list_all plain_name p"
    using assms(1) by (auto simp: plain_at_def)
  have noslash: "last path \<noteq> slash"
  proof
    assume "last path = slash"
    then have "last p = ''.''" using cs assms(2) by (auto simp: walk_comps_def Let_def split: if_splits)
    moreover have "plain_name (last p)" using pl assms(2) by (auto simp: list_all_iff)
    ultimately show False by (simp add: plain_name_def)
  qed
  have comps: "filter (\<lambda>p. p \<noteq> []) (split_on slash path) = p"
    using cs noslash by (simp add: walk_comps_def Let_def)
  have "slash \<in> set path" using ab by (cases path) (auto simp: is_absolute_def)
  then obtain d f where split: "path = d @ slash # f" "slash \<notin> set f"
    using split_list_last by metis
  have ne: "f \<noteq> []" using split noslash by auto
  have p: "p = filter (\<lambda>p. p \<noteq> []) (split_on slash d) @ [f]"
    using comps split ne by (simp add: split_on_append_sep split_on_noseps)
  have "d = [] \<or> is_absolute d" using ab split by (cases d) (auto simp: is_absolute_def)
  moreover have "plain_name f" using pl p by simp
  ultimately show ?thesis using split(1) p by blast
qed

lemma is_absolute_strip: "is_absolute d \<Longrightarrow> strip_slashes d \<noteq> [] \<Longrightarrow> is_absolute (strip_slashes d)"
proof -
  assume a: "is_absolute d" "strip_slashes d \<noteq> []"
  have "prefix (strip_slashes d) d"
    using suffix_dropWhile [of "\<lambda>c. c = slash" "rev d"]
    by (simp add: strip_slashes_def suffix_to_prefix)
  with a show ?thesis by (cases d) (auto simp: is_absolute_def prefix_Cons)
qed

lemma plain_at_parent:
  assumes "plain_at path p" and "p \<noteq> []"
  shows "has_parent_path path" and "plain_at (parent_path path) (butlast p)"
proof -
  obtain d f where df: "path = d @ slash # f" "plain_name f"
    "p = filter (\<lambda>p. p \<noteq> []) (split_on slash d) @ [f]" "d = [] \<or> is_absolute d"
    using plain_at_split [OF assms] by blast
  have pl: "list_all plain_name (butlast p)" using assms(1) df(3) by (simp add: plain_at_def)
  have par: "parent_path path = (if strip_slashes d = [] then [slash] else strip_slashes d)"
    using df(1,2) by (simp add: parent_path_append plain_name_def)
  show "has_parent_path path" using par by (simp add: has_parent_path_def)
  show "plain_at (parent_path path) (butlast p)"
  proof (cases "strip_slashes d = []")
    case True
    then have "filter (\<lambda>p. p \<noteq> []) (split_on slash d) = []" using comps_strip_slashes [of d] by simp
    then show ?thesis
      using par True df(3) by (simp add: plain_at_def is_absolute_def walk_comps_def)
  next
    case False
    then have "d \<noteq> []" by (auto simp: strip_slashes_def)
    then show ?thesis
      using par False df(3,4) pl by (simp add: plain_at_def walk_comps_strip is_absolute_strip)
  qed
qed

lemma plain_names_ok: "list_all plain_name p \<Longrightarrow> filter (\<lambda>c. c \<noteq> []) p = p"
  by (induction p) (auto simp: plain_name_def)

lemma plain_at_join:
  assumes "list_all plain_name p" and "p \<noteq> []"
  shows "plain_at (''/'' @ join_with ''/'' p) p"
proof -
  have sp: "split_on slash (join_with ''/'' p) = p"
    using assms by (intro split_join) (auto simp: list_all_iff plain_name_def)
  have comps: "filter (\<lambda>c. c \<noteq> []) (split_on slash (''/'' @ join_with ''/'' p)) = p"
    using sp assms by (simp add: plain_names_ok)
  have "last (''/'' @ join_with ''/'' p) \<noteq> slash"
  proof
    assume l: "last (''/'' @ join_with ''/'' p) = slash"
    have ne: "join_with ''/'' p \<noteq> []" using sp assms by (auto simp: plain_name_def)
    then obtain x where "join_with ''/'' p = x @ [slash]"
      using l by (metis append_butlast_last_id last_appendR)
    then have "split_on slash x @ [[]] = p" using sp by (simp add: split_on_append_sep)
    then show False using assms(1) by (auto simp: plain_name_def)
  qed
  then show ?thesis using comps assms(1) by (simp add: plain_at_def is_absolute_def walk_comps_def)
qed

lemma plain_at_comps: "plain_at path p \<Longrightarrow> filter (\<lambda>c. c \<noteq> []) (split_on slash path) = p"
proof (cases "p = []")
  case True
  assume "plain_at path p"
  with True show ?thesis by (simp add: plain_at_def walk_comps_def Let_def split: if_splits)
next
  case False
  assume pa: "plain_at path p"
  obtain d f where "path = d @ slash # f" "plain_name f"
    "p = filter (\<lambda>p. p \<noteq> []) (split_on slash d) @ [f]"
    using plain_at_split [OF pa False] by blast
  then show ?thesis by (simp add: split_on_append_sep split_on_noseps plain_name_def)
qed

text \<open>
  \<open>dirs_open N p\<close>: every ancestor-or-self of \<open>p\<close> is a directory or free, so \<open>p\<close> can be made a
  directory; \<open>dirs_made p s s'\<close> says that it was, with nothing else touched.
\<close>

definition dirs_open :: "fnodes \<Rightarrow> fpath \<Rightarrow> bool" where
  "dirs_open N p \<longleftrightarrow> (\<forall>q \<in> set (prefixes p). kind_at N q = None \<or> is_dir N q)"

definition dirs_made :: "fpath \<Rightarrow> fs \<Rightarrow> fs \<Rightarrow> bool" where
  "dirs_made p s s' \<longleftrightarrow>
     fs_wf s' \<and> fs_faults s' = fs_faults s \<and> fs_cwd s' = fs_cwd s \<and> fs_clock s' = fs_clock s
     \<and> (\<forall>q. kind_at (fs_nodes s') q = (if prefix q p then Some KDir else kind_at (fs_nodes s) q))"

lemma make_dirs_plain:
  assumes "fs_wf s" and "fs_faults s = []" and "list_all plain_name (pre @ cs)"
    and "is_dir (fs_nodes s) pre" and "dirs_open (fs_nodes s) (pre @ cs)"
  shows "\<exists>s'. make_dirs True pre cs s = (None, s') \<and> dirs_made (pre @ cs) s s'"
  using assms
proof (induction cs arbitrary: pre s)
  case Nil
  have "is_dir (fs_nodes s) q" if "prefix q pre" for q
    using that Nil.prems wf_ancestor_dir [of "fs_nodes s" q] by (auto simp: fs_wf_def prefix_def)
  then show ?case using Nil.prems by (auto simp: dirs_made_def is_dir_def)
next
  case (Cons c cs)
  let ?p = "pre @ [c]"
  have name: "plain_at (''/'' @ join_with ''/'' ?p) ?p"
    using Cons.prems(3) by (intro plain_at_join) auto
  have opn: "kind_at (fs_nodes s) ?p = None \<or> is_dir (fs_nodes s) ?p"
    using Cons.prems(5) by (auto simp: dirs_open_def)
  then have res: "resolve s True (''/'' @ join_with ''/'' ?p) = Inr ?p"
    using Cons.prems(1,4) name by (intro resolve_plain) auto
  show ?case
  proof (cases "kind_at (fs_nodes s) ?p")
    case None
    let ?s1 = "put_node ?p (new_node s KDir) s"
    have mk: "sys_mkdir ?p s = (None, ?s1)"
      using Cons.prems(2) by (simp add: sys_mkdir_def fs_simps)
    have wf1: "fs_wf ?s1"
      using Cons.prems(1) res None by (intro put_new_wf)
    have "\<exists>s'. make_dirs True ?p cs ?s1 = (None, s') \<and> dirs_made (?p @ cs) ?s1 s'"
      using Cons.prems wf1
      by (intro Cons.IH)
        (auto simp: put_node_def dirs_open_def is_dir_def fs_simps new_node_def)
    then obtain s' where s': "make_dirs True ?p cs ?s1 = (None, s')" "dirs_made (?p @ cs) ?s1 s'"
      by blast
    have "dirs_made (pre @ c # cs) s s'"
      using s'(2) by (auto simp: dirs_made_def fs_simps put_node_def new_node_def)
    then show ?thesis using s'(1) res None mk by (auto simp: Let_def)
  next
    case (Some k)
    then have k: "k = KDir" using opn by (auto simp: is_dir_def)
    have "\<exists>s'. make_dirs True ?p cs s = (None, s') \<and> dirs_made (?p @ cs) s s'"
      using Cons.prems Some k by (intro Cons.IH) (auto simp: is_dir_def)
    then show ?thesis using res Some k by (auto simp: Let_def)
  qed
qed

lemma dir_status:
  assumes "fs_wf s" and "plain_at path p" and "is_dir (fs_nodes s) p"
  shows "fs_status s path = Inr (Some KDir)" and "fs_symlink_status s path = Inr (Some KDir)"
proof -
  have good: "good_at (fs_nodes s) p" using assms by (auto simp: fs_wf_def intro: wf_dir_good)
  have "resolve s f path = Inr p" for f
    using assms good by (intro resolve_plain) (auto simp: good_at_def)
  then show "fs_status s path = Inr (Some KDir)" "fs_symlink_status s path = Inr (Some KDir)"
    using assms(3)
    by (auto simp: fs_status_def fs_symlink_status_def sys_stat_def sys_lstat_def stat_at_def
        status_of_def is_dir_def kind_at_def)
qed

text \<open>Below the last existing directory nothing is found.\<close>

lemma walk_missing:
  assumes "wf_nodes N" and "list_all plain_name cs" and "is_dir N d" and "kind_at N (d @ cs) = None"
    and "dirs_open N (d @ butlast cs)"
  shows "walk l N f d cs = Inl ENOENT \<or> walk l N f d cs = Inr (d @ cs)"
  using assms(2-)
proof (induction cs arbitrary: d)
  case (Cons c cs)
  have c: "plain_name c" using Cons.prems(1) by simp
  show ?case
  proof (cases "cs = []")
    case True
    then show ?thesis using Cons.prems c by (simp add: walk_step_plain del: walk.simps(2))
  next
    case False
    have "kind_at N (d @ [c]) = None \<or> is_dir N (d @ [c])"
      using Cons.prems(4) False by (auto simp: dirs_open_def)
    then show ?thesis
    proof
      assume "kind_at N (d @ [c]) = None"
      then show ?thesis
        using Cons.prems(2) c False by (simp add: walk_step_plain del: walk.simps(2))
    next
      assume d': "is_dir N (d @ [c])"
      have "walk l N f (d @ [c]) cs = Inl ENOENT \<or> walk l N f (d @ [c]) cs = Inr ((d @ [c]) @ cs)"
        using Cons.prems d' False by (intro Cons.IH) auto
      then show ?thesis
        using Cons.prems(2) c d' by (simp add: walk_step_plain del: walk.simps(2)) (simp add: is_dir_def)
    qed
  qed
qed (simp add: is_dir_def)

lemma missing_status:
  assumes "fs_wf s" and "plain_at path p" and "kind_at (fs_nodes s) p = None"
    and "dirs_open (fs_nodes s) (butlast p)"
  shows "fs_status s path = Inr None" and "fs_symlink_status s path = Inr None"
proof -
  have "path \<noteq> []" using assms(2) by (auto simp: plain_at_def is_absolute_def)
  then have res: "resolve s f path = Inl ENOENT \<or> resolve s f path = Inr p" for f
    using walk_missing [of "fs_nodes s" p "[]" max_links f] assms
    by (simp add: resolve_def plain_at_def fs_wf_def wf_nodes_def)
  have "stat_at s f path = Inl ENOENT" for f
    using res [of f] assms(3) by (elim disjE) (simp_all add: stat_at_def kind_at_def)
  then show "fs_status s path = Inr None" "fs_symlink_status s path = Inr None"
    by (simp_all add: fs_status_def fs_symlink_status_def sys_stat_def sys_lstat_def status_of_def)
qed

lemma create_directories_plain:
  assumes "fs_wf s" and "fs_faults s = []" and "plain_at path p" and "dirs_open (fs_nodes s) p"
  shows "\<exists>s'. fs_create_directories path s = (Inr (kind_at (fs_nodes s) p = None), s')
    \<and> dirs_made p s s'"
proof (cases "is_dir (fs_nodes s) p")
  case True
  have "is_dir (fs_nodes s) q" if "prefix q p" for q
    using that True assms(1) wf_ancestor_dir [of "fs_nodes s" q] by (auto simp: fs_wf_def prefix_def)
  then have "dirs_made p s s" using assms(1) by (auto simp: dirs_made_def is_dir_def)
  then show ?thesis
    using assms True dir_status [OF assms(1,3) True]
    by (auto simp: fs_create_directories_def plain_at_def is_absolute_def is_dir_def)
next
  case False
  then have none: "kind_at (fs_nodes s) p = None" using assms(4) by (auto simp: dirs_open_def)
  have opn: "dirs_open (fs_nodes s) (butlast p)"
    using assms(4) unfolding dirs_open_def
    by (metis in_set_prefixes prefix_order.trans prefixeq_butlast)
  have root: "is_dir (fs_nodes s) []" using assms(1) by (simp add: fs_wf_def wf_nodes_def)
  obtain s' where "make_dirs True [] p s = (None, s')" "dirs_made p s s'"
    using make_dirs_plain [of s "[]" p] assms root by (auto simp: plain_at_def)
  moreover have "path \<noteq> []" "is_absolute path"
    using assms(3) by (auto simp: plain_at_def is_absolute_def)
  ultimately show ?thesis
    using none missing_status [OF assms(1,3) none opn] plain_at_comps [OF assms(3)]
    by (simp add: fs_create_directories_def)
qed

end
