(* ===== verification/Defs.thy ===== *)
theory Defs
  imports Prelude
begin

text \<open>
  Constants the whole program shares: the error codes of \<^verbatim>\<open>src/src/proto/error.proto\<close> (the build
  turns them into \<^verbatim>\<open>Err_*\<close> constants), the sizes of \<^verbatim>\<open>src/src/common/defs.h\<close>, and its plain
  data types.
\<close>

section \<open>Error codes\<close>

definition Err_Success :: int where "Err_Success = 0"
definition Err_Fail :: int where "Err_Fail = 1"
definition Err_User_session_error :: int where "Err_User_session_error = 10001"
definition Err_User_name_error :: int where "Err_User_name_error = 10002"
definition Err_User_passwd_error :: int where "Err_User_passwd_error = 10003"
definition Err_User_exists :: int where "Err_User_exists = 10004"
definition Err_User_not_exists :: int where "Err_User_not_exists = 10005"
definition Err_User_disabled :: int where "Err_User_disabled = 10006"
definition Err_Repo_not_exists :: int where "Err_Repo_not_exists = 11000"
definition Err_File_permission :: int where "Err_File_permission = 12001"
definition Err_File_disk_full :: int where "Err_File_disk_full = 12002"
definition Err_File_dst_is_src_subdir :: int where "Err_File_dst_is_src_subdir = 12003"
definition Err_File_not_exists :: int where "Err_File_not_exists = 12004"
definition Err_File_exists :: int where "Err_File_exists = 12005"
definition Err_File_not_dir :: int where "Err_File_not_dir = 12006"

lemmas err_defs =
  Err_Success_def Err_Fail_def Err_User_session_error_def Err_User_name_error_def
  Err_User_passwd_error_def Err_User_exists_def Err_User_not_exists_def Err_User_disabled_def
  Err_Repo_not_exists_def Err_File_permission_def Err_File_disk_full_def
  Err_File_dst_is_src_subdir_def Err_File_not_exists_def Err_File_exists_def Err_File_not_dir_def

section \<open>Sizes\<close>

definition CONFIG_DIR :: string where "CONFIG_DIR = ''.Dr.Q.config''"
definition NET_BUFFER_SIZE_BYTES :: int where "NET_BUFFER_SIZE_BYTES = 4 * 1024 * 1024"
definition CALC_BUFFER_SIZE_BYTES :: int where "CALC_BUFFER_SIZE_BYTES = 64 * 1024"
definition MAX_GRPC_MSG_SIZE :: int where "MAX_GRPC_MSG_SIZE = 2 * 64 * 1024 * 1024 * 8"
definition SESSION_INTERVAL :: int where "SESSION_INTERVAL = 5 * 60 * 1000"
definition kSaltSize :: nat where "kSaltSize = 16"
definition kDerivedKeySize :: nat where "kDerivedKeySize = 32"
definition kIterations :: nat where "kIterations = 100000"

section \<open>Data types\<close>

datatype SendStatus = SS_SUCCESS | SS_RETRING | SS_TOO_MANY_RETRY | SS_FATAL | SS_FAIL

datatype HashMethod = Hash_NONE | Hash_CRC32 | Hash_MD5 | Hash_SHA256 | Hash_BLAKE3

datatype SyncMethod = Sync_SYNC | Sync_ARCH

record FileAttr =
  fa_path :: string
  fa_file_hash :: string
  fa_enc_file_hash :: string
  fa_file_size :: int
  fa_partition_num :: int
  fa_update_time :: int
  fa_user :: string
  fa_group :: string

text \<open>\<^verbatim>\<open>std::to_string\<close> on integers.\<close>

fun nat_digits :: "nat \<Rightarrow> string" where
  "nat_digits n =
     (if n < 10 then [char_of (48 + n)] else nat_digits (n div 10) @ [char_of (48 + n mod 10)])"

definition to_string :: "int \<Rightarrow> string" where
  "to_string i = (if i < 0 then CHR ''-'' # nat_digits (nat (- i)) else nat_digits (nat i))"

declare nat_digits.simps [simp del]

text \<open>\<^verbatim>\<open>FileAttr::ToString\<close>; the last four fields have no separator in front.\<close>

definition FileAttr_ToString :: "FileAttr \<Rightarrow> string" where
  "FileAttr_ToString a =
     ''path: '' @ fa_path a @ '', ''
     @ ''file_hash: '' @ fa_file_hash a @ '', ''
     @ ''enc_file_hash: '' @ fa_enc_file_hash a @ '', ''
     @ ''file_size: '' @ to_string (fa_file_size a) @ '', ''
     @ ''partition_num: '' @ to_string (fa_partition_num a)
     @ ''update_time: '' @ to_string (fa_update_time a)
     @ ''user: '' @ fa_user a
     @ ''group: '' @ fa_group a"

end
