(* ===== verification/UtilFile.thy ===== *)
theory UtilFile
  imports FileSystem Defs
begin

text \<open>
  The file operations of \<^verbatim>\<open>src/src/util/util.cc\<close> over the file-system model, one definition per
  function.  A function that catches \<^verbatim>\<open>filesystem_error\<close> returns the value of its handler; where
  the source lets it escape, the result is a sum and \<open>Inl\<close> is the exception.
\<close>

section \<open>Queries\<close>

definition Exists :: "fs \<Rightarrow> string \<Rightarrow> bool" where
  "Exists s path = (case fs_symlink_status s path of Inl e \<Rightarrow> False | Inr k \<Rightarrow> k \<noteq> None)"

definition TargetExists :: "fs \<Rightarrow> string \<Rightarrow> string \<Rightarrow> errno + bool" where
  "TargetExists s src dst =
     (case fs_exists s src of
        Inl e \<Rightarrow> Inl e
      | Inr b \<Rightarrow>
          if \<not> b then Inr True
          else (case fs_exists s dst of Inl e \<Rightarrow> Inl e | Inr b' \<Rightarrow> Inr b'))"

definition ToTimeSpec :: "int \<Rightarrow> int \<times> int" where
  "ToTimeSpec ts = (ts sdiv 1000, (ts smod 1000) * 1000000)"

definition UpdateTime :: "fs \<Rightarrow> string \<Rightarrow> int" where
  "UpdateTime s path =
     (case sys_lstat s path of
        Inr n \<Rightarrow> fst (nmtime n) * 1000 + snd (nmtime n) sdiv 1000000
      | Inl e \<Rightarrow> - 1)"

definition FileSize :: "fs \<Rightarrow> string \<Rightarrow> int" where
  "FileSize s path = (case sys_lstat s path of Inr n \<Rightarrow> int (kind_size (nkind n)) | Inl e \<Rightarrow> - 1)"

text \<open>The user database of the system: the names \<^verbatim>\<open>getpwuid\<close> and \<^verbatim>\<open>getgrgid\<close> return.\<close>

record userdb =
  pw_name :: "int \<Rightarrow> string option"
  gr_name :: "int \<Rightarrow> string option"

definition name_or :: "string option \<Rightarrow> string option \<Rightarrow> string \<Rightarrow> string" where
  "name_or a b old = (case a of Some x \<Rightarrow> x | None \<Rightarrow> (case b of Some x \<Rightarrow> x | None \<Rightarrow> old))"

definition Username :: "userdb \<Rightarrow> fs \<Rightarrow> int \<Rightarrow> int \<Rightarrow> string \<times> string \<Rightarrow> string \<times> string" where
  "Username db s uid gid out =
     (name_or (pw_name db uid) (pw_name db (fst (fs_ids s))) (fst out),
      name_or (gr_name db gid) (gr_name db (snd (fs_ids s))) (snd out))"

text \<open>\<open>owner\<close>: the caller passed both the \<^verbatim>\<open>user\<close> and the \<^verbatim>\<open>group\<close> pointer.\<close>

record file_info =
  fi_update_time :: int
  fi_size :: int
  fi_owner :: "string \<times> string"

definition FileInfo :: "userdb \<Rightarrow> fs \<Rightarrow> string \<Rightarrow> bool \<Rightarrow> file_info \<Rightarrow> bool \<times> file_info" where
  "FileInfo db s path owner out =
     (case sys_lstat s path of
        Inl e \<Rightarrow> (False, out)
      | Inr n \<Rightarrow>
          (True,
           \<lparr>fi_update_time = fst (nmtime n) * 1000 + snd (nmtime n) sdiv 1000000,
            fi_size = int (kind_size (nkind n)),
            fi_owner = (if owner then Username db s (nuid n) (ngid n) (fi_owner out)
                        else fi_owner out)\<rparr>))"

definition CurrentPath :: "fs \<Rightarrow> string" where
  "CurrentPath s = (if is_dir (fs_nodes s) (fs_cwd s) then render (fs_cwd s) else '''')"

definition AbsolutePath :: "fs \<Rightarrow> string \<Rightarrow> string" where
  "AbsolutePath s path =
     (if path = '''' then ''''
      else if is_absolute path then path
      else if \<not> is_dir (fs_nodes s) (fs_cwd s) then ''''
      else if fs_cwd s = [] then ''/'' @ path
      else render (fs_cwd s) @ ''/'' @ path)"

definition RealPath :: "fs \<Rightarrow> string \<Rightarrow> string" where
  "RealPath s path =
     (case fs_is_symlink s path of
        Inl e \<Rightarrow> ''''
      | Inr b \<Rightarrow>
          if \<not> b then path
          else (case fs_read_symlink s path of Inl e \<Rightarrow> '''' | Inr t \<Rightarrow> t))"

text \<open>
  \<^verbatim>\<open>LoadSmallFile\<close> appends to \<^verbatim>\<open>*content\<close>.  A directory opens, but the size its \<^verbatim>\<open>tellg\<close> yields is
  no size: \<^verbatim>\<open>reserve\<close> of it leaves the function by an exception.
\<close>

definition LoadSmallFile :: "fs \<Rightarrow> string \<Rightarrow> string \<Rightarrow> errno + bool \<times> string" where
  "LoadSmallFile s path content =
     (case read_stream s path of
        Inl e \<Rightarrow> Inr (False, content)
      | Inr (d, bad) \<Rightarrow> if bad then Inl EISDIR else Inr (True, content @ d))"

section \<open>Updates\<close>

definition SetUpdateTime :: "string \<Rightarrow> int \<Rightarrow> fs \<Rightarrow> bool \<times> fs" where
  "SetUpdateTime path ts s =
     (let t = ToTimeSpec ts
      in if IsAbsolute path then
           (case resolve s True (parent_path path) of
              Inl e \<Rightarrow> (False, s)
            | Inr dir \<Rightarrow>
                if \<not> is_dir (fs_nodes s) dir then (False, s)
                else (case sys_utimensat dir (filename path) t s of
                        (Some e, s1) \<Rightarrow> (False, s1)
                      | (None, s1) \<Rightarrow> (True, s1)))
         else (case sys_utimensat (fs_cwd s) path t s of
                 (Some e, s1) \<Rightarrow> (False, s1)
               | (None, s1) \<Rightarrow> (True, s1)))"

definition Mkdir :: "string \<Rightarrow> fs \<Rightarrow> bool \<times> fs" where
  "Mkdir path s =
     (if \<not> Exists s path then
        (case fs_create_directories path s of
           (Inl e, s1) \<Rightarrow> (False, s1)
         | (Inr b, s1) \<Rightarrow> (b, s1))
      else (True, s))"

definition MkParentDir :: "string \<Rightarrow> fs \<Rightarrow> bool \<times> fs" where
  "MkParentDir path s =
     (if \<not> has_parent_path path then (False, s) else Mkdir (parent_path path) s)"

definition Remove :: "string \<Rightarrow> fs \<Rightarrow> bool \<times> fs" where
  "Remove path s =
     (if Exists s path then
        (case fs_remove_all path s of
           (Inl e, s1) \<Rightarrow> (False, s1)
         | (Inr n, s1) \<Rightarrow> (n \<noteq> 0, s1))
      else (True, s))"

definition Create :: "string \<Rightarrow> fs \<Rightarrow> bool \<times> fs" where
  "Create path s =
     (if path = '''' then (False, s)
      else if length path > 1 \<and> last path = slash then (False, s)
      else let (ok, s1) = (if \<not> Exists s path then MkParentDir path s else (True, s))
           in if \<not> ok then (False, s1)
              else if Exists s1 path then (True, s1)
              else (case sys_open_write True True path s1 of
                      (Inl e, s2) \<Rightarrow> (False, s2)
                    | (Inr p, s2) \<Rightarrow> (True, s2)))"

definition Rename :: "string \<Rightarrow> string \<Rightarrow> fs \<Rightarrow> errno + bool \<times> fs" where
  "Rename src dst s =
     (case fs_exists s src of
        Inl e \<Rightarrow> Inl e
      | Inr b \<Rightarrow>
          if \<not> b then Inr (False, s)
          else Inr (False, snd (fs_rename src dst s)))"

definition errno_code :: "errno \<Rightarrow> int" where
  "errno_code e =
     (if e = EACCES then Err_File_permission
      else if e = ENOSPC then Err_File_disk_full else Err_Fail)"

definition CreateFileWithSize :: "string \<Rightarrow> int \<Rightarrow> fs \<Rightarrow> errno + int \<times> fs" where
  "CreateFileWithSize path sz s =
     (case fs_symlink_status s path of
        Inl e \<Rightarrow> Inl e
      | Inr (Some k) \<Rightarrow> Inr (Err_Success, s)
      | Inr None \<Rightarrow>
          (case sys_open_write True True path s of
             (Inl e, s1) \<Rightarrow> Inr (errno_code e, s1)
           | (Inr p, s1) \<Rightarrow>
               (case sys_ftruncate p sz s1 of
                  (Some e, s2) \<Rightarrow> Inr (Err_Fail, s2)
                | (None, s2) \<Rightarrow> Inr (Err_Success, s2))))"

definition CreateSymlink :: "string \<Rightarrow> string \<Rightarrow> fs \<Rightarrow> bool \<times> fs" where
  "CreateSymlink src target s =
     (case fs_create_symlink target src s of (Some e, s1) \<Rightarrow> (False, s1) | (None, s1) \<Rightarrow> (True, s1))"

definition CopyFile :: "string \<Rightarrow> string \<Rightarrow> copy_options \<Rightarrow> fs \<Rightarrow> bool \<times> fs" where
  "CopyFile src dst opt s =
     (case fs_copy_file src dst opt s of (Inl e, s1) \<Rightarrow> (False, s1) | (Inr b, s1) \<Rightarrow> (b, s1))"

definition TruncateFile :: "string \<Rightarrow> fs \<Rightarrow> bool \<times> fs" where
  "TruncateFile path s =
     (case fs_exists s path of
        Inl e \<Rightarrow> (False, s)
      | Inr b \<Rightarrow>
          if \<not> b then (True, s)
          else (case sys_open_write True True path s of
                  (Inl e, s1) \<Rightarrow> (False, s1)
                | (Inr p, s1) \<Rightarrow> (True, s1)))"

text \<open>The directories that \<^verbatim>\<open>WriteToFile\<close> makes first, when the file is not there.\<close>

definition ensure_parent :: "string \<Rightarrow> fs \<Rightarrow> errno option \<times> fs" where
  "ensure_parent path s =
     (case fs_exists s path of
        Inl e \<Rightarrow> (Some e, s)
      | Inr b \<Rightarrow>
          if b then (None, s)
          else if has_parent_path path then
            (case fs_create_directories (parent_path path) s of
               (Inl e, s1) \<Rightarrow> (Some e, s1)
             | (Inr _, s1) \<Rightarrow> (None, s1))
          else (None, s))"

text \<open>\<^verbatim>\<open>WriteToFile(path, content, bool append)\<close>.\<close>

definition WriteToFile :: "string \<Rightarrow> bytes \<Rightarrow> bool \<Rightarrow> fs \<Rightarrow> int \<times> fs" where
  "WriteToFile path content app s =
     (case ensure_parent path s of
        (Some e, s1) \<Rightarrow> (Err_Fail, s1)
      | (None, s1) \<Rightarrow>
          (case sys_open_write True (\<not> app) path s1 of
             (Inl e, s2) \<Rightarrow> (errno_code e, s2)
           | (Inr p, s2) \<Rightarrow>
               (Err_Success, snd (stream_write p (length (content_at s2 p)) content s2))))"

text \<open>\<^verbatim>\<open>WriteToFile(path, content, int64_t start)\<close>.\<close>

definition WriteToFile_at :: "string \<Rightarrow> bytes \<Rightarrow> int \<Rightarrow> fs \<Rightarrow> int \<times> fs" where
  "WriteToFile_at path content start s =
     (case sys_open_write False False path s of
        (Inl e, s1) \<Rightarrow> (Err_Fail, s1)
      | (Inr p, s1) \<Rightarrow>
          if start < 0 then (errno_code EINVAL, s1)
          else (case stream_write p (nat start) content s1 of
                  (Some e, s2) \<Rightarrow> (errno_code e, s2)
                | (None, s2) \<Rightarrow> (Err_Success, s2)))"

text \<open>\<open>None\<close>: the call of \<^verbatim>\<open>Relative\<close> does not return.\<close>

definition SyncSymlink ::
  "boost_api \<Rightarrow> string \<Rightarrow> string \<Rightarrow> string \<Rightarrow> fs \<Rightarrow> (bool \<times> fs) option" where
  "SyncSymlink B src dst src_symlink s =
     (if \<not> StartWith B src_symlink src then Some (False, s)
      else case (fs_is_symlink s src, fs_is_symlink s dst) of
             (Inl e, _) \<Rightarrow> Some (False, s)
           | (Inr True, _) \<Rightarrow> Some (False, s)
           | (Inr False, Inl e) \<Rightarrow> Some (False, s)
           | (Inr False, Inr True) \<Rightarrow> Some (False, s)
           | (Inr False, Inr False) \<Rightarrow>
               (case fs_is_symlink s src_symlink of
                  Inl e \<Rightarrow> Some (False, s)
                | Inr b \<Rightarrow>
                    if \<not> b then Some (False, s)
                    else (case fs_read_symlink s src_symlink of
                            Inl e \<Rightarrow> Some (False, s)
                          | Inr target \<Rightarrow>
                              (case Relative B src_symlink src of
                                 None \<Rightarrow> None
                               | Some (ok, rel) \<Rightarrow>
                                   let dst_symlink = (if rel \<noteq> '''' then dst @ ''/'' @ rel else dst);
                                       (_, s1) = MkParentDir dst_symlink s;
                                       (_, s2) = Remove dst_symlink s1
                                   in case fs_create_symlink target dst_symlink s2 of
                                        (Some e, s3) \<Rightarrow> Some (False, s3)
                                      | (None, s3) \<Rightarrow> Some (True, s3)))))"

definition SyncRemoteSymlink ::
  "boost_api \<Rightarrow> fs \<Rightarrow> string \<Rightarrow> string \<Rightarrow> string \<Rightarrow> bool \<times> string" where
  "SyncRemoteSymlink B s src src_symlink target =
     (if \<not> StartWith B src_symlink src then (False, target)
      else case fs_is_symlink s src of
             Inl e \<Rightarrow> (False, target)
           | Inr True \<Rightarrow> (False, target)
           | Inr False \<Rightarrow>
               (case fs_is_symlink s src_symlink of
                  Inl e \<Rightarrow> (False, target)
                | Inr b \<Rightarrow>
                    if \<not> b then (False, target)
                    else (case fs_read_symlink s src_symlink of
                            Inl e \<Rightarrow> (False, target)
                          | Inr t \<Rightarrow> (True, t))))"

section \<open>Partitions\<close>

text \<open>\<open>None\<close>: the division by a partition size of zero.\<close>

definition FilePartitionNum :: "int \<Rightarrow> int \<Rightarrow> int option" where
  "FilePartitionNum total_size partition_size =
     (if partition_size = 0 then None
      else Some (to_i32 (total_size sdiv partition_size
                         + (if total_size smod partition_size > 0 then 1 else 0))))"

definition FilePartitionNum_net :: "int \<Rightarrow> int" where
  "FilePartitionNum_net sz =
     to_i32 (sz sdiv NET_BUFFER_SIZE_BYTES
             + (if sz smod NET_BUFFER_SIZE_BYTES > 0 then 1 else 0))"

definition FilePartitionNum_path :: "fs \<Rightarrow> string \<Rightarrow> int \<Rightarrow> int option" where
  "FilePartitionNum_path s path partition_size =
     (let ret = FileSize s path
      in if ret = - 1 then Some (- 1) else FilePartitionNum ret partition_size)"

definition FilePartitionNum_path_net :: "fs \<Rightarrow> string \<Rightarrow> int" where
  "FilePartitionNum_path_net s path =
     (let ret = FileSize s path in if ret = - 1 then - 1 else FilePartitionNum_net ret)"

definition CalcPartitionStart :: "int \<Rightarrow> int \<Rightarrow> int \<Rightarrow> int \<times> int" where
  "CalcPartitionStart sz part partition_size =
     (let start = to_i64 (part * partition_size);
          en = to_i64 (start + partition_size - 1)
      in (start, if en > sz then sz - 1 else en))"

section \<open>Every operation keeps the file system a tree\<close>

lemma Mkdir_wf: "fs_wf s \<Longrightarrow> Mkdir path s = (r, s') \<Longrightarrow> fs_wf s'"
  by (auto simp: Mkdir_def dest: fs_create_directories_wf split: if_splits prod.splits sum.splits)

lemma MkParentDir_wf: "fs_wf s \<Longrightarrow> MkParentDir path s = (r, s') \<Longrightarrow> fs_wf s'"
  by (auto simp: MkParentDir_def dest: Mkdir_wf split: if_splits)

lemma Remove_wf: "fs_wf s \<Longrightarrow> Remove path s = (r, s') \<Longrightarrow> fs_wf s'"
  by (auto simp: Remove_def dest: fs_remove_all_wf split: if_splits prod.splits sum.splits)

lemma Create_wf: "fs_wf s \<Longrightarrow> Create path s = (r, s') \<Longrightarrow> fs_wf s'"
  by (auto simp: Create_def Let_def dest: MkParentDir_wf sys_open_write_wf
      split: if_splits prod.splits sum.splits)

lemma Rename_wf: "fs_wf s \<Longrightarrow> Rename src dst s = Inr (r, s') \<Longrightarrow> fs_wf s'"
  using fs_rename_wf [of s src dst "fst (fs_rename src dst s)" "snd (fs_rename src dst s)"]
  by (auto simp: Rename_def split: if_splits sum.splits)

lemma CreateFileWithSize_wf: "fs_wf s \<Longrightarrow> CreateFileWithSize path sz s = Inr (r, s') \<Longrightarrow> fs_wf s'"
  by (auto simp: CreateFileWithSize_def dest: sys_open_write_wf sys_ftruncate_wf
      split: if_splits sum.splits option.splits prod.splits)

lemma CreateSymlink_wf: "fs_wf s \<Longrightarrow> CreateSymlink src target s = (r, s') \<Longrightarrow> fs_wf s'"
  by (auto simp: CreateSymlink_def dest: fs_create_symlink_wf split: prod.splits option.splits)

lemma CopyFile_wf: "fs_wf s \<Longrightarrow> CopyFile src dst opt s = (r, s') \<Longrightarrow> fs_wf s'"
  by (auto simp: CopyFile_def dest: fs_copy_file_wf split: prod.splits sum.splits)

lemma TruncateFile_wf: "fs_wf s \<Longrightarrow> TruncateFile path s = (r, s') \<Longrightarrow> fs_wf s'"
  by (auto simp: TruncateFile_def dest: sys_open_write_wf split: if_splits prod.splits sum.splits)

lemma ensure_parent_wf: "fs_wf s \<Longrightarrow> ensure_parent path s = (r, s') \<Longrightarrow> fs_wf s'"
  by (auto simp: ensure_parent_def dest: fs_create_directories_wf
      split: if_splits prod.splits sum.splits)

lemma WriteToFile_wf:
  assumes "fs_wf s" and "WriteToFile path content app s = (r, s')"
  shows "fs_wf s'"
proof -
  obtain e s1 where ep: "ensure_parent path s = (e, s1)" by (cases "ensure_parent path s")
  have wf1: "fs_wf s1" by (rule ensure_parent_wf [OF assms(1) ep])
  obtain q s2 where op: "sys_open_write True (\<not> app) path s1 = (q, s2)"
    by (cases "sys_open_write True (\<not> app) path s1")
  have wf2: "fs_wf s2" by (rule sys_open_write_wf [OF wf1 op])
  have "fs_wf (snd (stream_write p k content s2))" for p k
    using stream_write_wf [OF wf2] by (cases "stream_write p k content s2") simp
  then show ?thesis
    using assms(2) ep op wf1 wf2 by (auto simp: WriteToFile_def split: option.splits sum.splits)
qed

lemma WriteToFile_at_wf: "fs_wf s \<Longrightarrow> WriteToFile_at path content start s = (r, s') \<Longrightarrow> fs_wf s'"
  by (auto simp: WriteToFile_at_def dest: sys_open_write_wf stream_write_wf
      split: if_splits prod.splits sum.splits option.splits)

lemma SetUpdateTime_wf: "fs_wf s \<Longrightarrow> SetUpdateTime path ts s = (r, s') \<Longrightarrow> fs_wf s'"
  by (auto simp: SetUpdateTime_def Let_def dest: sys_utimensat_wf
      split: if_splits prod.splits sum.splits option.splits)

lemma SyncSymlink_wf:
  assumes "fs_wf s" and "SyncSymlink B src dst src_symlink s = Some (r, s')"
  shows "fs_wf s'"
proof -
  have mk: "fs_wf (snd (Remove d (snd (MkParentDir d s))))" for d
    using assms(1) by (metis MkParentDir_wf Remove_wf prod.collapse)
  have "fs_wf (snd (fs_create_symlink t d (snd (Remove d (snd (MkParentDir d s))))))" for t d
    using mk by (metis fs_create_symlink_wf prod.collapse)
  then show ?thesis
    using assms
    by (auto simp: SyncSymlink_def Let_def split_beta prod_eq_iff
        split: if_splits sum.splits bool.splits option.splits prod.splits)
qed

text \<open>The updating calls as data, to speak of arbitrary sequences of them.\<close>

datatype util_call =
  CSetUpdateTime string int | CMkdir string | CMkParentDir string | CRemove string
  | CCreate string | CRename string string | CCreateFileWithSize string int
  | CCreateSymlink string string | CCopyFile string string copy_options | CTruncateFile string
  | CWriteToFile string bytes bool | CWriteToFileAt string bytes int

fun exec_call :: "util_call \<Rightarrow> fs \<Rightarrow> fs" where
  "exec_call (CSetUpdateTime path ts) s = snd (SetUpdateTime path ts s)"
| "exec_call (CMkdir path) s = snd (Mkdir path s)"
| "exec_call (CMkParentDir path) s = snd (MkParentDir path s)"
| "exec_call (CRemove path) s = snd (Remove path s)"
| "exec_call (CCreate path) s = snd (Create path s)"
| "exec_call (CRename a b) s = (case Rename a b s of Inl e \<Rightarrow> s | Inr (r, s') \<Rightarrow> s')"
| "exec_call (CCreateFileWithSize path n) s =
     (case CreateFileWithSize path n s of Inl e \<Rightarrow> s | Inr (r, s') \<Rightarrow> s')"
| "exec_call (CCreateSymlink a b) s = snd (CreateSymlink a b s)"
| "exec_call (CCopyFile a b opt) s = snd (CopyFile a b opt s)"
| "exec_call (CTruncateFile path) s = snd (TruncateFile path s)"
| "exec_call (CWriteToFile path c app) s = snd (WriteToFile path c app s)"
| "exec_call (CWriteToFileAt path c k) s = snd (WriteToFile_at path c k s)"

lemmas util_wf =
  SetUpdateTime_wf Mkdir_wf MkParentDir_wf Remove_wf Create_wf CreateSymlink_wf CopyFile_wf
  TruncateFile_wf WriteToFile_wf WriteToFile_at_wf

lemma exec_call_wf: "fs_wf s \<Longrightarrow> fs_wf (exec_call c s)"
  by (cases c)
    (auto split: sum.splits prod.splits simp: prod_eq_iff
      dest: Rename_wf CreateFileWithSize_wf intro: util_wf [OF _ surjective_pairing])

interpretation util_fs: op_invariant exec_call "\<lambda>_. True" fs_wf
  by unfold_locales (rule exec_call_wf)

section \<open>Making and removing\<close>

lemma Exists_iff: "Exists s path \<longleftrightarrow> (\<exists>k. fs_symlink_status s path = Inr (Some k))"
  by (auto simp: Exists_def split: sum.splits)

lemma Exists_present:
  assumes "fs_wf s" and "plain_at path p" and "kind_at (fs_nodes s) p = Some k"
  shows "Exists s path" and "resolve s False path = Inr p"
proof -
  have "good_at (fs_nodes s) p" using assms by (auto simp: fs_wf_def intro: wf_good)
  then show res: "resolve s False path = Inr p"
    using assms by (intro resolve_plain) (auto simp: good_at_def)
  show "Exists s path"
    using assms(3) res
    by (auto simp: Exists_iff fs_symlink_status_def sys_lstat_def stat_at_def status_of_def
        kind_at_def)
qed

lemma Mkdir_plain:
  assumes "fs_wf s" and "fs_faults s = []" and "plain_at path p" and "dirs_open (fs_nodes s) p"
  shows "\<exists>s'. Mkdir path s = (True, s') \<and> dirs_made p s s'"
proof (cases "kind_at (fs_nodes s) p")
  case None
  have opn: "dirs_open (fs_nodes s) (butlast p)"
    using assms(4) unfolding dirs_open_def
    by (metis in_set_prefixes prefix_order.trans prefixeq_butlast)
  have "\<not> Exists s path"
    using missing_status [OF assms(1,3) None opn] by (simp add: Exists_iff)
  then show ?thesis
    using create_directories_plain [OF assms] None by (auto simp: Mkdir_def)
next
  case (Some k)
  then have d: "is_dir (fs_nodes s) p"
    using assms(4) by (metis dirs_open_def in_set_prefixes option.distinct(1) prefix_order.refl)
  have "is_dir (fs_nodes s) q" if "prefix q p" for q
    using that d assms(1) wf_ancestor_dir [of "fs_nodes s" q] by (auto simp: fs_wf_def prefix_def)
  then have "dirs_made p s s" using assms(1) by (auto simp: dirs_made_def is_dir_def)
  then show ?thesis using Exists_present [OF assms(1,3) Some] by (simp add: Mkdir_def)
qed

text \<open>
  \<^verbatim>\<open>Util::Mkdir\<close>, called on an absolute path no component of which is taken by something
  that is not a directory, returns true on a healthy system; afterwards the path and all its
  ancestors are directories and no other entry of the file system has changed.
\<close>

theorem Mkdir_makes_path:
  assumes "fs_wf s" and "fs_faults s = []" and "plain_at path p" and "dirs_open (fs_nodes s) p"
  shows "fst (Mkdir path s) \<and> fs_wf (snd (Mkdir path s))
    \<and> (\<forall>q. kind_at (fs_nodes (snd (Mkdir path s))) q
          = (if prefix q p then Some KDir else kind_at (fs_nodes s) q))"
  using Mkdir_plain [OF assms] by (auto simp: dirs_made_def)

text \<open>A small file system for the witnesses: a root, \<^verbatim>\<open>/a\<close>, \<^verbatim>\<open>/a/f\<close> and a link \<^verbatim>\<open>/l\<close>.\<close>

definition demo_node :: "fkind \<Rightarrow> fnode" where
  "demo_node k = \<lparr>nkind = k, nmtime = (7, 0), nuid = 0, ngid = 0\<rparr>"

definition demo_fs :: fs where
  "demo_fs =
     \<lparr>fs_nodes = [([], demo_node KDir), ([''a''], demo_node KDir),
        ([''a'', ''f''], demo_node (KReg ''old'')), ([''l''], demo_node (KLink ''/a''))],
      fs_cwd = [], fs_clock = (9, 0), fs_ids = (0, 0), fs_faults = []\<rparr>"

lemma demo_wf: "fs_wf demo_fs"
  by code_simp

lemma demo_faults [simp]: "fs_faults demo_fs = []"
  by (simp add: demo_fs_def)

theorem Mkdir_makes_path_witness:
  "kind_at (fs_nodes (snd (Mkdir ''/a/b/c'' demo_fs))) [''a'', ''b''] = Some KDir"
proof -
  have "plain_at ''/a/b/c'' [''a'', ''b'', ''c'']" by code_simp
  moreover have "dirs_open (fs_nodes demo_fs) [''a'', ''b'', ''c'']" by code_simp
  ultimately show ?thesis using Mkdir_makes_path [OF demo_wf demo_faults] by auto
qed

text \<open>
  \<^verbatim>\<open>Util::Remove\<close> on an existing entry other than the root removes exactly the subtree of
  that entry (a symbolic link is removed, not followed) and returns true; the path does not
  exist afterwards.
\<close>

theorem Remove_removes_subtree:
  assumes "fs_wf s" and "fs_faults s = []" and "plain_at path p" and "p \<noteq> []"
    and "kind_at (fs_nodes s) p = Some k"
  shows "fst (Remove path s) \<and> \<not> Exists (snd (Remove path s)) path
    \<and> (\<forall>q. kind_at (fs_nodes (snd (Remove path s))) q
          = (if prefix p q then None else kind_at (fs_nodes s) q))"
proof -
  let ?s' = "s\<lparr>fs_nodes := filter (\<lambda>(q, n). \<not> prefix p q) (fs_nodes s)\<rparr>"
  note present = Exists_present [OF assms(1,3,5)]
  have "filter (\<lambda>(q, n). prefix p q) (fs_nodes s) \<noteq> []"
    using kind_at_in_keys [OF assms(5)] by (auto simp: filter_empty_conv)
  then have run: "Remove path s = (True, ?s')"
    using present assms(2,4) by (simp add: Remove_def fs_remove_all_def fs_simps)
  have kind: "kind_at (fs_nodes ?s') q = (if prefix p q then None else kind_at (fs_nodes s) q)" for q
    by (simp add: fs_simps)
  have wf': "fs_wf ?s'" using assms(1,4) by (simp add: fs_wf_def remove_subtree_wf)
  have "is_dir (fs_nodes s) (butlast p)"
    using assms by (auto simp: fs_wf_def good_at_def dest: wf_good)
  then have "free_name ?s' path p"
    using wf' assms(3,4) not_prefix_butlast [OF assms(4)]
    by (simp add: free_name_def fs_simps is_dir_def)
  then have "\<not> Exists ?s' path" by (simp add: free_name_status Exists_iff)
  then show ?thesis using run kind by simp
qed

theorem Remove_removes_subtree_witness:
  "kind_at (fs_nodes (snd (Remove ''/a'' demo_fs))) [''a'', ''f''] = None
   \<and> kind_at (fs_nodes (snd (Remove ''/a'' demo_fs))) [''l''] = Some (KLink ''/a'')"
proof -
  have "plain_at ''/a'' [''a'']" and "kind_at (fs_nodes demo_fs) [''a''] = Some KDir"
    and "kind_at (fs_nodes demo_fs) [''l''] = Some (KLink ''/a'')"
    by code_simp+
  then show ?thesis using Remove_removes_subtree [OF demo_wf demo_faults, of "''/a''" "[''a'']"] by simp
qed

section \<open>Writing and reading back\<close>

text \<open>
  \<open>writable N p\<close>: the file is absent or regular, and its parent can be made a directory.
\<close>

definition writable :: "fnodes \<Rightarrow> fpath \<Rightarrow> bool" where
  "writable N p \<longleftrightarrow>
     p \<noteq> [] \<and> dirs_open N (butlast p)
     \<and> (case kind_at N p of None \<Rightarrow> True | Some (KReg d) \<Rightarrow> True | _ \<Rightarrow> False)"

lemma stream_write_ok:
  "fs_faults s = [] \<Longrightarrow>
    stream_write p k c s = (None, if c = [] then s else set_content p (overwrite k c (content_at s p)) s)"
  by (simp add: stream_write_def fs_simps)

lemma overwrite_end: "overwrite (length d) c d = d @ c"
  by (simp add: overwrite_def)

lemma ensure_parent_plain:
  assumes "fs_wf s" and "fs_faults s = []" and "plain_at path p" and "writable (fs_nodes s) p"
  shows "\<exists>s'. ensure_parent path s = (None, s') \<and> dirs_made (butlast p) s s'"
proof (cases "kind_at (fs_nodes s) p")
  case None
  have p: "p \<noteq> []" "dirs_open (fs_nodes s) (butlast p)" using assms(4) by (auto simp: writable_def)
  note par = plain_at_parent [OF assms(3) p(1)]
  show ?thesis
    using missing_status [OF assms(1,3) None p(2)] par(1)
      create_directories_plain [OF assms(1,2) par(2) p(2)]
    by (auto simp: ensure_parent_def fs_exists_def)
next
  case (Some k)
  then obtain d where d: "reg_file s path p d"
    using assms by (auto simp: writable_def reg_file_def split: fkind.splits)
  have "is_dir (fs_nodes s) (butlast p)"
    using d assms(4) by (auto simp: reg_file_def fs_wf_def writable_def good_at_def dest: wf_good)
  then have "is_dir (fs_nodes s) q" if "prefix q (butlast p)" for q
    using that assms(1) wf_ancestor_dir [of "fs_nodes s" q] by (auto simp: fs_wf_def prefix_def)
  then have "dirs_made (butlast p) s s" using assms(1) by (auto simp: dirs_made_def is_dir_def)
  then show ?thesis
    using reg_file_status [OF d] by (simp add: ensure_parent_def fs_exists_def)
qed

lemma stream_write_reg:
  assumes "reg_file s path p d" and "fs_faults s = []"
  shows "reg_file (snd (stream_write p k c s)) path p (if c = [] then d else overwrite k c d)"
    and "q \<noteq> p \<Longrightarrow> kind_at (fs_nodes (snd (stream_write p k c s))) q = kind_at (fs_nodes s) q"
    and "fs_faults (snd (stream_write p k c s)) = []"
    and "fst (stream_write p k c s) = None"
  using assms reg_file_content [OF assms(1)] set_content_reg_file [OF assms(1)]
  by (auto simp: stream_write_ok fs_simps)

lemma WriteToFile_plain:
  assumes "fs_wf s" and "fs_faults s = []" and "plain_at path p" and "writable (fs_nodes s) p"
  shows "\<exists>s'. WriteToFile path c app s = (Err_Success, s')
    \<and> reg_file s' path p ((if app then content_at s p else []) @ c) \<and> fs_faults s' = []
    \<and> (\<forall>q. q \<noteq> p \<longrightarrow> kind_at (fs_nodes s') q =
          (if prefix q (butlast p) then Some KDir else kind_at (fs_nodes s) q))"
proof -
  obtain s1 where ep: "ensure_parent path s = (None, s1)" and made: "dirs_made (butlast p) s s1"
    using ensure_parent_plain [OF assms] by blast
  have wf1: "fs_wf s1" and nf1: "fs_faults s1 = []"
    and kinds: "\<And>q. kind_at (fs_nodes s1) q =
          (if prefix q (butlast p) then Some KDir else kind_at (fs_nodes s) q)"
    using made assms(2) by (auto simp: dirs_made_def)
  have p: "p \<noteq> []" "kind_at (fs_nodes s1) p = kind_at (fs_nodes s) p"
    using assms(4) not_prefix_butlast [of p] by (auto simp: writable_def kinds)
  define base where "base = (if app then content_at s p else [])"
  have "\<exists>s2. sys_open_write True (\<not> app) path s1 = (Inr p, s2) \<and> reg_file s2 path p base
    \<and> fs_faults s2 = [] \<and> (\<forall>q. q \<noteq> p \<longrightarrow> kind_at (fs_nodes s2) q = kind_at (fs_nodes s1) q)"
  proof (cases "kind_at (fs_nodes s1) p")
    case None
    then have "free_name s1 path p" using wf1 assms(3) p(1) by (simp add: free_name_def is_dir_def kinds)
    then show ?thesis
      using open_new [OF _ nf1, of path p] new_file_reg [of s1 path p "[]"] nf1 None p(2)
      by (auto simp: base_def content_at_def fs_simps put_node_def)
  next
    case (Some k)
    then obtain d where d: "k = KReg d" using assms(4) p(2) by (auto simp: writable_def split: fkind.splits)
    then have r: "reg_file s1 path p d" using wf1 assms(3) Some by (simp add: reg_file_def)
    have "content_at s p = d" using Some d p(2) by (simp add: content_at_def)
    then show ?thesis
      using open_existing [OF r nf1] r nf1 set_content_reg_file [OF r]
      by (auto simp: base_def fs_simps)
  qed
  then obtain s2 where op: "sys_open_write True (\<not> app) path s1 = (Inr p, s2)"
    and r2: "reg_file s2 path p base" and nf2: "fs_faults s2 = []"
    and k2: "\<And>q. q \<noteq> p \<Longrightarrow> kind_at (fs_nodes s2) q = kind_at (fs_nodes s1) q" by blast
  let ?s' = "snd (stream_write p (length (content_at s2 p)) c s2)"
  have "WriteToFile path c app s = (Err_Success, ?s')" using ep op by (simp add: WriteToFile_def)
  moreover have "reg_file ?s' path p (base @ c)"
    using stream_write_reg(1) [OF r2 nf2, of "length base" c] reg_file_content [OF r2]
    by (simp add: overwrite_end split: if_splits)
  moreover have "\<forall>q. q \<noteq> p \<longrightarrow> kind_at (fs_nodes ?s') q =
      (if prefix q (butlast p) then Some KDir else kind_at (fs_nodes s) q)"
    using stream_write_reg(2) [OF r2 nf2] k2 kinds by simp
  moreover have "fs_faults ?s' = []" by (rule stream_write_reg(3) [OF r2 nf2])
  ultimately show ?thesis unfolding base_def by blast
qed

text \<open>
  On a healthy system \<^verbatim>\<open>Util::WriteToFile(path, content, append)\<close> makes the missing parent
  directories, returns \<^verbatim>\<open>Err_Success\<close>, and a following \<^verbatim>\<open>LoadSmallFile\<close> reads the content back,
  after the old content when appending; no other file or link of the system changes.
\<close>

theorem WriteToFile_roundtrip:
  assumes "fs_wf s" and "fs_faults s = []" and "plain_at path p" and "writable (fs_nodes s) p"
  shows "\<exists>s'. WriteToFile path c app s = (Err_Success, s')
    \<and> LoadSmallFile s' path '''' = Inr (True, (if app then content_at s p else []) @ c)
    \<and> (\<forall>q. q \<noteq> p \<longrightarrow> kind_at (fs_nodes s') q =
          (if prefix q (butlast p) then Some KDir else kind_at (fs_nodes s) q))"
  using WriteToFile_plain [OF assms, of c app] reg_file_read
  by (fastforce simp: LoadSmallFile_def)

theorem WriteToFile_roundtrip_witness:
  "\<exists>s'. WriteToFile ''/a/b/n'' ''xy'' True demo_fs = (Err_Success, s')
    \<and> LoadSmallFile s' ''/a/b/n'' '''' = Inr (True, ''xy'')"
proof -
  have "plain_at ''/a/b/n'' [''a'', ''b'', ''n'']" by code_simp
  moreover have "writable (fs_nodes demo_fs) [''a'', ''b'', ''n'']" by code_simp
  moreover have "content_at demo_fs [''a'', ''b'', ''n''] = []" by code_simp
  ultimately show ?thesis using WriteToFile_roundtrip [OF demo_wf demo_faults] by fastforce
qed

section \<open>Write failures\<close>

lemma open_existing_faulty:
  assumes "reg_file s path p d" and "fs_faults s = NoFault # fl"
  shows "sys_open_write creat False path s = (Inr p, s\<lparr>fs_faults := fl\<rparr>)"
proof -
  have "resolve (s\<lparr>fs_faults := fl\<rparr>) True path = Inr p"
    using reg_file_resolve [OF assms(1), of True] by (simp add: resolve_def split: if_splits)
  then show ?thesis
    using assms by (simp add: sys_open_write_def next_fault_def reg_file_def)
qed

lemma stream_write_faulty:
  assumes "reg_file s path p d" and "fs_faults s = f # fl" and "f = Short n e \<or> f = Late n e"
    and "s1 = s\<lparr>fs_faults := fl\<rparr>"
  shows "stream_write p k c s =
    (if f = Short n e then Some e else None,
     if take n c = [] then s1 else set_content p (overwrite k (take n c) d) s1)"
  using assms by (auto simp: stream_write_def next_fault_def content_at_def reg_file_def)

text \<open>
  When the disk fills up after \<open>n\<close> bytes of an append to an existing file, \<^verbatim>\<open>WriteToFile\<close>
  (append) nevertheless returns \<^verbatim>\<open>Err_Success\<close>: it never looks at the stream after writing, so
  the rest of the content is lost without a trace.  The positioned \<^verbatim>\<open>WriteToFile\<close> reports the
  full disk, unless the bytes were still in the stream's buffer, which only \<^verbatim>\<open>close\<close> flushes.
\<close>

theorem WriteToFile_write_errors:
  assumes "reg_file s path p d" and "fs_faults s = [NoFault, f]"
    and "f = Short n ENOSPC \<or> f = Late n ENOSPC" and "0 \<le> start"
  shows "fst (WriteToFile path c True s) = Err_Success
    \<and> content_at (snd (WriteToFile path c True s)) p = d @ take n c
    \<and> fst (WriteToFile_at path c start s) =
        (if f = Short n ENOSPC then Err_File_disk_full else Err_Success)
    \<and> content_at (snd (WriteToFile_at path c start s)) p =
        (if take n c = [] then d else overwrite (nat start) (take n c) d)"
proof -
  let ?s1 = "s\<lparr>fs_faults := [f]\<rparr>"
  have r1: "reg_file ?s1 path p d" using assms(1) by (simp add: reg_file_def fs_wf_def)
  have op: "sys_open_write creat False path s = (Inr p, ?s1)" for creat
    using open_existing_faulty [OF assms(1,2)] .
  have ep: "ensure_parent path s = (None, s)"
    using reg_file_status [OF assms(1)] by (simp add: ensure_parent_def fs_exists_def)
  have sw: "stream_write p k c ?s1 =
    (if f = Short n ENOSPC then Some ENOSPC else None,
     if take n c = [] then s\<lparr>fs_faults := []\<rparr>
     else set_content p (overwrite k (take n c) d) (s\<lparr>fs_faults := []\<rparr>))" for k
    using stream_write_faulty [OF r1, of f "[]" n ENOSPC] assms(3) by simp
  have kind: "kind_at (fs_nodes s) p = Some (KReg d)" using assms(1) by (simp add: reg_file_def)
  have cont: "content_at ?s1 p = d" using r1 by (rule reg_file_content)
  show ?thesis
    using assms(4) ep op sw kind cont
    by (simp add: WriteToFile_def WriteToFile_at_def errno_code_def content_at_def fs_simps
        overwrite_end)
qed

theorem WriteToFile_write_errors_witness:
  "fst (WriteToFile ''/a/f'' ''new'' True (demo_fs\<lparr>fs_faults := [NoFault, Short 1 ENOSPC]\<rparr>)) = Err_Success
   \<and> fst (WriteToFile_at ''/a/f'' ''new'' 0 (demo_fs\<lparr>fs_faults := [NoFault, Short 1 ENOSPC]\<rparr>)) = Err_File_disk_full"
proof -
  let ?s = "demo_fs\<lparr>fs_faults := [NoFault, Short 1 ENOSPC]\<rparr>"
  have r: "reg_file ?s ''/a/f'' [''a'', ''f''] ''old''" by code_simp
  show ?thesis
    using WriteToFile_write_errors [OF r, of "Short 1 ENOSPC" 1 0 "''new''"] by simp
qed

section \<open>Time stamps\<close>

lemma utimensat_plain:
  assumes "fs_wf s" and "fs_faults s = []" and "node_at (fs_nodes s) (d @ [f]) = Some n"
    and "plain_name f" and "0 \<le> snd t" and "snd t < 1000000000"
  shows "sys_utimensat d f t s = (None, put_node (d @ [f]) (n\<lparr>nmtime := t\<rparr>) s)"
proof -
  have k: "kind_at (fs_nodes s) (d @ [f]) = Some (nkind n)" using assms(3) by (simp add: kind_at_def)
  have "good_at (fs_nodes s) (d @ [f])" using assms(1) k by (auto simp: fs_wf_def intro: wf_good)
  then have dir: "is_dir (fs_nodes s) d" by (simp add: good_at_def)
  have "last f \<noteq> slash" if "f \<noteq> []" using assms(4) that by (metis last_in_set plain_name_def)
  then have comps: "walk_comps f = [f]" "\<not> is_absolute f" "f \<noteq> []"
    using assms(4)
    by (auto simp: walk_comps_def plain_name_def split_on_noseps Let_def is_absolute_def
        split: list.splits)
  have "walk max_links (fs_nodes s) False d [f] = Inr (d @ [f])"
    using walk_plain [of "fs_nodes s" "[f]" d False] assms(1,4) dir by (simp add: fs_wf_def)
  then show ?thesis using assms comps by (simp add: sys_utimensat_def fs_simps)
qed

lemma SetUpdateTime_plain:
  assumes "fs_wf s" and "fs_faults s = []" and "plain_at path p" and "p \<noteq> []"
    and n: "node_at (fs_nodes s) p = Some n" and "0 \<le> ts"
  shows "SetUpdateTime path ts s = (True, put_node p (n\<lparr>nmtime := (ts div 1000, ts mod 1000 * 1000000)\<rparr>) s)"
    and "fs_wf (put_node p (n\<lparr>nmtime := t\<rparr>) s)"
proof -
  obtain dstr f where df: "path = dstr @ slash # f" "plain_name f"
    "p = filter (\<lambda>p. p \<noteq> []) (split_on slash dstr) @ [f]"
    using plain_at_split [OF assms(3,4)] by blast
  let ?d = "butlast p" and ?t = "ToTimeSpec ts"
  have p: "p = ?d @ [f]" using df(3) by simp
  have k: "kind_at (fs_nodes s) p = Some (nkind n)" using n by (simp add: kind_at_def)
  have dir: "is_dir (fs_nodes s) ?d"
    using assms(1,4) k by (auto simp: fs_wf_def good_at_def dest: wf_good)
  have good: "good_at (fs_nodes s) ?d" using assms(1) dir by (auto simp: fs_wf_def intro: wf_dir_good)
  have res: "resolve s True (parent_path path) = Inr ?d"
    using assms(1) plain_at_parent [OF assms(3,4)] dir good
    by (intro resolve_plain) (auto simp: good_at_def)
  have fname: "filename path = f" using df(1,2) by (simp add: filename_append plain_name_def)
  have t: "?t = (ts div 1000, ts mod 1000 * 1000000)"
    using assms(6) by (simp add: ToTimeSpec_def conv_simps)
  have "ts mod 1000 < 1000" by simp
  then have rng: "0 \<le> snd ?t" "snd ?t < 1000000000" using t by auto
  have "sys_utimensat ?d f ?t s = (None, put_node p (n\<lparr>nmtime := ?t\<rparr>) s)"
    using utimensat_plain [OF assms(1,2), of ?d f n ?t] n p df(2) rng by metis
  then show "SetUpdateTime path ts s = (True, put_node p (n\<lparr>nmtime := (ts div 1000, ts mod 1000 * 1000000)\<rparr>) s)"
    using assms(3) res dir fname t by (simp add: SetUpdateTime_def IsAbsolute_def plain_at_def)
  show "fs_wf (put_node p (n\<lparr>nmtime := t\<rparr>) s)"
    using assms(1) k n by (intro put_node_wf) (auto simp: fs_wf_def is_dir_def kind_at_def intro: wf_good)
qed

text \<open>
  \<^verbatim>\<open>UpdateTime\<close> reads back the time stamp that \<^verbatim>\<open>SetUpdateTime\<close> stored, to the millisecond, on
  every existing entry except the root (a symbolic link gets its own stamp), for times from 1970
  on.
\<close>

theorem SetUpdateTime_roundtrip:
  assumes "fs_wf s" and "fs_faults s = []" and "plain_at path p" and "p \<noteq> []"
    and "kind_at (fs_nodes s) p = Some k" and "0 \<le> ts"
  shows "fst (SetUpdateTime path ts s) \<and> UpdateTime (snd (SetUpdateTime path ts s)) path = ts"
proof -
  obtain n where n: "node_at (fs_nodes s) p = Some n" using assms(5) by (auto simp: kind_at_def)
  let ?s' = "put_node p (n\<lparr>nmtime := (ts div 1000, ts mod 1000 * 1000000)\<rparr>) s"
  note run = SetUpdateTime_plain [OF assms(1-4) n assms(6)]
  have "kind_at (fs_nodes ?s') p = Some (nkind n)" by (simp add: fs_simps kind_at_def)
  then have "resolve ?s' False path = Inr p" using Exists_present(2) [OF run(2) assms(3)] by blast
  then have "UpdateTime ?s' path = ts div 1000 * 1000 + ts mod 1000 * 1000000 sdiv 1000000"
    by (simp add: UpdateTime_def sys_lstat_def stat_at_def fs_simps)
  then show ?thesis using run(1) by (simp add: conv_simps)
qed

theorem SetUpdateTime_roundtrip_witness:
  "UpdateTime (snd (SetUpdateTime ''/l'' 1234567 demo_fs)) ''/l'' = 1234567"
proof -
  have "plain_at ''/l'' [''l'']" "kind_at (fs_nodes demo_fs) [''l''] = Some (KLink ''/a'')"
    by code_simp+
  then show ?thesis
    using SetUpdateTime_roundtrip [OF demo_wf demo_faults, of "''/l''" "[''l'']" _ 1234567] by simp
qed

section \<open>Partitions\<close>

text \<open>Part \<open>i\<close> of a file, as the sender cuts it.\<close>

definition part_data :: "nat \<Rightarrow> bytes \<Rightarrow> nat \<Rightarrow> bytes" where
  "part_data ps d i = slice (i * ps) ps d"

lemma part_inside: "i * ps < n \<Longrightarrow> 0 < ps \<Longrightarrow> int i * int ps < int n"
  by (metis of_nat_less_iff of_nat_mult)

lemma length_part: "i * ps < length d \<Longrightarrow> length (part_data ps d i) = min ps (length d - i * ps)"
  by (simp add: part_data_def length_slice)

lemma CalcPartitionStart_value:
  assumes "0 < ps" and "0 \<le> i" and "i * ps < sz" and "sz + ps < 2 ^ 63"
  shows "CalcPartitionStart sz i ps =
    (i * ps, if i * ps + ps - 1 > sz then sz - 1 else i * ps + ps - 1)"
proof -
  have nn: "0 \<le> i * ps" using assms(1,2) by simp
  have "to_i64 (i * ps) = i * ps" using nn assms by (intro to_i64_small) auto
  moreover have "to_i64 (i * ps + ps - 1) = i * ps + ps - 1"
    using nn assms by (intro to_i64_small) linarith+
  ultimately show ?thesis by (simp add: CalcPartitionStart_def Let_def)
qed



text \<open>
  The parts of a file, written in any order to a file of the right size: byte \<open>j\<close> is in place as
  soon as its part has been written.
\<close>

lemma WriteToFile_at_ok:
  assumes "reg_file s path p x" and "fs_faults s = []"
  shows "\<exists>s'. WriteToFile_at path c (int k) s = (Err_Success, s')
    \<and> reg_file s' path p (if c = [] then x else overwrite k c x) \<and> fs_faults s' = []
    \<and> (\<forall>q. q \<noteq> p \<longrightarrow> kind_at (fs_nodes s') q = kind_at (fs_nodes s) q)"
  using open_existing [OF assms, of False False] stream_write_reg [OF assms, where k = k and c = c]
  by (cases "stream_write p k c s") (auto simp: WriteToFile_at_def)

lemma write_part_ok:
  assumes "reg_file s path p x" and "fs_faults s = []" and "length x = length d"
    and "i * ps < length d"
  shows "\<exists>s' x'. WriteToFile_at path (part_data ps d i) (int (i * ps)) s = (Err_Success, s')
    \<and> reg_file s' path p x' \<and> fs_faults s' = [] \<and> length x' = length d
    \<and> (\<forall>j < length d. x' ! j = (if i * ps \<le> j \<and> j < i * ps + ps then d ! j else x ! j))
    \<and> (\<forall>q. q \<noteq> p \<longrightarrow> kind_at (fs_nodes s') q = kind_at (fs_nodes s) q)"
proof -
  let ?c = "part_data ps d i" and ?x' = "overwrite (i * ps) (part_data ps d i) x"
  have same: "(if ?c = [] then x else ?x') = ?x'"
    by (simp add: overwrite_def assms(3) assms(4) less_imp_le)
  obtain s' where s': "WriteToFile_at path ?c (int (i * ps)) s = (Err_Success, s')"
    "reg_file s' path p ?x'" "fs_faults s' = []"
    "\<forall>q. q \<noteq> p \<longrightarrow> kind_at (fs_nodes s') q = kind_at (fs_nodes s) q"
    using WriteToFile_at_ok [OF assms(1,2), of ?c "i * ps"] same by auto
  have "length ?x' = length d"
    using assms(3,4) by (simp add: part_data_def overwrite_slice_length)
  moreover have "\<forall>j < length d. ?x' ! j = (if i * ps \<le> j \<and> j < i * ps + ps then d ! j else x ! j)"
    using assms(3) by (simp add: part_data_def overwrite_slice_nth)
  ultimately show ?thesis using s' by blast
qed

section \<open>Sequences of calls\<close>



section \<open>Files with a backup\<close>

text \<open>A file and its backup: siblings, both writable.\<close>

definition backup_place :: "fs \<Rightarrow> string \<Rightarrow> string \<Rightarrow> fpath \<Rightarrow> fpath \<Rightarrow> bool" where
  "backup_place s path tmp p q \<longleftrightarrow>
     fs_wf s \<and> fs_faults s = [] \<and> plain_at path p \<and> plain_at tmp q
     \<and> writable (fs_nodes s) p \<and> writable (fs_nodes s) q \<and> p \<noteq> q \<and> butlast p = butlast q"

lemma plain_at_unique: "plain_at a p \<Longrightarrow> plain_at a q \<Longrightarrow> p = q"
  by (simp add: plain_at_def)

lemma copy_data_ok:
  assumes "free_name s dst q \<or> (\<exists>e. reg_file s dst q e)" and "fs_faults s = []"
  shows "\<exists>s'. copy_data d dst s = (Inr True, s') \<and> reg_file s' dst q d \<and> fs_faults s' = []
    \<and> (\<forall>x. x \<noteq> q \<longrightarrow> kind_at (fs_nodes s') x = kind_at (fs_nodes s) x)"
proof -
  have "\<exists>s1 e. sys_open_write True True dst s = (Inr q, s1) \<and> reg_file s1 dst q e \<and> fs_faults s1 = []
    \<and> (\<forall>x. x \<noteq> q \<longrightarrow> kind_at (fs_nodes s1) x = kind_at (fs_nodes s) x)"
    using assms(1)
  proof
    assume f: "free_name s dst q"
    show ?thesis
      using open_new [OF f assms(2), of True] new_file_reg [OF f, of "[]"] assms(2)
      by (fastforce simp: put_node_def fs_simps)
  next
    assume "\<exists>e. reg_file s dst q e"
    then obtain e where e: "reg_file s dst q e" by blast
    show ?thesis
      using open_existing [OF e assms(2), of True True] set_content_reg_file [OF e, of "[]"] assms(2)
      by (auto simp: fs_simps)
  qed
  then obtain s1 e where s1: "sys_open_write True True dst s = (Inr q, s1)" "reg_file s1 dst q e" "fs_faults s1 = []"
    "\<forall>x. x \<noteq> q \<longrightarrow> kind_at (fs_nodes s1) x = kind_at (fs_nodes s) x" by blast
  have "copy_data d dst s = (Inr True, set_content q d s1)" using s1 by (simp add: copy_data_def fs_simps)
  then show ?thesis using set_content_reg_file [OF s1(2), of d] s1 by (auto simp: fs_simps)
qed

lemma CopyFile_ok:
  assumes "reg_file s src p d" and "free_name s dst q \<or> (\<exists>e. reg_file s dst q e)" and "p \<noteq> q" and "fs_faults s = []"
  shows "\<exists>s'. CopyFile src dst Copy_overwrite_existing s = (True, s') \<and> reg_file s' dst q d \<and> reg_file s' src p d
    \<and> fs_faults s' = [] \<and> (\<forall>x. x \<noteq> q \<longrightarrow> kind_at (fs_nodes s') x = kind_at (fs_nodes s) x)"
proof -
  obtain n where n: "sys_stat s src = Inr n" "nkind n = KReg d"
    using reg_file_stat [OF assms(1), of True] by (auto simp: sys_stat_def)
  obtain s' where s': "copy_data d dst s = (Inr True, s')" "reg_file s' dst q d" "fs_faults s' = []"
    "\<forall>x. x \<noteq> q \<longrightarrow> kind_at (fs_nodes s') x = kind_at (fs_nodes s) x"
    using copy_data_ok [OF assms(2,4)] by blast
  have "fs_copy_file src dst Copy_overwrite_existing s = (Inr True, s')"
    using assms(2)
  proof
    assume f: "free_name s dst q"
    have "sys_stat s dst = Inl ENOENT"
      using free_name_resolve [OF f, of True] f by (simp add: sys_stat_def stat_at_def free_name_def kind_at_def)
    then show ?thesis using n s'(1) by (simp add: fs_copy_file_def)
  next
    assume "\<exists>e. reg_file s dst q e"
    then obtain e where e: "reg_file s dst q e" by blast
    obtain m where "sys_stat s dst = Inr m" "nkind m = KReg e"
      using reg_file_stat [OF e, of True] by (auto simp: sys_stat_def)
    then show ?thesis
      using n s'(1) reg_file_resolve [OF assms(1), of True] reg_file_resolve [OF e, of True] assms(3)
      by (simp add: fs_copy_file_def)
  qed
  moreover have "reg_file s' src p d" using s' assms(1,3) by (simp add: reg_file_def)
  ultimately show ?thesis using s' by (simp add: CopyFile_def)
qed

lemma sibling_ready:
  assumes "backup_place s path tmp p q" and "kind_at (fs_nodes s) p = Some (KReg d)"
  shows "reg_file s path p d" and "free_name s tmp q \<or> (\<exists>e. reg_file s tmp q e)"
proof -
  have wf: "fs_wf s" "p \<noteq> []" using assms(1) by (auto simp: backup_place_def writable_def)
  show "reg_file s path p d" using assms by (simp add: reg_file_def backup_place_def)
  have "good_at (fs_nodes s) p" using wf assms(2) by (auto simp: fs_wf_def intro: wf_good)
  then have dir: "is_dir (fs_nodes s) (butlast q)" using wf(2) assms(1) by (simp add: good_at_def backup_place_def)
  have wq: "q \<noteq> []" "case kind_at (fs_nodes s) q of None \<Rightarrow> True | Some (KReg d) \<Rightarrow> True | _ \<Rightarrow> False"
    using assms(1) by (auto simp: backup_place_def writable_def)
  show "free_name s tmp q \<or> (\<exists>e. reg_file s tmp q e)"
  proof (cases "kind_at (fs_nodes s) q")
    case None
    then show ?thesis using assms(1) dir wq(1) by (simp add: free_name_def backup_place_def)
  next
    case (Some k)
    then obtain e where "k = KReg e" using wq(2) by (cases k) auto
    then show ?thesis using assms(1) Some by (auto simp: reg_file_def backup_place_def)
  qed
qed

text \<open>Making the backup, when there is something to back up, leaves the file ready to be written.\<close>

lemma backup_step:
  assumes place: "backup_place s path tmp p q"
  shows "\<exists>s1. (if Exists s path then CopyFile path tmp Copy_overwrite_existing s else (True, s)) = (True, s1)
    \<and> fs_wf s1 \<and> fs_faults s1 = [] \<and> plain_at path p \<and> writable (fs_nodes s1) p"
proof -
  have pl: "fs_wf s" "fs_faults s = []" "plain_at path p" "writable (fs_nodes s) p"
    using place by (auto simp: backup_place_def)
  show ?thesis
  proof (cases "kind_at (fs_nodes s) p")
    case None
    have "dirs_open (fs_nodes s) (butlast p)" using pl(4) by (simp add: writable_def)
    then have "\<not> Exists s path" using missing_status [OF pl(1,3) None] by (simp add: Exists_iff)
    then show ?thesis using pl by simp
  next
    case (Some k)
    then obtain d where k: "k = KReg d" using pl(4) by (auto simp: writable_def split: fkind.splits)
    note ready = sibling_ready [OF place Some [unfolded k]]
    have "p \<noteq> q" using place by (simp add: backup_place_def)
    then obtain s1 where cp: "CopyFile path tmp Copy_overwrite_existing s = (True, s1)"
      "reg_file s1 path p d" "fs_faults s1 = []"
      using CopyFile_ok [OF ready _ pl(2)] by blast
    have "good_at (fs_nodes s1) p" using cp(2) by (auto simp: reg_file_def fs_wf_def intro: wf_good)
    then have dir: "is_dir (fs_nodes s1) (butlast p)" using pl(4) by (simp add: good_at_def writable_def)
    have "dirs_open (fs_nodes s1) (butlast p)"
      using dir cp(2) wf_ancestor_dir [of "fs_nodes s1"]
      by (fastforce simp: dirs_open_def reg_file_def fs_wf_def prefix_def)
    then have "writable (fs_nodes s1) p" using cp(2) pl(4) by (simp add: writable_def reg_file_def)
    moreover have "fs_wf s1" using cp(2) by (simp add: reg_file_def)
    moreover have "Exists s path" using Exists_present [OF pl(1,3) Some] by blast
    ultimately show ?thesis using cp pl(3) by simp
  qed
qed

end
