(* ===== verification/UtilHash.thy ===== *)
theory UtilHash
  imports UtilFile UtilString
begin

text \<open>
  Hashing, password derivation and LZMA streams of \<^verbatim>\<open>src/src/util/util.cc\<close>.  The digest engines
  (OpenSSL's EVP interface, blake3, libsodium), PBKDF2 and liblzma are parameters; their documented
  laws are the locales \<open>evp\<close>, \<open>blake3\<close> and \<open>lzma_stream\<close>.
\<close>

section \<open>Interfaces\<close>

text \<open>The digest algorithms the sources name: \<^verbatim>\<open>EVP_md5()\<close> and \<^verbatim>\<open>EVP_sha256()\<close>.\<close>

datatype evp_md = EVP_md5 | EVP_sha256

text \<open>
  \<^verbatim>\<open>EVP_MD_CTX_new\<close>, \<^verbatim>\<open>EVP_DigestInit_ex\<close>, \<^verbatim>\<open>EVP_DigestUpdate\<close> and \<^verbatim>\<open>EVP_DigestFinal_ex\<close>; \<open>None\<close> is a
  null context or a return value other than 1.
\<close>

record 'c evp_api =
  evp_new :: "'c option"
  evp_init :: "'c \<Rightarrow> evp_md \<Rightarrow> 'c option"
  evp_update :: "'c \<Rightarrow> bytes \<Rightarrow> 'c option"
  evp_final :: "'c \<Rightarrow> bytes option"

record 'c blake3_api =
  b3_init :: 'c
  b3_update :: "'c \<Rightarrow> bytes \<Rightarrow> 'c"
  b3_final :: "'c \<Rightarrow> bytes"

datatype lzma_ret = LZMA_OK | LZMA_STREAM_END | LZMA_ERROR

text \<open>
  A decoder or encoder with its input attached; \<open>lz_code z n\<close> is \<^verbatim>\<open>lzma_code(&strm, LZMA_FINISH)\<close>
  with \<open>n\<close> bytes of room: the new state, the bytes produced and the return code.
\<close>

record 'z lzma_api =
  lz_encoder :: "bytes \<Rightarrow> 'z option"
  lz_decoder :: "bytes \<Rightarrow> 'z option"
  lz_code :: "'z \<Rightarrow> nat \<Rightarrow> 'z \<times> bytes \<times> lzma_ret"

section \<open>Definitions\<close>

text \<open>
  The loop \<^verbatim>\<open>while (file.read(buf, n) || file.gcount() > 0)\<close>: the blocks it sees, the last one
  possibly short.
\<close>

function read_blocks :: "nat \<Rightarrow> bytes \<Rightarrow> bytes list" where
  "read_blocks n d = (if d = [] \<or> n = 0 then [] else take n d # read_blocks n (drop n d))"
  by pat_completeness auto
termination
  by (relation "measure (\<lambda>(n, d). length d)") auto

declare read_blocks.simps [simp del]

definition Blake3 :: "'c blake3_api \<Rightarrow> fmt_hex_fn \<Rightarrow> string \<Rightarrow> bool \<Rightarrow> bool \<times> string" where
  "Blake3 H fmt content upper =
     (True, ToHexStr fmt (b3_final H (b3_update H (b3_init H) content)) upper)"

definition FileBlake3 ::
  "'c blake3_api \<Rightarrow> fmt_hex_fn \<Rightarrow> fs \<Rightarrow> string \<Rightarrow> bool \<Rightarrow> string \<Rightarrow> bool \<times> string" where
  "FileBlake3 H fmt s path upper out =
     (case read_stream s path of
        Inl e \<Rightarrow> (False, out)
      | Inr (d, bad) \<Rightarrow>
          let ctx = fold (\<lambda>b c. b3_update H c b) (read_blocks (nat CALC_BUFFER_SIZE_BYTES) d) (b3_init H);
              hash = b3_final H ctx
          in if bad then (False, out) else (True, ToHexStr fmt hash upper))"

definition HashInit :: "'c evp_api \<Rightarrow> evp_md \<Rightarrow> 'c option" where
  "HashInit E ty = (case evp_new E of None \<Rightarrow> None | Some c \<Rightarrow> evp_init E c ty)"

definition HashUpdate :: "'c evp_api \<Rightarrow> 'c \<Rightarrow> string \<Rightarrow> 'c option" where
  "HashUpdate E ctx str = evp_update E ctx str"

definition HashFinal ::
  "'c evp_api \<Rightarrow> fmt_hex_fn \<Rightarrow> 'c \<Rightarrow> bool \<Rightarrow> string \<Rightarrow> bool \<times> string" where
  "HashFinal E fmt ctx upper out =
     (case evp_final E ctx of None \<Rightarrow> (False, out) | Some h \<Rightarrow> (True, ToHexStr fmt h upper))"

definition SHA256Init :: "'c evp_api \<Rightarrow> 'c option" where
  "SHA256Init E = HashInit E EVP_sha256"

definition SHA256Update :: "'c evp_api \<Rightarrow> 'c \<Rightarrow> string \<Rightarrow> 'c option" where
  "SHA256Update E ctx str = HashUpdate E ctx str"

definition SHA256Final :: "'c evp_api \<Rightarrow> fmt_hex_fn \<Rightarrow> 'c \<Rightarrow> bool \<Rightarrow> string \<Rightarrow> bool \<times> string" where
  "SHA256Final E fmt ctx upper out = HashFinal E fmt ctx upper out"

definition Hash ::
  "'c evp_api \<Rightarrow> fmt_hex_fn \<Rightarrow> string \<Rightarrow> evp_md \<Rightarrow> bool \<Rightarrow> string \<Rightarrow> bool \<times> string" where
  "Hash E fmt str ty upper out =
     (case evp_new E of
        None \<Rightarrow> (False, out)
      | Some c0 \<Rightarrow>
          (case evp_init E c0 ty of
             None \<Rightarrow> (False, out)
           | Some c1 \<Rightarrow>
               (case evp_update E c1 str of
                  None \<Rightarrow> (False, out)
                | Some c2 \<Rightarrow>
                    (case evp_final E c2 of
                       None \<Rightarrow> (False, out)
                     | Some h \<Rightarrow> (True, ToHexStr fmt h upper)))))"

fun evp_updates :: "'c evp_api \<Rightarrow> bytes list \<Rightarrow> 'c \<Rightarrow> 'c option" where
  "evp_updates E [] c = Some c"
| "evp_updates E (b # bs) c = (case evp_update E c b of None \<Rightarrow> None | Some c' \<Rightarrow> evp_updates E bs c')"

definition FileHash ::
  "'c evp_api \<Rightarrow> fmt_hex_fn \<Rightarrow> fs \<Rightarrow> string \<Rightarrow> evp_md \<Rightarrow> bool \<Rightarrow> string \<Rightarrow> bool \<times> string" where
  "FileHash E fmt s path ty upper out =
     (case read_stream s path of
        Inl e \<Rightarrow> (False, out)
      | Inr (d, bad) \<Rightarrow>
          (case evp_new E of
             None \<Rightarrow> (False, out)
           | Some c0 \<Rightarrow>
               (case evp_init E c0 ty of
                  None \<Rightarrow> (False, out)
                | Some c1 \<Rightarrow>
                    (case evp_updates E (read_blocks (nat CALC_BUFFER_SIZE_BYTES) d) c1 of
                       None \<Rightarrow> (False, out)
                     | Some c2 \<Rightarrow>
                         (case evp_final E c2 of
                            None \<Rightarrow> (False, out)
                          | Some h \<Rightarrow> (True, ToHexStr fmt h upper))))))"

definition SmallFileHash ::
  "'c evp_api \<Rightarrow> fmt_hex_fn \<Rightarrow> fs \<Rightarrow> string \<Rightarrow> evp_md \<Rightarrow> bool \<Rightarrow> string \<Rightarrow> errno + bool \<times> string" where
  "SmallFileHash E fmt s path ty upper out =
     (case LoadSmallFile s path '''' of
        Inl e \<Rightarrow> Inl e
      | Inr (ok, str) \<Rightarrow> Inr (if \<not> ok then (False, out) else Hash E fmt str ty upper out))"

definition MD5 :: "'c evp_api \<Rightarrow> fmt_hex_fn \<Rightarrow> string \<Rightarrow> bool \<Rightarrow> string \<Rightarrow> bool \<times> string" where
  "MD5 E fmt str upper out = Hash E fmt str EVP_md5 upper out"

definition SmallFileMD5 ::
  "'c evp_api \<Rightarrow> fmt_hex_fn \<Rightarrow> fs \<Rightarrow> string \<Rightarrow> bool \<Rightarrow> string \<Rightarrow> errno + bool \<times> string" where
  "SmallFileMD5 E fmt s path upper out = SmallFileHash E fmt s path EVP_md5 upper out"

definition FileMD5 :: "'c evp_api \<Rightarrow> fmt_hex_fn \<Rightarrow> fs \<Rightarrow> string \<Rightarrow> bool \<Rightarrow> string \<Rightarrow> bool \<times> string" where
  "FileMD5 E fmt s path upper out = FileHash E fmt s path EVP_md5 upper out"

definition SHA256_to :: "'c evp_api \<Rightarrow> fmt_hex_fn \<Rightarrow> string \<Rightarrow> bool \<Rightarrow> string \<Rightarrow> bool \<times> string" where
  "SHA256_to E fmt str upper out = Hash E fmt str EVP_sha256 upper out"

definition SHA256 :: "'c evp_api \<Rightarrow> fmt_hex_fn \<Rightarrow> string \<Rightarrow> bool \<Rightarrow> string" where
  "SHA256 E fmt str upper = snd (Hash E fmt str EVP_sha256 upper '''')"

definition SHA256_libsodium :: "(bytes \<Rightarrow> bytes) \<Rightarrow> fmt_hex_fn \<Rightarrow> string \<Rightarrow> bool \<Rightarrow> bool \<times> string" where
  "SHA256_libsodium sodium fmt str upper = (True, ToHexStr fmt (sodium str) upper)"

definition SmallFileSHA256 ::
  "'c evp_api \<Rightarrow> fmt_hex_fn \<Rightarrow> fs \<Rightarrow> string \<Rightarrow> bool \<Rightarrow> string \<Rightarrow> errno + bool \<times> string" where
  "SmallFileSHA256 E fmt s path upper out = SmallFileHash E fmt s path EVP_sha256 upper out"

definition FileSHA256 :: "'c evp_api \<Rightarrow> fmt_hex_fn \<Rightarrow> fs \<Rightarrow> string \<Rightarrow> bool \<Rightarrow> string \<Rightarrow> bool \<times> string" where
  "FileSHA256 E fmt s path upper out = FileHash E fmt s path EVP_sha256 upper out"

text \<open>
  \<open>rnd\<close> is what \<^verbatim>\<open>RAND_bytes\<close> delivers for this call, \<open>None\<close> its failure, which the source turns
  into an exception.
\<close>

definition GenerateSalt :: "fmt_hex_fn \<Rightarrow> bytes option \<Rightarrow> string option" where
  "GenerateSalt fmt rnd = (case rnd of None \<Rightarrow> None | Some b \<Rightarrow> Some (ToHexStr fmt b False))"

text \<open>\<open>pbkdf2 password salt iterations length\<close> is \<^verbatim>\<open>PKCS5_PBKDF2_HMAC\<close> with SHA-256.\<close>

type_synonym pbkdf2_fn = "string \<Rightarrow> string \<Rightarrow> nat \<Rightarrow> nat \<Rightarrow> bytes option"

definition HashPassword :: "pbkdf2_fn \<Rightarrow> fmt_hex_fn \<Rightarrow> string \<Rightarrow> string \<Rightarrow> string option" where
  "HashPassword K fmt password salt =
     (case K password salt kIterations kDerivedKeySize of
        None \<Rightarrow> None
      | Some h \<Rightarrow> Some (ToHexStr fmt h False))"

definition VerifyPassword :: "pbkdf2_fn \<Rightarrow> fmt_hex_fn \<Rightarrow> string \<Rightarrow> string \<Rightarrow> string \<Rightarrow> bool" where
  "VerifyPassword K fmt password salt stored_hash =
     (case HashPassword K fmt password salt of
        None \<Rightarrow> False
      | Some computed_hash \<Rightarrow> computed_hash = stored_hash)"

definition LZMACompress :: "'z lzma_api \<Rightarrow> bytes \<Rightarrow> bytes \<Rightarrow> bool \<times> bytes" where
  "LZMACompress Z data out =
     (case lz_encoder Z data of
        None \<Rightarrow> (False, out)
      | Some z \<Rightarrow>
          let room = length data + length data div 3 + 128
          in case lz_code Z z room of
               (z', p, ret) \<Rightarrow>
                 if ret \<noteq> LZMA_STREAM_END
                 then (False, p @ replicate (room - length p) (CHR 0x00))
                 else (True, p))"

text \<open>
  The loop of \<^verbatim>\<open>LZMADecompress\<close>: \<open>buf\<close> is the part of \<^verbatim>\<open>decompressed_data\<close> already filled.  \<open>None\<close>
  stands for a loop that never ends.
\<close>

partial_function (option) lzma_drain ::
  "'z lzma_api \<Rightarrow> nat \<Rightarrow> 'z \<Rightarrow> bytes \<Rightarrow> bytes \<Rightarrow> (lzma_ret \<times> bytes) option" where
  "lzma_drain Z size0 z buf out =
     (case lz_code Z z (size0 - length buf) of
        (z', p, ret) \<Rightarrow>
          let buf1 = buf @ p;
              full = (length buf1 = size0 \<or> ret = LZMA_STREAM_END);
              out1 = (if full then out @ buf1 else out);
              buf2 = (if full then [] else buf1)
          in if ret \<noteq> LZMA_OK then Some (ret, out1)
             else lzma_drain Z size0 z' buf2 out1)"

declare lzma_drain.simps [code]

definition LZMADecompress :: "'z lzma_api \<Rightarrow> bytes \<Rightarrow> bytes \<Rightarrow> (bool \<times> bytes) option" where
  "LZMADecompress Z data out =
     (case lz_decoder Z data of
        None \<Rightarrow> Some (False, out)
      | Some z \<Rightarrow>
          (case lzma_drain Z (nat CALC_BUFFER_SIZE_BYTES) z [] out of
             None \<Rightarrow> None
           | Some (ret, out') \<Rightarrow> Some (ret = LZMA_STREAM_END, out')))"

text \<open>
  \<^verbatim>\<open>PrepareFile\<close>: the flag and the attributes; \<open>None\<close> is the division by a zero partition size.
\<close>

definition PrepareFile ::
  "'c blake3_api \<Rightarrow> fmt_hex_fn \<Rightarrow> userdb \<Rightarrow> fs \<Rightarrow> string \<Rightarrow> HashMethod \<Rightarrow> int \<Rightarrow> FileAttr
   \<Rightarrow> (bool \<times> FileAttr) option" where
  "PrepareFile H fmt db s path hash_method partition_size attr =
     (let attr1 = attr\<lparr>fa_path := path\<rparr>;
          (ok, h) = (if hash_method = Hash_BLAKE3
                     then FileBlake3 H fmt s path False (fa_file_hash attr1)
                     else (True, fa_file_hash attr1))
      in if \<not> ok then Some (False, attr1)
         else let (_, info) = FileInfo db s path True
                    \<lparr>fi_update_time = fa_update_time attr1, fi_size = fa_file_size attr1,
                     fi_owner = (fa_user attr1, fa_group attr1)\<rparr>;
                  attr2 = attr1\<lparr>fa_file_hash := h, fa_update_time := fi_update_time info,
                    fa_file_size := fi_size info, fa_user := fst (fi_owner info),
                    fa_group := snd (fi_owner info)\<rparr>
              in if fa_file_size attr2 = - 1 then Some (False, attr2)
                 else (case FilePartitionNum (fa_file_size attr2) partition_size of
                         None \<Rightarrow> None
                       | Some n \<Rightarrow> Some (True, attr2\<lparr>fa_partition_num := n\<rparr>)))"

section \<open>Block-wise reading\<close>

lemma concat_read_blocks: "0 < n \<Longrightarrow> concat (read_blocks n d) = d"
proof (induction n d rule: read_blocks.induct)
  case (1 n d)
  then show ?case by (cases "d = []") (simp_all add: read_blocks.simps [of n d] read_blocks.simps [of n "[]"])
qed

lemma CALC_pos: "0 < nat CALC_BUFFER_SIZE_BYTES"
  by (simp add: CALC_BUFFER_SIZE_BYTES_def)

section \<open>Digest engines\<close>

text \<open>
  What OpenSSL documents of a digest context: initialisation forgets the past, an update adds its
  bytes to what has been hashed, and the final call yields the digest of all of it.
\<close>

locale evp =
  fixes E :: "'c evp_api" and digest :: "evp_md \<Rightarrow> bytes \<Rightarrow> bytes"
    and absorbed :: "'c \<Rightarrow> evp_md \<times> bytes"
  assumes new_ok: "\<exists>c. evp_new E = Some c"
    and init_ok: "\<exists>c'. evp_init E c ty = Some c' \<and> absorbed c' = (ty, [])"
    and update_ok: "absorbed c = (ty, b) \<Longrightarrow> \<exists>c'. evp_update E c x = Some c' \<and> absorbed c' = (ty, b @ x)"
    and final_ok: "absorbed c = (ty, b) \<Longrightarrow> evp_final E c = Some (digest ty b)"
begin

lemma updates_ok:
  "absorbed c = (ty, b) \<Longrightarrow> \<exists>c'. evp_updates E bs c = Some c' \<and> absorbed c' = (ty, b @ concat bs)"
proof (induction bs arbitrary: c b)
  case (Cons x bs)
  obtain c1 where c1: "evp_update E c x = Some c1" "absorbed c1 = (ty, b @ x)"
    using update_ok [OF Cons.prems] by blast
  show ?case using Cons.IH [OF c1(2)] c1(1) by simp
qed simp

lemma Hash_digest: "Hash E fmt str ty u out = (True, ToHexStr fmt (digest ty str) u)"
proof -
  obtain c0 where c0: "evp_new E = Some c0" using new_ok by blast
  obtain c1 where c1: "evp_init E c0 ty = Some c1" "absorbed c1 = (ty, [])" using init_ok by blast
  obtain c2 where c2: "evp_update E c1 str = Some c2" "absorbed c2 = (ty, str)"
    using update_ok [OF c1(2)] by auto
  show ?thesis using c0 c1 c2 final_ok [OF c2(2)] by (simp add: Hash_def)
qed

lemma FileHash_digest:
  assumes "read_stream s path = Inr (d, bad)"
  shows "FileHash E fmt s path ty u out = (True, ToHexStr fmt (digest ty d) u)"
proof -
  let ?bs = "read_blocks (nat CALC_BUFFER_SIZE_BYTES) d"
  obtain c0 where c0: "evp_new E = Some c0" using new_ok by blast
  obtain c1 where c1: "evp_init E c0 ty = Some c1" "absorbed c1 = (ty, [])" using init_ok by blast
  obtain c2 where c2: "evp_updates E ?bs c1 = Some c2" "absorbed c2 = (ty, [] @ concat ?bs)"
    using updates_ok [OF c1(2)] by blast
  have "absorbed c2 = (ty, d)" using c2(2) concat_read_blocks [OF CALC_pos, of d] by simp
  from final_ok [OF this] show ?thesis using assms c0 c1(1) c2(1) by (simp add: FileHash_def)
qed

lemma streaming_digest:
  assumes "HashInit E ty = Some c" and "foldl (\<lambda>r x. Option.bind r (\<lambda>c. HashUpdate E c x)) (Some c) xs = Some c'"
  shows "HashFinal E fmt c' u out = (True, ToHexStr fmt (digest ty (concat xs)) u)"
proof -
  obtain c0 where c0: "evp_new E = Some c0" using new_ok by blast
  have c: "absorbed c = (ty, [])"
    using assms(1) c0 init_ok [of c0 ty] by (auto simp: HashInit_def)
  have "absorbed c' = (ty, b @ concat xs)"
    if "absorbed c = (ty, b)"
      and "foldl (\<lambda>r x. Option.bind r (\<lambda>c. HashUpdate E c x)) (Some c) xs = Some c'" for c c' b
    using that
  proof (induction xs arbitrary: c b)
    case (Cons x xs)
    obtain c1 where c1: "evp_update E c x = Some c1" "absorbed c1 = (ty, b @ x)"
      using update_ok [OF Cons.prems(1)] by blast
    then show ?case using Cons.IH [OF c1(2)] Cons.prems(2) by (simp add: HashUpdate_def)
  qed simp
  from this [OF c assms(2)] have "evp_final E c' = Some (digest ty (concat xs))"
    using final_ok by simp
  then show ?thesis by (simp add: HashFinal_def)
qed

end

text \<open>An engine that buffers its input and applies a one-shot digest function at the end.\<close>

definition evp_buffer :: "(evp_md \<Rightarrow> bytes \<Rightarrow> bytes) \<Rightarrow> (evp_md \<times> bytes) evp_api" where
  "evp_buffer D =
     \<lparr>evp_new = Some (EVP_md5, []), evp_init = (\<lambda>c ty. Some (ty, [])),
      evp_update = (\<lambda>(ty, b) x. Some (ty, b @ x)), evp_final = (\<lambda>(ty, b). Some (D ty b))\<rparr>"

interpretation evp_buf: evp "evp_buffer D" D id
  for D :: "evp_md \<Rightarrow> bytes \<Rightarrow> bytes"
  by unfold_locales (auto simp: evp_buffer_def)

locale blake3 =
  fixes H :: "'c blake3_api" and digest :: "bytes \<Rightarrow> bytes" and absorbed :: "'c \<Rightarrow> bytes"
  assumes b3_init_ok: "absorbed (b3_init H) = []"
    and b3_update_ok: "absorbed (b3_update H c x) = absorbed c @ x"
    and b3_final_ok: "b3_final H c = digest (absorbed c)"
begin

lemma b3_fold: "absorbed (fold (\<lambda>b c. b3_update H c b) bs c) = absorbed c @ concat bs"
  by (induction bs arbitrary: c) (simp_all add: b3_update_ok)

lemma Blake3_digest: "Blake3 H fmt content u = (True, ToHexStr fmt (digest content) u)"
  by (simp add: Blake3_def b3_final_ok b3_update_ok b3_init_ok)

lemma FileBlake3_digest:
  "FileBlake3 H fmt s path u out =
    (case read_stream s path of
       Inl e \<Rightarrow> (False, out)
     | Inr (d, bad) \<Rightarrow> if bad then (False, out) else (True, ToHexStr fmt (digest d) u))"
  by (auto simp: FileBlake3_def Let_def b3_final_ok b3_fold b3_init_ok concat_read_blocks [OF CALC_pos]
      split: sum.splits)

end

definition b3_buffer :: "(bytes \<Rightarrow> bytes) \<Rightarrow> bytes blake3_api" where
  "b3_buffer D = \<lparr>b3_init = [], b3_update = (@), b3_final = D\<rparr>"

interpretation b3_buf: blake3 "b3_buffer D" D id
  for D :: "bytes \<Rightarrow> bytes"
  by unfold_locales (auto simp: b3_buffer_def)

section \<open>Streams of liblzma\<close>

text \<open>
  What liblzma documents of \<^verbatim>\<open>lzma_code\<close> with \<^verbatim>\<open>LZMA_FINISH\<close> on a valid stream: it produces as much as
  fits, returns \<^verbatim>\<open>LZMA_OK\<close> while output is left and \<^verbatim>\<open>LZMA_STREAM_END\<close> once everything has been
  delivered (when the rest just fits, either of the two).  \<open>pending\<close> is the output still to come.
\<close>

locale lzma_stream =
  fixes Z :: "'z lzma_api" and pending :: "'z \<Rightarrow> bytes" and packed :: "bytes \<Rightarrow> bytes \<Rightarrow> bool"
  assumes decoder_ok: "packed data d \<Longrightarrow> \<exists>z. lz_decoder Z data = Some z \<and> pending z = d"
    and code_more: "0 < n \<Longrightarrow> n < length (pending z) \<Longrightarrow>
          \<exists>z'. lz_code Z z n = (z', take n (pending z), LZMA_OK) \<and> pending z' = drop n (pending z)"
    and code_last: "0 < n \<Longrightarrow> length (pending z) < n \<Longrightarrow>
          \<exists>z'. lz_code Z z n = (z', pending z, LZMA_STREAM_END)"
    and code_fit: "0 < n \<Longrightarrow> length (pending z) = n \<Longrightarrow>
          \<exists>z'. lz_code Z z n = (z', pending z, LZMA_STREAM_END)
               \<or> lz_code Z z n = (z', pending z, LZMA_OK) \<and> pending z' = []"
begin

lemma drain_ok:
  assumes "0 < n"
  shows "lzma_drain Z n z [] out = Some (LZMA_STREAM_END, out @ pending z)"
proof (induction "length (pending z)" arbitrary: z out rule: less_induct)
  case less
  consider (more) "n < length (pending z)" | (fit) "length (pending z) = n" | (last) "length (pending z) < n"
    by linarith
  then show ?case
  proof cases
    case more
    obtain z' where z': "lz_code Z z n = (z', take n (pending z), LZMA_OK)" "pending z' = drop n (pending z)"
      using code_more [OF assms more] by blast
    have "length (pending z') < length (pending z)" using z'(2) more assms by simp
    from less [OF this] show ?thesis
      using z' more by (subst lzma_drain.simps) (simp add: Let_def)
  next
    case last
    then show ?thesis
      using code_last [OF assms last] by (subst lzma_drain.simps) (auto simp: Let_def)
  next
    case fit
    obtain z' where "lz_code Z z n = (z', pending z, LZMA_STREAM_END)
        \<or> lz_code Z z n = (z', pending z, LZMA_OK) \<and> pending z' = []"
      using code_fit [OF assms fit] by blast
    then show ?thesis
    proof
      assume "lz_code Z z n = (z', pending z, LZMA_STREAM_END)"
      then show ?thesis by (subst lzma_drain.simps) (simp add: Let_def)
    next
      assume z': "lz_code Z z n = (z', pending z, LZMA_OK) \<and> pending z' = []"
      then have "length (pending z') < length (pending z)" using fit assms by simp
      from less [OF this] show ?thesis
        using z' fit by (subst lzma_drain.simps) (simp add: Let_def)
    qed
  qed
qed

lemma decompress_ok:
  "packed data d \<Longrightarrow> LZMADecompress Z data out = Some (True, out @ d)"
  using decoder_ok drain_ok [OF CALC_pos] by (fastforce simp: LZMADecompress_def)

end

text \<open>A decoder of stored (uncompressed) streams.\<close>

definition lzma_store :: "bytes lzma_api" where
  "lzma_store =
     \<lparr>lz_encoder = Some, lz_decoder = Some,
      lz_code = (\<lambda>z n. (drop n z, take n z, if n < length z then LZMA_OK else LZMA_STREAM_END))\<rparr>"

interpretation lzma_st: lzma_stream lzma_store id "(=)"
  by unfold_locales (auto simp: lzma_store_def)

section \<open>Properties\<close>

text \<open>
  C32: Hashing a file in blocks of 64 KB (\<^verbatim>\<open>FileHash\<close>) gives the same result as loading it whole
  (\<^verbatim>\<open>SmallFileHash\<close>) and as hashing its content in one call (\<^verbatim>\<open>Hash\<close>), for either algorithm, at
  every length; likewise \<^verbatim>\<open>FileBlake3\<close> and \<^verbatim>\<open>Blake3\<close>.
\<close>

theorem FileHash_equals_Hash:
  assumes "evp E digest absorbed" and "blake3 H b3 absorbed3" and "reg_file s path p d"
  shows "FileHash E fmt s path ty u out = Hash E fmt d ty u out
    \<and> SmallFileHash E fmt s path ty u out = Inr (Hash E fmt d ty u out)
    \<and> FileBlake3 H fmt s path u out = Blake3 H fmt d u"
proof -
  have rd: "read_stream s path = Inr (d, False)" using assms(3) by (rule reg_file_read)
  then have "LoadSmallFile s path '''' = Inr (True, d)" by (simp add: LoadSmallFile_def)
  then show ?thesis
    using rd evp.FileHash_digest [OF assms(1) rd] evp.Hash_digest [OF assms(1)]
      blake3.FileBlake3_digest [OF assms(2)] blake3.Blake3_digest [OF assms(2)]
    by (simp add: SmallFileHash_def)
qed

theorem FileHash_equals_Hash_witness:
  "FileHash (evp_buffer (\<lambda>ty b. b)) hex_pad demo_fs ''/a/f'' EVP_sha256 False '''' = (True, ''6f6c64'')"
proof -
  have r: "reg_file demo_fs ''/a/f'' [''a'', ''f''] ''old''" by code_simp
  have "Hash (evp_buffer (\<lambda>ty b. b)) hex_pad ''old'' EVP_sha256 False '''' = (True, ''6f6c64'')"
    by code_simp
  then show ?thesis
    using FileHash_equals_Hash [OF evp_buf.evp_axioms b3_buf.blake3_axioms r] by simp
qed

text \<open>
  A password verifies against the hash stored for it; another password verifies against that
  hash only if PBKDF2 derives the same key from both with this salt.
\<close>

theorem VerifyPassword_sound:
  assumes "fmt_hex fmt" and "HashPassword K fmt pw salt = Some stored"
  shows "VerifyPassword K fmt pw salt stored
    \<and> (VerifyPassword K fmt pw' salt stored \<longleftrightarrow>
        K pw' salt kIterations kDerivedKeySize = K pw salt kIterations kDerivedKeySize)"
  using assms(2) fmt_hex.hex_str_inj [OF assms(1)]
  by (auto simp: VerifyPassword_def HashPassword_def split: option.splits)

theorem VerifyPassword_sound_witness:
  "VerifyPassword (\<lambda>pw salt n k. Some (salt @ pw)) hex_pad ''secret99'' ''s1'' ''73317365637265743939''
   \<and> \<not> VerifyPassword (\<lambda>pw salt n k. Some (salt @ pw)) hex_pad ''secret98'' ''s1'' ''73317365637265743939''"
proof -
  let ?K = "\<lambda>pw salt n k. Some (salt @ pw)"
  have "ToHexStr hex_pad ''s1secret99'' False = ''73317365637265743939''" by code_simp
  then have "HashPassword ?K hex_pad ''secret99'' ''s1'' = Some ''73317365637265743939''"
    by (simp add: HashPassword_def)
  from VerifyPassword_sound [OF hex_ref.fmt_hex_axioms this, of "''secret98''"] show ?thesis by simp
qed



end
