(* ===== verification/Sqlite.thy ===== *)
theory Sqlite
  imports BlockingQueue UtilFile
begin

text \<open>
  The database layer: \<^verbatim>\<open>src/src/util/sqlite_manager.h\<close> and \<^verbatim>\<open>sqlite_row.h\<close>.  SQLite itself is a
  parameter, \<open>'d sqlite_api\<close>, over an opaque database state \<open>'d\<close> that all connections share.  The
  manager's own state is its connection pool; to see what becomes of connections, the state also
  records which are open and which hold a statement that was prepared and not finalized.  The
  texts of error messages are only logged by the callers and are left out.
\<close>

section \<open>The engine's interface\<close>

datatype sql_val = SText string | SInt int | SNull

type_synonym sql_row = "sql_val list"
type_synonym sql_args = "(nat \<times> sql_val) list"

text \<open>
  \<open>sq_bind\<close>: whether a \<^verbatim>\<open>sqlite3_bind_*\<close> call succeeds.  \<open>sq_run\<close>: what stepping a statement to
  its end yields: the rows, whether it ended with \<^verbatim>\<open>SQLITE_DONE\<close>, \<^verbatim>\<open>sqlite3_changes\<close>, and the new
  database.
\<close>

record 'd sqlite_api =
  sq_open :: "string \<Rightarrow> 'd \<Rightarrow> bool"
  sq_exec :: "string \<Rightarrow> 'd \<Rightarrow> bool \<times> 'd"
  sq_prepare :: "string \<Rightarrow> 'd \<Rightarrow> bool"
  sq_bind :: "string \<Rightarrow> nat \<Rightarrow> sql_val \<Rightarrow> 'd \<Rightarrow> bool"
  sq_run :: "string \<Rightarrow> (nat \<Rightarrow> sql_val) \<Rightarrow> 'd \<Rightarrow> sql_row list \<times> bool \<times> int \<times> 'd"

text \<open>A C string: a \<^verbatim>\<open>c_str()\<close> bound with length \<^verbatim>\<open>-1\<close> ends at the first NUL.\<close>

definition c_str :: "string \<Rightarrow> string" where
  "c_str s = takeWhile (\<lambda>c. c \<noteq> CHR 0x00) s"

text \<open>
  A \<^verbatim>\<open>SqliteBinder\<close> is the list of its bind calls; it stops and returns false at the first that
  fails.  A later bind to the same parameter replaces the earlier one; a parameter never bound
  is NULL.
\<close>

fun bind_all :: "'d sqlite_api \<Rightarrow> string \<Rightarrow> sql_args \<Rightarrow> 'd \<Rightarrow> bool" where
  "bind_all A sql [] db = True"
| "bind_all A sql ((i, v) # bs) db = (sq_bind A sql i v db \<and> bind_all A sql bs db)"

fun bound :: "sql_args \<Rightarrow> nat \<Rightarrow> sql_val" where
  "bound bs i = (case map_of (rev bs) i of None \<Rightarrow> SNull | Some v \<Rightarrow> v)"

section \<open>Rows\<close>

record UsersRow =
  ur_user :: string
  ur_salt :: string
  ur_password :: string
  ur_create_time :: int
  ur_update_time :: int

record MetaRow =
  mr_version :: int

record FilesRow =
  fr_id :: int
  fr_local_id :: string
  fr_device_id :: string
  fr_repo_dir :: string
  fr_file_hash :: string
  fr_type :: int
  fr_file_name :: string
  fr_owner :: string
  fr_taken_time :: int
  fr_video_hash :: string
  fr_cover_hash :: string
  fr_thumb_hash :: string

fun col_text :: "sql_val \<Rightarrow> string option" where
  "col_text (SText s) = Some (c_str s)"
| "col_text (SInt i) = Some (to_string i)"
| "col_text SNull = None"

fun col_int :: "sql_val \<Rightarrow> int" where
  "col_int (SInt i) = i"
| "col_int _ = 0"

text \<open>
  \<open>None\<close> in the \<^verbatim>\<open>Extract\<close> functions is undefined behaviour: \<^verbatim>\<open>append\<close> of the null pointer that
  \<^verbatim>\<open>sqlite3_column_text\<close> returns for NULL, or of a fixed number of bytes from a shorter text.
\<close>

definition fixed_text :: "nat \<Rightarrow> sql_val \<Rightarrow> string option" where
  "fixed_text n v =
     (case v of
        SText s \<Rightarrow> if n \<le> length s then Some (take n s) else None
      | SInt i \<Rightarrow> if n \<le> length (to_string i) then Some (take n (to_string i)) else None
      | SNull \<Rightarrow> None)"

definition UsersRow_Extract :: "sql_row \<Rightarrow> UsersRow option" where
  "UsersRow_Extract r =
     (case r of
        [c0, c1, c2, c3, c4] \<Rightarrow>
          (case (col_text c0, fixed_text (kSaltSize * 2) c1, fixed_text (kDerivedKeySize * 2) c2) of
             (Some u, Some sa, Some pw) \<Rightarrow>
               Some \<lparr>ur_user = u, ur_salt = sa, ur_password = pw,
                 ur_create_time = col_int c3, ur_update_time = col_int c4\<rparr>
           | _ \<Rightarrow> None)
      | _ \<Rightarrow> None)"

definition MetaRow_Extract :: "sql_row \<Rightarrow> MetaRow option" where
  "MetaRow_Extract r = (case r of c0 # _ \<Rightarrow> Some \<lparr>mr_version = to_i32 (col_int c0)\<rparr> | [] \<Rightarrow> None)"

definition FilesRow_Extract :: "sql_row \<Rightarrow> FilesRow option" where
  "FilesRow_Extract r =
     (case r of
        [c0, c1, c2, c3, c4, c5, c6, c7, c8, c9, c10, c11] \<Rightarrow>
          (case (col_text c1, col_text c2, col_text c3, col_text c4, col_text c6, col_text c7,
                 col_text c9, col_text c10, col_text c11) of
             (Some t1, Some t2, Some t3, Some t4, Some t6, Some t7, Some t9, Some t10, Some t11) \<Rightarrow>
               Some \<lparr>fr_id = to_i32 (col_int c0), fr_local_id = t1, fr_device_id = t2,
                 fr_repo_dir = t3, fr_file_hash = t4, fr_type = to_i32 (col_int c5),
                 fr_file_name = t6, fr_owner = t7, fr_taken_time = col_int c8,
                 fr_video_hash = t9, fr_cover_hash = t10, fr_thumb_hash = t11\<rparr>
           | _ \<Rightarrow> None)
      | _ \<Rightarrow> None)"

section \<open>Connections\<close>

record 'd sqlite_mgr =
  sm_conns :: "nat bqueue"
  sm_open :: "nat list"
  sm_next :: nat
  sm_stmts :: "nat list"
  sm_path :: string
  sm_db :: 'd

definition CreateConn :: "'d sqlite_api \<Rightarrow> 'd sqlite_mgr \<Rightarrow> nat option \<times> 'd sqlite_mgr" where
  "CreateConn A m =
     (if sq_open A (sm_path m) (sm_db m)
      then (Some (sm_next m), m\<lparr>sm_open := sm_next m # sm_open m, sm_next := sm_next m + 1\<rparr>)
      else (None, m))"

text \<open>The loop \<^verbatim>\<open>while (cnt-- >= 0)\<close> with \<^verbatim>\<open>cnt = 3\<close>: four attempts.  No null is ever pooled.\<close>

fun pop_conn :: "nat \<Rightarrow> 'd sqlite_mgr \<Rightarrow> nat option \<times> 'd sqlite_mgr" where
  "pop_conn 0 m = (None, m)"
| "pop_conn (Suc k) m =
     (case BQ_PopBack (sm_conns m) of
        None \<Rightarrow> pop_conn k m
      | Some (c, q) \<Rightarrow> (Some c, m\<lparr>sm_conns := q\<rparr>))"

definition GetConn :: "'d sqlite_api \<Rightarrow> 'd sqlite_mgr \<Rightarrow> nat option \<times> 'd sqlite_mgr" where
  "GetConn A m =
     (case pop_conn 4 m of
        (Some c, m1) \<Rightarrow> (Some c, m1)
      | (None, m1) \<Rightarrow> CreateConn A m1)"

definition PutConn :: "nat \<Rightarrow> 'd sqlite_mgr \<Rightarrow> 'd sqlite_mgr" where
  "PutConn c m = m\<lparr>sm_conns := BQ_PushBack c (sm_conns m)\<rparr>"

text \<open>
  \<^verbatim>\<open>sqlite3_close\<close> refuses (\<^verbatim>\<open>SQLITE_BUSY\<close>) to close a connection that has unfinalized statements.
\<close>

definition close_conn :: "nat \<Rightarrow> 'd sqlite_mgr \<Rightarrow> 'd sqlite_mgr" where
  "close_conn c m = (if c \<in> set (sm_stmts m) then m else m\<lparr>sm_open := filter (\<lambda>x. x \<noteq> c) (sm_open m)\<rparr>)"

definition hold_stmt :: "nat \<Rightarrow> 'd sqlite_mgr \<Rightarrow> 'd sqlite_mgr" where
  "hold_stmt c m = m\<lparr>sm_stmts := c # sm_stmts m\<rparr>"

section \<open>Statements\<close>

definition ExecuteNonQuery :: "'d sqlite_api \<Rightarrow> string \<Rightarrow> 'd sqlite_mgr \<Rightarrow> int \<times> 'd sqlite_mgr" where
  "ExecuteNonQuery A sql m =
     (case GetConn A m of
        (None, m1) \<Rightarrow> (Err_Fail, m1)
      | (Some c, m1) \<Rightarrow>
          (case sq_exec A sql (sm_db m1) of
             (False, db) \<Rightarrow> (Err_Fail, close_conn c (m1\<lparr>sm_db := db\<rparr>))
           | (True, db) \<Rightarrow> (Err_Success, PutConn c (m1\<lparr>sm_db := db\<rparr>))))"

text \<open>
  \<^verbatim>\<open>Select\<close>: the return code and the extracted rows (\<open>None\<close>: extraction is undefined).  The
  statement is finalized only on the error path.
\<close>

fun extract_rows :: "(sql_row \<Rightarrow> 'r option) \<Rightarrow> sql_row list \<Rightarrow> 'r list option" where
  "extract_rows ex [] = Some []"
| "extract_rows ex (r # rs) =
     (case ex r of
        None \<Rightarrow> None
      | Some x \<Rightarrow> map_option (\<lambda>xs. x # xs) (extract_rows ex rs))"

definition Select ::
  "'d sqlite_api \<Rightarrow> (sql_row \<Rightarrow> 'r option) \<Rightarrow> string \<Rightarrow> sql_args \<Rightarrow> 'd sqlite_mgr
   \<Rightarrow> (int \<times> 'r list option) \<times> 'd sqlite_mgr" where
  "Select A ex sql binds m =
     (case GetConn A m of
        (None, m1) \<Rightarrow> ((Err_Fail, Some []), m1)
      | (Some c, m1) \<Rightarrow>
          if \<not> sq_prepare A sql (sm_db m1) then ((Err_Fail, Some []), close_conn c m1)
          else if \<not> bind_all A sql binds (sm_db m1) then ((Err_Fail, Some []), hold_stmt c m1)
          else (case sq_run A sql (bound binds) (sm_db m1) of
                  (rows, fin, ch, db) \<Rightarrow>
                    if \<not> fin then ((Err_Fail, extract_rows ex rows), close_conn c (m1\<lparr>sm_db := db\<rparr>))
                    else ((Err_Success, extract_rows ex rows),
                          PutConn c (hold_stmt c (m1\<lparr>sm_db := db\<rparr>)))))"

text \<open>
  The body that \<^verbatim>\<open>Insert\<close>, \<^verbatim>\<open>Update\<close> and \<^verbatim>\<open>Delete\<close> share: one step, which must be
  \<^verbatim>\<open>SQLITE_DONE\<close> at once; \<open>aff\<close> is the value of \<^verbatim>\<open>*affect_rows\<close>.
\<close>

definition run_dml ::
  "'d sqlite_api \<Rightarrow> string \<Rightarrow> sql_args \<Rightarrow> int \<Rightarrow> 'd sqlite_mgr \<Rightarrow> (int \<times> int) \<times> 'd sqlite_mgr" where
  "run_dml A sql binds aff m =
     (case GetConn A m of
        (None, m1) \<Rightarrow> ((Err_Fail, aff), m1)
      | (Some c, m1) \<Rightarrow>
          if \<not> sq_prepare A sql (sm_db m1) then ((Err_Fail, aff), close_conn c m1)
          else if \<not> bind_all A sql binds (sm_db m1) then ((Err_Fail, aff), hold_stmt c m1)
          else (case sq_run A sql (bound binds) (sm_db m1) of
                  (rows, fin, ch, db) \<Rightarrow>
                    if rows \<noteq> [] \<or> \<not> fin then ((Err_Fail, aff), close_conn c (m1\<lparr>sm_db := db\<rparr>))
                    else ((Err_Success, to_i32 ch), PutConn c (m1\<lparr>sm_db := db\<rparr>))))"

definition Sqlite_Insert ::
  "'d sqlite_api \<Rightarrow> string \<Rightarrow> sql_args \<Rightarrow> int \<Rightarrow> 'd sqlite_mgr \<Rightarrow> (int \<times> int) \<times> 'd sqlite_mgr" where
  "Sqlite_Insert A sql binds aff m = run_dml A sql binds aff m"

definition Sqlite_Update ::
  "'d sqlite_api \<Rightarrow> string \<Rightarrow> sql_args \<Rightarrow> int \<Rightarrow> 'd sqlite_mgr \<Rightarrow> (int \<times> int) \<times> 'd sqlite_mgr" where
  "Sqlite_Update A sql binds aff m = run_dml A sql binds aff m"

definition Sqlite_Delete ::
  "'d sqlite_api \<Rightarrow> string \<Rightarrow> sql_args \<Rightarrow> int \<Rightarrow> 'd sqlite_mgr \<Rightarrow> (int \<times> int) \<times> 'd sqlite_mgr" where
  "Sqlite_Delete A sql binds aff m = run_dml A sql binds aff m"

text \<open>The callback of a batch steps the statement itself: a function on the database.\<close>

definition InsertBatch ::
  "'d sqlite_api \<Rightarrow> string \<Rightarrow> ('d \<Rightarrow> bool \<times> 'd) \<Rightarrow> 'd sqlite_mgr \<Rightarrow> int \<times> 'd sqlite_mgr" where
  "InsertBatch A sql callback m =
     (case GetConn A m of
        (None, m1) \<Rightarrow> (Err_Fail, m1)
      | (Some c, m1) \<Rightarrow>
          (case sq_exec A ''BEGIN TRANSACTION;'' (sm_db m1) of
             (False, db) \<Rightarrow> (Err_Fail, close_conn c (m1\<lparr>sm_db := db\<rparr>))
           | (True, db) \<Rightarrow>
               if \<not> sq_prepare A sql db then (Err_Fail, close_conn c (m1\<lparr>sm_db := db\<rparr>))
               else (case callback db of
                       (False, db1) \<Rightarrow> (Err_Fail, hold_stmt c (m1\<lparr>sm_db := db1\<rparr>))
                     | (True, db1) \<Rightarrow>
                         (case sq_exec A ''COMMIT;'' db1 of
                            (False, db2) \<Rightarrow> (Err_Fail, close_conn c (m1\<lparr>sm_db := db2\<rparr>))
                          | (True, db2) \<Rightarrow> (Err_Success, PutConn c (m1\<lparr>sm_db := db2\<rparr>))))))"

section \<open>The statements of the program\<close>

text \<open>Layout blanks and line breaks of the SQL texts are normalised to one blank.\<close>

definition sql_insert_user :: string where
  "sql_insert_user = ''INSERT OR IGNORE INTO users (user, salt, password, create_time, update_time) VALUES (?, ?, ?, ?, ?);''"

definition sql_create_users :: string where
  "sql_create_users = ''CREATE TABLE IF NOT EXISTS users ( id INTEGER PRIMARY KEY AUTOINCREMENT, user TEXT UNIQUE, salt TEXT, password TEXT, create_time INTEGER, update_time INTEGER );''"

definition sql_create_meta :: string where
  "sql_create_meta = ''CREATE TABLE IF NOT EXISTS meta ( id INTEGER PRIMARY KEY AUTOINCREMENT, version INTEGER );''"

definition sq_empty :: string where
  "sq_empty = [CHR 0x27, CHR 0x27]"

definition sql_create_files :: string where
  "sql_create_files =
     ''CREATE TABLE IF NOT EXISTS files ( id INTEGER PRIMARY KEY AUTOINCREMENT, local_id TEXT UNIQUE, device_id TEXT, repo_dir TEXT, file_hash TEXT, type INTEGER, file_name TEXT DEFAULT ''
     @ sq_empty @ '', owner TEXT DEFAULT '' @ sq_empty
     @ '', taken_time INTEGER DEFAULT -1, video_hash TEXT DEFAULT '' @ sq_empty
     @ '', cover_hash TEXT DEFAULT '' @ sq_empty @ '', thumb_hash TEXT DEFAULT '' @ sq_empty @ '' );''"

definition sql_select_file :: string where
  "sql_select_file = ''SELECT * FROM files WHERE file_hash = ?;''"

definition sql_select_files :: string where
  "sql_select_files = ''SELECT * FROM files WHERE repo_dir = ?;''"

definition sql_select_media :: string where
  "sql_select_media = ''SELECT * FROM files WHERE repo_dir = /media LIMIT ? OFFSET ?;''"

definition sql_insert_file :: string where
  "sql_insert_file = ''INSERT OR IGNORE INTO files (local_id, device_id, repo_dir, file_hash, type, file_name, owner, taken_time, video_hash, cover_hash, thumb_hash) VALUES (?, ?, ?, ?, ?, ?, ?, ?, ?, ?, ?);''"

definition sql_insert_version :: string where
  "sql_insert_version = ''INSERT INTO meta (id, version) VALUES (?, ?);''"

definition sql_update_version :: string where
  "sql_update_version = ''UPDATE meta SET version = ? where id = 1;''"

definition sql_get_version :: string where
  "sql_get_version = ''SELECT version FROM meta WHERE id = 1''"

definition fail_of :: "int \<Rightarrow> int" where
  "fail_of ret = (if ret \<noteq> 0 then Err_Fail else Err_Success)"

definition SelectFile ::
  "'d sqlite_api \<Rightarrow> string \<Rightarrow> 'd sqlite_mgr \<Rightarrow> (int \<times> FilesRow list option) \<times> 'd sqlite_mgr" where
  "SelectFile A file_hash m =
     (case Select A FilesRow_Extract sql_select_file [(1, SText (c_str file_hash))] m of
        ((ret, rows), m1) \<Rightarrow> ((fail_of ret, rows), m1))"

definition SelectFiles ::
  "'d sqlite_api \<Rightarrow> string \<Rightarrow> 'd sqlite_mgr \<Rightarrow> (int \<times> FilesRow list option) \<times> 'd sqlite_mgr" where
  "SelectFiles A repo_dir m =
     (case Select A FilesRow_Extract sql_select_files [(1, SText (c_str repo_dir))] m of
        ((ret, rows), m1) \<Rightarrow> ((fail_of ret, rows), m1))"

definition SelectMediaFiles ::
  "'d sqlite_api \<Rightarrow> int \<Rightarrow> int \<Rightarrow> 'd sqlite_mgr \<Rightarrow> (int \<times> FilesRow list option) \<times> 'd sqlite_mgr" where
  "SelectMediaFiles A off lim m =
     (case Select A FilesRow_Extract sql_select_media [(1, SInt lim), (2, SInt off)] m of
        ((ret, rows), m1) \<Rightarrow> ((fail_of ret, rows), m1))"

definition insert_file_binds :: "FilesRow \<Rightarrow> sql_args" where
  "insert_file_binds row =
     [(1, SText (c_str (fr_local_id row))), (1, SText (c_str (fr_device_id row))),
      (1, SText (c_str (fr_repo_dir row))), (1, SText (c_str (fr_file_hash row))),
      (2, SInt (fr_type row)), (1, SText (c_str (fr_file_name row))),
      (1, SText (c_str (fr_owner row))), (2, SInt (to_i32 (fr_taken_time row))),
      (1, SText (c_str (fr_video_hash row))), (1, SText (c_str (fr_cover_hash row))),
      (1, SText (c_str (fr_thumb_hash row)))]"

definition InsertFile :: "'d sqlite_api \<Rightarrow> FilesRow \<Rightarrow> 'd sqlite_mgr \<Rightarrow> int \<times> 'd sqlite_mgr" where
  "InsertFile A row m =
     (case Sqlite_Insert A sql_insert_file (insert_file_binds row) 0 m of
        ((ret, aff), m1) \<Rightarrow> (fail_of ret, m1))"

definition InitAdminUser :: "'d sqlite_api \<Rightarrow> int \<Rightarrow> 'd sqlite_mgr \<Rightarrow> bool \<times> 'd sqlite_mgr" where
  "InitAdminUser A now m =
     (case Sqlite_Insert A sql_insert_user
        [(1, SText ''admin''), (2, SText ''452c0306730b0f3ac3086d4f62effc20''),
         (3, SText ''e64de2fcaef0b98d035c3c241e4f8fda32f3b09067ef0f1b1706869a54f9d3b7''),
         (4, SInt now), (5, SInt now)] 0 m of
        ((ret, aff), m1) \<Rightarrow>
          if ret \<noteq> 0 then (False, m1) else if aff \<le> 0 then (False, m1) else (True, m1))"

definition InitVersion :: "'d sqlite_api \<Rightarrow> 'd sqlite_mgr \<Rightarrow> bool \<times> 'd sqlite_mgr" where
  "InitVersion A m =
     (case Sqlite_Insert A sql_insert_version [(1, SInt 1), (2, SInt 1)] 0 m of
        ((ret, aff), m1) \<Rightarrow> if ret \<noteq> 0 then (False, m1) else (aff > 0, m1))"

definition UpdateVersion :: "'d sqlite_api \<Rightarrow> int \<Rightarrow> 'd sqlite_mgr \<Rightarrow> bool \<times> 'd sqlite_mgr" where
  "UpdateVersion A version m =
     (case Sqlite_Update A sql_update_version [(1, SInt version)] 0 m of
        ((ret, aff), m1) \<Rightarrow> if ret \<noteq> 0 then (False, m1) else (aff > 0, m1))"

definition GetVersion :: "'d sqlite_api \<Rightarrow> 'd sqlite_mgr \<Rightarrow> int option \<times> 'd sqlite_mgr" where
  "GetVersion A m =
     (case Select A MetaRow_Extract sql_get_version [] m of
        ((ret, rows), m1) \<Rightarrow>
          (if ret \<noteq> 0 then Some 0
           else case rows of
                  None \<Rightarrow> None
                | Some [] \<Rightarrow> Some 0
                | Some (r # _) \<Rightarrow> Some (mr_version r), m1))"

definition UpgradeTables :: "'d sqlite_api \<Rightarrow> 'd sqlite_mgr \<Rightarrow> bool \<times> 'd sqlite_mgr" where
  "UpgradeTables A m = (case GetVersion A m of (v, m1) \<Rightarrow> (v \<noteq> Some 0, m1))"

definition InitTables :: "'d sqlite_api \<Rightarrow> int \<Rightarrow> 'd sqlite_mgr \<Rightarrow> bool \<times> 'd sqlite_mgr" where
  "InitTables A now m =
     (case ExecuteNonQuery A sql_create_users m of
        (ret, m1) \<Rightarrow>
          if ret \<noteq> 0 then (False, m1)
          else case InitAdminUser A now m1 of
            (ok, m2) \<Rightarrow>
              if \<not> ok then (False, m2)
              else case ExecuteNonQuery A sql_create_meta m2 of
                (ret2, m3) \<Rightarrow>
                  if ret2 \<noteq> 0 then (False, m3)
                  else case InitVersion A m3 of
                    (ok2, m4) \<Rightarrow>
                      if \<not> ok2 then (False, m4)
                      else case ExecuteNonQuery A sql_create_files m4 of
                        (ret3, m5) \<Rightarrow> (ret3 = 0, m5))"

definition kConnNum :: nat where
  "kConnNum = 100"

fun fill_pool :: "'d sqlite_api \<Rightarrow> nat \<Rightarrow> 'd sqlite_mgr \<Rightarrow> 'd sqlite_mgr" where
  "fill_pool A 0 m = m"
| "fill_pool A (Suc k) m =
     (case CreateConn A m of
        (None, m1) \<Rightarrow> fill_pool A k m1
      | (Some c, m1) \<Rightarrow> fill_pool A k (PutConn c m1))"

definition Sqlite_Init ::
  "'d sqlite_api \<Rightarrow> int \<Rightarrow> string \<Rightarrow> fs \<Rightarrow> 'd sqlite_mgr \<Rightarrow> bool \<times> fs \<times> 'd sqlite_mgr" where
  "Sqlite_Init A now home_dir s m0 =
     (let m = m0\<lparr>sm_path := home_dir @ ''/data/fstation.db''\<rparr>;
          (ok, s1) = (if \<not> Exists s (home_dir @ ''/data'') then Mkdir (home_dir @ ''/data'') s else (True, s))
      in if \<not> ok then (False, s1, m)
         else let (ok2, m1) =
                (if Exists s1 (sm_path m) \<and> FileSize s1 (sm_path m) > 0
                 then UpgradeTables A m else InitTables A now m)
              in if \<not> ok2 then (False, s1, m1)
                 else (True, s1, fill_pool A kConnNum m1))"

text \<open>The destructor: every pooled connection is closed.\<close>

definition Sqlite_destroy :: "'d sqlite_mgr \<Rightarrow> 'd sqlite_mgr" where
  "Sqlite_destroy m = foldr close_conn (sm_conns m) (m\<lparr>sm_conns := []\<rparr>)"

section \<open>What becomes of connections\<close>

text \<open>
  Pooled connections are open and pooled once; a connection that is open and neither pooled nor
  in use by a running call is lost for good.
\<close>

definition conn_inv :: "'d sqlite_mgr \<Rightarrow> bool" where
  "conn_inv m \<longleftrightarrow>
     distinct (sm_conns m) \<and> distinct (sm_open m) \<and> set (sm_conns m) \<subseteq> set (sm_open m)
     \<and> (\<forall>c \<in> set (sm_open m). c < sm_next m)"

definition lost :: "'d sqlite_mgr \<Rightarrow> nat set" where
  "lost m = set (sm_open m) - set (sm_conns m)"

text \<open>A call has taken connection \<open>c\<close>: it is open, not pooled, and nothing else was lost.\<close>

definition taken :: "'d sqlite_mgr \<Rightarrow> nat \<Rightarrow> 'd sqlite_mgr \<Rightarrow> bool" where
  "taken m c m1 \<longleftrightarrow>
     conn_inv m1 \<and> c \<in> set (sm_open m1) \<and> c \<notin> set (sm_conns m1) \<and> c \<notin> lost m
     \<and> lost m1 = insert c (lost m) \<and> sm_stmts m1 = sm_stmts m \<and> sm_db m1 = sm_db m"

lemma pop_conn_eq:
  "pop_conn (Suc k) m =
    (case BQ_PopBack (sm_conns m) of None \<Rightarrow> (None, m) | Some (c, q) \<Rightarrow> (Some c, m\<lparr>sm_conns := q\<rparr>))"
  by (induction k) (auto simp: BQ_PopBack_def)

lemma CreateConn_taken:
  assumes "conn_inv m" and "CreateConn A m = (Some c, m1)"
  shows "taken m c m1"
  using assms by (fastforce simp: CreateConn_def taken_def conn_inv_def lost_def split: if_splits)

lemma GetConn_taken:
  assumes "conn_inv m" and "GetConn A m = (Some c, m1)"
  shows "taken m c m1"
proof (cases "BQ_PopBack (sm_conns m)")
  case None
  then have "pop_conn 4 m = (None, m)" using pop_conn_eq [of 3 m] by (simp add: numeral_eq_Suc)
  then show ?thesis using assms by (auto simp: GetConn_def intro: CreateConn_taken)
next
  case (Some cq)
  obtain c' q where cq: "BQ_PopBack (sm_conns m) = Some (c', q)" using Some by (cases cq) auto
  have run: "c' = c" "m1 = m\<lparr>sm_conns := q\<rparr>"
    using assms(2) pop_conn_eq [of 3 m] cq by (simp_all add: GetConn_def numeral_eq_Suc)
  have content: "sm_conns m = q @ [c]" using conn_pool.get_content [OF cq] run by simp
  then show ?thesis
    using assms(1) run(2) by (auto simp: taken_def conn_inv_def lost_def)
qed

lemma GetConn_None:
  assumes "GetConn A m = (None, m1)"
  shows "m1 = m"
  using assms pop_conn_eq [of 3 m]
  by (auto simp: GetConn_def CreateConn_def numeral_eq_Suc split: option.splits prod.splits if_splits)

lemma taken_put:
  assumes "taken m c m1"
  shows "conn_inv (PutConn c (m1\<lparr>sm_db := db\<rparr>))" and "lost (PutConn c (m1\<lparr>sm_db := db\<rparr>)) = lost m"
  using assms by (auto simp: taken_def PutConn_def BQ_PushBack_def conn_inv_def lost_def)

lemma taken_close:
  assumes "taken m c m1"
  shows "conn_inv (close_conn c (m1\<lparr>sm_db := db\<rparr>))"
    and "lost (close_conn c (m1\<lparr>sm_db := db\<rparr>)) = lost m \<union> (if c \<in> set (sm_stmts m) then {c} else {})"
  using assms by (auto simp: taken_def close_conn_def conn_inv_def lost_def)

lemma taken_close0:
  assumes "taken m c m1"
  shows "conn_inv (close_conn c m1)"
    and "lost (close_conn c m1) = lost m \<union> (if c \<in> set (sm_stmts m) then {c} else {})"
  using taken_close [OF assms, of "sm_db m1"] by simp_all

lemma taken_hold:
  assumes "taken m c m1"
  shows "conn_inv (hold_stmt c m1)" and "lost (hold_stmt c m1) = insert c (lost m)"
  using assms by (auto simp: taken_def hold_stmt_def conn_inv_def lost_def)

lemma taken_put_hold:
  assumes "taken m c m1"
  shows "conn_inv (PutConn c (hold_stmt c (m1\<lparr>sm_db := db\<rparr>)))"
    and "lost (PutConn c (hold_stmt c (m1\<lparr>sm_db := db\<rparr>))) = lost m"
    and "sm_stmts (PutConn c (hold_stmt c (m1\<lparr>sm_db := db\<rparr>))) = c # sm_stmts m"
  using assms by (auto simp: taken_def PutConn_def BQ_PushBack_def hold_stmt_def conn_inv_def lost_def)

lemmas taken_facts = taken_put taken_close taken_close0 taken_hold taken_put_hold

lemma run_dml_inv:
  assumes "conn_inv m" and "run_dml A sql binds aff m = (r, m')"
  shows "conn_inv m'"
proof (cases "GetConn A m")
  case (Pair co m1)
  show ?thesis
  proof (cases co)
    case None
    then show ?thesis using assms Pair GetConn_None [of A m m1] by (simp add: run_dml_def)
  next
    case (Some c)
    then have t: "taken m c m1" using assms(1) Pair by (auto intro: GetConn_taken)
    show ?thesis
      using assms(2) Pair Some taken_facts [OF t]
      by (auto simp: run_dml_def split: if_splits prod.splits)
  qed
qed

lemma run_dml_lost:
  assumes "conn_inv m" and "sm_stmts m = []" and "run_dml A sql binds aff m = (r, m')"
  shows "card (lost m') = card (lost m)
    + (if fst (GetConn A m) \<noteq> None \<and> sq_prepare A sql (sm_db m) \<and> \<not> bind_all A sql binds (sm_db m)
       then 1 else 0)"
proof (cases "GetConn A m")
  case (Pair co m1)
  show ?thesis
  proof (cases co)
    case None
    then show ?thesis using assms Pair GetConn_None [of A m m1] by (simp add: run_dml_def)
  next
    case (Some c)
    then have t: "taken m c m1" using assms(1) Pair by (auto intro: GetConn_taken)
    have db: "sm_db m1 = sm_db m" and new: "c \<notin> lost m" using t by (auto simp: taken_def)
    have "finite (lost m)" by (simp add: lost_def)
    then show ?thesis
      using assms(2,3) Pair Some taken_facts [OF t] db new
      by (auto simp: run_dml_def split: if_splits prod.splits)
  qed
qed

text \<open>
  \<^verbatim>\<open>Insert\<close>, \<^verbatim>\<open>Update\<close> and \<^verbatim>\<open>Delete\<close> keep the pool sound (pooled connections are open and pooled
  once) and lose no connection, whatever the engine does, except on one path: when binding a
  parameter fails, the connection is neither returned nor closed and exactly one is lost.
\<close>

theorem dml_connection_accounting:
  assumes "conn_inv m" and "sm_stmts m = []" and "f = Sqlite_Insert \<or> f = Sqlite_Update \<or> f = Sqlite_Delete"
    and "f A sql binds aff m = (r, m')"
  shows "conn_inv m' \<and> card (lost m') = card (lost m)
    + (if fst (GetConn A m) \<noteq> None \<and> sq_prepare A sql (sm_db m) \<and> \<not> bind_all A sql binds (sm_db m)
       then 1 else 0)"
proof -
  have "run_dml A sql binds aff m = (r, m')"
    using assms(3,4) by (auto simp: Sqlite_Insert_def Sqlite_Update_def Sqlite_Delete_def)
  then show ?thesis using run_dml_inv [OF assms(1)] run_dml_lost [OF assms(1,2)] by blast
qed

text \<open>An engine that accepts everything and changes nothing, and one that refuses to bind.\<close>

definition null_engine :: "bool \<Rightarrow> unit sqlite_api" where
  "null_engine b =
     \<lparr>sq_open = (\<lambda>p d. True), sq_exec = (\<lambda>q d. (True, d)), sq_prepare = (\<lambda>q d. True),
      sq_bind = (\<lambda>q i v d. b), sq_run = (\<lambda>q f d. ([], True, 0, d))\<rparr>"

definition demo_mgr :: "unit sqlite_mgr" where
  "demo_mgr = \<lparr>sm_conns = [0, 1], sm_open = [1, 0], sm_next = 2, sm_stmts = [], sm_path = ''db'', sm_db = ()\<rparr>"

theorem dml_connection_accounting_witness:
  "card (lost (snd (Sqlite_Insert (null_engine False) sql_insert_version [(1, SInt 1)] 0 demo_mgr))) = 1"
proof -
  have inv: "conn_inv demo_mgr" and st: "sm_stmts demo_mgr = []" and l: "lost demo_mgr = {}"
    by (auto simp: demo_mgr_def conn_inv_def lost_def)
  have "fst (GetConn (null_engine False) demo_mgr) \<noteq> None \<and> sq_prepare (null_engine False) sql_insert_version (sm_db demo_mgr)
    \<and> \<not> bind_all (null_engine False) sql_insert_version [(1, SInt 1)] (sm_db demo_mgr)"
    by (simp add: GetConn_def demo_mgr_def null_engine_def BQ_PopBack_def numeral_eq_Suc)
  moreover obtain r m' where
    run: "Sqlite_Insert (null_engine False) sql_insert_version [(1, SInt 1)] 0 demo_mgr = (r, m')"
    by (meson prod.exhaust)
  ultimately show ?thesis
    using dml_connection_accounting [where f = Sqlite_Insert, OF inv st _ run] l by (simp only: run) simp
qed

text \<open>
  A successful \<^verbatim>\<open>Select\<close> returns its connection to the pool with the prepared statement still
  open; the connection can no longer be closed, so every later failure on it loses it.
\<close>

theorem Select_holds_statement:
  assumes "conn_inv m" and "Select A ex sql binds m = ((Err_Success, rows), m')"
  shows "conn_inv m' \<and> lost m' = lost m
    \<and> (\<exists>c. sm_stmts m' = c # sm_stmts m \<and> c \<in> set (sm_conns m') \<and> close_conn c m' = m')"
proof (cases "GetConn A m")
  case (Pair co m1)
  then obtain c where co: "co = Some c"
    using assms(2) by (cases co) (auto simp: Select_def err_defs)
  have t: "taken m c m1" using assms(1) Pair co by (auto intro: GetConn_taken)
  obtain db where m': "m' = PutConn c (hold_stmt c (m1\<lparr>sm_db := db\<rparr>))"
    using assms(2) Pair co by (auto simp: Select_def err_defs split: if_splits prod.splits)
  then show ?thesis
    using taken_put_hold [OF t, of db]
    by (auto simp: PutConn_def BQ_PushBack_def hold_stmt_def close_conn_def)
qed

theorem Select_holds_statement_witness:
  "sm_stmts (snd (Select (null_engine True) MetaRow_Extract sql_get_version [] demo_mgr)) = [1]"
proof -
  have inv: "conn_inv demo_mgr" by (auto simp: demo_mgr_def conn_inv_def)
  have run: "Select (null_engine True) MetaRow_Extract sql_get_version [] demo_mgr =
    ((Err_Success, Some []), demo_mgr\<lparr>sm_conns := [0, 1], sm_stmts := [1]\<rparr>)"
    by (simp add: Select_def GetConn_def demo_mgr_def null_engine_def BQ_PopBack_def numeral_eq_Suc
        PutConn_def BQ_PushBack_def hold_stmt_def)
  show ?thesis using Select_holds_statement [OF inv run] run by (simp add: demo_mgr_def)
qed

section \<open>The files table\<close>

lemma insert_file_bound:
  "bound (insert_file_binds row) i =
    (if i = 1 then SText (c_str (fr_thumb_hash row))
     else if i = 2 then SInt (to_i32 (fr_taken_time row)) else SNull)"
  by (simp add: insert_file_binds_def)

text \<open>
  \<^verbatim>\<open>InsertFile\<close> binds all its texts to parameter 1 and both numbers to parameter 2: on an engine
  that accepts the binds, two files with the same thumbnail hash and time are stored alike, whatever
  their names, hashes, owners and devices, and the hash column is always NULL.
\<close>

theorem InsertFile_stores_only_thumb:
  assumes "\<And>i v db. sq_bind A sql_insert_file i v db"
    and "fr_thumb_hash r1 = fr_thumb_hash r2" and "fr_taken_time r1 = fr_taken_time r2"
  shows "InsertFile A r1 m = InsertFile A r2 m \<and> bound (insert_file_binds r1) 4 = SNull"
proof -
  have all: "bind_all A sql_insert_file bs db" for bs db
    by (induction bs) (auto simp: assms(1))
  have eq: "bound (insert_file_binds r1) = bound (insert_file_binds r2)"
    by (rule ext) (simp only: insert_file_bound assms(2,3))
  have "run_dml A sql_insert_file (insert_file_binds r1) 0 m =
      run_dml A sql_insert_file (insert_file_binds r2) 0 m"
    by (simp only: run_dml_def all eq)
  then show ?thesis
    by (simp add: InsertFile_def Sqlite_Insert_def insert_file_bound del: bound.simps)
qed

definition demo_row :: "string \<Rightarrow> FilesRow" where
  "demo_row name =
     \<lparr>fr_id = 0, fr_local_id = name, fr_device_id = '''', fr_repo_dir = '''', fr_file_hash = name, fr_type = 1,
      fr_file_name = name, fr_owner = ''bob'', fr_taken_time = 5, fr_video_hash = '''', fr_cover_hash = '''',
      fr_thumb_hash = ''t''\<rparr>"

theorem InsertFile_stores_only_thumb_witness:
  "InsertFile (null_engine True) (demo_row ''a'') demo_mgr = InsertFile (null_engine True) (demo_row ''b'') demo_mgr"
  using InsertFile_stores_only_thumb [of "null_engine True" "demo_row ''a''" "demo_row ''b''" demo_mgr]
  by (simp add: null_engine_def demo_row_def)

end
