(* ===== verification/Proto.thy ===== *)
theory Proto
  imports Defs
begin

text \<open>
  The messages of \<^verbatim>\<open>src/src/proto/data.proto\<close> and \<^verbatim>\<open>service.proto\<close> as records, with the declared
  defaults (zero and empty), and \<^verbatim>\<open>ReceiveContext\<close> of \<^verbatim>\<open>src/src/common/defs.h\<close>.  A protobuf map is a
  finite map; a repeated field is a list.
\<close>

datatype FileType = FT_Unused | FT_Regular | FT_Symlink | FT_Direcotry

datatype FileSubType = FST_Regular | FST_Photo | FST_Video | FST_Audio

record File =
  f_file_hash :: string
  f_file_type :: FileType
  f_file_sub_type :: FileSubType
  f_file_name :: string
  f_video_hash :: string
  f_cover_hash :: string
  f_thumb_hash :: string
  f_file_size :: int
  f_create_time :: int
  f_update_time :: int
  f_duration :: int
  f_width :: int
  f_height :: int
  f_taken_time :: int
  f_local_id :: string
  f_device_id :: string
  f_favorite :: bool
  f_user :: string
  f_visible_users :: "string list"

definition File_default :: File where
  "File_default =
     \<lparr>f_file_hash = '''', f_file_type = FT_Unused, f_file_sub_type = FST_Regular, f_file_name = '''',
      f_video_hash = '''', f_cover_hash = '''', f_thumb_hash = '''', f_file_size = 0, f_create_time = 0,
      f_update_time = 0, f_duration = 0, f_width = 0, f_height = 0, f_taken_time = 0, f_local_id = '''',
      f_device_id = '''', f_favorite = False, f_user = '''', f_visible_users = []\<rparr>"

datatype RepoType = RT_Unused | RT_Local | RT_Remote | RT_Ocean

record RepoMeta =
  rm_repo_name :: string
  rm_repo_location :: string
  rm_repo_uuid :: string
  rm_repo_location_uuid :: string
  rm_create_time :: string
  rm_update_time :: string
  rm_owner :: string

definition RepoMeta_default :: RepoMeta where
  "RepoMeta_default =
     \<lparr>rm_repo_name = '''', rm_repo_location = '''', rm_repo_uuid = '''', rm_repo_location_uuid = '''',
      rm_create_time = '''', rm_update_time = '''', rm_owner = ''''\<rparr>"

text \<open>
  \<^verbatim>\<open>map<string, RepoMeta>\<close>: an association list with distinct keys.  \<^verbatim>\<open>insert\<close> keeps an existing entry;
  \<^verbatim>\<open>operator[]\<close> assignment replaces it.
\<close>

type_synonym Repos = "(string \<times> RepoMeta) list"

definition pmap_insert :: "'k \<Rightarrow> 'v \<Rightarrow> ('k \<times> 'v) list \<Rightarrow> ('k \<times> 'v) list" where
  "pmap_insert k v m = (case map_of m k of None \<Rightarrow> m @ [(k, v)] | Some _ \<Rightarrow> m)"

lemma map_of_pmap_insert:
  "map_of (pmap_insert k v m) = (if map_of m k = None then (map_of m)(k \<mapsto> v) else map_of m)"
  by (auto simp: pmap_insert_def map_add_def fun_eq_iff split: option.splits)

lemma distinct_pmap_insert: "distinct (map fst m) \<Longrightarrow> distinct (map fst (pmap_insert k v m))"
  by (auto simp: pmap_insert_def map_of_eq_None_iff split: option.splits)

datatype UserOp =
  Op_UserUnused | Op_UserCreate | Op_UserDelete | Op_UserLogin | Op_UserLogout
  | Op_UserChangePassword | Op_UserUpdateToken

record UserReq =
  uq_request_id :: string
  uq_op :: UserOp
  uq_user :: string
  uq_password :: string
  uq_token :: string
  uq_to_delete_user :: string
  uq_old_password :: string

record UserRes =
  us_err_code :: int
  us_token :: string

datatype ServerOp =
  Op_ServerUnused | Op_ServerStatus | Op_ServerRestart | Op_ServerShutdown | Op_ServerFullScan
  | Op_ServerHandShake | Op_ServerFindingServer

record ServerReq =
  sq_request_id :: string
  sq_op :: ServerOp
  sq_path :: string
  sq_repo_uuid :: string

record ServerRes =
  ss_err_code :: int
  ss_status :: string
  ss_server_uuid :: string
  ss_handshake_msg :: string

datatype RepoOp =
  Op_RepoUnused | Op_RepoListServerDir | Op_RepoCreateServerDir | Op_RepoListUserRepo | Op_RepoCreateRepo
  | Op_RepoDeleteRepo | Op_RepoChangeRepoOwner | Op_RepoCreateRepoDir | Op_RepoDeleteRepoDir
  | Op_RepoDeleteRepoFile | Op_RepoListRepoDir | Op_RepoListRepoMediaFiles

record RepoReq =
  rq_request_id :: string
  rq_token :: string
  rq_user :: string
  rq_op :: RepoOp
  rq_type :: RepoType
  rq_repo_uuid :: string
  rq_repo_name :: string
  rq_dir :: string
  rq_file_offset :: int
  rq_file_limit :: int

record RepoRes =
  rs_err_code :: int
  rs_repos :: Repos
  rs_files :: "File list"

datatype FileOp = Op_FileUnused | Op_FileExists | Op_FilePut | Op_FileDelete | Op_FileSaveSuccess | Op_FileGet

record FileReq =
  fq_request_id :: string
  fq_user :: string
  fq_token :: string
  fq_op :: FileOp
  fq_repo_type :: RepoType
  fq_repo_uuid :: string
  fq_repo_location :: string
  fq_repo_dir :: string
  fq_cur_part :: int
  fq_size_per_part :: int
  fq_file :: File
  fq_content :: bytes

record FileRes =
  fs_err_code :: int
  fs_file_hash :: string
  fs_cur_part :: int
  fs_request_id :: string
  fs_op :: FileOp
  fs_can_skip_upload :: bool
  fs_content :: bytes

text \<open>
  \<^verbatim>\<open>file_handler.h\<close>, \<^verbatim>\<open>sync_manager.cc\<close> and \<^verbatim>\<open>grpc_file_client.h\<close> use fields of the file messages (\<^verbatim>\<open>src\<close>, \<^verbatim>\<open>dst\<close>, \<^verbatim>\<open>file_type\<close>, \<^verbatim>\<open>file_hash\<close>,
  \<^verbatim>\<open>partition_num\<close>, \<^verbatim>\<open>update_time\<close>) that \<^verbatim>\<open>service.proto\<close> no longer declares: record extensions.
\<close>

record FileReqX = FileReq +
  fx_src :: string
  fx_dst :: string
  fx_file_type :: FileType
  fx_file_hash :: string
  fx_file_size :: int
  fx_partition_num :: int
  fx_partition_size :: int
  fx_update_time :: int

record FileResX = FileRes +
  fr_src :: string
  fr_dst :: string
  fr_partition_num :: int
  fr_res_type :: FileType

definition FileResX_default :: FileResX where
  "FileResX_default =
     \<lparr>fs_err_code = 0, fs_file_hash = '''', fs_cur_part = 0, fs_request_id = '''', fs_op = Op_FileUnused, fs_can_skip_upload = False,
      fs_content = '''', fr_src = '''', fr_dst = '''', fr_partition_num = 0, fr_res_type = FT_Unused\<rparr>"

definition FileReqX_default :: FileReqX where
  "FileReqX_default =
     \<lparr>fq_request_id = '''', fq_user = '''', fq_token = '''', fq_op = Op_FileUnused, fq_repo_type = RT_Unused,
      fq_repo_uuid = '''', fq_repo_location = '''', fq_repo_dir = '''', fq_cur_part = 0, fq_size_per_part = 0,
      fq_file = File_default, fq_content = '''', fx_src = '''', fx_dst = '''', fx_file_type = FT_Unused,
      fx_file_hash = '''', fx_file_size = 0, fx_partition_num = 0, fx_partition_size = 0, fx_update_time = 0\<rparr>"

record ReceiveContext =
  rc_repo_type :: RepoType
  rc_repo_uuid :: string
  rc_repo_location :: string
  rc_total_part_num :: int
  rc_partitions :: "int list"
  rc_file :: File
  rc_user :: string

text \<open>\<^verbatim>\<open>std::set::insert\<close> on a set kept as a list without repetitions.\<close>

definition set_insert :: "'a \<Rightarrow> 'a list \<Rightarrow> 'a list" where
  "set_insert x xs = (if x \<in> set xs then xs else xs @ [x])"

lemma set_set_insert [simp]: "set (set_insert x xs) = insert x (set xs)"
  by (auto simp: set_insert_def)

lemma distinct_set_insert [simp]: "distinct xs \<Longrightarrow> distinct (set_insert x xs)"
  by (simp add: set_insert_def)

text \<open>
  JSON conversion of the messages (protobuf's \<^verbatim>\<open>MessageToJsonString\<close> and \<^verbatim>\<open>JsonStringToMessage\<close> behind
  \<^verbatim>\<open>Util::MessageToJson\<close>, \<^verbatim>\<open>MessageToConciseJson\<close> and \<^verbatim>\<open>JsonToMessage\<close>): parameters; \<open>None\<close> is failure.
  Parsing gets the message that is overwritten.
\<close>

record json_api =
  js_repos_out :: "Repos \<Rightarrow> string option"
  js_repos_in :: "string \<Rightarrow> Repos \<Rightarrow> Repos option"
  js_repo_out :: "RepoMeta \<Rightarrow> string option"
  js_repo_in :: "string \<Rightarrow> RepoMeta \<Rightarrow> RepoMeta option"
  js_file_out :: "File \<Rightarrow> string option"

text \<open>
  What the code relies on: printing succeeds, and parsing what \<^verbatim>\<open>MessageToJson\<close> printed (all fields
  are printed) gives the message back, whatever was there before; the order of a map's entries is
  not promised.
\<close>

locale json_codec =
  fixes J :: json_api
  assumes repos_roundtrip: "distinct (map fst R) \<Longrightarrow>
      \<exists>t. js_repos_out J R = Some t
        \<and> (\<forall>old. \<exists>R'. js_repos_in J t old = Some R' \<and> map_of R' = map_of R \<and> distinct (map fst R'))"
    and repo_roundtrip: "\<exists>t. js_repo_out J r = Some t \<and> (\<forall>old. js_repo_in J t old = Some r)"
    and file_out: "js_file_out J f \<noteq> None"
begin

lemma repos_out_total: "distinct (map fst R) \<Longrightarrow> \<exists>t. js_repos_out J R = Some t"
  using repos_roundtrip by blast

lemma repos_in_out:
  "distinct (map fst R) \<Longrightarrow> js_repos_out J R = Some t \<Longrightarrow>
    \<exists>R'. js_repos_in J t old = Some R' \<and> map_of R' = map_of R \<and> distinct (map fst R')"
  using repos_roundtrip by fastforce

lemma repo_out_total: "\<exists>t. js_repo_out J r = Some t"
  using repo_roundtrip by blast

lemma repo_in_out: "js_repo_out J r = Some t \<Longrightarrow> js_repo_in J t old = Some r"
  using repo_roundtrip [of r] by auto

end

subsection \<open>A codec with these laws\<close>

text \<open>Strings with every character marked and an end mark; records field by field.\<close>

definition enc_str :: "string \<Rightarrow> string" where
  "enc_str s = concat (map (\<lambda>c. [CHR ''x'', c]) s) @ ''e''"

fun dec_str :: "string \<Rightarrow> (string \<times> string) option" where
  "dec_str (m # r) =
     (if m = CHR ''e'' then Some ([], r)
      else case r of [] \<Rightarrow> None | c # r' \<Rightarrow> map_option (\<lambda>(s, t). (c # s, t)) (dec_str r'))"
| "dec_str [] = None"

lemma dec_enc_str [simp]: "dec_str (enc_str s @ t) = Some (s, t)"
  by (induction s) (simp_all add: enc_str_def)

definition enc_repo :: "RepoMeta \<Rightarrow> string" where
  "enc_repo r =
     enc_str (rm_repo_name r) @ enc_str (rm_repo_location r) @ enc_str (rm_repo_uuid r)
     @ enc_str (rm_repo_location_uuid r) @ enc_str (rm_create_time r) @ enc_str (rm_update_time r)
     @ enc_str (rm_owner r)"

fun dec_strs :: "nat \<Rightarrow> string \<Rightarrow> (string list \<times> string) option" where
  "dec_strs 0 t = Some ([], t)"
| "dec_strs (Suc n) t =
     (case dec_str t of
        None \<Rightarrow> None
      | Some (s, t') \<Rightarrow> map_option (\<lambda>(ss, u). (s # ss, u)) (dec_strs n t'))"

definition dec_repo :: "string \<Rightarrow> (RepoMeta \<times> string) option" where
  "dec_repo t =
     (case dec_strs 7 t of
        Some ([a, b, c, d, e, f, g], u) \<Rightarrow>
          Some (\<lparr>rm_repo_name = a, rm_repo_location = b, rm_repo_uuid = c, rm_repo_location_uuid = d,
                 rm_create_time = e, rm_update_time = f, rm_owner = g\<rparr>, u)
      | _ \<Rightarrow> None)"

lemma dec_enc_repo [simp]: "dec_repo (enc_repo r @ t) = Some (r, t)"
  by (cases r) (simp add: dec_repo_def enc_repo_def numeral_eq_Suc)

definition enc_repos :: "Repos \<Rightarrow> string" where
  "enc_repos R = concat (map (\<lambda>(k, r). ''n'' @ enc_str k @ enc_repo r) R)"

fun dec_repos :: "nat \<Rightarrow> string \<Rightarrow> Repos option" where
  "dec_repos 0 t = Some []"
| "dec_repos (Suc n) t =
     (if t = [] then Some []
      else case dec_str (tl t) of
             None \<Rightarrow> None
           | Some (k, t') \<Rightarrow>
               (case dec_repo t' of
                  None \<Rightarrow> None
                | Some (r, t'') \<Rightarrow> map_option (\<lambda>R. (k, r) # R) (dec_repos n t'')))"

lemma dec_enc_repos: "length R \<le> n \<Longrightarrow> dec_repos n (enc_repos R) = Some R"
proof (induction R arbitrary: n)
  case Nil
  then show ?case by (cases n) (simp_all add: enc_repos_def)
next
  case (Cons a R)
  then show ?case by (cases a; cases n) (simp_all add: enc_repos_def)
qed

lemma enc_repos_length: "length R \<le> length (enc_repos R)"
  by (induction R) (auto simp: enc_repos_def)

definition json_ref :: json_api where
  "json_ref =
     \<lparr>js_repos_out = (\<lambda>R. Some (enc_repos R)), js_repos_in = (\<lambda>t old. dec_repos (length t) t),
      js_repo_out = (\<lambda>r. Some (enc_repo r)), js_repo_in = (\<lambda>t old. map_option fst (dec_repo t)),
      js_file_out = (\<lambda>f. Some (enc_str (f_file_hash f)))\<rparr>"

interpretation jref: json_codec json_ref
proof
  fix r
  show "\<exists>t. js_repo_out json_ref r = Some t \<and> (\<forall>old. js_repo_in json_ref t old = Some r)"
    using dec_enc_repo [of r "[]"] by (simp add: json_ref_def)
qed (simp_all add: json_ref_def dec_enc_repos enc_repos_length)

end
