(* ===== verification/FileProcess.thy ===== *)
theory FileProcess
  imports UtilHash Sqlite Proto
begin

text \<open>
  The file process manager, \<^verbatim>\<open>src/src/impl/file_process_manager.h\<close>: four queues of uploads in
  progress, keyed by request id, and the workers that finish an upload once all its parts are
  there.  Each access to a queue runs under that queue's lock, so it is one step.  xxHash is a
  parameter.
\<close>

definition kTaskNum :: nat where
  "kTaskNum = 4"

record fpm_st =
  fp_stop :: bool
  fp_exits :: "bool list"
  fp_queues :: "(string \<times> ReceiveContext) list list"

definition FPM_Init :: "fpm_st \<Rightarrow> bool \<times> fpm_st" where
  "FPM_Init st = (True, st\<lparr>fp_queues := fp_queues st @ replicate kTaskNum []\<rparr>)"

definition FPM_Stopped :: "fpm_st \<Rightarrow> bool" where
  "FPM_Stopped st = list_all (\<lambda>b. b) (fp_exits st)"

text \<open>\<^verbatim>\<open>Stop\<close> raises the flag and then polls \<^verbatim>\<open>Stopped\<close>; this is the part before the polling.\<close>

definition FPM_Stop :: "fpm_st \<Rightarrow> fpm_st" where
  "FPM_Stop st = st\<lparr>fp_stop := True\<rparr>"

definition thread_of :: "(string \<Rightarrow> int) \<Rightarrow> string \<Rightarrow> nat" where
  "thread_of xxh request_id = nat (\<bar>xxh request_id\<bar> mod int kTaskNum)"

text \<open>\<open>None\<close>: the division by a part size of zero in \<^verbatim>\<open>FilePartitionNum\<close>.\<close>

definition put_queue ::
  "FileReq \<Rightarrow> (string \<times> ReceiveContext) list \<Rightarrow> (string \<times> ReceiveContext) list option" where
  "put_queue req q =
     (case map_of q (fq_request_id req) of
        Some ctx \<Rightarrow>
          Some (AList.update (fq_request_id req)
                  (ctx\<lparr>rc_partitions := set_insert (fq_cur_part req) (rc_partitions ctx)\<rparr>) q)
      | None \<Rightarrow>
          (case FilePartitionNum (to_i64 (f_file_size (fq_file req))) (fq_size_per_part req) of
             None \<Rightarrow> None
           | Some n \<Rightarrow>
               Some (q @ [(fq_request_id req,
                 \<lparr>rc_repo_type = fq_repo_type req, rc_repo_uuid = fq_repo_uuid req,
                  rc_repo_location = fq_repo_location req, rc_total_part_num = n,
                  rc_partitions = set_insert (fq_cur_part req) [], rc_file = fq_file req, rc_user = ''''\<rparr>)])))"

definition Put :: "(string \<Rightarrow> int) \<Rightarrow> FileReq \<Rightarrow> fpm_st \<Rightarrow> fpm_st option" where
  "Put xxh req st =
     (let i = thread_of xxh (fq_request_id req)
      in case put_queue req (fp_queues st ! i) of
           None \<Rightarrow> None
         | Some q \<Rightarrow> Some (st\<lparr>fp_queues := (fp_queues st)[i := q]\<rparr>))"

section \<open>Finishing an upload\<close>

text \<open>
  \<open>None\<close> in the functions below is the exception of \<^verbatim>\<open>RepoFilePath\<close> on a hash of less than two bytes.
\<close>

definition WriteFileMeta :: "boost_api \<Rightarrow> json_api \<Rightarrow> ReceiveContext \<Rightarrow> fs \<Rightarrow> (bool \<times> fs) option" where
  "WriteFileMeta B J ctx s =
     (case RepoFilePath B (rc_repo_location ctx) (f_file_hash (rc_file ctx)) of
        None \<Rightarrow> None
      | Some p \<Rightarrow>
          (case js_file_out J (rc_file ctx) of
             None \<Rightarrow> Some (False, s)
           | Some content \<Rightarrow>
               (case WriteToFile (p @ ''.meta.json'') content False s of
                  (ret, s1) \<Rightarrow> Some (ret = 0, s1))))"

fun sub_type_code :: "FileSubType \<Rightarrow> int" where
  "sub_type_code FST_Regular = 0"
| "sub_type_code FST_Photo = 1"
| "sub_type_code FST_Video = 2"
| "sub_type_code FST_Audio = 3"

text \<open>The row keeps the (uninitialised) id it had.\<close>

definition RecvCtxToSqlRow :: "ReceiveContext \<Rightarrow> int \<Rightarrow> FilesRow" where
  "RecvCtxToSqlRow ctx rid =
     \<lparr>fr_id = rid, fr_local_id = f_local_id (rc_file ctx), fr_device_id = f_device_id (rc_file ctx),
      fr_repo_dir = ''/media'', fr_file_hash = f_file_hash (rc_file ctx),
      fr_type = sub_type_code (f_file_sub_type (rc_file ctx)), fr_file_name = f_file_name (rc_file ctx),
      fr_owner = rc_user ctx, fr_taken_time = f_taken_time (rc_file ctx), fr_video_hash = f_video_hash (rc_file ctx),
      fr_cover_hash = f_cover_hash (rc_file ctx), fr_thumb_hash = f_thumb_hash (rc_file ctx)\<rparr>"

definition WriteDB ::
  "'d sqlite_api \<Rightarrow> ReceiveContext \<Rightarrow> int \<Rightarrow> 'd sqlite_mgr \<Rightarrow> bool \<times> 'd sqlite_mgr" where
  "WriteDB A ctx rid m = (case InsertFile A (RecvCtxToSqlRow ctx rid) m of (ret, m1) \<Rightarrow> (ret = 0, m1))"

text \<open>
  \<^verbatim>\<open>Util::ResizeImg\<close> has an empty body: it never writes \<^verbatim>\<open>*out\<close>, and flowing off its end yields some
  value, \<open>junk\<close>.
\<close>

definition ResizeImg :: "bool \<Rightarrow> string \<Rightarrow> string \<Rightarrow> bool \<times> string" where
  "ResizeImg junk path out = (junk, out)"

definition GenThumbnail ::
  "boost_api \<Rightarrow> 'c blake3_api \<Rightarrow> fmt_hex_fn \<Rightarrow> bool \<Rightarrow> ReceiveContext \<Rightarrow> fs \<Rightarrow> (bool \<times> ReceiveContext \<times> fs) option" where
  "GenThumbnail B H fmt junk ctx s =
     (case RepoFilePath B (rc_repo_location ctx) (f_file_hash (rc_file ctx)) of
        None \<Rightarrow> None
      | Some p \<Rightarrow>
          (case ResizeImg junk p '''' of
             (False, content) \<Rightarrow> Some (False, ctx, s)
           | (True, content) \<Rightarrow>
               (case Blake3 H fmt content False of
                  (False, h) \<Rightarrow> Some (False, ctx, s)
                | (True, h) \<Rightarrow>
                    (case RepoFilePath B (rc_repo_location ctx) h of
                       None \<Rightarrow> None
                     | Some p2 \<Rightarrow>
                         (case WriteToFile p2 content False s of
                            (ret, s1) \<Rightarrow>
                              if ret \<noteq> 0 then Some (False, ctx, s1)
                              else Some (True, ctx\<lparr>rc_file := (rc_file ctx)\<lparr>f_thumb_hash := h\<rparr>\<rparr>, s1))))))"

text \<open>Note the test of \<^verbatim>\<open>MessageToConciseJson\<close>: it returns true on success.\<close>

definition WriteMeta ::
  "boost_api \<Rightarrow> json_api \<Rightarrow> 'c blake3_api \<Rightarrow> fmt_hex_fn \<Rightarrow> bool \<Rightarrow> ReceiveContext \<Rightarrow> fs
   \<Rightarrow> (bool \<times> ReceiveContext \<times> fs) option" where
  "WriteMeta B J H fmt junk ctx s =
     (case (if f_file_type (rc_file ctx) = FT_Regular \<and> f_file_sub_type (rc_file ctx) = FST_Photo
            then GenThumbnail B H fmt junk ctx s else Some (True, ctx, s)) of
        None \<Rightarrow> None
      | Some (False, ctx1, s1) \<Rightarrow> Some (False, ctx1, s1)
      | Some (True, ctx1, s1) \<Rightarrow>
          (case js_file_out J (rc_file ctx1) of
             Some json \<Rightarrow> Some (False, ctx1, s1)
           | None \<Rightarrow>
               (case RepoFilePath B (rc_repo_location ctx1) (f_file_hash (rc_file ctx1)) of
                  None \<Rightarrow> None
                | Some p \<Rightarrow>
                    (case WriteToFile (p @ ''.json'') '''' False s1 of
                       (ret, s2) \<Rightarrow> Some (ret = 0, ctx1, s2)))))"

definition DoProcess_ctx ::
  "boost_api \<Rightarrow> json_api \<Rightarrow> 'c blake3_api \<Rightarrow> fmt_hex_fn \<Rightarrow> bool \<Rightarrow> ReceiveContext \<Rightarrow> fs
   \<Rightarrow> (bool \<times> ReceiveContext \<times> fs) option" where
  "DoProcess_ctx B J H fmt junk ctx s =
     (if rc_total_part_num ctx = int (length (rc_partitions ctx)) then WriteMeta B J H fmt junk ctx s
      else Some (False, ctx, s))"

text \<open>The loop over one queue; a finished entry is erased.\<close>

fun process_queue ::
  "boost_api \<Rightarrow> json_api \<Rightarrow> 'c blake3_api \<Rightarrow> fmt_hex_fn \<Rightarrow> bool \<Rightarrow> (string \<times> ReceiveContext) list \<Rightarrow> fs
   \<Rightarrow> ((string \<times> ReceiveContext) list \<times> fs) option" where
  "process_queue B J H fmt junk [] s = Some ([], s)"
| "process_queue B J H fmt junk ((k, ctx) # q) s =
     (case DoProcess_ctx B J H fmt junk ctx s of
        None \<Rightarrow> None
      | Some (fin, ctx1, s1) \<Rightarrow>
          map_option (\<lambda>(q', s'). (if fin then q' else (k, ctx1) # q', s')) (process_queue B J H fmt junk q s1))"

definition DoProcess ::
  "boost_api \<Rightarrow> json_api \<Rightarrow> 'c blake3_api \<Rightarrow> fmt_hex_fn \<Rightarrow> bool \<Rightarrow> nat \<Rightarrow> fpm_st \<times> fs \<Rightarrow> (fpm_st \<times> fs) option" where
  "DoProcess B J H fmt junk i = (\<lambda>(st, s).
     map_option (\<lambda>(q, s'). (st\<lparr>fp_queues := (fp_queues st)[i := q]\<rparr>, s'))
       (process_queue B J H fmt junk (fp_queues st ! i) s))"

text \<open>
  The worker \<^verbatim>\<open>Process\<close>, one round of its loop: stop or process.  \<open>True\<close>: the worker has ended, after a
  last pass over its queue.
\<close>

definition Process_round ::
  "boost_api \<Rightarrow> json_api \<Rightarrow> 'c blake3_api \<Rightarrow> fmt_hex_fn \<Rightarrow> bool \<Rightarrow> nat \<Rightarrow> fpm_st \<times> fs \<Rightarrow> (bool \<times> fpm_st \<times> fs) option" where
  "Process_round B J H fmt junk i = (\<lambda>(st, s).
     map_option (\<lambda>(st1, s1).
         if fp_stop st then (True, st1\<lparr>fp_exits := (fp_exits st1)[i := True]\<rparr>, s1)
         else (False, st1, s1))
       (DoProcess B J H fmt junk i (st, s)))"

section \<open>Collecting parts\<close>

lemma thread_of_bound: "thread_of xxh r < kTaskNum"
  by (simp add: thread_of_def kTaskNum_def nat_less_iff)

text \<open>The invariant of a queue: distinct request ids, part sets without repetition.\<close>

definition queue_ok :: "(string \<times> ReceiveContext) list \<Rightarrow> bool" where
  "queue_ok q \<longleftrightarrow> distinct (map fst q) \<and> (\<forall>(k, ctx) \<in> set q. distinct (rc_partitions ctx))"

definition fpm_ok :: "fpm_st \<Rightarrow> bool" where
  "fpm_ok st \<longleftrightarrow> length (fp_queues st) = kTaskNum \<and> list_all queue_ok (fp_queues st)"

text \<open>The parts received so far for a request.\<close>

definition parts_of :: "(string \<Rightarrow> int) \<Rightarrow> string \<Rightarrow> fpm_st \<Rightarrow> int set" where
  "parts_of xxh r st =
     (case map_of (fp_queues st ! thread_of xxh r) r of None \<Rightarrow> {} | Some ctx \<Rightarrow> set (rc_partitions ctx))"

lemma put_queue_ok: "queue_ok q \<Longrightarrow> put_queue req q = Some q' \<Longrightarrow> queue_ok q'"
proof (cases "map_of q (fq_request_id req)")
  case None
  assume "queue_ok q" "put_queue req q = Some q'"
  then show ?thesis
    using None by (auto simp: put_queue_def queue_ok_def map_of_eq_None_iff split: option.splits)
next
  case (Some ctx)
  assume ok: "queue_ok q" and put: "put_queue req q = Some q'"
  let ?c = "ctx\<lparr>rc_partitions := set_insert (fq_cur_part req) (rc_partitions ctx)\<rparr>"
  have q': "q' = AList.update (fq_request_id req) ?c q" using put Some by (simp add: put_queue_def)
  have "distinct (rc_partitions ctx)" using ok map_of_SomeD [OF Some] by (auto simp: queue_ok_def)
  moreover have "set q' \<subseteq> insert (fq_request_id req, ?c) (set q)"
    unfolding q' by (induction q) auto
  moreover have "distinct (map fst q')" using ok unfolding q' queue_ok_def by (auto intro: distinct_update)
  ultimately show ?thesis using ok by (auto simp: queue_ok_def)
qed

lemma put_queue_parts:
  assumes "put_queue req q = Some q'"
  shows "(case map_of q' r of None \<Rightarrow> {} | Some ctx \<Rightarrow> set (rc_partitions ctx)) =
    (case map_of q r of None \<Rightarrow> {} | Some ctx \<Rightarrow> set (rc_partitions ctx))
      \<union> (if r = fq_request_id req then {fq_cur_part req} else {})"
  using assms
  by (auto simp: put_queue_def update_conv' map_add_def split: option.splits)

lemma Put_ok:
  assumes "fpm_ok st" and "Put xxh req st = Some st'"
  shows "fpm_ok st'"
proof -
  let ?i = "thread_of xxh (fq_request_id req)"
  obtain q where q: "put_queue req (fp_queues st ! ?i) = Some q" "st' = st\<lparr>fp_queues := (fp_queues st)[?i := q]\<rparr>"
    using assms(2) by (auto simp: Put_def Let_def split: option.splits)
  have "?i < length (fp_queues st)" using assms(1) thread_of_bound by (simp add: fpm_ok_def)
  then have "queue_ok (fp_queues st ! ?i)" using assms(1) by (auto simp: fpm_ok_def list_all_length)
  then have "queue_ok q" using q(1) by (rule put_queue_ok)
  then show ?thesis
    using assms(1) q(2) set_update_subset_insert [of "fp_queues st" ?i q]
    by (auto simp: fpm_ok_def list_all_iff)
qed

lemma Put_parts:
  assumes "fpm_ok st" and "Put xxh req st = Some st'"
  shows "parts_of xxh r st' = parts_of xxh r st \<union> (if r = fq_request_id req then {fq_cur_part req} else {})"
proof -
  let ?i = "thread_of xxh (fq_request_id req)"
  obtain q where q: "put_queue req (fp_queues st ! ?i) = Some q" "st' = st\<lparr>fp_queues := (fp_queues st)[?i := q]\<rparr>"
    using assms(2) by (auto simp: Put_def Let_def split: option.splits)
  have i: "?i < length (fp_queues st)" using assms(1) thread_of_bound by (simp add: fpm_ok_def)
  show ?thesis
    using put_queue_parts [OF q(1), of r] q(2) i
    by (cases "thread_of xxh r = ?i") (auto simp: parts_of_def nth_list_update)
qed

fun put_all :: "(string \<Rightarrow> int) \<Rightarrow> FileReq list \<Rightarrow> fpm_st \<Rightarrow> fpm_st option" where
  "put_all xxh [] st = Some st"
| "put_all xxh (r # rs) st = (case Put xxh r st of None \<Rightarrow> None | Some st1 \<Rightarrow> put_all xxh rs st1)"

lemma put_all_parts:
  "fpm_ok st \<Longrightarrow> put_all xxh reqs st = Some st' \<Longrightarrow>
    fpm_ok st' \<and> parts_of xxh r st' =
      parts_of xxh r st \<union> fq_cur_part ` set (filter (\<lambda>q. fq_request_id q = r) reqs)"
proof (induction reqs arbitrary: st)
  case (Cons req reqs)
  obtain st1 where st1: "Put xxh req st = Some st1" "put_all xxh reqs st1 = Some st'"
    using Cons.prems(2) by (auto split: option.splits)
  show ?case
    using Cons.IH [OF Put_ok [OF Cons.prems(1) st1(1)] st1(2)] Put_parts [OF Cons.prems(1) st1(1), of r] by auto
qed simp

section \<open>Properties\<close>

text \<open>
  Whatever sequence of part notifications arrives, interleaved over any number of uploads and
  with repetitions, the process manager records for each request id exactly the set of parts that
  arrived for it.
\<close>

theorem Put_collects_parts:
  assumes "fpm_ok st" and "put_all xxh reqs st = Some st'"
  shows "parts_of xxh r st' = parts_of xxh r st \<union> fq_cur_part ` set (filter (\<lambda>q. fq_request_id q = r) reqs)"
  using put_all_parts [OF assms] by blast

definition demo_req :: "string \<Rightarrow> int \<Rightarrow> FileReq" where
  "demo_req rid part =
     \<lparr>fq_request_id = rid, fq_user = ''bob'', fq_token = ''t1'', fq_op = Op_FilePut, fq_repo_type = RT_Ocean,
      fq_repo_uuid = ''u1'', fq_repo_location = ''/a'', fq_repo_dir = '''', fq_cur_part = part, fq_size_per_part = 4,
      fq_file = File_default\<lparr>f_file_hash := ''abcd'', f_file_size := 10\<rparr>, fq_content = ''1234''\<rparr>"

definition demo_fpm :: fpm_st where
  "demo_fpm = \<lparr>fp_stop = False, fp_exits = [False, False, False, False], fp_queues = [[], [], [], []]\<rparr>"

lemma demo_req_fields: "fq_request_id (demo_req r p) = r" "fq_cur_part (demo_req r p) = p"
  by (simp_all add: demo_req_def)

theorem Put_collects_parts_witness:
  "\<exists>st'. put_all (\<lambda>_. 6) [demo_req ''r1'' 0, demo_req ''r2'' 1, demo_req ''r1'' 2, demo_req ''r1'' 0] demo_fpm = Some st'
    \<and> parts_of (\<lambda>_. 6) ''r1'' st' = {0, 2}"
proof -
  let ?reqs = "[demo_req ''r1'' 0, demo_req ''r2'' 1, demo_req ''r1'' 2, demo_req ''r1'' 0]"
  have ok: "fpm_ok demo_fpm" by code_simp
  have "put_all (\<lambda>_. 6) ?reqs demo_fpm \<noteq> None" by code_simp
  then obtain st' where run: "put_all (\<lambda>_. 6) ?reqs demo_fpm = Some st'" by blast
  have "parts_of (\<lambda>_. 6) ''r1'' demo_fpm = {}" by code_simp
  moreover have "fq_cur_part ` set (filter (\<lambda>q. fq_request_id q = ''r1'') ?reqs) = {0, 2}"
    by (auto simp: demo_req_fields)
  ultimately show ?thesis using Put_collects_parts [OF ok run, of "''r1''"] run by auto
qed

lemma WriteMeta_never_done:
  assumes "\<And>f. js_file_out J f \<noteq> None" and "WriteMeta B J H fmt junk ctx s = Some (fin, ctx1, s1)"
  shows "\<not> fin"
proof -
  have out: "\<exists>t. js_file_out J f = Some t" for f using assms(1) by auto
  show ?thesis
    using assms(2) out [of "rc_file ctx1"]
    by (auto simp: WriteMeta_def split: option.splits prod.splits bool.splits if_splits)
qed

lemma process_queue_keeps:
  assumes "\<And>f. js_file_out J f \<noteq> None"
  shows "process_queue B J H fmt junk q s = Some (q', s') \<Longrightarrow> map fst q' = map fst q"
proof (induction q arbitrary: s q' s')
  case (Cons a q)
  obtain k ctx where a: "a = (k, ctx)" by (cases a)
  obtain fin ctx1 s1 where one: "DoProcess_ctx B J H fmt junk ctx s = Some (fin, ctx1, s1)"
    using Cons.prems a by (cases "DoProcess_ctx B J H fmt junk ctx s") auto
  have "\<not> fin"
    using one assms WriteMeta_never_done [of J B H fmt junk ctx s fin ctx1 s1]
    by (auto simp: DoProcess_ctx_def split: if_splits)
  then show ?case using Cons a one by auto
qed simp

text \<open>
  As long as JSON conversion works, no upload is ever finished: \<^verbatim>\<open>WriteMeta\<close> takes the success of
  \<^verbatim>\<open>MessageToConciseJson\<close> for a failure, so a pass over a queue erases nothing and the queues only
  grow.
\<close>

theorem DoProcess_never_erases:
  assumes "json_codec J" and "DoProcess B J H fmt junk i (st, s) = Some (st', s')" and "i < length (fp_queues st)"
  shows "map (map fst) (fp_queues st') = map (map fst) (fp_queues st)"
proof -
  obtain q where q: "process_queue B J H fmt junk (fp_queues st ! i) s = Some (q, s')"
    "st' = st\<lparr>fp_queues := (fp_queues st)[i := q]\<rparr>"
    using assms(2) by (auto simp: DoProcess_def)
  have "map fst q = map fst (fp_queues st ! i)"
    using process_queue_keeps [OF json_codec.file_out [OF assms(1)] q(1)] .
  then show ?thesis using q(2) assms(3) by (simp add: map_update list_update_same_conv)
qed

theorem DoProcess_never_erases_witness:
  "\<exists>st' s'. DoProcess boost_ref json_ref (b3_buffer (\<lambda>b. b)) hex_pad True 2
      (the (Put (\<lambda>_. 2) ((demo_req ''r1'' 0)\<lparr>fq_size_per_part := 10\<rparr>) demo_fpm), demo_fs) = Some (st', s')
    \<and> map (map fst) (fp_queues st') = [[], [], [''r1''], []]"
proof -
  let ?st = "the (Put (\<lambda>_. 2) ((demo_req ''r1'' 0)\<lparr>fq_size_per_part := 10\<rparr>) demo_fpm)"
  have "DoProcess boost_ref json_ref (b3_buffer (\<lambda>b. b)) hex_pad True 2 (?st, demo_fs) \<noteq> None" by code_simp
  then obtain st' s' where run: "DoProcess boost_ref json_ref (b3_buffer (\<lambda>b. b)) hex_pad True 2 (?st, demo_fs) = Some (st', s')"
    by (metis option.exhaust prod.exhaust)
  have "length (fp_queues ?st) = 4" "map (map fst) (fp_queues ?st) = [[], [], [''r1''], []]" by code_simp+
  then show ?thesis using DoProcess_never_erases [OF jref.json_codec_axioms run] run by simp
qed

end
