(* ===== verification/PartStore.thy ===== *)
theory PartStore
  imports UtilFile
begin

text \<open>
  Storing a file in parts: what a receiver of parts promises for one part, and that it then has the
  file as soon as every part has arrived, in any order and with any repetitions.  The receivers
  are \<^verbatim>\<open>RepoManager::WriteToFile\<close> and \<^verbatim>\<open>SyncManager::WriteToFile\<close>.
\<close>

section \<open>The range of a part\<close>

lemma part_range:
  assumes "0 < ps" and "i * ps < length d" and "int (length d) + int ps < 2 ^ 63"
  shows "\<exists>en. CalcPartitionStart (int (length d)) (int i) (int ps) = (int (i * ps), en)
    \<and> (en - int (i * ps) + 1 = int (length (part_data ps d i)) \<longleftrightarrow> i * ps + ps \<noteq> length d + 1)"
proof -
  have le: "int (i * ps) < int (length d)" using assms(2) by (simp only: of_nat_less_iff)
  have "CalcPartitionStart (int (length d)) (int i) (int ps) =
    (int i * int ps, if int i * int ps + int ps - 1 > int (length d) then int (length d) - 1
      else int i * int ps + int ps - 1)"
    using assms le by (intro CalcPartitionStart_value) auto
  then show ?thesis
    using le assms(1) length_part [OF assms(2)]
    by (auto simp: min_def of_nat_diff simp flip: of_nat_mult split: if_splits)
qed

lemma parts_fit:
  assumes "ps = 1 \<or> \<not> ps dvd length d + 1" and "i * ps < length d"
  shows "i * ps + ps \<noteq> length d + 1"
proof
  assume eq: "i * ps + ps = length d + 1"
  then have "ps * (i + 1) = length d + 1" by (simp add: mult.commute)
  then have "ps dvd length d + 1" by (metis dvd_triv_left)
  then show False using assms eq by auto
qed

lemma part_bytes: "0 < ps \<Longrightarrow> (i * ps \<le> j \<and> j < i * ps + ps) = (j div ps = (i::nat))"
  by (metis add.commute div_nat_eqI dividend_less_times_div less_eq_div_iff_mult_less_eq
      mult.commute mult_Suc order_refl)

section \<open>Receivers\<close>

text \<open>Handing the parts to a receiver one after the other; \<open>None\<close>: the receiver crashed.\<close>

fun store_parts :: "('i \<Rightarrow> 'w \<Rightarrow> (int \<times> 'w) option) \<Rightarrow> 'i list \<Rightarrow> 'w \<Rightarrow> (int list \<times> 'w) option" where
  "store_parts put [] w = Some ([], w)"
| "store_parts put (i # is) w =
     (case put i w of
        None \<Rightarrow> None
      | Some (ret, w1) \<Rightarrow> map_option (\<lambda>(rets, w2). (ret # rets, w2)) (store_parts put is w1))"

lemma store_parts_map: "store_parts put (map f is) w = store_parts (\<lambda>i. put (f i)) is w"
  by (induction "is" arbitrary: w) (simp_all split: option.splits)

text \<open>
  A receiver for the parts of the content \<open>d\<close> in pieces of \<open>ps\<close> bytes, and where it keeps the file.
\<close>

record 'w receiver =
  rv_put :: "nat \<Rightarrow> 'w \<Rightarrow> (int \<times> 'w) option"
  rv_fs :: "'w \<Rightarrow> fs"
  rv_path :: string
  rv_place :: fpath
  rv_data :: bytes
  rv_size :: nat

definition has_bytes :: "'w receiver \<Rightarrow> 'w \<Rightarrow> bytes \<Rightarrow> bool" where
  "has_bytes R w x \<longleftrightarrow>
     reg_file (rv_fs R w) (rv_path R) (rv_place R) x \<and> fs_faults (rv_fs R w) = [] \<and> length x = length (rv_data R)"

definition stores_part :: "'w receiver \<Rightarrow> nat \<Rightarrow> 'w \<Rightarrow> bytes \<Rightarrow> bool" where
  "stores_part R i w x \<longleftrightarrow>
     (\<exists>w' x'. rv_put R i w = Some (Err_Success, w') \<and> has_bytes R w' x'
        \<and> (\<forall>j < length (rv_data R). x' ! j = (if j div rv_size R = i then rv_data R ! j else x ! j)))"

definition part_fits :: "'w receiver \<Rightarrow> nat \<Rightarrow> bool" where
  "part_fits R i \<longleftrightarrow> i * rv_size R < length (rv_data R) \<and> i * rv_size R + rv_size R \<noteq> length (rv_data R) + 1"

text \<open>
  \<open>valid\<close> is what the requests and the setting have to satisfy, \<open>fresh\<close> a state in which the file is
  not yet there.
\<close>

locale part_store =
  fixes R :: "'w receiver" and valid :: bool and fresh :: "'w \<Rightarrow> bool"
  assumes store_next: "valid \<Longrightarrow> part_fits R i \<Longrightarrow> has_bytes R w x \<Longrightarrow> stores_part R i w x"
    and store_first: "valid \<Longrightarrow> part_fits R i \<Longrightarrow> fresh w
      \<Longrightarrow> stores_part R i w (replicate (length (rv_data R)) (CHR 0x00))"
begin

lemma store_rest:
  assumes "valid" and "\<forall>i \<in> set is. part_fits R i" and "has_bytes R w x"
  shows "\<exists>rets w' x'. store_parts (rv_put R) is w = Some (rets, w') \<and> (\<forall>r \<in> set rets. r = Err_Success)
    \<and> has_bytes R w' x'
    \<and> (\<forall>j < length (rv_data R). x' ! j = (if j div rv_size R \<in> set is then rv_data R ! j else x ! j))"
  using assms(2,3)
proof (induction "is" arbitrary: w x)
  case (Cons i "is")
  obtain w1 x1 where one: "rv_put R i w = Some (Err_Success, w1)" "has_bytes R w1 x1"
    "\<forall>j < length (rv_data R). x1 ! j = (if j div rv_size R = i then rv_data R ! j else x ! j)"
    using store_next [OF assms(1) _ Cons.prems(2), of i] Cons.prems(1) by (auto simp: stores_part_def)
  obtain rets w' x' where "store_parts (rv_put R) is w1 = Some (rets, w')" "\<forall>r \<in> set rets. r = Err_Success"
    "has_bytes R w' x'"
    "\<forall>j < length (rv_data R). x' ! j = (if j div rv_size R \<in> set is then rv_data R ! j else x1 ! j)"
    using Cons.IH [OF _ one(2)] Cons.prems(1) by auto
  then show ?case
    using one by (intro exI [of _ "Err_Success # rets"] exI [of _ w'] exI [of _ x']) auto
qed auto

lemma all_parts:
  assumes "valid" and "fresh w" and "rv_data R \<noteq> []" and "\<forall>i \<in> set is. part_fits R i"
    and "\<forall>i. i * rv_size R < length (rv_data R) \<longrightarrow> i \<in> set is"
  shows "\<exists>rets w'. store_parts (rv_put R) is w = Some (rets, w') \<and> (\<forall>r \<in> set rets. r = Err_Success)
    \<and> has_bytes R w' (rv_data R)"
proof -
  have "0 \<in> set is" using assms(3,5) by simp
  then obtain i ist where "is": "is = i # ist" by (cases "is") auto
  obtain w1 x1 where one: "rv_put R i w = Some (Err_Success, w1)" "has_bytes R w1 x1"
    "\<forall>j < length (rv_data R). x1 ! j = (if j div rv_size R = i then rv_data R ! j else replicate (length (rv_data R)) (CHR 0x00) ! j)"
    using store_first [OF assms(1) _ assms(2), of i] assms(4) "is" by (auto simp: stores_part_def)
  obtain rets w' x' where rest: "store_parts (rv_put R) ist w1 = Some (rets, w')" "\<forall>r \<in> set rets. r = Err_Success"
    "has_bytes R w' x'"
    and bytes: "\<forall>j < length (rv_data R). x' ! j = (if j div rv_size R \<in> set ist then rv_data R ! j else x1 ! j)"
    using store_rest [OF assms(1) _ one(2), of ist] assms(4) "is" by auto
  have "x' ! j = rv_data R ! j" if j: "j < length (rv_data R)" for j
  proof (cases "j div rv_size R \<in> set ist")
    case False
    have "j div rv_size R * rv_size R < length (rv_data R)" using j div_times_less_eq_dividend le_less_trans by blast
    then have "j div rv_size R = i" using False assms(5) "is" by auto
    then show ?thesis using bytes one(3) False j by simp
  qed (use bytes j in auto)
  then have "x' = rv_data R" using rest(3) by (simp add: has_bytes_def nth_equalityI)
  then show ?thesis using one(1) rest "is" by auto
qed

end

end
