(* ===== verification/RepoManager.thy ===== *)
theory RepoManager
  imports FileProcess PartStore
begin

text \<open>
  The repository manager, \<^verbatim>\<open>src/src/impl/repo_manager.h\<close>: the table of repositories, its JSON file
  with a backup copy, listing and creating directories, and the storage of file parts.  Each use of
  the table runs under \<^verbatim>\<open>lock_\<close>, so it is one step.  Identifiers and the printed time are arguments.
  A result \<open>None\<close> is an exception that leaves the function (or, in \<^verbatim>\<open>WriteToFile\<close>, the division by
  zero in \<^verbatim>\<open>FilePartitionNum\<close>).
\<close>

record repo_st =
  rp_repos :: Repos
  rp_config :: string
  rp_tmp :: string
  rp_stop :: bool
  rp_changes :: nat

definition Repo_Init :: "json_api \<Rightarrow> string \<Rightarrow> fs \<Rightarrow> repo_st \<Rightarrow> (bool \<times> repo_st) option" where
  "Repo_Init J home_dir s st =
     (let st1 = st\<lparr>rp_config := home_dir @ ''/data/repos.json'', rp_tmp := home_dir @ ''/data/repos.tmp.json''\<rparr>
      in if Exists s (rp_config st1) then
           (case LoadSmallFile s (rp_config st1) '''' of
              Inl e \<Rightarrow> None
            | Inr (ret, content) \<Rightarrow>
                if ret then
                  (case js_repos_in J content (rp_repos st1) of
                     None \<Rightarrow> Some (False, st1)
                   | Some R \<Rightarrow> Some (True, st1\<lparr>rp_repos := R\<rparr>))
                else Some (True, st1))
         else Some (True, st1))"

definition Repo_Stop :: "repo_st \<Rightarrow> repo_st" where
  "Repo_Stop st = st\<lparr>rp_stop := True\<rparr>"

text \<open>Up to three attempts to write the file.\<close>

definition write_thrice :: "string \<Rightarrow> string \<Rightarrow> fs \<Rightarrow> bool \<times> fs" where
  "write_thrice path content s =
     (case WriteToFile path content False s of
        (r1, s1) \<Rightarrow>
          if r1 = Err_Success then (True, s1)
          else case WriteToFile path content False s1 of
            (r2, s2) \<Rightarrow>
              if r2 = Err_Success then (True, s2)
              else case WriteToFile path content False s2 of
                (r3, s3) \<Rightarrow> (r3 = Err_Success, s3))"

definition FlushRepoMeta :: "json_api \<Rightarrow> repo_st \<Rightarrow> fs \<Rightarrow> bool \<times> fs" where
  "FlushRepoMeta J st s =
     (let had = Exists s (rp_config st);
          (copied, s1) = (if had then CopyFile (rp_config st) (rp_tmp st) Copy_overwrite_existing s else (False, s))
      in if had \<and> \<not> copied then (False, s1)
         else case js_repos_out J (rp_repos st) of
                None \<Rightarrow> (False, s1)
              | Some content \<Rightarrow>
                  (case write_thrice (rp_config st) content s1 of
                     (True, s2) \<Rightarrow> (True, s2)
                   | (False, s2) \<Rightarrow>
                       if Exists s2 (rp_tmp st) \<and> copied
                       then (False, snd (CopyFile (rp_tmp st) (rp_config st) Copy_overwrite_existing s2))
                       else (False, s2)))"

definition ShouldFlushRepoMeta :: "repo_st \<Rightarrow> bool" where
  "ShouldFlushRepoMeta st \<longleftrightarrow> rp_changes st \<noteq> 0"

text \<open>
  One round of \<^verbatim>\<open>FlushRepoMetaTask\<close>.  The task holds \<^verbatim>\<open>lock_\<close>, a spin lock that is not reentrant,
  when it calls \<^verbatim>\<open>FlushRepoMeta\<close>, which takes the same lock: \<open>None\<close> is that deadlock.
\<close>

definition FlushRepoMetaTask_round :: "json_api \<Rightarrow> repo_st \<Rightarrow> fs \<Rightarrow> (repo_st \<times> fs) option" where
  "FlushRepoMetaTask_round J st s = (if ShouldFlushRepoMeta st then None else Some (st, s))"

section \<open>Listing\<close>

definition ListUserRepo :: "RepoReq \<Rightarrow> RepoRes \<Rightarrow> repo_st \<Rightarrow> int \<times> RepoRes" where
  "ListUserRepo req res st =
     (if rp_repos st = [] then (Err_Success, res)
      else (Err_Success,
            res\<lparr>rs_repos := fold (\<lambda>(k, m) out. if rm_owner m \<noteq> rq_user req then out else pmap_insert k m out)
                              (rp_repos st) (rs_repos res)\<rparr>))"

definition dir_or_root :: "string \<Rightarrow> string" where
  "dir_or_root path = (if path = '''' then ''/'' else path)"

definition entry_file :: "fs \<Rightarrow> fpath \<Rightarrow> string \<Rightarrow> File" where
  "entry_file s dir name =
     (let file = File_default\<lparr>f_file_name := name\<rparr>
      in case kind_at (fs_nodes s) (dir @ [name]) of
           Some (KLink t) \<Rightarrow> file\<lparr>f_file_type := FT_Symlink\<rparr>
         | Some (KReg d) \<Rightarrow> file\<lparr>f_file_type := FT_Regular\<rparr>
         | Some KDir \<Rightarrow> file\<lparr>f_file_type := FT_Direcotry\<rparr>
         | _ \<Rightarrow> file)"

definition ListServerDir :: "RepoReq \<Rightarrow> RepoRes \<Rightarrow> fs \<Rightarrow> int \<times> RepoRes" where
  "ListServerDir req res s =
     (let path = dir_or_root (rq_dir req)
      in case fs_list_dir s path of
           Inl e \<Rightarrow> (Err_Fail, res)
         | Inr names \<Rightarrow>
             (case resolve s True path of
                Inl e \<Rightarrow> (Err_Fail, res)
              | Inr dir \<Rightarrow> (Err_Success, res\<lparr>rs_files := rs_files res @ map (entry_file s dir) names\<rparr>)))"

definition CreateServerDir :: "RepoReq \<Rightarrow> fs \<Rightarrow> int \<times> fs" where
  "CreateServerDir req s =
     (case Mkdir (dir_or_root (rq_dir req)) s of (ok, s1) \<Rightarrow> (if ok then Err_Success else Err_Fail, s1))"

section \<open>Creating and restoring repositories\<close>

text \<open>The flag and the uuid found; \<open>Inl\<close> is an exception of the directory queries.\<close>

definition ExistsRepo :: "string \<Rightarrow> fs \<Rightarrow> errno + bool \<times> string" where
  "ExistsRepo path s =
     (let dir = path @ ''/'' @ CONFIG_DIR
      in if \<not> Exists s dir then Inr (False, '''')
         else case fs_is_symlink s dir of
                Inl e \<Rightarrow> Inl e
              | Inr True \<Rightarrow> Inr (False, '''')
              | Inr False \<Rightarrow>
                  (case fs_is_directory s dir of
                     Inl e \<Rightarrow> Inl e
                   | Inr False \<Rightarrow> Inr (False, '''')
                   | Inr True \<Rightarrow>
                       (case (fs_list_dir s dir, resolve s True dir) of
                          (Inr names, Inr d) \<Rightarrow>
                            (case filter (\<lambda>n. (case kind_at (fs_nodes s) (d @ [n]) of
                                                 Some (KLink t) \<Rightarrow> False | Some KDir \<Rightarrow> False | _ \<Rightarrow> True)
                                              \<and> path_extension n = ''.repo'') names of
                               [] \<Rightarrow> Inr (False, '''')
                             | n # _ \<Rightarrow> Inr (True, path_stem n))
                        | (Inl e, _) \<Rightarrow> Inl e
                        | (_, Inl e) \<Rightarrow> Inl e)))"

definition repo_file_name :: "string \<Rightarrow> string \<Rightarrow> string" where
  "repo_file_name path uuid = path @ ''/'' @ CONFIG_DIR @ ''/'' @ uuid @ ''.repo''"

definition RestoreRepo ::
  "json_api \<Rightarrow> string \<Rightarrow> RepoMeta \<Rightarrow> repo_st \<Rightarrow> fs \<Rightarrow> (bool \<times> RepoMeta \<times> repo_st \<times> fs) option" where
  "RestoreRepo J path repo st s =
     (case LoadSmallFile s (repo_file_name path (rm_repo_uuid repo)) '''' of
        Inl e \<Rightarrow> None
      | Inr (False, content) \<Rightarrow> Some (False, repo, st, s)
      | Inr (True, content) \<Rightarrow>
          (case js_repo_in J content repo of
             None \<Rightarrow> Some (False, repo, st, s)
           | Some repo1 \<Rightarrow>
               let repo2 = (if path \<noteq> rm_repo_location repo1 then repo1\<lparr>rm_repo_location := path\<rparr> else repo1)
               in (case map_of (rp_repos st) (rm_repo_uuid repo2) of
                     Some _ \<Rightarrow> Some (True, repo2, st, s)
                   | None \<Rightarrow>
                       let st1 = st\<lparr>rp_repos := AList.update (rm_repo_uuid repo2) repo2 (rp_repos st)\<rparr>
                       in (case FlushRepoMeta J st1 s of (ok, s1) \<Rightarrow> Some (ok, repo2, st1, s1)))))"

text \<open>\<^verbatim>\<open>RestoreRepo(path)\<close>, which looks for the uuid itself.\<close>

definition RestoreRepo_path ::
  "json_api \<Rightarrow> string \<Rightarrow> repo_st \<Rightarrow> fs \<Rightarrow> (bool \<times> repo_st \<times> fs) option" where
  "RestoreRepo_path J path st s =
     (case ExistsRepo path s of
        Inl e \<Rightarrow> None
      | Inr (False, u) \<Rightarrow> Some (False, st, s)
      | Inr (True, u) \<Rightarrow>
          map_option (\<lambda>(ok, r, st1, s1). (ok, st1, s1))
            (RestoreRepo J path (RepoMeta_default\<lparr>rm_repo_uuid := u\<rparr>) st s))"

text \<open>What a call of \<^verbatim>\<open>CreateRepo\<close> draws: two uuids and the printed current time.\<close>

record repo_env =
  re_uuid :: string
  re_location_uuid :: string
  re_time :: string

text \<open>
  Note the comparison \<^verbatim>\<open>RestoreRepo(...) == Err_Success\<close>: a \<^verbatim>\<open>bool\<close> against the code 0.
\<close>

definition CreateRepo ::
  "json_api \<Rightarrow> repo_env \<Rightarrow> RepoReq \<Rightarrow> RepoRes \<Rightarrow> repo_st \<Rightarrow> fs \<Rightarrow> (int \<times> RepoRes \<times> repo_st \<times> fs) option" where
  "CreateRepo J e req res st s =
     (case ExistsRepo (rq_dir req) s of
        Inl err \<Rightarrow> None
      | Inr (True, u) \<Rightarrow>
          (case RestoreRepo J (rq_dir req) (RepoMeta_default\<lparr>rm_repo_uuid := u\<rparr>) st s of
             None \<Rightarrow> None
           | Some (ok, repo, st1, s1) \<Rightarrow>
               if (if ok then 1 else 0) = Err_Success
               then Some (Err_Success, res\<lparr>rs_repos := pmap_insert (rm_repo_uuid repo) repo (rs_repos res)\<rparr>, st1, s1)
               else Some (Err_Fail, res, st1, s1))
      | Inr (False, u) \<Rightarrow>
          (let repo = \<lparr>rm_repo_name = rq_repo_name req, rm_repo_location = rq_dir req, rm_repo_uuid = re_uuid e,
                 rm_repo_location_uuid = re_location_uuid e, rm_create_time = re_time e,
                 rm_update_time = re_time e, rm_owner = rq_user req\<rparr>
           in case js_repo_out J repo of
                None \<Rightarrow> Some (Err_Fail, res, st, s)
              | Some content \<Rightarrow>
                  (case WriteToFile (repo_file_name (rq_dir req) (rm_repo_uuid repo)) content False s of
                     (ret, s1) \<Rightarrow>
                       if ret \<noteq> 0 then Some (ret, res, st, s1)
                       else let st1 = st\<lparr>rp_repos := pmap_insert (rm_repo_uuid repo) repo (rp_repos st)\<rparr>
                            in (case FlushRepoMeta J st1 s1 of
                                  (False, s2) \<Rightarrow>
                                    Some (Err_Fail, res,
                                      st1\<lparr>rp_repos := AList.delete (rm_repo_uuid repo) (rp_repos st1)\<rparr>, s2)
                                | (True, s2) \<Rightarrow>
                                    Some (Err_Success,
                                      res\<lparr>rs_repos := pmap_insert (rm_repo_uuid repo) repo (rs_repos res)\<rparr>,
                                      st1, s2)))))"

definition DeleteRepo :: "json_api \<Rightarrow> RepoReq \<Rightarrow> repo_st \<Rightarrow> fs \<Rightarrow> int \<times> repo_st \<times> fs" where
  "DeleteRepo J req st s =
     (case map_of (rp_repos st) (rq_repo_uuid req) of
        None \<Rightarrow> (Err_Success, st, s)
      | Some _ \<Rightarrow>
          let st1 = st\<lparr>rp_repos := AList.delete (rq_repo_uuid req) (rp_repos st)\<rparr>
          in (case FlushRepoMeta J st1 s of (ok, s1) \<Rightarrow> (if ok then Err_Success else Err_Fail, st1, s1)))"

definition RepoMetaByUUID :: "string \<Rightarrow> repo_st \<Rightarrow> RepoMeta option" where
  "RepoMetaByUUID uuid st = map_of (rp_repos st) uuid"

definition GetRepoDir :: "RepoReq \<Rightarrow> int" where
  "GetRepoDir req = Err_File_not_exists"

definition ListRepoDir :: "RepoReq \<Rightarrow> int" where
  "ListRepoDir req =
     (if rq_repo_uuid req = '''' then Err_Fail
      else if GetRepoDir req \<noteq> 0 then Err_Fail else Err_Success)"

definition sql_media_files :: string where
  "sql_media_files = ''SELECT hash, local_id, device_id, create_time, update_time, duration, type, width, height, file_name, favorite, owner, live_photo_video_hash, deleted, thumb_hash FROM files;''"

definition ListRepoMediaFiles :: "'d sqlite_api \<Rightarrow> 'd sqlite_mgr \<Rightarrow> int option \<times> 'd sqlite_mgr" where
  "ListRepoMediaFiles A m =
     (case Select A FilesRow_Extract sql_media_files [] m of
        ((ret, rows), m1) \<Rightarrow>
          (case rows of None \<Rightarrow> None | Some _ \<Rightarrow> Some (if ret \<noteq> 0 then Err_Fail else Err_Success), m1))"

definition RepoFileExists :: "RepoReq \<Rightarrow> int" where
  "RepoFileExists req = Err_File_not_exists"

section \<open>Reading and writing file parts\<close>

definition ReadFile :: "boost_api \<Rightarrow> FileReq \<Rightarrow> string \<Rightarrow> repo_st \<Rightarrow> fs \<Rightarrow> (int \<times> string) option" where
  "ReadFile B req content st s =
     (if fq_repo_uuid req = '''' then Some (Err_Fail, content)
      else case RepoMetaByUUID (fq_repo_uuid req) st of
             None \<Rightarrow> Some (Err_Repo_not_exists, content)
           | Some meta \<Rightarrow>
               (case RepoFilePath B (rm_repo_location meta) (f_file_hash (fq_file req)) of
                  None \<Rightarrow> None
                | Some path \<Rightarrow>
                    if path = '''' then Some (Err_Fail, content)
                    else (case LoadSmallFile s path content of
                            Inl e \<Rightarrow> None
                          | Inr (ok, c) \<Rightarrow> Some (if ok then Err_Success else Err_Fail, c))))"

definition Repo_WriteToFile ::
  "boost_api \<Rightarrow> (string \<Rightarrow> int) \<Rightarrow> repo_st \<Rightarrow> FileReq \<Rightarrow> fs \<times> fpm_st \<Rightarrow> (int \<times> fs \<times> fpm_st) option" where
  "Repo_WriteToFile B xxh st req = (\<lambda>(s, fp).
     if fq_repo_uuid req = '''' then Some (Err_Fail, s, fp)
     else case RepoMetaByUUID (fq_repo_uuid req) st of
            None \<Rightarrow> Some (Err_Repo_not_exists, s, fp)
          | Some meta \<Rightarrow>
              (case RepoFilePath B (rm_repo_location meta) (f_file_hash (fq_file req)) of
                 None \<Rightarrow> None
               | Some path \<Rightarrow>
                   if path = '''' then Some (Err_Fail, s, fp)
                   else let (_, s1) = MkParentDir path s;
                            fsize = to_i64 (f_file_size (fq_file req))
                        in (case CreateFileWithSize path fsize s1 of
                              Inl e \<Rightarrow> None
                            | Inr (err_code, s2) \<Rightarrow>
                                if err_code \<noteq> Err_Success then Some (err_code, s2, fp)
                                else (case CalcPartitionStart fsize (fq_cur_part req) (fq_size_per_part req) of
                                        (start, en) \<Rightarrow>
                                          if en - start + 1 \<noteq> int (length (fq_content req))
                                          then Some (Err_Fail, s2, fp)
                                          else (case WriteToFile_at path (fq_content req) start s2 of
                                                  (ret, s3) \<Rightarrow>
                                                    if ret \<noteq> 0 then Some (ret, s3, fp)
                                                    else map_option (\<lambda>fp'. (ret, s3, fp')) (Put xxh req fp))))))"

definition CreateRepoFile :: "ReceiveContext \<Rightarrow> repo_st \<Rightarrow> int" where
  "CreateRepoFile ctx st =
     (case RepoMetaByUUID (rc_repo_uuid ctx) st of None \<Rightarrow> Err_Fail | Some _ \<Rightarrow> Err_Success)"

section \<open>Uploading a file in parts\<close>

text \<open>The request that carries part \<open>i\<close> of the content \<open>d\<close>, cut in pieces of \<open>ps\<close> bytes.\<close>

definition part_req :: "FileReq \<Rightarrow> nat \<Rightarrow> bytes \<Rightarrow> nat \<Rightarrow> FileReq" where
  "part_req req ps d i =
     req\<lparr>fq_cur_part := int i, fq_size_per_part := int ps, fq_content := part_data ps d i,
         fq_file := (fq_file req)\<lparr>f_file_size := int (length d)\<rparr>\<rparr>"

definition upload ::
  "boost_api \<Rightarrow> (string \<Rightarrow> int) \<Rightarrow> repo_st \<Rightarrow> FileReq list \<Rightarrow> fs \<times> fpm_st \<Rightarrow> (int list \<times> fs \<times> fpm_st) option" where
  "upload B xxh st = store_parts (Repo_WriteToFile B xxh st)"

lemma MkParentDir_existing:
  assumes "reg_file s path p x" and "p \<noteq> []"
  shows "MkParentDir path s = (True, s)"
proof -
  have wf: "fs_wf s" and pa: "plain_at path p" using assms(1) by (auto simp: reg_file_def)
  note par = plain_at_parent [OF pa assms(2)]
  have "good_at (fs_nodes s) p" using assms(1) by (auto simp: reg_file_def fs_wf_def intro: wf_good)
  then have "is_dir (fs_nodes s) (butlast p)" using assms(2) by (simp add: good_at_def)
  then have "Exists s (parent_path path)" using dir_status [OF wf par(2)] by (simp add: Exists_iff)
  then show ?thesis using par(1) by (simp add: MkParentDir_def Mkdir_def)
qed

lemma CreateFileWithSize_existing: "reg_file s path p x \<Longrightarrow> CreateFileWithSize path n s = Inr (Err_Success, s)"
  by (simp add: CreateFileWithSize_def reg_file_status)

lemma CreateFileWithSize_new:
  assumes "free_name s path p" and "fs_faults s = []"
  shows "\<exists>s'. CreateFileWithSize path (int n) s = Inr (Err_Success, s')
    \<and> reg_file s' path p (replicate n (CHR 0x00)) \<and> fs_faults s' = []"
proof -
  let ?s1 = "put_node p (new_node s (KReg [])) s"
  have r1: "reg_file ?s1 path p []" by (rule new_file_reg [OF assms(1)])
  have nf1: "fs_faults ?s1 = []" using assms(2) by (simp add: put_node_def)
  let ?s2 = "set_content p (replicate n (CHR 0x00)) ?s1"
  have "sys_ftruncate p (int n) ?s1 = (None, ?s2)"
    using nf1 reg_file_content [OF r1] by (simp add: sys_ftruncate_def fs_simps resize_to_def)
  then have "CreateFileWithSize path (int n) s = Inr (Err_Success, ?s2)"
    using free_name_status [OF assms(1)] open_new [OF assms]
    by (simp add: CreateFileWithSize_def)
  then show ?thesis using set_content_reg_file [OF r1] nf1 by (auto simp: fs_simps)
qed

lemma create_upload_file:
  assumes "fs_wf s" and "fs_faults s = []" and "plain_at path p" and "writable (fs_nodes s) p"
    and "kind_at (fs_nodes s) p = None"
  shows "\<exists>s1 s2 b. MkParentDir path s = (b, s1) \<and> CreateFileWithSize path (int n) s1 = Inr (Err_Success, s2)
    \<and> reg_file s2 path p (replicate n (CHR 0x00)) \<and> fs_faults s2 = []"
proof -
  have p: "p \<noteq> []" "dirs_open (fs_nodes s) (butlast p)" using assms(4) by (auto simp: writable_def)
  note par = plain_at_parent [OF assms(3) p(1)]
  obtain s1 where mk: "Mkdir (parent_path path) s = (True, s1)" "dirs_made (butlast p) s s1"
    using Mkdir_plain [OF assms(1,2) par(2) p(2)] by blast
  have "free_name s1 path p"
    using mk(2) assms(3,5) p(1) not_prefix_butlast [OF p(1)]
    by (simp add: free_name_def dirs_made_def is_dir_def)
  moreover have "fs_faults s1 = []" using mk(2) assms(2) by (simp add: dirs_made_def)
  ultimately obtain s2 where "CreateFileWithSize path (int n) s1 = Inr (Err_Success, s2)"
    "reg_file s2 path p (replicate n (CHR 0x00))" "fs_faults s2 = []"
    using CreateFileWithSize_new by blast
  then show ?thesis using mk(1) par(1) by (auto simp: MkParentDir_def)
qed

lemma Put_total:
  assumes "fq_size_per_part req \<noteq> 0"
  shows "\<exists>fp'. Put xxh req fp = Some fp'"
  using assms by (simp add: Put_def put_queue_def FilePartitionNum_def Let_def split: option.splits)

text \<open>What a request needs to reach the file \<open>path\<close>: its repository is registered.\<close>

definition routed :: "boost_api \<Rightarrow> repo_st \<Rightarrow> FileReq \<Rightarrow> string \<Rightarrow> bool" where
  "routed B st req path \<longleftrightarrow>
     fq_repo_uuid req \<noteq> '''' \<and> path \<noteq> ''''
     \<and> (\<exists>meta. RepoMetaByUUID (fq_repo_uuid req) st = Some meta
          \<and> RepoFilePath B (rm_repo_location meta) (f_file_hash (fq_file req)) = Some path)"

lemma routed_part: "routed B st (part_req req ps d i) path \<longleftrightarrow> routed B st req path"
  by (simp add: routed_def part_req_def)

lemma Repo_WriteToFile_routed:
  assumes "routed B st req path" and "MkParentDir path s = (b, s1)"
    and "CreateFileWithSize path (to_i64 (f_file_size (fq_file req))) s1 = Inr (Err_Success, s2)"
  shows "Repo_WriteToFile B xxh st req (s, fp) =
    (case CalcPartitionStart (to_i64 (f_file_size (fq_file req))) (fq_cur_part req) (fq_size_per_part req) of
       (start, en) \<Rightarrow>
         if en - start + 1 \<noteq> int (length (fq_content req)) then Some (Err_Fail, s2, fp)
         else (case WriteToFile_at path (fq_content req) start s2 of
                 (ret, s3) \<Rightarrow>
                   if ret \<noteq> 0 then Some (ret, s3, fp)
                   else map_option (\<lambda>fp'. (ret, s3, fp')) (Put xxh req fp)))"
  using assms by (auto simp: Repo_WriteToFile_def routed_def Let_def)

lemma file_size_id: "int (length d) + int ps < 2 ^ 63 \<Longrightarrow> to_i64 (int (length d)) = int (length d)"
  by (rule to_i64_small) auto

text \<open>Storing one part in a file that exists in its final size.\<close>

lemma store_part:
  assumes "routed B st req path" and "MkParentDir path s = (b, s1)"
    and "CreateFileWithSize path (int (length d)) s1 = Inr (Err_Success, s2)"
    and "reg_file s2 path p x" and "fs_faults s2 = []" and "length x = length d"
    and "0 < ps" and "i * ps < length d" and "int (length d) + int ps < 2 ^ 63" and "i * ps + ps \<noteq> length d + 1"
  shows "\<exists>s' fp' x'. Repo_WriteToFile B xxh st (part_req req ps d i) (s, fp) = Some (Err_Success, s', fp')
    \<and> reg_file s' path p x' \<and> fs_faults s' = [] \<and> length x' = length d
    \<and> (\<forall>j < length d. x' ! j = (if i * ps \<le> j \<and> j < i * ps + ps then d ! j else x ! j))"
proof -
  let ?r = "part_req req ps d i"
  have fields: "to_i64 (f_file_size (fq_file ?r)) = int (length d)" "fq_cur_part ?r = int i"
    "fq_size_per_part ?r = int ps" "fq_content ?r = part_data ps d i"
    using file_size_id [OF assms(9)] by (simp_all add: part_req_def)
  obtain en where cp: "CalcPartitionStart (int (length d)) (int i) (int ps) = (int (i * ps), en)"
    "en - int (i * ps) + 1 = int (length (part_data ps d i))"
    using part_range [OF assms(7-9)] assms(10) by blast
  obtain s' x' where wr: "WriteToFile_at path (part_data ps d i) (int (i * ps)) s2 = (Err_Success, s')"
    and x': "reg_file s' path p x'" "fs_faults s' = []" "length x' = length d"
      "\<forall>j < length d. x' ! j = (if i * ps \<le> j \<and> j < i * ps + ps then d ! j else x ! j)"
    using write_part_ok [OF assms(4-6,8)] by blast
  obtain fp' where put: "Put xxh ?r fp = Some fp'" using Put_total [of ?r xxh fp] fields(3) assms(7) by auto
  have "Repo_WriteToFile B xxh st ?r (s, fp) = Some (Err_Success, s', fp')"
    using Repo_WriteToFile_routed [of B st ?r path s b s1 s2 xxh fp] assms(1-3) fields cp wr put
    by (simp add: routed_part err_defs)
  then show ?thesis using x' by blast
qed

text \<open>The repository manager as a receiver of parts.\<close>

definition repo_receiver ::
  "boost_api \<Rightarrow> (string \<Rightarrow> int) \<Rightarrow> repo_st \<Rightarrow> FileReq \<Rightarrow> string \<Rightarrow> fpath \<Rightarrow> bytes \<Rightarrow> nat \<Rightarrow> (fs \<times> fpm_st) receiver" where
  "repo_receiver B xxh st req path p d ps =
     \<lparr>rv_put = \<lambda>i. Repo_WriteToFile B xxh st (part_req req ps d i), rv_fs = fst, rv_path = path, rv_place = p,
      rv_data = d, rv_size = ps\<rparr>"

definition repo_valid :: "boost_api \<Rightarrow> repo_st \<Rightarrow> FileReq \<Rightarrow> string \<Rightarrow> fpath \<Rightarrow> bytes \<Rightarrow> nat \<Rightarrow> bool" where
  "repo_valid B st req path p d ps \<longleftrightarrow>
     routed B st req path \<and> p \<noteq> [] \<and> 0 < ps \<and> int (length d) + int ps < 2 ^ 63"

definition free_place :: "string \<Rightarrow> fpath \<Rightarrow> fs \<Rightarrow> bool" where
  "free_place path p s \<longleftrightarrow>
     fs_wf s \<and> fs_faults s = [] \<and> plain_at path p \<and> writable (fs_nodes s) p \<and> kind_at (fs_nodes s) p = None"

lemma repo_stores:
  assumes "repo_valid B st req path p d ps" and "part_fits (repo_receiver B xxh st req path p d ps) i"
    and "MkParentDir path s = (b, s1)" and "CreateFileWithSize path (int (length d)) s1 = Inr (Err_Success, s2)"
    and "reg_file s2 path p x" and "fs_faults s2 = []" and "length x = length d"
  shows "stores_part (repo_receiver B xxh st req path p d ps) i (s, fp) x"
proof -
  have r: "routed B st req path" and ps: "0 < ps" "int (length d) + int ps < 2 ^ 63"
    and i: "i * ps < length d" "i * ps + ps \<noteq> length d + 1"
    using assms(1,2) by (simp_all add: repo_valid_def part_fits_def repo_receiver_def)
  obtain s' fp' x' where "Repo_WriteToFile B xxh st (part_req req ps d i) (s, fp) = Some (Err_Success, s', fp')"
    "reg_file s' path p x'" "fs_faults s' = []" "length x' = length d"
    "\<forall>j < length d. x' ! j = (if i * ps \<le> j \<and> j < i * ps + ps then d ! j else x ! j)"
    using store_part [OF r assms(3-7) ps(1) i(1) ps(2) i(2)] by blast
  then show ?thesis
    using part_bytes [OF ps(1)] by (auto simp: stores_part_def has_bytes_def repo_receiver_def)
qed

interpretation repo_parts: part_store "repo_receiver B xxh st req path p d ps" "repo_valid B st req path p d ps"
  "\<lambda>w. free_place path p (fst w)" for B xxh st req path p d ps
proof
  fix i x and w :: "fs \<times> fpm_st"
  assume v: "repo_valid B st req path p d ps" "part_fits (repo_receiver B xxh st req path p d ps) i"
    and h: "has_bytes (repo_receiver B xxh st req path p d ps) w x"
  have r: "reg_file (fst w) path p x" "fs_faults (fst w) = []" "length x = length d"
    using h by (simp_all add: has_bytes_def repo_receiver_def)
  have "p \<noteq> []" using v(1) by (simp add: repo_valid_def)
  then show "stores_part (repo_receiver B xxh st req path p d ps) i w x"
    using repo_stores [OF v MkParentDir_existing [OF r(1)] CreateFileWithSize_existing [OF r(1)] r, of "snd w"] by simp
next
  fix i and w :: "fs \<times> fpm_st"
  assume v: "repo_valid B st req path p d ps" "part_fits (repo_receiver B xxh st req path p d ps) i"
    and f: "free_place path p (fst w)"
  obtain s1 s2 b where mk: "MkParentDir path (fst w) = (b, s1)" "CreateFileWithSize path (int (length d)) s1 = Inr (Err_Success, s2)"
    "reg_file s2 path p (replicate (length d) (CHR 0x00))" "fs_faults s2 = []"
    using create_upload_file f unfolding free_place_def by blast
  show "stores_part (repo_receiver B xxh st req path p d ps) i w
      (replicate (length (rv_data (repo_receiver B xxh st req path p d ps))) (CHR 0x00))"
    using repo_stores [OF v mk, of "snd w"] by (simp add: repo_receiver_def)
qed

section \<open>Properties of uploads\<close>


definition demo_repo :: RepoMeta where
  "demo_repo = RepoMeta_default\<lparr>rm_repo_location := ''/a'', rm_repo_uuid := ''u1'', rm_owner := ''bob''\<rparr>"

definition demo_rst :: repo_st where
  "demo_rst = \<lparr>rp_repos = [(''u1'', demo_repo)], rp_config = ''/data/repos.json'', rp_tmp = ''/data/repos.tmp.json'',
     rp_stop = False, rp_changes = 0\<rparr>"

lemma demo_routed: "routed boost_ref demo_rst (demo_req ''r1'' 0) ''/a/ab/cd/abcd''"
proof -
  have "RepoMetaByUUID (fq_repo_uuid (demo_req ''r1'' 0)) demo_rst = Some demo_repo" by code_simp
  moreover have "RepoFilePath boost_ref (rm_repo_location demo_repo) (f_file_hash (fq_file (demo_req ''r1'' 0)))
      = Some ''/a/ab/cd/abcd''" by code_simp
  ultimately show ?thesis by (auto simp: routed_def demo_req_def)
qed


text \<open>
  When the size of the file is one less than a multiple of the part size (above one), the last
  part can never be stored: the server computes a range one byte too long, finds the content too
  short and refuses the part, so the upload cannot be completed.
\<close>

theorem upload_last_part_refused:
  assumes "routed B st req path" and "reg_file s path p x" and "p \<noteq> []" and "1 < ps"
    and "i * ps + ps = length d + 1" and "int (length d) + int ps < 2 ^ 63"
  shows "Repo_WriteToFile B xxh st (part_req req ps d i) (s, fp) = Some (Err_Fail, s, fp)"
proof -
  let ?r = "part_req req ps d i"
  have ps: "0 < ps" and i: "i * ps < length d" using assms(4,5) by auto
  have fields: "to_i64 (f_file_size (fq_file ?r)) = int (length d)" "fq_cur_part ?r = int i"
    "fq_size_per_part ?r = int ps" "fq_content ?r = part_data ps d i"
    using file_size_id [OF assms(6)] by (simp_all add: part_req_def)
  obtain en where cp: "CalcPartitionStart (int (length d)) (int i) (int ps) = (int (i * ps), en)"
    "en - int (i * ps) + 1 \<noteq> int (length (part_data ps d i))"
    using part_range [OF ps i assms(6)] assms(5) by blast
  show ?thesis
    using Repo_WriteToFile_routed [of B st ?r path s True s s xxh fp] assms(1) fields cp
      MkParentDir_existing [OF assms(2,3)] CreateFileWithSize_existing [OF assms(2)]
    by (simp add: routed_part)
qed

theorem upload_last_part_refused_witness:
  "Repo_WriteToFile boost_ref (\<lambda>_. 1) (demo_rst\<lparr>rp_repos := [(''u1'', demo_repo\<lparr>rm_repo_location := ''/a''\<rparr>)]\<rparr>)
     (part_req (demo_req ''r1'' 0) 4 ''0123456'' 1)
     (snd (WriteToFile ''/a/ab/cd/abcd'' ''zzzzzzz'' False demo_fs), demo_fpm) =
   Some (Err_Fail, snd (WriteToFile ''/a/ab/cd/abcd'' ''zzzzzzz'' False demo_fs), demo_fpm)"
proof -
  let ?s = "snd (WriteToFile ''/a/ab/cd/abcd'' ''zzzzzzz'' False demo_fs)"
  have r: "reg_file ?s ''/a/ab/cd/abcd'' [''a'', ''ab'', ''cd'', ''abcd''] ''zzzzzzz''" by code_simp
  have same: "demo_rst\<lparr>rp_repos := [(''u1'', demo_repo\<lparr>rm_repo_location := ''/a''\<rparr>)]\<rparr> = demo_rst"
    by (simp add: demo_rst_def demo_repo_def)
  show ?thesis
    unfolding same using upload_last_part_refused [OF demo_routed r, of 4 1 "''0123456''" "\<lambda>_. 1" demo_fpm] by simp
qed

text \<open>
  A part request whose part size is zero and whose content is empty passes every check of
  \<^verbatim>\<open>WriteToFile\<close> and, as the first request of its id, makes the server divide by zero in \<^verbatim>\<open>Put\<close>.
\<close>

theorem zero_part_size_crashes:
  assumes "routed B st req path" and "reg_file s path p x" and "p \<noteq> []" and "fs_faults s = []"
    and "fq_size_per_part req = 0" and "fq_content req = ''''" and "fq_cur_part req = 0"
    and "0 \<le> to_i64 (f_file_size (fq_file req))"
    and "map_of (fp_queues fp ! thread_of xxh (fq_request_id req)) (fq_request_id req) = None"
  shows "Repo_WriteToFile B xxh st req (s, fp) = None"
proof -
  have cp: "CalcPartitionStart (to_i64 (f_file_size (fq_file req))) 0 0 = (0, - 1)"
    using assms(8) by (simp add: CalcPartitionStart_def to_i64_def Let_def)
  have wr: "WriteToFile_at path '''' 0 s = (Err_Success, s)"
    using open_existing [OF assms(2,4), of False False] stream_write_ok [OF assms(4), of p 0 "''''"]
    by (simp add: WriteToFile_at_def)
  have put: "Put xxh req fp = None"
    using assms(5,9) by (simp add: Put_def put_queue_def FilePartitionNum_def Let_def)
  show ?thesis
    using Repo_WriteToFile_routed [of B st req path s True s s xxh fp] assms(1,5-7) cp wr put
      MkParentDir_existing [OF assms(2,3)] CreateFileWithSize_existing [OF assms(2)]
    by (simp add: err_defs)
qed

theorem zero_part_size_crashes_witness:
  "Repo_WriteToFile boost_ref (\<lambda>_. 1) demo_rst ((demo_req ''r1'' 0)\<lparr>fq_size_per_part := 0, fq_content := ''''\<rparr>)
     (snd (WriteToFile ''/a/ab/cd/abcd'' ''zz'' False demo_fs), demo_fpm) = None"
proof -
  let ?r = "(demo_req ''r1'' 0)\<lparr>fq_size_per_part := 0, fq_content := ''''\<rparr>"
  let ?s = "snd (WriteToFile ''/a/ab/cd/abcd'' ''zz'' False demo_fs)"
  have r: "reg_file ?s ''/a/ab/cd/abcd'' [''a'', ''ab'', ''cd'', ''abcd''] ''zz''" by code_simp
  have rt: "routed boost_ref demo_rst ?r ''/a/ab/cd/abcd''" using demo_routed by (simp add: routed_def)
  have nf: "fs_faults ?s = []" by code_simp
  have sz: "0 \<le> to_i64 (f_file_size (fq_file ?r))" by code_simp
  have nq: "map_of (fp_queues demo_fpm ! thread_of (\<lambda>_. 1) (fq_request_id ?r)) (fq_request_id ?r) = None" by code_simp
  show ?thesis
    using zero_part_size_crashes [OF rt r _ nf _ _ _ sz nq] by (simp add: demo_req_def)
qed

section \<open>The repository table and its file\<close>

text \<open>
  The place of the table: the configuration file and its backup, siblings, both writable.
\<close>

definition config_place :: "fs \<Rightarrow> repo_st \<Rightarrow> fpath \<Rightarrow> fpath \<Rightarrow> bool" where
  "config_place s st p q \<longleftrightarrow> backup_place s (rp_config st) (rp_tmp st) p q"

lemma FlushRepoMeta_ok:
  assumes "json_codec J" and "distinct (map fst (rp_repos st))" and place: "config_place s st p q"
  shows "\<exists>t s'. js_repos_out J (rp_repos st) = Some t \<and> FlushRepoMeta J st s = (True, s')
    \<and> reg_file s' (rp_config st) p t \<and> fs_faults s' = []"
proof -
  obtain t where t: "js_repos_out J (rp_repos st) = Some t"
    using json_codec.repos_out_total [OF assms(1,2)] by blast
  obtain s1 where s1: "(if Exists s (rp_config st) then CopyFile (rp_config st) (rp_tmp st) Copy_overwrite_existing s
      else (True, s)) = (True, s1)" "fs_wf s1" "fs_faults s1 = []" "plain_at (rp_config st) p" "writable (fs_nodes s1) p"
    using backup_step [OF place [unfolded config_place_def]] by blast
  obtain s' where "WriteToFile (rp_config st) t False s1 = (Err_Success, s')" "reg_file s' (rp_config st) p t" "fs_faults s' = []"
    using WriteToFile_plain [OF s1(2-5), of t False] by auto
  then show ?thesis
    using t s1(1) by (auto simp: FlushRepoMeta_def write_thrice_def split: if_splits)
qed

text \<open>
  C18: What \<^verbatim>\<open>FlushRepoMeta\<close> writes survives a restart: on a healthy file system it returns true, and
  \<^verbatim>\<open>Init\<close> of a new process, from any previous state, loads exactly the same repositories.
\<close>

theorem repo_table_survives_restart:
  assumes "json_codec J" and "distinct (map fst (rp_repos st))" and "config_place s st p q"
    and "rp_config st = home @ ''/data/repos.json''"
  shows "\<exists>s' st'. FlushRepoMeta J st s = (True, s') \<and> Repo_Init J home s' st0 = Some (True, st')
    \<and> map_of (rp_repos st') = map_of (rp_repos st)"
proof -
  obtain t s' where fl: "js_repos_out J (rp_repos st) = Some t" "FlushRepoMeta J st s = (True, s')"
    "reg_file s' (rp_config st) p t" using FlushRepoMeta_ok [OF assms(1-3)] by blast
  obtain R where R: "js_repos_in J t (rp_repos st0) = Some R" "map_of R = map_of (rp_repos st)"
    using json_codec.repos_in_out [OF assms(1,2) fl(1)] by blast
  have "Exists s' (rp_config st)" using reg_file_status [OF fl(3)] by (simp add: Exists_iff)
  moreover have "LoadSmallFile s' (rp_config st) '''' = Inr (True, t)"
    using reg_file_read [OF fl(3)] by (simp add: LoadSmallFile_def)
  ultimately show ?thesis
    using fl(2) R assms(4) by (auto simp: Repo_Init_def Let_def)
qed

lemma demo_place: "config_place demo_fs demo_rst [''data'', ''repos.json''] [''data'', ''repos.tmp.json'']"
  by code_simp

theorem repo_table_survives_restart_witness:
  "\<exists>s' st'. FlushRepoMeta json_ref demo_rst demo_fs = (True, s')
    \<and> Repo_Init json_ref '''' s' (demo_rst\<lparr>rp_repos := []\<rparr>) = Some (True, st')
    \<and> map_of (rp_repos st') ''u1'' = Some demo_repo"
proof -
  have "distinct (map fst (rp_repos demo_rst))" "rp_config demo_rst = '''' @ ''/data/repos.json''"
    "map_of (rp_repos demo_rst) ''u1'' = Some demo_repo"
    by (simp_all add: demo_rst_def)
  then show ?thesis
    using repo_table_survives_restart [OF jref.json_codec_axioms _ demo_place, of "''''" "demo_rst\<lparr>rp_repos := []\<rparr>"]
    by auto
qed

text \<open>
  If the disk is full when the table is rewritten, the table is lost and nobody notices: the file
  has been truncated by opening it, the write fails, \<^verbatim>\<open>WriteToFile\<close> still reports success, so
  \<^verbatim>\<open>FlushRepoMeta\<close> returns true and never restores the backup.
\<close>

theorem flush_on_full_disk_loses_table:
  assumes "fs_wf s" and "plain_at (rp_config st) p" and "kind_at (fs_nodes s) p = None"
    and "p \<noteq> []" and "is_dir (fs_nodes s) (butlast p)" and "js_repos_out J (rp_repos st) = Some t"
    and "fs_faults s = [NoFault, Short 0 ENOSPC]"
  shows "\<exists>s'. FlushRepoMeta J st s = (True, s') \<and> kind_at (fs_nodes s') p = Some (KReg [])"
proof -
  let ?s1 = "s\<lparr>fs_faults := [Short 0 ENOSPC]\<rparr>"
  let ?s2 = "put_node p (new_node ?s1 (KReg [])) ?s1"
  have f: "free_name s (rp_config st) p" using assms(1-5) by (simp add: free_name_def)
  then have f1: "free_name ?s1 (rp_config st) p" by (simp add: free_name_def fs_wf_def)
  have par: "fs_create_directories (parent_path (rp_config st)) s = (Inr False, s)"
    using dir_status [OF assms(1) plain_at_parent(2) [OF assms(2,4)] assms(5)]
      plain_at_parent(2) [OF assms(2,4)]
    by (auto simp: fs_create_directories_def plain_at_def is_absolute_def)
  have ep: "ensure_parent (rp_config st) s = (None, s)"
    using free_name_status [OF f] par by (simp add: ensure_parent_def fs_exists_def)
  have op: "sys_open_write True True (rp_config st) s = (Inr p, ?s2)"
    using assms(7) free_name_resolve [OF f1, of True] f1
    by (simp add: sys_open_write_def next_fault_def free_name_def)
  have sw: "snd (stream_write p k t ?s2) = ?s2\<lparr>fs_faults := []\<rparr>" for k
    by (simp add: stream_write_def next_fault_def put_node_def)
  have "WriteToFile (rp_config st) t False s = (Err_Success, ?s2\<lparr>fs_faults := []\<rparr>)"
    using ep op sw by (simp add: WriteToFile_def)
  moreover have "\<not> Exists s (rp_config st)" using free_name_status [OF f] by (simp add: Exists_iff)
  ultimately show ?thesis
    using assms(6) by (simp add: FlushRepoMeta_def write_thrice_def fs_simps new_node_def)
qed

theorem flush_on_full_disk_loses_table_witness:
  "\<exists>s'. FlushRepoMeta json_ref (demo_rst\<lparr>rp_config := ''/a/repos.json''\<rparr>)
      (demo_fs\<lparr>fs_faults := [NoFault, Short 0 ENOSPC]\<rparr>) = (True, s')
    \<and> kind_at (fs_nodes s') [''a'', ''repos.json''] = Some (KReg [])"
proof -
  let ?s = "demo_fs\<lparr>fs_faults := [NoFault, Short 0 ENOSPC]\<rparr>" and ?st = "demo_rst\<lparr>rp_config := ''/a/repos.json''\<rparr>"
  have "fs_wf ?s" "plain_at (rp_config ?st) [''a'', ''repos.json'']"
    "kind_at (fs_nodes ?s) [''a'', ''repos.json''] = None" "is_dir (fs_nodes ?s) (butlast [''a'', ''repos.json''])"
    by code_simp+
  moreover have "\<exists>t. js_repos_out json_ref (rp_repos ?st) = Some t"
    by (simp add: json_ref_def)
  ultimately show ?thesis using flush_on_full_disk_loses_table [of ?s ?st "[''a'', ''repos.json'']" json_ref] by fastforce
qed

section \<open>Requests on repositories\<close>

lemma list_repos_fold:
  assumes "distinct (map fst R)" and "\<forall>k \<in> set (map fst R). map_of out k = None"
  shows "map_of (fold (\<lambda>(k, m) out. if rm_owner m \<noteq> u then out else pmap_insert k m out) R out) k =
    (case map_of out k of
       Some m \<Rightarrow> Some m
     | None \<Rightarrow> (case map_of R k of Some m \<Rightarrow> if rm_owner m = u then Some m else None | None \<Rightarrow> None))"
  using assms
proof (induction R arbitrary: out)
  case (Cons a R)
  obtain k0 m0 where a: "a = (k0, m0)" by (cases a)
  let ?out = "if rm_owner m0 \<noteq> u then out else pmap_insert k0 m0 out"
  have free: "map_of out k0 = None" using Cons.prems(2) a by simp
  have "\<forall>k \<in> set (map fst R). map_of ?out k = None"
    using Cons.prems a free by (auto simp: map_of_pmap_insert)
  then have IH: "map_of (fold (\<lambda>(k, m) out. if rm_owner m \<noteq> u then out else pmap_insert k m out) R ?out) k =
    (case map_of ?out k of
       Some m \<Rightarrow> Some m
     | None \<Rightarrow> (case map_of R k of Some m \<Rightarrow> if rm_owner m = u then Some m else None | None \<Rightarrow> None))"
    using Cons.prems(1) a by (intro Cons.IH) auto
  have "map_of R k0 = None" using Cons.prems(1) a by (simp add: map_of_eq_None_iff)
  then show ?case
    using IH a free by (auto simp: map_of_pmap_insert split: option.splits)
qed (simp split: option.splits)

text \<open>
  \<^verbatim>\<open>ListUserRepo\<close> adds to an empty response exactly the repositories whose owner is the
  requesting user, and always returns success.
\<close>

theorem ListUserRepo_owned:
  assumes "distinct (map fst (rp_repos st))" and "rs_repos res = []"
  shows "fst (ListUserRepo req res st) = Err_Success
    \<and> (map_of (rs_repos (snd (ListUserRepo req res st))) k = Some m \<longleftrightarrow>
        map_of (rp_repos st) k = Some m \<and> rm_owner m = rq_user req)"
  using list_repos_fold [OF assms(1), of "[]" "rq_user req" k] assms(2)
  by (auto simp: ListUserRepo_def split: option.splits if_splits)

theorem ListUserRepo_owned_witness:
  "map_of (rs_repos (snd (ListUserRepo
      \<lparr>rq_request_id = '''', rq_token = '''', rq_user = ''bob'', rq_op = Op_RepoListUserRepo, rq_type = RT_Ocean, rq_repo_uuid = '''', rq_repo_name = '''', rq_dir = '''', rq_file_offset = 0, rq_file_limit = 0\<rparr>
      \<lparr>rs_err_code = 0, rs_repos = [], rs_files = []\<rparr> demo_rst))) ''u1'' = Some demo_repo"
proof -
  let ?q = "\<lparr>rq_request_id = '''', rq_token = '''', rq_user = ''bob'', rq_op = Op_RepoListUserRepo, rq_type = RT_Ocean, rq_repo_uuid = '''', rq_repo_name = '''', rq_dir = '''', rq_file_offset = 0, rq_file_limit = 0\<rparr>"
  have "map_of (rp_repos demo_rst) ''u1'' = Some demo_repo \<and> rm_owner demo_repo = rq_user ?q"
    and "distinct (map fst (rp_repos demo_rst))"
    by (simp_all add: demo_rst_def demo_repo_def)
  then show ?thesis
    using ListUserRepo_owned [of demo_rst "\<lparr>rs_err_code = 0, rs_repos = [], rs_files = []\<rparr>" ?q "''u1''" demo_repo] by simp
qed

text \<open>
  \<^verbatim>\<open>CreateRepo\<close> on a directory that already holds a repository returns the opposite of what
  happened: failure exactly when the repository was restored into the table, success when it could
  not be restored.
\<close>

theorem CreateRepo_existing_inverted:
  assumes "ExistsRepo (rq_dir req) s = Inr (True, u)"
    and "RestoreRepo J (rq_dir req) (RepoMeta_default\<lparr>rm_repo_uuid := u\<rparr>) st s = Some (ok, repo, st1, s1)"
  shows "\<exists>ret res'. CreateRepo J e req res st s = Some (ret, res', st1, s1)
    \<and> (ret = Err_Success \<longleftrightarrow> \<not> ok) \<and> (ok \<longrightarrow> res' = res \<and> map_of (rp_repos st1) (rm_repo_uuid repo) \<noteq> None)"
proof -
  have "map_of (rp_repos st1) (rm_repo_uuid repo) \<noteq> None" if ok
    using assms(2) that
    by (auto simp: RestoreRepo_def Let_def update_conv' split: sum.splits bool.splits option.splits prod.splits if_splits)
  then show ?thesis using assms by (auto simp: CreateRepo_def err_defs)
qed

text \<open>A repository on disk at \<^verbatim>\<open>/a\<close>, written by the codec.\<close>

definition demo_disk :: fs where
  "demo_disk = snd (WriteToFile ''/a/.Dr.Q.config/u1.repo'' (enc_repo demo_repo) False demo_fs)"

theorem CreateRepo_existing_inverted_witness:
  "\<exists>res' st1 s1. CreateRepo json_ref \<lparr>re_uuid = ''u2'', re_location_uuid = ''l2'', re_time = ''now''\<rparr>
      \<lparr>rq_request_id = '''', rq_token = '''', rq_user = ''bob'', rq_op = Op_RepoCreateRepo, rq_type = RT_Ocean, rq_repo_uuid = '''', rq_repo_name = ''n'', rq_dir = ''/a'', rq_file_offset = 0, rq_file_limit = 0\<rparr>
      \<lparr>rs_err_code = 0, rs_repos = [], rs_files = []\<rparr> (demo_rst\<lparr>rp_repos := []\<rparr>) demo_disk = Some (Err_Fail, res', st1, s1)
    \<and> map_of (rp_repos st1) ''u1'' \<noteq> None"
proof -
  let ?q = "\<lparr>rq_request_id = '''', rq_token = '''', rq_user = ''bob'', rq_op = Op_RepoCreateRepo, rq_type = RT_Ocean, rq_repo_uuid = '''', rq_repo_name = ''n'', rq_dir = ''/a'', rq_file_offset = 0, rq_file_limit = 0\<rparr>"
  let ?st = "demo_rst\<lparr>rp_repos := []\<rparr>"
  have ex: "ExistsRepo (rq_dir ?q) demo_disk = Inr (True, ''u1'')" by code_simp
  have "map_option (\<lambda>(ok, repo, st1, s1). (ok, rm_repo_uuid repo))
      (RestoreRepo json_ref (rq_dir ?q) (RepoMeta_default\<lparr>rm_repo_uuid := ''u1''\<rparr>) ?st demo_disk) = Some (True, ''u1'')"
    by code_simp
  then obtain repo st1 s1 where rs: "RestoreRepo json_ref (rq_dir ?q) (RepoMeta_default\<lparr>rm_repo_uuid := ''u1''\<rparr>) ?st demo_disk
      = Some (True, repo, st1, s1)" and u: "rm_repo_uuid repo = ''u1''" by auto
  let ?e = "\<lparr>re_uuid = ''u2'', re_location_uuid = ''l2'', re_time = ''now''\<rparr>"
  let ?res = "\<lparr>rs_err_code = 0, rs_repos = [], rs_files = []\<rparr>"
  obtain ret res' where cr: "CreateRepo json_ref ?e ?q ?res ?st demo_disk = Some (ret, res', st1, s1)"
    "ret \<noteq> Err_Success" "map_of (rp_repos st1) ''u1'' \<noteq> None"
    using CreateRepo_existing_inverted [OF ex rs, of ?e ?res] u by auto
  moreover have "ret = Err_Fail" using cr(1,2) ex rs by (auto simp: CreateRepo_def err_defs)
  ultimately show ?thesis by blast
qed

end
