(* ===== verification/Session.thy ===== *)
theory Session
  imports Defs
begin

text \<open>
  The session manager, \<^verbatim>\<open>src/src/impl/session_manager.h\<close>: two tables, from tokens and from users to
  sessions, under one lock, so that every member function is one atomic step.  The random token
  (\<^verbatim>\<open>Util::UUID\<close>) and the current time in milliseconds are arguments.
\<close>

record session =
  ses_user :: string
  ses_last_update_time :: int
  ses_token :: string

record sessions =
  token_sessions :: "string \<rightharpoonup> session"
  user_sessions :: "string \<rightharpoonup> session"

definition no_sessions :: sessions where
  "no_sessions = \<lparr>token_sessions = (\<lambda>_. None), user_sessions = (\<lambda>_. None)\<rparr>"

text \<open>\<^verbatim>\<open>unordered_map::emplace\<close>: an existing entry stays.\<close>

definition emplace :: "'k \<Rightarrow> 'v \<Rightarrow> ('k \<rightharpoonup> 'v) \<Rightarrow> ('k \<rightharpoonup> 'v)" where
  "emplace k v m = (case m k of None \<Rightarrow> m(k \<mapsto> v) | Some _ \<Rightarrow> m)"

definition GenerateToken :: "string \<Rightarrow> int \<Rightarrow> string \<Rightarrow> sessions \<Rightarrow> string \<times> sessions" where
  "GenerateToken uuid now user m =
     (let s = \<lparr>ses_user = user, ses_last_update_time = now, ses_token = uuid\<rparr>
      in (uuid, m\<lparr>token_sessions := emplace uuid s (token_sessions m),
                  user_sessions := emplace user s (user_sessions m)\<rparr>))"

text \<open>\<open>None\<close> is the return value false; otherwise the user stored in \<^verbatim>\<open>*user\<close>.\<close>

definition ValidateSession :: "int \<Rightarrow> string \<Rightarrow> sessions \<Rightarrow> string option" where
  "ValidateSession now token m =
     (if token = '''' then None
      else case token_sessions m token of
             None \<Rightarrow> None
           | Some s \<Rightarrow>
               if now - ses_last_update_time s \<ge> SESSION_INTERVAL then None
               else Some (ses_user s))"

definition UpdateSession ::
  "string \<Rightarrow> int \<Rightarrow> string \<Rightarrow> string \<Rightarrow> sessions \<Rightarrow> string option \<times> sessions" where
  "UpdateSession uuid now user token m =
     (if token = '''' then (None, m)
      else case token_sessions m token of
             None \<Rightarrow> (None, m)
           | Some s \<Rightarrow>
               if user \<noteq> ses_user s then (None, m)
               else if now - ses_last_update_time s \<ge> SESSION_INTERVAL then (None, m)
               else let new_session = s\<lparr>ses_last_update_time := now, ses_token := uuid\<rparr>
                    in (Some uuid,
                        m\<lparr>user_sessions := (user_sessions m)(user \<mapsto> new_session),
                          token_sessions := ((token_sessions m)(token := None))(uuid \<mapsto> new_session)\<rparr>))"

definition QueryUserToken :: "string \<Rightarrow> sessions \<Rightarrow> string" where
  "QueryUserToken user m = (case user_sessions m user of None \<Rightarrow> '''' | Some s \<Rightarrow> ses_token s)"

definition KickoutByUser :: "string \<Rightarrow> sessions \<Rightarrow> sessions" where
  "KickoutByUser user m =
     (case user_sessions m user of
        None \<Rightarrow> m
      | Some s \<Rightarrow>
          (case token_sessions m (ses_token s) of
             None \<Rightarrow> m
           | Some _ \<Rightarrow>
               m\<lparr>user_sessions := (user_sessions m)(user := None),
                 token_sessions := (token_sessions m)(ses_token s := None)\<rparr>))"

definition KickoutByToken :: "string \<Rightarrow> sessions \<Rightarrow> sessions" where
  "KickoutByToken token m =
     (case token_sessions m token of
        None \<Rightarrow> m
      | Some s \<Rightarrow>
          (case user_sessions m (ses_user s) of
             None \<Rightarrow> m
           | Some _ \<Rightarrow>
               m\<lparr>user_sessions := (user_sessions m)(ses_user s := None),
                 token_sessions := (token_sessions m)(token := None)\<rparr>))"

section \<open>The state machine\<close>

text \<open>
  \<open>sess_reach m log\<close>: the tables \<open>m\<close> can arise when tokens are never repeated; \<open>log\<close> lists the
  tokens handed out, each with the user it was handed to.  Time is arbitrary at every step.
\<close>

inductive sess_reach :: "sessions \<Rightarrow> (string \<times> string) list \<Rightarrow> bool" where
  start: "sess_reach no_sessions []"
| generate: "\<lbrakk>sess_reach m log; uuid \<notin> fst ` set log; uuid \<noteq> ''''\<rbrakk>
    \<Longrightarrow> sess_reach (snd (GenerateToken uuid now user m)) ((uuid, user) # log)"
| refresh: "\<lbrakk>sess_reach m log; uuid \<notin> fst ` set log; uuid \<noteq> '''';
      UpdateSession uuid now user token m = (Some uuid, m')\<rbrakk>
    \<Longrightarrow> sess_reach m' ((uuid, user) # log)"
| kick_user: "sess_reach m log \<Longrightarrow> sess_reach (KickoutByUser user m) log"
| kick_token: "sess_reach m log \<Longrightarrow> sess_reach (KickoutByToken token m) log"

inductive_cases sess_reach_startE: "sess_reach m []"

definition sess_inv :: "sessions \<Rightarrow> (string \<times> string) list \<Rightarrow> bool" where
  "sess_inv m log \<longleftrightarrow>
     (\<forall>t s. token_sessions m t = Some s \<longrightarrow> ses_token s = t \<and> (t, ses_user s) \<in> set log)
     \<and> (\<forall>u s. user_sessions m u = Some s \<longrightarrow>
          ses_user s = u \<and> (\<exists>s'. token_sessions m (ses_token s) = Some s' \<and> ses_user s' = u))"

lemma sess_invI:
  assumes "\<And>t s. token_sessions m t = Some s \<Longrightarrow> ses_token s = t \<and> (t, ses_user s) \<in> set log"
    and "\<And>u s. user_sessions m u = Some s \<Longrightarrow>
      ses_user s = u \<and> (\<exists>s'. token_sessions m (ses_token s) = Some s' \<and> ses_user s' = u)"
  shows "sess_inv m log"
  using assms by (simp add: sess_inv_def)

lemma sess_inv_token:
  "sess_inv m log \<Longrightarrow> token_sessions m t = Some s \<Longrightarrow> ses_token s = t \<and> (t, ses_user s) \<in> set log"
  by (simp add: sess_inv_def)

lemma sess_inv_user:
  "sess_inv m log \<Longrightarrow> user_sessions m u = Some s \<Longrightarrow>
    ses_user s = u \<and> (\<exists>s'. token_sessions m (ses_token s) = Some s' \<and> ses_user s' = u)"
  by (simp add: sess_inv_def)

lemma fresh_token: "sess_inv m log \<Longrightarrow> uuid \<notin> fst ` set log \<Longrightarrow> token_sessions m uuid = None"
  by (cases "token_sessions m uuid") (force dest: sess_inv_token)+

lemma generate_inv:
  assumes "sess_inv m log" and "uuid \<notin> fst ` set log"
  shows "sess_inv (snd (GenerateToken uuid now user m)) ((uuid, user) # log)"
proof (rule sess_invI)
  note fresh = fresh_token [OF assms]
  fix t s
  assume "token_sessions (snd (GenerateToken uuid now user m)) t = Some s"
  then show "ses_token s = t \<and> (t, ses_user s) \<in> set ((uuid, user) # log)"
    using fresh assms(1)
    by (auto simp: GenerateToken_def Let_def emplace_def split: if_splits option.splits dest: sess_inv_token)
next
  note fresh = fresh_token [OF assms]
  fix u s
  assume "user_sessions (snd (GenerateToken uuid now user m)) u = Some s"
  then show "ses_user s = u \<and> (\<exists>s'. token_sessions (snd (GenerateToken uuid now user m)) (ses_token s)
      = Some s' \<and> ses_user s' = u)"
    using fresh sess_inv_user [OF assms(1)]
    by (fastforce simp: GenerateToken_def Let_def emplace_def split: if_splits option.splits)
qed

lemma UpdateSession_SomeE:
  assumes "UpdateSession uuid now user token m = (Some x, m')"
  obtains s where "token \<noteq> ''''" "token_sessions m token = Some s" "ses_user s = user" "x = uuid"
    "now - ses_last_update_time s < SESSION_INTERVAL"
    "m' = m\<lparr>user_sessions := (user_sessions m)(user \<mapsto> s\<lparr>ses_last_update_time := now, ses_token := uuid\<rparr>),
            token_sessions := ((token_sessions m)(token := None))
              (uuid \<mapsto> s\<lparr>ses_last_update_time := now, ses_token := uuid\<rparr>)\<rparr>"
  using assms by (auto simp: UpdateSession_def Let_def split: if_splits option.splits)

lemma refresh_inv:
  assumes inv: "sess_inv m log" and fresh: "uuid \<notin> fst ` set log"
    and up: "UpdateSession uuid now user token m = (Some uuid, m')"
  shows "sess_inv m' ((uuid, user) # log)"
proof -
  obtain s where s: "token_sessions m token = Some s" "ses_user s = user"
    and m': "m' = m\<lparr>user_sessions := (user_sessions m)(user \<mapsto> s\<lparr>ses_last_update_time := now, ses_token := uuid\<rparr>),
            token_sessions := ((token_sessions m)(token := None))
              (uuid \<mapsto> s\<lparr>ses_last_update_time := now, ses_token := uuid\<rparr>)\<rparr>"
    using up by (rule UpdateSession_SomeE)
  show ?thesis
  proof (rule sess_invI)
    fix t x
    assume "token_sessions m' t = Some x"
    then show "ses_token x = t \<and> (t, ses_user x) \<in> set ((uuid, user) # log)"
      using m' s inv by (auto split: if_splits dest: sess_inv_token)
  next
    fix u x
    assume x: "user_sessions m' u = Some x"
    show "ses_user x = u \<and> (\<exists>s'. token_sessions m' (ses_token x) = Some s' \<and> ses_user s' = u)"
    proof (cases "u = user")
      case True
      then show ?thesis using x m' s by auto
    next
      case False
      then have old: "user_sessions m u = Some x" using x m' by simp
      obtain s' where s': "ses_user x = u" "token_sessions m (ses_token x) = Some s'" "ses_user s' = u"
        using sess_inv_user [OF inv old] by blast
      have "ses_token x \<noteq> token" using s' s False by auto
      moreover have "ses_token x \<noteq> uuid" using s' fresh_token [OF inv fresh] by auto
      ultimately show ?thesis using s' m' by simp
    qed
  qed
qed

lemma kick_user_inv:
  assumes "sess_inv m log"
  shows "sess_inv (KickoutByUser user m) log"
proof (cases "user_sessions m user")
  case None
  then show ?thesis using assms by (simp add: KickoutByUser_def)
next
  case (Some s)
  obtain s0 where s0: "token_sessions m (ses_token s) = Some s0" "ses_user s0 = user"
    using sess_inv_user [OF assms Some] by blast
  let ?m = "m\<lparr>user_sessions := (user_sessions m)(user := None),
    token_sessions := (token_sessions m)(ses_token s := None)\<rparr>"
  have "sess_inv ?m log"
  proof (rule sess_invI)
    fix t x
    assume "token_sessions ?m t = Some x"
    then show "ses_token x = t \<and> (t, ses_user x) \<in> set log"
      using assms by (auto split: if_splits dest: sess_inv_token)
  next
    fix u x
    assume "user_sessions ?m u = Some x"
    then have u: "u \<noteq> user" "user_sessions m u = Some x" by (auto split: if_splits)
    obtain s' where s': "ses_user x = u" "token_sessions m (ses_token x) = Some s'" "ses_user s' = u"
      using sess_inv_user [OF assms u(2)] by blast
    have "ses_token x \<noteq> ses_token s" using s' s0 u(1) by auto
    then show "ses_user x = u \<and> (\<exists>s'. token_sessions ?m (ses_token x) = Some s' \<and> ses_user s' = u)"
      using s' by simp
  qed
  then show ?thesis using Some s0 by (simp add: KickoutByUser_def)
qed

lemma kick_token_inv:
  assumes "sess_inv m log"
  shows "sess_inv (KickoutByToken token m) log"
proof -
  have "sess_inv (m\<lparr>user_sessions := (user_sessions m)(ses_user s := None),
      token_sessions := (token_sessions m)(token := None)\<rparr>) log" (is "sess_inv ?m log")
    if s: "token_sessions m token = Some s" for s
  proof (rule sess_invI)
    fix t x
    assume "token_sessions ?m t = Some x"
    then show "ses_token x = t \<and> (t, ses_user x) \<in> set log"
      using assms by (auto split: if_splits dest: sess_inv_token)
  next
    fix u x
    assume "user_sessions ?m u = Some x"
    then have u: "u \<noteq> ses_user s" "user_sessions m u = Some x" by (auto split: if_splits)
    obtain s' where s': "ses_user x = u" "token_sessions m (ses_token x) = Some s'" "ses_user s' = u"
      using sess_inv_user [OF assms u(2)] by blast
    have "ses_token x \<noteq> token" using s' s u(1) by auto
    then show "ses_user x = u \<and> (\<exists>s'. token_sessions ?m (ses_token x) = Some s' \<and> ses_user s' = u)"
      using s' by simp
  qed
  then show ?thesis using assms by (auto simp: KickoutByToken_def split: option.splits)
qed

lemma reach_inv: "sess_reach m log \<Longrightarrow> sess_inv m log"
proof (induction rule: sess_reach.induct)
  case start
  show ?case by (rule sess_invI) (simp_all add: no_sessions_def)
qed (auto intro: generate_inv refresh_inv kick_user_inv kick_token_inv)

lemma reach_tokens_nonempty: "sess_reach m log \<Longrightarrow> '''' \<notin> fst ` set log"
  by (induction rule: sess_reach.induct) auto

section \<open>Properties\<close>

text \<open>
  C16: Authenticity.  In every reachable state, a token that \<^verbatim>\<open>ValidateSession\<close> accepts was handed
  out, and it was handed to exactly the user that \<^verbatim>\<open>ValidateSession\<close> reports.
\<close>

theorem validated_token_was_issued:
  assumes "sess_reach m log" and "ValidateSession now token m = Some user"
  shows "(token, user) \<in> set log"
  using assms(2) sess_inv_token [OF reach_inv [OF assms(1)]]
  by (auto simp: ValidateSession_def split: if_splits option.splits)

lemma demo_reach: "sess_reach (snd (GenerateToken ''t1'' 1000 ''bob'' no_sessions)) [(''t1'', ''bob'')]"
  using sess_reach.generate [OF sess_reach.start, of "''t1''" 1000 "''bob''"] by simp

theorem validated_token_was_issued_witness:
  "ValidateSession 2000 ''t1'' (snd (GenerateToken ''t1'' 1000 ''bob'' no_sessions)) = Some ''bob''
   \<and> (''t1'', ''bob'') \<in> set [(''t1'', ''bob'')]"
proof -
  have "ValidateSession 2000 ''t1'' (snd (GenerateToken ''t1'' 1000 ''bob'' no_sessions)) = Some ''bob''"
    by code_simp
  then show ?thesis using validated_token_was_issued [OF demo_reach] by blast
qed

text \<open>
  A token handed out at time \<open>t0\<close> is accepted, for its user, at exactly the times less than
  five minutes after \<open>t0\<close>: validation does not extend a session.
\<close>

theorem token_lifetime:
  assumes "sess_reach m log" and "uuid \<notin> fst ` set log" and "uuid \<noteq> ''''"
  shows "ValidateSession now uuid (snd (GenerateToken uuid t0 user m)) =
    (if now - t0 < 300000 then Some user else None)"
  using fresh_token [OF reach_inv [OF assms(1)] assms(2)] assms(3)
  by (auto simp: ValidateSession_def GenerateToken_def Let_def emplace_def SESSION_INTERVAL_def)

theorem token_lifetime_witness:
  "ValidateSession 300999 ''t1'' (snd (GenerateToken ''t1'' 1000 ''bob'' no_sessions)) = Some ''bob''
   \<and> ValidateSession 301000 ''t1'' (snd (GenerateToken ''t1'' 1000 ''bob'' no_sessions)) = None"
  using token_lifetime [OF sess_reach.start, of "''t1''" 300999 1000 "''bob''"]
    token_lifetime [OF sess_reach.start, of "''t1''" 301000 1000 "''bob''"] by simp

text \<open>
  C17: A successful \<^verbatim>\<open>UpdateSession\<close> replaces the token: the old one is no longer accepted at any
  time, the new one is accepted for the same user for the next five minutes and is the token that
  \<^verbatim>\<open>QueryUserToken\<close> returns.
\<close>

theorem refresh_rotates_token:
  assumes "sess_reach m log" and "uuid \<notin> fst ` set log" and "uuid \<noteq> ''''"
    and "UpdateSession uuid now user token m = (Some uuid, m')"
  shows "ValidateSession later token m' = None
    \<and> ValidateSession later uuid m' = (if later - now < SESSION_INTERVAL then Some user else None)
    \<and> QueryUserToken user m' = uuid"
proof -
  obtain s where s: "token_sessions m token = Some s" "ses_user s = user"
    and m': "m' = m\<lparr>user_sessions := (user_sessions m)(user \<mapsto> s\<lparr>ses_last_update_time := now, ses_token := uuid\<rparr>),
            token_sessions := ((token_sessions m)(token := None))
              (uuid \<mapsto> s\<lparr>ses_last_update_time := now, ses_token := uuid\<rparr>)\<rparr>"
    using assms(4) by (rule UpdateSession_SomeE)
  have "token \<noteq> uuid" using s fresh_token [OF reach_inv [OF assms(1)] assms(2)] by auto
  then show ?thesis using assms(3) s m' by (auto simp: ValidateSession_def QueryUserToken_def)
qed

theorem refresh_rotates_token_witness:
  "\<exists>m'. UpdateSession ''t2'' 2000 ''bob'' ''t1'' (snd (GenerateToken ''t1'' 1000 ''bob'' no_sessions)) = (Some ''t2'', m')
    \<and> ValidateSession 2001 ''t1'' m' = None \<and> ValidateSession 2001 ''t2'' m' = Some ''bob''"
proof -
  let ?m = "snd (GenerateToken ''t1'' 1000 ''bob'' no_sessions)"
  have "fst (UpdateSession ''t2'' 2000 ''bob'' ''t1'' ?m) = Some ''t2''" by code_simp
  then obtain m' where up: "UpdateSession ''t2'' 2000 ''bob'' ''t1'' ?m = (Some ''t2'', m')"
    by (cases "UpdateSession ''t2'' 2000 ''bob'' ''t1'' ?m") auto
  have fresh: "''t2'' \<notin> fst ` set [(''t1'', ''bob'')]" by simp
  show ?thesis
    using refresh_rotates_token [OF demo_reach fresh _ up, of 2001] up
    by (simp add: SESSION_INTERVAL_def)
qed

text \<open>
  \<^verbatim>\<open>KickoutByUser\<close> works in every reachable state: the branch logged as \<^verbatim>\<open>this should nerver
  happen\<close> is never taken, the token that \<^verbatim>\<open>QueryUserToken\<close> gave is no longer accepted, and the user
  has no entry left.
\<close>

theorem KickoutByUser_effective:
  assumes "sess_reach m log"
  shows "QueryUserToken user (KickoutByUser user m) = ''''
    \<and> ValidateSession now (QueryUserToken user m) (KickoutByUser user m) = None"
proof (cases "user_sessions m user")
  case None
  then show ?thesis by (simp add: KickoutByUser_def QueryUserToken_def ValidateSession_def)
next
  case (Some s)
  then obtain s' where "token_sessions m (ses_token s) = Some s'"
    using sess_inv_user [OF reach_inv [OF assms] Some] by blast
  then show ?thesis using Some by (simp add: KickoutByUser_def QueryUserToken_def ValidateSession_def)
qed

theorem KickoutByUser_effective_witness:
  "ValidateSession 2000 ''t1'' (KickoutByUser ''bob'' (snd (GenerateToken ''t1'' 1000 ''bob'' no_sessions))) = None"
proof -
  have "QueryUserToken ''bob'' (snd (GenerateToken ''t1'' 1000 ''bob'' no_sessions)) = ''t1''" by code_simp
  then show ?thesis using KickoutByUser_effective [OF demo_reach, of "''bob''" 2000] by simp
qed

text \<open>
  \<^verbatim>\<open>KickoutByToken\<close>, behind logout, does not always work.  After two logins of a user and the
  logout of the first token, the logout of the second does nothing: it runs into the branch
  logged as \<^verbatim>\<open>this should nerver happen\<close>, and the token stays accepted until it expires.
\<close>

theorem second_logout_ineffective:
  assumes "sess_reach m log" and "t1 \<notin> fst ` set log" and "t2 \<notin> fst ` set log" and "t1 \<noteq> t2"
    and "t2 \<noteq> ''''" and "m1 = snd (GenerateToken t1 now1 user m)"
    and "m2 = snd (GenerateToken t2 now2 user m1)" and "m3 = KickoutByToken t1 m2"
  shows "KickoutByToken t2 m3 = m3
    \<and> ValidateSession now t2 (KickoutByToken t2 m3) = (if now - now2 < SESSION_INTERVAL then Some user else None)"
proof -
  have f1: "token_sessions m t1 = None" and f2: "token_sessions m t2 = None"
    using fresh_token [OF reach_inv [OF assms(1)]] assms(2,3) by auto
  have tok: "token_sessions m2 t1 = Some \<lparr>ses_user = user, ses_last_update_time = now1, ses_token = t1\<rparr>"
    "token_sessions m2 t2 = Some \<lparr>ses_user = user, ses_last_update_time = now2, ses_token = t2\<rparr>"
    using f1 f2 assms(4,6,7) by (simp_all add: GenerateToken_def Let_def emplace_def)
  have usr: "\<exists>s. user_sessions m2 user = Some s"
    using assms(6,7) by (auto simp: GenerateToken_def Let_def emplace_def split: option.splits)
  have m3: "token_sessions m3 t2 = token_sessions m2 t2" "user_sessions m3 user = None"
    using tok(1) usr assms(4,8) by (auto simp: KickoutByToken_def)
  then have same: "KickoutByToken t2 m3 = m3" using tok(2) by (simp add: KickoutByToken_def)
  show ?thesis
    using m3 tok(2) assms(5) unfolding same by (auto simp: ValidateSession_def)
qed

theorem second_logout_ineffective_witness:
  "let m1 = snd (GenerateToken ''t1'' 1000 ''bob'' no_sessions);
       m2 = snd (GenerateToken ''t2'' 2000 ''bob'' m1)
   in ValidateSession 3000 ''t2'' (KickoutByToken ''t2'' (KickoutByToken ''t1'' m2)) = Some ''bob''"
  using second_logout_ineffective [OF sess_reach.start, where ?t1.0 = "''t1''" and ?t2.0 = "''t2''"
      and ?now1.0 = 1000 and ?now2.0 = 2000 and user = "''bob''" and now = 3000, OF _ _ _ _ refl refl refl]
  by (auto simp: SESSION_INTERVAL_def Let_def)

end
