(* ===== verification/UserManager.thy ===== *)
theory UserManager
  imports Sqlite Session UtilHash
begin

text \<open>
  User accounts: \<^verbatim>\<open>src/src/impl/user_manager.h\<close>, over the database layer and the session manager.
  One record gathers the cryptographic parameters, another what the environment supplies to one
  call: the time, the token \<^verbatim>\<open>Util::UUID\<close> yields and the bytes of \<^verbatim>\<open>RAND_bytes\<close>.  A result \<open>None\<close> is
  an exception that leaves the function or an undefined row extraction.
\<close>

record crypto =
  cr_fmt :: fmt_hex_fn
  cr_pbkdf2 :: pbkdf2_fn

record call_env =
  ce_now :: int
  ce_uuid :: string
  ce_rnd :: "bytes option"

record 'd user_st =
  us_db :: "'d sqlite_mgr"
  us_sess :: sessions

definition sql_delete_user :: string where
  "sql_delete_user = ''DELETE FROM users WHERE user = ?;''"

definition sql_select_user :: string where
  "sql_select_user = ''SELECT user, salt, password, create_time, update_time FROM users WHERE user = ?;''"

definition sql_update_user :: string where
  "sql_update_user = ''UPDATE users SET salt = ?, password = ? WHERE user = ?;''"

definition bad_user :: "string \<Rightarrow> bool" where
  "bad_user user \<longleftrightarrow> length user > 64 \<or> user = ''''"

definition bad_password :: "string \<Rightarrow> bool" where
  "bad_password password \<longleftrightarrow> length password > 64 \<or> length password < 8"

text \<open>The result pair is the return value and \<^verbatim>\<open>*token\<close>.\<close>

definition UserRegister ::
  "'d sqlite_api \<Rightarrow> crypto \<Rightarrow> call_env \<Rightarrow> string \<Rightarrow> string \<Rightarrow> string \<Rightarrow> 'd user_st
   \<Rightarrow> (int \<times> string) option \<times> 'd user_st" where
  "UserRegister A C e user password token st =
     (if bad_user user then (Some (Err_User_name_error, token), st)
      else if bad_password password then (Some (Err_User_passwd_error, token), st)
      else case GenerateSalt (cr_fmt C) (ce_rnd e) of
             None \<Rightarrow> (None, st)
           | Some salt \<Rightarrow>
               (case HashPassword (cr_pbkdf2 C) (cr_fmt C) password salt of
                  None \<Rightarrow> (Some (Err_Fail, token), st)
                | Some hashed_password \<Rightarrow>
                    (case Sqlite_Insert A sql_insert_user
                       [(1, SText (c_str user)), (2, SText (c_str salt)), (3, SText (c_str hashed_password)),
                        (4, SInt (ce_now e)), (5, SInt (ce_now e))] 0 (us_db st) of
                       ((ret, affect_rows), db) \<Rightarrow>
                         let st1 = st\<lparr>us_db := db\<rparr>
                         in if ret \<noteq> 0 then (Some (Err_Fail, token), st1)
                            else if affect_rows > 0 then
                              (case GenerateToken (ce_uuid e) (ce_now e) user (us_sess st1) of
                                 (t, se) \<Rightarrow> (Some (Err_Success, t), st1\<lparr>us_sess := se\<rparr>))
                            else (Some (Err_User_exists, token), st1))))"

definition UserDelete ::
  "'d sqlite_api \<Rightarrow> string \<Rightarrow> string \<Rightarrow> string \<Rightarrow> 'd user_st \<Rightarrow> int \<times> 'd user_st" where
  "UserDelete A login_user to_delete_user token st =
     (if bad_user to_delete_user then (Err_User_name_error, st)
      else if to_delete_user = ''admin'' then (Err_User_name_error, st)
      else if login_user = ''admin'' \<or> login_user = to_delete_user then
        (case Sqlite_Delete A sql_delete_user [(1, SText (c_str to_delete_user))] 0 (us_db st) of
           ((ret, affect_rows), db) \<Rightarrow>
             let st1 = st\<lparr>us_db := db\<rparr>
             in if ret \<noteq> 0 then (Err_Fail, st1)
                else if affect_rows > 0
                then (Err_Success, st1\<lparr>us_sess := KickoutByToken token (us_sess st1)\<rparr>)
                else (Err_User_not_exists, st1))
      else (Err_User_not_exists, st))"

definition SelectUser ::
  "'d sqlite_api \<Rightarrow> string \<Rightarrow> 'd user_st \<Rightarrow> (int \<times> UsersRow list option) \<times> 'd user_st" where
  "SelectUser A user st =
     (case Select A UsersRow_Extract sql_select_user [(1, SText user)] (us_db st) of
        ((ret, rows), db) \<Rightarrow> ((fail_of ret, rows), st\<lparr>us_db := db\<rparr>))"

definition User_VerifyPassword ::
  "'d sqlite_api \<Rightarrow> crypto \<Rightarrow> string \<Rightarrow> string \<Rightarrow> 'd user_st \<Rightarrow> int option \<times> 'd user_st" where
  "User_VerifyPassword A C user password st =
     (if bad_user user then (Some Err_User_name_error, st)
      else if bad_password password then (Some Err_User_passwd_error, st)
      else case SelectUser A user st of
             ((ret, rows), st1) \<Rightarrow>
               (case rows of
                  None \<Rightarrow> (None, st1)
                | Some rs \<Rightarrow>
                    if ret \<noteq> 0 then (Some ret, st1)
                    else (case rs of
                            [] \<Rightarrow> (Some Err_User_not_exists, st1)
                          | r # _ \<Rightarrow>
                              (Some (if VerifyPassword (cr_pbkdf2 C) (cr_fmt C) password (ur_salt r) (ur_password r)
                                     then Err_Success else Err_User_passwd_error), st1))))"

definition UserLogin ::
  "'d sqlite_api \<Rightarrow> crypto \<Rightarrow> call_env \<Rightarrow> string \<Rightarrow> string \<Rightarrow> string \<Rightarrow> 'd user_st
   \<Rightarrow> (int \<times> string) option \<times> 'd user_st" where
  "UserLogin A C e user password token st =
     (case User_VerifyPassword A C user password st of
        (None, st1) \<Rightarrow> (None, st1)
      | (Some ret, st1) \<Rightarrow>
          if ret \<noteq> 0 then (Some (ret, token), st1)
          else (case GenerateToken (ce_uuid e) (ce_now e) user (us_sess st1) of
                  (t, se) \<Rightarrow> (Some (Err_Success, t), st1\<lparr>us_sess := se\<rparr>)))"

definition UserValidateSession :: "call_env \<Rightarrow> string \<Rightarrow> string \<Rightarrow> sessions \<Rightarrow> int" where
  "UserValidateSession e user token se =
     (if bad_user user then Err_User_name_error
      else if token = '''' then Err_User_session_error
      else case ValidateSession (ce_now e) token se of
             None \<Rightarrow> Err_User_session_error
           | Some session_user \<Rightarrow>
               if session_user = '''' \<or> session_user \<noteq> user then Err_User_session_error else Err_Success)"

definition UserQueryToken :: "string \<Rightarrow> sessions \<Rightarrow> string" where
  "UserQueryToken user se = (if user = '''' then '''' else QueryUserToken user se)"

definition UserLogout :: "string \<Rightarrow> 'd user_st \<Rightarrow> int \<times> 'd user_st" where
  "UserLogout token st = (Err_Success, st\<lparr>us_sess := KickoutByToken token (us_sess st)\<rparr>)"

definition UserExists :: "'d sqlite_api \<Rightarrow> string \<Rightarrow> 'd user_st \<Rightarrow> int option \<times> 'd user_st" where
  "UserExists A user st =
     (if bad_user user then (Some Err_User_name_error, st)
      else case SelectUser A user st of
             ((ret, rows), st1) \<Rightarrow>
               (case rows of
                  None \<Rightarrow> (None, st1)
                | Some rs \<Rightarrow>
                    (Some (if ret \<noteq> 0 then ret
                           else if rs \<noteq> [] then Err_Success else Err_User_not_exists), st1)))"

definition ChangePassword ::
  "'d sqlite_api \<Rightarrow> crypto \<Rightarrow> call_env \<Rightarrow> string \<Rightarrow> string \<Rightarrow> string \<Rightarrow> string \<Rightarrow> 'd user_st
   \<Rightarrow> (int \<times> string) option \<times> 'd user_st" where
  "ChangePassword A C e user old_password new_password token st =
     (if bad_user user then (Some (Err_User_name_error, token), st)
      else if bad_password new_password then (Some (Err_User_passwd_error, token), st)
      else case User_VerifyPassword A C user old_password st of
             (None, st1) \<Rightarrow> (None, st1)
           | (Some ret, st1) \<Rightarrow>
               if ret \<noteq> 0 then (Some (ret, token), st1)
               else (case GenerateSalt (cr_fmt C) (ce_rnd e) of
                       None \<Rightarrow> (None, st1)
                     | Some salt \<Rightarrow>
                         (case HashPassword (cr_pbkdf2 C) (cr_fmt C) new_password salt of
                            None \<Rightarrow> (Some (Err_User_passwd_error, token), st1)
                          | Some hashed_password \<Rightarrow>
                              (case Sqlite_Update A sql_update_user
                                 [(3, SText user), (1, SText salt), (2, SText hashed_password)] 0 (us_db st1) of
                                 ((ret2, affect_rows), db) \<Rightarrow>
                                   let st2 = st1\<lparr>us_db := db\<rparr>
                                   in if ret2 \<noteq> 0 then (Some (Err_Fail, token), st2)
                                      else if affect_rows > 0 then
                                        (case GenerateToken (ce_uuid e) (ce_now e) user (us_sess st2) of
                                           (t, se) \<Rightarrow> (Some (Err_Success, t), st2\<lparr>us_sess := se\<rparr>))
                                      else (Some (Err_Fail, token), st2)))))"

definition UpdateToken ::
  "call_env \<Rightarrow> string \<Rightarrow> string \<Rightarrow> string \<Rightarrow> 'd user_st \<Rightarrow> (int \<times> string) \<times> 'd user_st" where
  "UpdateToken e user token new_token st =
     (if bad_user user then ((Err_User_name_error, new_token), st)
      else case UpdateSession (ce_uuid e) (ce_now e) user token (us_sess st) of
             (Some t, se) \<Rightarrow> ((Err_Success, t), st\<lparr>us_sess := se\<rparr>)
           | (None, se) \<Rightarrow> ((Err_Fail, new_token), st\<lparr>us_sess := se\<rparr>))"

section \<open>Stored accounts\<close>

text \<open>
  What is asked of the cryptographic parameters: hexadecimal printing as \<open>fmt_hex\<close> says, and a key
  derivation that yields as many bytes as asked for.
\<close>

definition healthy_crypto :: "crypto \<Rightarrow> bool" where
  "healthy_crypto C \<longleftrightarrow>
     fmt_hex (cr_fmt C) \<and> (\<forall>pw salt n k. \<exists>h. cr_pbkdf2 C pw salt n k = Some h \<and> length h = k)"

text \<open>Salt and hash of an account made from random bytes \<open>b\<close> and a password.\<close>

definition account :: "crypto \<Rightarrow> bytes \<Rightarrow> string \<Rightarrow> string \<times> string" where
  "account C b password =
     (let salt = ToHexStr (cr_fmt C) b False
      in (salt, the (HashPassword (cr_pbkdf2 C) (cr_fmt C) password salt)))"

definition stored_ok :: "(string \<rightharpoonup> string \<times> string) \<Rightarrow> bool" where
  "stored_ok acc \<longleftrightarrow>
     (\<forall>u sa pw. acc u = Some (sa, pw) \<longrightarrow> length sa = kSaltSize * 2 \<and> length pw = kDerivedKeySize * 2)"

lemma stored_okD:
  "stored_ok acc \<Longrightarrow> acc u = Some (sa, pw) \<Longrightarrow> length sa = kSaltSize * 2 \<and> length pw = kDerivedKeySize * 2"
  by (simp add: stored_ok_def)

lemma hex_no_nul: "fmt_hex fmt \<Longrightarrow> c_str (ToHexStr fmt b u) = ToHexStr fmt b u"
proof -
  assume f: "fmt_hex fmt"
  have "c \<noteq> CHR 0x00" if "c \<in> set (ToHexStr fmt b u)" for c
    using fmt_hex.hex_str_digits [OF f that] by (auto simp: is_digit_def digit_val_def)
  then show ?thesis by (simp add: c_str_def takeWhile_eq_all_conv)
qed

lemma account_made:
  assumes "healthy_crypto C" and "ce_rnd e = Some b" and "account C b password = (sa, pw)"
  shows "GenerateSalt (cr_fmt C) (ce_rnd e) = Some sa"
    and "HashPassword (cr_pbkdf2 C) (cr_fmt C) password sa = Some pw"
    and "c_str sa = sa" and "c_str pw = pw"
    and "length pw = kDerivedKeySize * 2" and "length b = kSaltSize \<Longrightarrow> length sa = kSaltSize * 2"
proof -
  have fmt: "fmt_hex (cr_fmt C)" using assms(1) by (simp add: healthy_crypto_def)
  have sa: "sa = ToHexStr (cr_fmt C) b False" using assms(3) by (simp add: account_def Let_def)
  obtain h where h: "cr_pbkdf2 C password sa kIterations kDerivedKeySize = Some h" "length h = kDerivedKeySize"
    using assms(1) unfolding healthy_crypto_def by blast
  have pw: "HashPassword (cr_pbkdf2 C) (cr_fmt C) password sa = Some (ToHexStr (cr_fmt C) h False)"
    using h by (simp add: HashPassword_def)
  then show hash: "HashPassword (cr_pbkdf2 C) (cr_fmt C) password sa = Some pw"
    using assms(3) sa by (simp add: account_def Let_def)
  show "GenerateSalt (cr_fmt C) (ce_rnd e) = Some sa" using assms(2) sa by (simp add: GenerateSalt_def)
  show "c_str sa = sa" "c_str pw = pw" using hex_no_nul [OF fmt] sa hash pw by auto
  show "length pw = kDerivedKeySize * 2" "length b = kSaltSize \<Longrightarrow> length sa = kSaltSize * 2"
    using fmt_hex.hex_str_length [OF fmt] sa hash pw h(2) by auto
qed

lemma stored_ok_account:
  assumes "stored_ok acc" and "healthy_crypto C" and "length b = kSaltSize"
  shows "stored_ok (acc(u \<mapsto> account C b pw))"
proof -
  obtain sa h where acc: "account C b pw = (sa, h)" by (cases "account C b pw")
  have "length h = kDerivedKeySize * 2" "length sa = kSaltSize * 2"
    using account_made [OF assms(2) _ acc, of "\<lparr>ce_now = 0, ce_uuid = [], ce_rnd = Some b\<rparr>"] assms(3) by auto
  then show ?thesis using assms(1) acc by (auto simp: stored_ok_def)
qed

section \<open>What the code relies on of the database\<close>

text \<open>
  The meaning of the four statements on the users table, as SQL defines them: \<open>users d\<close> maps a user
  name to the stored salt and password hash, \<open>ok d\<close> says that the database is usable.
\<close>

definition user_sqls :: "string list" where
  "user_sqls = [sql_insert_user, sql_delete_user, sql_select_user, sql_update_user]"

locale users_db =
  fixes A :: "'d sqlite_api" and users :: "'d \<Rightarrow> string \<rightharpoonup> string \<times> string" and ok :: "'d \<Rightarrow> bool"
  assumes open_ok: "ok d \<Longrightarrow> sq_open A p d"
    and prepare_ok: "ok d \<Longrightarrow> sql \<in> set user_sqls \<Longrightarrow> sq_prepare A sql d"
    and bind_ok: "ok d \<Longrightarrow> sql \<in> set user_sqls \<Longrightarrow> sq_bind A sql i v d"
    and insert_ok: "ok d \<Longrightarrow> f 1 = SText u \<Longrightarrow> f 2 = SText sa \<Longrightarrow> f 3 = SText pw \<Longrightarrow>
      \<exists>d'. sq_run A sql_insert_user f d = ([], True, if users d u = None then 1 else 0, d') \<and> ok d'
        \<and> users d' = (if users d u = None then (users d)(u \<mapsto> (sa, pw)) else users d)"
    and delete_ok: "ok d \<Longrightarrow> f 1 = SText u \<Longrightarrow>
      \<exists>d'. sq_run A sql_delete_user f d = ([], True, if users d u = None then 0 else 1, d') \<and> ok d'
        \<and> users d' = (users d)(u := None)"
    and select_ok: "ok d \<Longrightarrow> f 1 = SText u \<Longrightarrow>
      \<exists>ch d' ct ut. sq_run A sql_select_user f d =
          (case users d u of None \<Rightarrow> [] | Some (sa, pw) \<Rightarrow> [[SText u, SText sa, SText pw, SInt ct, SInt ut]],
           True, ch, d') \<and> ok d' \<and> users d' = users d"
    and update_ok: "ok d \<Longrightarrow> f 1 = SText sa \<Longrightarrow> f 2 = SText pw \<Longrightarrow> f 3 = SText u \<Longrightarrow>
      \<exists>d'. sq_run A sql_update_user f d = ([], True, if users d u = None then 0 else 1, d') \<and> ok d'
        \<and> users d' = (if users d u = None then users d else (users d)(u \<mapsto> (sa, pw)))"
begin

lemma bind_all_ok: "ok d \<Longrightarrow> sql \<in> set user_sqls \<Longrightarrow> bind_all A sql bs d"
  by (induction bs) (auto simp: bind_ok)

lemma get_conn_ok: "ok (sm_db m) \<Longrightarrow> \<exists>c m1. GetConn A m = (Some c, m1) \<and> sm_db m1 = sm_db m"
  using pop_conn_eq [of 3 m] open_ok
  by (auto simp: GetConn_def CreateConn_def numeral_eq_Suc BQ_PopBack_def split: if_splits)

lemma run_dml_ok:
  assumes "ok (sm_db m)" and "sql \<in> set user_sqls"
    and "sq_run A sql (bound binds) (sm_db m) = ([], True, ch, d')" and "ch = 0 \<or> ch = 1"
  shows "\<exists>m'. run_dml A sql binds aff m = ((Err_Success, ch), m') \<and> sm_db m' = d'"
proof -
  obtain c m1 where "GetConn A m = (Some c, m1)" "sm_db m1 = sm_db m" using get_conn_ok [OF assms(1)] by blast
  then show ?thesis
    using assms prepare_ok [OF assms(1,2)] bind_all_ok [OF assms(1,2)]
    by (auto simp: run_dml_def PutConn_def to_i32_def)
qed

lemma select_user_ok:
  assumes "ok (sm_db (us_db st))"
  shows "\<exists>st' ct ut. SelectUser A user st =
      ((Err_Success, extract_rows UsersRow_Extract
          (case users (sm_db (us_db st)) user of
             None \<Rightarrow> [] | Some (sa, pw) \<Rightarrow> [[SText user, SText sa, SText pw, SInt ct, SInt ut]])), st')
    \<and> ok (sm_db (us_db st')) \<and> users (sm_db (us_db st')) = users (sm_db (us_db st)) \<and> us_sess st' = us_sess st"
proof -
  let ?d = "sm_db (us_db st)" and ?b = "[(1, SText user)]"
  have sql: "sql_select_user \<in> set user_sqls" by (simp add: user_sqls_def)
  obtain c m1 where get: "GetConn A (us_db st) = (Some c, m1)" "sm_db m1 = ?d"
    using get_conn_ok [OF assms] by blast
  have "bound ?b 1 = SText user" by simp
  from select_ok [where f = "bound ?b", OF assms this] obtain ch d' ct ut where run:
    "sq_run A sql_select_user (bound ?b) ?d =
      (case users ?d user of None \<Rightarrow> [] | Some (sa, pw) \<Rightarrow> [[SText user, SText sa, SText pw, SInt ct, SInt ut]],
       True, ch, d')" "ok d'" "users d' = users ?d" by blast
  show ?thesis
    using get run prepare_ok [OF assms sql] bind_ok [OF assms sql]
    by (simp add: SelectUser_def Select_def PutConn_def hold_stmt_def fail_of_def err_defs del: bound.simps)
      blast
qed

lemma verify_ok:
  assumes "ok (sm_db (us_db st))" and "stored_ok (users (sm_db (us_db st)))"
    and "\<not> bad_user user" and "\<not> bad_password password"
  shows "\<exists>st'. User_VerifyPassword A C user password st =
      (Some (case users (sm_db (us_db st)) user of
               None \<Rightarrow> Err_User_not_exists
             | Some (sa, pw) \<Rightarrow>
                 if VerifyPassword (cr_pbkdf2 C) (cr_fmt C) password sa pw then Err_Success
                 else Err_User_passwd_error), st')
    \<and> ok (sm_db (us_db st')) \<and> users (sm_db (us_db st')) = users (sm_db (us_db st)) \<and> us_sess st' = us_sess st"
proof -
  obtain st' ct ut where sel: "SelectUser A user st =
      ((Err_Success, extract_rows UsersRow_Extract
          (case users (sm_db (us_db st)) user of
             None \<Rightarrow> [] | Some (sa, pw) \<Rightarrow> [[SText user, SText sa, SText pw, SInt ct, SInt ut]])), st')"
    and st': "ok (sm_db (us_db st'))" "users (sm_db (us_db st')) = users (sm_db (us_db st))" "us_sess st' = us_sess st"
    using select_user_ok [OF assms(1)] by blast
  show ?thesis
  proof (cases "users (sm_db (us_db st)) user")
    case None
    then show ?thesis using sel st' assms(3,4) by (simp add: User_VerifyPassword_def err_defs)
  next
    case (Some sp)
    obtain sa pw where sp: "sp = (sa, pw)" by (cases sp)
    have "UsersRow_Extract [SText user, SText sa, SText pw, SInt ct, SInt ut] =
        Some \<lparr>ur_user = c_str user, ur_salt = sa, ur_password = pw, ur_create_time = ct, ur_update_time = ut\<rparr>"
      using stored_okD [OF assms(2)] Some sp by (auto simp: UsersRow_Extract_def fixed_text_def)
    then show ?thesis using Some sp sel st' assms(3,4) by (simp add: User_VerifyPassword_def err_defs)
  qed
qed

lemma register_ok:
  assumes "ok (sm_db (us_db st))" and "healthy_crypto C" and "ce_rnd e = Some b" and "length b = kSaltSize"
    and "\<not> bad_user user" and "\<not> bad_password password"
  shows "\<exists>st'. UserRegister A C e user password token st =
      (Some (if users (sm_db (us_db st)) (c_str user) = None then (Err_Success, ce_uuid e)
             else (Err_User_exists, token)), st')
    \<and> ok (sm_db (us_db st'))
    \<and> users (sm_db (us_db st')) =
        (if users (sm_db (us_db st)) (c_str user) = None
         then (users (sm_db (us_db st)))(c_str user \<mapsto> account C b password) else users (sm_db (us_db st)))
    \<and> us_sess st' =
        (if users (sm_db (us_db st)) (c_str user) = None
         then snd (GenerateToken (ce_uuid e) (ce_now e) user (us_sess st)) else us_sess st)"
proof -
  let ?d = "sm_db (us_db st)"
  obtain sa pw where acc: "account C b password = (sa, pw)" by (cases "account C b password")
  have salt: "GenerateSalt (cr_fmt C) (ce_rnd e) = Some sa"
    and hash: "HashPassword (cr_pbkdf2 C) (cr_fmt C) password sa = Some pw"
    and nul: "c_str sa = sa" "c_str pw = pw"
    using account_made [OF assms(2,3) acc] by auto
  let ?b = "[(1, SText (c_str user)), (2, SText (c_str sa)), (3, SText (c_str pw)),
    (4, SInt (ce_now e)), (5, SInt (ce_now e))]"
  have sql: "sql_insert_user \<in> set user_sqls" by (simp add: user_sqls_def)
  obtain d' where run: "sq_run A sql_insert_user (bound ?b) ?d =
      ([], True, if users ?d (c_str user) = None then 1 else 0, d')" and d': "ok d'"
    "users d' = (if users ?d (c_str user) = None then (users ?d)(c_str user \<mapsto> (sa, pw)) else users ?d)"
    using insert_ok [where f = "bound ?b" and u = "c_str user" and sa = sa and pw = pw, OF assms(1)]
    by (auto simp: nul)
  obtain m' where dml: "Sqlite_Insert A sql_insert_user ?b 0 (us_db st) =
      ((Err_Success, if users ?d (c_str user) = None then 1 else 0), m')" "sm_db m' = d'"
    using run_dml_ok [OF assms(1) sql run, of 0] unfolding Sqlite_Insert_def by (cases "users ?d (c_str user) = None") (simp_all only: if_True if_False simp_thms, blast+)
  show ?thesis
  proof (cases "users ?d (c_str user) = None")
    case True
    obtain t se where gt: "GenerateToken (ce_uuid e) (ce_now e) user (us_sess st) = (t, se)"
      by (cases "GenerateToken (ce_uuid e) (ce_now e) user (us_sess st)")
    have "t = ce_uuid e" using gt by (simp add: GenerateToken_def Let_def)
    then show ?thesis
      using True salt hash dml d' assms(5,6) acc gt
      by (simp add: UserRegister_def err_defs Let_def del: bound.simps)
  next
    case False
    then obtain x where "users ?d (c_str user) = Some x" by blast
    then show ?thesis
      using salt hash dml d' assms(5,6) acc
      by (simp add: UserRegister_def err_defs Let_def del: bound.simps)
  qed
qed

lemma delete_user_ok:
  assumes "ok (sm_db (us_db st))"
  shows "\<exists>st'. UserDelete A login u token st =
      (if bad_user u \<or> u = ''admin'' then Err_User_name_error
       else if (login = ''admin'' \<or> login = u) \<and> users (sm_db (us_db st)) (c_str u) \<noteq> None then Err_Success
       else Err_User_not_exists, st')
    \<and> ok (sm_db (us_db st'))
    \<and> users (sm_db (us_db st')) =
        (if \<not> bad_user u \<and> u \<noteq> ''admin'' \<and> (login = ''admin'' \<or> login = u)
         then (users (sm_db (us_db st)))(c_str u := None) else users (sm_db (us_db st)))
    \<and> us_sess st' =
        (if \<not> bad_user u \<and> u \<noteq> ''admin'' \<and> (login = ''admin'' \<or> login = u) \<and> users (sm_db (us_db st)) (c_str u) \<noteq> None
         then KickoutByToken token (us_sess st) else us_sess st)"
proof (cases "bad_user u \<or> u = ''admin'' \<or> \<not> (login = ''admin'' \<or> login = u)")
  case True
  then show ?thesis using assms by (auto simp: UserDelete_def)
next
  case False
  let ?d = "sm_db (us_db st)" and ?b = "[(1, SText (c_str u))]"
  have sql: "sql_delete_user \<in> set user_sqls" by (simp add: user_sqls_def)
  obtain d' where run: "sq_run A sql_delete_user (bound ?b) ?d =
      ([], True, if users ?d (c_str u) = None then 0 else 1, d')" and d': "ok d'" "users d' = (users ?d)(c_str u := None)"
    using delete_ok [where f = "bound ?b" and u = "c_str u", OF assms] by auto
  obtain m' where "Sqlite_Delete A sql_delete_user ?b 0 (us_db st) =
      ((Err_Success, if users ?d (c_str u) = None then 0 else 1), m')" "sm_db m' = d'"
    using run_dml_ok [OF assms sql run, of 0] unfolding Sqlite_Delete_def by (cases "users ?d (c_str u) = None") (simp_all only: if_True if_False simp_thms, blast+)
  then show ?thesis
    using False d' by (auto simp: UserDelete_def err_defs Let_def simp del: bound.simps)
qed

lemma change_ok:
  assumes "ok (sm_db (us_db st))" and "stored_ok (users (sm_db (us_db st)))" and "healthy_crypto C"
    and "ce_rnd e = Some b" and "length b = kSaltSize"
    and "\<not> bad_user user" and "\<not> bad_password new_pw" and "\<not> bad_password old_pw"
    and "users (sm_db (us_db st)) user = Some (sa0, pw0)"
    and "VerifyPassword (cr_pbkdf2 C) (cr_fmt C) old_pw sa0 pw0"
  shows "\<exists>st'. ChangePassword A C e user old_pw new_pw token st = (Some (Err_Success, ce_uuid e), st')
    \<and> ok (sm_db (us_db st'))
    \<and> users (sm_db (us_db st')) = (users (sm_db (us_db st)))(user \<mapsto> account C b new_pw)
    \<and> us_sess st' = snd (GenerateToken (ce_uuid e) (ce_now e) user (us_sess st))"
proof -
  obtain st1 where ver: "User_VerifyPassword A C user old_pw st = (Some Err_Success, st1)"
    and st1: "ok (sm_db (us_db st1))" "users (sm_db (us_db st1)) = users (sm_db (us_db st))" "us_sess st1 = us_sess st"
    using verify_ok [OF assms(1,2,6,8), of C] assms(9,10) by auto
  obtain sa pw where acc: "account C b new_pw = (sa, pw)" by (cases "account C b new_pw")
  have salt: "GenerateSalt (cr_fmt C) (ce_rnd e) = Some sa"
    and hash: "HashPassword (cr_pbkdf2 C) (cr_fmt C) new_pw sa = Some pw"
    using account_made [OF assms(3,4) acc] by auto
  let ?b = "[(3, SText user), (1, SText sa), (2, SText pw)]" and ?d = "sm_db (us_db st1)"
  have sql: "sql_update_user \<in> set user_sqls" by (simp add: user_sqls_def)
  obtain d' where run: "sq_run A sql_update_user (bound ?b) ?d = ([], True, 1, d')" and d': "ok d'"
    "users d' = (users ?d)(user \<mapsto> (sa, pw))"
    using update_ok [where f = "bound ?b" and u = user and sa = sa and pw = pw, OF st1(1)] st1(2) assms(9)
    by auto
  obtain m' where dml: "Sqlite_Update A sql_update_user ?b 0 (us_db st1) = ((Err_Success, 1), m')" "sm_db m' = d'"
    using run_dml_ok [OF st1(1) sql run] unfolding Sqlite_Update_def by auto
  obtain t se where gt: "GenerateToken (ce_uuid e) (ce_now e) user (us_sess st) = (t, se)"
    by (cases "GenerateToken (ce_uuid e) (ce_now e) user (us_sess st)")
  have "t = ce_uuid e" using gt by (simp add: GenerateToken_def Let_def)
  then show ?thesis
    using ver st1 salt hash dml d' assms(6,7) acc gt
    by (simp add: ChangePassword_def err_defs Let_def del: bound.simps)
qed

end

section \<open>A database with these laws\<close>

text \<open>The users table as an association list, with the four statements interpreted on it.\<close>

type_synonym utable = "(string \<times> string \<times> string) list"

fun text_of :: "sql_val \<Rightarrow> string" where
  "text_of (SText s) = s"
| "text_of _ = []"

definition table_run :: "string \<Rightarrow> (nat \<Rightarrow> sql_val) \<Rightarrow> utable \<Rightarrow> sql_row list \<times> bool \<times> int \<times> utable" where
  "table_run sql f d =
     (if sql = sql_insert_user then
        (case map_of d (text_of (f 1)) of
           None \<Rightarrow> ([], True, 1, AList.update (text_of (f 1)) (text_of (f 2), text_of (f 3)) d)
         | Some _ \<Rightarrow> ([], True, 0, d))
      else if sql = sql_delete_user then
        ([], True, if map_of d (text_of (f 1)) = None then 0 else 1, AList.delete (text_of (f 1)) d)
      else if sql = sql_select_user then
        (case map_of d (text_of (f 1)) of
           None \<Rightarrow> ([], True, 0, d)
         | Some (sa, pw) \<Rightarrow> ([[SText (text_of (f 1)), SText sa, SText pw, SInt 0, SInt 0]], True, 0, d))
      else if sql = sql_update_user then
        (case map_of d (text_of (f 3)) of
           None \<Rightarrow> ([], True, 0, d)
         | Some _ \<Rightarrow> ([], True, 1, AList.update (text_of (f 3)) (text_of (f 1), text_of (f 2)) d))
      else ([], False, 0, d))"

definition users_table :: "utable sqlite_api" where
  "users_table =
     \<lparr>sq_open = (\<lambda>p d. True), sq_exec = (\<lambda>q d. (True, d)), sq_prepare = (\<lambda>q d. True),
      sq_bind = (\<lambda>q i v d. True), sq_run = table_run\<rparr>"

lemma user_sqls_distinct:
  "sql_delete_user \<noteq> sql_insert_user" "sql_select_user \<noteq> sql_insert_user" "sql_update_user \<noteq> sql_insert_user"
  "sql_select_user \<noteq> sql_delete_user" "sql_update_user \<noteq> sql_delete_user" "sql_update_user \<noteq> sql_select_user"
  by code_simp+

lemma select_text_eq: "f (1::nat) = SText u \<Longrightarrow> text_of (f 1) = u"
  by simp

interpretation utab: users_db users_table map_of "\<lambda>_. True"
proof unfold_locales
  fix d :: utable and f :: "nat \<Rightarrow> sql_val" and u
  assume f: "f 1 = SText u"
  show "\<exists>ch d' ct ut. sq_run users_table sql_select_user f d =
      (case map_of d u of None \<Rightarrow> [] | Some (sa, pw) \<Rightarrow> [[SText u, SText sa, SText pw, SInt ct, SInt ut]],
       True, ch, d') \<and> True \<and> map_of d' = map_of d"
    using f
    by (auto simp: users_table_def table_run_def user_sqls_distinct split: option.splits)
next
  fix d :: utable and f :: "nat \<Rightarrow> sql_val" and u
  assume f: "f 1 = SText u"
  show "\<exists>d'. sq_run users_table sql_delete_user f d =
      ([], True, if map_of d u = None then 0 else 1, d') \<and> True \<and> map_of d' = (map_of d)(u := None)"
    using f by (auto simp: users_table_def table_run_def user_sqls_distinct delete_conv')
next
  fix d :: utable and f :: "nat \<Rightarrow> sql_val" and u sa pw
  assume f: "f 1 = SText u" "f 2 = SText sa" "f 3 = SText pw"
  show "\<exists>d'. sq_run users_table sql_insert_user f d = ([], True, if map_of d u = None then 1 else 0, d') \<and> True
      \<and> map_of d' = (if map_of d u = None then (map_of d)(u \<mapsto> (sa, pw)) else map_of d)"
    using f by (cases "map_of d u") (simp_all add: users_table_def table_run_def update_conv')
next
  fix d :: utable and f :: "nat \<Rightarrow> sql_val" and sa pw u
  assume f: "f 1 = SText sa" "f 2 = SText pw" "f 3 = SText u"
  show "\<exists>d'. sq_run users_table sql_update_user f d = ([], True, if map_of d u = None then 0 else 1, d') \<and> True
      \<and> map_of d' = (if map_of d u = None then map_of d else (map_of d)(u \<mapsto> (sa, pw)))"
    using f
    by (cases "map_of d u") (simp_all add: users_table_def table_run_def user_sqls_distinct update_conv')
qed (simp_all add: users_table_def)

section \<open>Properties\<close>

text \<open>Parameters and states for the witnesses: keys of the right length, one admin account.\<close>

definition demo_key :: "string \<Rightarrow> string \<Rightarrow> nat \<Rightarrow> nat \<Rightarrow> bytes option" where
  "demo_key pw salt n k = Some (take k (pw @ replicate k (CHR 0x00)))"

definition demo_crypto :: crypto where
  "demo_crypto = \<lparr>cr_fmt = hex_pad, cr_pbkdf2 = demo_key\<rparr>"

definition demo_salt :: bytes where
  "demo_salt = replicate 16 (CHR ''s'')"

definition demo_env :: "string \<Rightarrow> call_env" where
  "demo_env uuid = \<lparr>ce_now = 1000, ce_uuid = uuid, ce_rnd = Some demo_salt\<rparr>"

definition demo_users :: "utable user_st" where
  "demo_users =
     \<lparr>us_db = \<lparr>sm_conns = [0], sm_open = [0], sm_next = 1, sm_stmts = [], sm_path = ''db'',
        sm_db = [(''admin'', account demo_crypto demo_salt ''adminpass'')]\<rparr>,
      us_sess = no_sessions\<rparr>"

lemma demo_crypto_healthy: "healthy_crypto demo_crypto"
  using hex_ref.fmt_hex_axioms by (auto simp: healthy_crypto_def demo_crypto_def demo_key_def)

lemma demo_salt_length: "length demo_salt = kSaltSize"
  by (simp add: demo_salt_def kSaltSize_def)

lemma demo_users_stored: "stored_ok (map_of (sm_db (us_db demo_users)))"
proof -
  have "stored_ok (Map.empty(''admin'' \<mapsto> account demo_crypto demo_salt ''adminpass''))"
    by (rule stored_ok_account [OF _ demo_crypto_healthy demo_salt_length]) (simp add: stored_ok_def)
  then show ?thesis by (simp add: demo_users_def)
qed

lemma c_str_plain: "CHR 0x00 \<notin> set s \<Longrightarrow> c_str s = s"
  by (metis c_str_def takeWhile_neq_id)

lemma verify_account:
  assumes "healthy_crypto C" and "account C b pw = (sa, h)"
  shows "VerifyPassword (cr_pbkdf2 C) (cr_fmt C) pw' sa h \<longleftrightarrow>
    cr_pbkdf2 C pw' sa kIterations kDerivedKeySize = cr_pbkdf2 C pw sa kIterations kDerivedKeySize"
proof -
  have fmt: "fmt_hex (cr_fmt C)" using assms(1) by (simp add: healthy_crypto_def)
  have "HashPassword (cr_pbkdf2 C) (cr_fmt C) pw sa = Some h"
    using account_made [OF assms(1) _ assms(2), of "\<lparr>ce_now = 0, ce_uuid = [], ce_rnd = Some b\<rparr>"] by simp
  then show ?thesis
    using fmt_hex.hex_str_inj [OF fmt]
    by (auto simp: VerifyPassword_def HashPassword_def split: option.splits)
qed

text \<open>
  C14: Whoever registered can log in: after a successful \<^verbatim>\<open>UserRegister\<close>, \<^verbatim>\<open>UserLogin\<close> with the same
  password succeeds and yields a new token; with another password, from which PBKDF2 derives another
  key, it is refused as a password error.  (User names without NUL bytes.)
\<close>

theorem register_then_login:
  assumes "users_db A users ok" and "healthy_crypto C" and "ok (sm_db (us_db st))"
    and "stored_ok (users (sm_db (us_db st)))" and "ce_rnd e1 = Some b" and "length b = kSaltSize"
    and "CHR 0x00 \<notin> set user" and "UserRegister A C e1 user pw tok st = (Some (Err_Success, t), st1)"
    and "\<not> bad_password pw'"
  shows "fst (UserLogin A C e2 user pw' tok2 st1) =
    Some (if cr_pbkdf2 C pw' (fst (account C b pw)) kIterations kDerivedKeySize
             = cr_pbkdf2 C pw (fst (account C b pw)) kIterations kDerivedKeySize
          then (Err_Success, ce_uuid e2) else (Err_User_passwd_error, tok2))"
proof -
  have good: "\<not> bad_user user" "\<not> bad_password pw"
    using assms(8) by (auto simp: UserRegister_def err_defs split: if_splits)
  have plain: "c_str user = user" using assms(7) by (rule c_str_plain)
  obtain sa h where acc: "account C b pw = (sa, h)" by (cases "account C b pw")
  have reg: "ok (sm_db (us_db st1))"
    "users (sm_db (us_db st1)) = (users (sm_db (us_db st)))(user \<mapsto> (sa, h))"
    using users_db.register_ok [OF assms(1,3,2,5,6) good, of tok] assms(8) plain acc
    by (auto simp: err_defs split: if_splits)
  have st1: "stored_ok (users (sm_db (us_db st1)))"
    using reg(2) stored_ok_account [OF assms(4,2,6), of user pw] acc by simp
  have "users (sm_db (us_db st1)) user = Some (sa, h)" using reg(2) by simp
  then obtain st2 where "User_VerifyPassword A C user pw' st1 =
      (Some (if VerifyPassword (cr_pbkdf2 C) (cr_fmt C) pw' sa h then Err_Success else Err_User_passwd_error), st2)"
    using users_db.verify_ok [OF assms(1) reg(1) st1 good(1) assms(9), of C] by auto
  then show ?thesis
    using verify_account [OF assms(2) acc, of pw'] acc
    by (auto simp: UserLogin_def err_defs GenerateToken_def Let_def)
qed

lemma demo_register:
  "UserRegister users_table demo_crypto (demo_env ''t1'') ''bob'' ''bobspass'' '''' demo_users =
    (Some (Err_Success, ''t1''), snd (UserRegister users_table demo_crypto (demo_env ''t1'') ''bob'' ''bobspass'' '''' demo_users))"
proof -
  have "c_str ''bob'' = ''bob''" by (simp add: c_str_def)
  then have "map_of (sm_db (us_db demo_users)) (c_str ''bob'') = None" by (simp add: demo_users_def)
  then show ?thesis
    using utab.register_ok [OF TrueI demo_crypto_healthy _ demo_salt_length, of "demo_env ''t1''" "''bob''" "''bobspass''"
        "''''" demo_users]
    by (auto simp: demo_env_def bad_user_def bad_password_def)
qed

theorem register_then_login_witness:
  "fst (UserLogin users_table demo_crypto (demo_env ''t2'') ''bob'' ''bobspass'' ''''
      (snd (UserRegister users_table demo_crypto (demo_env ''t1'') ''bob'' ''bobspass'' '''' demo_users))) = Some (Err_Success, ''t2'')"
  using register_then_login [OF utab.users_db_axioms demo_crypto_healthy TrueI demo_users_stored _ demo_salt_length _
      demo_register, of "''bobspass''" "demo_env ''t2''" "''''"]
  by (simp add: demo_env_def bad_password_def)



text \<open>
  \<^verbatim>\<open>UserDelete\<close> removes an account only for the administrator or for the account's own user, kicks
  out the token that was passed in, and never anything else; all other cases leave every account and
  session as it was and return the matching error.
\<close>

theorem UserDelete_permission:
  assumes "users_db A users ok" and "ok (sm_db (us_db st))" and "UserDelete A login u token st = (ret, st')"
  shows "users (sm_db (us_db st')) =
      (if ret = Err_Success then (users (sm_db (us_db st)))(c_str u := None) else users (sm_db (us_db st)))
    \<and> (ret = Err_Success \<longrightarrow> login = ''admin'' \<or> login = u)
    \<and> (ret = Err_Success \<longleftrightarrow> \<not> bad_user u \<and> u \<noteq> ''admin'' \<and> (login = ''admin'' \<or> login = u)
          \<and> users (sm_db (us_db st)) (c_str u) \<noteq> None)
    \<and> us_sess st' = (if ret = Err_Success then KickoutByToken token (us_sess st) else us_sess st)"
proof -
  have absent: "acc(c_str u := None) = acc" if "acc (c_str u) = None" for acc :: "string \<rightharpoonup> string \<times> string"
    using that by (rule fun_upd_idem)
  show ?thesis
    using users_db.delete_user_ok [OF assms(1,2), of login u token] assms(3) absent [of "users (sm_db (us_db st))"]
    by (cases "users (sm_db (us_db st)) (c_str u)") (auto simp: err_defs split: if_splits)
qed

theorem UserDelete_permission_witness:
  "fst (UserDelete users_table ''bob'' ''carl'' ''tok'' demo_users) \<noteq> Err_Success"
proof -
  obtain ret st' where run: "UserDelete users_table ''bob'' ''carl'' ''tok'' demo_users = (ret, st')"
    by (cases "UserDelete users_table ''bob'' ''carl'' ''tok'' demo_users")
  from UserDelete_permission [OF utab.users_db_axioms TrueI run] run show ?thesis by auto
qed

section \<open>Sequences of user operations\<close>

datatype user_call =
  URegister call_env string string | UDelete string string string | ULogin call_env string string
  | ULogout string | UExists string | UChange call_env string string string
  | UUpdate call_env string string

fun exec_user :: "'d sqlite_api \<Rightarrow> crypto \<Rightarrow> user_call \<Rightarrow> 'd user_st \<Rightarrow> 'd user_st" where
  "exec_user A C (URegister e u p) st = snd (UserRegister A C e u p '''' st)"
| "exec_user A C (UDelete login u t) st = snd (UserDelete A login u t st)"
| "exec_user A C (ULogin e u p) st = snd (UserLogin A C e u p '''' st)"
| "exec_user A C (ULogout t) st = snd (UserLogout t st)"
| "exec_user A C (UExists u) st = snd (UserExists A u st)"
| "exec_user A C (UChange e u p q) st = snd (ChangePassword A C e u p q '''' st)"
| "exec_user A C (UUpdate e u t) st = snd (UpdateToken e u t '''' st)"

definition env_ok :: "call_env \<Rightarrow> bool" where
  "env_ok e \<longleftrightarrow> (case ce_rnd e of None \<Rightarrow> True | Some b \<Rightarrow> length b = kSaltSize)"

text \<open>Random bytes of the length asked for, and no NUL byte in the name of a user to delete.\<close>

fun call_ok :: "user_call \<Rightarrow> bool" where
  "call_ok (URegister e u p) = env_ok e"
| "call_ok (UChange e u p q) = env_ok e"
| "call_ok (UDelete login u t) = (CHR 0x00 \<notin> set u)"
| "call_ok _ = True"

definition accounts_inv ::
  "('d \<Rightarrow> string \<rightharpoonup> string \<times> string) \<Rightarrow> ('d \<Rightarrow> bool) \<Rightarrow> 'd user_st \<Rightarrow> bool" where
  "accounts_inv users ok st \<longleftrightarrow>
     ok (sm_db (us_db st)) \<and> stored_ok (users (sm_db (us_db st)))
     \<and> users (sm_db (us_db st)) ''admin'' \<noteq> None"

lemma accounts_inv_same:
  assumes "accounts_inv users ok st" and "ok (sm_db (us_db st'))"
    and "users (sm_db (us_db st')) = users (sm_db (us_db st))"
  shows "accounts_inv users ok st'"
  using assms by (simp add: accounts_inv_def)

lemma accounts_inv_put:
  assumes "accounts_inv users ok st" and "ok (sm_db (us_db st'))" and "healthy_crypto C" and "length b = kSaltSize"
    and "users (sm_db (us_db st')) = (users (sm_db (us_db st)))(u \<mapsto> account C b pw)"
  shows "accounts_inv users ok st'"
  using assms stored_ok_account [OF _ assms(3,4), of "users (sm_db (us_db st))" u pw]
  by (simp add: accounts_inv_def)

context users_db
begin

lemma register_inv:
  assumes "accounts_inv users ok st" and "healthy_crypto C" and "env_ok e"
  shows "accounts_inv users ok (snd (UserRegister A C e u p tok st))"
proof -
  have okd: "ok (sm_db (us_db st))" using assms(1) by (simp add: accounts_inv_def)
  show ?thesis
  proof (cases "bad_user u \<or> bad_password p \<or> ce_rnd e = None")
    case True
    then show ?thesis using assms(1) by (auto simp: UserRegister_def GenerateSalt_def)
  next
    case False
    then obtain b where b: "ce_rnd e = Some b" by auto
    then have len: "length b = kSaltSize" using assms(3) by (simp add: env_ok_def)
    obtain st' where "snd (UserRegister A C e u p tok st) = st'" "ok (sm_db (us_db st'))"
      "users (sm_db (us_db st')) =
        (if users (sm_db (us_db st)) (c_str u) = None
         then (users (sm_db (us_db st)))(c_str u \<mapsto> account C b p) else users (sm_db (us_db st)))"
      using register_ok [OF okd assms(2) b len, of u p tok] False by auto
    then show ?thesis
      using accounts_inv_put [OF assms(1) _ assms(2) len, of st' "c_str u" p] accounts_inv_same [OF assms(1), of st']
      by (cases "users (sm_db (us_db st)) (c_str u)") auto
  qed
qed

lemma delete_inv:
  assumes "accounts_inv users ok st" and "CHR 0x00 \<notin> set u"
  shows "accounts_inv users ok (snd (UserDelete A login u tok st))"
proof -
  have okd: "ok (sm_db (us_db st))" using assms(1) by (simp add: accounts_inv_def)
  obtain st' where "snd (UserDelete A login u tok st) = st'" "ok (sm_db (us_db st'))"
    "users (sm_db (us_db st')) =
      (if \<not> bad_user u \<and> u \<noteq> ''admin'' \<and> (login = ''admin'' \<or> login = u)
       then (users (sm_db (us_db st)))(u := None) else users (sm_db (us_db st)))"
    using delete_user_ok [OF okd, of login u tok] c_str_plain [OF assms(2)] by auto
  then show ?thesis
    using assms(1) by (auto simp: accounts_inv_def stored_ok_def split: if_splits)
qed

lemma select_inv:
  assumes "accounts_inv users ok st"
  shows "accounts_inv users ok (snd (SelectUser A u st))"
proof -
  have "ok (sm_db (us_db st))" using assms by (simp add: accounts_inv_def)
  from select_user_ok [OF this, of u] show ?thesis
    using accounts_inv_same [OF assms] by fastforce
qed

lemma verify_inv:
  assumes "accounts_inv users ok st"
  shows "accounts_inv users ok (snd (User_VerifyPassword A C u p st))"
  using assms select_inv [OF assms, of u]
  by (cases "SelectUser A u st") (auto simp: User_VerifyPassword_def split: option.splits list.splits)

lemma login_inv:
  assumes "accounts_inv users ok st"
  shows "accounts_inv users ok (snd (UserLogin A C e u p tok st))"
  using verify_inv [OF assms, of C u p]
  by (cases "User_VerifyPassword A C u p st")
    (auto simp: UserLogin_def accounts_inv_def split: option.splits prod.splits)

lemma exists_inv:
  assumes "accounts_inv users ok st"
  shows "accounts_inv users ok (snd (UserExists A u st))"
  using assms select_inv [OF assms, of u]
  by (cases "SelectUser A u st") (auto simp: UserExists_def split: option.splits list.splits)

lemma change_inv:
  assumes "accounts_inv users ok st" and "healthy_crypto C" and "env_ok e"
  shows "accounts_inv users ok (snd (ChangePassword A C e u p q tok st))"
proof -
  obtain ro st1 where ver: "User_VerifyPassword A C u p st = (ro, st1)" by (cases "User_VerifyPassword A C u p st")
  have inv1: "accounts_inv users ok st1" using verify_inv [OF assms(1), of C u p] ver by simp
  show ?thesis
  proof (cases "bad_user u \<or> bad_password q \<or> ro \<noteq> Some 0 \<or> ce_rnd e = None")
    case True
    then show ?thesis
      using assms(1) ver inv1 by (auto simp: ChangePassword_def GenerateSalt_def split: option.splits)
  next
    case False
    then obtain b where b: "ce_rnd e = Some b" by auto
    then have len: "length b = kSaltSize" using assms(3) by (simp add: env_ok_def)
    obtain sa pw where acc: "account C b q = (sa, pw)" by (cases "account C b q")
    let ?b = "[(3, SText u), (1, SText sa), (2, SText pw)]" and ?d = "sm_db (us_db st1)"
    have okd: "ok ?d" using inv1 by (simp add: accounts_inv_def)
    have sql: "sql_update_user \<in> set user_sqls" by (simp add: user_sqls_def)
    obtain d' where run: "sq_run A sql_update_user (bound ?b) ?d = ([], True, if users ?d u = None then 0 else 1, d')"
      and d': "ok d'" "users d' = (if users ?d u = None then users ?d else (users ?d)(u \<mapsto> (sa, pw)))"
      using update_ok [where f = "bound ?b" and u = u and sa = sa and pw = pw, OF okd] by auto
    obtain m' where dml: "Sqlite_Update A sql_update_user ?b 0 (us_db st1) =
        ((Err_Success, if users ?d u = None then 0 else 1), m')" "sm_db m' = d'"
      using run_dml_ok [OF okd sql run, of 0] unfolding Sqlite_Update_def
      by (cases "users ?d u = None") (simp_all only: if_True if_False simp_thms, blast+)
    have res: "us_db (snd (ChangePassword A C e u p q tok st)) = m'"
      using False ver dml account_made [OF assms(2) b acc]
      by (auto simp: ChangePassword_def err_defs Let_def simp del: bound.simps split: prod.splits)
    show ?thesis
      using res dml(2) d' accounts_inv_put [OF inv1 _ assms(2) len, of _ u q] accounts_inv_same [OF inv1] acc
      by (cases "users ?d u") auto
  qed
qed

lemma update_token_inv:
  "accounts_inv users ok st \<Longrightarrow> accounts_inv users ok (snd (UpdateToken e u t tok st))"
  by (auto simp: UpdateToken_def accounts_inv_def split: prod.splits option.splits)

lemma logout_inv: "accounts_inv users ok st \<Longrightarrow> accounts_inv users ok (snd (UserLogout t st))"
  by (simp add: UserLogout_def accounts_inv_def)

lemma exec_user_inv:
  assumes "accounts_inv users ok st" and "healthy_crypto C" and "call_ok c"
  shows "accounts_inv users ok (exec_user A C c st)"
  using assms
  by (cases c)
    (auto intro: register_inv delete_inv login_inv exists_inv change_inv update_token_inv logout_inv)

end

sublocale users_db \<subseteq> calls: op_invariant "exec_user A C" "\<lambda>c. call_ok c \<and> healthy_crypto C" "accounts_inv users ok"
  for C
  by unfold_locales (blast intro: exec_user_inv)

context users_db
begin

lemma exec_users_inv:
  "accounts_inv users ok st \<Longrightarrow> list_all (\<lambda>c. call_ok c \<and> healthy_crypto C) cs
   \<Longrightarrow> accounts_inv users ok (fold (exec_user A C) cs st)"
  by (rule calls.run_inv)

end

text \<open>
  C8: The administrator's account cannot be lost: through every sequence of registrations, logins,
  logouts, password changes, token refreshes and deletions, with any arguments (names to delete
  without NUL bytes), the users table keeps an \<^verbatim>\<open>admin\<close> entry, and all stored salts and hashes have the
  lengths that row extraction relies on.
\<close>

theorem admin_never_lost:
  assumes "users_db A users ok" and "healthy_crypto C" and "accounts_inv users ok st" and "list_all call_ok cs"
  shows "accounts_inv users ok (fold (exec_user A C) cs st)"
  using users_db.exec_users_inv [OF assms(1,3), of C cs] assms(2,4) by (simp add: list_all_iff)

theorem admin_never_lost_witness:
  "map_of (sm_db (us_db (fold (exec_user users_table demo_crypto)
      [URegister (demo_env ''t1'') ''bob'' ''bobspass'', UDelete ''admin'' ''admin'' '''', UDelete ''bob'' ''bob'' ''t1'']
      demo_users))) ''admin'' \<noteq> None"
proof -
  have inv: "accounts_inv map_of (\<lambda>_. True) demo_users"
    using demo_users_stored by (simp add: accounts_inv_def) (simp add: demo_users_def)
  have calls: "list_all call_ok [URegister (demo_env ''t1'') ''bob'' ''bobspass'', UDelete ''admin'' ''admin'' '''', UDelete ''bob'' ''bob'' ''t1'']"
    by (simp add: env_ok_def demo_env_def demo_salt_length)
  from admin_never_lost [OF utab.users_db_axioms demo_crypto_healthy inv calls] show ?thesis
    by (simp add: accounts_inv_def)
qed

text \<open>
  The guard against deleting the administrator compares C++ strings, but the name is bound as a C
  string: asked by the administrator to delete the user \<^verbatim>\<open>admin\<close> followed by a NUL byte, \<^verbatim>\<open>UserDelete\<close>
  deletes the administrator's account and returns success.
\<close>

theorem UserDelete_nul_deletes_admin:
  assumes "users_db A users ok" and "ok (sm_db (us_db st))" and "users (sm_db (us_db st)) ''admin'' \<noteq> None"
    and "UserDelete A ''admin'' (''admin'' @ [CHR 0x00]) token st = (ret, st')"
  shows "ret = Err_Success \<and> users (sm_db (us_db st')) ''admin'' = None"
proof -
  let ?u = "''admin'' @ [CHR 0x00]"
  have "c_str ?u = ''admin''" "\<not> bad_user ?u" "?u \<noteq> ''admin''"
    by (simp_all add: c_str_def bad_user_def)
  then show ?thesis
    using users_db.delete_user_ok [OF assms(1,2), of "''admin''" ?u token] assms(3,4) by auto
qed

theorem UserDelete_nul_deletes_admin_witness:
  "map_of (sm_db (us_db (snd (UserDelete users_table ''admin'' (''admin'' @ [CHR 0x00]) '''' demo_users)))) ''admin'' = None"
proof -
  obtain ret st' where run: "UserDelete users_table ''admin'' (''admin'' @ [CHR 0x00]) '''' demo_users = (ret, st')"
    by (cases "UserDelete users_table ''admin'' (''admin'' @ [CHR 0x00]) '''' demo_users")
  have "map_of (sm_db (us_db demo_users)) ''admin'' \<noteq> None" by (simp add: demo_users_def)
  from UserDelete_nul_deletes_admin [OF utab.users_db_axioms TrueI this run] run show ?thesis by simp
qed

end
