(* ===== verification/Config.thy ===== *)
theory Config
  imports UtilFile Proto
begin

text \<open>
  The server's configuration and identity: \<^verbatim>\<open>src/src/util/config_manager.h\<close>, the handshake of
  \<^verbatim>\<open>src/src/impl/server_manager.h\<close> and the discovery service of \<^verbatim>\<open>src/src/server/udp_server_impl.cc\<close>.
  The JSON conversions are parameters; a parser yields its success flag and the message it leaves
  behind.  \<open>None\<close> is an exception that leaves the function.
\<close>

record BaseConfig =
  bc_server_addr :: string
  bc_grpc_server_port :: nat
  bc_http_server_port :: nat
  bc_metric_ratio :: nat
  bc_metric_interval_sec :: nat
  bc_discard_ratio :: nat
  bc_grpc_threads :: nat
  bc_event_threads :: nat
  bc_use_https :: bool
  bc_server_ssl_cert :: string
  bc_server_ssl_key :: string
  bc_server_ssl_ca :: string

record config_json =
  cj_base_in :: "string \<Rightarrow> BaseConfig \<Rightarrow> bool \<times> BaseConfig"
  cj_meta_in :: "string \<Rightarrow> string \<Rightarrow> bool \<times> string"
  cj_meta_out :: "string \<Rightarrow> string option"

text \<open>The two members; of the message \<^verbatim>\<open>ServerMeta\<close> its only field.\<close>

record config_st =
  cf_base :: BaseConfig
  cf_server_uuid :: string

definition ServerUUID :: "config_st \<Rightarrow> string" where
  "ServerUUID c = cf_server_uuid c"

definition UdpServerPort :: "config_st \<Rightarrow> nat" where
  "UdpServerPort c = bc_grpc_server_port (cf_base c)"

text \<open>
  Loading an existing identity.  The flag says that the function returns early; otherwise it goes on to
  make a new identity, with what it has read still in \<^verbatim>\<open>content\<close>.
\<close>

definition load_meta :: "config_json \<Rightarrow> string \<Rightarrow> config_st \<Rightarrow> fs \<Rightarrow> (bool \<times> string \<times> config_st) option" where
  "load_meta J meta_path c s =
     (if Exists s meta_path then
        (case LoadSmallFile s meta_path '''' of
           Inl e \<Rightarrow> None
         | Inr (False, content) \<Rightarrow> Some (False, content, c)
         | Inr (True, content) \<Rightarrow>
             (case cj_meta_in J content (cf_server_uuid c) of
                (ok, u) \<Rightarrow> Some (ok, content, c\<lparr>cf_server_uuid := u\<rparr>)))
      else Some (False, '''', c))"

text \<open>
  Note the last test of the source, \<^verbatim>\<open>!Util::WriteToFile(...)\<close>: the function returns an error code, so
  the branch is taken on success.  \<^verbatim>\<open>MessageToJson\<close> appends to its output.
\<close>

definition GenerateServerUuid ::
  "config_json \<Rightarrow> string \<Rightarrow> string \<Rightarrow> config_st \<Rightarrow> fs \<Rightarrow> (config_st \<times> fs) option" where
  "GenerateServerUuid J uuid data_dir c s =
     (let meta_path = data_dir @ ''/server_meta.json''
      in case load_meta J meta_path c s of
           None \<Rightarrow> None
         | Some (True, _, c1) \<Rightarrow> Some (c1, s)
         | Some (False, content, c1) \<Rightarrow>
             (let c2 = c1\<lparr>cf_server_uuid := uuid\<rparr>
              in case cj_meta_out J (cf_server_uuid c2) of
                   None \<Rightarrow> Some (c2\<lparr>cf_server_uuid := ''''\<rparr>, s)
                 | Some json \<Rightarrow>
                     (case WriteToFile meta_path (content @ json) False s of
                        (ret, s1) \<Rightarrow>
                          if ret = 0 then Some (c2\<lparr>cf_server_uuid := ''''\<rparr>, s1) else Some (c2, s1))))"

definition Config_Init ::
  "config_json \<Rightarrow> string \<Rightarrow> string \<Rightarrow> string \<Rightarrow> config_st \<Rightarrow> fs \<Rightarrow> (bool \<times> config_st \<times> fs) option" where
  "Config_Init J uuid home_dir base_config_path c s =
     (case LoadSmallFile s base_config_path '''' of
        Inl e \<Rightarrow> None
      | Inr (False, content) \<Rightarrow> Some (False, c, s)
      | Inr (True, content) \<Rightarrow>
          (case cj_base_in J content (cf_base c) of
             (ok, b) \<Rightarrow>
               if \<not> ok then Some (False, c\<lparr>cf_base := b\<rparr>, s)
               else map_option (\<lambda>(c1, s1). (True, c1, s1))
                      (GenerateServerUuid J uuid (home_dir @ ''/data'') (c\<lparr>cf_base := b\<rparr>) s)))"

section \<open>Handshake and discovery\<close>

definition HandShake :: "config_st \<Rightarrow> ServerReq \<Rightarrow> ServerRes \<Rightarrow> int \<times> ServerRes" where
  "HandShake c req res =
     (Err_Success,
      res\<lparr>ss_handshake_msg := ''7a3be8186493f1bc834e3a6b84fcb2f9dc6d042e93d285ec23fa56836889dfa9'',
          ss_server_uuid := ServerUUID c\<rparr>)"

definition ServerOpHandle :: "config_st \<Rightarrow> ServerReq \<Rightarrow> ServerRes \<Rightarrow> ServerRes" where
  "ServerOpHandle c req res =
     (let (ret, res1) = (if sq_op req = Op_ServerHandShake then HandShake c req res else (Err_Fail, res))
      in if ret \<noteq> 0 then res1\<lparr>ss_err_code := ret\<rparr> else res1\<lparr>ss_err_code := Err_Success\<rparr>)"

definition ServerReq_default :: ServerReq where
  "ServerReq_default = \<lparr>sq_request_id = '''', sq_op = Op_ServerUnused, sq_path = '''', sq_repo_uuid = ''''\<rparr>"

definition ServerRes_default :: ServerRes where
  "ServerRes_default = \<lparr>ss_err_code = 0, ss_status = '''', ss_server_uuid = '''', ss_handshake_msg = ''''\<rparr>"

text \<open>
  \<^verbatim>\<open>UdpServer::HandleMessage\<close>: the datagrams it answers with, in order.  There is no return after the
  response to a message that does not parse.
\<close>

definition HandleMessage :: "(string \<Rightarrow> ServerReq \<Rightarrow> bool \<times> ServerReq) \<Rightarrow> string \<Rightarrow> ServerRes list" where
  "HandleMessage parse json_str =
     (let server_res = ServerRes_default\<lparr>ss_err_code := Err_Fail\<rparr>;
          (ok, server_req) = parse json_str ServerReq_default;
          sent = (if \<not> ok then [server_res] else []);
          server_res1 =
            (if sq_op server_req = Op_ServerFindingServer
             then server_res\<lparr>ss_err_code := Err_Success, ss_handshake_msg := ''fstaion''\<rparr>
             else server_res)
      in sent @ [server_res1])"

section \<open>Properties\<close>

text \<open>What is asked of the JSON form of the identity: it can be printed and read back.\<close>

locale meta_codec =
  fixes J :: config_json
  assumes meta_roundtrip: "\<exists>t. cj_meta_out J u = Some t \<and> (\<forall>old. cj_meta_in J t old = (True, u))"
begin

text \<open>After the identity has been written, every later start loads it.\<close>

lemma start_after_write:
  assumes "reg_file s (dir @ ''/server_meta.json'') p t" and "cj_meta_out J u = Some t"
  shows "GenerateServerUuid J u' dir c s = Some (c\<lparr>cf_server_uuid := u\<rparr>, s)"
proof -
  have "Exists s (dir @ ''/server_meta.json'')"
    using reg_file_status [OF assms(1)] by (simp add: Exists_iff)
  moreover have "LoadSmallFile s (dir @ ''/server_meta.json'') '''' = Inr (True, t)"
    using reg_file_read [OF assms(1)] by (simp add: LoadSmallFile_def)
  moreover have "cj_meta_in J t old = (True, u)" for old
    using meta_roundtrip [of u] assms(2) by auto
  ultimately show ?thesis by (simp add: GenerateServerUuid_def load_meta_def)
qed

lemma first_start:
  assumes "fs_wf s" and "fs_faults s = []" and "plain_at (dir @ ''/server_meta.json'') p"
    and "writable (fs_nodes s) p" and "kind_at (fs_nodes s) p = None"
  shows "\<exists>t s'. cj_meta_out J u = Some t \<and> reg_file s' (dir @ ''/server_meta.json'') p t
    \<and> GenerateServerUuid J u dir c s = Some (c\<lparr>cf_server_uuid := ''''\<rparr>, s')"
proof -
  obtain t where t: "cj_meta_out J u = Some t" using meta_roundtrip by blast
  obtain s' where w: "WriteToFile (dir @ ''/server_meta.json'') t False s = (Err_Success, s')"
    "reg_file s' (dir @ ''/server_meta.json'') p t"
    using WriteToFile_plain [OF assms(1-4), of t False] by auto
  have "\<not> Exists s (dir @ ''/server_meta.json'')"
    using missing_status [OF assms(1,3,5)] assms(4) by (auto simp: Exists_iff writable_def)
  then show ?thesis
    using t w by (auto simp: GenerateServerUuid_def load_meta_def Err_Success_def)
qed

end

text \<open>A codec with this law: the uuid itself is its text.\<close>

definition config_json_ref :: config_json where
  "config_json_ref =
     \<lparr>cj_base_in = (\<lambda>t b. (True, b\<lparr>bc_server_addr := t\<rparr>)), cj_meta_in = (\<lambda>t old. (True, t)), cj_meta_out = Some\<rparr>"

interpretation mref: meta_codec config_json_ref
  by unfold_locales (simp add: config_json_ref_def)

definition demo_config :: config_st where
  "demo_config =
     \<lparr>cf_base = \<lparr>bc_server_addr = '''', bc_grpc_server_port = 10001, bc_http_server_port = 10003,
        bc_metric_ratio = 0, bc_metric_interval_sec = 0, bc_discard_ratio = 0, bc_grpc_threads = 4,
        bc_event_threads = 4, bc_use_https = False, bc_server_ssl_cert = '''', bc_server_ssl_key = '''',
        bc_server_ssl_ca = ''''\<rparr>,
      cf_server_uuid = ''''\<rparr>"

text \<open>
  On the first start, with no identity on disk and a file system that accepts the write, the new
  server uuid is stored but the running server forgets it, because the result of \<^verbatim>\<open>WriteToFile\<close> is tested
  with the wrong sign: it reports an empty uuid in its handshakes.  Only from the second start on, which
  loads the file, does the server answer with the uuid, and with the same one at every start.
\<close>

theorem server_uuid_from_second_start:
  assumes "meta_codec J" and "fs_wf s" and "fs_faults s = []" and "plain_at (dir @ ''/server_meta.json'') p"
    and "writable (fs_nodes s) p" and "kind_at (fs_nodes s) p = None"
  shows "\<exists>c1 s1. GenerateServerUuid J u dir c s = Some (c1, s1)
    \<and> ss_server_uuid (ServerOpHandle c1 (ServerReq_default\<lparr>sq_op := Op_ServerHandShake\<rparr>) res) = ''''
    \<and> (\<exists>c2. GenerateServerUuid J u' dir c' s1 = Some (c2, s1)
        \<and> ss_server_uuid (ServerOpHandle c2 (ServerReq_default\<lparr>sq_op := Op_ServerHandShake\<rparr>) res) = u)"
proof -
  obtain t s1 where 1: "cj_meta_out J u = Some t" "reg_file s1 (dir @ ''/server_meta.json'') p t"
    "GenerateServerUuid J u dir c s = Some (c\<lparr>cf_server_uuid := ''''\<rparr>, s1)"
    using meta_codec.first_start [OF assms, of u c] by blast
  show ?thesis
    using 1(3) meta_codec.start_after_write [OF assms(1) 1(2,1), of u' c']
    by (simp add: ServerOpHandle_def HandShake_def ServerUUID_def Err_Success_def ServerReq_default_def)
qed

theorem server_uuid_from_second_start_witness:
  "\<exists>c1 s1. GenerateServerUuid config_json_ref ''u1'' ''/a'' demo_config demo_fs = Some (c1, s1)
    \<and> ss_server_uuid (ServerOpHandle c1 (ServerReq_default\<lparr>sq_op := Op_ServerHandShake\<rparr>) ServerRes_default) = ''''
    \<and> (\<exists>c2. GenerateServerUuid config_json_ref ''u2'' ''/a'' demo_config s1 = Some (c2, s1)
        \<and> ss_server_uuid (ServerOpHandle c2 (ServerReq_default\<lparr>sq_op := Op_ServerHandShake\<rparr>) ServerRes_default) = ''u1'')"
proof -
  have "plain_at (''/a'' @ ''/server_meta.json'') [''a'', ''server_meta.json'']" by code_simp
  moreover have "writable (fs_nodes demo_fs) [''a'', ''server_meta.json'']" by code_simp
  moreover have "kind_at (fs_nodes demo_fs) [''a'', ''server_meta.json''] = None" by code_simp
  ultimately show ?thesis
    using server_uuid_from_second_start [OF mref.meta_codec_axioms demo_wf demo_faults] by blast
qed

text \<open>
  The discovery service answers every datagram it can parse with one datagram, which announces the
  server exactly when it was asked for one; a datagram that does not parse is answered twice.
\<close>

lemma HandleMessage_responses:
  assumes "parse t ServerReq_default = (ok, req)"
  shows "length (HandleMessage parse t) = (if ok then 1 else 2)
    \<and> (ss_err_code (last (HandleMessage parse t)) = Err_Success \<longleftrightarrow> sq_op req = Op_ServerFindingServer)"
  using assms
  by (simp add: HandleMessage_def ServerRes_default_def Err_Success_def Err_Fail_def Let_def)

end
