(* ===== verification/Handlers.thy ===== *)
theory Handlers
  imports RepoManager UserManager Config
begin

text \<open>
  The request handlers behind every transport: \<^verbatim>\<open>src/src/server/handler_proxy/\<close>.  One record gathers
  the library parameters, another the state of the managers a request can reach.  A handler yields
  the response, or \<open>None\<close> when an exception leaves it, and the new state.
\<close>

record 'd libs =
  lb_sql :: "'d sqlite_api"
  lb_crypto :: crypto
  lb_json :: json_api
  lb_boost :: boost_api
  lb_xxh :: "string \<Rightarrow> int"

record 'd server =
  sv_user :: "'d user_st"
  sv_repo :: repo_st
  sv_fs :: fs
  sv_fpm :: fpm_st

text \<open>\<^verbatim>\<open>ret ? ErrCode(ret) : Success\<close>, the end of every handler.\<close>

definition res_code :: "int \<Rightarrow> int" where
  "res_code ret = (if ret \<noteq> 0 then ret else Err_Success)"

section \<open>User requests\<close>

text \<open>
  The three checks before the switch, in order; each failure only sets the error code, which is
  tested at the end.  The result is that code and \<^verbatim>\<open>session_user\<close>.
\<close>

definition user_gate :: "call_env \<Rightarrow> UserReq \<Rightarrow> sessions \<Rightarrow> int \<times> string" where
  "user_gate e req se =
     (let err0 = Err_Success;
          err1 = (if uq_token req = '''' \<and> uq_op req \<noteq> Op_UserCreate \<and> uq_op req \<noteq> Op_UserLogin
                  then Err_User_session_error else err0);
          (err2, session_user) =
            (if uq_token req \<noteq> '''' then
               (case ValidateSession (ce_now e) (uq_token req) se of
                  None \<Rightarrow> (Err_User_session_error, '''')
                | Some u \<Rightarrow> (err1, u))
             else (err1, ''''));
          err3 = (if session_user \<noteq> '''' \<and> session_user \<noteq> uq_user req
                  then Err_User_session_error else err2)
      in (err3, session_user))"

text \<open>The switch: the return value and \<^verbatim>\<open>res->token\<close>.\<close>

definition user_switch ::
  "'d libs \<Rightarrow> call_env \<Rightarrow> UserReq \<Rightarrow> string \<Rightarrow> string \<Rightarrow> 'd user_st \<Rightarrow> (int \<times> string) option \<times> 'd user_st" where
  "user_switch L e req session_user token st =
     (case uq_op req of
        Op_UserCreate \<Rightarrow> UserRegister (lb_sql L) (lb_crypto L) e (uq_user req) (uq_password req) token st
      | Op_UserDelete \<Rightarrow>
          (case UserDelete (lb_sql L) session_user (uq_to_delete_user req) (uq_token req) st of
             (ret, st1) \<Rightarrow> (Some (ret, token), st1))
      | Op_UserLogin \<Rightarrow> UserLogin (lb_sql L) (lb_crypto L) e (uq_user req) (uq_password req) token st
      | Op_UserChangePassword \<Rightarrow>
          ChangePassword (lb_sql L) (lb_crypto L) e (uq_user req) (uq_old_password req) (uq_password req) token st
      | Op_UserLogout \<Rightarrow>
          (case UserLogout (uq_token req) st of (ret, st1) \<Rightarrow> (Some (ret, token), st1))
      | Op_UserUpdateToken \<Rightarrow>
          (case UpdateToken e (uq_user req) (uq_token req) token st of (r, st1) \<Rightarrow> (Some r, st1))
      | Op_UserUnused \<Rightarrow> (Some (Err_Fail, token), st))"

definition UserOpHandle ::
  "'d libs \<Rightarrow> call_env \<Rightarrow> UserReq \<Rightarrow> UserRes \<Rightarrow> 'd server \<Rightarrow> UserRes option \<times> 'd server" where
  "UserOpHandle L e req res sv =
     (case user_gate e req (us_sess (sv_user sv)) of
        (err, session_user) \<Rightarrow>
          if err \<noteq> 0 then (Some (res\<lparr>us_err_code := err\<rparr>), sv)
          else (case user_switch L e req session_user (us_token res) (sv_user sv) of
                  (r, st1) \<Rightarrow>
                    (map_option (\<lambda>(ret, t). res\<lparr>us_err_code := res_code ret, us_token := t\<rparr>) r,
                     sv\<lparr>sv_user := st1\<rparr>)))"

section \<open>Repository requests\<close>

definition repo_gate :: "call_env \<Rightarrow> RepoReq \<Rightarrow> sessions \<Rightarrow> bool" where
  "repo_gate e req se \<longleftrightarrow>
     rq_token req \<noteq> ''''
     \<and> (case ValidateSession (ce_now e) (rq_token req) se of
          None \<Rightarrow> False
        | Some session_user \<Rightarrow> \<not> (session_user \<noteq> '''' \<and> session_user \<noteq> rq_user req))"

definition repo_switch ::
  "'d libs \<Rightarrow> repo_env \<Rightarrow> RepoReq \<Rightarrow> RepoRes \<Rightarrow> 'd server \<Rightarrow> (int \<times> RepoRes) option \<times> 'd server" where
  "repo_switch L re req res sv =
     (case rq_op req of
        Op_RepoListUserRepo \<Rightarrow> (Some (ListUserRepo req res (sv_repo sv)), sv)
      | Op_RepoListServerDir \<Rightarrow> (Some (ListServerDir req res (sv_fs sv)), sv)
      | Op_RepoCreateServerDir \<Rightarrow>
          (case CreateServerDir req (sv_fs sv) of (ret, s1) \<Rightarrow> (Some (ret, res), sv\<lparr>sv_fs := s1\<rparr>))
      | Op_RepoCreateRepo \<Rightarrow>
          (case CreateRepo (lb_json L) re req res (sv_repo sv) (sv_fs sv) of
             None \<Rightarrow> (None, sv)
           | Some (ret, res1, st1, s1) \<Rightarrow> (Some (ret, res1), sv\<lparr>sv_repo := st1, sv_fs := s1\<rparr>))
      | Op_RepoDeleteRepo \<Rightarrow>
          (case DeleteRepo (lb_json L) req (sv_repo sv) (sv_fs sv) of
             (ret, st1, s1) \<Rightarrow> (Some (ret, res), sv\<lparr>sv_repo := st1, sv_fs := s1\<rparr>))
      | Op_RepoListRepoDir \<Rightarrow> (Some (ListRepoDir req, res), sv)
      | Op_RepoListRepoMediaFiles \<Rightarrow>
          (case ListRepoMediaFiles (lb_sql L) (us_db (sv_user sv)) of
             (r, db) \<Rightarrow>
               (map_option (\<lambda>ret. (ret, res)) r, sv\<lparr>sv_user := (sv_user sv)\<lparr>us_db := db\<rparr>\<rparr>))
      | _ \<Rightarrow> (Some (Err_Fail, res), sv))"

definition RepoOpHandle ::
  "'d libs \<Rightarrow> call_env \<Rightarrow> repo_env \<Rightarrow> RepoReq \<Rightarrow> RepoRes \<Rightarrow> 'd server \<Rightarrow> RepoRes option \<times> 'd server" where
  "RepoOpHandle L e re req res sv =
     (if \<not> repo_gate e req (us_sess (sv_user sv))
      then (Some (res\<lparr>rs_err_code := Err_User_session_error\<rparr>), sv)
      else (case repo_switch L re req res sv of
              (r, sv1) \<Rightarrow> (map_option (\<lambda>(ret, res1). res1\<lparr>rs_err_code := res_code ret\<rparr>) r, sv1)))"

section \<open>File requests\<close>

definition Save ::
  "'d libs \<Rightarrow> FileReqX \<Rightarrow> 'd server \<Rightarrow> int option \<times> 'd server" where
  "Save L req sv =
     (if fq_repo_type req = RT_Ocean then
        (case Repo_WriteToFile (lb_boost L) (lb_xxh L) (sv_repo sv) (FileReq.truncate req) (sv_fs sv, sv_fpm sv) of
           None \<Rightarrow> (None, sv)
         | Some (ret, s1, fp1) \<Rightarrow> (Some ret, sv\<lparr>sv_fs := s1, sv_fpm := fp1\<rparr>))
      else (Some Err_Fail, sv))"

definition Read ::
  "'d libs \<Rightarrow> FileReqX \<Rightarrow> FileResX \<Rightarrow> 'd server \<Rightarrow> (int \<times> FileResX) option" where
  "Read L req res sv =
     (if fq_repo_type req = RT_Ocean then
        map_option (\<lambda>(ret, c). (ret, res\<lparr>fs_content := c\<rparr>))
          (ReadFile (lb_boost L) (FileReq.truncate req) (fs_content res) (sv_repo sv) (sv_fs sv))
      else Some (Err_Fail, res))"

text \<open>
  The checks of \<^verbatim>\<open>FileHandler::Exists\<close> after its early returns: \<open>Inl\<close> is an exception of the file
  system library.  The type \<^verbatim>\<open>FT_Unused\<close> passes.
\<close>

definition type_matches :: "FileType \<Rightarrow> string \<Rightarrow> fs \<Rightarrow> errno + bool" where
  "type_matches t dst s =
     (case t of
        FT_Regular \<Rightarrow> fs_is_regular s dst
      | FT_Direcotry \<Rightarrow> fs_is_directory s dst
      | FT_Symlink \<Rightarrow> fs_is_symlink s dst
      | FT_Unused \<Rightarrow> Inr True)"

definition FileExists ::
  "FileReqX \<Rightarrow> FileResX \<Rightarrow> fs \<Rightarrow> (int \<times> FileResX) option \<times> fs" where
  "FileExists req res s =
     (if \<not> Exists s (fx_dst req) \<and> fx_file_type req = FT_Direcotry then
        (Some (Err_Success, res), snd (Mkdir (fx_dst req) s))
      else if \<not> Exists s (fx_dst req) \<and> fx_file_type req = FT_Symlink then
        (Some (Err_Success, res), snd (CreateSymlink (fx_dst req) (fq_content req) s))
      else case type_matches (fx_file_type req) (fx_dst req) s of
             Inl e \<Rightarrow> (None, s)
           | Inr same \<Rightarrow>
               (let ret = (if same then Err_Success else Err_Fail);
                    t = UpdateTime s (fx_dst req)
                in (Some (ret, if t \<noteq> -1 \<and> t = fx_update_time req then res\<lparr>fs_can_skip_upload := True\<rparr> else res), s)))"

definition Delete :: "FileReqX \<Rightarrow> int" where
  "Delete req = Err_Success"

definition file_switch ::
  "'d libs \<Rightarrow> FileReqX \<Rightarrow> FileResX \<Rightarrow> 'd server \<Rightarrow> (int \<times> FileResX) option \<times> 'd server" where
  "file_switch L req res sv =
     (case fq_op req of
        Op_FilePut \<Rightarrow> (case Save L req sv of (r, sv1) \<Rightarrow> (map_option (\<lambda>ret. (ret, res)) r, sv1))
      | Op_FileGet \<Rightarrow> (Read L req res sv, sv)
      | Op_FileExists \<Rightarrow> (case FileExists req res (sv_fs sv) of (r, s1) \<Rightarrow> (r, sv\<lparr>sv_fs := s1\<rparr>))
      | Op_FileDelete \<Rightarrow> (Some (Delete req, res), sv)
      | _ \<Rightarrow> (Some (Err_Success, res), sv))"

definition FileOpHandle ::
  "'d libs \<Rightarrow> call_env \<Rightarrow> FileReqX \<Rightarrow> FileResX \<Rightarrow> 'd server \<Rightarrow> FileResX option \<times> 'd server" where
  "FileOpHandle L e req res sv =
     (if fq_repo_type req = RT_Ocean
         \<and> UserValidateSession e (fq_user req) (fq_token req) (us_sess (sv_user sv)) \<noteq> 0
      then (Some (res\<lparr>fs_err_code := Err_User_session_error\<rparr>), sv)
      else (let res1 = res\<lparr>fr_src := fx_src req, fr_dst := fx_dst req, fs_file_hash := fx_file_hash req,
                           fr_partition_num := fx_partition_num req, fr_res_type := fx_file_type req,
                           fs_request_id := fq_request_id req, fs_op := fq_op req\<rparr>
            in (case file_switch L req res1 sv of
                  (r, sv1) \<Rightarrow> (map_option (\<lambda>(ret, res2). res2\<lparr>fs_err_code := res_code ret\<rparr>) r, sv1))))"

section \<open>Requests and the tokens the server has handed out\<close>

text \<open>
  How an operation of the user manager may change the sessions: it hands out the fresh token for a
  user with an admissible name and reports success, or it leaves the sessions alone.
\<close>

definition issues ::
  "call_env \<Rightarrow> string \<Rightarrow> 'd user_st \<Rightarrow> (int \<times> string) option \<times> 'd user_st \<Rightarrow> bool" where
  "issues e user st out \<longleftrightarrow>
     (fst out = Some (Err_Success, ce_uuid e) \<and> \<not> bad_user user
        \<and> us_sess (snd out) = snd (GenerateToken (ce_uuid e) (ce_now e) user (us_sess st)))
     \<or> (us_sess (snd out) = us_sess st \<and> (\<forall>t. fst out \<noteq> Some (0, t)))"

lemmas err_codes =
  Err_Success_def Err_Fail_def Err_User_session_error_def Err_User_name_error_def
  Err_User_passwd_error_def Err_User_exists_def Err_User_not_exists_def

lemma register_issues: "issues e user st (UserRegister A C e user password token st)"
  unfolding UserRegister_def
  by (auto simp: Let_def err_codes GenerateToken_def issues_def
      split: option.splits prod.splits)

lemma verify_sess: "User_VerifyPassword A C user password st = (r, st') \<Longrightarrow> us_sess st' = us_sess st"
  by (auto simp: User_VerifyPassword_def SelectUser_def split: if_splits option.splits list.splits prod.splits)

lemma verify_user: "User_VerifyPassword A C user password st = (Some 0, st') \<Longrightarrow> \<not> bad_user user"
  by (auto simp: User_VerifyPassword_def err_codes split: if_splits)

lemma login_issues: "issues e user st (UserLogin A C e user password token st)"
  unfolding UserLogin_def
  by (auto simp: issues_def GenerateToken_def Let_def err_codes dest: verify_user verify_sess split: option.splits prod.splits)

lemma change_issues: "issues e user st (ChangePassword A C e user old_password new_password token st)"
proof (cases "User_VerifyPassword A C user old_password st")
  case (Pair r st1)
  then show ?thesis
    using verify_sess [OF Pair]
    by (auto simp: ChangePassword_def issues_def GenerateToken_def Let_def err_codes
        split: option.splits prod.splits)
qed

text \<open>One user request against the log of tokens handed out.\<close>

definition handed_out :: "UserReq \<Rightarrow> UserRes option \<Rightarrow> (string \<times> string) list \<Rightarrow> (string \<times> string) list" where
  "handed_out req r log =
     (case r of
        Some res \<Rightarrow>
          if us_err_code res = Err_Success
             \<and> uq_op req \<in> {Op_UserCreate, Op_UserLogin, Op_UserChangePassword, Op_UserUpdateToken}
          then (us_token res, uq_user req) # log else log
      | None \<Rightarrow> log)"

text \<open>
  \<open>server_reach L sv log\<close>: the server can be in state \<open>sv\<close> after a boot and any sequence of requests,
  the uuids drawn being non-empty and new; \<open>log\<close> lists the tokens that occurred in successful responses, with
  the user that asked.  Restarts forget all tokens.
\<close>

inductive server_reach :: "'d libs \<Rightarrow> 'd server \<Rightarrow> (string \<times> string) list \<Rightarrow> bool" for L where
  boot: "us_sess (sv_user sv) = no_sessions \<Longrightarrow> server_reach L sv []"
| user_request: "\<lbrakk>server_reach L sv log; ce_uuid e \<notin> fst ` set log; ce_uuid e \<noteq> '''';
      UserOpHandle L e req res sv = (r, sv')\<rbrakk>
    \<Longrightarrow> server_reach L sv' (handed_out req r log)"
| repo_request: "\<lbrakk>server_reach L sv log; RepoOpHandle L e re rreq rres sv = (rr, sv')\<rbrakk>
    \<Longrightarrow> server_reach L sv' log"
| file_request: "\<lbrakk>server_reach L sv log; FileOpHandle L e freq fres sv = (fr, sv')\<rbrakk>
    \<Longrightarrow> server_reach L sv' log"

lemma issues_reach:
  assumes "issues e user st (r, st')" and "sess_reach (us_sess st) log"
    and "ce_uuid e \<notin> fst ` set log" and "ce_uuid e \<noteq> ''''"
  shows "sess_reach (us_sess st')
    (case r of Some (ret, t) \<Rightarrow> if ret = 0 then (t, user) # log else log | None \<Rightarrow> log)"
  using assms sess_reach.generate [OF assms(2-4), of "ce_now e" user]
  by (auto simp: issues_def Err_Success_def split: option.splits prod.splits)

lemma delete_reach:
  "sess_reach (us_sess st) log \<Longrightarrow> sess_reach (us_sess (snd (UserDelete A login u t st))) log"
  by (auto simp: UserDelete_def Let_def split: prod.splits intro: sess_reach.kick_token)

lemma update_reach:
  assumes "sess_reach (us_sess st) log" and "ce_uuid e \<notin> fst ` set log" and "ce_uuid e \<noteq> ''''"
    and "UpdateToken e user token t0 st = ((ret, t), st')"
  shows "sess_reach (us_sess st') (if ret = 0 then (t, user) # log else log)"
proof (cases "UpdateSession (ce_uuid e) (ce_now e) user token (us_sess st)")
  case (Pair x m')
  show ?thesis
  proof (cases x)
    case None
    then show ?thesis using Pair assms
      by (auto simp: UpdateToken_def UpdateSession_def err_codes Let_def split: if_splits option.splits)
  next
    case (Some y)
    then have "y = ce_uuid e" using Pair by (auto elim: UpdateSession_SomeE simp: UpdateSession_def Let_def split: if_splits option.splits)
    then show ?thesis
      using Pair Some assms sess_reach.refresh [OF assms(1-3), of "ce_now e" user token m']
      by (auto simp: UpdateToken_def err_codes split: if_splits)
  qed
qed

lemma switch_issues:
  "uq_op req \<in> {Op_UserCreate, Op_UserLogin, Op_UserChangePassword}
    \<Longrightarrow> issues e (uq_user req) st (user_switch L e req su t0 st)"
  by (auto simp: user_switch_def register_issues login_issues change_issues)

lemma switch_reach:
  assumes "sess_reach (us_sess st) log" and "ce_uuid e \<notin> fst ` set log" and "ce_uuid e \<noteq> ''''"
    and "user_switch L e req su t0 st = (r, st')"
  shows "sess_reach (us_sess st')
    (handed_out req (map_option (\<lambda>(ret, t). res\<lparr>us_err_code := res_code ret, us_token := t\<rparr>) r) log)"
proof -
  have iss: ?thesis if "uq_op req \<in> {Op_UserCreate, Op_UserLogin, Op_UserChangePassword}"
    using issues_reach [OF _ assms(1-3), of "uq_user req" r st'] switch_issues [OF that, of e st L su t0] assms(4) that
    by (auto simp: handed_out_def res_code_def Err_Success_def split: option.splits if_splits)
  show ?thesis
  proof (cases "uq_op req")
    case Op_UserUnused
    then show ?thesis using assms by (auto simp: user_switch_def handed_out_def)
  next
    case Op_UserCreate
    then show ?thesis using iss by simp
  next
    case Op_UserDelete
    then show ?thesis using assms delete_reach [OF assms(1)]
      by (auto simp: user_switch_def handed_out_def split: prod.splits) (metis snd_conv)
  next
    case Op_UserLogin
    then show ?thesis using iss by simp
  next
    case Op_UserLogout
    then show ?thesis using assms
      by (auto simp: user_switch_def handed_out_def UserLogout_def intro: sess_reach.kick_token)
  next
    case Op_UserChangePassword
    then show ?thesis using iss by simp
  next
    case Op_UserUpdateToken
    then obtain ret t where "UpdateToken e (uq_user req) (uq_token req) t0 st = ((ret, t), st')" "r = Some (ret, t)"
      using assms(4) by (auto simp: user_switch_def split: prod.splits)
    then show ?thesis using update_reach [OF assms(1-3)] Op_UserUpdateToken
      by (fastforce simp: handed_out_def res_code_def Err_Success_def)
  qed
qed

lemma repo_keeps_sessions:
  "RepoOpHandle L e re req res sv = (r, sv') \<Longrightarrow> us_sess (sv_user sv') = us_sess (sv_user sv)"
  by (auto simp: RepoOpHandle_def repo_switch_def split: if_splits prod.splits option.splits RepoOp.splits)

lemma file_keeps_sessions:
  "FileOpHandle L e req res sv = (r, sv') \<Longrightarrow> us_sess (sv_user sv') = us_sess (sv_user sv)"
  by (auto simp: FileOpHandle_def file_switch_def Save_def Let_def
      split: if_splits prod.splits option.splits FileOp.splits)

lemma user_request_reach:
  assumes "sess_reach (us_sess (sv_user sv)) log" and "ce_uuid e \<notin> fst ` set log" and "ce_uuid e \<noteq> ''''"
    and "UserOpHandle L e req res sv = (r, sv')"
  shows "sess_reach (us_sess (sv_user sv')) (handed_out req r log)"
proof (cases "user_gate e req (us_sess (sv_user sv))")
  case (Pair err su)
  obtain r' st' where run: "user_switch L e req su (us_token res) (sv_user sv) = (r', st')"
    by (cases "user_switch L e req su (us_token res) (sv_user sv)")
  show ?thesis
    using Pair assms(1,4) switch_reach [OF assms(1-3) run, of res]
    by (auto simp: UserOpHandle_def run handed_out_def Err_Success_def split: if_splits)
qed

lemma server_sessions: "server_reach L sv log \<Longrightarrow> sess_reach (us_sess (sv_user sv)) log"
proof (induction rule: server_reach.induct)
  case (boot sv)
  then show ?case by (simp add: sess_reach.start)
next
  case (user_request sv log e req res r sv')
  then show ?case using user_request_reach by blast
qed (simp_all add: repo_keeps_sessions file_keeps_sessions)


text \<open>A token is only ever handed to an admissible user name, so never to the empty one.\<close>

lemma switch_user:
  assumes "user_switch L e req su t0 st = (Some (0, t), st')"
    and "uq_op req \<in> {Op_UserCreate, Op_UserLogin, Op_UserChangePassword, Op_UserUpdateToken}"
  shows "\<not> bad_user (uq_user req)"
proof (cases "uq_op req = Op_UserUpdateToken")
  case True
  then show ?thesis using assms(1)
    by (auto simp: user_switch_def UpdateToken_def err_codes split: if_splits prod.splits)
next
  case False
  then have "issues e (uq_user req) st (Some (0, t), st')"
    using switch_issues [of req e st L su t0] assms by auto
  then show ?thesis by (auto simp: issues_def)
qed

lemma handed_out_named:
  assumes "UserOpHandle L e req res sv = (r, sv')" and "(t, u) \<in> set (handed_out req r log)" and "(t, u) \<notin> set log"
  shows "u \<noteq> ''''"
proof (cases "user_gate e req (us_sess (sv_user sv))")
  case (Pair err su)
  obtain r' st' where run: "user_switch L e req su (us_token res) (sv_user sv) = (r', st')"
    by (cases "user_switch L e req su (us_token res) (sv_user sv)")
  have "\<exists>t. r' = Some (0, t)" "uq_op req \<in> {Op_UserCreate, Op_UserLogin, Op_UserChangePassword, Op_UserUpdateToken}"
    "u = uq_user req"
    using Pair run assms
    by (auto simp: UserOpHandle_def handed_out_def res_code_def Err_Success_def split: option.splits if_splits)
  with run show ?thesis using switch_user by (fastforce simp: bad_user_def)
qed

lemma server_names: "server_reach L sv log \<Longrightarrow> (t, u) \<in> set log \<Longrightarrow> u \<noteq> ''''"
proof (induction rule: server_reach.induct)
  case (user_request sv log e req res r sv')
  then show ?case using handed_out_named by (cases "(t, u) \<in> set log") blast+
qed simp_all

lemma accepted_token:
  assumes "server_reach L sv log" and "ValidateSession now token (us_sess (sv_user sv)) = Some u"
  shows "(token, u) \<in> set log \<and> u \<noteq> ''''"
proof -
  have "(token, u) \<in> set log"
    using assms(2) sess_inv_token [OF reach_inv [OF server_sessions [OF assms(1)]]]
    by (auto simp: ValidateSession_def split: if_splits option.splits)
  with server_names [OF assms(1)] show ?thesis by blast
qed

section \<open>Requests of all three kinds\<close>

datatype request = UserRequest UserReq | RepoRequest repo_env RepoReq | FileRequest FileReqX

definition UserRes_default :: UserRes where
  "UserRes_default = \<lparr>us_err_code = 0, us_token = ''''\<rparr>"

definition RepoRes_default :: RepoRes where
  "RepoRes_default = \<lparr>rs_err_code = 0, rs_repos = [], rs_files = []\<rparr>"

text \<open>The error code of the response and the new state, starting from an empty response.\<close>

fun handle :: "'d libs \<Rightarrow> call_env \<Rightarrow> request \<Rightarrow> 'd server \<Rightarrow> int option \<times> 'd server" where
  "handle L e (UserRequest req) sv = apfst (map_option us_err_code) (UserOpHandle L e req UserRes_default sv)"
| "handle L e (RepoRequest re req) sv = apfst (map_option rs_err_code) (RepoOpHandle L e re req RepoRes_default sv)"
| "handle L e (FileRequest req) sv = apfst (map_option fs_err_code) (FileOpHandle L e req FileResX_default sv)"

fun req_user :: "request \<Rightarrow> string" where
  "req_user (UserRequest req) = uq_user req"
| "req_user (RepoRequest re req) = rq_user req"
| "req_user (FileRequest req) = fq_user req"

fun req_token :: "request \<Rightarrow> string" where
  "req_token (UserRequest req) = uq_token req"
| "req_token (RepoRequest re req) = rq_token req"
| "req_token (FileRequest req) = fq_token req"

text \<open>The requests that need no session: registration and login, and file requests of a type other than \<^verbatim>\<open>RT_Ocean\<close>.\<close>

fun open_request :: "request \<Rightarrow> bool" where
  "open_request (UserRequest req) = (uq_op req \<in> {Op_UserCreate, Op_UserLogin})"
| "open_request (RepoRequest re req) = False"
| "open_request (FileRequest req) = (fq_repo_type req \<noteq> RT_Ocean)"

definition may_act :: "call_env \<Rightarrow> request \<Rightarrow> sessions \<Rightarrow> bool" where
  "may_act e r se \<longleftrightarrow>
     (case ValidateSession (ce_now e) (req_token r) se of
        None \<Rightarrow> False | Some u \<Rightarrow> u = '''' \<or> u = req_user r)"

lemma refused_without_session:
  assumes "\<not> open_request r" and "\<not> may_act e r (us_sess (sv_user sv))"
  shows "handle L e r sv = (Some Err_User_session_error, sv)"
proof (cases r)
  case (UserRequest req)
  then have "fst (user_gate e req (us_sess (sv_user sv))) = Err_User_session_error"
    using assms by (auto simp: user_gate_def may_act_def Let_def split: option.splits)
  then show ?thesis using UserRequest
    by (auto simp: UserOpHandle_def Err_User_session_error_def split: prod.splits)
next
  case (RepoRequest re req)
  then show ?thesis using assms
    by (auto simp: RepoOpHandle_def repo_gate_def may_act_def split: option.splits)
next
  case (FileRequest req)
  then show ?thesis using assms
    by (auto simp: FileOpHandle_def UserValidateSession_def may_act_def err_codes split: option.splits if_splits)
qed

text \<open>
  C1: Authentication of the whole server.  Take any state the server can reach from a boot by user,
  repository and file requests.  A request that needs a session and is not refused with a session
  error, or that changes anything in the server's state (accounts, sessions, repositories, files),
  carries a token that the server has handed out, in a successful response to a request for exactly
  the user this request names.
\<close>

theorem only_issued_tokens_act:
  assumes "server_reach L sv log" and "\<not> open_request r" and "handle L e r sv = (code, sv')"
    and "code \<noteq> Some Err_User_session_error \<or> sv' \<noteq> sv"
  shows "(req_token r, req_user r) \<in> set log"
proof -
  have "may_act e r (us_sess (sv_user sv))"
    using refused_without_session [OF assms(2), of e sv L] assms(3,4) by auto
  then obtain u where "ValidateSession (ce_now e) (req_token r) (us_sess (sv_user sv)) = Some u" "u = '''' \<or> u = req_user r"
    by (auto simp: may_act_def split: option.splits)
  then show ?thesis using accepted_token [OF assms(1)] by blast
qed


text \<open>A server with the administrator and one repository of \<^verbatim>\<open>bob\<close>, who registers.\<close>

definition demo_libs :: "utable libs" where
  "demo_libs = \<lparr>lb_sql = users_table, lb_crypto = demo_crypto, lb_json = json_ref, lb_boost = boost_ref, lb_xxh = (\<lambda>_. 1)\<rparr>"

definition demo_server :: "utable server" where
  "demo_server = \<lparr>sv_user = demo_users, sv_repo = demo_rst, sv_fs = demo_fs, sv_fpm = demo_fpm\<rparr>"

definition demo_join :: UserReq where
  "demo_join =
     \<lparr>uq_request_id = '''', uq_op = Op_UserCreate, uq_user = ''bob'', uq_password = ''bobspass'', uq_token = '''', uq_to_delete_user = '''',
      uq_old_password = ''''\<rparr>"

definition demo_server1 :: "utable server" where
  "demo_server1 = snd (UserOpHandle demo_libs (demo_env ''t1'') demo_join UserRes_default demo_server)"

definition demo_repo_req :: "RepoOp \<Rightarrow> string \<Rightarrow> string \<Rightarrow> RepoReq" where
  "demo_repo_req op token user =
     \<lparr>rq_request_id = '''', rq_token = token, rq_user = user, rq_op = op, rq_type = RT_Ocean, rq_repo_uuid = ''u1'',
      rq_repo_name = '''', rq_dir = ''/a'', rq_file_offset = 0, rq_file_limit = 0\<rparr>"

lemma demo_joined:
  "UserOpHandle demo_libs (demo_env ''t1'') demo_join UserRes_default demo_server =
    (Some \<lparr>us_err_code = Err_Success, us_token = ''t1''\<rparr>, demo_server1)"
  "us_sess (sv_user demo_server1) = snd (GenerateToken ''t1'' 1000 ''bob'' no_sessions)"
  "sv_repo demo_server1 = demo_rst" "sv_fs demo_server1 = demo_fs"
proof -
  obtain st1 where reg: "UserRegister users_table demo_crypto (demo_env ''t1'') ''bob'' ''bobspass'' '''' demo_users =
      (Some (Err_Success, ''t1''), st1)" using demo_register by blast
  have gate: "user_gate (demo_env ''t1'') demo_join (us_sess (sv_user demo_server)) = (Err_Success, '''')"
    by (simp add: user_gate_def demo_join_def)
  have switch: "user_switch demo_libs (demo_env ''t1'') demo_join '''' '''' demo_users =
      UserRegister users_table demo_crypto (demo_env ''t1'') ''bob'' ''bobspass'' '''' demo_users"
    by (simp add: user_switch_def demo_join_def demo_libs_def)
  have run: "UserOpHandle demo_libs (demo_env ''t1'') demo_join UserRes_default demo_server =
    (Some \<lparr>us_err_code = Err_Success, us_token = ''t1''\<rparr>, demo_server\<lparr>sv_user := st1\<rparr>)"
    using gate switch reg
    by (simp add: UserOpHandle_def demo_server_def UserRes_default_def res_code_def Err_Success_def)
  have s1: "demo_server1 = demo_server\<lparr>sv_user := st1\<rparr>" by (simp add: demo_server1_def run)
  show "UserOpHandle demo_libs (demo_env ''t1'') demo_join UserRes_default demo_server =
    (Some \<lparr>us_err_code = Err_Success, us_token = ''t1''\<rparr>, demo_server1)" by (simp only: run s1)
  have "issues (demo_env ''t1'') ''bob'' demo_users (Some (Err_Success, ''t1''), st1)"
    by (metis reg register_issues)
  then show "us_sess (sv_user demo_server1) = snd (GenerateToken ''t1'' 1000 ''bob'' no_sessions)"
    by (simp add: s1 issues_def demo_env_def demo_users_def Err_Success_def)
  show "sv_repo demo_server1 = demo_rst" "sv_fs demo_server1 = demo_fs"
    by (simp_all add: s1 demo_server_def)
qed

lemma demo_server_reach: "server_reach demo_libs demo_server1 [(''t1'', ''bob'')]"
proof -
  have "server_reach demo_libs demo_server []"
    by (rule server_reach.boot) (simp add: demo_server_def demo_users_def)
  from server_reach.user_request [OF this _ _ demo_joined(1)] show ?thesis
    by (simp add: handed_out_def demo_env_def demo_join_def)
qed

theorem only_issued_tokens_act_witness:
  "fst (handle demo_libs (demo_env ''t2'') (RepoRequest \<lparr>re_uuid = '''', re_location_uuid = '''', re_time = ''''\<rparr>
      (demo_repo_req Op_RepoListUserRepo ''t1'' ''bob'')) demo_server1) = Some Err_Success
   \<and> (''t1'', ''bob'') \<in> set [(''t1'', ''bob'')]"
proof -
  let ?r = "RepoRequest \<lparr>re_uuid = '''', re_location_uuid = '''', re_time = ''''\<rparr> (demo_repo_req Op_RepoListUserRepo ''t1'' ''bob'')"
  have v: "ValidateSession 1000 ''t1'' (us_sess (sv_user demo_server1)) = Some ''bob''"
    unfolding demo_joined(2) by code_simp
  have ok: "fst (handle demo_libs (demo_env ''t2'') ?r demo_server1) = Some Err_Success"
    by (simp add: RepoOpHandle_def repo_gate_def demo_repo_req_def v demo_env_def repo_switch_def ListUserRepo_def res_code_def Err_Success_def)
  obtain code sv' where run: "handle demo_libs (demo_env ''t2'') ?r demo_server1 = (code, sv')"
    by (cases "handle demo_libs (demo_env ''t2'') ?r demo_server1")
  have "code \<noteq> Some Err_User_session_error" using ok unfolding run by (simp add: err_codes)
  then have "(req_token ?r, req_user ?r) \<in> set [(''t1'', ''bob'')]"
    using only_issued_tokens_act [OF demo_server_reach _ run] by simp
  then show ?thesis using ok by (simp add: demo_repo_req_def)
qed

text \<open>A token that was just handed out is accepted for five minutes.\<close>

lemma issued_session:
  assumes "server_reach L sv log" and "ce_uuid e \<notin> fst ` set log" and "ce_uuid e \<noteq> ''''"
    and "uq_op req \<in> {Op_UserCreate, Op_UserLogin}"
    and "UserOpHandle L e req res sv = (Some res', sv')" and "us_err_code res' = Err_Success"
    and "now - ce_now e < 300000"
  shows "ValidateSession now (us_token res') (us_sess (sv_user sv')) = Some (uq_user req)"
    and "us_token res' \<noteq> ''''" and "\<not> bad_user (uq_user req)"
proof -
  obtain err su where g: "user_gate e req (us_sess (sv_user sv)) = (err, su)"
    by (cases "user_gate e req (us_sess (sv_user sv))")
  obtain r st' where run: "user_switch L e req su (us_token res) (sv_user sv) = (r, st')"
    by (cases "user_switch L e req su (us_token res) (sv_user sv)")
  have r: "\<exists>t. r = Some (0, t) \<and> us_token res' = t" "sv_user sv' = st'"
    using assms(5,6) g run
    by (auto simp: UserOpHandle_def res_code_def err_codes split: if_splits)
  have "issues e (uq_user req) (sv_user sv) (r, st')"
    using switch_issues [of req e "sv_user sv" L su "us_token res"] run assms(4) by auto
  then have t: "us_token res' = ce_uuid e" "\<not> bad_user (uq_user req)"
    "us_sess st' = snd (GenerateToken (ce_uuid e) (ce_now e) (uq_user req) (us_sess (sv_user sv)))"
    using r(1) by (auto simp: issues_def)
  have "token_sessions (us_sess (sv_user sv)) (ce_uuid e) = None"
    using fresh_token [OF reach_inv [OF server_sessions [OF assms(1)]] assms(2)] .
  then show "ValidateSession now (us_token res') (us_sess (sv_user sv')) = Some (uq_user req)"
    using t r(2) assms(3,7)
    by (auto simp: ValidateSession_def GenerateToken_def Let_def emplace_def SESSION_INTERVAL_def)
  show "us_token res' \<noteq> ''''" "\<not> bad_user (uq_user req)" using t assms(3) by simp_all
qed

text \<open>
  Conversely, a token works.  After a registration or login that the server answers with success,
  and for five minutes from it, repository requests and file requests that carry the returned
  token and the same user pass the session check of their handler.
\<close>

theorem issued_token_works:
  assumes "server_reach L sv log" and "ce_uuid e \<notin> fst ` set log" and "ce_uuid e \<noteq> ''''"
    and "uq_op req \<in> {Op_UserCreate, Op_UserLogin}"
    and "UserOpHandle L e req res sv = (Some res', sv')" and "us_err_code res' = Err_Success"
    and "ce_now e' - ce_now e < 300000"
  shows "repo_gate e' (rreq\<lparr>rq_token := us_token res', rq_user := uq_user req\<rparr>) (us_sess (sv_user sv'))
    \<and> UserValidateSession e' (uq_user req) (us_token res') (us_sess (sv_user sv')) = Err_Success"
  using issued_session [OF assms] by (auto simp: repo_gate_def UserValidateSession_def bad_user_def err_codes)

theorem issued_token_works_witness:
  "repo_gate (demo_env '''') (demo_repo_req Op_RepoListUserRepo ''t1'' ''bob'') (us_sess (sv_user demo_server1))"
proof -
  have "server_reach demo_libs demo_server []"
    by (rule server_reach.boot) (simp add: demo_server_def demo_users_def)
  from issued_token_works [OF this _ _ _ demo_joined(1), of "demo_env ''''" "demo_repo_req Op_RepoListUserRepo '''' ''''"]
  show ?thesis by (simp add: demo_env_def demo_join_def demo_repo_req_def)
qed


section \<open>What the handlers do not check\<close>

text \<open>
  The session check of \<^verbatim>\<open>FileOpHandle\<close> covers the type \<^verbatim>\<open>RT_Ocean\<close> only.  With any other repository type a
  request without a valid token makes a directory anywhere on the server: the existence query for a
  missing directory creates it, with all its ancestors, and is answered with success.
\<close>

theorem FileOp_mkdir_without_session:
  assumes "fs_wf (sv_fs sv)" and "fs_faults (sv_fs sv) = []" and "plain_at (fx_dst req) p"
    and "dirs_open (fs_nodes (sv_fs sv)) p" and "kind_at (fs_nodes (sv_fs sv)) p = None"
    and "fq_repo_type req \<noteq> RT_Ocean" and "fq_op req = Op_FileExists" and "fx_file_type req = FT_Direcotry"
  shows "\<exists>res' sv'. FileOpHandle L e req res sv = (Some res', sv') \<and> fs_err_code res' = Err_Success
    \<and> (\<forall>q. kind_at (fs_nodes (sv_fs sv')) q
          = (if prefix q p then Some KDir else kind_at (fs_nodes (sv_fs sv)) q))"
proof -
  have "p \<noteq> []" using assms(1,5) by (auto simp: fs_wf_def wf_nodes_def is_dir_def)
  then have "dirs_open (fs_nodes (sv_fs sv)) (butlast p)"
    using assms(4) prefix_order.trans [OF _ prefixeq_butlast [of p]] by (auto simp: dirs_open_def)
  then have "\<not> Exists (sv_fs sv) (fx_dst req)"
    using missing_status [OF assms(1,3,5)] by (auto simp: Exists_iff)
  then show ?thesis
    using Mkdir_plain [OF assms(1-4)] assms(6-8)
    by (auto simp: FileOpHandle_def file_switch_def FileExists_def res_code_def dirs_made_def Let_def Err_Success_def)
qed

definition demo_mkdir :: FileReqX where
  "demo_mkdir =
     FileReq.extend ((demo_req ''r1'' 0)\<lparr>fq_token := '''', fq_op := Op_FileExists, fq_repo_type := RT_Remote\<rparr>)
       (FileReqX.fields '''' ''/a/b/c'' FT_Direcotry '''' 0 0 0 0)"

theorem FileOp_mkdir_without_session_witness:
  "kind_at (fs_nodes (sv_fs (snd (FileOpHandle demo_libs (demo_env '''') demo_mkdir FileResX_default demo_server))))
     [''a'', ''b''] = Some KDir"
proof -
  have "plain_at (fx_dst demo_mkdir) [''a'', ''b'', ''c'']" by code_simp
  moreover have "dirs_open (fs_nodes demo_fs) [''a'', ''b'', ''c'']" by code_simp
  moreover have "kind_at (fs_nodes demo_fs) [''a'', ''b'', ''c''] = None" by code_simp
  moreover have "sv_fs demo_server = demo_fs" by (simp add: demo_server_def)
  moreover have "fq_repo_type demo_mkdir \<noteq> RT_Ocean" "fq_op demo_mkdir = Op_FileExists" "fx_file_type demo_mkdir = FT_Direcotry"
    by (simp_all add: demo_mkdir_def FileReq.defs FileReqX.defs demo_req_def)
  ultimately show ?thesis
    using FileOp_mkdir_without_session [of demo_server demo_mkdir "[''a'', ''b'', ''c'']" demo_libs "demo_env ''''" FileResX_default]
      demo_wf by auto
qed

text \<open>
  \<^verbatim>\<open>DeleteRepo\<close> does not look at the owner: any user with a session removes the repository of any
  other user from the table, and nothing else of the table changes.
\<close>

theorem DeleteRepo_ignores_owner:
  assumes "repo_gate e req (us_sess (sv_user sv))" and "rq_op req = Op_RepoDeleteRepo"
    and "map_of (rp_repos (sv_repo sv)) (rq_repo_uuid req) = Some meta" and "rm_owner meta \<noteq> rq_user req"
  shows "map_of (rp_repos (sv_repo (snd (RepoOpHandle L e re req res sv)))) =
    (map_of (rp_repos (sv_repo sv)))(rq_repo_uuid req := None)"
  using assms
  by (simp add: RepoOpHandle_def repo_switch_def DeleteRepo_def Let_def delete_conv' split: prod.splits)

theorem DeleteRepo_ignores_owner_witness:
  "rm_owner demo_repo = ''bob''
   \<and> map_of (rp_repos (sv_repo (snd (RepoOpHandle demo_libs (demo_env '''') \<lparr>re_uuid = '''', re_location_uuid = '''', re_time = ''''\<rparr>
        (demo_repo_req Op_RepoDeleteRepo ''t2'' ''eve'') RepoRes_default
        (demo_server\<lparr>sv_user := demo_users\<lparr>us_sess := snd (GenerateToken ''t2'' 1000 ''eve'' no_sessions)\<rparr>\<rparr>))))) ''u1'' = None"
proof -
  let ?sv = "demo_server\<lparr>sv_user := demo_users\<lparr>us_sess := snd (GenerateToken ''t2'' 1000 ''eve'' no_sessions)\<rparr>\<rparr>"
  have "ValidateSession 1000 ''t2'' (snd (GenerateToken ''t2'' 1000 ''eve'' no_sessions)) = Some ''eve''" by code_simp
  then have "repo_gate (demo_env '''') (demo_repo_req Op_RepoDeleteRepo ''t2'' ''eve'') (us_sess (sv_user ?sv))"
    by (simp add: repo_gate_def demo_repo_req_def demo_env_def)
  moreover have "map_of (rp_repos (sv_repo ?sv)) ''u1'' = Some demo_repo" by (simp add: demo_server_def demo_rst_def)
  moreover have "rm_owner demo_repo = ''bob''" by (simp add: demo_repo_def)
  ultimately show ?thesis
    using DeleteRepo_ignores_owner [of "demo_env ''''" "demo_repo_req Op_RepoDeleteRepo ''t2'' ''eve''" ?sv demo_repo]
    by (simp add: demo_repo_req_def)
qed

end
