(* ===== verification/Http.thy ===== *)
theory Http
  imports Handlers UtilString
begin

text \<open>
  The HTTP transport, \<^verbatim>\<open>src/src/server/http_handler/\<close>: routing, the multipart form of an upload, and the
  download handler.  The multipart reader and the URL parser are third-party code and parameters.  The
  handlers are \<^verbatim>\<open>noexcept\<close>: \<open>None\<close> is an exception in them, which ends the server process.
\<close>

datatype MultiPartField =
  MP_unknown | MP_op | MP_path | MP_hash | MP_size | MP_content | MP_partition_num | MP_repo_uuid
  | MP_partition_size

record MultiContext =
  mc_field :: MultiPartField
  mc_req :: FileReqX

text \<open>The text between the first two double quotes, if there are two.\<close>

definition GetName :: "string \<Rightarrow> string" where
  "GetName value =
     (let isn = (\<lambda>c. c \<noteq> CHR 0x22);
          rest = dropWhile isn value
      in case rest of
           [] \<Rightarrow> ''''
         | _ # after \<Rightarrow> if CHR 0x22 \<in> set after then takeWhile isn after else '''')"

text \<open>An enumerator from its number; a number without enumerator reaches the default branches.\<close>

definition FileOp_of_int :: "int \<Rightarrow> FileOp" where
  "FileOp_of_int n =
     (if n = 1 then Op_FileExists else if n = 2 then Op_FilePut else if n = 3 then Op_FileDelete
      else if n = 4 then Op_FileSaveSuccess else if n = 5 then Op_FileGet else Op_FileUnused)"

text \<open>
  \<open>lim\<close> is the largest capacity \<^verbatim>\<open>std::string::reserve\<close> can give; beyond it, and for negative numbers,
  which convert to a huge \<^verbatim>\<open>size_t\<close>, it throws.
\<close>

definition FillFileReq :: "int \<Rightarrow> MultiPartField \<Rightarrow> string \<Rightarrow> FileReqX \<Rightarrow> FileReqX option" where
  "FillFileReq lim field data req =
     (case field of
        MP_op \<Rightarrow> Some (req\<lparr>fq_op := FileOp_of_int (ToInt32 data)\<rparr>)
      | MP_path \<Rightarrow> Some (req\<lparr>fx_src := data\<rparr>)
      | MP_hash \<Rightarrow> Some (req\<lparr>fx_file_hash := data\<rparr>)
      | MP_size \<Rightarrow> Some (req\<lparr>fx_file_size := ToInt64 data\<rparr>)
      | MP_content \<Rightarrow> Some (req\<lparr>fq_content := fq_content req @ data\<rparr>)
      | MP_partition_num \<Rightarrow> Some (req\<lparr>fx_partition_num := ToInt32 data\<rparr>)
      | MP_repo_uuid \<Rightarrow> Some (req\<lparr>fq_repo_uuid := data\<rparr>)
      | MP_partition_size \<Rightarrow>
          (let req1 = req\<lparr>fx_partition_size := ToInt64 data\<rparr>
           in if fq_content req1 = '''' \<and> (fx_partition_size req1 < 0 \<or> fx_partition_size req1 > lim)
              then None else Some req1)
      | MP_unknown \<Rightarrow> Some req)"

definition field_of_name :: "string \<Rightarrow> MultiPartField" where
  "field_of_name name =
     (if name = ''op'' then MP_op
      else if name = ''path'' then MP_path
      else if name = ''hash'' then MP_hash
      else if name = ''size'' then MP_size
      else if name = ''content'' then MP_content
      else if name = ''partition_num'' then MP_partition_num
      else if name = ''repo_uuid'' then MP_repo_uuid
      else if name = ''partition_size'' then MP_partition_size
      else MP_unknown)"

text \<open>What the multipart reader reports: the headers of a part, and pieces of its data.\<close>

datatype mp_event = PartBegin "(string \<times> string) list" | PartData string

fun on_event :: "int \<Rightarrow> mp_event \<Rightarrow> MultiContext \<Rightarrow> MultiContext option" where
  "on_event lim (PartBegin headers) ctx =
     (case map_of headers ''Content-Disposition'' of
        None \<Rightarrow> Some ctx
      | Some v \<Rightarrow> Some (ctx\<lparr>mc_field := field_of_name (GetName v)\<rparr>))"
| "on_event lim (PartData data) ctx =
     map_option (\<lambda>req. ctx\<lparr>mc_req := req\<rparr>) (FillFileReq lim (mc_field ctx) data (mc_req ctx))"

fun on_events :: "int \<Rightarrow> mp_event list \<Rightarrow> MultiContext \<Rightarrow> MultiContext option" where
  "on_events lim [] ctx = Some ctx"
| "on_events lim (ev # evs) ctx = (case on_event lim ev ctx of None \<Rightarrow> None | Some c \<Rightarrow> on_events lim evs c)"

text \<open>The reader: a state made from the boundary; \<open>rd_feed\<close> yields the events, the position and the new state.\<close>

record 'r reader =
  rd_new :: "string \<Rightarrow> 'r"
  rd_feed :: "string \<Rightarrow> 'r \<Rightarrow> mp_event list \<times> nat \<times> 'r"
  rd_succeeded :: "'r \<Rightarrow> bool"
  rd_has_error :: "'r \<Rightarrow> bool"

text \<open>The loop always feeds the body from its beginning.  \<open>None\<close>: an exception, or no end.\<close>

partial_function (option) feed_loop ::
  "'r reader \<Rightarrow> int \<Rightarrow> string \<Rightarrow> 'r \<Rightarrow> MultiContext \<Rightarrow> ('r \<times> MultiContext) option" where
  "feed_loop R lim body rd ctx =
     (case rd_feed R body rd of
        (evs, pos, rd1) \<Rightarrow>
          (case on_events lim evs ctx of
             None \<Rightarrow> None
           | Some ctx1 \<Rightarrow>
               if rd_succeeded R rd1 \<and> pos < length body then feed_loop R lim body rd1 ctx1
               else Some (rd1, ctx1)))"

text \<open>
  The field of a fresh \<^verbatim>\<open>MultiContext\<close> is not initialised: the argument \<open>field0\<close>.
\<close>

definition HandleMultipart ::
  "'r reader \<Rightarrow> int \<Rightarrow> MultiPartField \<Rightarrow> string \<Rightarrow> string \<Rightarrow> FileReqX \<Rightarrow> (bool \<times> FileReqX) option" where
  "HandleMultipart R lim field0 body boundary req =
     map_option (\<lambda>(rd, ctx). (\<not> rd_has_error R rd, mc_req ctx))
       (feed_loop R lim body (rd_new R boundary) \<lparr>mc_field = field0, mc_req = req\<rparr>)"

section \<open>Uploads\<close>

record put_handler =
  ph_body :: string
  ph_boundary :: string

definition FilePut_onRequest :: "string \<Rightarrow> put_handler \<Rightarrow> put_handler option" where
  "FilePut_onRequest contentType h =
     (if length contentType < 30 then None else Some (h\<lparr>ph_boundary := drop 30 contentType\<rparr>))"

definition FilePut_onBody :: "string option \<Rightarrow> put_handler \<Rightarrow> put_handler" where
  "FilePut_onBody body h = (case body of None \<Rightarrow> h | Some b \<Rightarrow> h\<lparr>ph_body := ph_body h @ b\<rparr>)"

record http_res =
  hr_status :: nat
  hr_headers :: "(string \<times> string) list"
  hr_body :: string

definition InternalServerError :: "string \<Rightarrow> http_res" where
  "InternalServerError b = \<lparr>hr_status = 500, hr_headers = [], hr_body = b\<rparr>"

definition Http_Success :: "string \<Rightarrow> http_res" where
  "Http_Success b = \<lparr>hr_status = 200, hr_headers = [], hr_body = b\<rparr>"

text \<open>\<open>json\<close> prints a response; the printed form of the response is appended to an empty string.\<close>

definition FilePut_onEOM ::
  "'d libs \<Rightarrow> 'r reader \<Rightarrow> int \<Rightarrow> MultiPartField \<Rightarrow> (FileResX \<Rightarrow> string option) \<Rightarrow> call_env \<Rightarrow> put_handler
   \<Rightarrow> 'd server \<Rightarrow> http_res option \<times> 'd server" where
  "FilePut_onEOM L R lim field0 json e h sv =
     (case HandleMultipart R lim field0 (ph_body h) (ph_boundary h) FileReqX_default of
        None \<Rightarrow> (None, sv)
      | Some (False, req) \<Rightarrow> (Some (InternalServerError ''Parse request error''), sv)
      | Some (True, req) \<Rightarrow>
          (case FileOpHandle L e req FileResX_default sv of
             (None, sv1) \<Rightarrow> (None, sv1)
           | (Some res, sv1) \<Rightarrow>
               (case json res of
                  None \<Rightarrow> (Some (InternalServerError ''Res pb to json error''), sv1)
                | Some t \<Rightarrow> (Some (Http_Success t), sv1))))"

section \<open>Downloads and routing\<close>

record http_msg =
  hm_header :: "string \<Rightarrow> string"
  hm_path :: string
  hm_query :: string

definition GetFullUrl :: "http_msg \<Rightarrow> string" where
  "GetFullUrl msg =
     (let scheme = hm_header msg ''X-Forwarded-Proto'';
          scheme = (if scheme = '''' then ''http'' else scheme);
          full_url = scheme @ ''://'' @ hm_header msg ''Host'' @ hm_path msg
      in if hm_query msg \<noteq> '''' then full_url @ ''?'' @ hm_query msg else full_url)"

text \<open>\<open>parse\<close> is boost's URL parser; \<open>None\<close> is its error.  A later parameter overwrites an earlier one.\<close>

definition ParseQueryString :: "(string \<Rightarrow> (string \<times> string) list option) \<Rightarrow> string \<Rightarrow> (string \<rightharpoonup> string)" where
  "ParseQueryString parse url =
     (case parse url of
        None \<Rightarrow> Map.empty
      | Some params \<Rightarrow> fold (\<lambda>(k, v) m. m(k \<mapsto> v)) params Map.empty)"

definition FileGet_onRequest ::
  "'d libs \<Rightarrow> (string \<Rightarrow> (string \<times> string) list option) \<Rightarrow> call_env \<Rightarrow> http_msg \<Rightarrow> 'd server \<Rightarrow> http_res option" where
  "FileGet_onRequest L parse e msg sv =
     (let params = ParseQueryString parse (GetFullUrl msg)
      in case (params ''user'', params ''token'') of
           (Some user, Some token) \<Rightarrow>
             if UserValidateSession e user token (us_sess (sv_user sv)) \<noteq> 0
             then Some \<lparr>hr_status = 403, hr_headers = [], hr_body = ''Invalid authorization''\<rparr>
             else (case (params ''repo_uuid'', params ''file_hash'') of
                     (Some repo_uuid, Some file_hash) \<Rightarrow>
                       (let req = FileReqX_default\<lparr>fq_repo_uuid := repo_uuid, fx_file_hash := file_hash\<rparr>
                        in case ReadFile (lb_boost L) (FileReq.truncate req) '''' (sv_repo sv) (sv_fs sv) of
                             None \<Rightarrow> None
                           | Some (ret, content) \<Rightarrow>
                               if ret = 0 then
                                 Some \<lparr>hr_status = 200,
                                   hr_headers = [(''Content-Type'', ''image/jpeg''),
                                     (''Content-Disposition'',
                                      ''attachment; filename='' @ [CHR 0x22] @ fx_file_hash req @ ''.jpeg'' @ [CHR 0x22])],
                                   hr_body = content\<rparr>
                               else Some \<lparr>hr_status = 404, hr_headers = [],
                                 hr_body = ''File not found or error reading file''\<rparr>)
                   | _ \<Rightarrow> Some \<lparr>hr_status = 400, hr_headers = [], hr_body = ''Missing required parameters''\<rparr>)
         | _ \<Rightarrow> Some \<lparr>hr_status = 401, hr_headers = [], hr_body = ''Authorization required''\<rparr>)"

datatype http_handler =
  H_User | H_Server | H_FilePut | H_FileGet | H_FileJson | H_Repo

definition HTTPHandlerFactory_onRequest :: "http_msg \<Rightarrow> http_handler option" where
  "HTTPHandlerFactory_onRequest message =
     (if hm_path message = ''/user'' then Some H_User
      else if hm_path message = ''/server'' then Some H_Server
      else if hm_path message = ''/file_put'' then Some H_FilePut
      else if hm_path message = ''/file_get'' then Some H_FileGet
      else if hm_path message = ''/file_json'' then Some H_FileJson
      else if hm_path message = ''/repo'' then Some H_Repo
      else None)"


section \<open>What an upload form can set\<close>

text \<open>The fields of a request that no form field reaches.\<close>

definition form_keeps :: "FileReqX \<Rightarrow> FileReqX \<Rightarrow> bool" where
  "form_keeps req req' \<longleftrightarrow>
     fq_user req' = fq_user req \<and> fq_token req' = fq_token req \<and> fq_repo_type req' = fq_repo_type req
     \<and> fq_file req' = fq_file req \<and> fx_dst req' = fx_dst req \<and> fx_file_type req' = fx_file_type req
     \<and> fx_update_time req' = fx_update_time req"

lemma form_keeps_refl: "form_keeps req req"
  by (simp add: form_keeps_def)

lemma form_keeps_trans: "form_keeps a b \<Longrightarrow> form_keeps b c \<Longrightarrow> form_keeps a c"
  by (simp add: form_keeps_def)

lemma FillFileReq_keeps: "FillFileReq lim f d req = Some req' \<Longrightarrow> form_keeps req req'"
  by (auto simp: FillFileReq_def form_keeps_def Let_def split: MultiPartField.splits if_splits)

lemma on_event_keeps: "on_event lim ev ctx = Some ctx' \<Longrightarrow> form_keeps (mc_req ctx) (mc_req ctx')"
  by (cases ev) (auto simp: form_keeps_refl FillFileReq_keeps split: option.splits)

lemma on_events_keeps: "on_events lim evs ctx = Some ctx' \<Longrightarrow> form_keeps (mc_req ctx) (mc_req ctx')"
proof (induction evs arbitrary: ctx)
  case (Cons ev evs)
  then show ?case by (auto dest: on_event_keeps intro: form_keeps_trans split: option.splits)
qed (simp add: form_keeps_refl)

lemma feed_loop_keeps:
  "feed_loop R lim body rd ctx = Some out \<Longrightarrow> form_keeps (mc_req ctx) (mc_req (snd out))"
proof (rule feed_loop.raw_induct [where P = "\<lambda>R lim body rd ctx out. form_keeps (mc_req ctx) (mc_req (snd out))"])
  fix f R lim body rd ctx out
  assume ih: "\<And>R lim body rd ctx out. f R lim body rd ctx = Some out \<Longrightarrow> form_keeps (mc_req ctx) (mc_req (snd out))"
    and run: "(case rd_feed R body rd of
        (evs, pos, rd1) \<Rightarrow>
          (case on_events lim evs ctx of
             None \<Rightarrow> None
           | Some ctx1 \<Rightarrow>
               if rd_succeeded R rd1 \<and> pos < length body then f R lim body rd1 ctx1
               else Some (rd1, ctx1))) = Some out"
  then show "form_keeps (mc_req ctx) (mc_req (snd out))"
    by (auto dest!: ih on_events_keeps intro: form_keeps_trans split: prod.splits option.splits if_splits)
qed auto

lemma multipart_keeps:
  "HandleMultipart R lim f0 body boundary req = Some (ok, req') \<Longrightarrow> form_keeps req req'"
  by (auto simp: HandleMultipart_def dest!: feed_loop_keeps)

lemma form_request_harmless:
  assumes "form_keeps FileReqX_default req"
  shows "snd (FileOpHandle L e req res sv) = sv"
proof -
  have "fq_repo_type req = RT_Unused" "fx_file_type req = FT_Unused"
    using assms by (simp_all add: form_keeps_def FileReqX_default_def)
  then show ?thesis
    by (auto simp: FileOpHandle_def file_switch_def Save_def FileExists_def type_matches_def Let_def
        split: FileOp.splits prod.splits)
qed

text \<open>
  The HTTP upload does nothing: whatever the body of a request to \<^verbatim>\<open>/file_put\<close> is, and whatever the
  multipart reader makes of it, no manager's state and no file changes.  The form has no field for the
  repository type, the user or the token, so \<^verbatim>\<open>FileOpHandle\<close> never reaches the repository; an upload
  (\<^verbatim>\<open>op\<close> 2) that is parsed is answered with the error code \<^verbatim>\<open>Fail\<close>.
\<close>

theorem http_put_never_stores:
  "snd (FilePut_onEOM L R lim f0 json e h sv) = sv
   \<and> (case HandleMultipart R lim f0 (ph_body h) (ph_boundary h) FileReqX_default of
        Some (True, req) \<Rightarrow>
          (if fq_op req = Op_FilePut
           then map_option fs_err_code (fst (FileOpHandle L e req FileResX_default sv)) = Some Err_Fail else True)
      | _ \<Rightarrow> True)"
proof (cases "HandleMultipart R lim f0 (ph_body h) (ph_boundary h) FileReqX_default")
  case None
  then show ?thesis by (simp add: FilePut_onEOM_def)
next
  case (Some r)
  obtain ok req where r: "r = (ok, req)" by (cases r)
  have keeps: "form_keeps FileReqX_default req" using multipart_keeps Some r by blast
  then have "fq_repo_type req = RT_Unused" by (simp add: form_keeps_def FileReqX_default_def)
  then have "map_option fs_err_code (fst (FileOpHandle L e req FileResX_default sv)) = Some Err_Fail" if "fq_op req = Op_FilePut"
    using that by (simp add: FileOpHandle_def file_switch_def Save_def res_code_def Err_Fail_def Let_def)
  moreover have "snd (FilePut_onEOM L R lim f0 json e h sv) = sv"
    using form_request_harmless [OF keeps, of L e FileResX_default sv] Some r
    by (auto simp: FilePut_onEOM_def split: bool.splits prod.splits option.splits)
  ultimately show ?thesis using Some r by (simp split: bool.splits)
qed

section \<open>Crashes on request data\<close>

text \<open>
  A form whose first part is named \<^verbatim>\<open>partition_size\<close> and carries a negative number ends the server
  process: \<^verbatim>\<open>reserve\<close> throws inside the \<^verbatim>\<open>noexcept\<close> handler.  No session is needed.
\<close>

theorem negative_partition_size_terminates:
  assumes "rd_feed R (ph_body h) (rd_new R (ph_boundary h)) = (PartBegin hdrs # PartData d # evs, pos, rd1)"
    and "map_of hdrs ''Content-Disposition'' = Some v" and "GetName v = ''partition_size''" and "ToInt64 d < 0"
  shows "FilePut_onEOM L R lim f0 json e h sv = (None, sv)"
proof -
  have "field_of_name ''partition_size'' = MP_partition_size" by (simp add: field_of_name_def)
  then have "on_events lim (PartBegin hdrs # PartData d # evs) \<lparr>mc_field = f0, mc_req = FileReqX_default\<rparr> = None"
    using assms(2-4) by (simp add: FillFileReq_def FileReqX_default_def)
  then have "feed_loop R lim (ph_body h) (rd_new R (ph_boundary h)) \<lparr>mc_field = f0, mc_req = FileReqX_default\<rparr> = None"
    using assms(1) by (simp add: feed_loop.simps)
  then show ?thesis by (simp add: FilePut_onEOM_def HandleMultipart_def)
qed

text \<open>A reader that reports one such part.\<close>

definition demo_reader :: "bool reader" where
  "demo_reader =
     \<lparr>rd_new = (\<lambda>b. False),
      rd_feed = (\<lambda>body rd. ([PartBegin [(''Content-Disposition'',
          ''form-data; name='' @ [CHR 0x22] @ ''partition_size'' @ [CHR 0x22])], PartData ''-1''], length body, True)),
      rd_succeeded = (\<lambda>rd. rd), rd_has_error = (\<lambda>rd. False)\<rparr>"

theorem negative_partition_size_terminates_witness:
  "FilePut_onEOM demo_libs demo_reader 100 MP_op (\<lambda>_. None) (demo_env '''') \<lparr>ph_body = ''x'', ph_boundary = ''b''\<rparr> demo_server
   = (None, demo_server)"
proof -
  have "GetName (''form-data; name='' @ [CHR 0x22] @ ''partition_size'' @ [CHR 0x22]) = ''partition_size''" by code_simp
  moreover have "ToInt64 ''-1'' < 0" by code_simp
  moreover have "map_of [(''Content-Disposition'', v)] ''Content-Disposition'' = Some v" for v :: string by simp
  moreover have "rd_feed demo_reader b r = ([PartBegin [(''Content-Disposition'',
          ''form-data; name='' @ [CHR 0x22] @ ''partition_size'' @ [CHR 0x22])], PartData ''-1''], length b, True)" for b r
    by (simp add: demo_reader_def)
  ultimately show ?thesis
    using negative_partition_size_terminates [of demo_reader "\<lparr>ph_body = ''x'', ph_boundary = ''b''\<rparr>"
        "[(''Content-Disposition'', ''form-data; name='' @ [CHR 0x22] @ ''partition_size'' @ [CHR 0x22])]" "''-1''" "[]"]
    by blast
qed

text \<open>The boundary is what follows the prefix of the content type; a shorter content type ends the process.\<close>

lemma FilePut_boundary:
  "FilePut_onRequest (''multipart/form-data; boundary='' @ b) h = Some (h\<lparr>ph_boundary := b\<rparr>)"
  "length ct < 30 \<Longrightarrow> FilePut_onRequest ct h = None"
  by (simp_all add: FilePut_onRequest_def)

text \<open>A download is answered with content or a file error only to a valid session of the named user.\<close>

lemma FileGet_needs_session:
  assumes "FileGet_onRequest L parse e msg sv = Some r" and "hr_status r \<notin> {401, 403}"
  shows "\<exists>user token. ParseQueryString parse (GetFullUrl msg) ''user'' = Some user
    \<and> ParseQueryString parse (GetFullUrl msg) ''token'' = Some token
    \<and> UserValidateSession e user token (us_sess (sv_user sv)) = Err_Success"
  using assms by (auto simp: FileGet_onRequest_def Let_def Err_Success_def split: option.splits if_splits)

end
