(* ===== verification/Rpc.thy ===== *)
theory Rpc
  imports Prelude "HOL-Library.Monad_Syntax"
begin

text \<open>
  The asynchronous gRPC server: the per-call object \<^verbatim>\<open>Rpc\<close> and the table \<^verbatim>\<open>ActiveRpcs\<close>
  (\<^verbatim>\<open>src/src/async_grpc/rpc.cc\<close>), the \<^verbatim>\<open>Service\<close> that drives them (\<^verbatim>\<open>service.cc\<close>), the event queues and their
  round robin (\<^verbatim>\<open>server.cc\<close>) and the writers of \<^verbatim>\<open>rpc_handler.h\<close>.

  An \<^verbatim>\<open>Rpc*\<close> is a number that is never reused; the table \<open>active\<close> owns the objects, so a number outside it is
  a destroyed object, and using it (or a failing \<^verbatim>\<open>CHECK\<close>, or the call of a null handler) is the result \<open>None\<close>.
  The gRPC library is the environment: it holds the tags it has been given (\<open>outstanding\<close>) and returns
  them at any time.  An event queue is a list; each thread handles the events of its own queue.
\<close>

datatype RpcType = NORMAL_RPC | CLIENT_STREAMING | SERVER_STREAMING | BIDI_STREAMING

datatype Event = NEW_CONNECTION | READ | WRITE_NEEDED | WRITE | FINISH | DONE

text \<open>A status is its code; 0 is \<^verbatim>\<open>Status::OK\<close>.\<close>

record 'm send_item =
  si_msg :: "'m option"
  si_status :: int

text \<open>
  What a handler does in a callback: it calls \<^verbatim>\<open>Send\<close> and \<^verbatim>\<open>Finish\<close>, in order, and changes the state \<open>'w\<close> of the
  program that all handlers share (the handlers of this program have no state of their own).
\<close>

datatype 'm reply = Send 'm | Finish int

record ('m, 'w) handler_info =
  hi_type :: RpcType
  hi_prototype :: 'm
  hi_request :: "'m \<Rightarrow> 'w \<Rightarrow> 'w \<times> 'm reply list"
  hi_reads_done :: "'w \<Rightarrow> 'w \<times> 'm reply list"
  hi_finish :: "'w \<Rightarrow> 'w \<times> 'm reply list"

record ('m, 'w) rpc =
  method_index :: nat
  rpc_info :: "('m, 'w) handler_info"
  event_queue :: nat
  pending :: "Event \<Rightarrow> bool"
  request :: 'm
  send_queue :: "'m send_item list"
  handler :: bool

text \<open>
  \<^verbatim>\<open>CompletionQueueRpcEvent\<close>, embedded in its \<^verbatim>\<open>Rpc\<close>, with the flag \<^verbatim>\<open>ok\<close>; and \<^verbatim>\<open>InternalRpcEvent\<close>, with a weak pointer.
\<close>

datatype rpc_event = CompletionQueueRpcEvent nat Event bool | InternalRpcEvent nat Event

text \<open>
  Not in the code are \<open>outstanding\<close>, the tags gRPC holds, \<open>started\<close>, the calls it has connected, and \<open>send_log\<close>, the
  items each \<^verbatim>\<open>Rpc\<close> was asked to send (\<open>False\<close>) and has handed to gRPC (\<open>True\<close>).  \<open>world\<close> is the rest of the program.
\<close>

record ('m, 'w) service =
  rpc_handler_infos :: "('m, 'w) handler_info list"
  active :: "nat \<rightharpoonup> ('m, 'w) rpc"
  next_rpc :: nat
  shutting_down :: bool
  num_event_threads :: nat
  current_event_queue_id :: nat
  queues :: "nat \<Rightarrow> rpc_event list"
  outstanding :: "(nat \<times> Event) set"
  started :: "nat set"
  send_log :: "(nat \<times> bool \<times> 'm send_item) list"
  world :: 'w

section \<open>Rpc\<close>

definition upd_rpc :: "nat \<Rightarrow> (('m, 'w) rpc \<Rightarrow> ('m, 'w) rpc) \<Rightarrow> ('m, 'w) service \<Rightarrow> ('m, 'w) service" where
  "upd_rpc p f s = s\<lparr>active := (active s)(p := map_option f (active s p))\<rparr>"

definition push_event :: "nat \<Rightarrow> rpc_event \<Rightarrow> ('m, 'w) service \<Rightarrow> ('m, 'w) service" where
  "push_event q e s = s\<lparr>queues := (queues s)(q := queues s q @ [e])\<rparr>"

definition SetRpcEventState :: "nat \<Rightarrow> Event \<Rightarrow> bool \<Rightarrow> ('m, 'w) service \<Rightarrow> ('m, 'w) service" where
  "SetRpcEventState p ev b = upd_rpc p (\<lambda>r. r\<lparr>pending := (pending r)(ev := b)\<rparr>)"

text \<open>\<^verbatim>\<open>SetRpcEventState(ev, true)\<close> and the call of gRPC that gets the tag.\<close>

definition issue :: "nat \<Rightarrow> Event \<Rightarrow> ('m, 'w) service \<Rightarrow> ('m, 'w) service" where
  "issue p ev s = (SetRpcEventState p ev True s)\<lparr>outstanding := insert (p, ev) (outstanding s)\<rparr>"

definition IsAnyEventPending :: "('m, 'w) rpc \<Rightarrow> bool" where
  "IsAnyEventPending r \<longleftrightarrow> pending r DONE \<or> pending r READ \<or> pending r WRITE \<or> pending r FINISH"

definition EnqueueMessage :: "nat \<Rightarrow> 'm send_item \<Rightarrow> ('m, 'w) service \<Rightarrow> ('m, 'w) service" where
  "EnqueueMessage p item s =
     (upd_rpc p (\<lambda>r. r\<lparr>send_queue := send_queue r @ [item]\<rparr>) s)
       \<lparr>send_log := send_log s @ [(p, False, item)]\<rparr>"

text \<open>\<^verbatim>\<open>Rpc::Write\<close> and \<^verbatim>\<open>Rpc::Finish\<close>; \<^verbatim>\<open>GetWeakPtr\<close> checks that the object is active.\<close>

definition send_later :: "nat \<Rightarrow> 'm send_item \<Rightarrow> ('m, 'w) service \<Rightarrow> ('m, 'w) service option" where
  "send_later p item s =
     do {
       r \<leftarrow> active s p;
       let s1 = EnqueueMessage p item s;
       _ \<leftarrow> active s1 p;
       Some (push_event (event_queue r) (InternalRpcEvent p WRITE_NEEDED) s1)
     }"

definition Rpc_Write :: "nat \<Rightarrow> 'm \<Rightarrow> ('m, 'w) service \<Rightarrow> ('m, 'w) service option" where
  "Rpc_Write p m = send_later p \<lparr>si_msg = Some m, si_status = 0\<rparr>"

definition Rpc_Finish :: "nat \<Rightarrow> int \<Rightarrow> ('m, 'w) service \<Rightarrow> ('m, 'w) service option" where
  "Rpc_Finish p status = send_later p \<lparr>si_msg = None, si_status = status\<rparr>"

fun send_replies :: "nat \<Rightarrow> 'm reply list \<Rightarrow> ('m, 'w) service \<Rightarrow> ('m, 'w) service option" where
  "send_replies p [] s = Some s"
| "send_replies p (Send m # rs) s = Rpc_Write p m s \<bind> send_replies p rs"
| "send_replies p (Finish st # rs) s = Rpc_Finish p st s \<bind> send_replies p rs"

text \<open>The call of a method of the handler, which must exist.\<close>

definition call_handler ::
  "nat \<Rightarrow> (('m, 'w) rpc \<Rightarrow> 'w \<Rightarrow> 'w \<times> 'm reply list) \<Rightarrow> ('m, 'w) service \<Rightarrow> ('m, 'w) service option" where
  "call_handler p f s =
     do {
       r \<leftarrow> active s p;
       (if \<not> handler r then None
        else let (w, rs) = f r (world s) in send_replies p rs (s\<lparr>world := w\<rparr>))
     }"

definition OnRequest :: "nat \<Rightarrow> ('m, 'w) service \<Rightarrow> ('m, 'w) service option" where
  "OnRequest p = call_handler p (\<lambda>r. hi_request (rpc_info r) (request r))"

definition OnReadsDone :: "nat \<Rightarrow> ('m, 'w) service \<Rightarrow> ('m, 'w) service option" where
  "OnReadsDone p = call_handler p (\<lambda>r. hi_reads_done (rpc_info r))"

definition OnFinish :: "nat \<Rightarrow> ('m, 'w) service \<Rightarrow> ('m, 'w) service option" where
  "OnFinish p = call_handler p (\<lambda>r. hi_finish (rpc_info r))"

definition RequestStreamingReadIfNeeded :: "nat \<Rightarrow> ('m, 'w) service \<Rightarrow> ('m, 'w) service option" where
  "RequestStreamingReadIfNeeded p s =
     do {
       r \<leftarrow> active s p;
       (case hi_type (rpc_info r) of
          BIDI_STREAMING \<Rightarrow> Some (issue p READ s)
        | CLIENT_STREAMING \<Rightarrow> Some (issue p READ s)
        | NORMAL_RPC \<Rightarrow> OnRequest p s \<bind> OnReadsDone p
        | SERVER_STREAMING \<Rightarrow> OnRequest p s \<bind> OnReadsDone p)
     }"

definition OnConnection :: "nat \<Rightarrow> ('m, 'w) service \<Rightarrow> ('m, 'w) service option" where
  "OnConnection p s =
     do {
       r \<leftarrow> active s p;
       let s1 = (if \<not> handler r then upd_rpc p (\<lambda>r. r\<lparr>handler := True\<rparr>) s else s);
       RequestStreamingReadIfNeeded p s1
     }"

text \<open>The end of \<^verbatim>\<open>PerformFinish\<close> and \<^verbatim>\<open>PerformWrite\<close>: the item goes to gRPC.\<close>

definition perform :: "nat \<Rightarrow> Event \<Rightarrow> 'm send_item \<Rightarrow> ('m, 'w) service \<Rightarrow> ('m, 'w) service" where
  "perform p ev item s = (issue p ev s)\<lparr>send_log := send_log s @ [(p, True, item)]\<rparr>"

definition PerformFinish :: "nat \<Rightarrow> 'm send_item \<Rightarrow> ('m, 'w) service \<Rightarrow> ('m, 'w) service option" where
  "PerformFinish p item s =
     do {
       r \<leftarrow> active s p;
       (case hi_type (rpc_info r) of
          BIDI_STREAMING \<Rightarrow> if si_msg item \<noteq> None then None else Some (perform p FINISH item s)
        | SERVER_STREAMING \<Rightarrow> if si_msg item \<noteq> None then None else Some (perform p FINISH item s)
        | _ \<Rightarrow> Some (perform p FINISH item s))
     }"

definition PerformWrite :: "nat \<Rightarrow> 'm send_item \<Rightarrow> ('m, 'w) service \<Rightarrow> ('m, 'w) service option" where
  "PerformWrite p item s =
     do {
       r \<leftarrow> active s p;
       (if si_msg item = None \<or> hi_type (rpc_info r) \<in> {NORMAL_RPC, CLIENT_STREAMING} then None
        else Some (perform p WRITE item s))
     }"

definition HandleSendQueue :: "nat \<Rightarrow> ('m, 'w) service \<Rightarrow> ('m, 'w) service option" where
  "HandleSendQueue p s =
     do {
       r \<leftarrow> active s p;
       (case send_queue r of
          [] \<Rightarrow> Some s
        | item # rest \<Rightarrow>
            if pending r WRITE \<or> pending r FINISH then Some s
            else let s1 = upd_rpc p (\<lambda>r. r\<lparr>send_queue := rest\<rparr>) s
                 in if si_msg item = None \<or> hi_type (rpc_info r) \<in> {NORMAL_RPC, CLIENT_STREAMING}
                    then PerformFinish p item s1 else PerformWrite p item s1)
     }"

definition RequestNextMethodInvocation :: "nat \<Rightarrow> ('m, 'w) service \<Rightarrow> ('m, 'w) service" where
  "RequestNextMethodInvocation p s = issue p NEW_CONNECTION (issue p DONE s)"

section \<open>ActiveRpcs and Service\<close>

definition new_rpc :: "nat \<Rightarrow> ('m, 'w) handler_info \<Rightarrow> nat \<Rightarrow> ('m, 'w) rpc" where
  "new_rpc i info q =
     \<lparr>method_index = i, rpc_info = info, event_queue = q, pending = (\<lambda>_. False), request = hi_prototype info,
      send_queue = [], handler = False\<rparr>"

definition Clone :: "('m, 'w) rpc \<Rightarrow> ('m, 'w) rpc" where
  "Clone r = new_rpc (method_index r) (rpc_info r) (event_queue r)"

definition ActiveRpcs_Add :: "('m, 'w) rpc \<Rightarrow> ('m, 'w) service \<Rightarrow> nat \<times> ('m, 'w) service" where
  "ActiveRpcs_Add r s =
     (next_rpc s, s\<lparr>active := (active s)(next_rpc s \<mapsto> r), next_rpc := next_rpc s + 1\<rparr>)"

definition ActiveRpcs_Remove :: "nat \<Rightarrow> ('m, 'w) service \<Rightarrow> ('m, 'w) service" where
  "ActiveRpcs_Remove p s = s\<lparr>active := (active s)(p := None)\<rparr>"

definition SelectNextEventQueueRoundRobin :: "('m, 'w) service \<Rightarrow> nat \<times> ('m, 'w) service" where
  "SelectNextEventQueueRoundRobin s =
     (let q = (current_event_queue_id s + 1) mod num_event_threads s
      in (q, s\<lparr>current_event_queue_id := q\<rparr>))"

definition RemoveIfNotPending :: "nat \<Rightarrow> ('m, 'w) service \<Rightarrow> ('m, 'w) service option" where
  "RemoveIfNotPending p s =
     do {
       r \<leftarrow> active s p;
       Some (if \<not> IsAnyEventPending r then ActiveRpcs_Remove p s else s)
     }"

text \<open>The end of \<^verbatim>\<open>HandleNewConnection\<close>: the object for the next connection of the method.\<close>

definition serve_next :: "nat \<Rightarrow> ('m, 'w) service \<Rightarrow> ('m, 'w) service option" where
  "serve_next p s =
     do {
       r \<leftarrow> active s p;
       let (q, s1) = SelectNextEventQueueRoundRobin s;
       let (p', s2) = ActiveRpcs_Add ((Clone r)\<lparr>event_queue := q\<rparr>) s1;
       Some (RequestNextMethodInvocation p' s2)
     }"

definition HandleNewConnection :: "nat \<Rightarrow> bool \<Rightarrow> ('m, 'w) service \<Rightarrow> ('m, 'w) service option" where
  "HandleNewConnection p ok s =
     (if shutting_down s then Some (ActiveRpcs_Remove p s)
      else do {
        let s1 = (if \<not> ok then ActiveRpcs_Remove p s else s);
        s2 \<leftarrow> (if ok then OnConnection p s1 else Some s1);
        serve_next p s2
      })"

definition HandleRead :: "nat \<Rightarrow> bool \<Rightarrow> ('m, 'w) service \<Rightarrow> ('m, 'w) service option" where
  "HandleRead p ok s =
     (if ok then OnRequest p s \<bind> RequestStreamingReadIfNeeded p
      else OnReadsDone p s \<bind> RemoveIfNotPending p)"

definition HandleWrite :: "nat \<Rightarrow> bool \<Rightarrow> ('m, 'w) service \<Rightarrow> ('m, 'w) service option" where
  "HandleWrite p ok s = HandleSendQueue p s \<bind> RemoveIfNotPending p"

definition HandleFinish :: "nat \<Rightarrow> bool \<Rightarrow> ('m, 'w) service \<Rightarrow> ('m, 'w) service option" where
  "HandleFinish p ok s = OnFinish p s \<bind> RemoveIfNotPending p"

definition HandleDone :: "nat \<Rightarrow> bool \<Rightarrow> ('m, 'w) service \<Rightarrow> ('m, 'w) service option" where
  "HandleDone p ok s = RemoveIfNotPending p s"

definition HandleEvent :: "Event \<Rightarrow> nat \<Rightarrow> bool \<Rightarrow> ('m, 'w) service \<Rightarrow> ('m, 'w) service option" where
  "HandleEvent event p ok s =
     (case event of
        NEW_CONNECTION \<Rightarrow> HandleNewConnection p ok s
      | READ \<Rightarrow> HandleRead p ok s
      | WRITE_NEEDED \<Rightarrow> HandleWrite p ok s
      | WRITE \<Rightarrow> HandleWrite p ok s
      | FINISH \<Rightarrow> HandleFinish p ok s
      | DONE \<Rightarrow> HandleDone p ok s)"

text \<open>The service and its event queues before \<^verbatim>\<open>StartServing\<close>.\<close>

definition new_service :: "('m, 'w) handler_info list \<Rightarrow> nat \<Rightarrow> 'w \<Rightarrow> ('m, 'w) service" where
  "new_service infos threads w =
     \<lparr>rpc_handler_infos = infos, active = Map.empty, next_rpc = 0, shutting_down = False,
      num_event_threads = threads, current_event_queue_id = 0, queues = (\<lambda>_. []), outstanding = {}, started = {},
      send_log = [], world = w\<rparr>"

definition StopServing :: "('m, 'w) service \<Rightarrow> ('m, 'w) service" where
  "StopServing s = s\<lparr>shutting_down := True\<rparr>"

text \<open>One call of \<^verbatim>\<open>RequestNextMethodInvocation\<close> per method and completion queue thread.\<close>

definition start_one :: "nat \<times> ('m, 'w) handler_info \<Rightarrow> ('m, 'w) service \<Rightarrow> ('m, 'w) service" where
  "start_one = (\<lambda>(i, info) s.
     let (q, s1) = SelectNextEventQueueRoundRobin s;
         (p, s2) = ActiveRpcs_Add (new_rpc i info q) s1
     in RequestNextMethodInvocation p s2)"

definition StartServing :: "nat \<Rightarrow> ('m, 'w) service \<Rightarrow> ('m, 'w) service" where
  "StartServing completion_queues s =
     fold start_one
       (concat (map (replicate completion_queues) (enumerate 0 (rpc_handler_infos s)))) s"

section \<open>Events\<close>

text \<open>\<^verbatim>\<open>Handle()\<close> of the two kinds of events.\<close>

fun Handle :: "rpc_event \<Rightarrow> ('m, 'w) service \<Rightarrow> ('m, 'w) service option" where
  "Handle (CompletionQueueRpcEvent p ev ok) s =
     do { _ \<leftarrow> active s p; HandleEvent ev p ok (SetRpcEventState p ev False s) }"
| "Handle (InternalRpcEvent p ev) s =
     (if active s p = None then Some s else HandleEvent ev p True s)"

text \<open>One iteration of \<^verbatim>\<open>RunEventQueue\<close> on queue \<open>q\<close>.\<close>

definition RunEventQueue_round :: "nat \<Rightarrow> ('m, 'w) service \<Rightarrow> ('m, 'w) service option" where
  "RunEventQueue_round q s =
     (case queues s q of [] \<Rightarrow> Some s | e # es \<Rightarrow> Handle e (s\<lparr>queues := (queues s)(q := es)\<rparr>))"

text \<open>
  One iteration of \<^verbatim>\<open>RunCompletionQueue\<close>: gRPC returns a tag; \<open>m\<close> is the message it has put into the request
  buffer, where the tag belongs to a read.  The tag lies inside the \<^verbatim>\<open>Rpc\<close>.
\<close>

definition RunCompletionQueue_round ::
  "nat \<Rightarrow> Event \<Rightarrow> bool \<Rightarrow> 'm \<Rightarrow> ('m, 'w) service \<Rightarrow> ('m, 'w) service option" where
  "RunCompletionQueue_round p ev ok m s =
     do {
       r \<leftarrow> active s p;
       let s1 = s\<lparr>outstanding := outstanding s - {(p, ev)},
                  started := (if ev = NEW_CONNECTION \<and> ok then insert p (started s) else started s)\<rparr>;
       let s2 = (if ev \<in> {NEW_CONNECTION, READ} \<and> ok then upd_rpc p (\<lambda>r. r\<lparr>request := m\<rparr>) s1 else s1);
       Some (push_event (event_queue r) (CompletionQueueRpcEvent p ev ok) s2)
     }"

text \<open>\<^verbatim>\<open>RpcHandler::Writer\<close>, which other threads hold: a weak pointer.\<close>

definition Writer_Write :: "nat \<Rightarrow> 'm \<Rightarrow> ('m, 'w) service \<Rightarrow> (bool \<times> ('m, 'w) service) option" where
  "Writer_Write p m s =
     (if active s p = None then Some (False, s) else map_option (Pair True) (Rpc_Write p m s))"

text \<open>\<^verbatim>\<open>WritesDone\<close> finishes the call with \<^verbatim>\<open>Status::OK\<close>.\<close>

definition Writer_WritesDone :: "nat \<Rightarrow> ('m, 'w) service \<Rightarrow> (bool \<times> ('m, 'w) service) option" where
  "Writer_WritesDone p s =
     (if active s p = None then Some (False, s) else map_option (Pair True) (Rpc_Finish p 0 s))"

definition Writer_Finish :: "nat \<Rightarrow> int \<Rightarrow> ('m, 'w) service \<Rightarrow> (bool \<times> ('m, 'w) service) option" where
  "Writer_Finish p status s =
     (if active s p = None then Some (False, s) else map_option (Pair True) (Rpc_Finish p status s))"


section \<open>The state of one call\<close>

text \<open>What the rest of the state holds about the call \<open>p\<close>.\<close>

definition cq_of :: "nat \<Rightarrow> rpc_event list \<Rightarrow> (Event \<times> bool) list" where
  "cq_of p es =
     concat (map (\<lambda>e. case e of
         CompletionQueueRpcEvent p' ev ok \<Rightarrow> if p' = p then [(ev, ok)] else []
       | InternalRpcEvent p' ev \<Rightarrow> []) es)"

definition log_of :: "nat \<Rightarrow> bool \<Rightarrow> (nat \<times> bool \<times> 'm send_item) list \<Rightarrow> 'm send_item list" where
  "log_of p b l = map (snd \<circ> snd) (filter (\<lambda>(p', b', item). p' = p \<and> b' = b) l)"

record ('m, 'w) view =
  v_rpc :: "('m, 'w) rpc option"
  v_cq :: "nat \<Rightarrow> (Event \<times> bool) list"
  v_out :: "Event set"
  v_started :: bool
  v_asked :: "'m send_item list"
  v_issued :: "'m send_item list"

definition view_of :: "nat \<Rightarrow> ('m, 'w) service \<Rightarrow> ('m, 'w) view" where
  "view_of p s =
     \<lparr>v_rpc = active s p, v_cq = (\<lambda>q. cq_of p (queues s q)), v_out = {ev. (p, ev) \<in> outstanding s},
      v_started = (p \<in> started s), v_asked = log_of p False (send_log s), v_issued = log_of p True (send_log s)\<rparr>"

definition no_view :: "('m, 'w) view" where
  "no_view = \<lparr>v_rpc = None, v_cq = (\<lambda>_. []), v_out = {}, v_started = False, v_asked = [], v_issued = []\<rparr>"

text \<open>
  The invariant of a live call: a flag is set exactly while its tag is with gRPC or in the call's event
  queue, never twice; until the connection has been handled it is the first event and nothing else has
  been started; at most one write or finish is in progress; what was handed to gRPC and what waits is
  what the handler sent, in order.
\<close>

definition flags_ok :: "('m, 'w) view \<Rightarrow> ('m, 'w) rpc \<Rightarrow> bool" where
  "flags_ok v r \<longleftrightarrow> (\<forall>ev. pending r ev \<longleftrightarrow> ev \<in> v_out v \<union> fst ` set (v_cq v (event_queue r)))"

definition rpc_core :: "('m, 'w) view \<Rightarrow> ('m, 'w) rpc \<Rightarrow> bool" where
  "rpc_core v r \<longleftrightarrow>
     (let evs = v_cq v (event_queue r)
      in (\<forall>q. q \<noteq> event_queue r \<longrightarrow> v_cq v q = [])
         \<and> distinct (map fst evs)
         \<and> v_out v \<inter> fst ` set evs = {}
         \<and> flags_ok v r
         \<and> (pending r NEW_CONNECTION \<longrightarrow>
              pending r DONE \<and> \<not> pending r READ \<and> \<not> pending r WRITE \<and> \<not> pending r FINISH \<and> v_asked v = [])
         \<and> (handler r \<longleftrightarrow> \<not> pending r NEW_CONNECTION)
         \<and> (NEW_CONNECTION \<in> v_out v \<longrightarrow> evs = [] \<and> \<not> v_started v)
         \<and> (NEW_CONNECTION \<in> fst ` set evs \<longrightarrow> hd evs = (NEW_CONNECTION, v_started v))
         \<and> (fst ` set evs \<subseteq> {NEW_CONNECTION} \<or> v_started v)
         \<and> \<not> pending r WRITE_NEEDED
         \<and> \<not> (pending r WRITE \<and> pending r FINISH)
         \<and> (pending r READ \<longrightarrow> hi_type (rpc_info r) \<in> {BIDI_STREAMING, CLIENT_STREAMING})
         \<and> v_issued v @ send_queue r = v_asked v)"

definition rpc_inv :: "('m, 'w) view \<Rightarrow> bool" where
  "rpc_inv v \<longleftrightarrow>
     (case v_rpc v of
        None \<Rightarrow> (\<forall>q. v_cq v q = []) \<and> (v_out v = {} \<or> \<not> v_started v \<and> NEW_CONNECTION \<notin> v_out v)
      | Some r \<Rightarrow> rpc_core v r \<and> IsAnyEventPending r)"

text \<open>Internal events only ask for writes.\<close>

definition internal_ok :: "('m, 'w) service \<Rightarrow> bool" where
  "internal_ok s \<longleftrightarrow> (\<forall>q p ev. InternalRpcEvent p ev \<in> set (queues s q) \<longrightarrow> ev = WRITE_NEEDED)"

definition svc_inv :: "('m, 'w) service \<Rightarrow> bool" where
  "svc_inv s \<longleftrightarrow>
     (\<forall>p. rpc_inv (view_of p s)) \<and> (\<forall>p \<ge> next_rpc s. view_of p s = no_view) \<and> internal_ok s"

text \<open>\<open>frame p s s'\<close>: only the call \<open>p\<close> has changed.\<close>

definition frame :: "nat \<Rightarrow> ('m, 'w) service \<Rightarrow> ('m, 'w) service \<Rightarrow> bool" where
  "frame p s s' \<longleftrightarrow>
     (\<forall>p'. p' \<noteq> p \<longrightarrow> view_of p' s' = view_of p' s) \<and> next_rpc s' = next_rpc s
     \<and> shutting_down s' = shutting_down s \<and> (internal_ok s \<longrightarrow> internal_ok s')"

lemma frame_refl [simp]: "frame p s s"
  by (simp add: frame_def)

lemma frame_trans: "frame p s s1 \<Longrightarrow> frame p s1 s2 \<Longrightarrow> frame p s s2"
  by (simp add: frame_def)

lemma cq_of_append [simp]: "cq_of p (xs @ ys) = cq_of p xs @ cq_of p ys"
  by (simp add: cq_of_def)

lemma cq_of_simps [simp]:
  "cq_of p [] = []"
  "cq_of p (CompletionQueueRpcEvent p' ev ok # es) = (if p' = p then (ev, ok) # cq_of p es else cq_of p es)"
  "cq_of p (InternalRpcEvent p' ev # es) = cq_of p es"
  by (simp_all add: cq_of_def)

lemma log_of_simps [simp]:
  "log_of p b [] = []" "log_of p b (l @ l') = log_of p b l @ log_of p b l'"
  "log_of p b ((p', b', item) # l) = (if p' = p \<and> b' = b then item # log_of p b l else log_of p b l)"
  by (simp_all add: log_of_def)

lemma view_active: "v_rpc (view_of p s) = active s p"
  by (simp add: view_of_def)

text \<open>How the primitive steps change the views.\<close>

named_theorems views

lemma view_upd_rpc [views]:
  "view_of p' (upd_rpc p f s) =
    (if p' = p then (view_of p s)\<lparr>v_rpc := map_option f (active s p)\<rparr> else view_of p' s)"
  by (simp add: view_of_def upd_rpc_def)

lemma view_set_state [views]:
  "view_of p' (SetRpcEventState p ev b s) =
    (if p' = p then (view_of p s)\<lparr>v_rpc := map_option (\<lambda>r. r\<lparr>pending := (pending r)(ev := b)\<rparr>) (active s p)\<rparr>
     else view_of p' s)"
  by (simp add: SetRpcEventState_def view_upd_rpc)

lemma view_issue [views]:
  "view_of p' (issue p ev s) =
    (if p' = p then (view_of p s)\<lparr>v_rpc := map_option (\<lambda>r. r\<lparr>pending := (pending r)(ev := True)\<rparr>) (active s p),
       v_out := insert ev (v_out (view_of p s))\<rparr>
     else view_of p' s)"
  by (auto simp: view_of_def issue_def SetRpcEventState_def upd_rpc_def)

lemma view_enqueue [views]:
  "view_of p' (EnqueueMessage p item s) =
    (if p' = p then (view_of p s)\<lparr>v_rpc := map_option (\<lambda>r. r\<lparr>send_queue := send_queue r @ [item]\<rparr>) (active s p),
       v_asked := v_asked (view_of p s) @ [item]\<rparr>
     else view_of p' s)"
  by (auto simp: view_of_def EnqueueMessage_def upd_rpc_def)

lemma view_perform [views]:
  "view_of p' (perform p ev item s) =
    (if p' = p then (view_of p s)\<lparr>v_rpc := map_option (\<lambda>r. r\<lparr>pending := (pending r)(ev := True)\<rparr>) (active s p),
       v_out := insert ev (v_out (view_of p s)), v_issued := v_issued (view_of p s) @ [item]\<rparr>
     else view_of p' s)"
  by (auto simp: view_of_def perform_def issue_def SetRpcEventState_def upd_rpc_def)

lemma view_push_internal [views]: "view_of p' (push_event q (InternalRpcEvent p ev) s) = view_of p' s"
  by (simp add: view_of_def push_event_def fun_eq_iff)

lemma globals_simps [simp]:
  "next_rpc (upd_rpc p f s) = next_rpc s" "shutting_down (upd_rpc p f s) = shutting_down s"
  "next_rpc (issue p ev s) = next_rpc s" "shutting_down (issue p ev s) = shutting_down s"
  "next_rpc (SetRpcEventState p ev b s) = next_rpc s" "shutting_down (SetRpcEventState p ev b s) = shutting_down s"
  "next_rpc (EnqueueMessage p item s) = next_rpc s" "shutting_down (EnqueueMessage p item s) = shutting_down s"
  "next_rpc (perform p ev item s) = next_rpc s" "shutting_down (perform p ev item s) = shutting_down s"
  "next_rpc (push_event q e s) = next_rpc s" "shutting_down (push_event q e s) = shutting_down s"
  by (simp_all add: upd_rpc_def issue_def SetRpcEventState_def EnqueueMessage_def perform_def push_event_def)

lemma active_simps [simp]:
  "active (upd_rpc p f s) = (active s)(p := map_option f (active s p))"
  "active (SetRpcEventState p ev b s) =
     (active s)(p := map_option (\<lambda>r. r\<lparr>pending := (pending r)(ev := b)\<rparr>) (active s p))"
  "active (issue p ev s) =
     (active s)(p := map_option (\<lambda>r. r\<lparr>pending := (pending r)(ev := True)\<rparr>) (active s p))"
  "active (perform p ev item s) =
     (active s)(p := map_option (\<lambda>r. r\<lparr>pending := (pending r)(ev := True)\<rparr>) (active s p))"
  "active (EnqueueMessage p item s) =
     (active s)(p := map_option (\<lambda>r. r\<lparr>send_queue := send_queue r @ [item]\<rparr>) (active s p))"
  "active (push_event q e s) = active s"
  by (simp_all add: upd_rpc_def issue_def SetRpcEventState_def EnqueueMessage_def perform_def push_event_def)

lemma internal_simps [simp]:
  "internal_ok (upd_rpc p f s) = internal_ok s" "internal_ok (SetRpcEventState p ev b s) = internal_ok s"
  "internal_ok (issue p ev s) = internal_ok s" "internal_ok (perform p ev item s) = internal_ok s"
  "internal_ok (EnqueueMessage p item s) = internal_ok s" "internal_ok (ActiveRpcs_Remove p s) = internal_ok s"
  "internal_ok (push_event q (InternalRpcEvent p ev) s) \<longleftrightarrow> internal_ok s \<and> ev = WRITE_NEEDED"
  "internal_ok (push_event q (CompletionQueueRpcEvent p ev b) s) = internal_ok s"
  by (auto simp: internal_ok_def upd_rpc_def issue_def SetRpcEventState_def EnqueueMessage_def perform_def
      push_event_def ActiveRpcs_Remove_def)

lemma frame_prims:
  "frame p s (upd_rpc p f s)" "frame p s (issue p ev s)" "frame p s (perform p ev item s)"
  "frame p s (SetRpcEventState p ev b s)" "frame p s (EnqueueMessage p item s)"
  "frame p s (push_event q (InternalRpcEvent p WRITE_NEEDED) s)"
  by (simp_all add: frame_def views)

section \<open>Callbacks\<close>

text \<open>A callback of the handler only appends to what is to be sent.\<close>

definition keeps :: "nat \<Rightarrow> ('m, 'w) service \<Rightarrow> ('m, 'w) service \<Rightarrow> bool" where
  "keeps p s s' \<longleftrightarrow>
     frame p s s' \<and>
     (\<exists>r xs. active s p = Some r
        \<and> active s' p = Some (r\<lparr>send_queue := send_queue r @ xs\<rparr>)
        \<and> view_of p s' = (view_of p s)\<lparr>v_rpc := active s' p, v_asked := v_asked (view_of p s) @ xs\<rparr>)"

lemma keepsI:
  assumes "frame p s s'" and "active s p = Some r"
    and "active s' p = Some (r\<lparr>send_queue := send_queue r @ xs\<rparr>)"
    and "view_of p s' = (view_of p s)\<lparr>v_rpc := active s' p, v_asked := v_asked (view_of p s) @ xs\<rparr>"
  shows "keeps p s s'"
  unfolding keeps_def using assms by (intro conjI exI [of _ r] exI [of _ xs])

lemma keepsE:
  assumes "keeps p s s'"
  obtains r xs where "frame p s s'" "active s p = Some r"
    "active s' p = Some (r\<lparr>send_queue := send_queue r @ xs\<rparr>)"
    "view_of p s' = (view_of p s)\<lparr>v_rpc := active s' p, v_asked := v_asked (view_of p s) @ xs\<rparr>"
  using assms unfolding keeps_def by (elim conjE exE) (rule that; assumption)

lemma keeps_trans:
  assumes "keeps p s s1" and "keeps p s1 s2"
  shows "keeps p s s2"
proof -
  obtain r xs where 1: "frame p s s1" "active s p = Some r"
    "active s1 p = Some (r\<lparr>send_queue := send_queue r @ xs\<rparr>)"
    "view_of p s1 = (view_of p s)\<lparr>v_rpc := active s1 p, v_asked := v_asked (view_of p s) @ xs\<rparr>"
    by (rule keepsE [OF assms(1)])
  obtain r1 ys where 2: "frame p s1 s2" "active s1 p = Some r1"
    "active s2 p = Some (r1\<lparr>send_queue := send_queue r1 @ ys\<rparr>)"
    "view_of p s2 = (view_of p s1)\<lparr>v_rpc := active s2 p, v_asked := v_asked (view_of p s1) @ ys\<rparr>"
    by (rule keepsE [OF assms(2)])
  show ?thesis
    by (rule keepsI [of p s s2 r "xs @ ys"]) (use 1 2 in \<open>auto intro: frame_trans\<close>)
qed

lemma send_later_keeps:
  assumes "active s p = Some r"
  shows "\<exists>s'. send_later p item s = Some s' \<and> keeps p s s'"
proof -
  let ?s1 = "EnqueueMessage p item s"
  let ?s2 = "push_event (event_queue r) (InternalRpcEvent p WRITE_NEEDED) ?s1"
  have "send_later p item s = Some ?s2" using assms by (simp add: send_later_def)
  moreover have "frame p s ?s2" by (simp add: frame_def views)
  moreover have "view_of p ?s2 = (view_of p s)\<lparr>v_rpc := Some (r\<lparr>send_queue := send_queue r @ [item]\<rparr>),
      v_asked := v_asked (view_of p s) @ [item]\<rparr>"
    using assms by (simp add: views)
  ultimately show ?thesis
    using assms keepsI [of p s ?s2 r "[item]"] by auto
qed

lemma send_replies_keeps:
  assumes "active s p = Some r"
  shows "\<exists>s'. send_replies p rs s = Some s' \<and> keeps p s s'"
  using assms
proof (induction rs arbitrary: s r)
  case Nil
  then show ?case using keepsI [of p s s r "[]"] by (simp add: view_of_def)
next
  case (Cons x rs)
  obtain item where item: "send_replies p (x # rs) s = send_later p item s \<bind> send_replies p rs"
    by (cases x) (auto simp: Rpc_Write_def Rpc_Finish_def)
  obtain s1 where s1: "send_later p item s = Some s1" "keeps p s s1"
    using send_later_keeps [OF Cons.prems] by blast
  then obtain r1 where "active s1 p = Some r1" by (auto simp: keeps_def)
  then obtain s2 where "send_replies p rs s1 = Some s2" "keeps p s1 s2" using Cons.IH by blast
  then show ?case using item s1 keeps_trans by fastforce
qed

lemma call_handler_keeps:
  assumes "active s p = Some r" and "handler r"
  shows "\<exists>s'. call_handler p f s = Some s' \<and> keeps p s s'"
proof -
  obtain w rs where f: "f r (world s) = (w, rs)" by (cases "f r (world s)")
  let ?s1 = "s\<lparr>world := w\<rparr>"
  have view: "view_of p' ?s1 = view_of p' s" for p' by (simp add: view_of_def)
  then have "keeps p s ?s1"
    using assms(1) keepsI [of p s ?s1 r "[]"] by (simp add: frame_def internal_ok_def view_of_def)
  moreover obtain s' where "send_replies p rs ?s1 = Some s'" "keeps p ?s1 s'"
    using send_replies_keeps [of ?s1 p] assms(1) by auto
  ultimately show ?thesis using assms f keeps_trans by (fastforce simp: call_handler_def)
qed

lemma flags_irrelevant [simp]:
  "flags_ok (v\<lparr>v_rpc := x\<rparr>) r = flags_ok v r" "flags_ok (v\<lparr>v_asked := xs\<rparr>) r = flags_ok v r"
  "flags_ok (v\<lparr>v_issued := xs\<rparr>) r = flags_ok v r" "flags_ok v (r\<lparr>send_queue := q\<rparr>) = flags_ok v r"
  "flags_ok v (r\<lparr>handler := h\<rparr>) = flags_ok v r" "flags_ok v (r\<lparr>request := m\<rparr>) = flags_ok v r"
  by (simp_all add: flags_ok_def)

lemma core_rpc_irrelevant [simp]: "rpc_core (v\<lparr>v_rpc := x\<rparr>) r = rpc_core v r"
  by (simp add: rpc_core_def)

lemma core_sent:
  assumes "rpc_core v r" and "handler r"
  shows "rpc_core (v\<lparr>v_rpc := x, v_asked := v_asked v @ xs\<rparr>) (r\<lparr>send_queue := send_queue r @ xs\<rparr>)"
  using assms by (simp add: rpc_core_def Let_def flip: append_assoc)

lemma keeps_core:
  assumes "keeps p s s'" and "active s p = Some r" and "rpc_core (view_of p s) r" and "handler r"
  shows "\<exists>r'. active s' p = Some r' \<and> rpc_core (view_of p s') r' \<and> pending r' = pending r \<and> rpc_info r' = rpc_info r
    \<and> handler r'"
proof -
  obtain r1 xs where k: "active s p = Some r1"
    "active s' p = Some (r1\<lparr>send_queue := send_queue r1 @ xs\<rparr>)"
    "view_of p s' = (view_of p s)\<lparr>v_rpc := active s' p, v_asked := v_asked (view_of p s) @ xs\<rparr>"
    by (rule keepsE [OF assms(1)])
  then show ?thesis using assms(2,4) core_sent [OF assms(3,4)] by auto
qed

lemma core_issue:
  assumes "rpc_core v r" and "\<not> pending r ev" and "ev \<in> {READ, WRITE, FINISH}" and "\<not> pending r NEW_CONNECTION"
    and "ev = WRITE \<Longrightarrow> \<not> pending r FINISH" and "ev = FINISH \<Longrightarrow> \<not> pending r WRITE"
    and "ev = READ \<Longrightarrow> hi_type (rpc_info r) \<in> {BIDI_STREAMING, CLIENT_STREAMING}"
  shows "rpc_core (v\<lparr>v_rpc := x, v_out := insert ev (v_out v)\<rparr>) (r\<lparr>pending := (pending r)(ev := True)\<rparr>)"
proof -
  have "ev \<notin> v_out v" "ev \<notin> fst ` set (v_cq v (event_queue r))" "NEW_CONNECTION \<notin> v_out v"
    using assms(1,2,4) unfolding rpc_core_def Let_def flags_ok_def by blast+
  then have "flags_ok (v\<lparr>v_rpc := x, v_out := insert ev (v_out v)\<rparr>) (r\<lparr>pending := (pending r)(ev := True)\<rparr>)"
    using assms(1) by (auto simp: rpc_core_def Let_def flags_ok_def)
  then show ?thesis
    using assms \<open>ev \<notin> fst ` set (v_cq v (event_queue r))\<close> \<open>NEW_CONNECTION \<notin> v_out v\<close>
    by (auto simp: rpc_core_def Let_def simp del: Un_iff)
qed

lemma core_perform:
  assumes "rpc_core v r" and "send_queue r = item # rest" and "\<not> pending r WRITE" and "\<not> pending r FINISH"
    and "ev \<in> {WRITE, FINISH}" and "\<not> pending r NEW_CONNECTION"
  shows "rpc_core (v\<lparr>v_rpc := x, v_out := insert ev (v_out v), v_issued := v_issued v @ [item]\<rparr>)
    (r\<lparr>send_queue := rest, pending := (pending r)(ev := True)\<rparr>)"
proof -
  let ?v = "v\<lparr>v_issued := v_issued v @ [item]\<rparr>" and ?r = "r\<lparr>send_queue := rest\<rparr>"
  have "rpc_core ?v ?r" using assms(1,2) by (simp add: rpc_core_def Let_def)
  then have core: "rpc_core (?v\<lparr>v_rpc := x, v_out := insert ev (v_out v)\<rparr>) (?r\<lparr>pending := (pending r)(ev := True)\<rparr>)"
    using core_issue [of ?v ?r ev x] assms by auto
  have eq: "?v\<lparr>v_rpc := x, v_out := insert ev (v_out v)\<rparr>
      = v\<lparr>v_rpc := x, v_out := insert ev (v_out v), v_issued := v_issued v @ [item]\<rparr>" by simp
  show ?thesis using core unfolding eq .
qed

text \<open>A call that waits for its connection has sent nothing.\<close>

lemma core_new:
  assumes "rpc_core v r" and "pending r NEW_CONNECTION"
  shows "send_queue r = []" "v_asked v = []" "v_issued v = []" "\<not> handler r"
proof -
  have "v_issued v @ send_queue r = v_asked v" and empty: "v_asked v = []" "\<not> handler r"
    using assms unfolding rpc_core_def Let_def by blast+
  then show "send_queue r = []" "v_asked v = []" "v_issued v = []" "\<not> handler r" by simp_all
qed

text \<open>A call in the middle of the handling of one of its events, its connection made.\<close>

definition live :: "nat \<Rightarrow> ('m, 'w) service \<Rightarrow> bool" where
  "live p s \<longleftrightarrow> (\<exists>r. active s p = Some r \<and> rpc_core (view_of p s) r \<and> \<not> pending r NEW_CONNECTION)"

lemma live_handler: "live p s \<Longrightarrow> \<exists>r. active s p = Some r \<and> handler r"
  by (auto simp: live_def rpc_core_def Let_def)

text \<open>The flag of an event, and the direction of the call.\<close>

definition busy :: "nat \<Rightarrow> Event \<Rightarrow> ('m, 'w) service \<Rightarrow> bool" where
  "busy p ev s \<longleftrightarrow> (\<exists>r. active s p = Some r \<and> pending r ev)"

definition streaming :: "nat \<Rightarrow> ('m, 'w) service \<Rightarrow> bool" where
  "streaming p s \<longleftrightarrow> (\<exists>r. active s p = Some r \<and> hi_type (rpc_info r) \<in> {BIDI_STREAMING, CLIENT_STREAMING})"

lemma live_keeps:
  assumes "live p s" and "keeps p s s'"
  shows "live p s' \<and> frame p s s' \<and> busy p ev s' = busy p ev s \<and> streaming p s' = streaming p s"
proof -
  obtain r where r: "active s p = Some r" "rpc_core (view_of p s) r" "\<not> pending r NEW_CONNECTION" "handler r"
    using assms(1) live_handler [OF assms(1)] by (auto simp: live_def)
  show ?thesis
    using keeps_core [OF assms(2) r(1,2,4)] r(1,3) assms(2) by (auto simp: live_def busy_def streaming_def elim: keepsE)
qed

lemma callbacks_live:
  assumes "live p s"
  shows "\<exists>s'. OnRequest p s = Some s' \<and> live p s' \<and> frame p s s'
      \<and> busy p ev s' = busy p ev s \<and> streaming p s' = streaming p s"
    "\<exists>s'. OnReadsDone p s = Some s' \<and> live p s' \<and> frame p s s'
      \<and> busy p ev s' = busy p ev s \<and> streaming p s' = streaming p s"
    "\<exists>s'. OnFinish p s = Some s' \<and> live p s' \<and> frame p s s'
      \<and> busy p ev s' = busy p ev s \<and> streaming p s' = streaming p s"
proof -
  obtain r where r: "active s p = Some r" "handler r" using live_handler [OF assms] by blast
  have "\<exists>s'. call_handler p f s = Some s' \<and> live p s' \<and> frame p s s'
      \<and> busy p ev s' = busy p ev s \<and> streaming p s' = streaming p s" for f
    using call_handler_keeps [OF r] live_keeps [OF assms] by blast
  then show "\<exists>s'. OnRequest p s = Some s' \<and> live p s' \<and> frame p s s'
      \<and> busy p ev s' = busy p ev s \<and> streaming p s' = streaming p s"
    "\<exists>s'. OnReadsDone p s = Some s' \<and> live p s' \<and> frame p s s'
      \<and> busy p ev s' = busy p ev s \<and> streaming p s' = streaming p s"
    "\<exists>s'. OnFinish p s = Some s' \<and> live p s' \<and> frame p s s'
      \<and> busy p ev s' = busy p ev s \<and> streaming p s' = streaming p s"
    unfolding OnRequest_def OnReadsDone_def OnFinish_def by blast+
qed

lemma RequestStreamingReadIfNeeded_live:
  assumes "live p s" and "\<not> busy p READ s"
  shows "\<exists>s'. RequestStreamingReadIfNeeded p s = Some s' \<and> live p s' \<and> frame p s s'
    \<and> (busy p DONE s \<longrightarrow> busy p DONE s') \<and> (streaming p s \<longrightarrow> busy p READ s')"
proof -
  obtain r where r: "active s p = Some r" "rpc_core (view_of p s) r" "\<not> pending r NEW_CONNECTION" "\<not> pending r READ"
    using assms by (auto simp: live_def busy_def)
  have issue: "live p (issue p READ s)" if "hi_type (rpc_info r) \<in> {BIDI_STREAMING, CLIENT_STREAMING}"
  proof -
    have "rpc_core (view_of p (issue p READ s)) (r\<lparr>pending := (pending r)(READ := True)\<rparr>)"
      using r that core_issue [OF r(2,4), of "Some (r\<lparr>pending := (pending r)(READ := True)\<rparr>)"] by (simp add: views)
    then show ?thesis using r by (simp add: live_def)
  qed
  obtain s1 where s1: "OnRequest p s = Some s1" "live p s1" "frame p s s1" "busy p DONE s1 = busy p DONE s"
    using callbacks_live(1) [OF assms(1)] by blast
  obtain s2 where "OnReadsDone p s1 = Some s2" "live p s2" "frame p s1 s2" "busy p DONE s2 = busy p DONE s1"
    using callbacks_live(2) [OF s1(2)] by blast
  then show ?thesis
    using r(1) s1 issue frame_trans [of p s s1 s2] frame_prims(2) [of p s READ]
    by (cases "hi_type (rpc_info r)") (auto simp: RequestStreamingReadIfNeeded_def busy_def streaming_def)
qed

lemma HandleSendQueue_live:
  assumes "live p s"
  shows "\<exists>s'. HandleSendQueue p s = Some s' \<and> live p s' \<and> frame p s s'"
proof -
  obtain r where r: "active s p = Some r" "rpc_core (view_of p s) r" "\<not> pending r NEW_CONNECTION"
    using assms by (auto simp: live_def)
  show ?thesis
  proof (cases "send_queue r = [] \<or> pending r WRITE \<or> pending r FINISH")
    case True
    then show ?thesis using r assms by (auto simp: HandleSendQueue_def split: list.splits)
  next
    case False
    then obtain item rest where q: "send_queue r = item # rest" by (cases "send_queue r") auto
    let ?s1 = "upd_rpc p (\<lambda>r. r\<lparr>send_queue := rest\<rparr>) s"
    have perf: "live p (perform p ev item ?s1) \<and> frame p s (perform p ev item ?s1)" if "ev \<in> {WRITE, FINISH}" for ev
    proof -
      have "rpc_core (view_of p (perform p ev item ?s1)) (r\<lparr>send_queue := rest, pending := (pending r)(ev := True)\<rparr>)"
        using core_perform [OF r(2) q _ _ that r(3)] False r(1) by (simp add: views)
      then show ?thesis using r(1,3) that frame_trans [OF frame_prims(1) frame_prims(3)]
        by (auto simp: live_def)
    qed
    show ?thesis
      using False q r(1) perf
      by (cases "hi_type (rpc_info r)"; cases "si_msg item")
        (auto simp: HandleSendQueue_def PerformFinish_def PerformWrite_def Let_def)
  qed
qed

lemma flags_none:
  assumes "flags_ok v r" and "\<And>ev. \<not> pending r ev"
  shows "v_out v = {}" "v_cq v (event_queue r) = []"
proof -
  have "ev \<notin> v_out v \<and> ev \<notin> fst ` set (v_cq v (event_queue r))" for ev
    using assms by (simp add: flags_ok_def)
  then have "v_out v = {}" "fst ` set (v_cq v (event_queue r)) = {}" by (auto simp only: set_eq_iff empty_iff)
  then show "v_out v = {}" "v_cq v (event_queue r) = []" by simp_all
qed

text \<open>After \<^verbatim>\<open>RemoveIfNotPending\<close> the full invariant holds again.\<close>

lemma RemoveIfNotPending_inv:
  assumes "live p s"
  shows "\<exists>s'. RemoveIfNotPending p s = Some s' \<and> rpc_inv (view_of p s') \<and> frame p s s'"
proof -
  obtain r where r: "active s p = Some r" "rpc_core (view_of p s) r" "\<not> pending r NEW_CONNECTION"
    using assms by (auto simp: live_def)
  show ?thesis
  proof (cases "IsAnyEventPending r")
    case True
    then show ?thesis using r by (auto simp: RemoveIfNotPending_def rpc_inv_def view_active)
  next
    case False
    have none: "\<not> pending r ev" for ev
      using False r(2,3) by (cases ev) (auto simp: IsAnyEventPending_def rpc_core_def Let_def)
    have flags: "flags_ok (view_of p s) r" using r(2) by (simp add: rpc_core_def Let_def)
    note empty = flags_none [OF flags none]
    have "v_cq (view_of p s) q = []" for q
      using r(2) empty(2) by (cases "q = event_queue r") (auto simp: rpc_core_def Let_def)
    moreover note empty(1)
    moreover have "view_of p (ActiveRpcs_Remove p s) = (view_of p s)\<lparr>v_rpc := None\<rparr>" "frame p s (ActiveRpcs_Remove p s)"
      by (simp_all add: view_of_def ActiveRpcs_Remove_def frame_def internal_ok_def)
    ultimately show ?thesis using r(1) False by (simp add: RemoveIfNotPending_def rpc_inv_def)
  qed
qed

end
