(* ===== verification/RpcService.thy ===== *)
theory RpcService
  imports Rpc
begin

text \<open>
  The asynchronous gRPC server, continued: every event of a call, the invariant of the whole service and its
  reachable states.
\<close>

section \<open>Handling one event\<close>

text \<open>Taking the first event of a call off its queue and clearing its flag.\<close>

lemma hd_new_connection:
  assumes "rpc_core v r" and "v_cq v (event_queue r) = (ev, ok) # rest" and "ev \<noteq> NEW_CONNECTION"
  shows "\<not> pending r NEW_CONNECTION"
proof
  assume "pending r NEW_CONNECTION"
  then have "NEW_CONNECTION \<in> v_out v \<or> NEW_CONNECTION \<in> fst ` set (v_cq v (event_queue r))"
    using assms(1) unfolding rpc_core_def Let_def flags_ok_def by blast
  then show False using assms by (auto simp: rpc_core_def Let_def)
qed

lemma flags_pop:
  assumes "flags_ok v r" and "v_cq v (event_queue r) = (ev, ok) # rest" and "distinct (map fst (v_cq v (event_queue r)))"
    and "v_out v \<inter> fst ` set (v_cq v (event_queue r)) = {}"
  shows "flags_ok (v\<lparr>v_rpc := x, v_cq := (v_cq v)(event_queue r := rest)\<rparr>) (r\<lparr>pending := (pending r)(ev := False)\<rparr>)"
  using assms by (auto simp: flags_ok_def)

lemma core_pop:
  assumes "rpc_core v r" and "v_cq v (event_queue r) = (ev, ok) # rest" and "ev \<noteq> NEW_CONNECTION"
  shows "rpc_core (v\<lparr>v_rpc := x, v_cq := (v_cq v)(event_queue r := rest)\<rparr>) (r\<lparr>pending := (pending r)(ev := False)\<rparr>)"
proof -
  have "flags_ok (v\<lparr>v_rpc := x, v_cq := (v_cq v)(event_queue r := rest)\<rparr>) (r\<lparr>pending := (pending r)(ev := False)\<rparr>)"
    using assms(1) by (intro flags_pop [OF _ assms(2)]) (simp_all add: rpc_core_def Let_def)
  moreover have "NEW_CONNECTION \<notin> fst ` set rest" "NEW_CONNECTION \<notin> v_out v"
    using assms by (auto simp: rpc_core_def Let_def)
  ultimately show ?thesis
    using assms hd_new_connection [OF assms] by (auto simp: rpc_core_def Let_def)
qed

lemma core_rpc_cq_irrelevant [simp]: "rpc_core (v\<lparr>v_rpc := x, v_cq := c\<rparr>) r = rpc_core (v\<lparr>v_cq := c\<rparr>) r"
  by (simp add: rpc_core_def flags_ok_def)

lemma core_pop_new:
  assumes "rpc_core v r" and "v_cq v (event_queue r) = (NEW_CONNECTION, ok) # rest"
  shows "rpc_core (v\<lparr>v_rpc := x, v_cq := (v_cq v)(event_queue r := rest)\<rparr>)
      (r\<lparr>pending := (pending r)(NEW_CONNECTION := False), handler := True\<rparr>)"
    and "pending r DONE" and "\<not> handler r" and "ok = v_started v" and "NEW_CONNECTION \<notin> v_out v"
    and "\<not> pending r READ" and "\<not> ok \<Longrightarrow> rest = []"
proof -
  have pend: "pending r NEW_CONNECTION" using assms by (auto simp: rpc_core_def Let_def flags_ok_def)
  show new: "pending r DONE" "\<not> handler r" "ok = v_started v" "NEW_CONNECTION \<notin> v_out v" "\<not> pending r READ"
    using assms pend by (auto simp: rpc_core_def Let_def)
  have rest: "NEW_CONNECTION \<notin> fst ` set rest" using assms by (auto simp: rpc_core_def Let_def)
  show "rest = []" if "\<not> ok"
  proof (rule ccontr)
    assume "rest \<noteq> []"
    then obtain ev b more where "rest = (ev, b) # more" by (cases rest) auto
    then show False using rest assms that new(3) by (auto simp: rpc_core_def Let_def)
  qed
  have "flags_ok (v\<lparr>v_rpc := x, v_cq := (v_cq v)(event_queue r := rest)\<rparr>) (r\<lparr>pending := (pending r)(NEW_CONNECTION := False)\<rparr>)"
    using assms(1) by (intro flags_pop [OF _ assms(2)]) (simp_all add: rpc_core_def Let_def)
  then show "rpc_core (v\<lparr>v_rpc := x, v_cq := (v_cq v)(event_queue r := rest)\<rparr>)
      (r\<lparr>pending := (pending r)(NEW_CONNECTION := False), handler := True\<rparr>)"
    using assms rest new by (auto simp: rpc_core_def Let_def)
qed

text \<open>The new connection of a call gives a fresh call with its two tags.\<close>

lemma RequestNext_inv:
  assumes "view_of p s = no_view\<lparr>v_rpc := Some (new_rpc i info q)\<rparr>"
  shows "rpc_inv (view_of p (RequestNextMethodInvocation p s)) \<and> frame p s (RequestNextMethodInvocation p s)"
proof -
  let ?r = "(new_rpc i info q)\<lparr>pending := ((\<lambda>_. False)(DONE := True))(NEW_CONNECTION := True)\<rparr>"
  have a: "active s p = Some (new_rpc i info q)" using assms view_active [of p s] by simp
  have v: "view_of p (RequestNextMethodInvocation p s) = no_view\<lparr>v_rpc := Some ?r, v_out := {NEW_CONNECTION, DONE}\<rparr>"
    using assms a by (simp add: RequestNextMethodInvocation_def views no_view_def new_rpc_def insert_commute)
  have "flags_ok (no_view\<lparr>v_rpc := Some ?r, v_out := {NEW_CONNECTION, DONE}\<rparr>) ?r"
    by (auto simp: flags_ok_def no_view_def new_rpc_def)
  then have "rpc_inv (no_view\<lparr>v_rpc := Some ?r, v_out := {NEW_CONNECTION, DONE}\<rparr>)"
    by (auto simp: rpc_inv_def rpc_core_def Let_def no_view_def new_rpc_def IsAnyEventPending_def)
  moreover have "frame p s (RequestNextMethodInvocation p s)"
    unfolding RequestNextMethodInvocation_def by (blast intro: frame_trans frame_prims)
  ultimately show ?thesis using v by simp
qed

text \<open>Adding a call: the invariant of the service, from that of all calls but \<open>p\<close> and of \<open>p\<close>.\<close>

definition others_inv :: "nat \<Rightarrow> ('m, 'w) service \<Rightarrow> bool" where
  "others_inv p s \<longleftrightarrow>
     p < next_rpc s \<and> (\<forall>p'. p' \<noteq> p \<longrightarrow> rpc_inv (view_of p' s)) \<and> (\<forall>p' \<ge> next_rpc s. view_of p' s = no_view)
     \<and> internal_ok s"

lemma svc_inv_split: "p < next_rpc s \<Longrightarrow> svc_inv s \<longleftrightarrow> others_inv p s \<and> rpc_inv (view_of p s)"
  by (auto simp: svc_inv_def others_inv_def)

lemma others_frame:
  assumes "others_inv p s" and "frame p s s'"
  shows "others_inv p s'"
proof -
  have "view_of p' s' = view_of p' s" if "p' \<noteq> p" for p' using assms(2) that by (simp add: frame_def)
  moreover have "next_rpc s' = next_rpc s" "internal_ok s'"
    using assms by (simp_all add: frame_def others_inv_def)
  moreover have "p' \<noteq> p" if "p' \<ge> next_rpc s" for p' using assms(1) that by (auto simp: others_inv_def)
  ultimately show ?thesis using assms(1) by (simp add: others_inv_def)
qed

lemma active_known: "svc_inv s \<Longrightarrow> active s p = Some r \<Longrightarrow> p < next_rpc s"
  using view_active [of p s] by (fastforce simp: svc_inv_def no_view_def not_less[symmetric])

lemma add_rpc_inv:
  assumes "svc_inv s"
  shows "svc_inv (RequestNextMethodInvocation (next_rpc s) (snd (ActiveRpcs_Add (new_rpc i info q) s)))"
proof -
  let ?p = "next_rpc s" and ?s1 = "snd (ActiveRpcs_Add (new_rpc i info q) s)"
  have fresh: "view_of ?p s = no_view" using assms by (simp add: svc_inv_def)
  have v: "view_of p' ?s1 = (if p' = ?p then no_view\<lparr>v_rpc := Some (new_rpc i info q)\<rparr> else view_of p' s)" for p'
    using fresh by (auto simp: view_of_def no_view_def ActiveRpcs_Add_def)
  have n: "next_rpc ?s1 = Suc ?p" by (simp add: ActiveRpcs_Add_def)
  have "internal_ok ?s1 = internal_ok s" by (simp add: ActiveRpcs_Add_def internal_ok_def)
  then have "others_inv ?p ?s1" using assms by (auto simp: others_inv_def svc_inv_def v n)
  then show ?thesis
    using RequestNext_inv [of ?p ?s1 i info q] v others_frame svc_inv_split [of ?p] n
    by (metis frame_def lessI)
qed


text \<open>The state after the first event \<open>e\<close> of queue \<open>q\<close> has been taken off and its flag cleared.\<close>

definition popped :: "nat \<Rightarrow> nat \<Rightarrow> Event \<Rightarrow> rpc_event list \<Rightarrow> ('m, 'w) service \<Rightarrow> ('m, 'w) service" where
  "popped q p ev es s = SetRpcEventState p ev False (s\<lparr>queues := (queues s)(q := es)\<rparr>)"

lemma first_event:
  assumes "svc_inv s" and "queues s q = CompletionQueueRpcEvent p ev ok # es"
  shows "\<exists>r. active s p = Some r \<and> event_queue r = q \<and> rpc_core (view_of p s) r \<and> IsAnyEventPending r
    \<and> v_cq (view_of p s) q = (ev, ok) # cq_of p es"
proof -
  have cq: "v_cq (view_of p s) q = (ev, ok) # cq_of p es" using assms(2) by (simp add: view_of_def)
  have inv: "rpc_inv (view_of p s)" using assms(1) by (simp add: svc_inv_def)
  show ?thesis
  proof (cases "active s p")
    case None
    then show ?thesis using inv cq by (simp add: rpc_inv_def view_active)
  next
    case (Some r)
    then have r: "rpc_core (view_of p s) r" "IsAnyEventPending r" using inv by (simp_all add: rpc_inv_def view_active)
    then have "event_queue r = q" using cq unfolding rpc_core_def Let_def by (metis list.distinct(1))
    then show ?thesis using Some r cq by blast
  qed
qed

lemma view_popped:
  assumes "queues s q = CompletionQueueRpcEvent p ev ok # es"
  shows "view_of p' (popped q p ev es s) =
    (if p' = p then (view_of p s)\<lparr>v_rpc := map_option (\<lambda>r. r\<lparr>pending := (pending r)(ev := False)\<rparr>) (active s p),
       v_cq := (v_cq (view_of p s))(q := cq_of p es)\<rparr>
     else view_of p' s)"
proof -
  have q: "view_of p' (s\<lparr>queues := (queues s)(q := es)\<rparr>) =
      (if p' = p then (view_of p s)\<lparr>v_cq := (v_cq (view_of p s))(q := cq_of p es)\<rparr> else view_of p' s)" for p'
    using assms by (auto simp: view_of_def fun_eq_iff)
  show ?thesis by (simp add: popped_def views q)
qed

lemma internal_ok_tail:
  assumes "internal_ok s" and "queues s q = e # es"
  shows "internal_ok (s\<lparr>queues := (queues s)(q := es)\<rparr>)"
proof -
  have "set es \<subseteq> set (queues s q)" using assms(2) by auto
  then show ?thesis using assms(1) by (auto simp: internal_ok_def split: if_splits)
qed

lemma others_popped:
  assumes "svc_inv s" and "queues s q = CompletionQueueRpcEvent p ev ok # es"
  shows "others_inv p (popped q p ev es s)"
proof -
  obtain r where "active s p = Some r" using first_event [OF assms] by blast
  then have "p < next_rpc s" by (rule active_known [OF assms(1)])
  moreover have "internal_ok (s\<lparr>queues := (queues s)(q := es)\<rparr>)"
    using assms(1) internal_ok_tail [OF _ assms(2)] by (simp add: svc_inv_def)
  moreover have "next_rpc (popped q p ev es s) = next_rpc s" by (simp add: popped_def)
  ultimately show ?thesis
    using assms(1) by (simp add: others_inv_def svc_inv_def view_popped [OF assms(2)]) (simp add: popped_def)
qed

lemma popped_live:
  assumes "svc_inv s" and "queues s q = CompletionQueueRpcEvent p ev ok # es" and "ev \<noteq> NEW_CONNECTION"
  shows "live p (popped q p ev es s)" "\<not> busy p ev (popped q p ev es s)" "ev \<noteq> WRITE_NEEDED"
    "ev = READ \<Longrightarrow> streaming p (popped q p ev es s)"
proof -
  obtain r where r: "active s p = Some r" "event_queue r = q" "rpc_core (view_of p s) r"
    "v_cq (view_of p s) q = (ev, ok) # cq_of p es" using first_event [OF assms(1,2)] by blast
  let ?r = "r\<lparr>pending := (pending r)(ev := False)\<rparr>"
  have act: "active (popped q p ev es s) p = Some ?r" using r(1) by (simp add: popped_def)
  have "rpc_core (view_of p (popped q p ev es s)) ?r"
    using core_pop [OF r(3) _ assms(3)] r by (simp add: view_popped [OF assms(2)])
  moreover have "\<not> pending r NEW_CONNECTION" using hd_new_connection [OF r(3) _ assms(3)] r(2,4) by simp
  ultimately show "live p (popped q p ev es s)" using act by (simp add: live_def)
  show "\<not> busy p ev (popped q p ev es s)" using act by (simp add: busy_def)
  have "pending r ev" using r(2,3,4) by (auto simp: rpc_core_def Let_def flags_ok_def)
  then show "ev \<noteq> WRITE_NEEDED" "ev = READ \<Longrightarrow> streaming p (popped q p ev es s)"
    using r(3) act by (auto simp: rpc_core_def Let_def streaming_def)
qed

lemma live_busy_inv: "live p s \<Longrightarrow> busy p READ s \<Longrightarrow> rpc_inv (view_of p s)"
  by (auto simp: live_def busy_def rpc_inv_def view_active IsAnyEventPending_def)

lemma live_then_remove:
  assumes "live p s" and "\<exists>s1. f s = Some s1 \<and> live p s1 \<and> frame p s s1"
  shows "\<exists>s'. f s \<bind> RemoveIfNotPending p = Some s' \<and> rpc_inv (view_of p s') \<and> frame p s s'"
proof -
  obtain s1 where s1: "f s = Some s1" "live p s1" "frame p s s1" using assms(2) by blast
  obtain s2 where "RemoveIfNotPending p s1 = Some s2" "rpc_inv (view_of p s2)" "frame p s1 s2"
    using RemoveIfNotPending_inv [OF s1(2)] by blast
  then show ?thesis using s1 frame_trans by fastforce
qed

lemma handle_other_event:
  assumes "svc_inv s" and "queues s q = CompletionQueueRpcEvent p ev ok # es" and "ev \<noteq> NEW_CONNECTION"
  shows "\<exists>s'. HandleEvent ev p ok (popped q p ev es s) = Some s' \<and> rpc_inv (view_of p s')
    \<and> frame p (popped q p ev es s) s'"
proof -
  let ?s = "popped q p ev es s"
  note live = popped_live [OF assms]
  have read: "\<exists>s'. HandleRead p True ?s = Some s' \<and> rpc_inv (view_of p s') \<and> frame p ?s s'" if ev: "ev = READ"
  proof -
    obtain s1 where s1: "OnRequest p ?s = Some s1" "live p s1" "frame p ?s s1" "busy p READ s1 = busy p READ ?s"
      "streaming p s1 = streaming p ?s" using callbacks_live(1) [OF live(1)] by blast
    then obtain s2 where "RequestStreamingReadIfNeeded p s1 = Some s2" "live p s2" "frame p s1 s2" "busy p READ s2"
      using RequestStreamingReadIfNeeded_live [OF s1(2)] live(2,4) ev by auto
    then show ?thesis using s1 live_busy_inv frame_trans by (fastforce simp: HandleRead_def)
  qed
  show ?thesis
  proof (cases ev)
    case READ
    show ?thesis
    proof (cases ok)
      case True
      then show ?thesis using read READ by (simp add: HandleEvent_def)
    next
      case False
      then show ?thesis
        using live_then_remove [OF live(1), of "OnReadsDone p"] callbacks_live(2) [OF live(1)] READ
        by (auto simp: HandleEvent_def HandleRead_def)
    qed
  next
    case WRITE
    then show ?thesis
      using live_then_remove [OF live(1), of "HandleSendQueue p"] HandleSendQueue_live [OF live(1)]
      by (auto simp: HandleEvent_def HandleWrite_def)
  next
    case FINISH
    then show ?thesis
      using live_then_remove [OF live(1), of "OnFinish p"] callbacks_live(3) [OF live(1)]
      by (auto simp: HandleEvent_def HandleFinish_def)
  next
    case DONE
    then show ?thesis using RemoveIfNotPending_inv [OF live(1)] by (simp add: HandleEvent_def HandleDone_def)
  qed (use assms(3) live(3) in simp_all)
qed

section \<open>New connections\<close>

text \<open>
  gRPC answers the request for a connection with \<open>ok\<close> unless the server is being shut down; with a
  connection that it makes all the same after \<^verbatim>\<open>StopServing\<close>, or one that fails before it, the
  invariant is lost.
\<close>

fun benign :: "rpc_event \<Rightarrow> ('m, 'w) service \<Rightarrow> bool" where
  "benign (CompletionQueueRpcEvent p NEW_CONNECTION ok) s \<longleftrightarrow> ok \<noteq> shutting_down s"
| "benign _ s \<longleftrightarrow> True"

lemma benign_simps [simp]:
  "benign (InternalRpcEvent p ev) s" "ev \<noteq> NEW_CONNECTION \<Longrightarrow> benign (CompletionQueueRpcEvent p ev ok) s"
  by (cases ev, simp_all)+

lemma live_done_inv: "live p s \<Longrightarrow> busy p DONE s \<Longrightarrow> rpc_inv (view_of p s)"
  by (auto simp: live_def busy_def rpc_inv_def view_active IsAnyEventPending_def)

lemma svc_inv_frame:
  assumes "others_inv p s" and "frame p s s'" and "rpc_inv (view_of p s')"
  shows "svc_inv s'"
proof -
  have "p < next_rpc s'" using assms(1,2) by (simp add: others_inv_def frame_def)
  then show ?thesis using svc_inv_split others_frame [OF assms(1,2)] assms(3) by blast
qed

lemma view_select [simp]: "view_of p (s\<lparr>current_event_queue_id := q\<rparr>) = view_of p s"
  by (simp add: view_of_def)

lemma svc_inv_select [simp]: "svc_inv (s\<lparr>current_event_queue_id := q\<rparr>) = svc_inv s"
  by (simp add: svc_inv_def internal_ok_def)

lemma serve_next_inv:
  assumes "svc_inv s" and "active s p = Some r"
  shows "\<exists>s'. serve_next p s = Some s' \<and> svc_inv s'"
proof -
  let ?q = "(current_event_queue_id s + 1) mod num_event_threads s"
  let ?s = "s\<lparr>current_event_queue_id := ?q\<rparr>"
  have "(Clone r)\<lparr>event_queue := ?q\<rparr> = new_rpc (method_index r) (rpc_info r) ?q"
    by (simp add: Clone_def new_rpc_def)
  then have "serve_next p s =
      Some (RequestNextMethodInvocation (next_rpc ?s) (snd (ActiveRpcs_Add (new_rpc (method_index r) (rpc_info r) ?q) ?s)))"
    using assms(2) by (simp add: serve_next_def SelectNextEventQueueRoundRobin_def ActiveRpcs_Add_def Let_def)
  then show ?thesis using add_rpc_inv [of ?s] assms(1) by simp
qed

lemma handle_new_refused:
  assumes "svc_inv s" and "queues s q = CompletionQueueRpcEvent p NEW_CONNECTION False # es"
  shows "svc_inv (ActiveRpcs_Remove p (popped q p NEW_CONNECTION es s))"
proof (rule svc_inv_frame [OF others_popped [OF assms]])
  let ?s = "popped q p NEW_CONNECTION es s"
  obtain r where r: "active s p = Some r" "event_queue r = q" "rpc_core (view_of p s) r"
    "v_cq (view_of p s) q = (NEW_CONNECTION, False) # cq_of p es" using first_event [OF assms] by blast
  note new = core_pop_new [OF r(3), unfolded r(2), OF r(4)]
  show "frame p ?s (ActiveRpcs_Remove p ?s)"
    by (auto simp: frame_def view_of_def ActiveRpcs_Remove_def internal_ok_def)
  have "view_of p (ActiveRpcs_Remove p ?s) = (view_of p ?s)\<lparr>v_rpc := None\<rparr>"
    by (simp add: view_of_def ActiveRpcs_Remove_def)
  moreover have "v_cq (view_of p s) q' = []" if "q' \<noteq> q" for q'
    using r(2,3) that by (simp add: rpc_core_def Let_def)
  ultimately show "rpc_inv (view_of p (ActiveRpcs_Remove p ?s))"
    using new by (simp add: view_popped [OF assms(2)] rpc_inv_def)
qed

lemma handle_new_accepted:
  assumes "svc_inv s" and "queues s q = CompletionQueueRpcEvent p NEW_CONNECTION True # es"
  shows "\<exists>s'. OnConnection p (popped q p NEW_CONNECTION es s) \<bind> serve_next p = Some s' \<and> svc_inv s'"
proof -
  let ?s = "popped q p NEW_CONNECTION es s"
  obtain r where r: "active s p = Some r" "event_queue r = q" "rpc_core (view_of p s) r"
    "v_cq (view_of p s) q = (NEW_CONNECTION, True) # cq_of p es" using first_event [OF assms] by blast
  note new = core_pop_new [OF r(3), unfolded r(2), OF r(4)]
  let ?r = "r\<lparr>pending := (pending r)(NEW_CONNECTION := False)\<rparr>"
  let ?r1 = "?r\<lparr>handler := True\<rparr>"
  let ?s1 = "upd_rpc p (\<lambda>r. r\<lparr>handler := True\<rparr>) ?s"
  have act: "active ?s p = Some ?r" "active ?s1 p = Some ?r1" using r(1) by (simp_all add: popped_def)
  have "rpc_core (view_of p ?s1) ?r1"
    using new(1) r(1) by (simp add: views act view_popped [OF assms(2)])
  then have live: "live p ?s1" "\<not> busy p READ ?s1" "busy p DONE ?s1"
    using act new(2,6) by (simp_all add: live_def busy_def)
  then obtain s2 where s2: "RequestStreamingReadIfNeeded p ?s1 = Some s2" "live p s2" "frame p ?s1 s2" "busy p DONE s2"
    using RequestStreamingReadIfNeeded_live [OF live(1,2)] by blast
  have "svc_inv s2"
    using others_popped [OF assms] s2 live_done_inv frame_trans [OF frame_prims(1) s2(3)] svc_inv_frame by blast
  moreover have "OnConnection p ?s = Some s2" using act(1) new(3) s2(1) by (simp add: OnConnection_def)
  moreover obtain r2 where "active s2 p = Some r2" using s2(2) by (auto simp: live_def)
  ultimately show ?thesis using serve_next_inv by simp
qed

section \<open>Every event\<close>

lemma handle_internal:
  assumes "svc_inv s" and "queues s q = InternalRpcEvent p ev # es"
  shows "\<exists>s'. Handle (InternalRpcEvent p ev) (s\<lparr>queues := (queues s)(q := es)\<rparr>) = Some s' \<and> svc_inv s'"
proof -
  let ?s = "s\<lparr>queues := (queues s)(q := es)\<rparr>"
  have "InternalRpcEvent p ev \<in> set (queues s q)" using assms(2) by simp
  then have ev: "ev = WRITE_NEEDED" using assms(1) unfolding svc_inv_def internal_ok_def by blast
  have view: "view_of p' ?s = view_of p' s" for p'
    using assms(2) by (simp add: view_of_def fun_eq_iff)
  have "internal_ok ?s" using assms(1) internal_ok_tail [OF _ assms(2)] by (simp add: svc_inv_def)
  then have inv: "svc_inv ?s" using assms(1) by (simp add: svc_inv_def view)
  show ?thesis
  proof (cases "active s p")
    case None
    then show ?thesis using inv by simp
  next
    case (Some r)
    have r: "rpc_core (view_of p ?s) r" "IsAnyEventPending r" "p < next_rpc ?s"
      using inv Some active_known [OF inv] by (auto simp: svc_inv_def rpc_inv_def view_of_def split: option.splits)
    show ?thesis
    proof (cases "pending r NEW_CONNECTION")
      case True
      then have "send_queue r = []" by (rule core_new [OF r(1)])
      then show ?thesis
        using Some inv r(2) by (simp add: ev HandleEvent_def HandleWrite_def HandleSendQueue_def RemoveIfNotPending_def)
    next
      case False
      then have live: "live p ?s" using Some r(1) by (simp add: live_def)
      obtain s' where "HandleWrite p True ?s = Some s'" "rpc_inv (view_of p s')" "frame p ?s s'"
        using live_then_remove [OF live, of "HandleSendQueue p"] HandleSendQueue_live [OF live]
        by (auto simp: HandleWrite_def)
      then show ?thesis
        using Some svc_inv_frame inv svc_inv_split [OF r(3)] by (auto simp: ev HandleEvent_def)
    qed
  qed
qed

lemma Handle_completion:
  assumes "svc_inv s" and "queues s q = CompletionQueueRpcEvent p ev ok # es"
  shows "Handle (CompletionQueueRpcEvent p ev ok) (s\<lparr>queues := (queues s)(q := es)\<rparr>) =
    HandleEvent ev p ok (popped q p ev es s)"
  using first_event [OF assms] by (auto simp: popped_def)

text \<open>A benign event is handled, and the invariant holds again.\<close>

lemma RunEventQueue_inv:
  assumes "svc_inv s" and "\<And>e es. queues s q = e # es \<Longrightarrow> benign e s"
  shows "\<exists>s'. RunEventQueue_round q s = Some s' \<and> svc_inv s'"
proof (cases "queues s q")
  case Nil
  then show ?thesis using assms(1) by (simp add: RunEventQueue_round_def)
next
  case (Cons e es)
  show ?thesis
  proof (cases e)
    case (InternalRpcEvent p ev)
    then show ?thesis
      using handle_internal [OF assms(1)] Cons by (simp add: RunEventQueue_round_def del: Handle.simps)
  next
    case (CompletionQueueRpcEvent p ev ok)
    note q = Cons [unfolded CompletionQueueRpcEvent]
    have round: "RunEventQueue_round q s = HandleEvent ev p ok (popped q p ev es s)"
      using q Handle_completion [OF assms(1) q] by (simp add: RunEventQueue_round_def)
    show ?thesis
    proof (cases "ev = NEW_CONNECTION")
      case True
      then have "ok \<noteq> shutting_down (popped q p ev es s)" using assms(2) q by (simp add: popped_def)
      then show ?thesis
        using handle_new_accepted [OF assms(1)] handle_new_refused [OF assms(1)] q True
        by (cases ok) (simp_all add: round HandleEvent_def HandleNewConnection_def)
    next
      case False
      then show ?thesis
        using handle_other_event [OF assms(1) q] others_popped [OF assms(1) q] svc_inv_frame round by metis
    qed
  qed
qed

section \<open>The environment\<close>

text \<open>
  gRPC returns a tag that it holds, once; a tag other than that of the request for a connection belongs to
  a call that has been connected (\<^verbatim>\<open>AsyncNotifyWhenDone\<close> gives no event for a call that never starts).
\<close>

definition may_complete :: "nat \<Rightarrow> Event \<Rightarrow> ('m, 'w) service \<Rightarrow> bool" where
  "may_complete p ev s \<longleftrightarrow> (p, ev) \<in> outstanding s \<and> (ev = NEW_CONNECTION \<or> p \<in> started s)"

lemma outstanding_active:
  assumes "svc_inv s" and "may_complete p ev s"
  shows "\<exists>r. active s p = Some r \<and> rpc_core (view_of p s) r \<and> IsAnyEventPending r"
proof -
  have "rpc_inv (view_of p s)" using assms(1) by (simp add: svc_inv_def)
  then show ?thesis
    using assms(2) by (auto simp: rpc_inv_def may_complete_def view_of_def split: option.splits)
qed

lemma core_complete:
  assumes "rpc_core v r" and "ev \<in> v_out v" and "ev \<noteq> NEW_CONNECTION \<Longrightarrow> v_started v"
  shows "rpc_core (v\<lparr>v_rpc := x, v_cq := (v_cq v)(event_queue r := v_cq v (event_queue r) @ [(ev, ok)]), v_out := v_out v - {ev},
      v_started := (v_started v \<or> ev = NEW_CONNECTION \<and> ok)\<rparr>) r"
proof -
  let ?v = "v\<lparr>v_rpc := x, v_cq := (v_cq v)(event_queue r := v_cq v (event_queue r) @ [(ev, ok)]), v_out := v_out v - {ev},
      v_started := (v_started v \<or> ev = NEW_CONNECTION \<and> ok)\<rparr>"
  have "flags_ok ?v r" using assms(1,2) by (auto simp: rpc_core_def Let_def flags_ok_def)
  moreover have "v_cq v (event_queue r) \<noteq> []" if "NEW_CONNECTION \<in> fst ` set (v_cq v (event_queue r))"
    using that by auto
  ultimately show ?thesis
    using assms by (cases "ev = NEW_CONNECTION") (auto simp: rpc_core_def Let_def)
qed

lemma RunCompletionQueue_inv:
  assumes "svc_inv s" and "may_complete p ev s"
  shows "\<exists>s'. RunCompletionQueue_round p ev ok m s = Some s' \<and> svc_inv s'"
proof -
  obtain r where r: "active s p = Some r" "rpc_core (view_of p s) r" "IsAnyEventPending r"
    using outstanding_active [OF assms] by blast
  obtain s' where s': "RunCompletionQueue_round p ev ok m s = Some s'" using r(1) by (simp add: RunCompletionQueue_round_def Let_def)
  let ?r = "if ev \<in> {NEW_CONNECTION, READ} \<and> ok then r\<lparr>request := m\<rparr> else r"
  have v: "view_of p s' = (view_of p s)\<lparr>v_rpc := Some ?r,
      v_cq := (v_cq (view_of p s))(event_queue r := v_cq (view_of p s) (event_queue r) @ [(ev, ok)]),
      v_out := v_out (view_of p s) - {ev},
      v_started := (v_started (view_of p s) \<or> ev = NEW_CONNECTION \<and> ok)\<rparr>"
    using s' r(1) by (auto simp: RunCompletionQueue_round_def Let_def view_of_def push_event_def upd_rpc_def fun_eq_iff)
  have core: "rpc_core v (r\<lparr>request := m\<rparr>) = rpc_core v r" for v by (simp add: rpc_core_def)
  have "rpc_core (view_of p s') r"
    unfolding v by (rule core_complete [OF r(2)]) (use assms(2) in \<open>auto simp: may_complete_def view_of_def\<close>)
  then have inv: "rpc_inv (view_of p s')"
    using r(3) arg_cong [OF v, of v_rpc] by (auto simp: rpc_inv_def core IsAnyEventPending_def)
  have "frame p s s'"
    using s' r(1)
    by (auto simp: frame_def RunCompletionQueue_round_def Let_def view_of_def push_event_def upd_rpc_def fun_eq_iff
        internal_ok_def split: if_splits)
  then show ?thesis
    using s' inv svc_inv_frame svc_inv_split [OF active_known [OF assms(1) r(1)]] assms(1) by blast
qed

text \<open>A writer exists only once the handler does.\<close>

lemma writer_inv:
  assumes "svc_inv s" and "active s p = Some r" and "handler r"
  shows "\<exists>s'. send_later p item s = Some s' \<and> svc_inv s'"
proof -
  have core: "rpc_core (view_of p s) r" "IsAnyEventPending r"
    using assms(1,2) by (auto simp: svc_inv_def rpc_inv_def view_of_def split: option.splits)
  obtain s' where s': "send_later p item s = Some s'" "keeps p s s'" using send_later_keeps [OF assms(2)] by blast
  obtain r' where "active s' p = Some r'" "rpc_core (view_of p s') r'" "pending r' = pending r"
    using keeps_core [OF s'(2) assms(2) core(1) assms(3)] by blast
  then have "rpc_inv (view_of p s')" using core(2) by (simp add: rpc_inv_def view_active IsAnyEventPending_def)
  moreover have "frame p s s'" using s'(2) by (rule keepsE)
  ultimately show ?thesis
    using s'(1) svc_inv_frame svc_inv_split [OF active_known [OF assms(1,2)]] assms(1) by blast
qed

lemma svc_inv_stop [simp]: "svc_inv (StopServing s) = svc_inv s"
  by (simp add: StopServing_def svc_inv_def internal_ok_def view_of_def)

lemma svc_inv_new: "svc_inv (new_service infos n w)"
  by (simp add: svc_inv_def new_service_def view_of_def rpc_inv_def internal_ok_def no_view_def log_of_def)

lemma start_one_inv: "svc_inv s \<Longrightarrow> svc_inv (start_one x s)"
  using add_rpc_inv [of "snd (SelectNextEventQueueRoundRobin s)"]
  by (auto simp: start_one_def SelectNextEventQueueRoundRobin_def ActiveRpcs_Add_def Let_def split: prod.splits)

lemma StartServing_inv: "svc_inv (StartServing n (new_service infos k w))"
proof -
  have "svc_inv (fold start_one xs s)" if "svc_inv s" for xs s
    using that by (induction xs arbitrary: s) (simp_all add: start_one_inv)
  from this [OF svc_inv_new] show ?thesis by (simp add: StartServing_def)
qed

section \<open>Reachable states\<close>

text \<open>
  The server from its start: gRPC returns tags, the threads handle the events of their queues, other threads
  write through \<^verbatim>\<open>Writer\<close>, and \<^verbatim>\<open>Shutdown\<close> stops the service.
\<close>

inductive svc_reach :: "('m, 'w) handler_info list \<Rightarrow> nat \<Rightarrow> nat \<Rightarrow> 'w \<Rightarrow> ('m, 'w) service \<Rightarrow> bool"
  for infos grpc_threads event_threads w where
  boot: "0 < event_threads \<Longrightarrow>
    svc_reach infos grpc_threads event_threads w (StartServing grpc_threads (new_service infos event_threads w))"
| complete: "svc_reach infos grpc_threads event_threads w s \<Longrightarrow> may_complete p ev s \<Longrightarrow>
    RunCompletionQueue_round p ev ok m s = Some s' \<Longrightarrow> svc_reach infos grpc_threads event_threads w s'"
| handle: "svc_reach infos grpc_threads event_threads w s \<Longrightarrow> queues s q = e # es \<Longrightarrow> benign e s \<Longrightarrow>
    RunEventQueue_round q s = Some s' \<Longrightarrow> svc_reach infos grpc_threads event_threads w s'"
| writes: "svc_reach infos grpc_threads event_threads w s \<Longrightarrow> active s p = Some r \<Longrightarrow> handler r \<Longrightarrow>
    Writer_Write p m s = Some (b, s') \<Longrightarrow> svc_reach infos grpc_threads event_threads w s'"
| finish: "svc_reach infos grpc_threads event_threads w s \<Longrightarrow> active s p = Some r \<Longrightarrow> handler r \<Longrightarrow>
    Writer_Finish p status s = Some (b, s') \<Longrightarrow> svc_reach infos grpc_threads event_threads w s'"
| stop: "svc_reach infos grpc_threads event_threads w s \<Longrightarrow> svc_reach infos grpc_threads event_threads w (StopServing s)"

lemma svc_reach_inv: "svc_reach infos n k w s \<Longrightarrow> svc_inv s"
proof (induction rule: svc_reach.induct)
  case boot
  show ?case by (rule StartServing_inv)
next
  case (complete s p ev ok m s')
  then show ?case using RunCompletionQueue_inv by (metis option.inject)
next
  case (handle s q e es s')
  then show ?case using RunEventQueue_inv [of s q] by (metis list.inject option.inject)
next
  case (writes s p r m b s')
  then show ?case
    using writer_inv [of s p r "\<lparr>si_msg = Some m, si_status = 0\<rparr>"] by (auto simp: Writer_Write_def Rpc_Write_def)
next
  case (finish s p r status b s')
  then show ?case
    using writer_inv [of s p r "\<lparr>si_msg = None, si_status = status\<rparr>"] by (auto simp: Writer_Finish_def Rpc_Finish_def)
qed simp

section \<open>What the handlers keep\<close>

text \<open>
  The contract between the server and the handlers registered with it: a property \<open>good\<close> of the state they
  share that every callback keeps.  The server adds nothing: it holds in every reachable state.
\<close>

definition managed :: "('m, 'w) handler_info set \<Rightarrow> ('w \<Rightarrow> bool) \<Rightarrow> ('m, 'w) service \<Rightarrow> bool" where
  "managed infos good s \<longleftrightarrow> good (world s) \<and> (\<forall>p r. active s p = Some r \<longrightarrow> rpc_info r \<in> infos)"

definition preserves :: "('s \<Rightarrow> bool) \<Rightarrow> ('s \<Rightarrow> 's option) \<Rightarrow> bool" where
  "preserves P f \<longleftrightarrow> (\<forall>s s'. P s \<longrightarrow> f s = Some s' \<longrightarrow> P s')"

lemma preservesI: "(\<And>s s'. P s \<Longrightarrow> f s = Some s' \<Longrightarrow> P s') \<Longrightarrow> preserves P f"
  by (simp add: preserves_def)

lemma preservesD: "preserves P f \<Longrightarrow> f s = Some s' \<Longrightarrow> P s \<Longrightarrow> P s'"
  by (simp add: preserves_def)

lemma preserves_bind: "preserves P f \<Longrightarrow> preserves P g \<Longrightarrow> preserves P (\<lambda>s. f s \<bind> g)"
  by (rule preservesI) (auto simp: bind_eq_Some_conv dest: preservesD)

lemma world_simps [simp]:
  "world (upd_rpc p f s) = world s" "world (issue p ev s) = world s" "world (SetRpcEventState p ev b s) = world s"
  "world (EnqueueMessage p item s) = world s" "world (perform p ev item s) = world s" "world (push_event q e s) = world s"
  by (simp_all add: upd_rpc_def issue_def SetRpcEventState_def EnqueueMessage_def perform_def push_event_def)

lemma managed_prims:
  assumes "managed infos good s"
  shows "managed infos good (SetRpcEventState p ev b s)" "managed infos good (issue p ev s)"
    "managed infos good (EnqueueMessage p item s)" "managed infos good (perform p ev item s)"
    "managed infos good (push_event q e s)" "managed infos good (ActiveRpcs_Remove p s)"
    "managed infos good (upd_rpc p (\<lambda>r. r\<lparr>send_queue := rest\<rparr>) s)"
    "managed infos good (upd_rpc p (\<lambda>r. r\<lparr>handler := True\<rparr>) s)"
    "managed infos good (upd_rpc p (\<lambda>r. r\<lparr>request := m\<rparr>) s)"
    "rpc_info r \<in> infos \<Longrightarrow> managed infos good (snd (ActiveRpcs_Add r s))"
    "managed infos good (s\<lparr>current_event_queue_id := i\<rparr>)" "managed infos good (s\<lparr>queues := qs\<rparr>)"
    "managed infos good (s\<lparr>outstanding := out\<rparr>)" "managed infos good (s\<lparr>started := st\<rparr>)" "managed infos good (StopServing s)"
    "managed infos good (RequestNextMethodInvocation p s)"
  using assms
  by (auto simp: managed_def ActiveRpcs_Remove_def ActiveRpcs_Add_def StopServing_def RequestNextMethodInvocation_def
      split: if_splits)

lemma send_later_managed: "preserves (managed infos good) (send_later p item)"
  by (rule preservesI) (auto simp: send_later_def bind_eq_Some_conv Let_def managed_prims)

lemma send_replies_managed:
  fixes infos :: "('m, 'w) handler_info set"
  shows "preserves (managed infos good) (send_replies p rs)"
proof (induction rs)
  case Nil
  then show ?case by (simp add: preserves_def)
next
  case (Cons x rs)
  have "\<exists>item. send_replies p (x # rs) = (\<lambda>s :: ('m, 'w) service. send_later p item s \<bind> send_replies p rs)"
    by (cases x) (auto simp: Rpc_Write_def Rpc_Finish_def fun_eq_iff)
  then obtain item where eq: "send_replies p (x # rs) = (\<lambda>s :: ('m, 'w) service. send_later p item s \<bind> send_replies p rs)" by blast
  show ?case unfolding eq by (rule preserves_bind [OF send_later_managed Cons.IH])
qed

lemma PerformFinish_managed: "preserves (managed infos good) (PerformFinish p item)"
proof (rule preservesI)
  fix s s' assume s: "managed infos good s" "PerformFinish p item s = Some s'"
  then obtain r where "active s p = Some r" by (auto simp: PerformFinish_def bind_eq_Some_conv)
  then have "s' = perform p FINISH item s"
    using s(2) by (cases "hi_type (rpc_info r)") (auto simp: PerformFinish_def split: if_split_asm)
  then show "managed infos good s'" using s(1) by (simp add: managed_prims)
qed

lemma PerformWrite_managed: "preserves (managed infos good) (PerformWrite p item)"
  by (rule preservesI) (auto simp: PerformWrite_def bind_eq_Some_conv managed_prims split: if_split_asm)

lemma HandleSendQueue_managed: "preserves (managed infos good) (HandleSendQueue p)"
proof (rule preservesI)
  fix s s' assume s: "managed infos good s" "HandleSendQueue p s = Some s'"
  then obtain r where r: "active s p = Some r" by (auto simp: HandleSendQueue_def bind_eq_Some_conv)
  show "managed infos good s'"
  proof (cases "send_queue r")
    case (Cons item rest)
    let ?s = "upd_rpc p (\<lambda>r. r\<lparr>send_queue := rest\<rparr>) s"
    have "s' = s \<or> PerformFinish p item ?s = Some s' \<or> PerformWrite p item ?s = Some s'"
      using s(2) r Cons by (auto simp: HandleSendQueue_def Let_def split: if_split_asm)
    then show ?thesis
      using s(1) preservesD [OF PerformFinish_managed _ managed_prims(7)]
        preservesD [OF PerformWrite_managed _ managed_prims(7)] by blast
  qed (use s r in \<open>simp add: HandleSendQueue_def\<close>)
qed

lemma RemoveIfNotPending_managed: "preserves (managed infos good) (RemoveIfNotPending p)"
  by (rule preservesI) (auto simp: RemoveIfNotPending_def bind_eq_Some_conv managed_prims split: if_splits)

lemma serve_next_managed: "preserves (managed infos good) (serve_next p)"
proof -
  have "managed infos good s'" if s: "managed infos good s" "serve_next p s = Some s'" for s s'
  proof -
    let ?q = "(current_event_queue_id s + 1) mod num_event_threads s"
    let ?s = "s\<lparr>current_event_queue_id := ?q\<rparr>"
    obtain r where r: "active s p = Some r" using s(2) by (auto simp: serve_next_def bind_eq_Some_conv)
    let ?r = "(Clone r)\<lparr>event_queue := ?q\<rparr>"
    have "s' = RequestNextMethodInvocation (next_rpc s) (snd (ActiveRpcs_Add ?r ?s))"
      using s(2) r by (simp add: serve_next_def SelectNextEventQueueRoundRobin_def ActiveRpcs_Add_def Let_def)
    moreover have "rpc_info ?r \<in> infos" using s(1) r by (simp add: managed_def Clone_def new_rpc_def)
    ultimately show ?thesis using s(1) by (simp add: managed_prims)
  qed
  then show ?thesis by (rule preservesI)
qed

lemma start_one_managed: "managed infos good s \<Longrightarrow> snd x \<in> infos \<Longrightarrow> managed infos good (start_one x s)"
  by (cases x) (simp add: start_one_def SelectNextEventQueueRoundRobin_def Let_def split_beta new_rpc_def managed_prims)

lemma fold_start_managed:
  "managed infos good s \<Longrightarrow> snd ` set xs \<subseteq> infos \<Longrightarrow> managed infos good (fold start_one xs s)"
  by (induction xs arbitrary: s) (auto simp: start_one_managed)

locale handler_contract =
  fixes infos :: "('m, 'w) handler_info list" and good :: "'w \<Rightarrow> bool"
  assumes request_good: "info \<in> set infos \<Longrightarrow> good w \<Longrightarrow> good (fst (hi_request info m w))"
    and reads_done_good: "info \<in> set infos \<Longrightarrow> good w \<Longrightarrow> good (fst (hi_reads_done info w))"
    and finish_good: "info \<in> set infos \<Longrightarrow> good w \<Longrightarrow> good (fst (hi_finish info w))"
begin

abbreviation ok_state :: "('m, 'w) service \<Rightarrow> bool" where
  "ok_state \<equiv> managed (set infos) good"

lemma call_handler_ok:
  assumes "\<And>r w. rpc_info r \<in> set infos \<Longrightarrow> good w \<Longrightarrow> good (fst (f r w))"
  shows "preserves ok_state (call_handler p f)"
proof -
  have "ok_state s'" if s: "ok_state s" "call_handler p f s = Some s'" for s s'
  proof -
    obtain r where r: "active s p = Some r" "send_replies p (snd (f r (world s))) (s\<lparr>world := fst (f r (world s))\<rparr>) = Some s'"
      using s(2) by (auto simp: call_handler_def bind_eq_Some_conv split: if_splits prod.splits)
    then have "ok_state (s\<lparr>world := fst (f r (world s))\<rparr>)" using s(1) assms by (simp add: managed_def)
    then show ?thesis by (rule preservesD [OF send_replies_managed r(2)])
  qed
  then show ?thesis by (rule preservesI)
qed

lemma callbacks_ok:
  "preserves ok_state (OnRequest p)" "preserves ok_state (OnReadsDone p)" "preserves ok_state (OnFinish p)"
  unfolding OnRequest_def OnReadsDone_def OnFinish_def
  by (rule call_handler_ok; simp add: request_good reads_done_good finish_good)+

lemma RequestStreamingReadIfNeeded_ok: "preserves ok_state (RequestStreamingReadIfNeeded p)"
proof (rule preservesI)
  fix s s' assume s: "ok_state s" "RequestStreamingReadIfNeeded p s = Some s'"
  then obtain r where "active s p = Some r" by (auto simp: RequestStreamingReadIfNeeded_def bind_eq_Some_conv)
  then have "s' = issue p READ s \<or> OnRequest p s \<bind> OnReadsDone p = Some s'"
    using s(2) by (cases "hi_type (rpc_info r)") (auto simp: RequestStreamingReadIfNeeded_def)
  then show "ok_state s'"
    using s(1) managed_prims(2) preservesD [OF preserves_bind [OF callbacks_ok(1,2)]] by blast
qed

lemma OnConnection_ok: "preserves ok_state (OnConnection p)"
  by (rule preservesI)
    (auto simp: OnConnection_def bind_eq_Some_conv Let_def split: if_splits
      intro: managed_prims(8) dest: preservesD [OF RequestStreamingReadIfNeeded_ok])

lemma HandleEvent_ok: "preserves ok_state (HandleEvent ev p ok)"
proof -
  have new: "preserves ok_state (HandleNewConnection p ok)"
    by (rule preservesI)
      (auto simp: HandleNewConnection_def bind_eq_Some_conv Let_def split: if_splits
        intro: managed_prims(6) dest: preservesD [OF OnConnection_ok] preservesD [OF serve_next_managed])
  have read: "preserves ok_state (HandleRead p ok)"
    unfolding HandleRead_def
    by (cases ok) (simp_all add: preserves_bind callbacks_ok RequestStreamingReadIfNeeded_ok RemoveIfNotPending_managed)
  have rest: "preserves ok_state (HandleWrite p ok)" "preserves ok_state (HandleFinish p ok)"
    "preserves ok_state (HandleDone p ok)"
    unfolding HandleWrite_def HandleFinish_def HandleDone_def
    by (simp_all add: preserves_bind callbacks_ok HandleSendQueue_managed RemoveIfNotPending_managed)
  show ?thesis
    by (rule preservesI; cases ev)
      (auto simp: HandleEvent_def dest: preservesD [OF new] preservesD [OF read] preservesD [OF rest(1)]
        preservesD [OF rest(2)] preservesD [OF rest(3)])
qed

lemma Handle_ok: "preserves ok_state (Handle e)"
  by (rule preservesI; cases e)
    (auto simp: bind_eq_Some_conv split: if_splits intro: managed_prims(1) dest: preservesD [OF HandleEvent_ok])

lemma RunEventQueue_ok: "preserves ok_state (RunEventQueue_round q)"
  by (rule preservesI)
    (auto simp: RunEventQueue_round_def split: list.splits intro: managed_prims(12) dest: preservesD [OF Handle_ok])

lemma RunCompletionQueue_ok: "preserves ok_state (RunCompletionQueue_round p ev ok m)"
  by (rule preservesI)
    (auto simp: RunCompletionQueue_round_def bind_eq_Some_conv Let_def managed_prims split: if_splits)

lemma StartServing_ok: "good w \<Longrightarrow> ok_state (StartServing n (new_service infos k w))"
  unfolding StartServing_def
  by (rule fold_start_managed) (auto simp: managed_def new_service_def enumerate_eq_zip dest: set_zip_rightD)

lemma reach_managed: "svc_reach infos n k w s \<Longrightarrow> good w \<Longrightarrow> ok_state s"
proof (induction rule: svc_reach.induct)
  case (complete s p ev ok m s')
  then show ?case using preservesD [OF RunCompletionQueue_ok] by blast
next
  case (handle s q e es s')
  then show ?case using preservesD [OF RunEventQueue_ok] by blast
next
  case (writes s p r m b s')
  then show ?case
    by (auto simp: Writer_Write_def Rpc_Write_def dest: preservesD [OF send_later_managed])
next
  case (finish s p r status b s')
  then show ?case
    by (auto simp: Writer_Finish_def Rpc_Finish_def dest: preservesD [OF send_later_managed])
qed (simp_all add: StartServing_ok managed_prims)

lemma reach_good: "svc_reach infos n k w s \<Longrightarrow> good w \<Longrightarrow> good (world s)"
  using reach_managed by (simp add: managed_def)

end

section \<open>Properties of the server\<close>

text \<open>
  C10: The server never uses an \<^verbatim>\<open>Rpc\<close> that has been destroyed, calls a missing handler or fails a \<^verbatim>\<open>CHECK\<close>:
  in every reachable state each tag that gRPC may return is that of a live call and is queued, and the first event
  of every queue is handled, whatever the handlers send, provided that a connection only fails while the
  server shuts down and is only made while it does not.
\<close>

theorem events_are_handled:
  assumes "svc_reach infos n k w s"
  shows "(may_complete p ev s \<longrightarrow> (\<exists>s'. RunCompletionQueue_round p ev ok m s = Some s'))
    \<and> (\<forall>e es. queues s q = e # es \<longrightarrow> benign e s \<longrightarrow> (\<exists>s'. RunEventQueue_round q s = Some s'))"
proof -
  have inv: "svc_inv s" by (rule svc_reach_inv [OF assms])
  show ?thesis
    using RunCompletionQueue_inv [OF inv] RunEventQueue_inv [OF inv, of q] by (metis list.inject)
qed

text \<open>A service with one handler that answers a request with the request, its number of requests as state.\<close>

definition echo_info :: "(nat, nat) handler_info" where
  "echo_info = \<lparr>hi_type = NORMAL_RPC, hi_prototype = 0, hi_request = (\<lambda>m w. (w + 1, [Send m])),
     hi_reads_done = (\<lambda>w. (w, [Finish 0])), hi_finish = (\<lambda>w. (w, []))\<rparr>"

definition echo0 :: "(nat, nat) service" where
  "echo0 = StartServing 1 (new_service [echo_info] 1 0)"

definition echo1 :: "(nat, nat) service" where
  "echo1 = the (RunCompletionQueue_round 0 NEW_CONNECTION True 7 echo0)"

definition echo2 :: "(nat, nat) service" where
  "echo2 = the (RunEventQueue_round 0 echo1)"

lemmas echo_eval =
  echo_info_def new_service_def StartServing_def start_one_def SelectNextEventQueueRoundRobin_def ActiveRpcs_Add_def
  new_rpc_def RequestNextMethodInvocation_def issue_def SetRpcEventState_def upd_rpc_def enumerate_eq_zip
  RunCompletionQueue_round_def push_event_def Let_def may_complete_def

lemma echo0_eval:
  "echo0 = \<lparr>rpc_handler_infos = [echo_info],
     active = [0 \<mapsto> \<lparr>method_index = 0, rpc_info = echo_info, event_queue = 0,
        pending = (\<lambda>_. False)(DONE := True, NEW_CONNECTION := True), request = 0, send_queue = [], handler = False\<rparr>],
     next_rpc = 1, shutting_down = False, num_event_threads = 1, current_event_queue_id = 0, queues = (\<lambda>_. []),
     outstanding = {(0, NEW_CONNECTION), (0, DONE)}, started = {}, send_log = [], world = 0\<rparr>"
  by (simp add: echo0_def echo_eval)

lemma echo0_reach: "svc_reach [echo_info] 1 1 0 echo0"
  unfolding echo0_def by (rule svc_reach.boot) simp

lemma echo1_run: "RunCompletionQueue_round 0 NEW_CONNECTION True 7 echo0 = Some echo1"
  by (simp add: echo1_def echo0_eval RunCompletionQueue_round_def Let_def)

lemma echo1_reach: "svc_reach [echo_info] 1 1 0 echo1"
  by (rule svc_reach.complete [OF echo0_reach _ echo1_run]) (simp add: may_complete_def echo0_eval)

lemma echo1_queue:
  "queues echo1 0 = [CompletionQueueRpcEvent 0 NEW_CONNECTION True]" "\<not> shutting_down echo1"
  by (simp_all add: echo1_def echo0_eval RunCompletionQueue_round_def Let_def push_event_def upd_rpc_def)

theorem events_are_handled_witness:
  "(\<exists>s'. RunCompletionQueue_round 0 NEW_CONNECTION True 7 echo0 = Some s') \<and> (\<exists>s'. RunEventQueue_round 0 echo1 = Some s')"
proof -
  have "may_complete 0 NEW_CONNECTION echo0" by (simp add: may_complete_def echo0_eval)
  moreover have "benign (CompletionQueueRpcEvent 0 NEW_CONNECTION True) echo1" by (simp add: echo1_queue)
  ultimately show ?thesis
    using events_are_handled [OF echo0_reach, of 0 NEW_CONNECTION True 7] events_are_handled [OF echo1_reach, of _ _ _ _ 0]
      echo1_queue(1) by blast
qed

text \<open>A call without request stream: its connection runs both callbacks at once.\<close>

lemma unary_connection:
  assumes "svc_inv s" and "queues s q = CompletionQueueRpcEvent p NEW_CONNECTION True # es" and "\<not> shutting_down s"
    and r: "active s p = Some r" "hi_type (rpc_info r) = NORMAL_RPC"
    and cb: "hi_request (rpc_info r) (request r) (world s) = (w1, [Send m])" "hi_reads_done (rpc_info r) w1 = (w2, [Finish st])"
  shows "\<exists>s'. RunEventQueue_round q s = Some s' \<and> world s' = w2
    \<and> log_of p False (send_log s') = [\<lparr>si_msg = Some m, si_status = 0\<rparr>, \<lparr>si_msg = None, si_status = st\<rparr>]
    \<and> log_of p True (send_log s') = []
    \<and> active s' p = Some (r\<lparr>pending := (pending r)(NEW_CONNECTION := False), handler := True,
        send_queue := [\<lparr>si_msg = Some m, si_status = 0\<rparr>, \<lparr>si_msg = None, si_status = st\<rparr>]\<rparr>)"
proof -
  obtain r' where r': "active s p = Some r'" "event_queue r' = q" "rpc_core (view_of p s) r'"
    "v_cq (view_of p s) q = (NEW_CONNECTION, True) # cq_of p es" using first_event [OF assms(1,2)] by blast
  then have core: "rpc_core (view_of p s) r" and q: "event_queue r = q" using r(1) by simp_all
  then have "flags_ok (view_of p s) r" by (simp add: rpc_core_def Let_def)
  then have "pending r NEW_CONNECTION" using r'(4) q by (simp add: flags_ok_def)
  then have new: "send_queue r = []" "\<not> handler r" "log_of p False (send_log s) = []" "log_of p True (send_log s) = []"
    using core_new [of "view_of p s" r] core by (simp_all add: view_of_def)
  have "p \<noteq> next_rpc s" using active_known [OF assms(1) r(1)] by simp
  then show ?thesis
    using assms(2,3) r cb new
    by (simp add: RunEventQueue_round_def HandleEvent_def HandleNewConnection_def OnConnection_def
        RequestStreamingReadIfNeeded_def OnRequest_def OnReadsDone_def call_handler_def Rpc_Write_def Rpc_Finish_def
        send_later_def serve_next_def SelectNextEventQueueRoundRobin_def ActiveRpcs_Add_def Clone_def new_rpc_def
        RequestNextMethodInvocation_def Let_def upd_rpc_def EnqueueMessage_def push_event_def issue_def SetRpcEventState_def)
qed

text \<open>The first request to write after it hands the reply to gRPC.\<close>

lemma unary_reply:
  assumes "active s p = Some r" and "hi_type (rpc_info r) = NORMAL_RPC" and "send_queue r = item # rest"
    and "\<not> pending r WRITE" and "\<not> pending r FINISH"
  shows "\<exists>s'. Handle (InternalRpcEvent p WRITE_NEEDED) s = Some s' \<and> (p, FINISH) \<in> outstanding s'
    \<and> send_log s' = send_log s @ [(p, True, item)]"
  using assms
  by (simp add: HandleEvent_def HandleWrite_def HandleSendQueue_def PerformFinish_def perform_def issue_def
      SetRpcEventState_def upd_rpc_def RemoveIfNotPending_def IsAnyEventPending_def EnqueueMessage_def Let_def)


lemma echo2_run:
  "RunEventQueue_round 0 echo1 = Some echo2"
  "\<exists>r. active echo2 0 = Some r \<and> send_queue r = [\<lparr>si_msg = Some 7, si_status = 0\<rparr>, \<lparr>si_msg = None, si_status = 0\<rparr>]"
proof -
  obtain r where r: "active echo1 0 = Some r" "rpc_info r = echo_info" "request r = 7" "world echo1 = 0"
    by (simp add: echo1_def echo0_eval RunCompletionQueue_round_def Let_def push_event_def upd_rpc_def)
  then have info: "hi_type (rpc_info r) = NORMAL_RPC" "hi_request (rpc_info r) (request r) (world echo1) = (1, [Send 7])"
    "hi_reads_done (rpc_info r) 1 = (1, [Finish 0])" by (simp_all add: echo_info_def)
  note run = unary_connection [OF svc_reach_inv [OF echo1_reach] echo1_queue r(1) info]
  show "RunEventQueue_round 0 echo1 = Some echo2" using run by (auto simp: echo2_def)
  show "\<exists>r. active echo2 0 = Some r \<and> send_queue r = [\<lparr>si_msg = Some 7, si_status = 0\<rparr>, \<lparr>si_msg = None, si_status = 0\<rparr>]"
    using run by (auto simp: echo2_def)
qed

lemma echo2_reach: "svc_reach [echo_info] 1 1 0 echo2"
  by (rule svc_reach.handle [OF echo1_reach echo1_queue(1) _ echo2_run(1)]) (simp add: echo1_queue)




text \<open>
  C39: \<^verbatim>\<open>Service::HandleNewConnection\<close> uses the \<^verbatim>\<open>Rpc\<close> after it has removed it: when a connection fails while the
  server is not shutting down, \<^verbatim>\<open>active_rpcs_.Remove(rpc)\<close> destroys the object and \<^verbatim>\<open>rpc->Clone()\<close> follows.
\<close>

theorem failed_connection_use_after_free:
  assumes "queues s q = CompletionQueueRpcEvent p NEW_CONNECTION False # es" and "\<not> shutting_down s"
  shows "RunEventQueue_round q s = None"
  using assms
  by (auto simp: RunEventQueue_round_def HandleEvent_def HandleNewConnection_def serve_next_def ActiveRpcs_Remove_def
      SetRpcEventState_def upd_rpc_def bind_eq_None_conv)

definition echo_failed :: "(nat, nat) service" where
  "echo_failed = the (RunCompletionQueue_round 0 NEW_CONNECTION False 7 echo0)"

theorem failed_connection_use_after_free_witness: "RunEventQueue_round 0 echo_failed = None"
  by (rule failed_connection_use_after_free)
    (simp_all add: echo_failed_def echo0_eval RunCompletionQueue_round_def Let_def push_event_def upd_rpc_def)

text \<open>
  After \<^verbatim>\<open>StopServing\<close> a connection that gRPC still makes is dropped although its \<^verbatim>\<open>DONE\<close> tag, which lies inside the
  removed \<^verbatim>\<open>Rpc\<close>, is with gRPC: when the client ends the call, the tag comes back and is used.
\<close>

theorem late_connection_dangling_tag:
  assumes "svc_reach infos n k w s" and "queues s q = CompletionQueueRpcEvent p NEW_CONNECTION True # es"
    and "shutting_down s" and "(p, DONE) \<in> outstanding s"
  shows "\<exists>s'. RunEventQueue_round q s = Some s' \<and> may_complete p DONE s' \<and> RunCompletionQueue_round p DONE ok m s' = None"
proof -
  have inv: "svc_inv s" by (rule svc_reach_inv [OF assms(1)])
  obtain r where r: "active s p = Some r" "event_queue r = q" "rpc_core (view_of p s) r"
    "v_cq (view_of p s) q = (NEW_CONNECTION, True) # cq_of p es" using first_event [OF inv assms(2)] by blast
  have "p \<in> started s" using core_pop_new(4) [OF r(3), unfolded r(2), OF r(4)] by (simp add: view_of_def)
  then show ?thesis
    using assms(2-4) r(1)
    by (simp add: RunEventQueue_round_def HandleEvent_def HandleNewConnection_def ActiveRpcs_Remove_def
        RunCompletionQueue_round_def SetRpcEventState_def upd_rpc_def may_complete_def)
qed

theorem late_connection_dangling_tag_witness:
  "\<exists>s'. RunEventQueue_round 0 (StopServing echo1) = Some s' \<and> may_complete 0 DONE s' \<and> RunCompletionQueue_round 0 DONE True 0 s' = None"
  by (rule late_connection_dangling_tag [OF svc_reach.stop [OF echo1_reach]])
    (simp_all add: StopServing_def echo1_def echo0_eval RunCompletionQueue_round_def Let_def push_event_def upd_rpc_def)

end
