(* ===== verification/GrpcServer.thy ===== *)
theory GrpcServer
  imports Handlers Config RpcService "HOL-Library.Char_ord" "HOL-Library.List_Lexorder"
begin

text \<open>
  The gRPC server of the file station: the method descriptions of \<^verbatim>\<open>src/src/server/grpc_handler/meta.h\<close>, the
  registration of handlers (\<^verbatim>\<open>Server::Builder\<close> in \<^verbatim>\<open>src/src/async_grpc/server.h\<close> and \<^verbatim>\<open>server.cc\<close>), the four handlers of
  \<^verbatim>\<open>src/src/server/grpc_handler\<close> on top of the request handlers of \<^verbatim>\<open>Handlers\<close>, and \<^verbatim>\<open>GrpcServer\<close>.  The
  descriptors that protobuf generates are an argument; \<open>OceanFile_pool\<close> is what \<^verbatim>\<open>service.proto\<close> declares.
\<close>

section \<open>Methods and their registration\<close>

text \<open>\<^verbatim>\<open>IncomingType\<close> and \<^verbatim>\<open>OutgoingType\<close>: a message type, wrapped by \<^verbatim>\<open>async_grpc::Stream\<close> or not.\<close>

datatype arg_type = Plain string | Stream string

fun StripStream :: "arg_type \<Rightarrow> string" where
  "StripStream (Plain t) = t"
| "StripStream (Stream t) = t"

fun StreamType :: "arg_type \<Rightarrow> arg_type \<Rightarrow> RpcType" where
  "StreamType (Plain i) (Plain j) = NORMAL_RPC"
| "StreamType (Stream i) (Plain j) = CLIENT_STREAMING"
| "StreamType (Plain i) (Stream j) = SERVER_STREAMING"
| "StreamType (Stream i) (Stream j) = BIDI_STREAMING"

record method_traits =
  MethodName :: string
  IncomingType :: arg_type
  OutgoingType :: arg_type

definition UserMethod :: method_traits where
  "UserMethod = \<lparr>MethodName = ''/oceandoc.proto.OceanFile/UserOp'', IncomingType = Plain ''UserReq'', OutgoingType = Plain ''UserRes''\<rparr>"

definition ServerMethod :: method_traits where
  "ServerMethod =
     \<lparr>MethodName = ''/oceandoc.proto.OceanFile/ServerOp'', IncomingType = Plain ''ServerReq'', OutgoingType = Plain ''ServerRes''\<rparr>"

definition RepoOpMethod :: method_traits where
  "RepoOpMethod = \<lparr>MethodName = ''/oceandoc.proto.OceanFile/RepoOp'', IncomingType = Plain ''RepoReq'', OutgoingType = Plain ''RepoRes''\<rparr>"

definition FileOpMethod :: method_traits where
  "FileOpMethod = \<lparr>MethodName = ''/oceandoc.proto.OceanFile/FileOp'', IncomingType = Stream ''FileReq'', OutgoingType = Stream ''FileRes''\<rparr>"

text \<open>\<^verbatim>\<open>std::getline\<close> with the delimiter \<^verbatim>\<open>/\<close>: the piece and what is left of the stream.\<close>

definition getline_slash :: "string \<Rightarrow> string \<times> string" where
  "getline_slash s = (takeWhile (\<lambda>c. c \<noteq> CHR ''/'') s, drop 1 (dropWhile (\<lambda>c. c \<noteq> CHR ''/'') s))"

text \<open>\<open>None\<close>: \<^verbatim>\<open>at(0)\<close> of an empty name throws, or a \<^verbatim>\<open>CHECK\<close> fails.\<close>

definition ParseMethodFullName :: "string \<Rightarrow> (string \<times> string) option" where
  "ParseMethodFullName method_full_name =
     (case method_full_name of
        [] \<Rightarrow> None
      | c # rest \<Rightarrow>
          if c \<noteq> CHR ''/'' then None
          else let (service_full_name, stream) = getline_slash rest;
                   (method_name, stream) = getline_slash stream
               in if service_full_name \<noteq> '''' \<and> method_name \<noteq> '''' then Some (service_full_name, method_name) else None)"

record method_descriptor =
  input_type :: string
  output_type :: string
  client_streaming :: bool
  server_streaming :: bool

type_synonym descriptor_pool = "string \<rightharpoonup> (string \<rightharpoonup> method_descriptor)"

definition CheckHandlerCompatibility :: "descriptor_pool \<Rightarrow> method_traits \<Rightarrow> string \<Rightarrow> string \<Rightarrow> bool" where
  "CheckHandlerCompatibility descriptors T service_full_name method_name =
     (case descriptors service_full_name of
        None \<Rightarrow> False
      | Some service \<Rightarrow>
          (case service method_name of
             None \<Rightarrow> False
           | Some m \<Rightarrow>
               StripStream (IncomingType T) = input_type m \<and> StripStream (OutgoingType T) = output_type m
               \<and> (case StreamType (IncomingType T) (OutgoingType T) of
                    NORMAL_RPC \<Rightarrow> \<not> client_streaming m \<and> \<not> server_streaming m
                  | CLIENT_STREAMING \<Rightarrow> client_streaming m \<and> \<not> server_streaming m
                  | SERVER_STREAMING \<Rightarrow> \<not> client_streaming m \<and> server_streaming m
                  | BIDI_STREAMING \<Rightarrow> client_streaming m \<and> server_streaming m)))"

text \<open>
  \<^verbatim>\<open>std::map\<close> with string keys: an association list in the order of the keys.  \<^verbatim>\<open>operator[]\<close> inserts a
  default, \<^verbatim>\<open>emplace\<close> keeps an entry that is there.
\<close>

fun map_emplace :: "string \<Rightarrow> 'v \<Rightarrow> (string \<times> 'v) list \<Rightarrow> (string \<times> 'v) list" where
  "map_emplace k v [] = [(k, v)]"
| "map_emplace k v ((k', v') # m) =
     (if k = k' then (k', v') # m else if k < k' then (k, v) # (k', v') # m else (k', v') # map_emplace k v m)"

fun map_at :: "string \<Rightarrow> ('v \<Rightarrow> 'v) \<Rightarrow> (string \<times> 'v) list \<Rightarrow> (string \<times> 'v) list" where
  "map_at k f [] = []"
| "map_at k f ((k', v) # m) = (if k = k' then (k', f v) # m else (k', v) # map_at k f m)"

type_synonym ('m, 'w) builder = "(string \<times> (string \<times> ('m, 'w) handler_info) list) list"

definition RegisterHandler ::
  "descriptor_pool \<Rightarrow> method_traits \<Rightarrow> ('m, 'w) handler_info \<Rightarrow> ('m, 'w) builder \<Rightarrow> ('m, 'w) builder option" where
  "RegisterHandler descriptors T info b =
     do {
       (service_full_name, method_name) \<leftarrow> ParseMethodFullName (MethodName T);
       (if \<not> CheckHandlerCompatibility descriptors T service_full_name method_name then None
        else Some (map_at service_full_name (map_emplace method_name info) (map_emplace service_full_name [] b)))
     }"

section \<open>The four handlers\<close>

datatype msg = UserReqM UserReq | UserResM UserRes | ServerReqM ServerReq | ServerResM ServerRes
  | RepoReqM RepoReq | RepoResM RepoRes | FileReqM FileReqX | FileResM FileResX

text \<open>
  The state the handlers share: the managers (\<open>None\<close> once a handler has ended with an exception, which ends the
  process), the configuration, and what the library calls of the \<open>i\<close>-th request return (clock, random bytes, uuids).
\<close>

record 'd grpc_world =
  gw_server :: "'d server option"
  gw_config :: config_st
  gw_envs :: "nat \<Rightarrow> call_env \<times> repo_env"
  gw_calls :: nat

definition run_handler ::
  "(call_env \<Rightarrow> repo_env \<Rightarrow> 'd server \<Rightarrow> 'r option \<times> 'd server) \<Rightarrow> ('r \<Rightarrow> msg) \<Rightarrow> 'd grpc_world
     \<Rightarrow> 'd grpc_world \<times> msg reply list" where
  "run_handler f c w =
     (case gw_server w of
        None \<Rightarrow> (w, [])
      | Some sv \<Rightarrow>
          let (e, re) = gw_envs w (gw_calls w);
              w1 = w\<lparr>gw_calls := gw_calls w + 1\<rparr>
          in (case f e re sv of
                (None, sv1) \<Rightarrow> (w1\<lparr>gw_server := None\<rparr>, [])
              | (Some res, sv1) \<Rightarrow> (w1\<lparr>gw_server := Some sv1\<rparr>, [Send (c res)])))"

definition finish_ok :: "'d grpc_world \<Rightarrow> 'd grpc_world \<times> msg reply list" where
  "finish_ok w = (w, [Finish 0])"

definition no_reply :: "'d grpc_world \<Rightarrow> 'd grpc_world \<times> msg reply list" where
  "no_reply w = (w, [])"

text \<open>The default instances of the request messages.\<close>

definition UserReq_default :: UserReq where
  "UserReq_default =
     \<lparr>uq_request_id = '''', uq_op = Op_UserUnused, uq_user = '''', uq_password = '''', uq_token = '''', uq_to_delete_user = '''',
      uq_old_password = ''''\<rparr>"

definition RepoReq_default :: RepoReq where
  "RepoReq_default =
     \<lparr>rq_request_id = '''', rq_token = '''', rq_user = '''', rq_op = Op_RepoUnused, rq_type = RT_Unused, rq_repo_uuid = '''',
      rq_repo_name = '''', rq_dir = '''', rq_file_offset = 0, rq_file_limit = 0\<rparr>"

definition UserHandler :: "'d libs \<Rightarrow> (msg, 'd grpc_world) handler_info" where
  "UserHandler L =
     \<lparr>hi_type = StreamType (IncomingType UserMethod) (OutgoingType UserMethod), hi_prototype = UserReqM UserReq_default,
      hi_request = (\<lambda>m w. case m of
          UserReqM req \<Rightarrow> run_handler (\<lambda>e re. UserOpHandle L e req UserRes_default) UserResM w
        | _ \<Rightarrow> no_reply w),
      hi_reads_done = finish_ok, hi_finish = no_reply\<rparr>"

definition ServerHandler :: "(msg, 'd grpc_world) handler_info" where
  "ServerHandler =
     \<lparr>hi_type = StreamType (IncomingType ServerMethod) (OutgoingType ServerMethod),
      hi_prototype = ServerReqM ServerReq_default,
      hi_request = (\<lambda>m w. case m of
          ServerReqM req \<Rightarrow> (w, [Send (ServerResM (ServerOpHandle (gw_config w) req ServerRes_default))])
        | _ \<Rightarrow> no_reply w),
      hi_reads_done = finish_ok, hi_finish = no_reply\<rparr>"

definition RepoHandler :: "'d libs \<Rightarrow> (msg, 'd grpc_world) handler_info" where
  "RepoHandler L =
     \<lparr>hi_type = StreamType (IncomingType RepoOpMethod) (OutgoingType RepoOpMethod), hi_prototype = RepoReqM RepoReq_default,
      hi_request = (\<lambda>m w. case m of
          RepoReqM req \<Rightarrow> run_handler (\<lambda>e re. RepoOpHandle L e re req RepoRes_default) RepoResM w
        | _ \<Rightarrow> no_reply w),
      hi_reads_done = finish_ok, hi_finish = no_reply\<rparr>"

definition FileHandler :: "'d libs \<Rightarrow> (msg, 'd grpc_world) handler_info" where
  "FileHandler L =
     \<lparr>hi_type = StreamType (IncomingType FileOpMethod) (OutgoingType FileOpMethod), hi_prototype = FileReqM FileReqX_default,
      hi_request = (\<lambda>m w. case m of
          FileReqM req \<Rightarrow> run_handler (\<lambda>e re. FileOpHandle L e req FileResX_default) FileResM w
        | _ \<Rightarrow> no_reply w),
      hi_reads_done = finish_ok, hi_finish = no_reply\<rparr>"

section \<open>GrpcServer\<close>

text \<open>The constructor of \<^verbatim>\<open>GrpcServer\<close>, without address and thread counts.\<close>

definition GrpcServer ::
  "descriptor_pool \<Rightarrow> 'd libs \<Rightarrow> (msg, 'd grpc_world) builder option" where
  "GrpcServer descriptors L =
     do {
       b1 \<leftarrow> RegisterHandler descriptors UserMethod (UserHandler L) [];
       b2 \<leftarrow> RegisterHandler descriptors ServerMethod ServerHandler b1;
       b3 \<leftarrow> RegisterHandler descriptors RepoOpMethod (RepoHandler L) b2;
       RegisterHandler descriptors FileOpMethod (FileHandler L) b3
     }"

text \<open>The service that \<^verbatim>\<open>service.proto\<close> declares.\<close>

definition OceanFile_pool :: descriptor_pool where
  "OceanFile_pool =
     [''oceandoc.proto.OceanFile'' \<mapsto>
       [''UserOp'' \<mapsto> \<lparr>input_type = ''UserReq'', output_type = ''UserRes'', client_streaming = False, server_streaming = False\<rparr>,
        ''ServerOp'' \<mapsto> \<lparr>input_type = ''ServerReq'', output_type = ''ServerRes'', client_streaming = False, server_streaming = False\<rparr>,
        ''RepoOp'' \<mapsto> \<lparr>input_type = ''RepoReq'', output_type = ''RepoRes'', client_streaming = False, server_streaming = False\<rparr>,
        ''FileOp'' \<mapsto> \<lparr>input_type = ''FileReq'', output_type = ''FileRes'', client_streaming = True, server_streaming = True\<rparr>]]"

text \<open>The handlers in the order of the map of methods, as \<^verbatim>\<open>Service\<close> gets them.\<close>

definition grpc_infos :: "'d libs \<Rightarrow> (msg, 'd grpc_world) handler_info list" where
  "grpc_infos L = [FileHandler L, RepoHandler L, ServerHandler, UserHandler L]"


section \<open>Method names\<close>

lemma getline_slash_piece:
  "CHR ''/'' \<notin> set s \<Longrightarrow> getline_slash (s @ CHR ''/'' # rest) = (s, rest)"
  "CHR ''/'' \<notin> set s \<Longrightarrow> getline_slash s = (s, [])"
  by (induction s) (auto simp: getline_slash_def)

lemma getline_slash_split:
  assumes "getline_slash x = (s, rest)"
  shows "CHR ''/'' \<notin> set s" "x = s @ CHR ''/'' # rest \<or> x = s \<and> rest = []"
proof -
  let ?P = "\<lambda>c. c \<noteq> CHR ''/''"
  have s: "s = takeWhile ?P x" "rest = drop 1 (dropWhile ?P x)" using assms by (auto simp: getline_slash_def)
  then show "CHR ''/'' \<notin> set s" by (auto dest: set_takeWhileD)
  have x: "takeWhile ?P x @ dropWhile ?P x = x" by (rule takeWhile_dropWhile_id)
  show "x = s @ CHR ''/'' # rest \<or> x = s \<and> rest = []"
  proof (cases "dropWhile ?P x")
    case Nil
    have "x = s" using x unfolding s Nil append_Nil2 by (rule sym)
    moreover have "rest = []" unfolding s(2) Nil by simp
    ultimately show ?thesis by blast
  next
    case (Cons c cs)
    then have "c = CHR ''/''" using hd_dropWhile [of ?P x] by force
    then show ?thesis using x unfolding s Cons by simp
  qed
qed

text \<open>
  \<^verbatim>\<open>ParseMethodFullName\<close> accepts exactly the names \<^verbatim>\<open>/service/method\<close>, with non-empty parts, possibly
  followed by another \<^verbatim>\<open>/\<close> and anything, and gives the two parts back.
\<close>

theorem ParseMethodFullName_iff:
  "ParseMethodFullName name = Some (service, meth) \<longleftrightarrow>
    service \<noteq> [] \<and> meth \<noteq> [] \<and> CHR ''/'' \<notin> set service \<and> CHR ''/'' \<notin> set meth
    \<and> (\<exists>rest. name = CHR ''/'' # service @ CHR ''/'' # meth @ rest \<and> (rest = [] \<or> hd rest = CHR ''/''))"
  (is "?L \<longleftrightarrow> ?R")
proof
  assume ?L
  then obtain x y z where x: "name = CHR ''/'' # x" "getline_slash x = (service, y)" "getline_slash y = (meth, z)"
    "service \<noteq> []" "meth \<noteq> []"
    by (auto simp: ParseMethodFullName_def split: list.splits prod.splits if_splits)
  note s = getline_slash_split [OF x(2)] and m = getline_slash_split [OF x(3)]
  have "y \<noteq> []" using x(3,5) by (auto simp: getline_slash_def)
  then have "x = service @ CHR ''/'' # y" using s(2) by blast
  moreover have "\<exists>rest. y = meth @ rest \<and> (rest = [] \<or> hd rest = CHR ''/'')"
    using m(2) by (metis append_Nil2 list.sel(1))
  ultimately show ?R using s(1) m(1) x(1,4,5) by blast
next
  assume r: ?R
  then obtain rest where name: "name = CHR ''/'' # service @ CHR ''/'' # meth @ rest" "rest = [] \<or> hd rest = CHR ''/''"
    by blast
  then have "\<exists>z. getline_slash (meth @ rest) = (meth, z)"
    using r getline_slash_piece [of meth] by (cases rest) auto
  then show ?L using r name getline_slash_piece(1) [of service] by (auto simp: ParseMethodFullName_def)
qed


section \<open>The handlers behind the server\<close>

lemma update_token_uuid:
  "UpdateToken e user token t0 st = ((0, t), st') \<Longrightarrow> t = ce_uuid e"
  by (auto simp: UpdateToken_def UpdateSession_def err_codes Let_def split: if_splits option.splits prod.splits)

lemma handed_out_uuid:
  assumes "UserOpHandle L e req res sv = (r, sv')" and "(t, u) \<in> set (handed_out req r log)"
  shows "(t, u) \<in> set log \<or> t = ce_uuid e"
proof (cases "user_gate e req (us_sess (sv_user sv))")
  case (Pair err su)
  obtain r' st' where run: "user_switch L e req su (us_token res) (sv_user sv) = (r', st')"
    by (cases "user_switch L e req su (us_token res) (sv_user sv)")
  have new: "t' = ce_uuid e"
    if "r' = Some (0, t')" "uq_op req \<in> {Op_UserCreate, Op_UserLogin, Op_UserChangePassword, Op_UserUpdateToken}" for t'
  proof (cases "uq_op req = Op_UserUpdateToken")
    case True
    then show ?thesis
      using run that(1) update_token_uuid [of e "uq_user req" "uq_token req" "us_token res" "sv_user sv" t' st']
      by (simp add: user_switch_def split: prod.splits)
  next
    case False
    then have "issues e (uq_user req) (sv_user sv) (r', st')"
      using switch_issues [of req e "sv_user sv" L su "us_token res"] run that by auto
    then show ?thesis using that by (auto simp: issues_def Err_Success_def)
  qed
  show ?thesis
  proof (cases "(t, u) \<in> set log")
    case False
    then have "r' = Some (0, t)" "uq_op req \<in> {Op_UserCreate, Op_UserLogin, Op_UserChangePassword, Op_UserUpdateToken}"
      using Pair run assms
      by (auto simp: UserOpHandle_def handed_out_def res_code_def Err_Success_def split: option.splits if_splits)
    then show ?thesis using new by blast
  qed simp
qed

text \<open>The uuids drawn are non-empty and new; the tokens handed out are among those drawn so far.\<close>

definition envs_fresh :: "(nat \<Rightarrow> call_env \<times> repo_env) \<Rightarrow> bool" where
  "envs_fresh E \<longleftrightarrow> (\<forall>i. ce_uuid (fst (E i)) \<noteq> '''') \<and> (\<forall>i j. ce_uuid (fst (E i)) = ce_uuid (fst (E j)) \<longrightarrow> i = j)"

definition grpc_good :: "'d libs \<Rightarrow> 'd grpc_world \<Rightarrow> bool" where
  "grpc_good L w \<longleftrightarrow>
     envs_fresh (gw_envs w)
     \<and> (\<forall>sv. gw_server w = Some sv \<longrightarrow>
          (\<exists>log. server_reach L sv log \<and> (\<forall>t \<in> fst ` set log. \<exists>i < gw_calls w. t = ce_uuid (fst (gw_envs w i)))))"

lemma run_handler_good:
  assumes "grpc_good L w"
    and step: "\<And>e re sv log r sv'. \<lbrakk>server_reach L sv log; ce_uuid e \<notin> fst ` set log; ce_uuid e \<noteq> ''''; f e re sv = (r, sv')\<rbrakk>
      \<Longrightarrow> \<exists>log'. server_reach L sv' log' \<and> fst ` set log' \<subseteq> insert (ce_uuid e) (fst ` set log)"
  shows "grpc_good L (fst (run_handler f c w))"
proof (cases "gw_server w")
  case None
  then show ?thesis using assms(1) by (simp add: run_handler_def)
next
  case (Some sv)
  let ?n = "gw_calls w"
  obtain e re where e: "gw_envs w ?n = (e, re)" by (cases "gw_envs w ?n")
  obtain log where log: "server_reach L sv log" "\<forall>t \<in> fst ` set log. \<exists>i < ?n. t = ce_uuid (fst (gw_envs w i))"
    and fresh: "envs_fresh (gw_envs w)" using assms(1) Some by (auto simp: grpc_good_def)
  have "ce_uuid e \<noteq> ''''" "ce_uuid e \<notin> fst ` set log"
    using log(2) fresh e unfolding envs_fresh_def by (metis fst_conv, metis fst_conv less_irrefl)
  moreover obtain r sv' where run: "f e re sv = (r, sv')" by (cases "f e re sv")
  ultimately obtain log' where "server_reach L sv' log'" "fst ` set log' \<subseteq> insert (ce_uuid e) (fst ` set log)"
    using step log(1) by blast
  moreover then have "\<forall>t \<in> fst ` set log'. \<exists>i < ?n + 1. t = ce_uuid (fst (gw_envs w i))"
    using log(2) e by (metis (no_types, lifting) add.commute fst_conv insert_iff less_Suc_eq plus_1_eq_Suc subsetD)
  ultimately show ?thesis
    using Some e run fresh by (cases r) (auto simp: run_handler_def grpc_good_def)
qed

lemma UserHandler_good:
  assumes "grpc_good L w"
  shows "grpc_good L (fst (run_handler (\<lambda>e re. UserOpHandle L e req UserRes_default) UserResM w))"
  using assms
proof (rule run_handler_good)
  fix e re sv log r sv'
  assume a: "server_reach L sv log" "ce_uuid e \<notin> fst ` set log" "ce_uuid e \<noteq> ''''"
    "UserOpHandle L e req UserRes_default sv = (r, sv')"
  have "fst ` set (handed_out req r log) \<subseteq> insert (ce_uuid e) (fst ` set log)"
    using handed_out_uuid [OF a(4)] by force
  then show "\<exists>log'. server_reach L sv' log' \<and> fst ` set log' \<subseteq> insert (ce_uuid e) (fst ` set log)"
    using server_reach.user_request [OF a] by blast
qed

lemma RepoHandler_good:
  "grpc_good L w \<Longrightarrow> grpc_good L (fst (run_handler (\<lambda>e re. RepoOpHandle L e re req RepoRes_default) RepoResM w))"
  by (erule run_handler_good) (meson server_reach.repo_request subset_insertI)

lemma FileHandler_good:
  "grpc_good L w \<Longrightarrow> grpc_good L (fst (run_handler (\<lambda>e re. FileOpHandle L e req FileResX_default) FileResM w))"
  by (erule run_handler_good) (meson server_reach.file_request subset_insertI)

lemmas handlers_good = UserHandler_good RepoHandler_good FileHandler_good

lemmas handler_defs = FileHandler_def RepoHandler_def ServerHandler_def UserHandler_def finish_ok_def no_reply_def

interpretation gh: handler_contract "grpc_infos L" "grpc_good L" for L :: "'d libs"
proof
  fix info :: "(msg, 'd grpc_world) handler_info" and w :: "'d grpc_world"
  assume a: "info \<in> set (grpc_infos L)" "grpc_good L w"
  show "grpc_good L (fst (hi_request info m w))" for m
    using a by (cases m) (auto simp: grpc_infos_def handler_defs handlers_good)
  show "grpc_good L (fst (hi_reads_done info w))" "grpc_good L (fst (hi_finish info w))"
    using a by (auto simp: grpc_infos_def handler_defs)
qed



text \<open>A small server: its four calls wait for connections on one event queue.\<close>

definition demo_world :: "utable grpc_world" where
  "demo_world =
     \<lparr>gw_server = Some demo_server, gw_config = demo_config,
      gw_envs = (\<lambda>i. (demo_env (CHR ''t'' # replicate (Suc i) (CHR ''1'')), \<lparr>re_uuid = '''', re_location_uuid = '''', re_time = ''''\<rparr>)),
      gw_calls = 0\<rparr>"

definition demo_grpc0 :: "(msg, utable grpc_world) service" where
  "demo_grpc0 = StartServing 1 (new_service (grpc_infos demo_libs) 1 demo_world)"

definition demo_grpc1 :: "(msg, utable grpc_world) service" where
  "demo_grpc1 = the (RunCompletionQueue_round 3 NEW_CONNECTION True (UserReqM demo_join) demo_grpc0)"

definition demo_grpc2 :: "(msg, utable grpc_world) service" where
  "demo_grpc2 = the (RunEventQueue_round 0 demo_grpc1)"

lemma demo_world_fresh: "envs_fresh (gw_envs demo_world)"
  by (auto simp: envs_fresh_def demo_world_def demo_env_def dest: arg_cong [of _ _ length])

lemma demo_grpc0_eval:
  "active demo_grpc0 3 = Some ((new_rpc 3 (UserHandler demo_libs) 0)\<lparr>pending := (\<lambda>_. False)(DONE := True, NEW_CONNECTION := True)\<rparr>)"
  "(3, NEW_CONNECTION) \<in> outstanding demo_grpc0" "world demo_grpc0 = demo_world" "queues demo_grpc0 q = []" "\<not> shutting_down demo_grpc0"
  by (simp_all add: demo_grpc0_def grpc_infos_def new_service_def StartServing_def start_one_def
      SelectNextEventQueueRoundRobin_def ActiveRpcs_Add_def RequestNextMethodInvocation_def issue_def SetRpcEventState_def upd_rpc_def
      enumerate_eq_zip upt_rec numeral_3_eq_3 new_rpc_def)

lemma demo_grpc0_reach: "svc_reach (grpc_infos demo_libs) 1 1 demo_world demo_grpc0"
  unfolding demo_grpc0_def by (rule svc_reach.boot) simp

lemma demo_grpc1_run: "RunCompletionQueue_round 3 NEW_CONNECTION True (UserReqM demo_join) demo_grpc0 = Some demo_grpc1"
  by (simp add: demo_grpc1_def RunCompletionQueue_round_def demo_grpc0_eval Let_def)

lemma demo_grpc1_reach: "svc_reach (grpc_infos demo_libs) 1 1 demo_world demo_grpc1"
  by (rule svc_reach.complete [OF demo_grpc0_reach _ demo_grpc1_run]) (simp add: may_complete_def demo_grpc0_eval)

lemma demo_grpc1_eval:
  "queues demo_grpc1 0 = [CompletionQueueRpcEvent 3 NEW_CONNECTION True]" "\<not> shutting_down demo_grpc1"
  "world demo_grpc1 = demo_world"
  "\<exists>r. active demo_grpc1 3 = Some r \<and> rpc_info r = UserHandler demo_libs \<and> request r = UserReqM demo_join"
  by (simp_all add: demo_grpc1_def RunCompletionQueue_round_def demo_grpc0_eval Let_def push_event_def upd_rpc_def new_rpc_def)

text \<open>
  C12: A user request over gRPC is answered with what the request handler returns: when its connection is
  handled the managers are in the state the handler leaves, and the first request to write hands exactly its
  response to gRPC.
\<close>

theorem user_call_answered:
  assumes "svc_reach (grpc_infos L) n k w s"
    and "queues s q = CompletionQueueRpcEvent p NEW_CONNECTION True # es" and "\<not> shutting_down s"
    and "active s p = Some r" and "rpc_info r = UserHandler L" and "request r = UserReqM req"
    and "gw_server (world s) = Some sv" and "gw_envs (world s) (gw_calls (world s)) = (e, re)"
    and "UserOpHandle L e req UserRes_default sv = (Some res, sv')"
  shows "\<exists>s1 s2. RunEventQueue_round q s = Some s1 \<and> gw_server (world s1) = Some sv'
    \<and> Handle (InternalRpcEvent p WRITE_NEEDED) s1 = Some s2
    \<and> log_of p True (send_log s2) = [\<lparr>si_msg = Some (UserResM res), si_status = 0\<rparr>]"
proof -
  let ?w = "(world s)\<lparr>gw_calls := gw_calls (world s) + 1, gw_server := Some sv'\<rparr>"
  have inv: "svc_inv s" by (rule svc_reach_inv [OF assms(1)])
  have type: "hi_type (rpc_info r) = NORMAL_RPC" by (simp add: assms(5) handler_defs UserMethod_def)
  have cb: "hi_request (rpc_info r) (request r) (world s) = (?w, [Send (UserResM res)])"
    "hi_reads_done (rpc_info r) ?w = (?w, [Finish 0])"
    using assms(5-9) by (simp_all add: handler_defs run_handler_def)
  obtain s1 where s1: "RunEventQueue_round q s = Some s1" "world s1 = ?w" "log_of p True (send_log s1) = []"
    "active s1 p = Some (r\<lparr>pending := (pending r)(NEW_CONNECTION := False), handler := True,
        send_queue := [\<lparr>si_msg = Some (UserResM res), si_status = 0\<rparr>, \<lparr>si_msg = None, si_status = 0\<rparr>]\<rparr>)"
    using unary_connection [OF inv assms(2-4) type cb] by blast
  obtain r' where r': "active s p = Some r'" "event_queue r' = q" "rpc_core (view_of p s) r'"
    "v_cq (view_of p s) q = (NEW_CONNECTION, True) # cq_of p es" using first_event [OF inv assms(2)] by blast
  then have "\<not> pending r WRITE \<and> \<not> pending r FINISH"
    using assms(4) by (auto simp: rpc_core_def Let_def flags_ok_def)
  then obtain s2 where "Handle (InternalRpcEvent p WRITE_NEEDED) s1 = Some s2"
    "send_log s2 = send_log s1 @ [(p, True, \<lparr>si_msg = Some (UserResM res), si_status = 0\<rparr>)]"
    using unary_reply [OF s1(4)] type by fastforce
  then show ?thesis using s1 by (intro exI [of _ s1] exI [of _ s2]) simp
qed

lemma demo_grpc_request:
  "gw_server (world demo_grpc1) = Some demo_server"
  "\<exists>re. gw_envs (world demo_grpc1) (gw_calls (world demo_grpc1)) = (demo_env ''t1'', re)"
  by (simp_all add: demo_grpc1_eval demo_world_def)

theorem user_call_answered_witness:
  "\<exists>s1 s2. RunEventQueue_round 0 demo_grpc1 = Some s1 \<and> gw_server (world s1) = Some demo_server1
    \<and> Handle (InternalRpcEvent 3 WRITE_NEEDED) s1 = Some s2
    \<and> log_of 3 True (send_log s2) =
        [\<lparr>si_msg = Some (UserResM \<lparr>us_err_code = Err_Success, us_token = ''t1''\<rparr>), si_status = 0\<rparr>]"
proof -
  obtain r where r: "active demo_grpc1 3 = Some r" "rpc_info r = UserHandler demo_libs" "request r = UserReqM demo_join"
    using demo_grpc1_eval(4) by blast
  obtain re where re: "gw_envs (world demo_grpc1) (gw_calls (world demo_grpc1)) = (demo_env ''t1'', re)"
    using demo_grpc_request(2) by blast
  show ?thesis
    by (rule user_call_answered [OF demo_grpc1_reach demo_grpc1_eval(1,2) r demo_grpc_request(1) re demo_joined(1)])
qed

lemma demo_grpc2_run: "RunEventQueue_round 0 demo_grpc1 = Some demo_grpc2"
proof -
  have inv: "svc_inv demo_grpc1" by (rule svc_reach_inv [OF demo_grpc1_reach])
  have "\<exists>s'. RunEventQueue_round 0 demo_grpc1 = Some s'"
    using RunEventQueue_inv [OF inv] demo_grpc1_eval(1,2) by (metis benign.simps(1) list.inject)
  then show ?thesis by (auto simp: demo_grpc2_def)
qed

lemma demo_grpc2_server: "gw_server (world demo_grpc2) = Some demo_server1"
proof -
  obtain r where r: "active demo_grpc1 3 = Some r" "rpc_info r = UserHandler demo_libs" "request r = UserReqM demo_join"
    using demo_grpc1_eval(4) by blast
  have inv: "svc_inv demo_grpc1" by (rule svc_reach_inv [OF demo_grpc1_reach])
  let ?w = "demo_world\<lparr>gw_calls := 1, gw_server := Some demo_server1\<rparr>"
  have "hi_type (rpc_info r) = NORMAL_RPC" by (simp add: r handler_defs UserMethod_def)
  moreover have "hi_request (rpc_info r) (request r) (world demo_grpc1) =
      (?w, [Send (UserResM \<lparr>us_err_code = Err_Success, us_token = ''t1''\<rparr>)])" "hi_reads_done (rpc_info r) ?w = (?w, [Finish 0])"
    using demo_joined(1) by (simp_all add: r handler_defs run_handler_def demo_grpc1_eval demo_world_def)
  ultimately show ?thesis
    using unary_connection [OF inv demo_grpc1_eval(1,2) r(1)] demo_grpc2_run by fastforce
qed


end
