(* ===== verification/GrpcClient.thy ===== *)
theory GrpcClient
  imports Prelude "HOL-Library.Monad_Syntax"
begin

text \<open>
  The client side of \<^verbatim>\<open>src/src/async_grpc\<close>: the retry strategies of \<^verbatim>\<open>retry.cc\<close>, the blocking clients of \<^verbatim>\<open>client.h\<close> and the
  asynchronous clients of \<^verbatim>\<open>async_client.h\<close>.  A status is its code, 0 is \<^verbatim>\<open>Status::OK\<close>.  gRPC's own calls are
  arguments; a duration is a value of any type \<open>'d\<close>, and the floating point operations on durations are arguments.
\<close>

type_synonym status = int

abbreviation INTERNAL :: status where
  "INTERNAL \<equiv> 13"

section \<open>Retry strategies\<close>

text \<open>
  A strategy gets the number of failed attempts and the last status.  The outer \<open>None\<close> of its result is a failed
  \<^verbatim>\<open>CHECK\<close>; the inner option is the \<^verbatim>\<open>optional<Duration>\<close>.  The counter is an \<^verbatim>\<open>int\<close>; it is taken as unbounded.
\<close>

type_synonym indicator = "int \<Rightarrow> status \<Rightarrow> bool"
type_synonym 'd calculator = "int \<Rightarrow> 'd option"
type_synonym 'd strategy = "int \<Rightarrow> status \<Rightarrow> 'd option option"

definition CreateRetryStrategy :: "indicator \<Rightarrow> 'd calculator \<Rightarrow> 'd strategy" where
  "CreateRetryStrategy retry_indicator retry_delay_calculator =
     (\<lambda>failed_attempts status.
        if \<not> retry_indicator failed_attempts status then Some None
        else map_option Some (retry_delay_calculator failed_attempts))"

definition CreateLimitedRetryIndicator :: "int \<Rightarrow> indicator" where
  "CreateLimitedRetryIndicator max_attempts = (\<lambda>failed_attempts status. failed_attempts < max_attempts)"

definition CreateUnlimitedRetryIndicator :: indicator where
  "CreateUnlimitedRetryIndicator = (\<lambda>failed_attempts status. True)"

definition CreateUnlimitedRetryIndicator_codes :: "status set \<Rightarrow> indicator" where
  "CreateUnlimitedRetryIndicator_codes unrecoverable_codes = (\<lambda>failed_attempts status. status \<notin> unrecoverable_codes)"

text \<open>\<^verbatim>\<open>std::pow\<close>, the product, and the conversions between durations and seconds.\<close>

record ('f, 'd) float_ops =
  fp_pow :: "'f \<Rightarrow> int \<Rightarrow> 'f"
  fp_times :: "'f \<Rightarrow> 'f \<Rightarrow> 'f"
  FromSeconds :: "'f \<Rightarrow> 'd"
  ToSeconds :: "'d \<Rightarrow> 'f"

definition CreateBackoffDelayCalculator :: "('f, 'd) float_ops \<Rightarrow> 'd \<Rightarrow> 'f \<Rightarrow> 'd calculator" where
  "CreateBackoffDelayCalculator F min_delay backoff_factor =
     (\<lambda>failed_attempts.
        if failed_attempts < 0 then None
        else Some (FromSeconds F (fp_times F (fp_pow F backoff_factor (failed_attempts - 1)) (ToSeconds F min_delay))))"

definition CreateConstantDelayCalculator :: "'d \<Rightarrow> 'd calculator" where
  "CreateConstantDelayCalculator delay = (\<lambda>failed_attempts. Some delay)"

definition CreateLimitedBackoffStrategy :: "('f, 'd) float_ops \<Rightarrow> 'd \<Rightarrow> 'f \<Rightarrow> int \<Rightarrow> 'd strategy" where
  "CreateLimitedBackoffStrategy F min_delay backoff_factor max_attempts =
     CreateRetryStrategy (CreateLimitedRetryIndicator max_attempts) (CreateBackoffDelayCalculator F min_delay backoff_factor)"

definition CreateUnlimitedConstantDelayStrategy :: "'d \<Rightarrow> 'd strategy" where
  "CreateUnlimitedConstantDelayStrategy delay =
     CreateRetryStrategy CreateUnlimitedRetryIndicator (CreateConstantDelayCalculator delay)"

definition CreateUnlimitedConstantDelayStrategy_codes :: "'d \<Rightarrow> status set \<Rightarrow> 'd strategy" where
  "CreateUnlimitedConstantDelayStrategy_codes delay unrecoverable_codes =
     CreateRetryStrategy (CreateUnlimitedRetryIndicator_codes unrecoverable_codes) (CreateConstantDelayCalculator delay)"

text \<open>
  The loop of \<^verbatim>\<open>RetryWithStrategy\<close>; \<open>op\<close> and \<open>reset\<close> act on a state.  \<open>None\<close>: it does not return, because it
  goes on for ever or a \<^verbatim>\<open>CHECK\<close> fails.
\<close>

partial_function (option) retry_loop ::
  "'d strategy option \<Rightarrow> ('s \<Rightarrow> status \<times> 's) \<Rightarrow> ('s \<Rightarrow> 's) option \<Rightarrow> int \<Rightarrow> 's \<Rightarrow> (bool \<times> 's) option" where
  "retry_loop retry_strategy op reset failed_attempts s =
     (case op s of
        (status, s1) \<Rightarrow>
          if status = 0 then Some (True, s1)
          else (case retry_strategy of
                  None \<Rightarrow> Some (False, s1)
                | Some f \<Rightarrow>
                    (case f (failed_attempts + 1) status of
                       None \<Rightarrow> None
                     | Some None \<Rightarrow> Some (False, s1)
                     | Some (Some delay) \<Rightarrow>
                         retry_loop retry_strategy op reset (failed_attempts + 1)
                           (case reset of None \<Rightarrow> s1 | Some g \<Rightarrow> g s1))))"

definition RetryWithStrategy ::
  "'d strategy option \<Rightarrow> ('s \<Rightarrow> status \<times> 's) \<Rightarrow> ('s \<Rightarrow> 's) option \<Rightarrow> 's \<Rightarrow> (bool \<times> 's) option" where
  "RetryWithStrategy retry_strategy op reset s = retry_loop retry_strategy op reset 0 s"

section \<open>Blocking clients\<close>

text \<open>
  \<^verbatim>\<open>Client<..., NORMAL_RPC>\<close>.  A \<^verbatim>\<open>ClientContext\<close> is a number that is never reused, with its deadline; times are
  numbers.  \<open>call\<close> is \<^verbatim>\<open>BlockingUnaryCall\<close>: it gets the context, the request and the response buffer.
\<close>

record 'res unary_client =
  client_context :: "nat \<times> int option"
  next_context :: nat
  timeout :: "int option"
  response :: 'res

type_synonym ('q, 'res, 'n) unary_call = "nat \<times> int option \<Rightarrow> 'q \<Rightarrow> 'res \<Rightarrow> 'n \<Rightarrow> status \<times> 'res \<times> 'n"

definition ResetContext :: "int option \<Rightarrow> 'res unary_client \<Rightarrow> 'res unary_client" where
  "ResetContext deadline c = c\<lparr>client_context := (next_context c, deadline), next_context := next_context c + 1\<rparr>"

definition Unary_WriteImpl ::
  "('q, 'res, 'n) unary_call \<Rightarrow> 'q \<Rightarrow> 'res unary_client \<times> 'n \<times> status \<Rightarrow> status \<times> 'res unary_client \<times> 'n \<times> status" where
  "Unary_WriteImpl call request = (\<lambda>(c, n, internal_status).
     case call (client_context c) request (response c) n of
       (st, r, n1) \<Rightarrow> (st, c\<lparr>response := r\<rparr>, n1, st))"

text \<open>The result, the status, the client and the network afterwards.\<close>

definition Unary_Write ::
  "('q, 'res, 'n) unary_call \<Rightarrow> 'd strategy option \<Rightarrow> int \<Rightarrow> 'q \<Rightarrow> 'res unary_client \<Rightarrow> 'n
     \<Rightarrow> (bool \<times> 'res unary_client \<times> 'n \<times> status) option" where
  "Unary_Write call retry_strategy now request c n =
     (let deadline = map_option ((+) now) (timeout c)
      in RetryWithStrategy retry_strategy (Unary_WriteImpl call request)
           (Some (\<lambda>(c, n, st). (ResetContext deadline c, n, st))) (ResetContext deadline c, n, 0))"

text \<open>
  The streaming clients: the stream object (\<^verbatim>\<open>client_writer_\<close>, \<^verbatim>\<open>client_reader_\<close>, \<^verbatim>\<open>client_reader_writer_\<close>), created at most once,
  with the operations of gRPC as a record.  \<open>None\<close> in a result is a failed \<^verbatim>\<open>CHECK\<close>.
\<close>

record ('q, 'res, 'x) stream_ops =
  so_create :: "'q option \<Rightarrow> 'x"
  so_write :: "'q \<Rightarrow> 'x \<Rightarrow> bool \<times> 'x"
  so_read :: "'x \<Rightarrow> bool \<times> 'res option \<times> 'x"
  so_writes_done :: "'x \<Rightarrow> bool \<times> 'x"
  so_finish :: "'x \<Rightarrow> status \<times> 'x"

definition InstantiateIfNeeded :: "('q, 'res, 'x) stream_ops \<Rightarrow> 'x option \<Rightarrow> 'x" where
  "InstantiateIfNeeded ops x = (case x of None \<Rightarrow> so_create ops None | Some y \<Rightarrow> y)"

text \<open>
  \<^verbatim>\<open>Write\<close> of the client-streaming and the bidirectional client: \<^verbatim>\<open>WriteImpl\<close> returns whether the write succeeded and
  leaves the status alone; the caller drops the one and returns the other.
\<close>

definition Stream_WriteImpl :: "('q, 'res, 'x) stream_ops \<Rightarrow> 'q \<Rightarrow> status \<Rightarrow> 'x option \<Rightarrow> bool \<times> status \<times> 'x option" where
  "Stream_WriteImpl ops request st x =
     (case so_write ops request (InstantiateIfNeeded ops x) of (ok, y) \<Rightarrow> (ok, st, Some y))"

definition Stream_Write :: "('q, 'res, 'x) stream_ops \<Rightarrow> 'q \<Rightarrow> 'x option \<Rightarrow> bool \<times> status \<times> 'x option" where
  "Stream_Write ops request x =
     (let internal_status = 0;
          (ok, internal_status, x1) = Stream_WriteImpl ops request internal_status x
      in (internal_status = 0, internal_status, x1))"

definition StreamWritesDone :: "('q, 'res, 'x) stream_ops \<Rightarrow> 'x option \<Rightarrow> bool \<times> 'x option" where
  "StreamWritesDone ops x = (case so_writes_done ops (InstantiateIfNeeded ops x) of (ok, y) \<Rightarrow> (ok, Some y))"

definition StreamFinish :: "('q, 'res, 'x) stream_ops \<Rightarrow> 'x option \<Rightarrow> status \<times> 'x option" where
  "StreamFinish ops x = (case so_finish ops (InstantiateIfNeeded ops x) of (st, y) \<Rightarrow> (st, Some y))"

definition Bidi_StreamRead :: "('q, 'res, 'x) stream_ops \<Rightarrow> 'x option \<Rightarrow> bool \<times> 'res option \<times> 'x option" where
  "Bidi_StreamRead ops x = (case so_read ops (InstantiateIfNeeded ops x) of (ok, r, y) \<Rightarrow> (ok, r, Some y))"

text \<open>The same members of the bidirectional client.\<close>

definition Bidi_Write :: "('q, 'res, 'x) stream_ops \<Rightarrow> 'q \<Rightarrow> 'x option \<Rightarrow> bool \<times> status \<times> 'x option" where
  "Bidi_Write ops request x = Stream_Write ops request x"

definition Bidi_StreamWritesDone :: "('q, 'res, 'x) stream_ops \<Rightarrow> 'x option \<Rightarrow> bool \<times> 'x option" where
  "Bidi_StreamWritesDone ops x = StreamWritesDone ops x"

definition Bidi_StreamFinish :: "('q, 'res, 'x) stream_ops \<Rightarrow> 'x option \<Rightarrow> status \<times> 'x option" where
  "Bidi_StreamFinish ops x = StreamFinish ops x"

text \<open>The server-streaming client: \<^verbatim>\<open>Write\<close> makes a new reader, the other calls \<^verbatim>\<open>CHECK\<close> that there is one.\<close>

definition Reader_Write :: "('q, 'res, 'x) stream_ops \<Rightarrow> 'q \<Rightarrow> 'x option \<Rightarrow> bool \<times> status \<times> 'x option" where
  "Reader_Write ops request x = (True, 0, Some (so_create ops (Some request)))"

definition Reader_StreamRead :: "('q, 'res, 'x) stream_ops \<Rightarrow> 'x option \<Rightarrow> (bool \<times> 'res option \<times> 'x option) option" where
  "Reader_StreamRead ops x = map_option (\<lambda>y. case so_read ops y of (ok, r, z) \<Rightarrow> (ok, r, Some z)) x"

definition Reader_StreamFinish :: "('q, 'res, 'x) stream_ops \<Rightarrow> 'x option \<Rightarrow> (status \<times> 'x option) option" where
  "Reader_StreamFinish ops x = map_option (\<lambda>y. case so_finish ops y of (st, z) \<Rightarrow> (st, Some z)) x"

section \<open>Asynchronous clients\<close>

datatype client_event = CE_FINISH | CE_READ | CE_WRITE

text \<open>
  The state of an \<^verbatim>\<open>AsyncClient\<close>: whether \<^verbatim>\<open>callback_\<close> is set, the calls of it so far, the tags that gRPC holds, and the
  status and response buffers that gRPC fills.
\<close>

record 'res async_client =
  callback :: bool
  callback_log :: "(status \<times> 'res option) list"
  tags :: "client_event list"
  ac_status :: status
  finish_status :: status
  ac_response :: 'res

definition run_callback :: "status \<Rightarrow> 'res option \<Rightarrow> 'res async_client \<Rightarrow> 'res async_client" where
  "run_callback st r c = (if callback c then c\<lparr>callback_log := callback_log c @ [(st, r)]\<rparr> else c)"

definition give_tag :: "client_event \<Rightarrow> 'res async_client \<Rightarrow> 'res async_client" where
  "give_tag ev c = c\<lparr>tags := tags c @ [ev]\<rparr>"

text \<open>\<^verbatim>\<open>AsyncClient<..., NORMAL_RPC>\<close>.  \<open>None\<close>: \<^verbatim>\<open>LOG(FATAL)\<close>.\<close>

definition Unary_WriteAsync :: "'res async_client \<Rightarrow> 'res async_client" where
  "Unary_WriteAsync c = give_tag CE_FINISH c"

definition Unary_HandleFinishEvent :: "bool \<Rightarrow> 'res async_client \<Rightarrow> 'res async_client" where
  "Unary_HandleFinishEvent ok c =
     run_callback (ac_status c) (if ac_status c = 0 then Some (ac_response c) else None) c"

definition Unary_HandleEvent :: "client_event \<Rightarrow> bool \<Rightarrow> 'res async_client \<Rightarrow> 'res async_client option" where
  "Unary_HandleEvent ev ok c = (if ev = CE_FINISH then Some (Unary_HandleFinishEvent ok c) else None)"

text \<open>\<^verbatim>\<open>AsyncClient<..., SERVER_STREAMING>\<close>.\<close>

definition Stream_WriteAsync :: "'res async_client \<Rightarrow> 'res async_client" where
  "Stream_WriteAsync c = give_tag CE_WRITE c"

definition HandleWriteEvent :: "bool \<Rightarrow> 'res async_client \<Rightarrow> 'res async_client" where
  "HandleWriteEvent ok c =
     (if \<not> ok then
        (let c1 = (if callback c then (run_callback INTERNAL None c)\<lparr>callback := False\<rparr> else c)
         in give_tag CE_FINISH (c1\<lparr>finish_status := INTERNAL\<rparr>))
      else give_tag CE_READ c)"

definition HandleReadEvent :: "bool \<Rightarrow> 'res async_client \<Rightarrow> 'res async_client" where
  "HandleReadEvent ok c =
     (if ok then
        (let c1 = (if callback c
                   then (let c2 = run_callback 0 (Some (ac_response c)) c
                         in if \<not> ok then c2\<lparr>callback := False\<rparr> else c2)
                   else c)
         in give_tag CE_READ c1)
      else give_tag CE_FINISH (c\<lparr>finish_status := 0\<rparr>))"

definition HandleFinishEvent :: "bool \<Rightarrow> 'res async_client \<Rightarrow> 'res async_client" where
  "HandleFinishEvent ok c =
     (if callback c then (run_callback (if ok then 0 else INTERNAL) None c)\<lparr>callback := False\<rparr> else c)"

fun Stream_HandleEvent :: "client_event \<Rightarrow> bool \<Rightarrow> 'res async_client \<Rightarrow> 'res async_client" where
  "Stream_HandleEvent CE_WRITE ok c = HandleWriteEvent ok c"
| "Stream_HandleEvent CE_READ ok c = HandleReadEvent ok c"
| "Stream_HandleEvent CE_FINISH ok c = HandleFinishEvent ok c"

text \<open>
  One iteration of \<^verbatim>\<open>CompletionQueue::RunCompletionQueue\<close> for a streaming client: gRPC returns a tag, having put \<open>m\<close> into
  the response buffer for a read that succeeded and \<open>st\<close> into the status buffer for a finish.
\<close>

definition RunClientQueue_round :: "client_event \<Rightarrow> bool \<Rightarrow> 'res \<Rightarrow> status \<Rightarrow> 'res async_client \<Rightarrow> 'res async_client" where
  "RunClientQueue_round ev ok m st c =
     (let c1 = c\<lparr>tags := remove1 ev (tags c)\<rparr>;
          c2 = (if ev = CE_READ \<and> ok then c1\<lparr>ac_response := m\<rparr> else c1);
          c3 = (if ev = CE_FINISH then c2\<lparr>finish_status := st\<rparr> else c2)
      in Stream_HandleEvent ev ok c3)"


section \<open>Retries\<close>

text \<open>The state before the attempt number \<open>i\<close>, when none before it ended the loop, and what that attempt gives.\<close>

primrec attempt :: "('s \<Rightarrow> status \<times> 's) \<Rightarrow> ('s \<Rightarrow> 's) option \<Rightarrow> 's \<Rightarrow> nat \<Rightarrow> 's" where
  "attempt op reset s 0 = s"
| "attempt op reset s (Suc i) =
     attempt op reset (case reset of None \<Rightarrow> snd (op s) | Some g \<Rightarrow> g (snd (op s))) i"

definition outcome :: "('s \<Rightarrow> status \<times> 's) \<Rightarrow> ('s \<Rightarrow> 's) option \<Rightarrow> 's \<Rightarrow> nat \<Rightarrow> status \<times> 's" where
  "outcome op reset s i = op (attempt op reset s i)"

lemma outcome_Suc:
  "outcome op reset s (Suc i) = outcome op reset (case reset of None \<Rightarrow> snd (op s) | Some g \<Rightarrow> g (snd (op s))) i"
  by (simp add: outcome_def)

text \<open>The attempts that end the loop: a success, or a failure after which the strategy gives up.\<close>

definition stops :: "'d strategy \<Rightarrow> int \<Rightarrow> status \<times> 's \<Rightarrow> bool" where
  "stops f n out \<longleftrightarrow> fst out = 0 \<or> f n (fst out) = Some None"

lemma retry_loop_stops:
  assumes "\<And>i st. f (n + 1 + int i) st \<noteq> None"
    and "stops f (n + 1 + int k) (outcome op reset s k)" and "\<And>i. i < k \<Longrightarrow> \<not> stops f (n + 1 + int i) (outcome op reset s i)"
  shows "retry_loop (Some f) op reset n s = Some (fst (outcome op reset s k) = 0, snd (outcome op reset s k))"
  using assms
proof (induction k arbitrary: n s)
  case 0
  then show ?case
    by (subst retry_loop.simps) (auto simp: outcome_def stops_def split: prod.splits)
next
  case (Suc k)
  let ?s = "case reset of None \<Rightarrow> snd (op s) | Some g \<Rightarrow> g (snd (op s))"
  have "\<exists>d. f (n + 1) (fst (op s)) = Some d" using Suc.prems(1) [of 0 "fst (op s)"] by auto
  moreover have "\<not> stops f (n + 1) (op s)" using Suc.prems(3) [of 0] by (simp add: outcome_def)
  ultimately have step: "retry_loop (Some f) op reset n s = retry_loop (Some f) op reset (n + 1) ?s"
    by (subst retry_loop.simps) (auto simp: stops_def split: prod.splits option.splits)
  have "retry_loop (Some f) op reset (n + 1) ?s = Some (fst (outcome op reset ?s k) = 0, snd (outcome op reset ?s k))"
  proof (rule Suc.IH)
    show "f (n + 1 + 1 + int i) st \<noteq> None" for i st using Suc.prems(1) [of "Suc i" st] by (simp add: ac_simps)
    show "stops f (n + 1 + 1 + int k) (outcome op reset ?s k)"
      using Suc.prems(2) unfolding outcome_Suc by (simp add: ac_simps)
    show "\<not> stops f (n + 1 + 1 + int i) (outcome op reset ?s i)" if "i < k" for i
      using Suc.prems(3) [of "Suc i"] that unfolding outcome_Suc by (simp add: ac_simps)
  qed
  then show ?case unfolding step outcome_Suc .
qed

lemma retry_loop_returns:
  assumes "retry_loop (Some f) op reset n s = Some y"
  shows "\<exists>i. stops f (n + 1 + int i) (outcome op reset s i)"
proof -
  have "\<forall>f. rs = Some f \<longrightarrow> (\<exists>i. stops f (n + 1 + int i) (outcome op reset s i))"
    if "retry_loop rs op reset n s = Some y" for rs
  proof (rule retry_loop.raw_induct [OF _ that, of "\<lambda>rs op reset n s y. \<forall>f. rs = Some f \<longrightarrow> (\<exists>i. stops f (n + 1 + int i) (outcome op reset s i))"],
      intro allI impI)
    fix loop rs op reset n s y f
    assume 1: "\<And>rs op reset n s y. loop rs op reset n s = Some y
          \<Longrightarrow> \<forall>f. rs = Some f \<longrightarrow> (\<exists>i. stops f (n + 1 + int i) (outcome op reset s i))"
        "(case op s of (status, s1) \<Rightarrow> if status = 0 then Some (True, s1)
            else case rs of None \<Rightarrow> Some (False, s1)
              | Some f \<Rightarrow> (case f (n + 1) status of None \<Rightarrow> None | Some None \<Rightarrow> Some (False, s1)
                  | Some (Some delay) \<Rightarrow> loop rs op reset (n + 1) (case reset of None \<Rightarrow> s1 | Some g \<Rightarrow> g s1))) = Some y"
      and f: "rs = Some f"
    show "\<exists>i. stops f (n + 1 + int i) (outcome op reset s i)"
    proof -
      let ?s = "case reset of None \<Rightarrow> snd (op s) | Some g \<Rightarrow> g (snd (op s))"
      show ?thesis
      proof (cases "stops f (n + 1) (op s)")
        case True
        then show ?thesis by (intro exI [of _ 0]) (simp add: outcome_def)
      next
        case False
        then have "loop (Some f) op reset (n + 1) ?s = Some y"
          using 1(2) f by (auto simp: stops_def split: prod.splits option.splits if_splits)
        then obtain i where "stops f (n + 1 + 1 + int i) (outcome op reset ?s i)" using 1(1) by blast
        then have "stops f (n + 1 + int (Suc i)) (outcome op reset s (Suc i))"
          unfolding outcome_Suc by (simp add: ac_simps)
        then show ?thesis by blast
      qed
    qed
  qed
  with assms show ?thesis by blast
qed

text \<open>The first attempt that ends the loop decides; when none does, the call does not return.\<close>

lemma RetryWithStrategy_eq:
  assumes "\<And>i st. f (1 + int i) st \<noteq> None"
  shows "RetryWithStrategy (Some f) op reset s =
    (if \<exists>i. stops f (1 + int i) (outcome op reset s i)
     then let k = LEAST i. stops f (1 + int i) (outcome op reset s i)
          in Some (fst (outcome op reset s k) = 0, snd (outcome op reset s k))
     else None)"
proof (cases "\<exists>i. stops f (1 + int i) (outcome op reset s i)")
  case True
  let ?k = "LEAST i. stops f (1 + int i) (outcome op reset s i)"
  have "stops f (0 + 1 + int ?k) (outcome op reset s ?k)" using LeastI_ex [OF True] by simp
  moreover have "\<not> stops f (0 + 1 + int i) (outcome op reset s i)" if "i < ?k" for i using not_less_Least [OF that] by simp
  ultimately show ?thesis
    using True assms retry_loop_stops [of f 0 ?k op reset s] by (simp add: RetryWithStrategy_def Let_def)
next
  case False
  have "retry_loop (Some f) op reset 0 s = None"
  proof (rule ccontr)
    assume "retry_loop (Some f) op reset 0 s \<noteq> None"
    then obtain y where "retry_loop (Some f) op reset 0 s = Some y" by blast
    then show False using retry_loop_returns [of f op reset 0 s y] False by simp
  qed
  then show ?thesis using False by (simp add: RetryWithStrategy_def)
qed

text \<open>
  C30: With a limited backoff strategy \<^verbatim>\<open>RetryWithStrategy\<close> always returns: it makes at most \<^verbatim>\<open>max_attempts\<close> attempts (one,
  if that is less), stops at the first that succeeds and returns true exactly when one does; the state is
  that of the last attempt.
\<close>

theorem retry_limited_attempts:
  "RetryWithStrategy (Some (CreateLimitedBackoffStrategy F min_delay backoff_factor max_attempts)) op reset s =
    (let m = nat (max 1 max_attempts)
     in if \<exists>i < m. fst (outcome op reset s i) = 0
        then Some (True, snd (outcome op reset s (LEAST i. fst (outcome op reset s i) = 0)))
        else Some (False, snd (outcome op reset s (m - 1))))"
proof -
  let ?f = "CreateLimitedBackoffStrategy F min_delay backoff_factor max_attempts"
  let ?m = "nat (max 1 max_attempts)" and ?o = "outcome op reset s"
  have total: "?f (1 + int i) st \<noteq> None" for i st
    by (simp add: CreateLimitedBackoffStrategy_def CreateRetryStrategy_def CreateBackoffDelayCalculator_def)
  have stop: "stops ?f (1 + int i) (?o i) \<longleftrightarrow> fst (?o i) = 0 \<or> ?m - 1 \<le> i" for i
    by (auto simp: stops_def CreateLimitedBackoffStrategy_def CreateRetryStrategy_def CreateLimitedRetryIndicator_def
        CreateBackoffDelayCalculator_def)
  have ex: "\<exists>i. stops ?f (1 + int i) (?o i)" using stop by blast
  show ?thesis
  proof (cases "\<exists>i < ?m. fst (?o i) = 0")
    case True
    then obtain j where j: "j < ?m" "fst (?o j) = 0" by blast
    let ?l = "LEAST i. fst (?o i) = 0"
    have "fst (?o ?l) = 0" using j(2) by (rule LeastI)
    moreover have "?l \<le> j" using j(2) by (rule Least_le)
    moreover have "(LEAST i. stops ?f (1 + int i) (?o i)) = ?l"
    proof (rule Least_equality)
      show "stops ?f (1 + int ?l) (?o ?l)" using \<open>fst (?o ?l) = 0\<close> stop by blast
      show "?l \<le> i" if "stops ?f (1 + int i) (?o i)" for i
        using that stop [of i] \<open>?l \<le> j\<close> j(1) Least_le [of "\<lambda>i. fst (?o i) = 0" i] by (cases "fst (?o i) = 0") auto
    qed
    ultimately show ?thesis using RetryWithStrategy_eq [of ?f op reset s] total ex True by (simp add: Let_def)
  next
    case False
    have "(LEAST i. stops ?f (1 + int i) (?o i)) = ?m - 1"
    proof (rule Least_equality)
      show "stops ?f (1 + int (?m - 1)) (?o (?m - 1))" using stop by blast
      show "?m - 1 \<le> i" if "stops ?f (1 + int i) (?o i)" for i
        using that stop [of i] False by (cases "i < ?m") auto
    qed
    moreover have "fst (?o (?m - 1)) \<noteq> 0" using False by simp
    ultimately show ?thesis using RetryWithStrategy_eq [of ?f op reset s] total ex False by (simp add: Let_def)
  qed
qed

text \<open>
  With the unlimited strategies it returns exactly when some attempt succeeds or fails with an
  unrecoverable code, and its result is that of the first such attempt.
\<close>

theorem retry_unlimited_returns_iff:
  fixes s :: 's
  shows "RetryWithStrategy (Some (CreateUnlimitedConstantDelayStrategy_codes delay codes)) op reset s =
    (if \<exists>i. fst (outcome op reset s i) \<in> insert 0 codes
     then let k = LEAST i. fst (outcome op reset s i) \<in> insert 0 codes
          in Some (fst (outcome op reset s k) = 0, snd (outcome op reset s k))
     else None)"
proof -
  let ?f = "CreateUnlimitedConstantDelayStrategy_codes delay codes"
  have "?f n st \<noteq> None" for n st
    by (simp add: CreateUnlimitedConstantDelayStrategy_codes_def CreateRetryStrategy_def CreateConstantDelayCalculator_def)
  moreover have "stops ?f n out \<longleftrightarrow> fst out \<in> insert 0 codes" for n and out :: "status \<times> 's"
    by (auto simp: stops_def CreateUnlimitedConstantDelayStrategy_codes_def CreateRetryStrategy_def
        CreateConstantDelayCalculator_def CreateUnlimitedRetryIndicator_codes_def)
  ultimately show ?thesis using RetryWithStrategy_eq [of ?f op reset s] by simp
qed

section \<open>The unary client\<close>

text \<open>A property that holds before each attempt, and one that holds after it.\<close>

lemma retry_loop_inv:
  assumes ret: "retry_loop rs op (Some g) n s = Some (b, s')" and init: "I s"
    and op: "\<And>s st s1. I s \<Longrightarrow> op s = (st, s1) \<Longrightarrow> J st s1" and reset: "\<And>st s1. J st s1 \<Longrightarrow> I (g s1)"
  shows "\<exists>st. J st s' \<and> (b \<longleftrightarrow> st = 0)"
proof -
  have "r = Some g \<longrightarrow> o' = op \<longrightarrow> I x \<longrightarrow> (\<exists>st. J st (snd y) \<and> (fst y \<longleftrightarrow> st = 0))"
    if "retry_loop rs o' r n x = Some y" for rs o' r n x y
  proof (rule retry_loop.raw_induct [OF _ that, of "\<lambda>rs o' r n x y.
      r = Some g \<longrightarrow> o' = op \<longrightarrow> I x \<longrightarrow> (\<exists>st. J st (snd y) \<and> (fst y \<longleftrightarrow> st = 0))"], intro impI)
    fix loop rs o' r n x y
    assume IH: "\<And>rs o' r n x y. loop rs o' r n x = Some y
          \<Longrightarrow> r = Some g \<longrightarrow> o' = op \<longrightarrow> I x \<longrightarrow> (\<exists>st. J st (snd y) \<and> (fst y \<longleftrightarrow> st = 0))"
      and run: "(case o' x of (status, s1) \<Rightarrow> if status = 0 then Some (True, s1)
            else case rs of None \<Rightarrow> Some (False, s1)
              | Some f \<Rightarrow> (case f (n + 1) status of None \<Rightarrow> None | Some None \<Rightarrow> Some (False, s1)
                  | Some (Some delay) \<Rightarrow> loop rs o' r (n + 1) (case r of None \<Rightarrow> s1 | Some g \<Rightarrow> g s1))) = Some y"
      and eqs: "r = Some g" "o' = op" "I x"
    obtain st s1 where o: "op x = (st, s1)" by (cases "op x")
    then have "J st s1" using op eqs(3) by blast
    then show "\<exists>st. J st (snd y) \<and> (fst y \<longleftrightarrow> st = 0)"
      using run o eqs IH [of rs op "Some g" "n + 1" "g s1" y] reset
      by (auto split: if_splits option.splits)
  qed
  then show ?thesis using ret init by fastforce
qed

text \<open>
  A call of the unary client that returns reports success exactly when its last attempt did.  Every
  attempt has a \<^verbatim>\<open>ClientContext\<close> of its own, which none before it used, with the one deadline computed at the start:
  the timeout bounds all attempts together.
\<close>

theorem Unary_Write_contexts:
  fixes c :: "'res unary_client"
  assumes log: "\<And>ctx q r n. snd (snd (call ctx q r n)) = n @ [ctx]"
    and run: "Unary_Write call rs now request c n = Some (b, c', n', st)"
  shows "\<exists>ctxs. n' = n @ ctxs \<and> ctxs \<noteq> [] \<and> distinct (map fst ctxs) \<and> b = (st = 0)
    \<and> (\<forall>ctx \<in> set ctxs. next_context c \<le> fst ctx \<and> fst ctx < next_context c' \<and> snd ctx = map_option ((+) now) (timeout c))"
proof -
  let ?d = "map_option ((+) now) (timeout c)"
  define used where "used = (\<lambda>n1 k. \<exists>ctxs. n1 = n @ ctxs \<and> distinct (map fst ctxs)
      \<and> (\<forall>ctx \<in> set ctxs. next_context c \<le> fst ctx \<and> fst ctx < k \<and> snd ctx = ?d) \<and> (n1 = n \<longrightarrow> ctxs = []))"
  define I where "I = (\<lambda>(c1 :: 'res unary_client, n1, st :: status).
      client_context c1 = (next_context c1 - 1, ?d) \<and> next_context c < next_context c1 \<and> used n1 (next_context c1 - 1))"
  define J where "J = (\<lambda>st (c1 :: 'res unary_client, n1, st' :: status).
      st = st' \<and> next_context c < next_context c1 \<and> used n1 (next_context c1) \<and> n1 \<noteq> n)"
  have "\<exists>st'. J st' (c', n', st) \<and> (b \<longleftrightarrow> st' = 0)"
  proof (rule retry_loop_inv)
    show "retry_loop rs (Unary_WriteImpl call request) (Some (\<lambda>(c, n, st). (ResetContext ?d c, n, st))) 0 (ResetContext ?d c, n, 0)
        = Some (b, c', n', st)"
      using run by (simp add: Unary_Write_def RetryWithStrategy_def Let_def)
    show "I (ResetContext ?d c, n, 0)" by (auto simp: I_def ResetContext_def used_def)
  next
    fix s st s1 assume i: "I s" and w: "Unary_WriteImpl call request s = (st, s1)"
    obtain c1 n1 st1 where s: "s = (c1, n1, st1)" by (cases s)
    obtain st2 r n2 where cl: "call (client_context c1) request (response c1) n1 = (st2, r, n2)"
      by (cases "call (client_context c1) request (response c1) n1")
    have n2: "n2 = n1 @ [client_context c1]" using log [of "client_context c1" request "response c1" n1] cl by simp
    from i s have ctx: "client_context c1 = (next_context c1 - 1, ?d)" "next_context c < next_context c1"
      and u: "used n1 (next_context c1 - 1)" by (simp_all add: I_def)
    from u obtain ctxs where ctxs: "n1 = n @ ctxs" "distinct (map fst ctxs)"
      "\<forall>ctx \<in> set ctxs. next_context c \<le> fst ctx \<and> fst ctx < next_context c1 - 1 \<and> snd ctx = ?d" by (auto simp: used_def)
    have "used n2 (next_context c1)"
      unfolding used_def using ctxs ctx n2
      by (intro exI [of _ "ctxs @ [client_context c1]"]) auto
    then show "J st s1" using w s cl ctx(2) ctxs(1) n2 by (auto simp: J_def Unary_WriteImpl_def)
  next
    fix st s1 assume "J st s1"
    then show "I (case s1 of (c, n, st) \<Rightarrow> (ResetContext ?d c, n, st))"
      by (auto simp: I_def J_def ResetContext_def split: prod.splits)
  qed
  then show ?thesis by (auto simp: J_def used_def)
qed

text \<open>A network that fails twice and then answers, recording the contexts of the calls.\<close>

definition demo_call :: "(nat, nat, (nat \<times> int option) list) unary_call" where
  "demo_call ctx q r n = (if length n < 2 then (14, r, n @ [ctx]) else (0, q + 1, n @ [ctx]))"

definition demo_client :: "nat unary_client" where
  "demo_client = \<lparr>client_context = (0, None), next_context = 1, timeout = Some 50, response = 0\<rparr>"

definition demo_strategy :: "int strategy" where
  "demo_strategy = CreateRetryStrategy (CreateLimitedRetryIndicator 5) (CreateConstantDelayCalculator 10)"

lemma demo_write:
  "Unary_Write demo_call (Some demo_strategy) 100 41 demo_client [] =
    Some (True, \<lparr>client_context = (3, Some 150), next_context = 4, timeout = Some 50, response = 42\<rparr>,
      [(1, Some 150), (2, Some 150), (3, Some 150)], 0)"
  by (simp add: Unary_Write_def RetryWithStrategy_def retry_loop.simps Unary_WriteImpl_def demo_call_def demo_client_def
      demo_strategy_def CreateRetryStrategy_def CreateLimitedRetryIndicator_def CreateConstantDelayCalculator_def ResetContext_def Let_def numeral_eq_Suc)

theorem Unary_Write_contexts_witness:
  "\<exists>ctxs. [(1, Some 150), (2, Some 150), (3, Some 150)] = [] @ ctxs \<and> ctxs \<noteq> [] \<and> distinct (map fst ctxs) \<and> True = ((0::int) = 0)
    \<and> (\<forall>ctx \<in> set ctxs. next_context demo_client \<le> fst ctx \<and> fst ctx < 4 \<and> snd ctx = map_option ((+) 100) (timeout demo_client))"
  using Unary_Write_contexts [OF _ demo_write] by (auto simp: demo_call_def)

section \<open>The streaming clients\<close>

text \<open>\<^verbatim>\<open>Write\<close> of a streaming client reports success whatever the stream says.\<close>

lemma Stream_Write_always_ok: "fst (Bidi_Write ops request x)" "fst (snd (Bidi_Write ops request x)) = 0"
  by (simp_all add: Bidi_Write_def Stream_Write_def Stream_WriteImpl_def split: prod.splits)

section \<open>The asynchronous server-streaming client\<close>

definition new_async_client :: "'res \<Rightarrow> 'res async_client" where
  "new_async_client r =
     \<lparr>callback = True, callback_log = [], tags = [], ac_status = 0, finish_status = 0, ac_response = r\<rparr>"

text \<open>The client after \<^verbatim>\<open>WriteAsync\<close>, while gRPC returns the tags it holds; \<open>ms\<close> are the messages read.\<close>

inductive async_reach :: "'res \<Rightarrow> 'res async_client \<Rightarrow> 'res list \<Rightarrow> bool" for r where
  start: "async_reach r (Stream_WriteAsync (new_async_client r)) []"
| event: "async_reach r c ms \<Longrightarrow> ev \<in> set (tags c) \<Longrightarrow>
    async_reach r (RunClientQueue_round ev ok m st c) (if ev = CE_READ \<and> ok then ms @ [m] else ms)"

definition stream_inv :: "'res async_client \<Rightarrow> 'res list \<Rightarrow> bool" where
  "stream_inv c ms \<longleftrightarrow>
     (let got = map (\<lambda>m. (0, Some m)) ms
      in if callback c then callback_log c = got \<and> (\<exists>ev. tags c = [ev] \<and> (ev = CE_WRITE \<longrightarrow> ms = []))
         else (\<exists>st. callback_log c = got @ [(st, None)]) \<and> (tags c = [] \<or> tags c = [CE_FINISH]))"

lemma stream_inv_step:
  assumes "stream_inv c ms" and "ev \<in> set (tags c)"
  shows "stream_inv (RunClientQueue_round ev ok m st c) (if ev = CE_READ \<and> ok then ms @ [m] else ms)"
proof -
  have tags: "tags c = [ev]" using assms by (auto simp: stream_inv_def Let_def split: if_splits)
  show ?thesis
    using assms(1) tags
    by (cases ev; cases ok)
      (auto simp: stream_inv_def Let_def RunClientQueue_round_def HandleWriteEvent_def HandleReadEvent_def HandleFinishEvent_def
        run_callback_def give_tag_def split: if_splits)
qed

text \<open>
  C31: The asynchronous server-streaming client calls its callback once for every message read, in order, with
  \<^verbatim>\<open>OK\<close>, and then at most once more, without a message; when gRPC holds no tag of it any more, that final call has been
  made.  It never has two operations in progress.
\<close>

theorem stream_callbacks:
  assumes "async_reach r c ms"
  shows "\<exists>last. callback_log c = map (\<lambda>m. (0, Some m)) ms @ last \<and> length (tags c) \<le> 1
    \<and> (last = [] \<or> (\<exists>st. last = [(st, None)])) \<and> (tags c = [] \<longrightarrow> last \<noteq> [])"
proof -
  have "stream_inv c ms"
    using assms
  proof (induction rule: async_reach.induct)
    case start
    show ?case by (simp add: stream_inv_def Stream_WriteAsync_def new_async_client_def give_tag_def Let_def)
  next
    case (event c ms ev ok m st)
    then show ?case by (intro stream_inv_step)
  qed
  then show ?thesis by (auto simp: stream_inv_def Let_def split: if_splits)
qed

definition demo_stream :: "nat async_client" where
  "demo_stream =
     RunClientQueue_round CE_FINISH True 0 5 (RunClientQueue_round CE_READ False 0 0
       (RunClientQueue_round CE_READ True 7 0 (RunClientQueue_round CE_WRITE True 0 0 (Stream_WriteAsync (new_async_client 0)))))"

lemma demo_stream_eval:
  "demo_stream = \<lparr>callback = False, callback_log = [(0, Some 7), (0, None)], tags = [], ac_status = 0, finish_status = 5,
     ac_response = 7\<rparr>"
  by (simp add: demo_stream_def RunClientQueue_round_def Stream_WriteAsync_def new_async_client_def give_tag_def Let_def
      HandleWriteEvent_def HandleReadEvent_def HandleFinishEvent_def run_callback_def)

lemma demo_stream_reach: "async_reach 0 demo_stream [7]"
proof -
  note start = async_reach.start [of 0]
  note w = async_reach.event [OF start, of CE_WRITE True 0 0]
  note r1 = async_reach.event [OF w, of CE_READ True 7 0]
  note r2 = async_reach.event [OF r1, of CE_READ False 0 0]
  note f = async_reach.event [OF r2, of CE_FINISH True 0 5]
  show ?thesis
    using f by (simp add: demo_stream_def RunClientQueue_round_def Stream_WriteAsync_def new_async_client_def give_tag_def
        Let_def HandleWriteEvent_def HandleReadEvent_def run_callback_def)
qed

theorem stream_callbacks_witness:
  "\<exists>last. [(0, Some 7), (0, None)] = map (\<lambda>m. (0::int, Some m)) [7::nat] @ last \<and> last \<noteq> []"
  using stream_callbacks [OF demo_stream_reach] by (auto simp: demo_stream_eval)

text \<open>
  The status with which the server ended the stream is not passed on: \<^verbatim>\<open>HandleFinishEvent\<close> reports \<^verbatim>\<open>OK\<close> although gRPC has put
  an error into \<^verbatim>\<open>finish_status_\<close>.
\<close>

lemma stream_status_lost:
  "\<exists>c :: nat async_client. async_reach 0 c [7] \<and> finish_status c = 5 \<and> callback_log c = [(0, Some 7), (0, None)] \<and> tags c = []"
  using demo_stream_reach by (auto simp: demo_stream_eval)

section \<open>The pool of completion queues\<close>

text \<open>
  \<^verbatim>\<open>CompletionQueuePool\<close> of \<^verbatim>\<open>completion_queue_pool.cc\<close>: a queue is whether its thread has been started and not been
  joined; \<open>None\<close> is a failed \<^verbatim>\<open>CHECK\<close> or an index out of range.
\<close>

record cq_pool =
  initialized :: bool
  number_completion_queues :: nat
  completion_queues :: "bool list"

definition CQ_Start :: "bool \<Rightarrow> bool option" where
  "CQ_Start thread = (if thread then None else Some True)"

definition CQ_Shutdown :: "bool \<Rightarrow> bool option" where
  "CQ_Shutdown thread = (if thread then Some False else None)"

fun each_queue :: "(bool \<Rightarrow> bool option) \<Rightarrow> bool list \<Rightarrow> bool list option" where
  "each_queue f [] = Some []"
| "each_queue f (q # qs) = do { q1 \<leftarrow> f q; qs1 \<leftarrow> each_queue f qs; Some (q1 # qs1) }"

text \<open>\<^verbatim>\<open>resize\<close> keeps the first queues and appends queues without thread.\<close>

definition Pool_Initialize :: "cq_pool \<Rightarrow> cq_pool option" where
  "Pool_Initialize c =
     (if initialized c then Some c
      else do {
        let qs = take (number_completion_queues c) (completion_queues c)
                   @ replicate (number_completion_queues c - length (completion_queues c)) False;
        qs1 \<leftarrow> each_queue CQ_Start qs;
        Some (c\<lparr>completion_queues := qs1, initialized := True\<rparr>)
      })"

definition SetNumberCompletionQueues :: "nat \<Rightarrow> cq_pool \<Rightarrow> cq_pool option" where
  "SetNumberCompletionQueues n c =
     (if initialized c \<or> \<not> 0 < n then None else Some (c\<lparr>number_completion_queues := n\<rparr>))"

text \<open>The index of the queue; \<open>r\<close> is the value of \<^verbatim>\<open>rand()\<close>.\<close>

definition GetCompletionQueue :: "nat \<Rightarrow> cq_pool \<Rightarrow> (nat \<times> cq_pool) option" where
  "GetCompletionQueue r c =
     do {
       c1 \<leftarrow> Pool_Initialize c;
       (if completion_queues c1 = [] then None
        else let qid = r mod length (completion_queues c1)
             in if qid < length (completion_queues c1) then Some (qid, c1) else None)
     }"

definition Pool_Shutdown :: "cq_pool \<Rightarrow> cq_pool option" where
  "Pool_Shutdown c =
     do {
       _ \<leftarrow> each_queue CQ_Shutdown (completion_queues c);
       Some (c\<lparr>completion_queues := [], initialized := False\<rparr>)
     }"

definition new_pool :: cq_pool where
  "new_pool = \<lparr>initialized = False, number_completion_queues = 2, completion_queues = []\<rparr>"

definition pool_inv :: "cq_pool \<Rightarrow> bool" where
  "pool_inv c \<longleftrightarrow>
     0 < number_completion_queues c
     \<and> completion_queues c = (if initialized c then replicate (number_completion_queues c) True else [])"

lemma each_queue_replicate: "f q = Some q1 \<Longrightarrow> each_queue f (replicate n q) = Some (replicate n q1)"
  by (induction n) simp_all

lemma pool_initialize:
  assumes "pool_inv c"
  shows "\<exists>c1. Pool_Initialize c = Some c1 \<and> pool_inv c1 \<and> initialized c1"
  using assms each_queue_replicate [of CQ_Start False True]
  by (auto simp: Pool_Initialize_def pool_inv_def CQ_Start_def Let_def)

text \<open>
  Whatever the order of the calls, no queue is started twice or joined without having been started, and
  \<^verbatim>\<open>GetCompletionQueue\<close> finds a running queue.
\<close>

lemma pool_total:
  assumes "pool_inv c"
  shows "\<exists>qid c1. GetCompletionQueue r c = Some (qid, c1) \<and> pool_inv c1 \<and> completion_queues c1 ! qid"
    and "\<exists>c1. Pool_Shutdown c = Some c1 \<and> pool_inv c1"
    and "SetNumberCompletionQueues n c = Some c1 \<Longrightarrow> pool_inv c1"
    and "pool_inv new_pool"
proof -
  obtain c2 where c2: "Pool_Initialize c = Some c2" "pool_inv c2" "initialized c2" using pool_initialize [OF assms] by blast
  then have "completion_queues c2 = replicate (number_completion_queues c2) True" "0 < number_completion_queues c2"
    by (simp_all add: pool_inv_def)
  then show "\<exists>qid c1. GetCompletionQueue r c = Some (qid, c1) \<and> pool_inv c1 \<and> completion_queues c1 ! qid"
    using c2 by (simp add: GetCompletionQueue_def)
  show "\<exists>c1. Pool_Shutdown c = Some c1 \<and> pool_inv c1"
    using assms each_queue_replicate [of CQ_Shutdown True False]
    by (auto simp: Pool_Shutdown_def pool_inv_def CQ_Shutdown_def)
  show "SetNumberCompletionQueues n c = Some c1 \<Longrightarrow> pool_inv c1"
    using assms by (auto simp: SetNumberCompletionQueues_def pool_inv_def split: if_splits)
  show "pool_inv new_pool" by (simp add: new_pool_def pool_inv_def)
qed

end
