(* ===== verification/WorkPool.thy ===== *)
theory WorkPool
  imports UtilPath BlockingQueue
begin

text \<open>
  The pattern that \<^verbatim>\<open>ScanManager::ParallelFullScan\<close> (\<^verbatim>\<open>src/src/impl/scan_manager.h\<close>) and the recursive
  workers of \<^verbatim>\<open>SyncManager\<close> share: threads that pop directories from one queue, give up after three
  failed pops, and are posted again by the main thread while the queue is not empty.  The threads
  are interleaved: an event lets one worker do one step (at most one critical section), lets the
  main thread post a stopped worker again, or lets the environment act.  The job a worker does on
  a directory is a parameter.
\<close>

section \<open>Workers\<close>

text \<open>
  \<open>jwork w s\<close> is the next piece of work on a directory: the new shared state and what remains
  (\<open>None\<close>: the end of the loop body); the value \<open>None\<close> of the whole stands for a call that does not return.
\<close>

record ('s, 'w) job =
  jqueue :: "'s \<Rightarrow> string bqueue"
  jset_queue :: "string bqueue \<Rightarrow> 's \<Rightarrow> 's"
  jstop :: "'s \<Rightarrow> bool"
  jinterrupt :: "'s \<Rightarrow> 's"
  jstart :: "string \<Rightarrow> 'w"
  jwork :: "'w \<Rightarrow> 's \<Rightarrow> ('s \<times> 'w option) option"

text \<open>\<open>WIdle t\<close>: at the top of the loop, after \<open>t\<close> failed pops.\<close>

datatype 'w worker = WIdle nat | WBusy 'w | WStopped | WHung

fun worker_step :: "('s, 'w) job \<Rightarrow> 'w worker \<Rightarrow> 's \<Rightarrow> 'w worker \<times> 's" where
  "worker_step J (WIdle t) s =
     (if jstop J s \<and> t = 0 then (WStopped, jinterrupt J s)
      else case BQ_PopBack (jqueue J s) of
             None \<Rightarrow> (if t + 1 \<ge> 3 then WStopped else WIdle (t + 1), s)
           | Some (cur_dir, q) \<Rightarrow> (WBusy (jstart J cur_dir), jset_queue J q s))"
| "worker_step J (WBusy w) s =
     (case jwork J w s of
        None \<Rightarrow> (WHung, s)
      | Some (s', None) \<Rightarrow> (WIdle 0, s')
      | Some (s', Some w') \<Rightarrow> (WBusy w', s'))"
| "worker_step J WStopped s = (WStopped, s)"
| "worker_step J WHung s = (WHung, s)"

section \<open>Schedules\<close>

datatype 'e sched = Run nat | Restart nat | Env 'e

text \<open>
  \<open>None\<close>: the event cannot happen.  A thread runs only while its bit of \<^verbatim>\<open>running_mark\<close> is set; the
  main thread posts it again when the bit is clear and the queue is not empty.
\<close>

fun pool_event ::
  "('s, 'w) job \<Rightarrow> ('e \<Rightarrow> 's \<Rightarrow> 's) \<Rightarrow> 'e sched \<Rightarrow> 'w worker list \<times> 's
   \<Rightarrow> ('w worker list \<times> 's) option" where
  "pool_event J env (Run i) (ws, s) =
     (if i < length ws \<and> ws ! i \<noteq> WStopped \<and> ws ! i \<noteq> WHung
      then let (w, s') = worker_step J (ws ! i) s in Some (ws[i := w], s') else None)"
| "pool_event J env (Restart i) (ws, s) =
     (if i < length ws \<and> ws ! i = WStopped \<and> BQ_Size (jqueue J s) > 0
      then Some (ws[i := WIdle 0], s) else None)"
| "pool_event J env (Env e) (ws, s) = Some (ws, env e s)"

fun run_events ::
  "('s, 'w) job \<Rightarrow> ('e \<Rightarrow> 's \<Rightarrow> 's) \<Rightarrow> 'e sched list \<Rightarrow> 'w worker list \<times> 's
   \<Rightarrow> ('w worker list \<times> 's) option" where
  "run_events J env [] st = Some st"
| "run_events J env (e # es) st =
     (case pool_event J env e st of None \<Rightarrow> None | Some st' \<Rightarrow> run_events J env es st')"

text \<open>The main thread leaves its loop when \<^verbatim>\<open>running_mark\<close> is 0.\<close>

definition all_stopped :: "'w worker list \<Rightarrow> bool" where
  "all_stopped ws \<longleftrightarrow> list_all (\<lambda>w. w = WStopped) ws"

definition run_pool ::
  "('s, 'w) job \<Rightarrow> ('e \<Rightarrow> 's \<Rightarrow> 's) \<Rightarrow> nat \<Rightarrow> 'e sched list \<Rightarrow> 's \<Rightarrow> 's option" where
  "run_pool J env max_threads es s =
     (case run_events J env es (replicate max_threads (WIdle 0), s) of
        None \<Rightarrow> None
      | Some (ws, s') \<Rightarrow> if all_stopped ws then Some s' else None)"

lemma run_events_append:
  "run_events J env (es @ es') st =
     (case run_events J env es st of None \<Rightarrow> None | Some st' \<Rightarrow> run_events J env es' st')"
  by (induction es arbitrary: st) (auto split: option.splits)

lemma pool_event_length: "pool_event J env e (ws, s) = Some (ws', s') \<Longrightarrow> length ws' = length ws"
  by (cases e) (auto simp: Let_def split: if_splits prod.splits)

lemma run_events_length: "run_events J env es (ws, s) = Some (ws', s') \<Longrightarrow> length ws' = length ws"
proof (induction es arbitrary: ws s)
  case (Cons e es)
  then show ?case
    using pool_event_length [of J env e ws s] by (auto split: option.splits)
qed simp

text \<open>Worker \<open>old\<close> becomes \<open>new\<close>, the others stay.\<close>

definition moves :: "'w worker set \<Rightarrow> 'w worker \<Rightarrow> 'w worker \<Rightarrow> 'w worker set \<Rightarrow> bool" where
  "moves W old new W' \<longleftrightarrow> W - {old} \<subseteq> W' \<and> W' \<subseteq> insert new W \<and> new \<in> W'"

lemma moves_update: "i < length ws \<Longrightarrow> moves (set ws) (ws ! i) v (set (ws[i := v]))"
proof -
  assume i: "i < length ws"
  have "x \<in> set (ws[i := v])" if "x \<in> set ws" "x \<noteq> ws ! i" for x
    using that by (metis in_set_conv_nth length_list_update nth_list_update_neq)
  then show ?thesis
    using i set_update_subset_insert [of ws i v] by (auto simp: moves_def set_update_memI)
qed

section \<open>Invariants of every schedule\<close>

text \<open>
  A job with a queue: what the operations on the queue do to each other, and a property \<open>Inv\<close> of
  worker lists and shared states that every step keeps.  Events of the environment are those that
  satisfy \<open>quiet\<close>.
\<close>

definition event_ok :: "('e \<Rightarrow> bool) \<Rightarrow> 'e sched \<Rightarrow> bool" where
  "event_ok quiet ev \<longleftrightarrow> (case ev of Env e \<Rightarrow> quiet e | _ \<Rightarrow> True)"

locale pool_queue =
  fixes J :: "('s, 'w) job"
  assumes queue_set: "jqueue J (jset_queue J q s) = q"

text \<open>A worker stops only when it has seen the queue empty; nobody else fills it then.\<close>

definition pool_inv :: "('s, 'w) job \<Rightarrow> ('w worker list \<Rightarrow> 's \<Rightarrow> bool) \<Rightarrow> 'w worker list \<times> 's \<Rightarrow> bool" where
  "pool_inv J Inv st \<longleftrightarrow>
     Inv (fst st) (snd st) \<and> (fst st \<noteq> [] \<and> all_stopped (fst st) \<longrightarrow> jqueue J (snd st) = [])"

locale pool_invariant = pool_queue J for J :: "('s, 'w) job" +
  fixes env :: "'e \<Rightarrow> 's \<Rightarrow> 's" and quiet :: "'e \<Rightarrow> bool" and Inv :: "'w worker list \<Rightarrow> 's \<Rightarrow> bool"
  assumes inv_idle: "Inv ws s \<Longrightarrow> i < length ws \<Longrightarrow> ws ! i = WIdle t \<Longrightarrow> jqueue J s = [] \<Longrightarrow>
        v = WStopped \<or> v = WIdle t' \<Longrightarrow> Inv (ws[i := v]) s"
    and inv_pop: "Inv ws s \<Longrightarrow> i < length ws \<Longrightarrow> ws ! i = WIdle t \<Longrightarrow> jqueue J s = q @ [d] \<Longrightarrow>
        Inv (ws[i := WBusy (jstart J d)]) (jset_queue J q s)"
    and inv_work: "Inv ws s \<Longrightarrow> i < length ws \<Longrightarrow> ws ! i = WBusy w \<Longrightarrow>
        \<exists>s' r. jwork J w s = Some (s', r)
          \<and> Inv (ws[i := (case r of None \<Rightarrow> WIdle 0 | Some w' \<Rightarrow> WBusy w')]) s'"
    and inv_restart: "Inv ws s \<Longrightarrow> i < length ws \<Longrightarrow> ws ! i = WStopped \<Longrightarrow> Inv (ws[i := WIdle 0]) s"
    and inv_stop: "Inv ws s \<Longrightarrow> \<not> jstop J s"
    and inv_env: "Inv ws s \<Longrightarrow> quiet e \<Longrightarrow> Inv ws (env e s) \<and> jqueue J (env e s) = jqueue J s"
begin

lemma all_stopped_update:
  "i < length ws \<Longrightarrow> all_stopped (ws[i := v]) \<Longrightarrow> v = WStopped"
  by (auto simp: all_stopped_def list_all_length dest: spec [where x = i])

lemma run_step_keeps:
  assumes "Inv ws s" and "i < length ws" and "worker_step J (ws ! i) s = (w, s')"
    and "ws ! i \<noteq> WStopped" and "ws ! i \<noteq> WHung"
  shows "pool_inv J Inv (ws[i := w], s')"
proof (cases "ws ! i")
  case (WIdle t)
  show ?thesis
  proof (cases "jqueue J s = []")
    case True
    then show ?thesis
      using assms WIdle inv_stop [OF assms(1)] inv_idle [of ws s i t w] by (auto simp: pool_inv_def BQ_PopBack_def split: if_splits)
  next
    case False
    then show ?thesis
      using assms WIdle inv_stop [OF assms(1)] inv_pop [of ws s i t "butlast (jqueue J s)" "last (jqueue J s)"]
        all_stopped_update [of i ws w]
      by (auto simp: pool_inv_def BQ_PopBack_def)
  qed
next
  case (WBusy v)
  obtain s1 r where "jwork J v s = Some (s1, r)"
    "Inv (ws[i := (case r of None \<Rightarrow> WIdle 0 | Some w' \<Rightarrow> WBusy w')]) s1"
    using inv_work [OF assms(1,2) WBusy] by blast
  then show ?thesis
    using assms WBusy all_stopped_update [of i ws w] by (cases r) (auto simp: pool_inv_def)
qed (use assms in auto)

lemma event_keeps:
  assumes "pool_inv J Inv st" and "event_ok quiet ev" and "pool_event J env ev st = Some st'"
  shows "pool_inv J Inv st'"
proof -
  obtain ws s where st: "st = (ws, s)" by fastforce
  have inv: "Inv ws s" using assms(1) st by (simp add: pool_inv_def)
  show ?thesis
  proof (cases ev)
    case (Run i)
    then show ?thesis
      using assms(3) st inv run_step_keeps [of ws s i] by (auto split: if_splits prod.splits)
  next
    case (Restart i)
    then show ?thesis
      using assms(3) st inv inv_restart [of ws s i] all_stopped_update [of i ws "WIdle 0"]
      by (auto simp: pool_inv_def split: if_splits)
  next
    case (Env e)
    then show ?thesis
      using assms inv_env [of ws s e] st inv by (auto simp: pool_inv_def event_ok_def)
  qed
qed

lemma run_keeps:
  "pool_inv J Inv st \<Longrightarrow> list_all (event_ok quiet) es \<Longrightarrow> run_events J env es st = Some st' \<Longrightarrow> pool_inv J Inv st'"
proof (induction es arbitrary: st)
  case (Cons e es)
  then show ?case using event_keeps [of st e] by (auto split: option.splits)
qed simp

lemma no_worker_hangs:
  assumes "pool_inv J Inv (ws, s)" "WHung \<notin> set ws" "pool_event J env ev (ws, s) = Some (ws', s')"
  shows "WHung \<notin> set ws'"
proof (cases ev)
  case (Run i)
  have "fst (worker_step J (ws ! i) s) \<noteq> WHung" if "i < length ws"
    using that assms(1,2) inv_work [of ws s i] nth_mem [OF that]
    by (cases "ws ! i") (auto simp: pool_inv_def split: option.splits)
  then show ?thesis
    using assms(2,3) Run set_update_subset_insert [of ws i]
    by (auto simp: Let_def split: if_splits prod.splits)
next
  case (Restart i)
  then show ?thesis
    using assms(2,3) set_update_subset_insert [of ws i] by (auto split: if_splits)
qed (use assms in auto)

lemma run_no_hang:
  "pool_inv J Inv (ws, s) \<Longrightarrow> list_all (event_ok quiet) es \<Longrightarrow> WHung \<notin> set ws \<Longrightarrow>
   run_events J env es (ws, s) = Some (ws', s') \<Longrightarrow> WHung \<notin> set ws'"
proof (induction es arbitrary: ws s)
  case (Cons e es)
  then obtain ws1 s1 where 1: "pool_event J env e (ws, s) = Some (ws1, s1)" by (auto split: option.splits)
  then show ?case
    using Cons event_keeps [OF Cons.prems(1) _ 1] no_worker_hangs [OF Cons.prems(1,3) 1] by simp
qed simp

lemma pool_inv_start:
  "Inv (replicate n (WIdle 0)) s \<Longrightarrow> (n = 0 \<Longrightarrow> jqueue J s = []) \<Longrightarrow> pool_inv J Inv (replicate n (WIdle 0), s)"
  by (auto simp: pool_inv_def all_stopped_def list_all_length)

lemma pool_ends:
  assumes "Inv (replicate n (WIdle 0)) s" and "list_all (event_ok quiet) es" and "0 < n"
    and "run_pool J env n es s = Some s'"
  shows "\<exists>ws. Inv ws s' \<and> all_stopped ws \<and> jqueue J s' = []"
proof -
  obtain ws where ws: "run_events J env es (replicate n (WIdle 0), s) = Some (ws, s')" "all_stopped ws"
    using assms(4) by (auto simp: run_pool_def split: option.splits if_splits)
  have "pool_inv J Inv (replicate n (WIdle 0), s)"
    using assms(1,3) by (auto simp: pool_inv_def all_stopped_def list_all_length)
  then have "pool_inv J Inv (ws, s')" using assms(2) ws(1) by (rule run_keeps)
  moreover have "length ws = n" using run_events_length [OF ws(1)] by simp
  ultimately show ?thesis using ws(2) assms(3) by (auto simp: pool_inv_def)
qed

end

section \<open>Every schedule ends\<close>

text \<open>
  A weight for queued directories and for the work in progress that every piece of work lowers.
  A pop lowers it too; what is left are failed pops, which end after three, and posting stopped
  workers again, which needs a queue that is not empty.
\<close>

fun worker_weight :: "('w \<Rightarrow> nat) \<Rightarrow> 'w worker \<Rightarrow> nat" where
  "worker_weight bw (WBusy w) = Suc (bw w)"
| "worker_weight bw _ = 0"

fun idle_budget :: "'w worker \<Rightarrow> nat" where
  "idle_budget (WIdle t) = Suc (3 - t)"
| "idle_budget _ = 0"

fun stopped_count :: "'w worker \<Rightarrow> nat" where
  "stopped_count WStopped = 1"
| "stopped_count _ = 0"

lemma sum_list_update:
  "i < length xs \<Longrightarrow> sum_list (map f (xs[i := x])) + f (xs ! i) = sum_list (map f xs) + (f x :: nat)"
proof (induction xs arbitrary: i)
  case (Cons y ys)
  then show ?case by (cases i) (auto simp: algebra_simps dest: Cons.IH)
qed simp

locale pool_terminates = pool_invariant J env quiet Inv
  for J :: "('s, 'w) job" and env :: "'e \<Rightarrow> 's \<Rightarrow> 's" and quiet Inv +
  fixes dw :: "string \<Rightarrow> nat" and bw :: "'w \<Rightarrow> nat"
  assumes start_lower: "Suc (bw (jstart J d)) < dw d"
    and work_lower: "Inv ws s \<Longrightarrow> i < length ws \<Longrightarrow> ws ! i = WBusy w \<Longrightarrow> jwork J w s = Some (s', r) \<Longrightarrow>
        sum_list (map dw (jqueue J s')) + (case r of None \<Rightarrow> 0 | Some w' \<Rightarrow> Suc (bw w'))
        < sum_list (map dw (jqueue J s)) + Suc (bw w)"
begin

definition weight :: "'w worker list \<times> 's \<Rightarrow> nat" where
  "weight st = sum_list (map dw (jqueue J (snd st))) + sum_list (map (worker_weight bw) (fst st))"

definition patience :: "'w worker list \<times> 's \<Rightarrow> nat" where
  "patience st =
     sum_list (map (if jqueue J (snd st) = [] then idle_budget else stopped_count) (fst st))"

definition order :: "(('w worker list \<times> 's) \<times> ('w worker list \<times> 's)) set" where
  "order = measures [weight, patience]"

lemma wf_order: "wf order"
  by (simp add: order_def)

lemma event_lowers:
  assumes "pool_inv J Inv (ws, s)" and "pool_event J env ev (ws, s) = Some (ws', s')"
    and "\<And>e. ev \<noteq> Env e"
  shows "((ws', s'), (ws, s)) \<in> order"
proof (cases ev)
  case (Run i)
  obtain w where i: "i < length ws" and ok: "ws ! i \<noteq> WStopped" "ws ! i \<noteq> WHung"
    and res: "ws' = ws[i := w]" "worker_step J (ws ! i) s = (w, s')"
    using assms(2) Run by (auto split: if_splits prod.splits)
  have inv: "Inv ws s" using assms(1) by (simp add: pool_inv_def)
  note upd = sum_list_update [OF i, of "worker_weight bw" w] sum_list_update [OF i, of idle_budget w]
  show ?thesis
  proof (cases "ws ! i")
    case (WIdle t)
    show ?thesis
    proof (cases "jqueue J s = []")
      case True
      then have "s' = s" "w = WStopped \<or> t < 2 \<and> w = WIdle (Suc t)"
        using WIdle res(2) inv_stop [OF inv] by (auto simp: BQ_PopBack_def split: if_splits)
      then show ?thesis
        using True WIdle res(1) upd by (auto simp: order_def weight_def patience_def)
    next
      case False
      then have q: "jqueue J s = butlast (jqueue J s) @ [last (jqueue J s)]" by simp
      have "w = WBusy (jstart J (last (jqueue J s)))" "jqueue J s' = butlast (jqueue J s)"
        using False WIdle res(2) inv_stop [OF inv] by (auto simp: BQ_PopBack_def queue_set)
      then show ?thesis
        using WIdle res(1) upd(1) start_lower [of "last (jqueue J s)"]
          arg_cong [OF q, of "\<lambda>q. sum_list (map dw q)"]
        by (simp add: order_def weight_def)
    qed
  next
    case (WBusy v)
    obtain r where w: "jwork J v s = Some (s', r)" "w = (case r of None \<Rightarrow> WIdle 0 | Some w' \<Rightarrow> WBusy w')"
      using inv_work [OF inv i WBusy] WBusy res(2) by (auto split: option.splits)
    show ?thesis
      using work_lower [OF inv i WBusy w(1)] w(2) WBusy res(1) upd(1)
      by (simp add: order_def weight_def split: option.splits)
  qed (use ok in auto)
next
  case (Restart i)
  have i: "i < length ws" "ws ! i = WStopped" "jqueue J s \<noteq> []" "ws' = ws[i := WIdle 0]" "s' = s"
    using assms(2) Restart by (auto simp: BQ_Size_def split: if_splits)
  then show ?thesis
    using sum_list_update [OF i(1), of "worker_weight bw" "WIdle 0"] sum_list_update [OF i(1), of stopped_count "WIdle 0"]
    by (auto simp: order_def weight_def patience_def)
qed (use assms in auto)

lemma no_infinite_schedule:
  assumes "pool_inv J Inv st" and "\<And>n e. ev n \<noteq> Env e"
  shows "\<exists>n. run_events J env (map ev [0..<n]) st = None"
proof (rule ccontr)
  assume "\<nexists>n. run_events J env (map ev [0..<n]) st = None"
  then have "\<forall>n. \<exists>st'. run_events J env (map ev [0..<n]) st = Some st'" by auto
  then obtain f where f: "run_events J env (map ev [0..<n]) st = Some (f n)" for n by metis
  have "(f (Suc n), f n) \<in> order" for n
  proof -
    have ev: "pool_event J env (ev n) (f n) = Some (f (Suc n))"
      using f [of "Suc n"] f [of n] by (auto simp: run_events_append split: option.splits)
    have "list_all (event_ok quiet) (map ev [0..<n])"
      using assms(2) by (auto simp: list_all_iff event_ok_def split: sched.splits)
    then have "pool_inv J Inv (f n)" using assms(1) f [of n] run_keeps by blast
    then show ?thesis using ev assms(2) by (cases "f n"; cases "f (Suc n)") (auto intro: event_lowers)
  qed
  then show False using wf_order unfolding wf_iff_no_infinite_down_chain by blast
qed

lemma complete_schedule:
  assumes "pool_inv J Inv (ws, s)" and "WHung \<notin> set ws"
  shows "\<exists>es ws' s'. (\<forall>e. Env e \<notin> set es) \<and> run_events J env es (ws, s) = Some (ws', s') \<and> all_stopped ws'"
  using assms
proof (induction "(ws, s)" arbitrary: ws s rule: wf_induct_rule [OF wf_order])
  case 1
  show ?case
  proof (cases "all_stopped ws")
    case True
    then have "run_events J env [] (ws, s) = Some (ws, s)" by simp
    then show ?thesis using True by (intro exI [of _ "[]"] exI [of _ ws] exI [of _ s]) simp
  next
    case False
    then obtain i where i: "i < length ws" "ws ! i \<noteq> WStopped" "ws ! i \<noteq> WHung"
      using 1(3) nth_mem by (fastforce simp: all_stopped_def list_all_length)
    obtain ws1 s1 where ev: "pool_event J env (Run i) (ws, s) = Some (ws1, s1)"
      using i by (cases "worker_step J (ws ! i) s") auto
    have "pool_inv J Inv (ws1, s1)" using event_keeps [OF 1(2) _ ev] by (simp add: event_ok_def)
    moreover have "WHung \<notin> set ws1" using 1(2,3) ev by (rule no_worker_hangs)
    moreover have "((ws1, s1), (ws, s)) \<in> order" using event_lowers [OF 1(2) ev] by simp
    ultimately obtain es ws2 s2 where es: "\<forall>e. Env e \<notin> set es"
      "run_events J env es (ws1, s1) = Some (ws2, s2)" "all_stopped ws2"
      using 1(1) by blast
    have "run_events J env (Run i # es) (ws, s) = Some (ws2, s2)"
      using ev es(2) by (simp del: pool_event.simps)
    then show ?thesis using es(1,3) by (intro exI [of _ "Run i # es"] exI [of _ ws2] exI [of _ s2]) simp
  qed
qed

lemma every_run_completes:
  assumes inv: "pool_inv J Inv (replicate n (WIdle 0), s)" and es: "\<And>e. Env e \<notin> set es"
    and run: "run_events J env es (replicate n (WIdle 0), s) = Some st"
  shows "\<exists>es'. run_pool J env n (es @ es') s \<noteq> None"
proof -
  obtain ws s1 where st: "st = (ws, s1)" by fastforce
  have ok: "list_all (event_ok quiet) es"
    using es by (auto simp: list_all_iff event_ok_def split: sched.splits)
  have "WHung \<notin> set ws" using run_no_hang [OF inv ok _ run [unfolded st]] by simp
  moreover have "pool_inv J Inv (ws, s1)" using run_keeps [OF inv ok run] st by simp
  ultimately obtain es' ws' s' where "run_events J env es' (ws, s1) = Some (ws', s')" "all_stopped ws'"
    using complete_schedule by blast
  then have "run_pool J env n (es @ es') s = Some s'" using run st by (simp add: run_pool_def run_events_append)
  then show ?thesis by blast
qed

end

end
