(* ===== verification/Scan.thy ===== *)
theory Scan
  imports WorkPool UtilHash Proto "HOL-Library.Word"
begin

text \<open>
  \<^verbatim>\<open>src/src/impl/scan_manager.h\<close>: the parallel directory scan and its cache.  The header uses a
  message \<^verbatim>\<open>ScanStatus\<close>, a struct \<^verbatim>\<open>ScanContext\<close>, a field \<^verbatim>\<open>group\<close> of \<^verbatim>\<open>File\<close> and error codes that the
  repository does not declare: the records hold the fields the header uses, and the codes are a
  parameter.  The threads are workers of \<open>WorkPool\<close>, whose steps each contain at most one of the
  critical sections of the source.
\<close>

section \<open>Data\<close>

record FileG = File +
  f_group :: string

definition FileG_default :: FileG where
  "FileG_default = File.extend File_default \<lparr>f_group = ''''\<rparr>"

record Dir =
  d_path :: string
  d_update_time :: int
  d_user :: string
  d_group :: string
  d_files :: "(string \<times> FileG) list"
  d_visible_users :: "string list"

record ScanStatus =
  ss_uuid :: string
  ss_path :: string
  ss_scanned_dirs :: "(string \<times> Dir) list"
  ss_ignored_dirs :: "(string \<times> bool) list"
  ss_file_num :: int
  ss_symlink_num :: int
  ss_hash_method :: int
  ss_complete_time :: int

record ScanContext =
  sc_src :: string
  sc_dst :: string
  sc_status :: ScanStatus
  sc_hash_method :: HashMethod
  sc_sync_method :: SyncMethod
  sc_disable_scan_cache :: bool
  sc_skip_scan :: bool
  sc_ignored_dirs :: "string list"
  sc_max_threads :: nat
  sc_added_files :: "string list"
  sc_removed_files :: "string list"
  sc_dir_queue :: "string bqueue"
  sc_scanned_dir_num :: int
  sc_skip_dir_num :: int
  sc_err_code :: int

record ScanManager =
  scanning :: "32 word"
  scan_stop :: bool

text \<open>The codes that the sources use and \<^verbatim>\<open>error.proto\<close> does not declare.\<close>

record err_codes =
  Err_File_permission_or_not_exists :: int
  Err_File_hash_calc_error :: int
  Err_Scan_busy :: int
  Err_Scan_dump_error :: int
  Err_Scan_interrupted :: int
  Err_Serialize_error :: int
  Err_File_not_absolute :: int
  Err_Sync_interrupted :: int
  Err_File_copy_error :: int
  Err_File_mkdir_error :: int
  Err_File_create_symlink_error :: int
  Err_File_partition_size_error :: int

text \<open>An error code is not the code of success.\<close>

definition codes_ok :: "err_codes \<Rightarrow> bool" where
  "codes_ok c \<longleftrightarrow>
     Err_Success \<notin> {Err_File_permission_or_not_exists c, Err_File_hash_calc_error c, Err_Scan_busy c,
       Err_Scan_dump_error c, Err_Scan_interrupted c, Err_Serialize_error c, Err_File_not_absolute c,
       Err_Sync_interrupted c, Err_File_copy_error c, Err_File_mkdir_error c,
       Err_File_create_symlink_error c, Err_File_partition_size_error c}"

text \<open>
  The libraries the scan calls.  \<open>sl_serialize\<close> and \<open>sl_parse\<close> are \<^verbatim>\<open>SerializeToString\<close> and
  \<^verbatim>\<open>ParseFromString\<close> of \<^verbatim>\<open>ScanStatus\<close>; a failed parse leaves some message behind.
\<close>

record ('c, 'z) scan_libs =
  sl_codes :: err_codes
  sl_evp :: "'c evp_api"
  sl_fmt :: fmt_hex_fn
  sl_db :: userdb
  sl_boost :: boost_api
  sl_lzma :: "'z lzma_api"
  sl_serialize :: "ScanStatus \<Rightarrow> string option"
  sl_parse :: "string \<Rightarrow> bool \<times> ScanStatus"

text \<open>
  The shared state of a scan: the context, the file system, \<^verbatim>\<open>last_time\<close> of the dump task and
  \<^verbatim>\<open>stop_\<close> of the manager.
\<close>

record scan_st =
  st_ctx :: ScanContext
  st_fs :: fs
  st_last_dump :: int
  st_stop :: bool

definition hash_no :: "HashMethod \<Rightarrow> int" where
  "hash_no h =
     (case h of Hash_NONE \<Rightarrow> 0 | Hash_CRC32 \<Rightarrow> 1 | Hash_MD5 \<Rightarrow> 2 | Hash_SHA256 \<Rightarrow> 3 | Hash_BLAKE3 \<Rightarrow> 4)"

definition map_status :: "(ScanStatus \<Rightarrow> ScanStatus) \<Rightarrow> ScanContext \<Rightarrow> ScanContext" where
  "map_status f ctx = ctx\<lparr>sc_status := f (sc_status ctx)\<rparr>"

definition scanned_dirs :: "ScanContext \<Rightarrow> (string \<times> Dir) list" where
  "scanned_dirs ctx = ss_scanned_dirs (sc_status ctx)"

definition set_scanned_dirs :: "(string \<times> Dir) list \<Rightarrow> ScanContext \<Rightarrow> ScanContext" where
  "set_scanned_dirs m ctx = map_status (\<lambda>st. st\<lparr>ss_scanned_dirs := m\<rparr>) ctx"

section \<open>The cached status\<close>

definition GenFileName :: "('c, 'z) scan_libs \<Rightarrow> string \<Rightarrow> string" where
  "GenFileName L path =
     path @ ''/'' @ CONFIG_DIR @ ''/'' @ SHA256 (sl_evp L) (sl_fmt L) path False"

text \<open>
  \<open>None\<close>: the decompression does not end; \<open>Inl\<close>: the exception of reading a directory.
\<close>

definition LoadCachedScanStatus ::
  "('c, 'z) scan_libs \<Rightarrow> fs \<Rightarrow> ScanContext \<Rightarrow> (errno + bool \<times> ScanContext) option" where
  "LoadCachedScanStatus L s ctx =
     (let cached_status_path = GenFileName L (sc_src ctx)
      in if \<not> Exists s cached_status_path then Some (Inr (False, ctx))
         else case LoadSmallFile s cached_status_path '''' of
                Inl e \<Rightarrow> Some (Inl e)
              | Inr (ok, content) \<Rightarrow>
                  if \<not> ok then Some (Inr (False, ctx))
                  else case LZMADecompress (sl_lzma L) content '''' of
                         None \<Rightarrow> None
                       | Some (good, decompressed_content) \<Rightarrow>
                           if \<not> good then Some (Inr (False, ctx))
                           else case sl_parse L decompressed_content of
                                  (False, status) \<Rightarrow> Some (Inr (False, ctx\<lparr>sc_status := status\<rparr>))
                                | (True, status) \<Rightarrow>
                                    Some (Inr (True, ctx\<lparr>sc_status := status\<lparr>ss_ignored_dirs :=
                                      fold (\<lambda>dir. pmap_insert dir True) (sc_ignored_dirs ctx)
                                        (ss_ignored_dirs status)\<rparr>\<rparr>)))"

definition count_files :: "(FileType \<Rightarrow> bool) \<Rightarrow> (string \<times> Dir) list \<Rightarrow> int" where
  "count_files P dirs =
     int (length (filter (\<lambda>(n, f). P (f_file_type f)) (concat (map (\<lambda>(k, d). d_files d) dirs))))"

definition ValidateScanStatus ::
  "('c, 'z) scan_libs \<Rightarrow> fs \<Rightarrow> ScanContext \<Rightarrow> (errno + bool \<times> ScanContext) option" where
  "ValidateScanStatus L s ctx =
     (if \<not> Exists s (sc_src ctx) then Some (Inr (False, ctx))
      else case LoadCachedScanStatus L s ctx of
             None \<Rightarrow> None
           | Some (Inl e) \<Rightarrow> Some (Inl e)
           | Some (Inr (ok, ctx1)) \<Rightarrow>
               let status = sc_status ctx1; dirs = ss_scanned_dirs status
               in if \<not> ok then Some (Inr (False, ctx1))
                  else if ss_path status \<noteq> sc_src ctx1 then Some (Inr (False, ctx1))
                  else if list_ex (\<lambda>(k, d). k \<noteq> d_path d \<or> IsAbsolute k) dirs then Some (Inr (False, ctx1))
                  else Some (Inr (count_files (\<lambda>t. t = FT_Regular) dirs = ss_file_num status
                                  \<and> count_files (\<lambda>t. t \<noteq> FT_Regular) dirs = ss_symlink_num status, ctx1)))"

definition SumStatus :: "ScanContext \<Rightarrow> ScanContext" where
  "SumStatus ctx =
     map_status (\<lambda>st. st\<lparr>ss_file_num := count_files (\<lambda>t. t = FT_Regular) (scanned_dirs ctx),
                         ss_symlink_num := count_files (\<lambda>t. t \<noteq> FT_Regular) (scanned_dirs ctx)\<rparr>) ctx"

text \<open>\<open>uuid\<close> is what \<^verbatim>\<open>Util::UUID\<close> returns for this call.\<close>

definition Dump :: "('c, 'z) scan_libs \<Rightarrow> string \<Rightarrow> ScanContext \<Rightarrow> fs \<Rightarrow> int \<times> ScanContext \<times> fs" where
  "Dump L uuid ctx s =
     (let path = GenFileName L (sc_src ctx);
          ctx1 = (if ss_uuid (sc_status ctx) = '''' then map_status (\<lambda>st. st\<lparr>ss_uuid := uuid\<rparr>) ctx else ctx);
          (cp_ret, s1) = (if Exists s path then CopyFile path (path @ ''.tmp'') Copy_overwrite_existing s
                          else (True, s));
          ctx2 = SumStatus ctx1
      in case sl_serialize L (sc_status ctx2) of
           None \<Rightarrow> (Err_Serialize_error (sl_codes L), ctx2, s1)
         | Some content \<Rightarrow>
             let (_, compressed_content) = LZMACompress (sl_lzma L) content '''';
                 (r1, s2) = WriteToFile path compressed_content False s1
             in if r1 = Err_Success then (Err_Success, ctx2, s2)
                else let (r2, s3) = WriteToFile path compressed_content False s2
                     in if r2 = Err_Success then (Err_Success, ctx2, s3)
                        else (Err_Scan_dump_error (sl_codes L), ctx2,
                              if cp_ret then snd (CopyFile (path @ ''.tmp'') path Copy_overwrite_existing s3)
                              else s3))"

text \<open>
  What happens beside the workers: a round of \<^verbatim>\<open>DumpTask\<close> (the clock when it wakes, the uuid, the clock
  after the dump), and \<^verbatim>\<open>Stop\<close>, which sets \<^verbatim>\<open>stop_\<close> and waits for the scans to end.
\<close>

datatype scan_event = DumpTask int string int | Stop

fun scan_env_step :: "('c, 'z) scan_libs \<Rightarrow> scan_event \<Rightarrow> scan_st \<Rightarrow> scan_st" where
  "scan_env_step L (DumpTask cur_time uuid after) st =
     (if cur_time - st_last_dump st > 10 * 60 * 1000 then
        let (_, ctx, s) = Dump L uuid (st_ctx st) (st_fs st)
        in st\<lparr>st_ctx := ctx, st_fs := s, st_last_dump := after\<rparr>
      else st)"
| "scan_env_step L Stop st = st\<lparr>st_stop := True\<rparr>"

section \<open>Items\<close>

definition no_info :: file_info where
  "no_info = \<lparr>fi_update_time = 0, fi_size = 0, fi_owner = ('''', '''')\<rparr>"

definition AddDirItem ::
  "('c, 'z) scan_libs \<Rightarrow> fs \<Rightarrow> string \<Rightarrow> string \<Rightarrow> ScanContext \<Rightarrow> int \<times> ScanContext" where
  "AddDirItem L s path relative_path ctx =
     (let (ok, info) = FileInfo (sl_db L) s path True no_info
      in if \<not> ok then (Err_File_permission_or_not_exists (sl_codes L), ctx)
         else let dir = \<lparr>d_path = relative_path, d_update_time = fi_update_time info,
                         d_user = fst (fi_owner info), d_group = snd (fi_owner info),
                         d_files = [], d_visible_users = []\<rparr>;
                  ctx1 = set_scanned_dirs (AList.update relative_path dir (scanned_dirs ctx)) ctx
              in (Err_Success,
                  if map_of (scanned_dirs ctx) relative_path \<noteq> None then ctx1
                  else ctx1\<lparr>sc_added_files := set_insert path (sc_added_files ctx1)\<rparr>))"

text \<open>The code and the new value of \<^verbatim>\<open>file_hash\<close>.\<close>

definition CalcHash ::
  "('c, 'z) scan_libs \<Rightarrow> fs \<Rightarrow> string \<Rightarrow> HashMethod \<Rightarrow> string \<Rightarrow> int \<times> string" where
  "CalcHash L s path hash_method out =
     (let code = (\<lambda>(ok, h). (if ok then Err_Success else Err_File_hash_calc_error (sl_codes L), h))
      in if hash_method = Hash_SHA256 then code (FileSHA256 (sl_evp L) (sl_fmt L) s path False out)
         else if hash_method = Hash_BLAKE3 then code (FileMD5 (sl_evp L) (sl_fmt L) s path False out)
         else if hash_method = Hash_MD5 then code (FileMD5 (sl_evp L) (sl_fmt L) s path False out)
         else if hash_method = Hash_CRC32 then code (FileMD5 (sl_evp L) (sl_fmt L) s path False out)
         else (Err_Success, out))"

text \<open>The part of \<^verbatim>\<open>AddFileItem\<close> before the lock: the item itself.\<close>

definition file_item ::
  "('c, 'z) scan_libs \<Rightarrow> fs \<Rightarrow> HashMethod \<Rightarrow> string \<Rightarrow> string \<Rightarrow> FileType \<Rightarrow> int + FileG" where
  "file_item L s hash_method path file_name file_type =
     (let (ok, info) = FileInfo (sl_db L) s path True no_info
      in if \<not> ok then Inl (Err_File_permission_or_not_exists (sl_codes L))
         else let (ret, h) = CalcHash L s path hash_method ''''
              in if ret \<noteq> Err_Success then Inl ret
                 else Inr (FileG_default\<lparr>f_file_name := file_name, f_update_time := fi_update_time info,
                        f_file_size := fi_size info, f_file_type := file_type, f_file_hash := h,
                        f_user := fst (fi_owner info), f_group := snd (fi_owner info)\<rparr>))"

definition AddFileItem ::
  "('c, 'z) scan_libs \<Rightarrow> fs \<Rightarrow> string \<Rightarrow> FileType \<Rightarrow> string \<Rightarrow> ScanContext \<Rightarrow> int \<times> ScanContext" where
  "AddFileItem L s file_name file_type parent_relative_path ctx =
     (let path = sc_src ctx @ ''/'' @ parent_relative_path @ ''/'' @ file_name
      in case file_item L s (sc_hash_method ctx) path file_name file_type of
           Inl ret \<Rightarrow> (ret, ctx)
         | Inr file \<Rightarrow>
             (case map_of (scanned_dirs ctx) parent_relative_path of
                None \<Rightarrow> (Err_Fail, ctx)
              | Some dir \<Rightarrow>
                  let dir1 = dir\<lparr>d_files := AList.update file_name file (d_files dir)\<rparr>;
                      ctx1 = set_scanned_dirs (AList.update parent_relative_path dir1 (scanned_dirs ctx)) ctx
                  in (Err_Success,
                      if map_of (d_files dir) file_name \<noteq> None then ctx1
                      else ctx1\<lparr>sc_added_files := set_insert path (sc_added_files ctx1)\<rparr>)))"

definition RemoveDir :: "string \<Rightarrow> string \<Rightarrow> ScanContext \<Rightarrow> int \<times> ScanContext" where
  "RemoveDir cur_dir relative_path ctx =
     (let removed = set_insert cur_dir (sc_removed_files ctx)
      in case map_of (scanned_dirs ctx) relative_path of
           None \<Rightarrow> (Err_Success, ctx\<lparr>sc_removed_files := removed\<rparr>)
         | Some dir \<Rightarrow>
             (Err_Success,
              set_scanned_dirs (AList.delete relative_path (scanned_dirs ctx))
                (ctx\<lparr>sc_removed_files := fold (\<lambda>(n, f). set_insert (cur_dir @ ''/'' @ n)) (d_files dir) removed\<rparr>)))"

definition RemoveFile :: "string \<Rightarrow> string list \<Rightarrow> string \<Rightarrow> ScanContext \<Rightarrow> int \<times> ScanContext" where
  "RemoveFile cur_dir files relative_path ctx =
     (case map_of (scanned_dirs ctx) relative_path of
        None \<Rightarrow> (Err_Fail, ctx)
      | Some dir \<Rightarrow>
          let gone = filter (\<lambda>(n, f). n \<notin> set files) (d_files dir);
              dir1 = dir\<lparr>d_files := filter (\<lambda>(n, f). n \<in> set files) (d_files dir)\<rparr>
          in (Err_Success,
              set_scanned_dirs (AList.update relative_path dir1 (scanned_dirs ctx))
                (ctx\<lparr>sc_removed_files :=
                   fold (\<lambda>(n, f). set_insert (cur_dir @ ''/'' @ n)) gone (sc_removed_files ctx)\<rparr>)))"

section \<open>The workers\<close>

text \<open>
  The entries a \<^verbatim>\<open>directory_iterator\<close> delivers: the names with the file types of the directory
  itself, which \<^verbatim>\<open>is_symlink\<close> and, for what is not a symbolic link, \<^verbatim>\<open>is_regular_file\<close> and
  \<^verbatim>\<open>is_directory\<close> use.  \<^verbatim>\<open>entry.path()\<close> appends the name to the path of the iterator.
\<close>

definition fs_entries :: "fs \<Rightarrow> string \<Rightarrow> errno + (string \<times> fkind) list" where
  "fs_entries s path =
     (case resolve s True path of
        Inl e \<Rightarrow> Inl e
      | Inr p \<Rightarrow>
          (case kind_at (fs_nodes s) p of
             None \<Rightarrow> Inl ENOENT
           | Some k \<Rightarrow>
               if k = KDir
               then Inr (map (\<lambda>(q, n). (last q, nkind n)) (filter (\<lambda>(q, n). q \<noteq> [] \<and> butlast q = p) (fs_nodes s)))
               else Inl ENOTDIR))"

definition entry_path :: "string \<Rightarrow> string \<Rightarrow> string" where
  "entry_path dir name = (if dir = '''' \<or> last dir = slash then dir @ name else dir @ ''/'' @ name)"

text \<open>
  Where a thread is in the loop body of \<^verbatim>\<open>ParallelFullScan\<close>: before the checks, before
  \<^verbatim>\<open>AddDirItem\<close>, in the iteration (entries left, \<^verbatim>\<open>ret\<close>, \<^verbatim>\<open>files\<close>), before the last assignment of the time.
\<close>

datatype scan_phase =
  PCheck string
  | PAdd string string int
  | PEntries string string int "(string \<times> fkind) list" int "string list"
  | PTouch string int

definition scan_check ::
  "('c, 'z) scan_libs \<Rightarrow> string \<Rightarrow> scan_st \<Rightarrow> (scan_st \<times> scan_phase option) option" where
  "scan_check L cur_dir st =
     (let ctx = st_ctx st
      in case Relative (sl_boost L) cur_dir (sc_src ctx) of
           None \<Rightarrow> None
         | Some (_, relative_path) \<Rightarrow>
             let ctx1 = ctx\<lparr>sc_scanned_dir_num := sc_scanned_dir_num ctx + 1\<rparr>;
                 update_time = UpdateTime (st_fs st) cur_dir
             in if map_of (ss_ignored_dirs (sc_status ctx1)) relative_path \<noteq> None
                then Some (st\<lparr>st_ctx := ctx1\<rparr>, None)
                else if \<not> Exists (st_fs st) cur_dir
                then Some (st\<lparr>st_ctx := snd (RemoveDir cur_dir relative_path ctx1)\<rparr>, None)
                else if update_time = - 1
                then Some (st\<lparr>st_ctx := ctx1\<lparr>sc_err_code := Err_File_permission_or_not_exists (sl_codes L)\<rparr>\<rparr>, None)
                else case map_of (scanned_dirs ctx1) relative_path of
                       None \<Rightarrow> Some (st\<lparr>st_ctx := ctx1\<rparr>, Some (PAdd cur_dir relative_path update_time))
                     | Some dir \<Rightarrow>
                         if d_update_time dir = update_time
                            \<and> hash_no (sc_hash_method ctx1) = ss_hash_method (sc_status ctx1)
                         then Some (st\<lparr>st_ctx := ctx1\<lparr>sc_skip_dir_num := sc_skip_dir_num ctx1 + 1\<rparr>\<rparr>, None)
                         else Some (st\<lparr>st_ctx := ctx1\<rparr>, Some (PAdd cur_dir relative_path update_time)))"

text \<open>An exception of the iterator is caught and logged; the round ends there.\<close>

definition scan_add ::
  "('c, 'z) scan_libs \<Rightarrow> string \<Rightarrow> string \<Rightarrow> int \<Rightarrow> scan_st \<Rightarrow> scan_st \<times> scan_phase option" where
  "scan_add L cur_dir relative_path update_time st =
     (case AddDirItem L (st_fs st) cur_dir relative_path (st_ctx st) of
        (ret, ctx) \<Rightarrow>
          if ret \<noteq> Err_Success then (st\<lparr>st_ctx := ctx\<lparr>sc_err_code := ret\<rparr>\<rparr>, None)
          else case fs_entries (st_fs st) cur_dir of
                 Inl e \<Rightarrow> (st\<lparr>st_ctx := ctx\<rparr>, None)
               | Inr entries \<Rightarrow>
                   (st\<lparr>st_ctx := ctx\<rparr>, Some (PEntries cur_dir relative_path update_time entries Err_Success [])))"

definition scan_entry ::
  "('c, 'z) scan_libs \<Rightarrow> fs \<Rightarrow> string \<Rightarrow> string \<Rightarrow> string \<times> fkind \<Rightarrow> int \<Rightarrow> ScanContext \<Rightarrow> int \<times> ScanContext" where
  "scan_entry L s cur_dir relative_path entry ret ctx =
     (case entry of (file_name, kind) \<Rightarrow>
        (case kind of
           KLink t \<Rightarrow>
             (case AddFileItem L s file_name FT_Symlink relative_path ctx of (r, ctx1) \<Rightarrow> (or ret r, ctx1))
         | KReg d \<Rightarrow>
             (case AddFileItem L s file_name FT_Regular relative_path ctx of (r, ctx1) \<Rightarrow> (or ret r, ctx1))
         | KDir \<Rightarrow> (ret, ctx\<lparr>sc_dir_queue := BQ_PushBack (entry_path cur_dir file_name) (sc_dir_queue ctx)\<rparr>)
         | KSock \<Rightarrow> (ret, ctx)))"

definition touch_dir :: "string \<Rightarrow> int \<Rightarrow> ScanContext \<Rightarrow> ScanContext" where
  "touch_dir relative_path update_time ctx =
     (case map_of (scanned_dirs ctx) relative_path of
        None \<Rightarrow> ctx
      | Some dir \<Rightarrow>
          set_scanned_dirs (AList.update relative_path (dir\<lparr>d_update_time := update_time\<rparr>) (scanned_dirs ctx)) ctx)"

fun ParallelFullScan_step ::
  "('c, 'z) scan_libs \<Rightarrow> scan_phase \<Rightarrow> scan_st \<Rightarrow> (scan_st \<times> scan_phase option) option" where
  "ParallelFullScan_step L (PCheck cur_dir) st = scan_check L cur_dir st"
| "ParallelFullScan_step L (PAdd cur_dir relative_path update_time) st =
     Some (scan_add L cur_dir relative_path update_time st)"
| "ParallelFullScan_step L (PEntries cur_dir relative_path update_time (e # es) ret files) st =
     (case scan_entry L (st_fs st) cur_dir relative_path e ret (st_ctx st) of
        (ret1, ctx) \<Rightarrow>
          Some (st\<lparr>st_ctx := ctx\<rparr>,
                Some (PEntries cur_dir relative_path update_time es ret1 (set_insert (fst e) files))))"
| "ParallelFullScan_step L (PEntries cur_dir relative_path update_time [] ret files) st =
     Some (if ret \<noteq> Err_Success then (st\<lparr>st_ctx := (st_ctx st)\<lparr>sc_err_code := ret\<rparr>\<rparr>, None)
           else (st\<lparr>st_ctx := snd (RemoveFile cur_dir files relative_path (st_ctx st))\<rparr>,
                 Some (PTouch relative_path update_time)))"
| "ParallelFullScan_step L (PTouch relative_path update_time) st =
     Some (st\<lparr>st_ctx := touch_dir relative_path update_time (st_ctx st)\<rparr>, None)"

definition ParallelFullScan :: "('c, 'z) scan_libs \<Rightarrow> (scan_st, scan_phase) job" where
  "ParallelFullScan L =
     \<lparr>jqueue = (\<lambda>st. sc_dir_queue (st_ctx st)),
      jset_queue = (\<lambda>q st. st\<lparr>st_ctx := (st_ctx st)\<lparr>sc_dir_queue := q\<rparr>\<rparr>),
      jstop = st_stop,
      jinterrupt = (\<lambda>st. st\<lparr>st_ctx := (st_ctx st)\<lparr>sc_err_code := Err_Scan_interrupted (sl_codes L)\<rparr>\<rparr>),
      jstart = PCheck, jwork = ParallelFullScan_step L\<rparr>"

section \<open>ParallelScan\<close>

text \<open>
  What the environment supplies: the schedule of the threads (with the rounds of the dump task),
  the clock at the start and at the end, and the uuid of the last dump.  \<open>None\<close>: the call does not
  return (or the schedule stops before the workers do); \<open>Inl\<close>: an exception leaves it.
\<close>

record scan_env =
  se_schedule :: "scan_event sched list"
  se_start :: int
  se_complete :: int
  se_uuid :: string

type_synonym scan_result = "(errno + int) \<times> ScanManager \<times> ScanContext \<times> fs"

definition start_queue :: "ScanContext \<Rightarrow> ScanContext" where
  "start_queue ctx =
     ctx\<lparr>sc_dir_queue :=
       fold (\<lambda>(k, d) q. if k = '''' then q else BQ_PushBack (sc_src ctx @ ''/'' @ k) q) (scanned_dirs ctx)
         (BQ_PushBack (sc_src ctx) (sc_dir_queue ctx))\<rparr>"

definition finish_scan ::
  "('c, 'z) scan_libs \<Rightarrow> scan_env \<Rightarrow> ScanManager \<Rightarrow> scan_st \<Rightarrow> scan_result" where
  "finish_scan L E m st =
     (let ctx = st_ctx st;
          ctx1 = (if sc_err_code ctx = Err_Success
                  then map_status (\<lambda>s. s\<lparr>ss_complete_time := se_complete E, ss_hash_method := hash_no (sc_hash_method ctx)\<rparr>) ctx
                  else ctx);
          (r, ctx2, s) = Dump L (se_uuid E) ctx1 (st_fs st);
          ctx3 = (if r \<noteq> Err_Success then ctx2\<lparr>sc_err_code := Err_Scan_dump_error (sl_codes L)\<rparr> else ctx2)
      in (Inr (sc_err_code ctx3), m\<lparr>scanning := scanning m - 1, scan_stop := st_stop st\<rparr>, ctx3, s))"

text \<open>The context after the cache was loaded, when it is used.\<close>

definition cached_context ::
  "('c, 'z) scan_libs \<Rightarrow> fs \<Rightarrow> ScanContext \<Rightarrow> (errno + bool \<times> ScanContext) option" where
  "cached_context L s ctx =
     (if sc_disable_scan_cache ctx then Some (Inr (True, ctx)) else LoadCachedScanStatus L s ctx)"

definition ParallelScan ::
  "('c, 'z) scan_libs \<Rightarrow> scan_env \<Rightarrow> ScanManager \<Rightarrow> ScanContext \<Rightarrow> fs \<Rightarrow> scan_result option" where
  "ParallelScan L E m ctx s =
     (if \<not> Exists s (sc_src ctx) then Some (Inr Err_File_not_exists, m, ctx, s)
      else case fs_is_directory s (sc_src ctx) of
             Inl e \<Rightarrow> Some (Inl e, m, ctx, s)
           | Inr isdir \<Rightarrow>
               if \<not> isdir then Some (Inr Err_File_not_dir, m, ctx, s)
               else if scanning m > 0 then Some (Inr (Err_Scan_busy (sl_codes L)), m, ctx, s)
               else
                 let m1 = m\<lparr>scanning := scanning m + 1\<rparr>
                 in case cached_context L s ctx of
                      None \<Rightarrow> None
                    | Some (Inl e) \<Rightarrow> Some (Inl e, m1, ctx, s)
                    | Some (Inr (load_cache_success, ctx1)) \<Rightarrow>
                        if load_cache_success \<and> sc_skip_scan ctx1 then Some (Inr Err_Success, m1, ctx1, s)
                        else case run_pool (ParallelFullScan L) (scan_env_step L) (sc_max_threads ctx1)
                                    (se_schedule E)
                                    \<lparr>st_ctx = start_queue ctx1, st_fs = s, st_last_dump = se_start E,
                                     st_stop = scan_stop m1\<rparr> of
                               None \<Rightarrow> None
                             | Some st \<Rightarrow> Some (finish_scan L E m1 st))"

section \<open>Example libraries\<close>

definition demo_codes :: err_codes where
  "demo_codes =
     \<lparr>Err_File_permission_or_not_exists = 21, Err_File_hash_calc_error = 22, Err_Scan_busy = 23,
      Err_Scan_dump_error = 24, Err_Scan_interrupted = 25, Err_Serialize_error = 26,
      Err_File_not_absolute = 27, Err_Sync_interrupted = 28, Err_File_copy_error = 29,
      Err_File_mkdir_error = 30, Err_File_create_symlink_error = 31, Err_File_partition_size_error = 32\<rparr>"

definition demo_status :: ScanStatus where
  "demo_status =
     \<lparr>ss_uuid = '''', ss_path = ''/a'', ss_scanned_dirs = [], ss_ignored_dirs = [], ss_file_num = 0,
      ss_symlink_num = 0, ss_hash_method = 0, ss_complete_time = 0\<rparr>"

definition demo_scan_libs :: "(evp_md \<times> bytes, bytes) scan_libs" where
  "demo_scan_libs =
     \<lparr>sl_codes = demo_codes, sl_evp = evp_buffer (\<lambda>ty b. ''h''), sl_fmt = hex_pad,
      sl_db = \<lparr>pw_name = (\<lambda>_. Some ''u''), gr_name = (\<lambda>_. Some ''g'')\<rparr>, sl_boost = boost_ref,
      sl_lzma = lzma_store, sl_serialize = (\<lambda>st. Some ''s''), sl_parse = (\<lambda>x. (False, demo_status))\<rparr>"

end
