(* ===== verification/ScanExact.thy ===== *)
theory ScanExact
  imports Scan
begin

text \<open>
  What a finished scan has recorded: for every schedule of the threads, the table of scanned
  directories is exactly the tree below the source.
\<close>

section \<open>Names of the directories below a directory\<close>

definition rel_name :: "string list \<Rightarrow> string" where
  "rel_name cs = join_with ''/'' cs"

lemma render_Cons: "p \<noteq> [] \<Longrightarrow> render (c # p) = slash # c @ render p"
  by (simp add: render_def)

lemma render_join: "p \<noteq> [] \<Longrightarrow> render p = ''/'' @ join_with ''/'' p"
proof (induction p rule: induct_list012)
  case (3 x y zs)
  then show ?case by (simp add: render_Cons)
qed (simp_all add: render_def)

lemma plain_at_render:
  assumes "list_all plain_name p"
  shows "plain_at (render p) p"
proof (cases "p = []")
  case True
  then show ?thesis by (simp add: plain_at_def render_def is_absolute_def walk_comps_def)
next
  case False
  then show ?thesis using plain_at_join [OF assms False] by (simp add: render_join)
qed

lemma render_append: "p \<noteq> [] \<Longrightarrow> cs \<noteq> [] \<Longrightarrow> render (p @ cs) = render p @ slash # rel_name cs"
proof -
  assume "p \<noteq> []" "cs \<noteq> []"
  moreover from \<open>cs \<noteq> []\<close> have "concat (map (\<lambda>c. slash # c) cs) = slash # rel_name cs"
    using render_join [of cs] by (simp add: render_def rel_name_def)
  ultimately show ?thesis by (simp add: render_def)
qed

lemma plain_render_end:
  assumes "list_all plain_name p" and "p \<noteq> []"
  shows "render p \<noteq> []" and "last (render p) \<noteq> slash" and "unified (render p)"
proof -
  have pl: "\<forall>t \<in> set p. plain_name t" using assms(1) by (simp add: list_all_iff)
  have r: "render_path True p = render p" using assms by (simp add: render_path_def render_join)
  show "unified (render p)" using render_unified [OF pl, of True] r by simp
  show "render p \<noteq> []" using assms by (simp add: render_join)
  show "last (render p) \<noteq> slash" using join_names_shape [OF assms(2) pl] assms(2) by (simp add: render_join)
qed

lemma rel_name_inj:
  assumes "list_all plain_name cs" and "list_all plain_name ds" and "rel_name cs = rel_name ds"
  shows "cs = ds"
proof -
  have "split_on slash (rel_name cs) = (if cs = [] then [[]] else cs)" if "list_all plain_name cs" for cs
    using that split_join [of cs slash] by (auto simp: rel_name_def list_all_iff plain_name_def)
  then show ?thesis
    using assms by (metis list.pred_inject(2) list.sel(1) plain_name_def)
qed

lemma rel_name_Nil [simp]: "rel_name [] = []"
  by (simp add: rel_name_def)

lemma rel_name_empty: "list_all plain_name cs \<Longrightarrow> rel_name cs = [] \<Longrightarrow> cs = []"
  using rel_name_inj [of cs "[]"] by simp

lemma entry_path_render:
  assumes "list_all plain_name p" and "p \<noteq> []"
  shows "entry_path (render p) n = render (p @ [n])"
  using plain_render_end [OF assms] assms(2) by (simp add: entry_path_def render_append rel_name_def)

lemma Relative_render:
  assumes "boost_string B" and "list_all plain_name (p @ cs)" and "p \<noteq> []"
  shows "Relative B (render (p @ cs)) (render p) = Some (True, rel_name cs)"
proof (cases "cs = []")
  case True
  have p: "list_all plain_name p" using assms(2) by simp
  have u: "UnifyDir B (render p) = render p"
    using boost_string.unify_unified [OF assms(1)] plain_render_end(3) [OF p assms(3)] by blast
  have "UnifyDir B [] = []"
    using boost_string.unify_unified [OF assms(1), of "[]"] by (simp add: unified_def)
  moreover have "FindCommonRoot B (render p) (render p) = Some (render p)"
    using boost_string.common_root_unfold [OF assms(1), of "render p" "render p"] by simp
  moreover have "climb_to (render p) (render p) [] = Some []" by (simp add: climb_to.simps)
  ultimately show ?thesis using True plain_render_end(1) [OF p assms(3)] by (simp add: Relative_def u Let_def)
next
  case False
  have p: "list_all plain_name p" using assms(2) by simp
  have "list_all plain_name cs" using assms(2) by simp
  then have "rel_name cs \<noteq> []" using rel_name_empty False by blast
  moreover have "unified (render (p @ cs))" using assms(2,3) by (intro plain_render_end) auto
  ultimately have "Relative B (render p @ slash # rel_name cs) (child_path (render p) [])
      = Some (True, ups (length ([] :: string list)) @ rel_name cs)"
    using plain_render_end [OF p assms(3)] False assms(3)
    by (intro boost_string.relative_child_path [OF assms(1)]) (simp_all add: render_append)
  then show ?thesis using False assms(3) by (simp add: render_append)
qed

lemma item_path_plain:
  assumes "list_all plain_name (p @ cs @ [n])" and "p \<noteq> []"
  shows "plain_at (render p @ ''/'' @ rel_name cs @ ''/'' @ n) (p @ cs @ [n])"
proof (cases "cs = []")
  case False
  then have "render p @ ''/'' @ rel_name cs @ ''/'' @ n = render (p @ cs @ [n])"
    using assms(2) render_append [of "p @ cs" "[n]"] by (simp add: render_append rel_name_def)
  then show ?thesis using plain_at_render [OF assms(1)] by simp
next
  case True
  have pl: "plain_at (render (p @ [n])) (p @ [n])" using assms(1) True by (intro plain_at_render) simp
  have eq: "render (p @ [n]) = render p @ slash # n" using assms(2) by (simp add: render_append rel_name_def)
  have n: "n \<noteq> []" "last n \<noteq> slash" using assms(1) plain_name_ends [of n] by auto
  have "walk_comps (render p @ slash # slash # n) = walk_comps (render p @ slash # n)"
    using n by (simp add: walk_comps_def split_on_append_sep)
  moreover have "is_absolute (render p @ slash # slash # n)"
    using assms(2) by (simp add: render_join is_absolute_def)
  ultimately show ?thesis using pl True eq by (simp add: plain_at_def)
qed


section \<open>The tree below the source\<close>

definition ents :: "fnodes \<Rightarrow> fpath \<Rightarrow> (string \<times> fkind) list" where
  "ents N q = map (\<lambda>(q', n). (last q', nkind n)) (filter (\<lambda>(q', n). q' \<noteq> [] \<and> butlast q' = q) N)"

lemma ents_iff:
  assumes "wf_nodes N"
  shows "(n, k) \<in> set (ents N q) \<longleftrightarrow> kind_at N (q @ [n]) = Some k"
proof -
  have "kind_at N (q @ [n]) = Some k \<longleftrightarrow> (\<exists>v. (q @ [n], v) \<in> set N \<and> nkind v = k)"
    using assms by (auto simp: kind_at_def node_at_def wf_nodes_def)
  moreover have "(n, k) \<in> set (ents N q) \<longleftrightarrow> (\<exists>q' v. (q', v) \<in> set N \<and> q' = q @ [n] \<and> nkind v = k)"
  proof -
    have "q' = q @ [n] \<longleftrightarrow> q' \<noteq> [] \<and> butlast q' = q \<and> last q' = n" for q'
      by (cases q' rule: rev_cases) auto
    then show ?thesis unfolding ents_def by (fastforce simp: image_iff)
  qed
  ultimately show ?thesis by blast
qed

lemma distinct_ents:
  assumes "wf_nodes N"
  shows "distinct (map fst (ents N q))"
proof -
  let ?M = "filter (\<lambda>(q', n). q' \<noteq> [] \<and> butlast q' = q) N"
  have "distinct (map fst ?M)" using assms distinct_map_filter by (auto simp: wf_nodes_def)
  moreover have "inj_on last (set (map fst ?M))"
    by (rule inj_onI) (auto, metis append_butlast_last_id)
  ultimately have "distinct (map last (map fst ?M))" using distinct_map by blast
  moreover have "map fst (ents N q) = map last (map fst ?M)" by (auto simp: ents_def)
  ultimately show ?thesis by simp
qed

lemma fs_entries_render:
  assumes "fs_wf s" and "is_dir (fs_nodes s) q" and "list_all plain_name q"
  shows "fs_entries s (render q) = Inr (ents (fs_nodes s) q)"
proof -
  have good: "good_at (fs_nodes s) q" using assms by (auto simp: fs_wf_def intro: wf_dir_good)
  have "resolve s True (render q) = Inr q"
    using assms good plain_at_render [OF assms(3)] by (intro resolve_plain) (auto simp: good_at_def)
  then show ?thesis using assms(2) by (simp add: fs_entries_def is_dir_def ents_def)
qed

text \<open>
  A scan to be judged: the libraries, the file system, the directory, and the context when the
  workers start (with the cached status), and the clock then.
\<close>

record ('c, 'z) scan_case =
  xL :: "('c, 'z) scan_libs"
  xs :: fs
  xp :: fpath
  xc :: ScanContext
  xt :: int

definition xkind :: "('c, 'z) scan_case \<Rightarrow> string list \<Rightarrow> fkind option" where
  "xkind X cs = kind_at (fs_nodes (xs X)) (xp X @ cs)"

definition xname :: "('c, 'z) scan_case \<Rightarrow> string list \<Rightarrow> string" where
  "xname X cs = render (xp X @ cs)"

definition xtime :: "('c, 'z) scan_case \<Rightarrow> string list \<Rightarrow> int" where
  "xtime X cs = UpdateTime (xs X) (xname X cs)"

definition ign :: "('c, 'z) scan_case \<Rightarrow> string list \<Rightarrow> bool" where
  "ign X cs \<longleftrightarrow> map_of (ss_ignored_dirs (sc_status (xc X))) (rel_name cs) \<noteq> None"

text \<open>What the scan should record of a directory and of an entry of it.\<close>

definition xhead :: "('c, 'z) scan_case \<Rightarrow> string list \<Rightarrow> Dir" where
  "xhead X cs =
     (let info = snd (FileInfo (sl_db (xL X)) (xs X) (xname X cs) True no_info)
      in \<lparr>d_path = rel_name cs, d_update_time = fi_update_time info, d_user = fst (fi_owner info),
          d_group = snd (fi_owner info), d_files = [], d_visible_users = []\<rparr>)"

definition xitem :: "('c, 'z) scan_case \<Rightarrow> string list \<Rightarrow> string \<Rightarrow> (int + FileG) option" where
  "xitem X cs n =
     (let item = file_item (xL X) (xs X) (sc_hash_method (xc X))
                   (render (xp X) @ ''/'' @ rel_name cs @ ''/'' @ n) n
      in case xkind X (cs @ [n]) of
           Some (KReg d) \<Rightarrow> Some (item FT_Regular)
         | Some (KLink t) \<Rightarrow> Some (item FT_Symlink)
         | _ \<Rightarrow> None)"

definition sound_dir :: "('c, 'z) scan_case \<Rightarrow> string list \<Rightarrow> Dir \<Rightarrow> bool" where
  "sound_dir X cs d \<longleftrightarrow>
     d\<lparr>d_files := []\<rparr> = xhead X cs \<and> (\<forall>n f. map_of (d_files d) n = Some f \<longrightarrow> xitem X cs n = Some (Inr f))"

definition full_dir :: "('c, 'z) scan_case \<Rightarrow> string list \<Rightarrow> string set \<Rightarrow> Dir \<Rightarrow> bool" where
  "full_dir X cs R d \<longleftrightarrow> (\<forall>n. xitem X cs n \<noteq> None \<longrightarrow> n \<in> R \<or> map_of (d_files d) n \<noteq> None)"

text \<open>A directory the scan may come to: its ancestors are not ignored; it is there, or it is gone.\<close>

definition in_reach :: "('c, 'z) scan_case \<Rightarrow> string list \<Rightarrow> bool" where
  "in_reach X cs \<longleftrightarrow>
     list_all plain_name cs \<and> (\<forall>ds. strict_prefix ds cs \<longrightarrow> \<not> ign X ds)
     \<and> (xkind X cs = Some KDir
        \<or> xkind X cs = None \<and> dirs_open (fs_nodes (xs X)) (butlast (xp X @ cs)))"

text \<open>
  What is assumed of a cached status: its directories are in reach (none was replaced by a file or
  a link, none is ignored), and one whose time is unchanged is recorded as it is, with its
  subdirectories.
\<close>

definition cache_ok :: "('c, 'z) scan_case \<Rightarrow> bool" where
  "cache_ok X \<longleftrightarrow>
     (\<forall>k d. map_of (scanned_dirs (xc X)) k = Some d \<longrightarrow>
        (\<exists>cs. k = rel_name cs \<and> in_reach X cs \<and> \<not> ign X cs
           \<and> (xkind X cs = Some KDir \<and> d_update_time d = xtime X cs
               \<and> hash_no (sc_hash_method (xc X)) = ss_hash_method (sc_status (xc X)) \<longrightarrow>
              sound_dir X cs d \<and> full_dir X cs {} d
              \<and> (\<forall>n. xkind X (cs @ [n]) = Some KDir \<and> \<not> ign X (cs @ [n]) \<longrightarrow>
                    map_of (scanned_dirs (xc X)) (rel_name (cs @ [n])) \<noteq> None))))"

definition scan_setup :: "('c, 'z) scan_case \<Rightarrow> bool" where
  "scan_setup X \<longleftrightarrow>
     fs_wf (xs X) \<and> xp X \<noteq> [] \<and> list_all plain_name (xp X) \<and> xkind X [] = Some KDir
     \<and> boost_string (sl_boost (xL X)) \<and> sc_src (xc X) = render (xp X)
     \<and> codes_ok (sl_codes (xL X)) \<and> cache_ok X"

lemma xkind_plain: "scan_setup X \<Longrightarrow> xkind X cs = Some k \<Longrightarrow> list_all plain_name cs"
  using wf_good [of "fs_nodes (xs X)" "xp X @ cs" k]
  by (simp add: scan_setup_def fs_wf_def xkind_def good_at_def)

lemma xname_inj:
  assumes "scan_setup X" "list_all plain_name cs" "list_all plain_name ds" "xname X cs = xname X ds"
  shows "cs = ds"
proof -
  have "plain_at (xname X cs) (xp X @ cs)" "plain_at (xname X cs) (xp X @ ds)"
    using assms plain_at_render [of "xp X @ cs"] plain_at_render [of "xp X @ ds"]
    by (auto simp: xname_def scan_setup_def)
  then show ?thesis by (auto simp: plain_at_def)
qed

lemma xname_dir:
  assumes "scan_setup X" and "xkind X cs = Some KDir"
  shows "Exists (xs X) (xname X cs)" and "fs_entries (xs X) (xname X cs) = Inr (ents (fs_nodes (xs X)) (xp X @ cs))"
    and "fst (FileInfo (sl_db (xL X)) (xs X) (xname X cs) True no_info)"
    and "d_update_time (xhead X cs) = xtime X cs"
proof -
  have pl: "list_all plain_name (xp X @ cs)"
    using assms xkind_plain [OF assms] by (simp add: scan_setup_def)
  have d: "fs_wf (xs X)" "plain_at (xname X cs) (xp X @ cs)" "is_dir (fs_nodes (xs X)) (xp X @ cs)"
    using assms plain_at_render [OF pl] by (auto simp: scan_setup_def xname_def xkind_def is_dir_def)
  show ex: "Exists (xs X) (xname X cs)" using dir_status(2) [OF d] by (simp add: Exists_def)
  show "fs_entries (xs X) (xname X cs) = Inr (ents (fs_nodes (xs X)) (xp X @ cs))"
    using fs_entries_render [OF d(1,3) pl] by (simp add: xname_def)
  obtain n where "sys_lstat (xs X) (xname X cs) = Inr n"
    using dir_status(2) [OF d] by (auto simp: fs_symlink_status_def status_of_def split: sum.splits if_splits)
  then show "fst (FileInfo (sl_db (xL X)) (xs X) (xname X cs) True no_info)"
    and "d_update_time (xhead X cs) = xtime X cs"
    by (simp_all add: FileInfo_def xhead_def xtime_def UpdateTime_def)
qed

lemma xname_gone:
  assumes "scan_setup X" and "in_reach X cs" and "xkind X cs = None"
  shows "\<not> Exists (xs X) (xname X cs)"
proof -
  have "list_all plain_name (xp X @ cs)" using assms by (simp add: scan_setup_def in_reach_def)
  then show ?thesis
    using assms missing_status(2) [of "xs X" "xname X cs" "xp X @ cs"] plain_at_render
    by (auto simp: scan_setup_def in_reach_def xkind_def xname_def Exists_def)
qed

lemma xname_relative:
  "scan_setup X \<Longrightarrow> list_all plain_name cs \<Longrightarrow>
   Relative (sl_boost (xL X)) (xname X cs) (sc_src (xc X)) = Some (True, rel_name cs)"
  by (simp add: scan_setup_def xname_def Relative_render)

lemma xname_child:
  "scan_setup X \<Longrightarrow> xkind X cs = Some KDir \<Longrightarrow> entry_path (xname X cs) n = xname X (cs @ [n])"
  using xkind_plain [of X cs KDir] entry_path_render [of "xp X @ cs" n]
  by (simp add: scan_setup_def xname_def)

lemma in_reach_child:
  assumes "scan_setup X" "in_reach X cs" "\<not> ign X cs" "xkind X (cs @ [n]) = Some KDir"
  shows "in_reach X (cs @ [n])"
proof -
  have "strict_prefix ds (cs @ [n]) \<Longrightarrow> prefix ds cs" for ds by (auto simp: strict_prefix_def)
  then have "strict_prefix ds (cs @ [n]) \<Longrightarrow> ds = cs \<or> strict_prefix ds cs" for ds
    by (auto simp: strict_prefix_def)
  then show ?thesis
    using assms xkind_plain [OF assms(1,4)] by (auto simp: in_reach_def)
qed


section \<open>Where a directory stands\<close>

type_synonym workers = "scan_phase worker set"

definition entry :: "scan_st \<Rightarrow> string list \<Rightarrow> Dir option" where
  "entry st cs = map_of (scanned_dirs (st_ctx st)) (rel_name cs)"

definition queued :: "('c, 'z) scan_case \<Rightarrow> scan_st \<Rightarrow> string list \<Rightarrow> bool" where
  "queued X st cs \<longleftrightarrow> xname X cs \<in> set (sc_dir_queue (st_ctx st))"

definition waiting :: "('c, 'z) scan_case \<Rightarrow> workers \<Rightarrow> string list \<Rightarrow> bool" where
  "waiting X W cs \<longleftrightarrow>
     WBusy (PCheck (xname X cs)) \<in> W \<or> WBusy (PAdd (xname X cs) (rel_name cs) (xtime X cs)) \<in> W"

definition iterating :: "('c, 'z) scan_case \<Rightarrow> workers \<Rightarrow> string list \<Rightarrow> string set \<Rightarrow> bool" where
  "iterating X W cs R \<longleftrightarrow>
     (\<exists>es files. R = fst ` set es
        \<and> WBusy (PEntries (xname X cs) (rel_name cs) (xtime X cs) es Err_Success files) \<in> W)"

text \<open>Recorded: all of it, or all but what the thread that started last has still to visit.\<close>

definition settled :: "('c, 'z) scan_case \<Rightarrow> workers \<Rightarrow> scan_st \<Rightarrow> string list \<Rightarrow> bool" where
  "settled X W st cs \<longleftrightarrow>
     (\<exists>d. entry st cs = Some d \<and> sound_dir X cs d
        \<and> (full_dir X cs {} d \<or> (\<exists>R. iterating X W cs R \<and> full_dir X cs R d)))"

text \<open>The scan has not lost sight of the directory.\<close>

definition known :: "('c, 'z) scan_case \<Rightarrow> workers \<Rightarrow> scan_st \<Rightarrow> string list \<Rightarrow> bool" where
  "known X W st cs \<longleftrightarrow>
     ign X cs \<or> queued X st cs \<or> waiting X W cs
     \<or> xkind X cs = None \<and> entry st cs = None
     \<or> xkind X cs = Some KDir \<and> settled X W st cs"

definition subdirs_known :: "('c, 'z) scan_case \<Rightarrow> workers \<Rightarrow> scan_st \<Rightarrow> string list \<Rightarrow> bool" where
  "subdirs_known X W st cs \<longleftrightarrow> (\<forall>n. xkind X (cs @ [n]) = Some KDir \<longrightarrow> known X W st (cs @ [n]))"

definition cached :: "('c, 'z) scan_case \<Rightarrow> string list \<Rightarrow> Dir option" where
  "cached X cs = map_of (scanned_dirs (xc X)) (rel_name cs)"

text \<open>The entry of a directory: as the cache had it, or settled; then its subdirectories are known.\<close>

definition dir_inv :: "('c, 'z) scan_case \<Rightarrow> workers \<Rightarrow> scan_st \<Rightarrow> string list \<Rightarrow> bool" where
  "dir_inv X W st cs \<longleftrightarrow>
     (\<forall>d. entry st cs = Some d \<longrightarrow>
        (cached X cs = Some d
         \<or> in_reach X cs \<and> \<not> ign X cs \<and> xkind X cs = Some KDir \<and> settled X W st cs)
        \<and> (xkind X cs = Some KDir \<and> sound_dir X cs d \<and> full_dir X cs {} d \<longrightarrow>
             cached X cs = Some d \<and> (queued X st cs \<or> waiting X W cs)
             \<or> (\<exists>R. iterating X W cs R) \<or> subdirs_known X W st cs))"

definition recorded :: "('c, 'z) scan_case \<Rightarrow> workers \<Rightarrow> scan_st \<Rightarrow> string list \<Rightarrow> bool" where
  "recorded X W st cs \<longleftrightarrow> (xkind X cs = Some KDir \<longrightarrow> settled X W st cs)"

text \<open>What holds of the local state of a thread in any case (\<open>worker_shape\<close>), and as long as there was no error.\<close>

fun worker_shape :: "('c, 'z) scan_case \<Rightarrow> scan_phase worker \<Rightarrow> bool" where
  "worker_shape X (WBusy (PCheck d)) = (\<exists>cs. in_reach X cs \<and> d = xname X cs)"
| "worker_shape X (WBusy (PAdd d r u)) =
     (\<exists>cs. in_reach X cs \<and> \<not> ign X cs \<and> xkind X cs = Some KDir
        \<and> d = xname X cs \<and> r = rel_name cs \<and> u = xtime X cs)"
| "worker_shape X (WBusy (PEntries d r u es ret files)) =
     (\<exists>cs pre. in_reach X cs \<and> \<not> ign X cs \<and> xkind X cs = Some KDir
        \<and> d = xname X cs \<and> r = rel_name cs \<and> u = xtime X cs
        \<and> ents (fs_nodes (xs X)) (xp X @ cs) = pre @ es \<and> set files = fst ` set pre)"
| "worker_shape X (WBusy (PTouch r u)) =
     (\<exists>cs. in_reach X cs \<and> \<not> ign X cs \<and> xkind X cs = Some KDir \<and> r = rel_name cs \<and> u = xtime X cs)"
| "worker_shape X WHung = False"
| "worker_shape X _ = True"

fun worker_good :: "('c, 'z) scan_case \<Rightarrow> workers \<Rightarrow> scan_st \<Rightarrow> scan_phase worker \<Rightarrow> bool" where
  "worker_good X W st (WBusy (PEntries d r u es ret files)) =
     (\<forall>cs. list_all plain_name cs \<and> d = xname X cs \<longrightarrow> recorded X W st cs
        \<and> (\<forall>n. xkind X (cs @ [n]) = Some KDir \<and> (n, KDir) \<notin> set es \<longrightarrow> known X W st (cs @ [n])))"
| "worker_good X W st (WBusy (PTouch r u)) =
     (\<forall>cs. list_all plain_name cs \<and> r = rel_name cs \<longrightarrow> recorded X W st cs)"
| "worker_good X W st _ = True"

text \<open>No error so far, in the context or in the \<^verbatim>\<open>ret\<close> of a thread.\<close>

fun ret_ok :: "scan_phase worker \<Rightarrow> bool" where
  "ret_ok (WBusy (PEntries d r u es ret files)) = (ret = Err_Success)"
| "ret_ok _ = True"

definition no_error :: "workers \<Rightarrow> scan_st \<Rightarrow> bool" where
  "no_error W st \<longleftrightarrow> sc_err_code (st_ctx st) = Err_Success \<and> (\<forall>w \<in> W. ret_ok w)"

definition base_inv :: "('c, 'z) scan_case \<Rightarrow> workers \<Rightarrow> scan_st \<Rightarrow> bool" where
  "base_inv X W st \<longleftrightarrow>
     scan_setup X \<and> st_fs st = xs X \<and> \<not> st_stop st \<and> st_last_dump st = xt X
     \<and> sc_src (st_ctx st) = sc_src (xc X) \<and> sc_hash_method (st_ctx st) = sc_hash_method (xc X)
     \<and> ss_ignored_dirs (sc_status (st_ctx st)) = ss_ignored_dirs (sc_status (xc X))
     \<and> ss_hash_method (sc_status (st_ctx st)) = ss_hash_method (sc_status (xc X))
     \<and> (\<forall>x \<in> set (sc_dir_queue (st_ctx st)). \<exists>cs. in_reach X cs \<and> x = xname X cs)
     \<and> (\<forall>w \<in> W. worker_shape X w)"

definition strong_inv :: "('c, 'z) scan_case \<Rightarrow> workers \<Rightarrow> scan_st \<Rightarrow> bool" where
  "strong_inv X W st \<longleftrightarrow>
     (\<forall>k d. map_of (scanned_dirs (st_ctx st)) k = Some d \<longrightarrow> (\<exists>cs. list_all plain_name cs \<and> k = rel_name cs))
     \<and> (\<forall>cs. list_all plain_name cs \<longrightarrow> dir_inv X W st cs)
     \<and> (\<forall>cs. list_all plain_name cs \<and> (cs = [] \<or> cached X cs \<noteq> None) \<longrightarrow> known X W st cs)
     \<and> (\<forall>w \<in> W. worker_good X W st w)"

definition scan_inv :: "('c, 'z) scan_case \<Rightarrow> scan_phase worker list \<Rightarrow> scan_st \<Rightarrow> bool" where
  "scan_inv X ws st \<longleftrightarrow>
     base_inv X (set ws) st \<and> (no_error (set ws) st \<longrightarrow> strong_inv X (set ws) st)"

section \<open>One step concerns one directory\<close>

definition about :: "('c, 'z) scan_case \<Rightarrow> string list \<Rightarrow> scan_phase worker \<Rightarrow> bool" where
  "about X cs0 w \<longleftrightarrow>
     (\<forall>cs. list_all plain_name cs \<and> cs \<noteq> cs0 \<longrightarrow>
        w \<noteq> WBusy (PCheck (xname X cs)) \<and> (\<forall>r u. w \<noteq> WBusy (PAdd (xname X cs) r u))
        \<and> (\<forall>r u es ret fl. w \<noteq> WBusy (PEntries (xname X cs) r u es ret fl)))"

definition local_step :: "('c, 'z) scan_case \<Rightarrow> string list \<Rightarrow> scan_st \<Rightarrow> scan_st \<Rightarrow> bool" where
  "local_step X cs0 st st' \<longleftrightarrow>
     (\<forall>k. k \<noteq> rel_name cs0 \<longrightarrow>
        map_of (scanned_dirs (st_ctx st')) k = map_of (scanned_dirs (st_ctx st)) k)
     \<and> (\<forall>cs. list_all plain_name cs \<and> cs \<noteq> cs0 \<and> queued X st cs \<longrightarrow> queued X st' cs)"

lemma local_entry:
  "local_step X cs0 st st' \<Longrightarrow> list_all plain_name cs \<Longrightarrow> list_all plain_name cs0 \<Longrightarrow> cs \<noteq> cs0 \<Longrightarrow>
   entry st' cs = entry st cs"
  using rel_name_inj [of cs cs0] by (auto simp: local_step_def entry_def)

lemma waiting_kept:
  "waiting X W cs \<Longrightarrow> moves W old new W' \<Longrightarrow> about X cs0 old \<Longrightarrow> list_all plain_name cs \<Longrightarrow> cs \<noteq> cs0 \<Longrightarrow>
   waiting X W' cs"
  unfolding waiting_def moves_def about_def by blast

lemma iterating_kept:
  "iterating X W cs R \<Longrightarrow> moves W old new W' \<Longrightarrow> about X cs0 old \<Longrightarrow> list_all plain_name cs \<Longrightarrow> cs \<noteq> cs0 \<Longrightarrow>
   iterating X W' cs R"
  unfolding iterating_def moves_def about_def by blast

lemma settled_kept:
  assumes "settled X W st cs" "moves W old new W'" "about X cs0 old" "local_step X cs0 st st'"
    and "list_all plain_name cs" "list_all plain_name cs0" "cs \<noteq> cs0"
  shows "settled X W' st' cs"
  using assms local_entry [OF assms(4-7)] iterating_kept [OF _ assms(2,3,5,7)]
  by (auto simp: settled_def)

lemma known_kept:
  assumes "known X W st cs" "moves W old new W'" "about X cs0 old" "local_step X cs0 st st'"
    and "list_all plain_name cs" "list_all plain_name cs0" "cs \<noteq> cs0"
  shows "known X W' st' cs"
  using assms(1,4,5,7) local_entry [OF assms(4-7)] waiting_kept [OF _ assms(2,3,5,7)]
    settled_kept [OF _ assms(2-7)]
  by (auto simp: known_def local_step_def)

text \<open>So it is enough to look at the directory the step is about.\<close>

lemma strong_step:
  assumes st: "strong_inv X W st" and su: "scan_setup X" and mv: "moves W old new W'"
    and ab: "about X cs0 old" and loc: "local_step X cs0 st st'" and pl: "list_all plain_name cs0"
    and k0: "known X W st cs0 \<Longrightarrow> known X W' st' cs0" and r0: "recorded X W st cs0 \<Longrightarrow> recorded X W' st' cs0"
    and d0: "(\<And>cs. list_all plain_name cs \<Longrightarrow> known X W st cs \<Longrightarrow> known X W' st' cs) \<Longrightarrow> dir_inv X W' st' cs0"
    and w0: "(\<And>cs. list_all plain_name cs \<Longrightarrow> known X W st cs \<Longrightarrow> known X W' st' cs) \<Longrightarrow> worker_good X W' st' new"
  shows "strong_inv X W' st'"
proof -
  have kn: "known X W' st' cs" if "list_all plain_name cs" "known X W st cs" for cs
    using that k0 known_kept [OF that(2) mv ab loc that(1) pl] by (cases "cs = cs0") auto
  have kn1: "known X W' st' cs" if "xkind X cs = Some k" "known X W st cs" for cs k
    using that kn xkind_plain [OF su] by blast
  have sub: "subdirs_known X W' st' cs" if "subdirs_known X W st cs" for cs
    using that kn xkind_plain [OF su] unfolding subdirs_known_def by blast
  have rec: "recorded X W' st' cs" if "list_all plain_name cs" "recorded X W st cs" for cs
    using that r0 settled_kept [OF _ mv ab loc that(1) pl] by (cases "cs = cs0") (auto simp: recorded_def)
  have dir: "dir_inv X W' st' cs" if p: "list_all plain_name cs" for cs
  proof (cases "cs = cs0")
    case False
    have "dir_inv X W st cs" using st p by (simp add: strong_inv_def)
    then show ?thesis
      using local_entry [OF loc p pl False] waiting_kept [OF _ mv ab p False] iterating_kept [OF _ mv ab p False]
        settled_kept [OF _ mv ab loc p pl False] sub [of cs] loc p False
      unfolding dir_inv_def local_step_def by metis
  qed (use d0 kn in auto)
  have keys: "\<exists>cs. list_all plain_name cs \<and> k = rel_name cs"
    if "map_of (scanned_dirs (st_ctx st')) k = Some d" for k d
  proof (cases "k = rel_name cs0")
    case False
    then show ?thesis using that st loc unfolding strong_inv_def local_step_def by metis
  qed (use pl in blast)
  have good: "worker_good X W' st' w" if "w \<in> W'" for w
  proof (cases "w = new")
    case False
    then have "worker_good X W st w" using that mv st by (auto simp: moves_def strong_inv_def)
    then show ?thesis using rec kn1 by (cases "(X, W', st', w)" rule: worker_good.cases) auto
  qed (use w0 kn in auto)
  show ?thesis using st dir keys good kn unfolding strong_inv_def by blast
qed


section \<open>The steps\<close>

definition same_case :: "scan_st \<Rightarrow> scan_st \<Rightarrow> bool" where
  "same_case st st' \<longleftrightarrow>
     st_fs st' = st_fs st \<and> st_stop st' = st_stop st \<and> st_last_dump st' = st_last_dump st
     \<and> sc_src (st_ctx st') = sc_src (st_ctx st) \<and> sc_hash_method (st_ctx st') = sc_hash_method (st_ctx st)
     \<and> ss_ignored_dirs (sc_status (st_ctx st')) = ss_ignored_dirs (sc_status (st_ctx st))
     \<and> ss_hash_method (sc_status (st_ctx st')) = ss_hash_method (sc_status (st_ctx st))"

lemma scanned_dirs_set [simp]:
  "scanned_dirs (set_scanned_dirs m ctx) = m"
  "sc_src (set_scanned_dirs m ctx) = sc_src ctx"
  "sc_hash_method (set_scanned_dirs m ctx) = sc_hash_method ctx"
  "sc_dir_queue (set_scanned_dirs m ctx) = sc_dir_queue ctx"
  "sc_err_code (set_scanned_dirs m ctx) = sc_err_code ctx"
  "ss_ignored_dirs (sc_status (set_scanned_dirs m ctx)) = ss_ignored_dirs (sc_status ctx)"
  "ss_hash_method (sc_status (set_scanned_dirs m ctx)) = ss_hash_method (sc_status ctx)"
  by (simp_all add: scanned_dirs_def set_scanned_dirs_def map_status_def)

lemma scanned_dirs_other [simp]:
  "scanned_dirs (ctx\<lparr>sc_scanned_dir_num := a\<rparr>) = scanned_dirs ctx"
  "scanned_dirs (ctx\<lparr>sc_skip_dir_num := a\<rparr>) = scanned_dirs ctx"
  "scanned_dirs (ctx\<lparr>sc_err_code := a\<rparr>) = scanned_dirs ctx"
  "scanned_dirs (ctx\<lparr>sc_added_files := b\<rparr>) = scanned_dirs ctx"
  "scanned_dirs (ctx\<lparr>sc_removed_files := b\<rparr>) = scanned_dirs ctx"
  "scanned_dirs (ctx\<lparr>sc_dir_queue := b\<rparr>) = scanned_dirs ctx"
  by (simp_all add: scanned_dirs_def)

definition next_worker :: "scan_phase option \<Rightarrow> scan_phase worker" where
  "next_worker r = (case r of None \<Rightarrow> WIdle 0 | Some w \<Rightarrow> WBusy w)"

definition step_ok :: "('c, 'z) scan_case \<Rightarrow> workers \<Rightarrow> scan_st \<Rightarrow> scan_phase \<Rightarrow> scan_st \<Rightarrow> scan_phase option \<Rightarrow> bool" where
  "step_ok X W st w st' r \<longleftrightarrow>
     ParallelFullScan_step (xL X) w st = Some (st', r)
     \<and> (\<forall>W'. moves W (WBusy w) (next_worker r) W' \<longrightarrow>
          base_inv X W' st'
          \<and> (no_error W' st' \<longrightarrow> no_error W st)
          \<and> (no_error W' st' \<and> strong_inv X W st \<longrightarrow> strong_inv X W' st'))"

lemma base_step:
  assumes "base_inv X W st" "same_case st st'" "moves W old new W'" "worker_shape X new"
    and "\<And>x. x \<in> set (sc_dir_queue (st_ctx st')) \<Longrightarrow>
           x \<in> set (sc_dir_queue (st_ctx st)) \<or> (\<exists>cs. in_reach X cs \<and> x = xname X cs)"
  shows "base_inv X W' st'"
  using assms unfolding base_inv_def same_case_def moves_def by simp blast

lemma no_error_step:
  assumes "moves W old new W'" "no_error W' st'" and "ret_ok new \<Longrightarrow> ret_ok old"
    and "sc_err_code (st_ctx st') = sc_err_code (st_ctx st)"
  shows "no_error W st"
  using assms unfolding no_error_def moves_def by fastforce

lemma error_step:
  "sc_err_code (st_ctx st') \<noteq> Err_Success \<Longrightarrow> \<not> no_error W' st'"
  by (simp add: no_error_def)

lemma about_check: "scan_setup X \<Longrightarrow> list_all plain_name cs \<Longrightarrow> about X cs (WBusy (PCheck (xname X cs)))"
  using xname_inj [of X cs] by (auto simp: about_def)

lemma about_add: "scan_setup X \<Longrightarrow> list_all plain_name cs \<Longrightarrow> about X cs (WBusy (PAdd (xname X cs) r u))"
  using xname_inj [of X cs] by (auto simp: about_def)

lemma about_entries:
  "scan_setup X \<Longrightarrow> list_all plain_name cs \<Longrightarrow> about X cs (WBusy (PEntries (xname X cs) r u es ret fl))"
  using xname_inj [of X cs] by (auto simp: about_def)

lemma about_other [simp]:
  "about X cs (WBusy (PTouch r u))" "about X cs (WIdle t)" "about X cs WStopped" "about X cs WHung"
  by (simp_all add: about_def)

lemma in_reach_plain: "in_reach X cs \<Longrightarrow> list_all plain_name cs"
  by (simp add: in_reach_def)

text \<open>A step that changes neither the table nor the queue.\<close>

lemma quiet_local: "scanned_dirs (st_ctx st') = scanned_dirs (st_ctx st) \<Longrightarrow>
    sc_dir_queue (st_ctx st') = sc_dir_queue (st_ctx st) \<Longrightarrow> local_step X cs st st'"
  by (simp add: local_step_def queued_def)

lemma entry_quiet: "scanned_dirs (st_ctx st') = scanned_dirs (st_ctx st) \<Longrightarrow> entry st' cs = entry st cs"
  by (simp add: entry_def)

lemma iterating_mono:
  "iterating X W cs R \<Longrightarrow> moves W old new W' \<Longrightarrow> (\<And>d r u es ret fl. old \<noteq> WBusy (PEntries d r u es ret fl)) \<Longrightarrow>
   iterating X W' cs R"
  unfolding iterating_def moves_def by blast

lemma settled_mono:
  assumes "settled X W st cs" "moves W old new W'" "\<And>d r u es ret fl. old \<noteq> WBusy (PEntries d r u es ret fl)"
    and "entry st' cs = entry st cs"
  shows "settled X W' st' cs"
  using assms(1,4) iterating_mono [OF _ assms(2,3), of X cs] unfolding settled_def by metis

lemma cached_entry:
  assumes "scan_setup X" "list_all plain_name cs" "cached X cs = Some d"
  shows "in_reach X cs" "\<not> ign X cs"
    and "xkind X cs = Some KDir \<Longrightarrow> d_update_time d = xtime X cs \<Longrightarrow>
         hash_no (sc_hash_method (xc X)) = ss_hash_method (sc_status (xc X)) \<Longrightarrow>
         sound_dir X cs d \<and> full_dir X cs {} d
         \<and> (\<forall>n. xkind X (cs @ [n]) = Some KDir \<and> \<not> ign X (cs @ [n]) \<longrightarrow> cached X (cs @ [n]) \<noteq> None)"
proof -
  obtain cs' where cs': "rel_name cs = rel_name cs'" "in_reach X cs' \<and> \<not> ign X cs'
      \<and> (xkind X cs' = Some KDir \<and> d_update_time d = xtime X cs'
          \<and> hash_no (sc_hash_method (xc X)) = ss_hash_method (sc_status (xc X)) \<longrightarrow>
         sound_dir X cs' d \<and> full_dir X cs' {} d
         \<and> (\<forall>n. xkind X (cs' @ [n]) = Some KDir \<and> \<not> ign X (cs' @ [n]) \<longrightarrow> cached X (cs' @ [n]) \<noteq> None))"
    using assms unfolding scan_setup_def cache_ok_def cached_def by blast
  then have "cs' = cs" using rel_name_inj [OF assms(2)] in_reach_plain by blast
  then show "in_reach X cs" "\<not> ign X cs"
    and "xkind X cs = Some KDir \<Longrightarrow> d_update_time d = xtime X cs \<Longrightarrow>
         hash_no (sc_hash_method (xc X)) = ss_hash_method (sc_status (xc X)) \<Longrightarrow>
         sound_dir X cs d \<and> full_dir X cs {} d
         \<and> (\<forall>n. xkind X (cs @ [n]) = Some KDir \<and> \<not> ign X (cs @ [n]) \<longrightarrow> cached X (cs @ [n]) \<noteq> None)"
    using cs' by blast+
qed

lemma entry_visible:
  "scan_setup X \<Longrightarrow> list_all plain_name cs \<Longrightarrow> dir_inv X W st cs \<Longrightarrow> entry st cs = Some d \<Longrightarrow>
   in_reach X cs \<and> \<not> ign X cs"
  unfolding dir_inv_def by (metis cached_entry(1,2))

text \<open>Steps of the check that leave the table and the queue as they are.\<close>

lemma check_quiet:
  assumes su: "scan_setup X" and r: "in_reach X cs"
    and st': "scanned_dirs (st_ctx st') = scanned_dirs (st_ctx st)"
      "sc_dir_queue (st_ctx st') = sc_dir_queue (st_ctx st)"
    and mv: "moves W (WBusy (PCheck (xname X cs))) new W'" and s: "strong_inv X W st"
    and k: "known X W' st' cs" and new: "worker_good X W' st' new"
    and c: "\<And>d. cached X cs = Some d \<Longrightarrow> entry st cs = Some d \<Longrightarrow> xkind X cs = Some KDir \<Longrightarrow>
         (\<And>cs. list_all plain_name cs \<Longrightarrow> known X W st cs \<Longrightarrow> known X W' st' cs) \<Longrightarrow>
         waiting X W' cs \<or> subdirs_known X W' st' cs"
  shows "strong_inv X W' st'"
proof (rule strong_step [OF s su mv about_check quiet_local [OF st']])
  show pl: "list_all plain_name cs" using r by (rule in_reach_plain)
  then show "list_all plain_name cs" .
  show "scan_setup X" by (rule su)
  show "known X W' st' cs" by (rule k)
  have e: "entry st' cs = entry st cs" using st'(1) by (rule entry_quiet)
  then show "recorded X W st cs \<Longrightarrow> recorded X W' st' cs"
    using settled_mono [OF _ mv, of X st cs st'] by (simp add: recorded_def)
  show "worker_good X W' st' new" by (rule new)
  show "dir_inv X W' st' cs"
    if kn: "\<And>cs. list_all plain_name cs \<Longrightarrow> known X W st cs \<Longrightarrow> known X W' st' cs"
  proof -
    have d: "dir_inv X W st cs" using s pl by (simp add: strong_inv_def)
    have "subdirs_known X W st cs \<Longrightarrow> subdirs_known X W' st' cs"
      using kn xkind_plain [OF su] unfolding subdirs_known_def by blast
    then show ?thesis
      using d e settled_mono [OF _ mv, of X st cs st'] iterating_mono [OF _ mv, of X cs] c kn
      unfolding dir_inv_def by (metis scan_phase.distinct(3) worker.inject(2))
  qed
qed

lemma check_gone:
  assumes su: "scan_setup X" and r: "in_reach X cs" and gone: "xkind X cs = None"
    and st': "map_of (scanned_dirs (st_ctx st')) = (map_of (scanned_dirs (st_ctx st)))(rel_name cs := None)"
      "sc_dir_queue (st_ctx st') = sc_dir_queue (st_ctx st)"
    and mv: "moves W (WBusy (PCheck (xname X cs))) (WIdle 0) W'" and s: "strong_inv X W st"
  shows "strong_inv X W' st'"
proof (rule strong_step [OF s su mv about_check])
  show "list_all plain_name cs" "list_all plain_name cs" using r by (simp_all add: in_reach_plain)
  have e: "entry st' cs = None" by (simp add: entry_def st')
  then show "known X W' st' cs" "recorded X W' st' cs" "dir_inv X W' st' cs"
    using gone by (simp_all add: known_def recorded_def dir_inv_def)
  show "local_step X cs st st'" by (simp add: local_step_def queued_def st')
qed (simp_all add: su)

lemma RemoveDir_effect:
  "map_of (scanned_dirs (snd (RemoveDir d k ctx))) = (map_of (scanned_dirs ctx))(k := None)"
  "sc_dir_queue (snd (RemoveDir d k ctx)) = sc_dir_queue ctx"
  "sc_err_code (snd (RemoveDir d k ctx)) = sc_err_code ctx"
  "sc_src (snd (RemoveDir d k ctx)) = sc_src ctx"
  "sc_hash_method (snd (RemoveDir d k ctx)) = sc_hash_method ctx"
  "ss_ignored_dirs (sc_status (snd (RemoveDir d k ctx))) = ss_ignored_dirs (sc_status ctx)"
  "ss_hash_method (sc_status (snd (RemoveDir d k ctx))) = ss_hash_method (sc_status ctx)"
  by (auto simp: RemoveDir_def Let_def delete_conv fun_upd_idem_iff split: option.splits)

lemma quiet_step_ok:
  assumes b: "base_inv X W st" and step: "ParallelFullScan_step (xL X) w st = Some (st', r)"
    and same: "same_case st st'" and q: "sc_dir_queue (st_ctx st') = sc_dir_queue (st_ctx st)"
    and e: "sc_err_code (st_ctx st') = sc_err_code (st_ctx st)"
    and shape: "worker_shape X (next_worker r)" and ret: "ret_ok (next_worker r) \<Longrightarrow> ret_ok (WBusy w)"
    and strong: "\<And>W'. moves W (WBusy w) (next_worker r) W' \<Longrightarrow> no_error W' st' \<Longrightarrow> strong_inv X W st \<Longrightarrow> strong_inv X W' st'"
  shows "step_ok X W st w st' r"
  unfolding step_ok_def
  using step strong no_error_step [OF _ _ ret e] base_step [OF b same _ shape] q by simp

lemma error_step_ok:
  assumes b: "base_inv X W st" and step: "ParallelFullScan_step (xL X) w st = Some (st', r)"
    and same: "same_case st st'" and q: "sc_dir_queue (st_ctx st') = sc_dir_queue (st_ctx st)"
    and e: "sc_err_code (st_ctx st') \<noteq> Err_Success" and shape: "worker_shape X (next_worker r)"
  shows "step_ok X W st w st' r"
  unfolding step_ok_def
  using step error_step [OF e] base_step [OF b same _ shape] q by simp

lemma base_worker: "base_inv X W st \<Longrightarrow> w \<in> W \<Longrightarrow> worker_shape X w"
  by (simp add: base_inv_def)

lemma check_step_ok:
  assumes b: "base_inv X W st" and w: "WBusy (PCheck d) \<in> W"
  shows "\<exists>st' r. step_ok X W st (PCheck d) st' r"
proof -
  obtain cs where r: "in_reach X cs" and d: "d = xname X cs"
    using base_worker [OF b w] by auto
  have su: "scan_setup X" and pl: "list_all plain_name cs"
    using b r by (auto simp: base_inv_def in_reach_plain)
  let ?ctx = "(st_ctx st)\<lparr>sc_scanned_dir_num := sc_scanned_dir_num (st_ctx st) + 1\<rparr>"
  have step: "ParallelFullScan_step (xL X) (PCheck d) st =
     (if ign X cs then Some (st\<lparr>st_ctx := ?ctx\<rparr>, None)
      else if xkind X cs = None then Some (st\<lparr>st_ctx := snd (RemoveDir d (rel_name cs) ?ctx)\<rparr>, None)
      else if xtime X cs = - 1
      then Some (st\<lparr>st_ctx := ?ctx\<lparr>sc_err_code := Err_File_permission_or_not_exists (sl_codes (xL X))\<rparr>\<rparr>, None)
      else if \<exists>e. entry st cs = Some e \<and> d_update_time e = xtime X cs
                \<and> hash_no (sc_hash_method (xc X)) = ss_hash_method (sc_status (xc X))
      then Some (st\<lparr>st_ctx := ?ctx\<lparr>sc_skip_dir_num := sc_skip_dir_num ?ctx + 1\<rparr>\<rparr>, None)
      else Some (st\<lparr>st_ctx := ?ctx\<rparr>, Some (PAdd d (rel_name cs) (xtime X cs))))"
  proof -
    have "Relative (sl_boost (xL X)) d (sc_src (st_ctx st)) = Some (True, rel_name cs)"
      using xname_relative [OF su pl] b d by (simp add: base_inv_def)
    moreover have "Exists (st_fs st) d \<longleftrightarrow> xkind X cs \<noteq> None"
      using xname_dir(1) [OF su] xname_gone [OF su r] b d r by (auto simp: base_inv_def in_reach_def)
    ultimately show ?thesis
      using b d by (simp add: scan_check_def Let_def base_inv_def ign_def xtime_def entry_def scanned_dirs_def
          split: option.splits)
  qed
  note simps = next_worker_def same_case_def RemoveDir_effect
  consider (ign) "ign X cs" | (gone) "\<not> ign X cs" "xkind X cs = None"
    | (time) "\<not> ign X cs" "xkind X cs = Some KDir" "xtime X cs = - 1"
    | (skip) e where "\<not> ign X cs" "xkind X cs = Some KDir" "xtime X cs \<noteq> - 1" "entry st cs = Some e"
        "d_update_time e = xtime X cs" "hash_no (sc_hash_method (xc X)) = ss_hash_method (sc_status (xc X))"
    | (add) "\<not> ign X cs" "xkind X cs = Some KDir" "xtime X cs \<noteq> - 1"
        "\<not> (\<exists>e. entry st cs = Some e \<and> d_update_time e = xtime X cs
                \<and> hash_no (sc_hash_method (xc X)) = ss_hash_method (sc_status (xc X)))"
    using r unfolding in_reach_def by metis
  then show ?thesis
  proof cases
    case ign
    have "step_ok X W st (PCheck d) (st\<lparr>st_ctx := ?ctx\<rparr>) None"
    proof (rule quiet_step_ok [OF b])
      fix W' assume mv: "moves W (WBusy (PCheck d)) (next_worker None) W'" and s: "strong_inv X W st"
      show "strong_inv X W' (st\<lparr>st_ctx := ?ctx\<rparr>)"
        using ign cached_entry(2) [OF su pl]
        by (intro check_quiet [OF su r _ _ mv [unfolded d] s]) (simp_all add: known_def next_worker_def)
    qed (use step ign in \<open>simp_all add: simps\<close>)
    then show ?thesis by blast
  next
    case gone
    let ?st = "st\<lparr>st_ctx := snd (RemoveDir d (rel_name cs) ?ctx)\<rparr>"
    have "step_ok X W st (PCheck d) ?st None"
    proof (rule quiet_step_ok [OF b])
      fix W' assume mv: "moves W (WBusy (PCheck d)) (next_worker None) W'" and s: "strong_inv X W st"
      show "strong_inv X W' ?st"
        using mv d by (intro check_gone [OF su r gone(2) _ _ _ s]) (simp_all add: simps)
    qed (use step gone in \<open>simp_all add: simps\<close>)
    then show ?thesis by blast
  next
    case time
    then show ?thesis
      using step error_step_ok [OF b, of "PCheck d"] su by (force simp: simps scan_setup_def codes_ok_def)
  next
    case (skip e)
    let ?st = "st\<lparr>st_ctx := ?ctx\<lparr>sc_skip_dir_num := sc_skip_dir_num ?ctx + 1\<rparr>\<rparr>"
    have "step_ok X W st (PCheck d) ?st None"
    proof (rule quiet_step_ok [OF b])
      fix W' assume mv: "moves W (WBusy (PCheck d)) (next_worker None) W'" and s: "strong_inv X W st"
      have di: "dir_inv X W st cs" using s pl by (simp add: strong_inv_def)
      have c: "sound_dir X cs e \<and> full_dir X cs {} e
         \<and> (\<forall>n. xkind X (cs @ [n]) = Some KDir \<and> \<not> ign X (cs @ [n]) \<longrightarrow> cached X (cs @ [n]) \<noteq> None)"
        if "cached X cs = Some e" using cached_entry(3) [OF su pl that] skip by blast
      have "settled X W st cs" using di c skip(4) by (auto simp: dir_inv_def settled_def)
      then have "settled X W' ?st cs"
        using mv d by (intro settled_mono [OF _ mv]) (auto simp: entry_def)
      then have k: "known X W' ?st cs" using skip(2) by (simp add: known_def)
      have sub: "subdirs_known X W' ?st cs"
        if "cached X cs = Some e" and kn: "\<And>cs. list_all plain_name cs \<Longrightarrow> known X W st cs \<Longrightarrow> known X W' ?st cs"
        unfolding subdirs_known_def
      proof (intro allI impI)
        fix n assume n: "xkind X (cs @ [n]) = Some KDir"
        have pn: "list_all plain_name (cs @ [n])" using su n by (rule xkind_plain)
        show "known X W' ?st (cs @ [n])"
        proof (cases "ign X (cs @ [n])")
          case False
          then have "cached X (cs @ [n]) \<noteq> None" using c [OF that(1)] n by blast
          then have "known X W st (cs @ [n])" using s pn by (simp add: strong_inv_def)
          then show ?thesis by (rule kn [OF pn])
        qed (simp add: known_def)
      qed
      show "strong_inv X W' ?st"
        using mv d sub skip(4) by (intro check_quiet [OF su r _ _ _ s k]) (auto simp: next_worker_def)
    qed (use step skip in \<open>auto simp: simps\<close>)
    then show ?thesis by blast
  next
    case add
    let ?w = "PAdd d (rel_name cs) (xtime X cs)"
    have wt: "waiting X W' cs" if "moves W (WBusy (PCheck d)) (next_worker (Some ?w)) W'" for W'
      using that d by (simp add: waiting_def moves_def next_worker_def)
    have "step_ok X W st (PCheck d) (st\<lparr>st_ctx := ?ctx\<rparr>) (Some ?w)"
    proof (rule quiet_step_ok [OF b])
      fix W' assume mv: "moves W (WBusy (PCheck d)) (next_worker (Some ?w)) W'" and s: "strong_inv X W st"
      show "strong_inv X W' (st\<lparr>st_ctx := ?ctx\<rparr>)"
        using wt [OF mv] by (intro check_quiet [OF su r _ _ mv [unfolded d] s]) (simp_all add: known_def next_worker_def)
    qed (use step add r d in \<open>auto simp: simps\<close>)
    then show ?thesis by blast
  qed
qed

lemma waiting_mono:
  "waiting X W cs \<Longrightarrow> moves W old new W' \<Longrightarrow> \<not> waiting X {old} cs \<Longrightarrow> waiting X W' cs"
  unfolding waiting_def moves_def by blast

lemma entries_strong:
  assumes su: "scan_setup X" and r: "in_reach X cs" and vis: "\<not> ign X cs" and k: "xkind X cs = Some KDir"
    and mv: "moves W (WBusy (PEntries (xname X cs) (rel_name cs) (xtime X cs) es Err_Success fl)) new W'"
    and s: "strong_inv X W st" and old: "settled X W st cs" and loc: "local_step X cs st st'"
    and ext: "\<And>e. entry st cs = Some e \<Longrightarrow> sound_dir X cs e \<Longrightarrow>
        \<exists>e'. entry st' cs = Some e' \<and> sound_dir X cs e'
          \<and> (\<forall>n. map_of (d_files e) n \<noteq> None \<longrightarrow> map_of (d_files e') n \<noteq> None)
          \<and> (full_dir X cs (fst ` set es) e \<longrightarrow>
               full_dir X cs {} e' \<or> (\<exists>R. iterating X W' cs R \<and> full_dir X cs R e'))"
    and sub: "(\<And>cs. list_all plain_name cs \<Longrightarrow> known X W st cs \<Longrightarrow> known X W' st' cs) \<Longrightarrow>
        (\<exists>R. iterating X W' cs R) \<or> subdirs_known X W' st' cs"
    and new: "(\<And>cs. list_all plain_name cs \<Longrightarrow> known X W st cs \<Longrightarrow> known X W' st' cs) \<Longrightarrow>
        settled X W' st' cs \<Longrightarrow> worker_good X W' st' new"
  shows "strong_inv X W' st'"
proof -
  have pl: "list_all plain_name cs" using r by (rule in_reach_plain)
  obtain e where e: "entry st cs = Some e" "sound_dir X cs e"
    "full_dir X cs {} e \<or> (\<exists>R. iterating X W cs R \<and> full_dir X cs R e)"
    using old by (auto simp: settled_def)
  obtain e' where e': "entry st' cs = Some e'" "sound_dir X cs e'"
    "\<And>n. map_of (d_files e) n \<noteq> None \<Longrightarrow> map_of (d_files e') n \<noteq> None"
    "full_dir X cs (fst ` set es) e \<Longrightarrow> full_dir X cs {} e' \<or> (\<exists>R. iterating X W' cs R \<and> full_dir X cs R e')"
    using ext [OF e(1,2)] by blast
  have more: "full_dir X cs R e \<Longrightarrow> full_dir X cs R e'" for R
    using e'(3) unfolding full_dir_def by blast
  have it: "iterating X W' cs R \<or> R = fst ` set es" if "iterating X W cs R" for R
    using that mv unfolding iterating_def moves_def by blast
  have set': "settled X W' st' cs"
    using e(3) e' more it unfolding settled_def by metis
  show ?thesis
  proof (rule strong_step [OF s su mv about_entries [OF su pl] loc pl])
    show "known X W' st' cs" using set' k by (simp add: known_def)
    show "recorded X W' st' cs" using set' by (simp add: recorded_def)
    show "dir_inv X W' st' cs"
      if kn: "\<And>cs. list_all plain_name cs \<Longrightarrow> known X W st cs \<Longrightarrow> known X W' st' cs"
      using set' r vis k sub [OF kn] by (auto simp: dir_inv_def)
    show "worker_good X W' st' new"
      if kn: "\<And>cs. list_all plain_name cs \<Longrightarrow> known X W st cs \<Longrightarrow> known X W' st' cs"
      using new [OF kn set'] .
  qed
qed

text \<open>Steps of a thread that holds nothing, with the table as it was.\<close>

lemma unchanged_strong:
  assumes su: "scan_setup X" and s: "strong_inv X W st" and mv: "moves W old new W'"
    and old: "\<And>cs. about X cs old" "\<And>cs. \<not> waiting X {old} cs"
      "\<And>d r u es ret fl. old \<noteq> WBusy (PEntries d r u es ret fl)"
    and tab: "map_of (scanned_dirs (st_ctx st')) = map_of (scanned_dirs (st_ctx st))"
    and q: "\<And>cs. queued X st cs \<Longrightarrow> queued X st' cs \<or> waiting X W' cs"
    and loc: "local_step X cs0 st st'" and pl: "list_all plain_name cs0"
    and new: "worker_good X W' st' new"
  shows "strong_inv X W' st'"
proof -
  have e: "entry st' cs = entry st cs" for cs using tab by (simp add: entry_def)
  have it: "iterating X W' cs R" if "iterating X W cs R" for cs R
    using that mv old(3) by (rule iterating_mono)
  have se: "settled X W' st' cs" if "settled X W st cs" for cs
    using that mv old(3) e by (rule settled_mono)
  have wt: "waiting X W' cs" if "waiting X W cs" for cs using that mv old(2) by (rule waiting_mono)
  show ?thesis
  proof (rule strong_step [OF s su mv old(1) loc pl])
    show "known X W st cs0 \<Longrightarrow> known X W' st' cs0"
      using q wt se e pl unfolding known_def by metis
    show "recorded X W st cs0 \<Longrightarrow> recorded X W' st' cs0" using se by (simp add: recorded_def)
    show "dir_inv X W' st' cs0"
      if kn: "\<And>cs. list_all plain_name cs \<Longrightarrow> known X W st cs \<Longrightarrow> known X W' st' cs"
    proof -
      have "dir_inv X W st cs0" using s pl by (simp add: strong_inv_def)
      moreover have "subdirs_known X W st cs0 \<Longrightarrow> subdirs_known X W' st' cs0"
        using kn xkind_plain [OF su] unfolding subdirs_known_def by blast
      ultimately show ?thesis using e it se wt q pl unfolding dir_inv_def by metis
    qed
    show "worker_good X W' st' new" by (rule new)
  qed
qed

lemma xitem_ents:
  "scan_setup X \<Longrightarrow> xitem X cs n \<noteq> None \<Longrightarrow> n \<in> fst ` set (ents (fs_nodes (xs X)) (xp X @ cs))"
  using ents_iff [of "fs_nodes (xs X)" n _ "xp X @ cs"]
  by (force simp: scan_setup_def fs_wf_def xitem_def xkind_def Let_def split: option.splits)

lemma AddDirItem_ok:
  assumes "FileInfo (sl_db L) s path True no_info = (True, info)"
  shows "fst (AddDirItem L s path k ctx) = Err_Success"
    and "scanned_dirs (snd (AddDirItem L s path k ctx)) =
       AList.update k \<lparr>d_path = k, d_update_time = fi_update_time info, d_user = fst (fi_owner info),
         d_group = snd (fi_owner info), d_files = [], d_visible_users = []\<rparr> (scanned_dirs ctx)"
    and "same_case st (st\<lparr>st_ctx := snd (AddDirItem L s path k (st_ctx st))\<rparr>)"
    and "sc_dir_queue (snd (AddDirItem L s path k ctx)) = sc_dir_queue ctx"
    and "sc_err_code (snd (AddDirItem L s path k ctx)) = sc_err_code ctx"
  using assms by (auto simp: AddDirItem_def Let_def same_case_def)

lemma add_step_ok:
  assumes b: "base_inv X W st" and w: "WBusy (PAdd d r u) \<in> W"
  shows "\<exists>st' r'. step_ok X W st (PAdd d r u) st' r'"
proof -
  obtain cs where cs: "in_reach X cs" "\<not> ign X cs" "xkind X cs = Some KDir"
    and eq: "d = xname X cs" "r = rel_name cs" "u = xtime X cs"
    using base_worker [OF b w] by auto
  have su: "scan_setup X" and pl: "list_all plain_name cs"
    using b cs by (auto simp: base_inv_def in_reach_plain)
  let ?E = "ents (fs_nodes (xs X)) (xp X @ cs)"
  let ?w = "PEntries d r u ?E Err_Success []"
  define ctx where "ctx = snd (AddDirItem (xL X) (xs X) d r (st_ctx st))"
  obtain info where info: "FileInfo (sl_db (xL X)) (xs X) (xname X cs) True no_info = (True, info)"
    using xname_dir(3) [OF su cs(3)] by (metis prod.collapse)
  note ad = AddDirItem_ok [OF info]
  have add: "AddDirItem (xL X) (xs X) d r (st_ctx st) = (Err_Success, ctx)"
    using ad(1) [of r "st_ctx st"] eq by (simp add: ctx_def prod_eq_iff)
  have tab: "scanned_dirs ctx = AList.update r (xhead X cs) (scanned_dirs (st_ctx st))"
    using ad(2) eq info by (simp add: ctx_def xhead_def)
  have ctx: "same_case st (st\<lparr>st_ctx := ctx\<rparr>)" "sc_dir_queue ctx = sc_dir_queue (st_ctx st)"
    "sc_err_code ctx = sc_err_code (st_ctx st)"
    using ad(3-5) eq by (simp_all add: ctx_def)
  let ?st = "st\<lparr>st_ctx := ctx\<rparr>"
  have step: "ParallelFullScan_step (xL X) (PAdd d r u) st = Some (?st, Some ?w)"
    using add xname_dir(2) [OF su cs(3)] eq b by (simp add: scan_add_def base_inv_def)
  have e: "entry ?st cs = Some (xhead X cs)" by (simp add: entry_def tab eq update_conv')
  have so: "sound_dir X cs (xhead X cs)" by (simp add: sound_dir_def xhead_def Let_def)
  have fu: "full_dir X cs (fst ` set ?E) (xhead X cs)" using xitem_ents [OF su] by (simp add: full_dir_def)
  have "step_ok X W st (PAdd d r u) ?st (Some ?w)"
  proof (rule quiet_step_ok [OF b step ctx(1)])
    show "worker_shape X (next_worker (Some ?w))" using cs eq by (auto simp: next_worker_def)
    fix W' assume mv: "moves W (WBusy (PAdd d r u)) (next_worker (Some ?w)) W'" and s: "strong_inv X W st"
    have it: "iterating X W' cs (fst ` set ?E)"
      using mv eq unfolding iterating_def moves_def next_worker_def by fastforce
    have se: "settled X W' ?st cs" unfolding settled_def using e so fu it by blast
    show "strong_inv X W' ?st"
    proof (rule strong_step [OF s su mv])
      show "about X cs (WBusy (PAdd d r u))" using about_add [OF su pl] eq by simp
      show "local_step X cs st ?st" by (simp add: local_step_def tab eq update_conv' queued_def ctx)
      show "list_all plain_name cs" by (rule pl)
      show "known X W' ?st cs" "recorded X W' ?st cs" using se cs by (simp_all add: known_def recorded_def)
      show "dir_inv X W' ?st cs" unfolding dir_inv_def using se cs it by blast
      have "(n, KDir) \<in> set ?E" if "xkind X (cs @ [n]) = Some KDir" for n
        using that ents_iff [of "fs_nodes (xs X)" n KDir "xp X @ cs"] su
        by (simp add: scan_setup_def fs_wf_def xkind_def)
      then show "worker_good X W' ?st (next_worker (Some ?w))"
        using se xname_inj [OF su pl] eq by (auto simp: next_worker_def recorded_def)
    qed
  qed (use ctx in \<open>simp_all add: next_worker_def\<close>)
  then show ?thesis by blast
qed

lemma entries_next_ok:
  assumes b: "base_inv X W st" and w: "WBusy (PEntries d r u ((n, k) # es) ret fl) \<in> W"
    and step: "ParallelFullScan_step (xL X) (PEntries d r u ((n, k) # es) ret fl) st =
       Some (st', Some (PEntries d r u es ret' (set_insert n fl)))"
    and cs: "d = xname X cs" "in_reach X cs"
    and st': "same_case st st'" "sc_err_code (st_ctx st') = sc_err_code (st_ctx st)" "local_step X cs st st'"
      "sc_dir_queue (st_ctx st') =
         (if k = KDir then sc_dir_queue (st_ctx st) @ [xname X (cs @ [n])] else sc_dir_queue (st_ctx st))"
    and ret: "ret' = Err_Success \<Longrightarrow> ret = Err_Success"
    and ext: "\<And>e. ret' = Err_Success \<Longrightarrow> entry st cs = Some e \<Longrightarrow> sound_dir X cs e \<Longrightarrow>
        \<exists>e'. entry st' cs = Some e' \<and> sound_dir X cs e'
          \<and> (\<forall>m. map_of (d_files e) m \<noteq> None \<longrightarrow> map_of (d_files e') m \<noteq> None)
          \<and> (xitem X cs n \<noteq> None \<longrightarrow> map_of (d_files e') n \<noteq> None)"
  shows "step_ok X W st (PEntries d r u ((n, k) # es) ret fl) st' (Some (PEntries d r u es ret' (set_insert n fl)))"
proof -
  let ?old = "PEntries d r u ((n, k) # es) ret fl" and ?w = "PEntries d r u es ret' (set_insert n fl)"
  have su: "scan_setup X" and pl: "list_all plain_name cs" using b cs by (auto simp: base_inv_def in_reach_plain)
  obtain pre where sh: "\<not> ign X cs" "xkind X cs = Some KDir" "r = rel_name cs" "u = xtime X cs"
    "ents (fs_nodes (xs X)) (xp X @ cs) = pre @ (n, k) # es" "set fl = fst ` set pre"
    using base_worker [OF b w] cs xname_inj [OF su pl] in_reach_plain by auto
  have ents: "(m, KDir) \<in> set (pre @ (n, k) # es) \<longleftrightarrow> xkind X (cs @ [m]) = Some KDir" for m
    using ents_iff [of "fs_nodes (xs X)" m KDir "xp X @ cs"] su sh(5)
    by (simp add: scan_setup_def fs_wf_def xkind_def)
  have shape: "worker_shape X (WBusy ?w)"
    using sh cs by (simp, intro exI [of _ cs] exI [of _ "pre @ [(n, k)]"]) auto
  have base: "base_inv X W' st'" if mv: "moves W (WBusy ?old) (WBusy ?w) W'" for W'
    using base_step [OF b st'(1) mv shape] st'(4) in_reach_child [OF su cs(2) sh(1), of n] ents [of n]
    by (auto split: if_splits)
  have strong: "strong_inv X W' st'"
    if mv: "moves W (WBusy ?old) (WBusy ?w) W'" and ne: "no_error W' st'" and s: "strong_inv X W st" for W'
  proof -
    have r0: "ret' = Err_Success" "ret = Err_Success" using ne mv ret by (auto simp: no_error_def moves_def)
    have it: "iterating X W' cs (fst ` set es)"
      using mv sh cs r0 unfolding iterating_def moves_def by blast
    have old: "settled X W st cs" and subs: "\<And>m. xkind X (cs @ [m]) = Some KDir \<Longrightarrow> (m, KDir) \<notin> set ((n, k) # es) \<Longrightarrow>
        known X W st (cs @ [m])"
      using s w pl cs sh(2) by (auto simp: strong_inv_def recorded_def dest!: bspec [OF _ w])
    show ?thesis
    proof (rule entries_strong [OF su cs(2) sh(1,2) _ s old st'(3)])
      show "moves W (WBusy (PEntries (xname X cs) (rel_name cs) (xtime X cs) ((n, k) # es) Err_Success fl)) (WBusy ?w) W'"
        using mv sh cs r0 by simp
      show "\<exists>e'. entry st' cs = Some e' \<and> sound_dir X cs e'
          \<and> (\<forall>m. map_of (d_files e) m \<noteq> None \<longrightarrow> map_of (d_files e') m \<noteq> None)
          \<and> (full_dir X cs (fst ` set ((n, k) # es)) e \<longrightarrow>
               full_dir X cs {} e' \<or> (\<exists>R. iterating X W' cs R \<and> full_dir X cs R e'))"
        if e0: "entry st cs = Some e" "sound_dir X cs e" for e
      proof -
        obtain e' where e': "entry st' cs = Some e'" "sound_dir X cs e'"
          "\<forall>m. map_of (d_files e) m \<noteq> None \<longrightarrow> map_of (d_files e') m \<noteq> None"
          "xitem X cs n \<noteq> None \<longrightarrow> map_of (d_files e') n \<noteq> None"
          using ext [OF r0(1) e0] by blast
        then have "full_dir X cs (fst ` set ((n, k) # es)) e \<longrightarrow> full_dir X cs (fst ` set es) e'"
          unfolding full_dir_def by (metis fst_conv image_insert insert_iff list.simps(15))
        then show ?thesis using e' it by blast
      qed
      show "(\<exists>R. iterating X W' cs R) \<or> subdirs_known X W' st' cs" using it by blast
      show "worker_good X W' st' (WBusy ?w)"
        if kn: "\<And>cs. list_all plain_name cs \<Longrightarrow> known X W st cs \<Longrightarrow> known X W' st' cs" and se: "settled X W' st' cs"
      proof -
        have "known X W' st' (cs @ [m])" if "xkind X (cs @ [m]) = Some KDir" "(m, KDir) \<notin> set es" for m
        proof (cases "(m, KDir) = (n, k)")
          case True
          then show ?thesis using st'(4) by (simp add: known_def queued_def)
        next
          case False
          then show ?thesis using that subs [of m] kn [OF xkind_plain [OF su that(1)]] by auto
        qed
        then show ?thesis using se xname_inj [OF su pl] cs by (auto simp: recorded_def)
      qed
    qed
  qed
  have "no_error W st" if "moves W (WBusy ?old) (WBusy ?w) W'" "no_error W' st'" for W'
    using that ret by (intro no_error_step [OF that(1,2) _ st'(2)]) simp
  then show ?thesis
    unfolding step_ok_def next_worker_def using step base strong by simp
qed

lemma or_success: "or a b = Err_Success \<longleftrightarrow> a = Err_Success \<and> b = (Err_Success :: int)"
  by (simp add: Err_Success_def or_eq_0_iff)

lemma file_item_error:
  "scan_setup X \<Longrightarrow> file_item (xL X) s hm path n ty = Inl c \<Longrightarrow> c \<noteq> Err_Success"
  by (auto simp: file_item_def scan_setup_def codes_ok_def Let_def split: prod.splits if_splits)

lemma entry_step_ok:
  assumes b: "base_inv X W st" and w: "WBusy (PEntries d r u ((n, k) # es) ret fl) \<in> W"
  shows "\<exists>st' r'. step_ok X W st (PEntries d r u ((n, k) # es) ret fl) st' r'"
proof -
  obtain cs pre where cs: "d = xname X cs" "in_reach X cs" "xkind X cs = Some KDir" and r: "r = rel_name cs"
    and ents: "ents (fs_nodes (xs X)) (xp X @ cs) = pre @ (n, k) # es"
    using base_worker [OF b w] by auto
  have su: "scan_setup X" using b by (simp add: base_inv_def)
  have k: "xkind X (cs @ [n]) = Some k"
    using ents_iff [of "fs_nodes (xs X)" n k "xp X @ cs"] su ents by (simp add: scan_setup_def fs_wf_def xkind_def)
  define res where "res = scan_entry (xL X) (xs X) d r (n, k) ret (st_ctx st)"
  have step: "ParallelFullScan_step (xL X) (PEntries d r u ((n, k) # es) ret fl) st =
      Some (st\<lparr>st_ctx := snd res\<rparr>, Some (PEntries d r u es (fst res) (set_insert n fl)))"
    using b by (simp add: res_def base_inv_def split: prod.splits)
  note goal = entries_next_ok [OF b w step cs(1,2)]
  show ?thesis
  proof (cases "\<exists>ty. xitem X cs n = Some (file_item (xL X) (xs X) (sc_hash_method (st_ctx st))
        (sc_src (st_ctx st) @ ''/'' @ r @ ''/'' @ n) n ty)
      \<and> res = (or ret (fst (AddFileItem (xL X) (xs X) n ty r (st_ctx st))), snd (AddFileItem (xL X) (xs X) n ty r (st_ctx st)))")
    case True
    then obtain ty where ty: "xitem X cs n = Some (file_item (xL X) (xs X) (sc_hash_method (st_ctx st))
        (sc_src (st_ctx st) @ ''/'' @ r @ ''/'' @ n) n ty)"
      and res: "res = (or ret (fst (AddFileItem (xL X) (xs X) n ty r (st_ctx st))), snd (AddFileItem (xL X) (xs X) n ty r (st_ctx st)))"
      by blast
    have kd: "k \<noteq> KDir" using ty k by (auto simp: xitem_def Let_def)
    show ?thesis
    proof (cases "fst (AddFileItem (xL X) (xs X) n ty r (st_ctx st)) = Err_Success")
      case False
      then have "snd res = st_ctx st"
        using res by (auto simp: AddFileItem_def Let_def split: sum.splits option.splits if_splits)
      then have "step_ok X W st (PEntries d r u ((n, k) # es) ret fl) (st\<lparr>st_ctx := snd res\<rparr>)
          (Some (PEntries d r u es (fst res) (set_insert n fl)))"
        using False kd res by (intro goal) (auto simp: same_case_def local_step_def queued_def or_success)
      then show ?thesis by blast
    next
      case True
      then obtain f e where fe: "xitem X cs n = Some (Inr f)" "entry st cs = Some e"
        and tab: "scanned_dirs (snd res) = AList.update r (e\<lparr>d_files := AList.update n f (d_files e)\<rparr>) (scanned_dirs (st_ctx st))"
        and same: "same_case st (st\<lparr>st_ctx := snd res\<rparr>)" "sc_dir_queue (snd res) = sc_dir_queue (st_ctx st)"
          "sc_err_code (snd res) = sc_err_code (st_ctx st)"
        using ty res file_item_error [OF su] r
        by (auto simp: AddFileItem_def Let_def entry_def same_case_def Err_Fail_def Err_Success_def
            split: sum.splits option.splits if_splits)
      have "step_ok X W st (PEntries d r u ((n, k) # es) ret fl) (st\<lparr>st_ctx := snd res\<rparr>)
          (Some (PEntries d r u es (fst res) (set_insert n fl)))"
      proof (intro goal)
        show "\<exists>e'. entry (st\<lparr>st_ctx := snd res\<rparr>) cs = Some e' \<and> sound_dir X cs e'
          \<and> (\<forall>m. map_of (d_files e0) m \<noteq> None \<longrightarrow> map_of (d_files e') m \<noteq> None)
          \<and> (xitem X cs n \<noteq> None \<longrightarrow> map_of (d_files e') n \<noteq> None)"
          if "entry st cs = Some e0" "sound_dir X cs e0" for e0
          using that fe tab r by (auto simp: entry_def update_conv' sound_dir_def)
      qed (use same kd tab r res in \<open>auto simp: local_step_def update_conv' queued_def or_success\<close>)
      then show ?thesis by blast
    qed
  next
    case False
    then have kk: "k = KDir \<or> k = KSock"
      using k b r by (cases k) (auto simp: xitem_def Let_def res_def scan_entry_def base_inv_def scan_setup_def split: prod.splits)
    have xn: "xitem X cs n = None" using k kk by (auto simp: xitem_def Let_def)
    have "step_ok X W st (PEntries d r u ((n, k) # es) ret fl) (st\<lparr>st_ctx := snd res\<rparr>)
        (Some (PEntries d r u es (fst res) (set_insert n fl)))"
      using kk xn cs xname_child [OF su cs(3)]
      by (intro goal) (auto simp: res_def scan_entry_def same_case_def local_step_def queued_def BQ_PushBack_def entry_def)
    then show ?thesis by blast
  qed
qed

lemma RemoveFile_keeps:
  assumes "map_of (scanned_dirs ctx) k = Some e" and "\<And>n f. (n, f) \<in> set (d_files e) \<Longrightarrow> n \<in> set files"
  shows "map_of (scanned_dirs (snd (RemoveFile d files k ctx))) = map_of (scanned_dirs ctx)"
proof -
  have "filter (\<lambda>(n, f). n \<in> set files) (d_files e) = d_files e" using assms(2) by (auto intro: filter_True)
  then show ?thesis using assms(1) by (auto simp: RemoveFile_def Let_def update_conv' fun_upd_idem_iff)
qed

lemma RemoveFile_other:
  "same_case st (st\<lparr>st_ctx := snd (RemoveFile d files k (st_ctx st))\<rparr>)"
  "sc_dir_queue (snd (RemoveFile d files k ctx)) = sc_dir_queue ctx"
  "sc_err_code (snd (RemoveFile d files k ctx)) = sc_err_code ctx"
  "k' \<noteq> k \<Longrightarrow> map_of (scanned_dirs (snd (RemoveFile d files k ctx))) k' = map_of (scanned_dirs ctx) k'"
  by (auto simp: RemoveFile_def Let_def same_case_def update_conv' split: option.splits)

lemma end_step_ok:
  assumes b: "base_inv X W st" and w: "WBusy (PEntries d r u [] ret fl) \<in> W"
  shows "\<exists>st' r'. step_ok X W st (PEntries d r u [] ret fl) st' r'"
proof (cases "ret = Err_Success")
  case False
  have "step_ok X W st (PEntries d r u [] ret fl) (st\<lparr>st_ctx := (st_ctx st)\<lparr>sc_err_code := ret\<rparr>\<rparr>) None"
    using False by (intro error_step_ok [OF b]) (simp_all add: same_case_def next_worker_def)
  then show ?thesis by blast
next
  case True
  obtain cs where cs: "in_reach X cs" "\<not> ign X cs" "xkind X cs = Some KDir"
    and eq: "d = xname X cs" "r = rel_name cs" "u = xtime X cs"
    and fl: "set fl = fst ` set (ents (fs_nodes (xs X)) (xp X @ cs))"
    using base_worker [OF b w] by auto
  have su: "scan_setup X" and pl: "list_all plain_name cs" using b cs by (auto simp: base_inv_def in_reach_plain)
  let ?st = "st\<lparr>st_ctx := snd (RemoveFile d fl r (st_ctx st))\<rparr>"
  have "step_ok X W st (PEntries d r u [] ret fl) ?st (Some (PTouch r u))"
  proof (rule quiet_step_ok [OF b])
    fix W' assume mv: "moves W (WBusy (PEntries d r u [] ret fl)) (next_worker (Some (PTouch r u))) W'"
      and s: "strong_inv X W st"
    have old: "settled X W st cs" and subs: "\<And>m. xkind X (cs @ [m]) = Some KDir \<Longrightarrow> known X W st (cs @ [m])"
      using s w pl cs eq by (auto simp: strong_inv_def recorded_def dest!: bspec [OF _ w])
    have tab: "map_of (scanned_dirs (st_ctx ?st)) = map_of (scanned_dirs (st_ctx st))"
    proof -
      obtain e where e: "entry st cs = Some e" "sound_dir X cs e" using old by (auto simp: settled_def)
      have "n \<in> set fl" if "(n, f) \<in> set (d_files e)" for n f
      proof -
        have "map_of (d_files e) n \<noteq> None" using that by (metis weak_map_of_SomeI option.distinct(1))
        then have "xitem X cs n \<noteq> None" using e(2) by (auto simp: sound_dir_def)
        then show ?thesis using xitem_ents [OF su] fl by simp
      qed
      then show ?thesis using RemoveFile_keeps [of "st_ctx st" r e fl d] e(1) eq by (simp add: entry_def)
    qed
    show "strong_inv X W' ?st"
    proof (rule entries_strong [OF su cs _ s old])
      show "moves W (WBusy (PEntries (xname X cs) (rel_name cs) (xtime X cs) [] Err_Success fl))
          (next_worker (Some (PTouch r u))) W'" using mv eq True by simp
      show "local_step X cs st ?st" by (simp add: local_step_def queued_def RemoveFile_other tab [simplified])
      show "\<exists>e'. entry ?st cs = Some e' \<and> sound_dir X cs e'
          \<and> (\<forall>n. map_of (d_files e) n \<noteq> None \<longrightarrow> map_of (d_files e') n \<noteq> None)
          \<and> (full_dir X cs (fst ` set []) e \<longrightarrow>
               full_dir X cs {} e' \<or> (\<exists>R. iterating X W' cs R \<and> full_dir X cs R e'))"
        if "entry st cs = Some e" "sound_dir X cs e" for e
        using that tab by (simp add: entry_def)
      show "(\<exists>R. iterating X W' cs R) \<or> subdirs_known X W' ?st cs"
        if kn: "\<And>cs. list_all plain_name cs \<Longrightarrow> known X W st cs \<Longrightarrow> known X W' ?st cs"
        using kn subs xkind_plain [OF su] unfolding subdirs_known_def by blast
      show "worker_good X W' ?st (next_worker (Some (PTouch r u)))" if "settled X W' ?st cs"
        using that rel_name_inj [OF pl] eq by (auto simp: next_worker_def recorded_def)
    qed
  qed (use True cs eq in \<open>auto simp: next_worker_def RemoveFile_other\<close>)
  then show ?thesis by blast
qed

lemma touch_step_ok:
  assumes b: "base_inv X W st" and w: "WBusy (PTouch r u) \<in> W"
  shows "\<exists>st' r'. step_ok X W st (PTouch r u) st' r'"
proof -
  obtain cs where cs: "in_reach X cs" "xkind X cs = Some KDir" and eq: "r = rel_name cs" "u = xtime X cs"
    using base_worker [OF b w] by auto
  have su: "scan_setup X" and pl: "list_all plain_name cs" using b cs by (auto simp: base_inv_def in_reach_plain)
  let ?st = "st\<lparr>st_ctx := touch_dir r u (st_ctx st)\<rparr>"
  have other: "same_case st ?st" "sc_dir_queue (st_ctx ?st) = sc_dir_queue (st_ctx st)"
    "sc_err_code (st_ctx ?st) = sc_err_code (st_ctx st)"
    by (auto simp: touch_dir_def same_case_def split: option.splits)
  have "step_ok X W st (PTouch r u) ?st None"
  proof (rule quiet_step_ok [OF b])
    fix W' assume mv: "moves W (WBusy (PTouch r u)) (next_worker None) W'" and s: "strong_inv X W st"
    have "settled X W st cs"
      using s w pl cs eq by (auto simp: strong_inv_def recorded_def dest!: bspec [OF _ w])
    then obtain e where e: "entry st cs = Some e" "sound_dir X cs e" by (auto simp: settled_def)
    have "d_update_time e = d_update_time (e\<lparr>d_files := []\<rparr>)" by simp
    also have "\<dots> = xtime X cs" using e(2) xname_dir(4) [OF su cs(2)] by (simp add: sound_dir_def)
    finally have "d_update_time e = xtime X cs" .
    then have "e\<lparr>d_update_time := u\<rparr> = e" using eq by simp
    then have tab: "map_of (scanned_dirs (st_ctx ?st)) = map_of (scanned_dirs (st_ctx st))"
      using e(1) eq by (auto simp: touch_dir_def entry_def update_conv' fun_upd_idem_iff)
    show "strong_inv X W' ?st"
      using other tab pl
      by (intro unchanged_strong [OF su s mv _ _ _ tab, where ?cs0.0 = cs])
        (auto simp: waiting_def queued_def local_step_def next_worker_def)
  qed (use other in \<open>simp_all add: next_worker_def\<close>)
  then show ?thesis by blast
qed

lemma work_step_ok:
  assumes "base_inv X W st" and "WBusy w \<in> W"
  shows "\<exists>st' r. step_ok X W st w st' r"
proof (cases w)
  case (PEntries d r u es ret fl)
  then show ?thesis using assms entry_step_ok end_step_ok by (cases es) auto
qed (use assms check_step_ok add_step_ok touch_step_ok in auto)

section \<open>Every schedule\<close>

text \<open>The dump task is not due.\<close>

fun no_dump :: "int \<Rightarrow> scan_event \<Rightarrow> bool" where
  "no_dump t (DumpTask cur_time uuid after) = (cur_time - t \<le> 10 * 60 * 1000)"
| "no_dump t Stop = False"

lemma scan_inv_unchanged:
  assumes inv: "scan_inv X ws st" and i: "i < length ws" and old: "ws ! i = WIdle t \<or> ws ! i = WStopped"
    and v: "v = WIdle t' \<or> v = WStopped"
  shows "scan_inv X (ws[i := v]) st"
proof -
  have mv: "moves (set ws) (ws ! i) v (set (ws[i := v]))" using i by (rule moves_update)
  have b: "base_inv X (set ws) st" using inv by (simp add: scan_inv_def)
  have su: "scan_setup X" using b by (simp add: base_inv_def)
  have "base_inv X (set (ws[i := v])) st"
    using v by (intro base_step [OF b _ mv]) (auto simp: same_case_def)
  moreover have "no_error (set ws) st" if "no_error (set (ws[i := v])) st"
    using old by (intro no_error_step [OF mv that]) auto
  moreover have "strong_inv X (set (ws[i := v])) st" if "strong_inv X (set ws) st"
    using old v by (intro unchanged_strong [OF su that mv, where ?cs0.0 = "[]"])
      (auto simp: waiting_def local_step_def queued_def)
  ultimately show ?thesis using inv by (auto simp: scan_inv_def)
qed

lemma scan_inv_pop:
  assumes inv: "scan_inv X ws st" and i: "i < length ws" and old: "ws ! i = WIdle t"
    and q: "sc_dir_queue (st_ctx st) = q @ [d]"
  shows "scan_inv X (ws[i := WBusy (PCheck d)]) (st\<lparr>st_ctx := (st_ctx st)\<lparr>sc_dir_queue := q\<rparr>\<rparr>)"
    (is "scan_inv X ?ws ?st")
proof -
  have mv: "moves (set ws) (WIdle t) (WBusy (PCheck d)) (set ?ws)"
    using moves_update [OF i] old by metis
  have b: "base_inv X (set ws) st" using inv by (simp add: scan_inv_def)
  have su: "scan_setup X" using b by (simp add: base_inv_def)
  obtain cs where cs: "in_reach X cs" "d = xname X cs" using b q by (auto simp: base_inv_def)
  have pl: "list_all plain_name cs" using cs(1) by (rule in_reach_plain)
  have base: "base_inv X (set ?ws) ?st"
    using cs by (intro base_step [OF b _ mv]) (auto simp: same_case_def q)
  have "no_error (set ws) st" if "no_error (set ?ws) ?st"
    by (rule no_error_step [OF mv that]) auto
  moreover have "strong_inv X (set ?ws) ?st" if s: "strong_inv X (set ws) st"
  proof (rule unchanged_strong [OF su s mv, where ?cs0.0 = cs])
    show "local_step X cs st ?st"
      using xname_inj [OF su _ pl] cs(2) by (auto simp: local_step_def queued_def q)
    show "queued X ?st ds \<or> waiting X (set ?ws) ds" if "queued X st ds" for ds
      using that mv by (auto simp: queued_def q waiting_def moves_def)
  qed (auto simp: waiting_def pl)
  ultimately show ?thesis using inv base by (auto simp: scan_inv_def)
qed

lemma scan_inv_work:
  assumes inv: "scan_inv X ws st" and i: "i < length ws" and old: "ws ! i = WBusy w"
  shows "\<exists>st' r. ParallelFullScan_step (xL X) w st = Some (st', r)
    \<and> scan_inv X (ws[i := (case r of None \<Rightarrow> WIdle 0 | Some w' \<Rightarrow> WBusy w')]) st'"
proof -
  have b: "base_inv X (set ws) st" using inv by (simp add: scan_inv_def)
  have "WBusy w \<in> set ws" using i old by (metis nth_mem)
  then obtain st' r where ok: "step_ok X (set ws) st w st' r" using work_step_ok [OF b] by blast
  have "moves (set ws) (WBusy w) (next_worker r) (set (ws[i := next_worker r]))"
    using moves_update [OF i] old by metis
  then have "scan_inv X (ws[i := next_worker r]) st'"
    using ok inv unfolding step_ok_def scan_inv_def by blast
  then show ?thesis using ok unfolding step_ok_def next_worker_def by blast
qed

interpretation scan_pool: pool_invariant "ParallelFullScan (xL X)" "scan_env_step (xL X)" "no_dump (xt X)" "scan_inv X"
proof
  fix q :: "string list" and s
  show "jqueue (ParallelFullScan (xL X)) (jset_queue (ParallelFullScan (xL X)) q s) = q"
    by (simp add: ParallelFullScan_def)
next
  fix ws s i t t' and v :: "scan_phase worker"
  assume "scan_inv X ws s" "i < length ws" "ws ! i = WIdle t" "v = WStopped \<or> v = WIdle t'"
  then show "scan_inv X (ws[i := v]) s" using scan_inv_unchanged by blast
next
  fix ws s i t q d
  assume "scan_inv X ws s" "i < length ws" "ws ! i = WIdle t" "jqueue (ParallelFullScan (xL X)) s = q @ [d]"
  then show "scan_inv X (ws[i := WBusy (jstart (ParallelFullScan (xL X)) d)]) (jset_queue (ParallelFullScan (xL X)) q s)"
    using scan_inv_pop by (simp add: ParallelFullScan_def)
next
  fix ws s i and w :: scan_phase
  assume "scan_inv X ws s" "i < length ws" "ws ! i = WBusy w"
  then show "\<exists>s' r. jwork (ParallelFullScan (xL X)) w s = Some (s', r)
      \<and> scan_inv X (ws[i := (case r of None \<Rightarrow> WIdle 0 | Some w' \<Rightarrow> WBusy w')]) s'"
    using scan_inv_work by (simp add: ParallelFullScan_def)
next
  fix ws s i
  assume "scan_inv X ws s" "i < length ws" "ws ! i = WStopped"
  then show "scan_inv X (ws[i := WIdle 0]) s" using scan_inv_unchanged by blast
next
  fix ws s
  assume "scan_inv X ws s"
  then show "\<not> jstop (ParallelFullScan (xL X)) s" by (simp add: scan_inv_def base_inv_def ParallelFullScan_def)
next
  fix ws s e
  assume "scan_inv X ws s" "no_dump (xt X) e"
  then show "scan_inv X ws (scan_env_step (xL X) e s)
      \<and> jqueue (ParallelFullScan (xL X)) (scan_env_step (xL X) e s) = jqueue (ParallelFullScan (xL X)) s"
    by (cases e) (auto simp: scan_inv_def base_inv_def)
qed


section \<open>The first and the last state\<close>

lemma start_queue_simps [simp]:
  "sc_status (start_queue ctx) = sc_status ctx" "sc_src (start_queue ctx) = sc_src ctx"
  "sc_hash_method (start_queue ctx) = sc_hash_method ctx" "scanned_dirs (start_queue ctx) = scanned_dirs ctx"
  "sc_err_code (start_queue ctx) = sc_err_code ctx"
  by (simp_all add: start_queue_def scanned_dirs_def)

lemma start_queue_set:
  "set (sc_dir_queue (start_queue ctx)) =
     set (sc_dir_queue ctx) \<union> {sc_src ctx}
     \<union> (\<lambda>k. sc_src ctx @ ''/'' @ k) ` (fst ` set (scanned_dirs ctx) - {[]})"
proof -
  have "set (fold (\<lambda>(k, d) q. if k = [] then q else BQ_PushBack (a @ ''/'' @ k) q) m q0) =
      set q0 \<union> (\<lambda>k. a @ ''/'' @ k) ` (fst ` set m - {[]})" for a q0 and m :: "(string \<times> Dir) list"
  proof (induction m arbitrary: q0)
    case (Cons x m)
    obtain k d where x: "x = (k, d)" by fastforce
    show ?case using Cons.IH by (cases "k = []") (auto simp: x BQ_PushBack_def)
  qed simp
  then show ?thesis by (auto simp: start_queue_def BQ_PushBack_def)
qed

definition first_state :: "('c, 'z) scan_case \<Rightarrow> scan_st" where
  "first_state X = \<lparr>st_ctx = start_queue (xc X), st_fs = xs X, st_last_dump = xt X, st_stop = False\<rparr>"

lemma xname_key:
  "scan_setup X \<Longrightarrow> list_all plain_name cs \<Longrightarrow>
   xname X cs = (if cs = [] then sc_src (xc X) else sc_src (xc X) @ ''/'' @ rel_name cs)"
  by (simp add: scan_setup_def xname_def render_append)

lemma cached_key:
  "scan_setup X \<Longrightarrow> map_of (scanned_dirs (xc X)) k = Some d \<Longrightarrow> \<exists>cs. k = rel_name cs \<and> in_reach X cs"
  unfolding scan_setup_def cache_ok_def by blast

lemma first_state_inv:
  assumes su: "scan_setup X" and q: "sc_dir_queue (xc X) = []"
  shows "scan_inv X (replicate n (WIdle 0)) (first_state X)"
proof -
  let ?W = "set (replicate n (WIdle 0 :: scan_phase worker))" and ?st = "first_state X"
  have W: "?W \<subseteq> {WIdle 0}" by auto
  have qd: "queued X ?st cs" if "list_all plain_name cs" "cs = [] \<or> cached X cs \<noteq> None" for cs
  proof (cases "cs = []")
    case False
    then have "rel_name cs \<in> fst ` set (scanned_dirs (xc X))" using that by (simp add: cached_def map_of_eq_None_iff)
    then show ?thesis
      using False that rel_name_empty [of cs] xname_key [OF su that(1)]
      by (auto simp: queued_def first_state_def start_queue_set)
  qed (simp add: queued_def first_state_def start_queue_set xname_key [OF su])
  have "\<exists>cs. in_reach X cs \<and> x = xname X cs" if x: "x \<in> set (sc_dir_queue (st_ctx ?st))" for x
  proof -
    consider "x = sc_src (xc X)"
      | k where "k \<noteq> []" "k \<in> fst ` set (scanned_dirs (xc X))" "x = sc_src (xc X) @ ''/'' @ k"
      using x q by (auto simp: first_state_def start_queue_set)
    then show ?thesis
    proof cases
      case 1
      have "in_reach X []" using su by (simp add: in_reach_def scan_setup_def)
      then show ?thesis using 1 xname_key [OF su, of "[]"] by auto
    next
      case (2 k)
      obtain d where "map_of (scanned_dirs (xc X)) k = Some d" using 2(2) by (metis map_of_eq_None_iff not_None_eq)
      then obtain cs where cs: "k = rel_name cs" "in_reach X cs" using cached_key [OF su] by blast
      moreover have "cs \<noteq> []" using 2(1) cs(1) by auto
      ultimately show ?thesis using 2(3) xname_key [OF su in_reach_plain [OF cs(2)]] by auto
    qed
  qed
  then have "base_inv X ?W ?st" using su W by (auto simp: base_inv_def first_state_def)
  moreover have "strong_inv X ?W ?st"
    unfolding strong_inv_def
  proof (intro conjI allI impI ballI)
    fix k d assume "map_of (scanned_dirs (st_ctx ?st)) k = Some d"
    then show "\<exists>cs. list_all plain_name cs \<and> k = rel_name cs"
      using cached_key [OF su] in_reach_plain by (fastforce simp: first_state_def)
  next
    fix cs assume pl: "list_all plain_name cs"
    show "dir_inv X ?W ?st cs" using qd [OF pl] by (auto simp: dir_inv_def entry_def cached_def first_state_def)
  next
    fix cs assume "list_all plain_name cs \<and> (cs = [] \<or> cached X cs \<noteq> None)"
    then show "known X ?W ?st cs" using qd by (simp add: known_def)
  qed (use W in auto)
  ultimately show ?thesis by (simp add: scan_inv_def)
qed

definition visible :: "('c, 'z) scan_case \<Rightarrow> string list \<Rightarrow> bool" where
  "visible X cs \<longleftrightarrow> xkind X cs = Some KDir \<and> (\<forall>ds. prefix ds cs \<longrightarrow> \<not> ign X ds)"

lemma last_state_exact:
  assumes inv: "scan_inv X ws st" and stop: "all_stopped ws" and q: "sc_dir_queue (st_ctx st) = []"
    and ok: "sc_err_code (st_ctx st) = Err_Success"
  shows "map_of (scanned_dirs (st_ctx st)) k = Some d \<Longrightarrow>
           \<exists>cs. k = rel_name cs \<and> visible X cs \<and> sound_dir X cs d \<and> full_dir X cs {} d"
    and "visible X cs \<Longrightarrow> map_of (scanned_dirs (st_ctx st)) (rel_name cs) \<noteq> None"
proof -
  have W: "set ws \<subseteq> {WStopped}" using stop by (auto simp: all_stopped_def list_all_iff)
  then have no: "no_error (set ws) st" using ok by (auto simp: no_error_def)
  have su: "scan_setup X" and s: "strong_inv X (set ws) st" using inv no by (auto simp: scan_inv_def base_inv_def)
  have idle: "\<not> queued X st cs" "\<not> waiting X (set ws) cs" "\<not> iterating X (set ws) cs R" for cs R
    using W q by (auto simp: queued_def waiting_def iterating_def)
  have exact: "in_reach X cs \<and> \<not> ign X cs \<and> xkind X cs = Some KDir \<and> sound_dir X cs d \<and> full_dir X cs {} d"
    if pl: "list_all plain_name cs" and e: "entry st cs = Some d" for cs d
  proof -
    have di: "dir_inv X (set ws) st cs" using s pl by (simp add: strong_inv_def)
    have vis: "in_reach X cs" "\<not> ign X cs" using entry_visible [OF su pl di e] by auto
    have "xkind X cs = Some KDir \<and> settled X (set ws) st cs"
    proof (cases "cached X cs = Some d")
      case True
      then have "known X (set ws) st cs" using s pl by (simp add: strong_inv_def)
      then show ?thesis using idle vis e by (simp add: known_def)
    next
      case False
      then show ?thesis using di e by (auto simp: dir_inv_def)
    qed
    then show ?thesis using vis idle e by (auto simp: settled_def)
  qed
  show "\<exists>cs. k = rel_name cs \<and> visible X cs \<and> sound_dir X cs d \<and> full_dir X cs {} d"
    if k: "map_of (scanned_dirs (st_ctx st)) k = Some d" for k d
  proof -
    obtain cs where cs: "list_all plain_name cs" "k = rel_name cs"
      using s k unfolding strong_inv_def by blast
    then have ex: "in_reach X cs \<and> \<not> ign X cs \<and> xkind X cs = Some KDir \<and> sound_dir X cs d \<and> full_dir X cs {} d"
      using k by (intro exact) (simp_all add: entry_def)
    moreover have "\<not> ign X ds" if "prefix ds cs" for ds
      using ex that by (cases "ds = cs") (auto simp: in_reach_def strict_prefix_def)
    ultimately show ?thesis using cs(2) unfolding visible_def by blast
  qed
  show "map_of (scanned_dirs (st_ctx st)) (rel_name cs) \<noteq> None" if "visible X cs" for cs
    using that
  proof (induction cs rule: rev_induct)
    case Nil
    have "known X (set ws) st []" using s by (simp add: strong_inv_def)
    then show ?case using Nil idle by (auto simp: known_def visible_def settled_def entry_def)
  next
    case (snoc n cs)
    have pl: "list_all plain_name cs" using snoc.prems xkind_plain [OF su, of "cs @ [n]"] by (auto simp: visible_def)
    have "is_dir (fs_nodes (xs X)) (xp X @ cs)"
      using snoc.prems su wf_ancestor_dir [of "fs_nodes (xs X)" "xp X @ cs" "[n]"]
      by (simp add: visible_def xkind_def is_dir_def scan_setup_def fs_wf_def)
    then have "visible X cs" using snoc.prems by (auto simp: visible_def xkind_def is_dir_def)
    then obtain d where e: "entry st cs = Some d" using snoc.IH by (auto simp: entry_def)
    have "dir_inv X (set ws) st cs" using s pl by (simp add: strong_inv_def)
    then have "subdirs_known X (set ws) st cs" using e exact [OF pl e] idle by (auto simp: dir_inv_def)
    then have "known X (set ws) st (cs @ [n])" using snoc.prems by (simp add: subdirs_known_def visible_def)
    then show ?case using snoc.prems idle by (auto simp: known_def visible_def settled_def entry_def)
  qed
qed


section \<open>The scan ends\<close>

definition table_size :: "fs \<Rightarrow> nat" where
  "table_size s = length (fs_nodes s) + 10"

definition max_depth :: "fs \<Rightarrow> nat" where
  "max_depth s = Max (insert 0 (set (map (length \<circ> fst) (fs_nodes s))))"

text \<open>The weight of the entries of a directory and of a directory in the queue.\<close>

definition child_weight :: "fs \<Rightarrow> string \<Rightarrow> nat" where
  "child_weight s d = table_size s ^ (max_depth s - length (walk_comps d) + 1)"

definition dir_weight :: "fs \<Rightarrow> string \<Rightarrow> nat" where
  "dir_weight s d = table_size s * child_weight s d"

fun phase_weight :: "fs \<Rightarrow> scan_phase \<Rightarrow> nat" where
  "phase_weight s (PCheck d) = dir_weight s d - 2"
| "phase_weight s (PAdd d r u) = dir_weight s d - 3"
| "phase_weight s (PEntries d r u es ret fl) = length es * (child_weight s d + 1) + 2"
| "phase_weight s (PTouch r u) = 1"

lemma child_weight_ge: "table_size s \<le> child_weight s d"
  by (simp add: child_weight_def table_size_def)

lemma dir_weight_ge: "10 \<le> dir_weight s d"
proof -
  have "10 \<le> table_size s" by (simp add: table_size_def)
  moreover have "1 \<le> child_weight s d" using child_weight_ge [of s d] calculation by linarith
  ultimately show ?thesis unfolding dir_weight_def by (metis mult.right_neutral mult_le_mono)
qed

lemma length_ents: "length (ents N q) \<le> length N"
  by (simp add: ents_def)

lemma entries_weight:
  assumes "length es \<le> length (fs_nodes s)"
  shows "length es * (child_weight s d + 1) + 2 < dir_weight s d - 3"
proof -
  let ?B = "length (fs_nodes s)" and ?c = "child_weight s d"
  have "length es * (?c + 1) \<le> ?B * (?c + 1)" using assms by (rule mult_le_mono1)
  moreover have "?B + 10 \<le> ?c" using child_weight_ge [of s d] by (simp add: table_size_def)
  moreover have "dir_weight s d = ?B * ?c + 10 * ?c" by (simp add: dir_weight_def table_size_def algebra_simps)
  ultimately show ?thesis by (simp add: algebra_simps)
qed

lemma child_weight_render:
  assumes "list_all plain_name (p @ [n])" and "kind_at (fs_nodes s) (p @ [n]) = Some k"
  shows "dir_weight s (render (p @ [n])) = child_weight s (render p)"
proof -
  have wc: "walk_comps (render (p @ [n])) = p @ [n]" "walk_comps (render p) = p"
    using plain_at_render [OF assms(1)] plain_at_render [of p] assms(1) by (simp_all add: plain_at_def)
  have "p @ [n] \<in> set (map fst (fs_nodes s))" using kind_at_in_keys [OF assms(2)] by simp
  then have "length (p @ [n]) \<in> set (map (length \<circ> fst) (fs_nodes s))" by force
  then have "length (p @ [n]) \<le> max_depth s" unfolding max_depth_def by (intro Max_ge) auto
  then show ?thesis using wc by (simp add: dir_weight_def child_weight_def Suc_diff_Suc flip: power_Suc)
qed

lemma child_dir_weight:
  assumes su: "scan_setup X" and k: "xkind X (cs @ [n]) = Some KDir"
  shows "dir_weight (xs X) (xname X (cs @ [n])) = child_weight (xs X) (xname X cs)"
  using child_weight_render [of "xp X @ cs" n "xs X" KDir] xkind_plain [OF su k] su k
  by (simp add: xname_def xkind_def scan_setup_def)

lemma check_result:
  "scan_check L d st = Some (st', r) \<Longrightarrow>
   sc_dir_queue (st_ctx st') = sc_dir_queue (st_ctx st) \<and> (r = None \<or> (\<exists>k u. r = Some (PAdd d k u)))"
  by (auto simp: scan_check_def Let_def RemoveDir_effect split: option.splits if_splits prod.splits)

lemma AddDirItem_queue: "sc_dir_queue (snd (AddDirItem L s d k ctx)) = sc_dir_queue ctx"
  by (simp add: AddDirItem_def Let_def split: prod.splits)

lemma AddFileItem_queue: "sc_dir_queue (snd (AddFileItem L s n ty k ctx)) = sc_dir_queue ctx"
  by (simp add: AddFileItem_def Let_def split: sum.splits option.splits)

lemma touch_queue: "sc_dir_queue (touch_dir k u ctx) = sc_dir_queue ctx"
  by (simp add: touch_dir_def split: option.splits)

lemma scan_entry_queue:
  "sc_dir_queue (snd (scan_entry L s d k (n, kd) ret ctx)) =
     (if kd = KDir then sc_dir_queue ctx @ [entry_path d n] else sc_dir_queue ctx)"
  by (cases kd) (simp_all add: scan_entry_def BQ_PushBack_def AddFileItem_queue case_prod_unfold)

lemma work_lowers:
  assumes b: "base_inv X W st" and w: "WBusy w \<in> W" and step: "ParallelFullScan_step (xL X) w st = Some (st', r)"
  shows "sum_list (map (dir_weight (xs X)) (sc_dir_queue (st_ctx st')))
      + (case r of None \<Rightarrow> 0 | Some w' \<Rightarrow> Suc (phase_weight (xs X) w'))
    < sum_list (map (dir_weight (xs X)) (sc_dir_queue (st_ctx st))) + Suc (phase_weight (xs X) w)"
proof -
  have su: "scan_setup X" and fs: "st_fs st = xs X" using b by (auto simp: base_inv_def)
  show ?thesis
  proof (cases w)
    case (PCheck d)
    then show ?thesis using step check_result [of "xL X" d st st' r] dir_weight_ge [of "xs X" d] by auto
  next
    case (PAdd d k u)
    obtain cs where cs: "xkind X cs = Some KDir" "d = xname X cs" using base_worker [OF b w] PAdd by auto
    let ?E = "ents (fs_nodes (xs X)) (xp X @ cs)"
    have "sc_dir_queue (st_ctx st') = sc_dir_queue (st_ctx st)
        \<and> (r = None \<or> r = Some (PEntries d k u ?E Err_Success []))"
      using step PAdd xname_dir(2) [OF su cs(1)] cs(2) fs AddDirItem_queue [of "xL X" "xs X" d k "st_ctx st"]
      by (auto simp: scan_add_def split: prod.splits if_splits)
    then show ?thesis
      using PAdd entries_weight [OF length_ents, of "xs X" "xp X @ cs" d] by auto
  next
    case (PEntries d k u es ret fl)
    obtain cs pre where cs: "xkind X cs = Some KDir" "d = xname X cs"
      and ents: "ents (fs_nodes (xs X)) (xp X @ cs) = pre @ es"
      using base_worker [OF b w] PEntries by auto
    show ?thesis
    proof (cases es)
      case Nil
      then show ?thesis using step PEntries RemoveFile_other(2) by (auto split: if_splits)
    next
      case (Cons e es')
      obtain n kd where e: "e = (n, kd)" by fastforce
      have q: "sc_dir_queue (st_ctx st') = (if kd = KDir then sc_dir_queue (st_ctx st) @ [xname X (cs @ [n])] else sc_dir_queue (st_ctx st))"
        and r: "\<exists>ret'. r = Some (PEntries d k u es' ret' (set_insert n fl))"
        using step PEntries Cons e fs scan_entry_queue [of "xL X" "xs X" d k n kd ret "st_ctx st"] xname_child [OF su cs(1)] cs(2)
        by (auto split: prod.splits)
      have "dir_weight (xs X) (xname X (cs @ [n])) = child_weight (xs X) d" if "kd = KDir"
        using that child_dir_weight [OF su] ents_iff [of "fs_nodes (xs X)" n kd "xp X @ cs"] ents Cons e su cs(2)
        by (simp add: xkind_def scan_setup_def fs_wf_def)
      then show ?thesis using q r PEntries Cons by auto
    qed
  next
    case (PTouch k u)
    then show ?thesis using step by (auto simp: touch_queue)
  qed
qed

interpretation scan_term: pool_terminates "ParallelFullScan (xL X)" "scan_env_step (xL X)" "no_dump (xt X)" "scan_inv X"
  "dir_weight (xs X)" "phase_weight (xs X)"
proof
  show "Suc (phase_weight (xs X) (jstart (ParallelFullScan (xL X)) d)) < dir_weight (xs X) d" for d
    using dir_weight_ge [of "xs X" d] by (simp add: ParallelFullScan_def)
next
  fix ws s i s' r and w :: scan_phase
  assume "scan_inv X ws s" "i < length ws" "ws ! i = WBusy w" "jwork (ParallelFullScan (xL X)) w s = Some (s', r)"
  then show "sum_list (map (dir_weight (xs X)) (jqueue (ParallelFullScan (xL X)) s')) +
      (case r of None \<Rightarrow> 0 | Some w' \<Rightarrow> Suc (phase_weight (xs X) w'))
      < sum_list (map (dir_weight (xs X)) (jqueue (ParallelFullScan (xL X)) s)) + Suc (phase_weight (xs X) w)"
    using work_lowers [of X "set ws" s w s' r] nth_mem [of i ws]
    by (simp add: ParallelFullScan_def scan_inv_def)
qed


section \<open>What an exact record says\<close>

definition mtime_ms :: "fnode \<Rightarrow> int" where
  "mtime_ms v = fst (nmtime v) * 1000 + snd (nmtime v) sdiv 1000000"

text \<open>\<open>f\<close> describes the entry \<open>v\<close> of the name \<open>n\<close>; \<open>path\<close> is the path the scan hashed.\<close>

definition exact_file :: "('c, 'z) scan_case \<Rightarrow> string \<Rightarrow> string \<Rightarrow> FileType \<Rightarrow> fnode \<Rightarrow> FileG \<Rightarrow> bool" where
  "exact_file X path n ty v f \<longleftrightarrow>
     f_file_name f = n \<and> f_file_type f = ty \<and> f_file_size f = int (kind_size (nkind v))
     \<and> f_update_time f = mtime_ms v
     \<and> f_file_hash f = snd (CalcHash (xL X) (xs X) path (sc_hash_method (xc X)) '''')"

definition exact_dir :: "('c, 'z) scan_case \<Rightarrow> string list \<Rightarrow> Dir \<Rightarrow> bool" where
  "exact_dir X cs d \<longleftrightarrow>
     d_path d = rel_name cs
     \<and> (\<exists>v. node_at (fs_nodes (xs X)) (xp X @ cs) = Some v \<and> d_update_time d = mtime_ms v)
     \<and> (\<forall>n. case node_at (fs_nodes (xs X)) (xp X @ cs @ [n]) of
            None \<Rightarrow> map_of (d_files d) n = None
          | Some v \<Rightarrow>
              let path = render (xp X) @ ''/'' @ rel_name cs @ ''/'' @ n
              in case nkind v of
                   KReg c \<Rightarrow> (\<exists>f. map_of (d_files d) n = Some f \<and> exact_file X path n FT_Regular v f)
                 | KLink t \<Rightarrow> (\<exists>f. map_of (d_files d) n = Some f \<and> exact_file X path n FT_Symlink v f)
                 | _ \<Rightarrow> map_of (d_files d) n = None)"

lemma lstat_plain:
  assumes "fs_wf s" "plain_at path p" "node_at (fs_nodes s) p = Some v"
  shows "sys_lstat s path = Inr v"
proof -
  have "kind_at (fs_nodes s) p = Some (nkind v)" using assms(3) by (simp add: kind_at_def)
  then have "good_at (fs_nodes s) p" using assms(1) by (auto simp: fs_wf_def intro: wf_good)
  then have "resolve s False path = Inr p" using assms by (intro resolve_plain) (auto simp: good_at_def)
  then show ?thesis using assms(3) by (simp add: sys_lstat_def stat_at_def)
qed

lemma file_item_exact:
  assumes "file_item (xL X) (xs X) (sc_hash_method (xc X)) path n ty = Inr f" and "sys_lstat (xs X) path = Inr v"
  shows "exact_file X path n ty v f"
  using assms
  by (auto simp: file_item_def Let_def FileInfo_def exact_file_def mtime_ms_def FileG_default_def
      split: prod.splits if_splits)

lemma sound_full_exact:
  assumes su: "scan_setup X" and k: "xkind X cs = Some KDir" and so: "sound_dir X cs d" and fu: "full_dir X cs {} d"
  shows "exact_dir X cs d"
proof -
  have wf: "fs_wf (xs X)" and pl: "list_all plain_name (xp X @ cs)" and ne: "xp X \<noteq> []"
    using su xkind_plain [OF su k] by (auto simp: scan_setup_def)
  have head: "d\<lparr>d_files := []\<rparr> = xhead X cs" using so by (simp add: sound_dir_def)
  have path: "d_path d = rel_name cs" using arg_cong [OF head, of d_path] by (simp add: xhead_def Let_def)
  obtain v where v: "node_at (fs_nodes (xs X)) (xp X @ cs) = Some v" using k by (auto simp: xkind_def kind_at_def)
  have "sys_lstat (xs X) (xname X cs) = Inr v"
    using lstat_plain [OF wf plain_at_render [OF pl] v] by (simp add: xname_def)
  then have time: "d_update_time d = mtime_ms v"
    using arg_cong [OF head, of d_update_time] by (simp add: xhead_def FileInfo_def mtime_ms_def)
  have item: "\<exists>f. map_of (d_files d) n = Some f \<and> exact_file X (render (xp X) @ ''/'' @ rel_name cs @ ''/'' @ n) n ty v' f"
    if v': "node_at (fs_nodes (xs X)) (xp X @ cs @ [n]) = Some v'"
      and ty: "xitem X cs n = Some (file_item (xL X) (xs X) (sc_hash_method (xc X))
        (render (xp X) @ ''/'' @ rel_name cs @ ''/'' @ n) n ty)" for n v' ty
  proof -
    obtain f where f: "map_of (d_files d) n = Some f" using fu ty by (auto simp: full_dir_def)
    then have fi: "file_item (xL X) (xs X) (sc_hash_method (xc X)) (render (xp X) @ ''/'' @ rel_name cs @ ''/'' @ n) n ty = Inr f"
      using so ty by (auto simp: sound_dir_def)
    have "xkind X (cs @ [n]) = Some (nkind v')" using v' by (simp add: xkind_def kind_at_def)
    then have "list_all plain_name (xp X @ cs @ [n])" using xkind_plain [OF su] pl by fastforce
    then have "sys_lstat (xs X) (render (xp X) @ ''/'' @ rel_name cs @ ''/'' @ n) = Inr v'"
      using item_path_plain ne v' by (intro lstat_plain [OF wf])
    then show ?thesis using f file_item_exact [OF fi] by blast
  qed
  have none: "map_of (d_files d) n = None" if "xitem X cs n = None" for n
    using so that by (cases "map_of (d_files d) n") (auto simp: sound_dir_def)
  show ?thesis
    unfolding exact_dir_def
  proof (intro conjI allI)
    fix n
    show "case node_at (fs_nodes (xs X)) (xp X @ cs @ [n]) of
            None \<Rightarrow> map_of (d_files d) n = None
          | Some v \<Rightarrow>
              let path = render (xp X) @ ''/'' @ rel_name cs @ ''/'' @ n
              in case nkind v of
                   KReg c \<Rightarrow> (\<exists>f. map_of (d_files d) n = Some f \<and> exact_file X path n FT_Regular v f)
                 | KLink t \<Rightarrow> (\<exists>f. map_of (d_files d) n = Some f \<and> exact_file X path n FT_Symlink v f)
                 | _ \<Rightarrow> map_of (d_files d) n = None"
      using none [of n] item [of n]
      by (auto simp: xitem_def xkind_def kind_at_def Let_def split: option.splits fkind.splits)
  qed (use path time v in auto)
qed

lemma Dump_fst_snd:
  "fst (snd (Dump L uuid ctx s)) =
     SumStatus (if ss_uuid (sc_status ctx) = [] then map_status (\<lambda>st. st\<lparr>ss_uuid := uuid\<rparr>) ctx else ctx)"
  unfolding Dump_def Let_def case_prod_unfold
  by (cases "sl_serialize L (sc_status (SumStatus
        (if ss_uuid (sc_status ctx) = [] then map_status (\<lambda>st. st\<lparr>ss_uuid := uuid\<rparr>) ctx else ctx)))") simp_all

lemma Dump_ctx:
  "scanned_dirs (fst (snd (Dump L uuid ctx s))) = scanned_dirs ctx"
  "sc_err_code (fst (snd (Dump L uuid ctx s))) = sc_err_code ctx"
  by (simp_all add: Dump_fst_snd SumStatus_def map_status_def scanned_dirs_def)

lemma finish_scan_success:
  assumes "finish_scan L E m st = (Inr Err_Success, m', ctx', s')" and "codes_ok (sl_codes L)"
  shows "sc_err_code (st_ctx st) = Err_Success" and "scanned_dirs ctx' = scanned_dirs (st_ctx st)"
proof -
  define ctx1 where "ctx1 = (if sc_err_code (st_ctx st) = Err_Success
      then map_status (\<lambda>s. s\<lparr>ss_complete_time := se_complete E, ss_hash_method := hash_no (sc_hash_method (st_ctx st))\<rparr>) (st_ctx st)
      else st_ctx st)"
  have c1: "scanned_dirs ctx1 = scanned_dirs (st_ctx st)" "sc_err_code ctx1 = sc_err_code (st_ctx st)"
    by (simp_all add: ctx1_def map_status_def scanned_dirs_def)
  obtain r ctx2 s2 where d: "Dump L (se_uuid E) ctx1 (st_fs st) = (r, ctx2, s2)" by (metis prod_cases3)
  have c2: "scanned_dirs ctx2 = scanned_dirs (st_ctx st)" "sc_err_code ctx2 = sc_err_code (st_ctx st)"
    using Dump_ctx [of L "se_uuid E" ctx1 "st_fs st"] d c1 by simp_all
  have "ctx' = (if r \<noteq> Err_Success then ctx2\<lparr>sc_err_code := Err_Scan_dump_error (sl_codes L)\<rparr> else ctx2)"
    and "sc_err_code ctx' = Err_Success"
    using assms(1) d unfolding finish_scan_def Let_def ctx1_def by auto
  then show "sc_err_code (st_ctx st) = Err_Success" "scanned_dirs ctx' = scanned_dirs (st_ctx st)"
    using c2 assms(2) by (auto simp: codes_ok_def split: if_splits)
qed

text \<open>The scan of a case: the source is a plain directory name, and the cache gave the context \<open>ctx1\<close>.\<close>

definition scan_case_of :: "('c, 'z) scan_libs \<Rightarrow> scan_env \<Rightarrow> fs \<Rightarrow> fpath \<Rightarrow> ScanContext \<Rightarrow> ('c, 'z) scan_case" where
  "scan_case_of L E s p ctx = \<lparr>xL = L, xs = s, xp = p, xc = ctx, xt = se_start E\<rparr>"

definition quiet_schedule :: "scan_env \<Rightarrow> bool" where
  "quiet_schedule E \<longleftrightarrow>
     list_all (event_ok (no_dump (se_start E))) (se_schedule E)"

lemma ParallelScan_run:
  assumes su: "scan_setup (scan_case_of L E s p ctx1)" and load: "cached_context L s ctx = Some (Inr (b, ctx1))"
    and src: "sc_src ctx = sc_src ctx1" and m: "scanning m = 0" "\<not> scan_stop m" and sk: "\<not> sc_skip_scan ctx1"
  shows "ParallelScan L E m ctx s =
     (case run_pool (ParallelFullScan L) (scan_env_step L) (sc_max_threads ctx1) (se_schedule E)
             (first_state (scan_case_of L E s p ctx1)) of
        None \<Rightarrow> None
      | Some st \<Rightarrow> Some (finish_scan L E (m\<lparr>scanning := 1\<rparr>) st))"
proof -
  let ?X = "scan_case_of L E s p ctx1"
  have k: "xkind ?X [] = Some KDir" and pl: "list_all plain_name p" using su by (auto simp: scan_setup_def scan_case_of_def)
  have ex: "Exists s (sc_src ctx)"
    using xname_dir(1) [OF su k] su src by (simp add: scan_case_of_def xname_def scan_setup_def)
  have "fs_status s (sc_src ctx) = Inr (Some KDir)"
    using su src k plain_at_render [OF pl] by (intro dir_status(1)) (auto simp: scan_case_of_def scan_setup_def xkind_def is_dir_def)
  then have "fs_is_directory s (sc_src ctx) = Inr True" by (simp add: fs_is_directory_def)
  then show ?thesis
    using ex load m sk by (simp add: ParallelScan_def Let_def first_state_def scan_case_of_def)
qed

section \<open>Properties\<close>



text \<open>A small case: \<^verbatim>\<open>/a\<close> with a file, a link and a subdirectory.\<close>

definition demo_ctx :: ScanContext where
  "demo_ctx =
     \<lparr>sc_src = ''/a'', sc_dst = ''/a'', sc_status = demo_status, sc_hash_method = Hash_NONE,
      sc_sync_method = Sync_SYNC, sc_disable_scan_cache = True, sc_skip_scan = False, sc_ignored_dirs = [],
      sc_max_threads = 2, sc_added_files = [], sc_removed_files = [], sc_dir_queue = [],
      sc_scanned_dir_num = 0, sc_skip_dir_num = 0, sc_err_code = 0\<rparr>"

definition demo_tree :: fs where
  "demo_tree =
     \<lparr>fs_nodes = [([], demo_node KDir), ([''a''], demo_node KDir), ([''a'', ''f''], demo_node (KReg ''xy'')),
        ([''a'', ''d''], demo_node KDir), ([''a'', ''l''], demo_node (KLink ''f''))],
      fs_cwd = [], fs_clock = (9, 0), fs_ids = (0, 0), fs_faults = []\<rparr>"

text \<open>Two threads: the second gives up, is posted again and scans the subdirectory.\<close>

definition demo_scan_env :: scan_env where
  "demo_scan_env =
     \<lparr>se_schedule = [Run 0, Run 1, Run 0, Run 1, Run 0, Run 1, Run 0, Run 0, Restart 1, Run 1, Run 1, Run 0, Run 0,
        Env (DumpTask 5000 ''u'' 5000), Run 1, Run 1, Run 1, Run 0, Run 0, Run 0, Run 0, Run 1, Run 1, Run 1],
      se_start = 0, se_complete = 9, se_uuid = ''id''\<rparr>"

definition demo_manager :: ScanManager where
  "demo_manager = \<lparr>scanning = 0, scan_stop = False\<rparr>"

lemma demo_scan_runs:
  "map_option (\<lambda>(r, m, ctx, s). (r, map fst (scanned_dirs ctx))) (ParallelScan demo_scan_libs demo_scan_env demo_manager demo_ctx demo_tree)
   = Some (Inr Err_Success, ['''', ''d''])"
  by code_simp


lemma demo_setup: "scan_setup (scan_case_of demo_scan_libs demo_scan_env demo_tree [''a''] demo_ctx)"
proof -
  have "fs_wf demo_tree" "list_all plain_name [''a'']" "kind_at (fs_nodes demo_tree) [''a''] = Some KDir"
    "sc_src demo_ctx = render [''a'']" "codes_ok (sl_codes demo_scan_libs)" "scanned_dirs demo_ctx = []"
    by code_simp+
  then show ?thesis
    using ref.boost_string_axioms
    by (simp add: scan_setup_def scan_case_of_def xkind_def cache_ok_def demo_scan_libs_def)
qed




end
