(* ===== verification/ScanReport.thy ===== *)
theory ScanReport
  imports ScanExact
begin

text \<open>
  What a scan reports besides the table: the list of removed files, the cache it leaves behind, and
  the state of the manager.
\<close>

section \<open>Removed files\<close>

text \<open>No directory of the cache is gone: all that is queued or checked is there.\<close>

definition all_present :: "('c, 'z) scan_case \<Rightarrow> workers \<Rightarrow> scan_st \<Rightarrow> bool" where
  "all_present X W st \<longleftrightarrow>
     (\<forall>d. d \<in> set (sc_dir_queue (st_ctx st)) \<or> WBusy (PCheck d) \<in> W \<longrightarrow>
        (\<exists>cs. xkind X cs = Some KDir \<and> d = xname X cs))"

definition report_inv :: "('c, 'z) scan_case \<Rightarrow> scan_phase worker list \<Rightarrow> scan_st \<Rightarrow> bool" where
  "report_inv X ws st \<longleftrightarrow>
     scan_inv X ws st \<and> all_present X (set ws) st
     \<and> (no_error (set ws) st \<longrightarrow> sc_removed_files (st_ctx st) = sc_removed_files (xc X))"

lemma removed_set [simp]:
  "sc_removed_files (set_scanned_dirs m ctx) = sc_removed_files ctx"
  by (simp add: set_scanned_dirs_def map_status_def)

lemma AddDirItem_removed: "sc_removed_files (snd (AddDirItem L s d k ctx)) = sc_removed_files ctx"
  by (simp add: AddDirItem_def Let_def split: prod.splits)

lemma AddFileItem_removed: "sc_removed_files (snd (AddFileItem L s n ty k ctx)) = sc_removed_files ctx"
  by (simp add: AddFileItem_def Let_def split: sum.splits option.splits)

lemma scan_entry_removed: "sc_removed_files (snd (scan_entry L s d k (n, kd) ret ctx)) = sc_removed_files ctx"
  by (cases kd) (simp_all add: scan_entry_def AddFileItem_removed case_prod_unfold)

lemma touch_removed: "sc_removed_files (touch_dir k u ctx) = sc_removed_files ctx"
  by (simp add: touch_dir_def split: option.splits)

lemma check_removed:
  assumes "scan_check L d st = Some (st', r)" and "Exists (st_fs st) d"
  shows "sc_removed_files (st_ctx st') = sc_removed_files (st_ctx st)"
  using assms by (auto simp: scan_check_def Let_def split: option.splits if_splits prod.splits)

lemma RemoveFile_none_gone:
  assumes "\<And>e n f. map_of (scanned_dirs ctx) k = Some e \<Longrightarrow> (n, f) \<in> set (d_files e) \<Longrightarrow> n \<in> set files"
  shows "sc_removed_files (snd (RemoveFile d files k ctx)) = sc_removed_files ctx"
proof (cases "map_of (scanned_dirs ctx) k")
  case (Some e)
  have "filter (\<lambda>(n, f). n \<notin> set files) (d_files e) = []" using assms [OF Some] by (auto simp: filter_empty_conv)
  then show ?thesis using Some by (simp add: RemoveFile_def Let_def)
qed (simp add: RemoveFile_def)

lemma step_removed:
  assumes b: "base_inv X W st" and s: "strong_inv X W st" and p: "all_present X W st" and w: "WBusy w \<in> W"
    and ret: "ret_ok (WBusy w)" and step: "ParallelFullScan_step (xL X) w st = Some (st', r)"
  shows "sc_removed_files (st_ctx st') = sc_removed_files (st_ctx st)"
proof -
  have su: "scan_setup X" and fs: "st_fs st = xs X" using b by (auto simp: base_inv_def)
  show ?thesis
  proof (cases w)
    case (PCheck d)
    obtain cs where "xkind X cs = Some KDir" "d = xname X cs" using p w PCheck by (auto simp: all_present_def)
    then show ?thesis using step PCheck fs xname_dir(1) [OF su] check_removed [of "xL X" d st st' r] by auto
  next
    case (PAdd d k u)
    then show ?thesis
      using step AddDirItem_removed [of "xL X" "st_fs st" d k "st_ctx st"]
      by (auto simp: scan_add_def split: prod.splits if_splits sum.splits)
  next
    case (PEntries d k u es ret fl)
    show ?thesis
    proof (cases es)
      case (Cons e es')
      then show ?thesis
        using step PEntries scan_entry_removed [of "xL X" "st_fs st" d k "fst e" "snd e" ret "st_ctx st"]
        by (auto split: prod.splits)
    next
      case Nil
      obtain cs where cs: "in_reach X cs" "xkind X cs = Some KDir" "d = xname X cs" "k = rel_name cs"
        and fl: "set fl = fst ` set (ents (fs_nodes (xs X)) (xp X @ cs))"
        using base_worker [OF b w] PEntries Nil by auto
      have "settled X W st cs"
        using s w PEntries cs in_reach_plain [OF cs(1)] by (auto simp: strong_inv_def recorded_def dest!: bspec [OF _ w])
      then have sound: "sound_dir X cs e" if "map_of (scanned_dirs (st_ctx st)) k = Some e" for e
        using that cs(4) by (auto simp: settled_def entry_def)
      have "n \<in> set fl" if "map_of (scanned_dirs (st_ctx st)) k = Some e" "(n, f) \<in> set (d_files e)" for e n f
      proof -
        have "map_of (d_files e) n \<noteq> None" using that(2) by (metis weak_map_of_SomeI option.distinct(1))
        then have "xitem X cs n \<noteq> None" using sound [OF that(1)] by (auto simp: sound_dir_def)
        then show ?thesis using xitem_ents [OF su] fl by simp
      qed
      then show ?thesis
        using step PEntries Nil ret RemoveFile_none_gone [of "st_ctx st" k fl d] by (auto split: if_splits)
    qed
  next
    case (PTouch k u)
    then show ?thesis using step by (auto simp: touch_removed)
  qed
qed

lemma step_present:
  assumes b: "base_inv X W st" and p: "all_present X W st" and w: "WBusy w \<in> W"
    and step: "ParallelFullScan_step (xL X) w st = Some (st', r)" and mv: "moves W (WBusy w) (next_worker r) W'"
  shows "all_present X W' st'"
proof -
  have su: "scan_setup X" and fs: "st_fs st = xs X" using b by (auto simp: base_inv_def)
  have q: "d \<in> set (sc_dir_queue (st_ctx st)) \<or> (\<exists>cs. xkind X cs = Some KDir \<and> d = xname X cs)"
    if "d \<in> set (sc_dir_queue (st_ctx st'))" for d
  proof (cases w)
    case (PEntries e k u es ret fl)
    obtain cs pre where cs: "xkind X cs = Some KDir" "e = xname X cs"
      and ents: "ents (fs_nodes (xs X)) (xp X @ cs) = pre @ es"
      using base_worker [OF b w] PEntries by auto
    show ?thesis
    proof (cases es)
      case Nil
      then show ?thesis using step PEntries that RemoveFile_other(2) by (auto split: if_splits)
    next
      case (Cons x es')
      obtain n kd where x: "x = (n, kd)" by fastforce
      have "xkind X (cs @ [n]) = Some kd"
        using ents_iff [of "fs_nodes (xs X)" n kd "xp X @ cs"] ents Cons x su
        by (simp add: xkind_def scan_setup_def fs_wf_def)
      then show ?thesis
        using step PEntries Cons x that fs scan_entry_queue [of "xL X" "xs X" e k n kd ret "st_ctx st"]
          xname_child [OF su cs(1)] cs(2)
        by (auto split: prod.splits if_splits)
    qed
  next
    case (PCheck e)
    then show ?thesis using step that check_result [of "xL X" e st st' r] by simp
  next
    case (PAdd e k u)
    then show ?thesis
      using step that AddDirItem_queue [of "xL X" "st_fs st" e k "st_ctx st"]
      by (auto simp: scan_add_def split: prod.splits if_splits sum.splits)
  next
    case (PTouch k u)
    then show ?thesis using step that by (auto simp: touch_queue)
  qed
  have "next_worker r \<noteq> WBusy (PCheck d)" for d
    using step check_result [of "xL X" _ st st' r]
    by (cases "(xL X, w, st)" rule: ParallelFullScan_step.cases)
      (auto simp: next_worker_def scan_add_def split: prod.splits if_splits sum.splits option.splits)
  then have "WBusy (PCheck d) \<in> W' \<Longrightarrow> WBusy (PCheck d) \<in> W" for d
    using mv unfolding moves_def by (metis insertE subsetD)
  then show ?thesis using p q unfolding all_present_def by metis
qed

lemma report_unchanged:
  assumes inv: "report_inv X ws st" and i: "i < length ws" and old: "ws ! i = WIdle t \<or> ws ! i = WStopped"
    and v: "v = WIdle t' \<or> v = WStopped"
  shows "report_inv X (ws[i := v]) st"
proof -
  have mv: "moves (set ws) (ws ! i) v (set (ws[i := v]))" using i by (rule moves_update)
  have "no_error (set ws) st" if "no_error (set (ws[i := v])) st"
    using old by (intro no_error_step [OF mv that]) auto
  moreover have "all_present X (set (ws[i := v])) st"
    using inv mv v unfolding report_inv_def all_present_def moves_def by blast
  ultimately show ?thesis
    using inv scan_inv_unchanged [OF _ i old v] by (auto simp: report_inv_def)
qed

lemma report_pop:
  assumes inv: "report_inv X ws st" and i: "i < length ws" and old: "ws ! i = WIdle t"
    and q: "sc_dir_queue (st_ctx st) = q @ [d]"
  shows "report_inv X (ws[i := WBusy (PCheck d)]) (st\<lparr>st_ctx := (st_ctx st)\<lparr>sc_dir_queue := q\<rparr>\<rparr>)"
    (is "report_inv X ?ws ?st")
proof -
  have mv: "moves (set ws) (WIdle t) (WBusy (PCheck d)) (set ?ws)" using moves_update [OF i] old by metis
  have "no_error (set ws) st" if "no_error (set ?ws) ?st" by (rule no_error_step [OF mv that]) auto
  moreover have "all_present X (set ?ws) ?st"
  proof -
    have "e = d \<or> WBusy (PCheck e) \<in> set ws" if "WBusy (PCheck e) \<in> set ?ws" for e
      using that mv unfolding moves_def by blast
    moreover have "all_present X (set ws) st" using inv by (simp add: report_inv_def)
    ultimately show ?thesis using q unfolding all_present_def by simp metis
  qed
  ultimately show ?thesis using inv scan_inv_pop [OF _ i old q] by (auto simp: report_inv_def)
qed

lemma report_work:
  assumes inv: "report_inv X ws st" and i: "i < length ws" and old: "ws ! i = WBusy w"
  shows "\<exists>st' r. ParallelFullScan_step (xL X) w st = Some (st', r) \<and> report_inv X (ws[i := next_worker r]) st'"
proof -
  have sc: "scan_inv X ws st" and b: "base_inv X (set ws) st" and p: "all_present X (set ws) st"
    using inv by (auto simp: report_inv_def scan_inv_def)
  have w: "WBusy w \<in> set ws" using i old by (metis nth_mem)
  obtain st' r where ok: "step_ok X (set ws) st w st' r" using work_step_ok [OF b w] by blast
  then have step: "ParallelFullScan_step (xL X) w st = Some (st', r)" by (simp add: step_ok_def)
  have mv: "moves (set ws) (WBusy w) (next_worker r) (set (ws[i := next_worker r]))"
    using moves_update [OF i] old by metis
  have "scan_inv X (ws[i := next_worker r]) st'"
    using scan_inv_work [OF sc i old] step by (auto simp: next_worker_def)
  moreover have "all_present X (set (ws[i := next_worker r])) st'" by (rule step_present [OF b p w step mv])
  moreover have "sc_removed_files (st_ctx st') = sc_removed_files (xc X)" if "no_error (set (ws[i := next_worker r])) st'"
  proof -
    have ne: "no_error (set ws) st" using ok mv that by (auto simp: step_ok_def)
    then have "strong_inv X (set ws) st" "ret_ok (WBusy w)" using sc w by (auto simp: scan_inv_def no_error_def)
    then show ?thesis using step_removed [OF b _ p w _ step] ne inv by (simp add: report_inv_def)
  qed
  ultimately show ?thesis using step by (auto simp: report_inv_def)
qed

interpretation report_pool: pool_invariant "ParallelFullScan (xL X)" "scan_env_step (xL X)" "no_dump (xt X)" "report_inv X"
proof
  fix ws s i t t' and v :: "scan_phase worker"
  assume "report_inv X ws s" "i < length ws" "ws ! i = WIdle t" "v = WStopped \<or> v = WIdle t'"
  then show "report_inv X (ws[i := v]) s" using report_unchanged by blast
next
  fix ws s i t q d
  assume "report_inv X ws s" "i < length ws" "ws ! i = WIdle t" "jqueue (ParallelFullScan (xL X)) s = q @ [d]"
  then show "report_inv X (ws[i := WBusy (jstart (ParallelFullScan (xL X)) d)]) (jset_queue (ParallelFullScan (xL X)) q s)"
    using report_pop by (simp add: ParallelFullScan_def)
next
  fix ws s i and w :: scan_phase
  assume "report_inv X ws s" "i < length ws" "ws ! i = WBusy w"
  then show "\<exists>s' r. jwork (ParallelFullScan (xL X)) w s = Some (s', r)
      \<and> report_inv X (ws[i := (case r of None \<Rightarrow> WIdle 0 | Some w' \<Rightarrow> WBusy w')]) s'"
    using report_work [of X ws s i w] by (simp add: ParallelFullScan_def next_worker_def)
next
  fix ws s i
  assume "report_inv X ws s" "i < length ws" "ws ! i = WStopped"
  then show "report_inv X (ws[i := WIdle 0]) s" using report_unchanged by blast
next
  fix ws s
  assume "report_inv X ws s"
  then show "\<not> jstop (ParallelFullScan (xL X)) s"
    by (simp add: report_inv_def scan_inv_def base_inv_def ParallelFullScan_def)
next
  fix ws s e
  assume "report_inv X ws s" "no_dump (xt X) e"
  then show "report_inv X ws (scan_env_step (xL X) e s)
      \<and> jqueue (ParallelFullScan (xL X)) (scan_env_step (xL X) e s) = jqueue (ParallelFullScan (xL X)) s"
    by (cases e) (auto simp: report_inv_def scan_inv_def base_inv_def)
qed

lemma Dump_removed: "sc_removed_files (fst (snd (Dump L uuid ctx s))) = sc_removed_files ctx"
  using Dump_fst_snd [of L uuid ctx s] by (simp add: SumStatus_def map_status_def)

lemma finish_scan_removed:
  "finish_scan L E m st = (r, m', ctx', s') \<Longrightarrow> sc_removed_files ctx' = sc_removed_files (st_ctx st)"
  by (auto simp: finish_scan_def Let_def Dump_removed case_prod_unfold map_status_def split: if_splits)

text \<open>
  Deleted files are never reported: as long as no cached directory has gone, a scan leaves
  \<^verbatim>\<open>removed_files\<close> as it was, whatever files were deleted since the cache was written.  (When a directory
  has changed, \<^verbatim>\<open>AddDirItem\<close> replaces its entry by an empty one before \<^verbatim>\<open>RemoveFile\<close> looks for files
  that are gone.)
\<close>

theorem deleted_files_unreported:
  assumes "scan_setup (scan_case_of L E s p ctx1)" and "cached_context L s ctx = Some (Inr (b, ctx1))"
    and "sc_src ctx = sc_src ctx1" and "sc_dir_queue ctx1 = []" and "0 < sc_max_threads ctx1" and "\<not> sc_skip_scan ctx1"
    and "scanning m = 0" and "\<not> scan_stop m" and "quiet_schedule E"
    and "\<And>cs. list_all plain_name cs \<Longrightarrow> map_of (scanned_dirs ctx1) (rel_name cs) \<noteq> None \<Longrightarrow> kind_at (fs_nodes s) (p @ cs) = Some KDir"
    and "ParallelScan L E m ctx s = Some (Inr Err_Success, m', ctx', s')"
  shows "sc_removed_files ctx' = sc_removed_files ctx1"
proof -
  let ?X = "scan_case_of L E s p ctx1"
  obtain st where run: "run_pool (ParallelFullScan L) (scan_env_step L) (sc_max_threads ctx1) (se_schedule E) (first_state ?X) = Some st"
    and fin: "finish_scan L E (m\<lparr>scanning := 1\<rparr>) st = (Inr Err_Success, m', ctx', s')"
    using assms(11) ParallelScan_run [OF assms(1-3,7,8,6)] by (auto split: option.splits)
  have X: "xL ?X = L" "xt ?X = se_start E" "xc ?X = ctx1" "xs ?X = s" "xp ?X = p" by (simp_all add: scan_case_of_def)
  have "\<exists>cs. xkind ?X cs = Some KDir \<and> d = xname ?X cs" if d: "d \<in> set (sc_dir_queue (st_ctx (first_state ?X)))" for d
  proof -
    consider "d = sc_src ctx1"
      | k where "k \<in> fst ` set (scanned_dirs ctx1)" "k \<noteq> []" "d = sc_src ctx1 @ ''/'' @ k"
      using d assms(4) by (auto simp: first_state_def start_queue_set X)
    then show ?thesis
    proof cases
      case 1
      then have "d = xname ?X []" "xkind ?X [] = Some KDir" using xname_key [OF assms(1), of "[]"] assms(1) X by (auto simp: scan_setup_def)
      then show ?thesis by blast
    next
      case (2 k)
      obtain e where "map_of (scanned_dirs (xc ?X)) k = Some e" using 2(1) X by (metis map_of_eq_None_iff not_None_eq)
      then obtain cs where cs: "k = rel_name cs" "in_reach ?X cs" "map_of (scanned_dirs ctx1) (rel_name cs) \<noteq> None"
        using cached_key [OF assms(1)] X by fastforce
      have "cs \<noteq> []" using cs(1) 2(2) by auto
      then have "d = xname ?X cs" using xname_key [OF assms(1) in_reach_plain [OF cs(2)]] 2(3) cs(1) X by simp
      moreover have "xkind ?X cs = Some KDir" using assms(10) [OF in_reach_plain [OF cs(2)] cs(3)] by (simp add: xkind_def X)
      ultimately show ?thesis by blast
    qed
  qed
  then have "report_inv ?X (replicate (sc_max_threads ctx1) (WIdle 0)) (first_state ?X)"
    using first_state_inv [OF assms(1)] assms(4)
    by (auto simp: report_inv_def all_present_def X first_state_def start_queue_def)
  then obtain ws where ws: "report_inv ?X ws st" "all_stopped ws"
    using report_pool.pool_ends [of ?X "sc_max_threads ctx1" "first_state ?X" "se_schedule E" st] run assms(5,9)
    by (auto simp: X quiet_schedule_def)
  have "codes_ok (sl_codes L)" using assms(1) by (simp add: scan_setup_def scan_case_of_def)
  then have "no_error (set ws) st"
    using finish_scan_success(1) [OF fin] ws(2) by (auto simp: no_error_def all_stopped_def list_all_iff)
  then show ?thesis using ws(1) finish_scan_removed [OF fin] by (simp add: report_inv_def X)
qed


text \<open>A cache that still lists the file \<^verbatim>\<open>gone\<close> of \<^verbatim>\<open>/a\<close>, from before the directory changed.\<close>

definition old_dir :: Dir where
  "old_dir =
     \<lparr>d_path = '''', d_update_time = 5000, d_user = ''u'', d_group = ''g'', d_files = [(''gone'', FileG_default)],
      d_visible_users = []\<rparr>"

definition stale_ctx :: ScanContext where
  "stale_ctx = set_scanned_dirs [('''', old_dir)] demo_ctx"

lemma stale_scan_runs:
  "map_option fst (ParallelScan demo_scan_libs demo_scan_env demo_manager stale_ctx demo_tree) = Some (Inr Err_Success)"
  by code_simp

lemma stale_setup: "scan_setup (scan_case_of demo_scan_libs demo_scan_env demo_tree [''a''] stale_ctx)"
proof -
  let ?X = "scan_case_of demo_scan_libs demo_scan_env demo_tree [''a''] stale_ctx"
  have "fs_wf demo_tree" "list_all plain_name [''a'']" "kind_at (fs_nodes demo_tree) [''a''] = Some KDir"
    "sc_src stale_ctx = render [''a'']" "codes_ok (sl_codes demo_scan_libs)"
    "UpdateTime demo_tree (render [''a'']) = 7000" "ss_ignored_dirs (sc_status stale_ctx) = []"
    by code_simp+
  moreover have "cache_ok ?X"
    using calculation
    by (simp add: cache_ok_def stale_ctx_def scan_case_of_def old_dir_def xtime_def xname_def in_reach_def xkind_def ign_def
        exI [of _ "[]"])
  ultimately show ?thesis
    using ref.boost_string_axioms by (simp add: scan_setup_def scan_case_of_def xkind_def demo_scan_libs_def)
qed

theorem deleted_files_unreported_witness:
  "\<exists>m ctx s. ParallelScan demo_scan_libs demo_scan_env demo_manager stale_ctx demo_tree = Some (Inr Err_Success, m, ctx, s)
    \<and> sc_removed_files ctx = []"
proof -
  obtain m ctx s where run: "ParallelScan demo_scan_libs demo_scan_env demo_manager stale_ctx demo_tree = Some (Inr Err_Success, m, ctx, s)"
    using stale_scan_runs by auto
  have c: "cached_context demo_scan_libs demo_tree stale_ctx = Some (Inr (True, stale_ctx))" "sc_dir_queue stale_ctx = []"
    "0 < sc_max_threads stale_ctx" "\<not> sc_skip_scan stale_ctx" "scanning demo_manager = 0" "\<not> scan_stop demo_manager"
    "sc_removed_files stale_ctx = []" "scanned_dirs stale_ctx = [('''', old_dir)]"
    by (simp_all add: cached_context_def stale_ctx_def demo_ctx_def demo_manager_def set_scanned_dirs_def map_status_def scanned_dirs_def)
  have "quiet_schedule demo_scan_env" "kind_at (fs_nodes demo_tree) [''a''] = Some KDir" by code_simp+
  moreover have "cs = []" if "list_all plain_name cs" "map_of (scanned_dirs stale_ctx) (rel_name cs) \<noteq> None" for cs
    using that c(8) rel_name_empty by (auto split: if_splits)
  ultimately have "sc_removed_files ctx = sc_removed_files stale_ctx"
    using deleted_files_unreported [OF stale_setup c(1) refl c(2-6) _ _ run] by fastforce
  then show ?thesis using run c(7) by auto
qed


section \<open>The manager\<close>

text \<open>
  A scan that is skipped never ends for the manager: with \<^verbatim>\<open>skip_scan\<close> and a usable cache \<^verbatim>\<open>ParallelScan\<close>
  returns success without decrementing \<^verbatim>\<open>scanning_\<close>, and from then on every scan of every directory is
  refused as busy.
\<close>

theorem skipped_scan_blocks_manager:
  assumes "Exists s (sc_src ctx)" and "fs_is_directory s (sc_src ctx) = Inr True" and "scanning m = 0"
    and "cached_context L s ctx = Some (Inr (True, ctx1))" and "sc_skip_scan ctx1"
    and "Exists s' (sc_src ctx')" and "fs_is_directory s' (sc_src ctx') = Inr True"
  shows "\<exists>m'. ParallelScan L E m ctx s = Some (Inr Err_Success, m', ctx1, s)
    \<and> ParallelScan L E' m' ctx' s' = Some (Inr (Err_Scan_busy (sl_codes L)), m', ctx', s')"
  using assms by (simp add: ParallelScan_def Let_def)

theorem skipped_scan_blocks_manager_witness:
  "\<exists>m'. ParallelScan demo_scan_libs demo_scan_env demo_manager (demo_ctx\<lparr>sc_skip_scan := True\<rparr>) demo_tree
      = Some (Inr Err_Success, m', demo_ctx\<lparr>sc_skip_scan := True\<rparr>, demo_tree)
    \<and> ParallelScan demo_scan_libs demo_scan_env m' demo_ctx demo_tree = Some (Inr 23, m', demo_ctx, demo_tree)"
proof -
  have "Exists demo_tree (sc_src demo_ctx)" "fs_is_directory demo_tree (sc_src demo_ctx) = Inr True" by code_simp+
  then show ?thesis
    using skipped_scan_blocks_manager [of demo_tree "demo_ctx\<lparr>sc_skip_scan := True\<rparr>" demo_manager demo_scan_libs
        "demo_ctx\<lparr>sc_skip_scan := True\<rparr>" demo_tree demo_ctx demo_scan_env demo_scan_env]
    by (simp add: demo_manager_def cached_context_def demo_ctx_def demo_scan_libs_def demo_codes_def)
qed

text \<open>Without a cache the list of ignored directories has no effect: it is merged into the status only when one is loaded.\<close>

lemma ignored_dirs_need_cache:
  "\<not> Exists s (GenFileName L (sc_src ctx)) \<Longrightarrow>
   LoadCachedScanStatus L s ctx = Some (Inr (False, ctx))"
  by (simp add: LoadCachedScanStatus_def)

section \<open>The cache file\<close>

text \<open>The status that \<^verbatim>\<open>Dump\<close> writes: with a uuid and with the counters.\<close>

definition dumped_status :: "string \<Rightarrow> ScanContext \<Rightarrow> ScanStatus" where
  "dumped_status uuid ctx =
     sc_status (SumStatus (if ss_uuid (sc_status ctx) = [] then map_status (\<lambda>st. st\<lparr>ss_uuid := uuid\<rparr>) ctx else ctx))"



definition codec_libs :: "(evp_md \<times> bytes, bytes) scan_libs" where
  "codec_libs = demo_scan_libs\<lparr>sl_parse := (\<lambda>t. (True, dumped_status ''id'' stale_ctx))\<rparr>"


end
