(* ===== verification/Sync.thy ===== *)
theory Sync
  imports Scan
begin

text \<open>
  \<^verbatim>\<open>src/src/impl/sync_manager.h\<close> and the local part of \<^verbatim>\<open>sync_manager.cc\<close>: copying a directory tree to another
  place of the same machine, by workers that walk the tree (\<^verbatim>\<open>SyncLocalRecursive\<close>) or by workers
  that divide the directories of a finished scan among themselves (\<^verbatim>\<open>SyncLocal\<close>).  One directory
  entry is one step of a worker: entries of different directories are different files, and the
  counters and the list of failures are updated under a lock or atomically.  The progress tasks
  only print.  Worker \<open>i\<close> is bit \<open>i\<close> of \<^verbatim>\<open>running_mark\<close>, a 64 bit number.
\<close>

section \<open>Data\<close>

text \<open>The member \<^verbatim>\<open>scan_ctx\<close> is used by the manager and not declared in \<^verbatim>\<open>defs.h\<close>.\<close>

record SyncContext =
  y_remote_addr :: string
  y_remote_port :: string
  y_max_threads :: int
  y_partition_size :: int
  y_repo_type :: RepoType
  y_hash_method :: HashMethod
  y_sync_method :: SyncMethod
  y_disable_scan_cache :: bool
  y_skip_scan :: bool
  y_ignored_dirs :: "string list"
  y_user :: string
  y_token :: string
  y_repo_uuid :: string
  y_src :: string
  y_dst :: string
  y_stop_progress_task :: bool
  y_total_dir_cnt :: int
  y_total_file_cnt :: int
  y_syncd_dir_success_cnt :: int
  y_syncd_dir_fail_cnt :: int
  y_syncd_dir_skipped_cnt :: int
  y_syncd_file_success_cnt :: int
  y_syncd_file_fail_cnt :: int
  y_syncd_file_skipped_cnt :: int
  y_sync_failed_files :: "string list"
  y_err_code :: int
  y_dir_queue :: "string bqueue"
  y_scan_ctx :: "ScanContext option"

definition Sync_Reset :: "SyncContext \<Rightarrow> SyncContext" where
  "Sync_Reset ctx =
     ctx\<lparr>y_stop_progress_task := False, y_total_dir_cnt := 0, y_total_file_cnt := 0,
         y_syncd_dir_success_cnt := 0, y_syncd_dir_fail_cnt := 0, y_syncd_dir_skipped_cnt := 0,
         y_syncd_file_success_cnt := 0, y_syncd_file_fail_cnt := 0, y_syncd_file_skipped_cnt := 0,
         y_sync_failed_files := [], y_err_code := Err_Success, y_dir_queue := BQ_Clear (y_dir_queue ctx)\<rparr>"

record SyncManager =
  syncing :: "32 word"
  sync_stop :: bool
  sync_scan :: ScanManager

text \<open>The state the workers share.\<close>

record sync_st =
  yt_ctx :: SyncContext
  yt_fs :: fs
  yt_stop :: bool

section \<open>Parameters\<close>

text \<open>\<open>Inl\<close>: the exception of \<^verbatim>\<open>is_directory\<close>.\<close>

definition both_dirs :: "fs \<Rightarrow> string \<Rightarrow> string \<Rightarrow> errno + bool" where
  "both_dirs s a b =
     (case fs_is_directory s a of
        Inl e \<Rightarrow> Inl e
      | Inr False \<Rightarrow> Inr False
      | Inr True \<Rightarrow> fs_is_directory s b)"

definition unify_paths :: "boost_api \<Rightarrow> SyncContext \<Rightarrow> SyncContext" where
  "unify_paths B ctx = ctx\<lparr>y_src := UnifyDir B (y_src ctx), y_dst := UnifyDir B (y_dst ctx)\<rparr>"

definition ValidateLocalSyncParameters ::
  "('c, 'z) scan_libs \<Rightarrow> fs \<Rightarrow> SyncContext \<Rightarrow> (errno + int) \<times> SyncContext" where
  "ValidateLocalSyncParameters L s ctx =
     (if \<not> IsAbsolute (y_src ctx) \<or> \<not> IsAbsolute (y_dst ctx)
      then (Inr (Err_File_not_absolute (sl_codes L)), ctx)
      else let ctx1 = unify_paths (sl_boost L) ctx
           in (if StartWith (sl_boost L) (y_src ctx1) (y_dst ctx1) then Inr Err_File_dst_is_src_subdir
               else if \<not> Exists s (y_src ctx1) \<or> \<not> Exists s (y_dst ctx1) then Inr Err_File_not_exists
               else case both_dirs s (y_src ctx1) (y_dst ctx1) of
                      Inl e \<Rightarrow> Inl e
                    | Inr b \<Rightarrow> Inr (if b then Err_Success else Err_File_not_dir), ctx1))"

definition ValidateRemoteSyncParameters ::
  "('c, 'z) scan_libs \<Rightarrow> fs \<Rightarrow> SyncContext \<Rightarrow> (errno + int) \<times> SyncContext" where
  "ValidateRemoteSyncParameters L s ctx =
     (if \<not> IsAbsolute (y_src ctx) \<or> \<not> IsAbsolute (y_dst ctx)
      then (Inr (Err_File_not_absolute (sl_codes L)), ctx)
      else let ctx1 = unify_paths (sl_boost L) ctx
           in (if \<not> Exists s (y_src ctx1) then Inr Err_File_not_exists
               else case fs_is_directory s (y_src ctx1) of
                      Inl e \<Rightarrow> Inl e
                    | Inr b \<Rightarrow> Inr (if b then Err_Success else Err_File_not_dir), ctx1))"

section \<open>Results of one file\<close>

definition sync_failed :: "string \<Rightarrow> SyncContext \<Rightarrow> SyncContext" where
  "sync_failed path ctx =
     ctx\<lparr>y_sync_failed_files := y_sync_failed_files ctx @ [path],
         y_syncd_file_fail_cnt := y_syncd_file_fail_cnt ctx + 1\<rparr>"

definition sync_done :: "SyncContext \<Rightarrow> SyncContext" where
  "sync_done ctx = ctx\<lparr>y_syncd_file_success_cnt := y_syncd_file_success_cnt ctx + 1\<rparr>"

definition sync_skipped :: "SyncContext \<Rightarrow> SyncContext" where
  "sync_skipped ctx =
     ctx\<lparr>y_syncd_file_success_cnt := y_syncd_file_success_cnt ctx + 1,
         y_syncd_file_skipped_cnt := y_syncd_file_skipped_cnt ctx + 1\<rparr>"

definition sync_error :: "int \<Rightarrow> SyncContext \<Rightarrow> SyncContext" where
  "sync_error code ctx = ctx\<lparr>y_err_code := code\<rparr>"

section \<open>RecursiveLocalSyncWorker\<close>

datatype sync_phase =
  RCheck string
  | REntries string string "(string \<times> fkind) list"

definition sync_check ::
  "('c, 'z) scan_libs \<Rightarrow> string \<Rightarrow> sync_st \<Rightarrow> (sync_st \<times> sync_phase option) option" where
  "sync_check L cur_dir st =
     (let ctx = yt_ctx st; s = yt_fs st
      in case Relative (sl_boost L) cur_dir (y_src ctx) of
           None \<Rightarrow> None
         | Some (_, relative_path) \<Rightarrow>
             if relative_path \<in> set (y_ignored_dirs ctx) then Some (st, None)
             else if \<not> Exists s cur_dir then Some (st, None)
             else let ctx1 = ctx\<lparr>y_total_dir_cnt := y_total_dir_cnt ctx + 1\<rparr>;
                      (_, s1) = Mkdir (y_dst ctx @ ''/'' @ relative_path) s
                  in Some (st\<lparr>yt_ctx := ctx1, yt_fs := s1\<rparr>,
                           case fs_entries s1 cur_dir of
                             Inl e \<Rightarrow> None
                           | Inr es \<Rightarrow> Some (REntries cur_dir relative_path es)))"

text \<open>
  Copying what an entry names: \<^verbatim>\<open>is_symlink\<close> and \<^verbatim>\<open>is_regular_file\<close> look at the type found in the
  directory; anything else is not copied and counts as copied.
\<close>

definition copy_entry ::
  "('c, 'z) scan_libs \<Rightarrow> SyncContext \<Rightarrow> fkind \<Rightarrow> string \<Rightarrow> string \<Rightarrow> fs \<Rightarrow> (bool \<times> fs) option" where
  "copy_entry L ctx kind file_src_path file_dst_path s =
     (case kind of
        KLink t \<Rightarrow> SyncSymlink (sl_boost L) (y_src ctx) (y_dst ctx) file_src_path s
      | KReg d \<Rightarrow> Some (CopyFile file_src_path file_dst_path Copy_overwrite_existing s)
      | _ \<Rightarrow> Some (True, s))"

definition sync_file ::
  "('c, 'z) scan_libs \<Rightarrow> string \<Rightarrow> string \<Rightarrow> string \<times> fkind \<Rightarrow> sync_st \<Rightarrow> sync_st option" where
  "sync_file L cur_dir relative_path entry st =
     (case entry of (file_name, kind) \<Rightarrow>
        let s = yt_fs st; ctx = yt_ctx st; codes = sl_codes L;
            ctx1 = ctx\<lparr>y_total_file_cnt := y_total_file_cnt ctx + 1\<rparr>;
            file_src_path = cur_dir @ ''/'' @ file_name;
            file_dst_path = y_dst ctx @ ''/'' @ relative_path @ ''/'' @ file_name;
            (ok, src) = FileInfo (sl_db L) s file_src_path True no_info;
            ctx2 = (if ok then ctx1 else sync_error (Err_File_permission_or_not_exists codes) ctx1);
            there = Exists s file_dst_path;
            (ok', dst) = FileInfo (sl_db L) s file_dst_path False no_info;
            ctx3 = (if there \<and> \<not> ok' then sync_error (Err_File_permission_or_not_exists codes) ctx2 else ctx2)
        in if there \<and> fi_update_time src \<noteq> - 1 \<and> fi_update_time src = fi_update_time dst \<and> fi_size src = fi_size dst
           then Some (st\<lparr>yt_ctx := sync_skipped ctx3\<rparr>)
           else case copy_entry L ctx kind file_src_path file_dst_path s of
                  None \<Rightarrow> None
                | Some (ret, s1) \<Rightarrow>
                    if \<not> ret then Some (st\<lparr>yt_fs := s1, yt_ctx := sync_failed file_src_path ctx3\<rparr>)
                    else let (ret2, s2) = SetUpdateTime file_dst_path (fi_update_time src) s1
                         in Some (st\<lparr>yt_fs := s2,
                                     yt_ctx := (if ret2 then sync_done ctx3 else sync_failed file_src_path ctx3)\<rparr>))"

text \<open>
  \<^verbatim>\<open>entry.is_directory()\<close> of a symbolic link asks for the target; its exception ends the loop over
  the directory and is only logged.
\<close>

definition entry_throws :: "fs \<Rightarrow> string \<Rightarrow> fkind \<Rightarrow> bool" where
  "entry_throws s path kind =
     (case kind of KLink t \<Rightarrow> (case fs_is_directory s path of Inl e \<Rightarrow> True | Inr b \<Rightarrow> False) | _ \<Rightarrow> False)"

definition sync_entry ::
  "('c, 'z) scan_libs \<Rightarrow> string \<Rightarrow> string \<Rightarrow> string \<times> fkind \<Rightarrow> sync_st \<Rightarrow> (sync_st \<times> bool) option" where
  "sync_entry L cur_dir relative_path entry st =
     (let path = entry_path cur_dir (fst entry)
      in if snd entry = KDir
         then Some (st\<lparr>yt_ctx := (yt_ctx st)\<lparr>y_dir_queue := BQ_PushBack path (y_dir_queue (yt_ctx st))\<rparr>\<rparr>, True)
         else if entry_throws (yt_fs st) path (snd entry) then Some (st, False)
         else map_option (\<lambda>st'. (st', True)) (sync_file L cur_dir relative_path entry st))"

fun RecursiveLocalSyncWorker_step ::
  "('c, 'z) scan_libs \<Rightarrow> sync_phase \<Rightarrow> sync_st \<Rightarrow> (sync_st \<times> sync_phase option) option" where
  "RecursiveLocalSyncWorker_step L (RCheck cur_dir) st = sync_check L cur_dir st"
| "RecursiveLocalSyncWorker_step L (REntries cur_dir relative_path []) st = Some (st, None)"
| "RecursiveLocalSyncWorker_step L (REntries cur_dir relative_path (e # es)) st =
     map_option (\<lambda>(st', go). (st', if go then Some (REntries cur_dir relative_path es) else None))
       (sync_entry L cur_dir relative_path e st)"

definition RecursiveLocalSyncWorker :: "('c, 'z) scan_libs \<Rightarrow> (sync_st, sync_phase) job" where
  "RecursiveLocalSyncWorker L =
     \<lparr>jqueue = (\<lambda>st. y_dir_queue (yt_ctx st)),
      jset_queue = (\<lambda>q st. st\<lparr>yt_ctx := (yt_ctx st)\<lparr>y_dir_queue := q\<rparr>\<rparr>),
      jstop = yt_stop,
      jinterrupt = (\<lambda>st. st\<lparr>yt_ctx := sync_error (Err_Scan_interrupted (sl_codes L)) (yt_ctx st)\<rparr>),
      jstart = RCheck, jwork = RecursiveLocalSyncWorker_step L\<rparr>"

text \<open>\<^verbatim>\<open>SyncManager::Stop\<close> while a synchronisation runs; it then waits for \<^verbatim>\<open>syncing_\<close> to become 0.\<close>

datatype sync_event = SyncStop

fun sync_env_step :: "sync_event \<Rightarrow> sync_st \<Rightarrow> sync_st" where
  "sync_env_step SyncStop st = st\<lparr>yt_stop := True\<rparr>"

definition Sync_Stop :: "SyncManager \<Rightarrow> SyncManager" where
  "Sync_Stop m = m\<lparr>sync_stop := True, sync_scan := (sync_scan m)\<lparr>scan_stop := True\<rparr>\<rparr>"

section \<open>SyncLocalRecursive\<close>

type_synonym sync_result = "(errno + int) \<times> SyncManager \<times> SyncContext \<times> fs"

definition sync_finished :: "(SyncContext \<Rightarrow> int) \<Rightarrow> SyncManager \<Rightarrow> sync_st \<Rightarrow> sync_result" where
  "sync_finished code m st =
     (let m1 = (if yt_stop st then Sync_Stop m else m); ctx = (yt_ctx st)\<lparr>y_stop_progress_task := True\<rparr>
      in (Inr (code ctx), m1\<lparr>syncing := syncing m1 - 1\<rparr>, ctx, yt_fs st))"

text \<open>The last statements of \<^verbatim>\<open>SyncLocalRecursive\<close>: \<^verbatim>\<open>if (err_code) return Err_Success; return err_code\<close>.\<close>

definition recursive_code :: "SyncContext \<Rightarrow> int" where
  "recursive_code ctx = (if y_err_code ctx \<noteq> 0 then Err_Success else y_err_code ctx)"

text \<open>\<open>None\<close>: the call does not return, or the schedule ends before the workers do.\<close>

definition SyncLocalRecursive ::
  "('c, 'z) scan_libs \<Rightarrow> sync_event sched list \<Rightarrow> SyncManager \<Rightarrow> SyncContext \<Rightarrow> fs \<Rightarrow> sync_result option" where
  "SyncLocalRecursive L es m ctx s =
     (case ValidateLocalSyncParameters L s ctx of
        (Inl e, ctx1) \<Rightarrow> Some (Inl e, m, ctx1, s)
      | (Inr ret, ctx1) \<Rightarrow>
          if ret \<noteq> Err_Success then Some (Inr ret, m, ctx1, s)
          else let ctx2 = Sync_Reset ctx1;
                   ctx3 = ctx2\<lparr>y_dir_queue := BQ_PushBack (y_src ctx2) (y_dir_queue ctx2)\<rparr>;
                   m1 = m\<lparr>syncing := syncing m + 1\<rparr>
               in map_option
                    (sync_finished recursive_code m1)
                    (run_pool (RecursiveLocalSyncWorker L) sync_env_step (nat (y_max_threads ctx3)) es
                       \<lparr>yt_ctx = ctx3, yt_fs = s, yt_stop = sync_stop m1\<rparr>))"


section \<open>Tasks with futures\<close>

text \<open>
  The \<^verbatim>\<open>packaged_task\<close>s that \<^verbatim>\<open>SyncLocal\<close> and \<^verbatim>\<open>SyncRemote\<close> post and wait for.  An exception of a task is
  kept in its future and leaves the waiting call; a schedule lets every task end before that.
\<close>

datatype 't task = TRunning 't | TDone | TThrew errno | THung

fun task_event ::
  "(nat \<Rightarrow> 't \<Rightarrow> 's \<Rightarrow> 't task \<times> 's) \<Rightarrow> ('e \<Rightarrow> 's \<Rightarrow> 's) \<Rightarrow> 'e sched \<Rightarrow> 't task list \<times> 's
   \<Rightarrow> ('t task list \<times> 's) option" where
  "task_event step env (Run i) (ts, s) =
     (if i < length ts
      then (case ts ! i of
              TRunning t \<Rightarrow> let (t', s') = step i t s in Some (ts[i := t'], s')
            | _ \<Rightarrow> None)
      else None)"
| "task_event step env (Restart i) (ts, s) = None"
| "task_event step env (Env e) (ts, s) = Some (ts, env e s)"

fun task_events ::
  "(nat \<Rightarrow> 't \<Rightarrow> 's \<Rightarrow> 't task \<times> 's) \<Rightarrow> ('e \<Rightarrow> 's \<Rightarrow> 's) \<Rightarrow> 'e sched list \<Rightarrow> 't task list \<times> 's
   \<Rightarrow> ('t task list \<times> 's) option" where
  "task_events step env [] st = Some st"
| "task_events step env (e # es) st =
     (case task_event step env e st of None \<Rightarrow> None | Some st' \<Rightarrow> task_events step env es st')"

fun thrown :: "'t task list \<Rightarrow> errno option" where
  "thrown [] = None"
| "thrown (TThrew e # ts) = Some e"
| "thrown (_ # ts) = thrown ts"

definition ended :: "'t task \<Rightarrow> bool" where
  "ended t \<longleftrightarrow> (case t of TDone \<Rightarrow> True | TThrew e \<Rightarrow> True | _ \<Rightarrow> False)"

definition run_tasks ::
  "(nat \<Rightarrow> 't \<Rightarrow> 's \<Rightarrow> 't task \<times> 's) \<Rightarrow> ('e \<Rightarrow> 's \<Rightarrow> 's) \<Rightarrow> 'e sched list \<Rightarrow> 't task list \<times> 's
   \<Rightarrow> (errno option \<times> 's) option" where
  "run_tasks step env es st =
     (case task_events step env es st of
        None \<Rightarrow> None
      | Some (ts, s) \<Rightarrow> if list_all ended ts then Some (thrown ts, s) else None)"

section \<open>LocalSyncWorker\<close>

text \<open>
  Which thread handles a name: \<^verbatim>\<open>std::abs\<close> of the hash, modulo the number of threads.  The
  absolute value of the smallest 64 bit number is that number.
\<close>

definition assigned :: "(string \<Rightarrow> int) \<Rightarrow> int \<Rightarrow> string \<Rightarrow> int" where
  "assigned murmur max_threads name = to_i64 \<bar>murmur name\<bar> smod max_threads"

datatype local_phase =
  LDirs "(string \<times> Dir) list"
  | LFiles string string "(string \<times> FileG) list" "(string \<times> Dir) list"
  | LRemoved "string list"

definition sync_status :: "SyncContext \<Rightarrow> (string \<times> Dir) list" where
  "sync_status ctx = (case y_scan_ctx ctx of None \<Rightarrow> [] | Some sc \<Rightarrow> scanned_dirs sc)"

definition sync_removed :: "SyncContext \<Rightarrow> string list" where
  "sync_removed ctx = (case y_scan_ctx ctx of None \<Rightarrow> [] | Some sc \<Rightarrow> sc_removed_files sc)"

definition after_dirs :: "SyncContext \<Rightarrow> local_phase task" where
  "after_dirs ctx =
     (if y_sync_method ctx = Sync_SYNC then TRunning (LRemoved (sync_removed ctx)) else TDone)"

definition local_dir ::
  "(string \<Rightarrow> int) \<Rightarrow> ('c, 'z) scan_libs \<Rightarrow> nat \<Rightarrow> string \<times> Dir \<Rightarrow> (string \<times> Dir) list \<Rightarrow> sync_st
   \<Rightarrow> local_phase task \<times> sync_st" where
  "local_dir murmur L thread_no d ds st =
     (let ctx = yt_ctx st; s = yt_fs st;
          dir_src_path = y_src ctx @ ''/'' @ fst d; dir_dst_path = y_dst ctx @ ''/'' @ fst d
      in if yt_stop st
         then (after_dirs ctx, st\<lparr>yt_ctx := sync_error (Err_Sync_interrupted (sl_codes L)) ctx\<rparr>)
         else if assigned murmur (y_max_threads ctx) (fst d) \<noteq> int thread_no then (TRunning (LDirs ds), st)
         else if \<not> Exists s dir_src_path then (TRunning (LDirs ds), st)
         else case fs_is_directory s dir_src_path of
                Inl e \<Rightarrow> (TThrew e, st)
              | Inr False \<Rightarrow> (TRunning (LDirs ds), st)
              | Inr True \<Rightarrow>
                  (case fs_is_symlink s dir_src_path of
                     Inl e \<Rightarrow> (TThrew e, st)
                   | Inr b \<Rightarrow>
                       let s1 = (if Exists s dir_dst_path then s else snd (Mkdir dir_dst_path s));
                           s2 = (if fst d = '''' then s1
                                 else snd (SetUpdateTime dir_dst_path (d_update_time (snd d)) s1))
                       in (TRunning (LFiles dir_src_path dir_dst_path (d_files (snd d)) ds), st\<lparr>yt_fs := s2\<rparr>)))"

definition local_file ::
  "('c, 'z) scan_libs \<Rightarrow> string \<Rightarrow> string \<Rightarrow> string \<times> FileG \<Rightarrow> sync_st \<Rightarrow> sync_st option" where
  "local_file L dir_src_path dir_dst_path f st =
     (let ctx = yt_ctx st; s = yt_fs st; codes = sl_codes L;
          file_src_path = dir_src_path @ ''/'' @ fst f; file_dst_path = dir_dst_path @ ''/'' @ fst f;
          missing = st\<lparr>yt_ctx := (sync_error (Err_File_permission_or_not_exists codes) ctx)
                         \<lparr>y_syncd_file_fail_cnt := y_syncd_file_fail_cnt ctx + 1\<rparr>\<rparr>;
          dst = snd (FileInfo (sl_db L) s file_dst_path False no_info)
      in if \<not> Exists s file_src_path then Some missing
         else if f_update_time (snd f) = - 1 then Some missing
         else if fi_update_time dst \<noteq> - 1 \<and> fi_update_time dst = f_update_time (snd f)
                 \<and> fi_size dst = f_file_size (snd f)
         then Some (st\<lparr>yt_ctx := sync_skipped ctx\<rparr>)
         else case (if f_file_type (snd f) = FT_Symlink
                    then SyncSymlink (sl_boost L) (y_src ctx) (y_dst ctx) file_src_path s
                    else Some (CopyFile file_src_path file_dst_path Copy_overwrite_existing s)) of
                None \<Rightarrow> None
              | Some (ret, s1) \<Rightarrow>
                  if \<not> ret
                  then Some (st\<lparr>yt_fs := s1,
                                yt_ctx := sync_failed file_src_path (sync_error (Err_File_copy_error codes) ctx)\<rparr>)
                  else let (ret2, s2) = SetUpdateTime file_dst_path (f_update_time (snd f)) s1
                       in Some (st\<lparr>yt_fs := s2,
                                   yt_ctx := (if ret2 then sync_done ctx
                                              else sync_failed file_src_path
                                                     (sync_error (Err_File_permission_or_not_exists codes) ctx))\<rparr>))"

definition local_removed ::
  "(string \<Rightarrow> int) \<Rightarrow> nat \<Rightarrow> string \<Rightarrow> sync_st \<Rightarrow> sync_st" where
  "local_removed murmur thread_no p st =
     (let ctx = yt_ctx st; s = yt_fs st
      in if assigned murmur (y_max_threads ctx) p \<noteq> int thread_no then st
         else if IsAbsolute p then st
         else if Exists s (y_src ctx @ ''/'' @ p) then st
         else st\<lparr>yt_fs := snd (Remove (y_dst ctx @ ''/'' @ p) s)\<rparr>)"

fun LocalSyncWorker ::
  "(string \<Rightarrow> int) \<Rightarrow> ('c, 'z) scan_libs \<Rightarrow> nat \<Rightarrow> local_phase \<Rightarrow> sync_st \<Rightarrow> local_phase task \<times> sync_st" where
  "LocalSyncWorker murmur L thread_no (LDirs []) st = (after_dirs (yt_ctx st), st)"
| "LocalSyncWorker murmur L thread_no (LDirs (d # ds)) st = local_dir murmur L thread_no d ds st"
| "LocalSyncWorker murmur L thread_no (LFiles dir_src_path dir_dst_path [] ds) st = (TRunning (LDirs ds), st)"
| "LocalSyncWorker murmur L thread_no (LFiles dir_src_path dir_dst_path (f # fs) ds) st =
     (case local_file L dir_src_path dir_dst_path f st of
        None \<Rightarrow> (THung, st)
      | Some st' \<Rightarrow> (TRunning (LFiles dir_src_path dir_dst_path fs ds), st'))"
| "LocalSyncWorker murmur L thread_no (LRemoved []) st = (TDone, st)"
| "LocalSyncWorker murmur L thread_no (LRemoved (p # ps)) st =
     (TRunning (LRemoved ps), local_removed murmur thread_no p st)"

section \<open>SyncLocal\<close>

definition ScanStatus_default :: ScanStatus where
  "ScanStatus_default =
     \<lparr>ss_uuid = '''', ss_path = '''', ss_scanned_dirs = [], ss_ignored_dirs = [], ss_file_num = 0,
      ss_symlink_num = 0, ss_hash_method = 0, ss_complete_time = 0\<rparr>"

text \<open>\<open>fresh\<close> is a newly made \<^verbatim>\<open>ScanContext\<close>, whose default values the repository does not show.\<close>

definition make_scan_ctx :: "ScanContext \<Rightarrow> SyncContext \<Rightarrow> ScanContext" where
  "make_scan_ctx fresh ctx =
     fresh\<lparr>sc_src := y_src ctx, sc_dst := y_src ctx, sc_status := ScanStatus_default\<lparr>ss_path := y_src ctx\<rparr>,
           sc_hash_method := y_hash_method ctx, sc_sync_method := y_sync_method ctx,
           sc_disable_scan_cache := y_disable_scan_cache ctx, sc_skip_scan := y_skip_scan ctx\<rparr>"

definition local_scan_ctx :: "ScanContext \<Rightarrow> SyncContext \<Rightarrow> ScanContext" where
  "local_scan_ctx fresh ctx =
     (let sc = make_scan_ctx fresh ctx
      in sc\<lparr>sc_ignored_dirs := fold set_insert (y_ignored_dirs ctx) (sc_ignored_dirs sc)\<rparr>)"

definition set_totals :: "ScanContext \<Rightarrow> SyncContext \<Rightarrow> SyncContext" where
  "set_totals sc ctx =
     ctx\<lparr>y_scan_ctx := Some sc, y_total_dir_cnt := int (length (scanned_dirs sc)),
         y_total_file_cnt := ss_file_num (sc_status sc) + ss_symlink_num (sc_status sc)\<rparr>"

definition SyncLocal ::
  "(string \<Rightarrow> int) \<Rightarrow> ('c, 'z) scan_libs \<Rightarrow> scan_env \<Rightarrow> ScanContext \<Rightarrow> sync_event sched list \<Rightarrow> SyncManager
   \<Rightarrow> SyncContext \<Rightarrow> fs \<Rightarrow> sync_result option" where
  "SyncLocal murmur L E fresh es m ctx s =
     (case ValidateLocalSyncParameters L s ctx of
        (Inl e, ctx1) \<Rightarrow> Some (Inl e, m, ctx1, s)
      | (Inr ret, ctx1) \<Rightarrow>
          if ret \<noteq> Err_Success then Some (Inr ret, m, ctx1, s)
          else let ctx2 = Sync_Reset ctx1;
                   m1 = m\<lparr>syncing := syncing m + 1\<rparr>
               in case ParallelScan L E (sync_scan m1) (local_scan_ctx fresh ctx2) s of
                    None \<Rightarrow> None
                  | Some (Inl e, sm, sc1, s1) \<Rightarrow> Some (Inl e, m1\<lparr>sync_scan := sm\<rparr>, ctx2\<lparr>y_scan_ctx := Some sc1\<rparr>, s1)
                  | Some (Inr ret, sm, sc1, s1) \<Rightarrow>
                      if ret \<noteq> Err_Success
                      then Some (Inr ret, m1\<lparr>sync_scan := sm\<rparr>, ctx2\<lparr>y_scan_ctx := Some sc1\<rparr>, s1)
                      else let m2 = m1\<lparr>sync_scan := sm\<rparr>; ctx3 = set_totals sc1 ctx2
                           in case run_tasks (LocalSyncWorker murmur L) sync_env_step es
                                     (replicate (nat (y_max_threads ctx3)) (TRunning (LDirs (sync_status ctx3))),
                                      \<lparr>yt_ctx = ctx3, yt_fs = s1, yt_stop = sync_stop m2\<rparr>) of
                                None \<Rightarrow> None
                              | Some (Some e, st) \<Rightarrow> Some (Inl e, m2, yt_ctx st, yt_fs st)
                              | Some (None, st) \<Rightarrow> Some (sync_finished y_err_code m2 st))"

section \<open>Other operations\<close>

definition SyncStatusDir ::
  "('c, 'z) scan_libs \<Rightarrow> string \<Rightarrow> ScanContext \<Rightarrow> fs \<Rightarrow> ScanContext \<times> fs" where
  "SyncStatusDir L uuid ctx s =
     (let ctx1 = (map_status (\<lambda>st. st\<lparr>ss_path := sc_dst ctx\<rparr>) ctx)\<lparr>sc_src := sc_dst ctx\<rparr>
      in snd (Dump L uuid ctx1 s))"

text \<open>\<open>Inl\<close>: the exception of \<^verbatim>\<open>CreateFileWithSize\<close>.\<close>

definition Sync_WriteToFile :: "err_codes \<Rightarrow> FileReqX \<Rightarrow> fs \<Rightarrow> errno + int \<times> fs" where
  "Sync_WriteToFile codes req s =
     (if fx_file_type req = FT_Direcotry then
        (case Mkdir (fx_dst req) s of
           (ok, s1) \<Rightarrow> Inr (if ok then Err_Success else Err_File_mkdir_error codes, s1))
      else if fx_file_type req = FT_Symlink then
        (case fs_create_symlink (fq_content req) (fx_dst req) s of
           (Some e, s1) \<Rightarrow> Inr (Err_File_create_symlink_error codes, s1)
         | (None, s1) \<Rightarrow> Inr (Err_Success, s1))
      else let (_, s1) = MkParentDir (fx_dst req) s
           in case CreateFileWithSize (fx_dst req) (fx_file_size req) s1 of
                Inl e \<Rightarrow> Inl e
              | Inr (err_code, s2) \<Rightarrow>
                  if err_code \<noteq> Err_Success then Inr (err_code, s2)
                  else let (start, en) = CalcPartitionStart (fx_file_size req) (fx_partition_num req) (fx_partition_size req)
                       in if en - start + 1 \<noteq> int (length (fq_content req))
                          then Inr (Err_File_partition_size_error codes, s2)
                          else Inr (WriteToFile_at (fx_dst req) (fq_content req) start s2))"

end
