(* ===== verification/SyncMirror.thy ===== *)
theory SyncMirror
  imports Sync ScanExact
begin

text \<open>
  What a finished local synchronisation has done: the destination mirrors the source.
\<close>

section \<open>Effects on single nodes\<close>

text \<open>Nothing but the node \<open>x\<close> differs.\<close>

definition touches :: "fpath \<Rightarrow> fs \<Rightarrow> fs \<Rightarrow> bool" where
  "touches x s s' \<longleftrightarrow>
     fs_wf s' \<and> fs_faults s' = [] \<and> (\<forall>y. y \<noteq> x \<longrightarrow> node_at (fs_nodes s') y = node_at (fs_nodes s) y)"

lemma touches_kind: "touches x s s' \<Longrightarrow> y \<noteq> x \<Longrightarrow> kind_at (fs_nodes s') y = kind_at (fs_nodes s) y"
  by (simp add: touches_def kind_at_def)

lemma node_at_set_content:
  "x \<noteq> p \<Longrightarrow> node_at (fs_nodes (set_content p d s)) x = node_at (fs_nodes s) x"
  by (simp add: set_content_def put_node_def node_at_update split: option.splits fkind.splits)

lemma open_write_node:
  "sys_open_write creat trunc path s = (Inr q, s1) \<Longrightarrow> x \<noteq> q \<Longrightarrow> node_at (fs_nodes s1) x = node_at (fs_nodes s) x"
  by (auto simp: sys_open_write_def Let_def node_at_set_content put_node_def node_at_update next_fault_nodes
      split: prod.splits option.splits sum.splits if_splits fkind.splits)

lemma copy_data_node:
  assumes "copy_data d dst s = (Inr b, s')" and "fs_faults s = []" and "resolve s True dst = Inr q" and "x \<noteq> q"
  shows "node_at (fs_nodes s') x = node_at (fs_nodes s) x"
proof -
  obtain q' s1 where o: "sys_open_write True True dst s = (Inr q', s1)"
    using assms(1) by (auto simp: copy_data_def split: prod.splits sum.splits)
  then have "q' = q" using assms(2,3)
    by (auto simp: sys_open_write_def fs_simps split: option.splits fkind.splits)
  then have "node_at (fs_nodes s1) x = node_at (fs_nodes s) x" using open_write_node [OF o] assms(4) by simp
  then show ?thesis
    using assms(1,4) o \<open>q' = q\<close> next_fault_nodes
    by (auto simp: copy_data_def Let_def node_at_set_content split: prod.splits fault.splits)
qed

lemma CopyFile_touches:
  assumes "reg_file s src p d" and "free_name s dst q \<or> (\<exists>e. reg_file s dst q e)" and "p \<noteq> q" and "fs_faults s = []"
  shows "\<exists>s'. CopyFile src dst Copy_overwrite_existing s = (True, s') \<and> touches q s s'
    \<and> kind_at (fs_nodes s') q = Some (KReg d)"
proof -
  obtain s' where s': "CopyFile src dst Copy_overwrite_existing s = (True, s')" "reg_file s' dst q d" "fs_faults s' = []"
    using CopyFile_ok [OF assms] by blast
  have res: "resolve s True dst = Inr q" using assms(2) free_name_resolve reg_file_resolve by blast
  obtain d' where "copy_data d' dst s = (Inr True, s')"
    using s'(1) by (auto simp: CopyFile_def fs_copy_file_def split: prod.splits sum.splits fkind.splits if_splits)
  then have "\<forall>y. y \<noteq> q \<longrightarrow> node_at (fs_nodes s') y = node_at (fs_nodes s) y"
    using copy_data_node assms(4) res by blast
  then show ?thesis using s' by (auto simp: touches_def reg_file_def)
qed

lemma SetUpdateTime_touches:
  assumes "fs_wf s" and "fs_faults s = []" and "plain_at path p" and "p \<noteq> []"
    and "kind_at (fs_nodes s) p = Some k" and "0 \<le> ts"
  shows "\<exists>s' m. SetUpdateTime path ts s = (True, s') \<and> touches p s s'
    \<and> node_at (fs_nodes s') p = Some m \<and> nkind m = k \<and> mtime_ms m = ts"
proof -
  obtain n where n: "node_at (fs_nodes s) p = Some n" "nkind n = k" using assms(5) by (auto simp: kind_at_def)
  note run = SetUpdateTime_plain [OF assms(1-4) n(1) assms(6)]
  show ?thesis
    using run assms(2,6) n(2) by (auto simp: touches_def put_node_def node_at_update mtime_ms_def conv_simps)
qed

lemma link_status:
  assumes "fs_wf s" and "plain_at path p" and "kind_at (fs_nodes s) p = Some (KLink t)"
  shows "fs_is_symlink s path = Inr True" and "fs_read_symlink s path = Inr t"
  using Exists_present(2) [OF assms] assms(3)
  by (auto simp: fs_is_symlink_def fs_read_symlink_def fs_symlink_status_def sys_lstat_def stat_at_def status_of_def kind_at_def)

lemma dir_not_link:
  "fs_wf s \<Longrightarrow> plain_at path p \<Longrightarrow> is_dir (fs_nodes s) p \<Longrightarrow> fs_is_symlink s path = Inr False"
  by (simp add: fs_is_symlink_def dir_status)

lemma MkParentDir_present:
  assumes "fs_wf s" and "plain_at path p" and "p \<noteq> []" and "is_dir (fs_nodes s) (butlast p)"
  shows "MkParentDir path s = (True, s)"
proof -
  note par = plain_at_parent [OF assms(2,3)]
  have "Exists s (parent_path path)" using dir_status [OF assms(1) par(2) assms(4)] by (simp add: Exists_iff)
  then show ?thesis using par(1) by (simp add: MkParentDir_def Mkdir_def)
qed

lemma node_at_filter: "node_at (filter (\<lambda>(q, n). P q) N) x = (if P x then node_at N x else None)"
  by (induction N) (auto simp: node_at_def)

text \<open>Removing a node without children, if it is there, leaves a free name.\<close>

lemma Remove_leaf:
  assumes "fs_wf s" and "fs_faults s = []" and "plain_at path p" and "p \<noteq> []"
    and "is_dir (fs_nodes s) (butlast p)" and "\<not> is_dir (fs_nodes s) p"
  shows "\<exists>s'. snd (Remove path s) = s' \<and> touches p s s' \<and> free_name s' path p"
proof (cases "kind_at (fs_nodes s) p")
  case None
  then have fr: "free_name s path p" using assms by (simp add: free_name_def)
  then have "Remove path s = (True, s)" by (simp add: Remove_def Exists_iff free_name_status)
  then show ?thesis using fr assms(1,2) by (auto simp: touches_def)
next
  case (Some k)
  let ?s' = "s\<lparr>fs_nodes := filter (\<lambda>(q, n). \<not> prefix p q) (fs_nodes s)\<rparr>"
  note present = Exists_present [OF assms(1,3) Some]
  have run: "snd (Remove path s) = ?s'"
    using present assms(2,4) by (auto simp: Remove_def fs_remove_all_def fs_simps)
  have wf': "fs_wf ?s'" using assms(1,4) by (simp add: fs_wf_def remove_subtree_wf)
  have leaf: "node_at (fs_nodes s) y = None" if "prefix p y" "y \<noteq> p" for y
  proof -
    obtain r where r: "y = p @ r" "r \<noteq> []" using \<open>prefix p y\<close> \<open>y \<noteq> p\<close> by (auto simp: prefix_def)
    then show ?thesis
      using assms(1,6) wf_below [of "fs_nodes s" p r] map_of_eq_None_iff [of "fs_nodes s" "p @ r"]
      by (auto simp: fs_wf_def is_dir_def node_at_def)
  qed
  have "touches p s ?s'" using wf' assms(2) leaf by (auto simp: touches_def node_at_filter)
  moreover have "free_name ?s' path p"
    using wf' assms(3-5) not_prefix_butlast [OF assms(4)] by (simp add: free_name_def fs_simps is_dir_def)
  ultimately show ?thesis using run by blast
qed

lemma create_symlink_touches:
  assumes "free_name s path p" and "fs_faults s = []" and "t \<noteq> []"
  shows "\<exists>s'. fs_create_symlink t path s = (None, s') \<and> touches p s s' \<and> kind_at (fs_nodes s') p = Some (KLink t)"
proof -
  let ?s' = "put_node p (new_node s (KLink t)) s"
  have "fs_wf ?s'" using assms(1) free_name_resolve [OF assms(1)] by (intro put_new_wf) (auto simp: free_name_def)
  moreover have "fs_create_symlink t path s = (None, ?s')"
    using assms free_name_resolve [OF assms(1)] by (simp add: fs_create_symlink_def fs_simps free_name_def)
  ultimately show ?thesis
    using assms(2) by (auto simp: touches_def put_node_def node_at_update kind_at_update new_node_def)
qed

lemma touches_trans: "touches x s s' \<Longrightarrow> touches x s' s'' \<Longrightarrow> touches x s s''"
  by (simp add: touches_def)

lemma SyncSymlink_touches:
  assumes s: "fs_wf s" "fs_faults s = []" and pq: "p \<noteq> []" "q \<noteq> []" "list_all plain_name p" "list_all plain_name (q @ ds)"
    and dirs: "is_dir (fs_nodes s) p" "is_dir (fs_nodes s) q" "is_dir (fs_nodes s) (q @ butlast ds)"
    and l: "plain_at l (p @ ds)" "StartWith B l (render p)" "Relative B l (render p) = Some (ok, rel_name ds)" "ds \<noteq> []"
    and link: "kind_at (fs_nodes s) (p @ ds) = Some (KLink t)" "t \<noteq> []" and d: "\<not> is_dir (fs_nodes s) (q @ ds)"
  shows "\<exists>s'. SyncSymlink B (render p) (render q) l s = Some (True, s') \<and> touches (q @ ds) s s'
    \<and> kind_at (fs_nodes s') (q @ ds) = Some (KLink t)"
proof -
  let ?d = "render (q @ ds)"
  have pl: "plain_at (render p) p" "plain_at (render q) q" "plain_at ?d (q @ ds)"
    using pq by (auto intro: plain_at_render)
  have par: "is_dir (fs_nodes s) (butlast (q @ ds))" using dirs(3) l(4) by (simp add: butlast_append)
  obtain s1 where s1: "snd (Remove ?d s) = s1" "touches (q @ ds) s s1" "free_name s1 ?d (q @ ds)"
    using Remove_leaf [OF s pl(3) _ par d] pq(2) by auto
  obtain s2 where s2: "fs_create_symlink t ?d s1 = (None, s2)" "touches (q @ ds) s1 s2"
    "kind_at (fs_nodes s2) (q @ ds) = Some (KLink t)"
    using create_symlink_touches [OF s1(3) _ link(2)] s1(2) by (auto simp: touches_def)
  have "list_all plain_name ds" using pq(4) by simp
  then have "rel_name ds \<noteq> []" using rel_name_empty l(4) by blast
  moreover have "render q @ ''/'' @ rel_name ds = ?d" using pq(2) l(4) by (simp add: render_append)
  moreover have "MkParentDir ?d s = (True, s)" using MkParentDir_present [OF s(1) pl(3) _ par] pq(2) by simp
  ultimately have "SyncSymlink B (render p) (render q) l s = Some (True, s2)"
    using l s1(1) s2(1) dir_not_link [OF s(1) pl(1) dirs(1)] dir_not_link [OF s(1) pl(2) dirs(2)]
      link_status [OF s(1) l(1) link(1)]
    by (simp add: SyncSymlink_def Let_def split_beta)
  then show ?thesis using s2(3) touches_trans [OF s1(2) s2(2)] by blast
qed

lemma make_dirs_node:
  "make_dirs ab pre cs s = (r, s') \<Longrightarrow> node_at (fs_nodes s) x = Some n \<Longrightarrow> node_at (fs_nodes s') x = Some n"
proof (induction ab pre cs s arbitrary: r s' rule: make_dirs.induct)
  case (2 ab pre c cs s)
  have mk: "node_at (fs_nodes s1) x = Some n" if "sys_mkdir p s = (e, s1)" "kind_at (fs_nodes s) p = None" for p e s1
    using that 2(4) by (auto simp: sys_mkdir_def Let_def put_node_def node_at_update kind_at_def next_fault_nodes
        split: prod.splits option.splits)
  show ?case
    using 2(3,4) mk 2(1,2)
    by (auto simp: Let_def split: sum.splits option.splits prod.splits if_splits)
qed simp

lemma Mkdir_node:
  "Mkdir path s = (r, s') \<Longrightarrow> node_at (fs_nodes s) x = Some n \<Longrightarrow> node_at (fs_nodes s') x = Some n"
  by (auto simp: Mkdir_def fs_create_directories_def dest: make_dirs_node
      split: if_splits prod.splits sum.splits option.splits)

section \<open>Lookups that stay outside the destination\<close>

text \<open>
  \<open>outside q l N dir cs\<close>: following \<open>cs\<close> from \<open>dir\<close> never looks at a node in the subtree of \<open>q\<close>.
\<close>

function outside :: "fpath \<Rightarrow> nat \<Rightarrow> fnodes \<Rightarrow> fpath \<Rightarrow> string list \<Rightarrow> bool" where
  "outside q l N dir [] = (\<not> prefix q dir)"
| "outside q l N dir (c # cs) =
     (\<not> prefix q dir \<and>
      (kind_at N dir = Some KDir \<longrightarrow>
         (if c = ''.'' then outside q l N dir cs
          else if c = ''..'' then outside q l N (butlast dir) cs
          else \<not> prefix q (dir @ [c]) \<and>
               (case kind_at N (dir @ [c]) of
                  None \<Rightarrow> True
                | Some (KLink t) \<Rightarrow>
                    if l = 0 then True else if t = [] then True
                    else outside q (l - 1) N (if is_absolute t then [] else dir) (walk_comps t @ cs)
                | Some _ \<Rightarrow> outside q l N (dir @ [c]) cs))))"
  by pat_completeness auto
termination
  by (relation "measures [\<lambda>(q, l, N, d, cs). l, \<lambda>(q, l, N, d, cs). length cs]") auto

lemma outside_walk:
  "outside q l N dir cs \<Longrightarrow> (\<And>x. \<not> prefix q x \<Longrightarrow> kind_at N' x = kind_at N x) \<Longrightarrow>
   walk l N' True dir cs = walk l N True dir cs"
proof (induction q l N dir cs rule: outside.induct)
  case (2 q l N dir c cs)
  have d: "kind_at N' dir = kind_at N dir" using "2.prems" by simp
  show ?case
  proof (cases "kind_at N dir = Some KDir \<and> c \<noteq> ''.'' \<and> c \<noteq> ''..''")
    case False
    then show ?thesis using 2 d by (auto split: option.splits)
  next
    case True
    then have c: "kind_at N' (dir @ [c]) = kind_at N (dir @ [c])" using "2.prems" by simp
    show ?thesis
    proof (cases "kind_at N (dir @ [c])")
      case None
      then show ?thesis using True d c by simp
    next
      case (Some k)
      then show ?thesis using True d c "2.IH" "2.prems" by (cases k) (simp_all split: if_splits)
    qed
  qed
qed simp

section \<open>Source and destination\<close>

text \<open>
  A synchronisation to be judged: the libraries, the file system when it starts, the two
  directories and the context when the workers start.
\<close>

record ('c, 'z) sync_case =
  zL :: "('c, 'z) scan_libs"
  zs :: fs
  zp :: fpath
  zq :: fpath
  zc :: SyncContext

definition znode :: "('c, 'z) sync_case \<Rightarrow> string list \<Rightarrow> fnode option" where
  "znode X cs = node_at (fs_nodes (zs X)) (zp X @ cs)"

definition zkind :: "('c, 'z) sync_case \<Rightarrow> string list \<Rightarrow> fkind option" where
  "zkind X cs = map_option nkind (znode X cs)"

definition zdst :: "('c, 'z) sync_case \<Rightarrow> fs \<Rightarrow> string list \<Rightarrow> fnode option" where
  "zdst X s cs = node_at (fs_nodes s) (zq X @ cs)"

definition zname :: "('c, 'z) sync_case \<Rightarrow> string list \<Rightarrow> string" where
  "zname X cs = render (zp X @ cs)"

definition zign :: "('c, 'z) sync_case \<Rightarrow> string list \<Rightarrow> bool" where
  "zign X cs \<longleftrightarrow> rel_name cs \<in> set (y_ignored_dirs (zc X))"

fun same_class :: "fkind \<Rightarrow> fkind \<Rightarrow> bool" where
  "same_class KDir KDir = True"
| "same_class (KReg a) (KReg b) = True"
| "same_class (KLink a) (KLink b) = True"
| "same_class _ _ = False"

text \<open>
  What is copied: no sockets, times from 1970 on, and links that are not empty, do not lead
  into the destination and do not make the lookup fail (dangling links are fine).
\<close>

definition node_ok :: "('c, 'z) sync_case \<Rightarrow> string list \<Rightarrow> fnode \<Rightarrow> bool" where
  "node_ok X cs n \<longleftrightarrow>
     0 \<le> fst (nmtime n) \<and> 0 \<le> snd (nmtime n)
     \<and> (case nkind n of
          KSock \<Rightarrow> False
        | KLink t \<Rightarrow> t \<noteq> [] \<and> outside (zq X) max_links (fs_nodes (zs X)) [] (zp X @ cs)
            \<and> (case fs_is_directory (zs X) (zname X cs) of Inl e \<Rightarrow> False | Inr b \<Rightarrow> True)
        | _ \<Rightarrow> True)"

definition sync_place :: "('c, 'z) sync_case \<Rightarrow> bool" where
  "sync_place X \<longleftrightarrow>
     fs_wf (zs X) \<and> fs_faults (zs X) = [] \<and> zp X \<noteq> [] \<and> zq X \<noteq> []
     \<and> list_all plain_name (zp X) \<and> list_all plain_name (zq X)
     \<and> \<not> prefix (zp X) (zq X) \<and> \<not> prefix (zq X) (zp X)
     \<and> is_dir (fs_nodes (zs X)) (zp X) \<and> is_dir (fs_nodes (zs X)) (zq X)
     \<and> boost_string (sl_boost (zL X)) \<and> y_src (zc X) = render (zp X) \<and> y_dst (zc X) = render (zq X)"

definition sync_setup :: "('c, 'z) sync_case \<Rightarrow> bool" where
  "sync_setup X \<longleftrightarrow>
     sync_place X
     \<and> (\<forall>cs n m. znode X cs = Some n \<and> zdst X (zs X) cs = Some m \<longrightarrow> same_class (nkind n) (nkind m))
     \<and> (\<forall>cs n. znode X cs = Some n \<longrightarrow> node_ok X cs n)"

text \<open>The destination's node is as it should be.\<close>

definition mirror :: "fnode \<Rightarrow> fnode \<Rightarrow> bool" where
  "mirror n m \<longleftrightarrow> nkind m = nkind n \<and> (nkind n \<noteq> KDir \<longrightarrow> mtime_ms m = mtime_ms n)"

definition fs_good :: "('c, 'z) sync_case \<Rightarrow> fs \<Rightarrow> bool" where
  "fs_good X s \<longleftrightarrow>
     fs_wf s \<and> fs_faults s = []
     \<and> (\<forall>x. \<not> prefix (zq X) x \<longrightarrow> node_at (fs_nodes s) x = node_at (fs_nodes (zs X)) x)
     \<and> (\<forall>cs. zdst X s cs = zdst X (zs X) cs
            \<or> (\<exists>n m. znode X cs = Some n \<and> zdst X s cs = Some m \<and> mirror n m))"

text \<open>Copied, or found with the same time and size and left alone.\<close>

definition file_done :: "('c, 'z) sync_case \<Rightarrow> fs \<Rightarrow> string list \<Rightarrow> bool" where
  "file_done X s cs \<longleftrightarrow>
     (\<exists>n m. znode X cs = Some n \<and> zdst X s cs = Some m
        \<and> (mirror n m
           \<or> zdst X (zs X) cs = Some m \<and> mtime_ms n = mtime_ms m \<and> kind_size (nkind n) = kind_size (nkind m)))"

definition dst_dir :: "('c, 'z) sync_case \<Rightarrow> fs \<Rightarrow> string list \<Rightarrow> bool" where
  "dst_dir X s cs \<longleftrightarrow> is_dir (fs_nodes s) (zq X @ cs)"

lemma outside_src: "sync_place X \<Longrightarrow> \<not> prefix (zq X) (zp X @ cs)"
  using prefix_same_cases [of "zq X" "zp X @ cs" "zp X"] by (auto simp: sync_place_def)

lemma src_node: "sync_place X \<Longrightarrow> fs_good X s \<Longrightarrow> node_at (fs_nodes s) (zp X @ cs) = znode X cs"
  unfolding fs_good_def znode_def using outside_src by blast

lemma src_kind: "sync_place X \<Longrightarrow> fs_good X s \<Longrightarrow> kind_at (fs_nodes s) (zp X @ cs) = zkind X cs"
  by (simp add: kind_at_def src_node zkind_def)

lemma zkind_at: "zkind X cs = kind_at (fs_nodes (zs X)) (zp X @ cs)"
  by (simp add: zkind_def znode_def kind_at_def)

lemma fs_good_start: "sync_place X \<Longrightarrow> fs_good X (zs X)"
  by (simp add: fs_good_def sync_place_def)

lemma fs_good_wf: "fs_good X s \<Longrightarrow> fs_wf s" "fs_good X s \<Longrightarrow> fs_faults s = []"
  by (simp_all add: fs_good_def)

lemma znode_plain: "sync_place X \<Longrightarrow> znode X cs = Some n \<Longrightarrow> list_all plain_name cs"
  using wf_good [of "fs_nodes (zs X)" "zp X @ cs" "nkind n"]
  by (simp add: sync_place_def fs_wf_def znode_def good_at_def kind_at_def)

lemma zkind_plain: "sync_place X \<Longrightarrow> zkind X cs = Some k \<Longrightarrow> list_all plain_name cs"
  using znode_plain by (auto simp: zkind_def)

lemma zname_plain:
  assumes "sync_place X" and "list_all plain_name cs"
  shows "plain_at (zname X cs) (zp X @ cs)"
  using assms plain_at_render [of "zp X @ cs"] by (simp add: zname_def sync_place_def)

lemma zname_inj:
  "sync_place X \<Longrightarrow> list_all plain_name cs \<Longrightarrow> list_all plain_name ds \<Longrightarrow> zname X cs = zname X ds \<Longrightarrow> cs = ds"
  using zname_plain [of X cs] zname_plain [of X ds] by (auto simp: plain_at_def)

lemma src_parent_dir:
  assumes "sync_place X" and "zkind X (cs @ [n]) = Some k"
  shows "zkind X cs = Some KDir"
proof -
  have "good_at (fs_nodes (zs X)) (zp X @ cs @ [n])"
    using assms wf_good [of "fs_nodes (zs X)" "zp X @ cs @ [n]" k]
    by (simp add: sync_place_def fs_wf_def zkind_def znode_def kind_at_def)
  then show ?thesis
    by (simp add: good_at_def butlast_append is_dir_def kind_at_def zkind_def znode_def)
qed

text \<open>In every good state the nodes on both sides are of the same class.\<close>

lemma good_class:
  assumes "sync_setup X" and "fs_good X s" and "znode X cs = Some n" and "zdst X s cs = Some m"
  shows "same_class (nkind n) (nkind m)"
proof -
  have ok: "node_ok X cs n" using assms(1,3) by (simp add: sync_setup_def)
  consider "zdst X s cs = zdst X (zs X) cs" | "mirror n m"
    using assms(2-4) unfolding fs_good_def by (metis option.inject)
  then show ?thesis
  proof cases
    case 1
    then show ?thesis using assms by (auto simp: sync_setup_def)
  next
    case 2
    then show ?thesis using ok by (cases "nkind n") (auto simp: mirror_def node_ok_def)
  qed
qed

text \<open>A step that changes one node of the destination and makes it right.\<close>

lemma good_touch:
  assumes "sync_place X" and "fs_good X s" and "touches (zq X @ cs) s s'" and "znode X cs = Some n"
    and "zdst X s' cs = Some m" and "mirror n m"
  shows "fs_good X s'" and "file_done X s' cs"
proof -
  have *: "zdst X s' ds = zdst X s ds" if "ds \<noteq> cs" for ds
    using assms(3) that by (simp add: touches_def zdst_def)
  have "node_at (fs_nodes s') x = node_at (fs_nodes s) x" if "\<not> prefix (zq X) x" for x
    using that assms(3) unfolding touches_def by (metis prefixI)
  moreover have "zdst X s' ds = zdst X (zs X) ds
      \<or> (\<exists>n m. znode X ds = Some n \<and> zdst X s' ds = Some m \<and> mirror n m)" for ds
    using * [of ds] assms(2,4-6) unfolding fs_good_def by (cases "ds = cs") auto
  ultimately show "fs_good X s'" using assms(2,3) by (simp add: fs_good_def touches_def)
  show "file_done X s' cs" using assms(4-6) by (auto simp: file_done_def)
qed

lemma touch_keeps:
  assumes "touches (zq X @ cs) s s'" and "ds \<noteq> cs"
  shows "file_done X s ds \<longleftrightarrow> file_done X s' ds" and "dst_dir X s ds \<longleftrightarrow> dst_dir X s' ds"
  using assms by (simp_all add: touches_def file_done_def zdst_def dst_dir_def is_dir_def kind_at_def)

section \<open>One file\<close>

lemma ms_nonneg: "node_ok X cs n \<Longrightarrow> 0 \<le> mtime_ms n"
  by (simp add: node_ok_def mtime_ms_def conv_simps pos_imp_zdiv_nonneg_iff)

lemma FileInfo_plain:
  assumes "fs_wf s" and "plain_at path p" and "node_at (fs_nodes s) p = Some n"
  shows "fst (FileInfo db s path owner out)" and "fi_update_time (snd (FileInfo db s path owner out)) = mtime_ms n"
    and "fi_size (snd (FileInfo db s path owner out)) = int (kind_size (nkind n))"
  using Exists_present(2) [OF assms(1,2), of "nkind n"] assms(3)
  by (simp_all add: FileInfo_def sys_lstat_def stat_at_def kind_at_def mtime_ms_def)

lemma Exists_node:
  assumes "fs_wf s" and "plain_at path p" and "p \<noteq> []" and "is_dir (fs_nodes s) (butlast p)"
  shows "Exists s path \<longleftrightarrow> node_at (fs_nodes s) p \<noteq> None"
proof (cases "node_at (fs_nodes s) p")
  case None
  then have "free_name s path p" using assms by (simp add: free_name_def kind_at_def)
  then show ?thesis using None by (simp add: Exists_iff free_name_status)
next
  case (Some n)
  then show ?thesis using Exists_present(1) [OF assms(1,2), of "nkind n"] by (simp add: kind_at_def)
qed

text \<open>The two names of an entry, as the workers spell them.\<close>

definition file_paths :: "('c, 'z) sync_case \<Rightarrow> string list \<Rightarrow> string \<Rightarrow> string \<Rightarrow> bool" where
  "file_paths X ds a b \<longleftrightarrow>
     ds \<noteq> [] \<and> plain_at a (zp X @ ds) \<and> plain_at b (zq X @ ds)
     \<and> StartWith (sl_boost (zL X)) a (render (zp X))
     \<and> (\<exists>ok. Relative (sl_boost (zL X)) a (render (zp X)) = Some (ok, rel_name ds))"

lemma copy_entry_ok:
  assumes su: "sync_setup X" and g: "fs_good X s" and n: "znode X ds = Some n" "nkind n \<noteq> KDir"
    and dir: "dst_dir X s (butlast ds)" and ab: "file_paths X ds a b"
    and ctx: "y_src ctx = render (zp X)" "y_dst ctx = render (zq X)"
  shows "\<exists>s1. copy_entry (zL X) ctx (nkind n) a b s = Some (True, s1) \<and> touches (zq X @ ds) s s1
    \<and> kind_at (fs_nodes s1) (zq X @ ds) = Some (nkind n)"
proof -
  have pl: "sync_place X" and ok: "node_ok X ds n" using su n(1) by (auto simp: sync_setup_def)
  have ds: "ds \<noteq> []" "plain_at a (zp X @ ds)" "plain_at b (zq X @ ds)" using ab by (auto simp: file_paths_def)
  have par: "is_dir (fs_nodes s) (butlast (zq X @ ds))" using dir ds(1) by (simp add: dst_dir_def butlast_append)
  have src: "kind_at (fs_nodes s) (zp X @ ds) = Some (nkind n)" using src_kind [OF pl g] n(1) by (simp add: zkind_def)
  have ne: "zp X @ ds \<noteq> zq X @ ds" using outside_src [OF pl, of ds] by (metis prefixI)
  have cl: "same_class (nkind n) k" if "kind_at (fs_nodes s) (zq X @ ds) = Some k" for k
    using good_class [OF su g n(1)] that by (auto simp: kind_at_def zdst_def)
  show ?thesis
  proof (cases "nkind n")
    case (KReg d)
    have "free_name s b (zq X @ ds) \<or> (\<exists>e. reg_file s b (zq X @ ds) e)"
    proof (cases "kind_at (fs_nodes s) (zq X @ ds)")
      case None
      then show ?thesis using fs_good_wf(1) [OF g] ds par by (simp add: free_name_def)
    next
      case (Some k)
      then show ?thesis using cl [OF Some] KReg fs_good_wf(1) [OF g] ds(3) by (cases k) (auto simp: reg_file_def)
    qed
    moreover have "reg_file s a (zp X @ ds) d" using src KReg ds(2) fs_good_wf(1) [OF g] by (simp add: reg_file_def)
    ultimately show ?thesis using CopyFile_touches [OF _ _ ne fs_good_wf(2) [OF g]] KReg by (simp add: copy_entry_def)
  next
    case (KLink t)
    have "\<not> is_dir (fs_nodes s) (zq X @ ds)" using cl KLink by (auto simp: is_dir_def)
    moreover have "is_dir (fs_nodes s) (zp X)" "is_dir (fs_nodes s) (zq X)"
    proof -
      show "is_dir (fs_nodes s) (zp X)"
        using src_kind [OF pl g, of "[]"] pl by (simp add: is_dir_def zkind_def znode_def sync_place_def kind_at_def)
      have "is_dir (fs_nodes s) (zq X @ butlast ds)" using dir by (simp add: dst_dir_def)
      then show "is_dir (fs_nodes s) (zq X)" using wf_ancestor_dir fs_good_wf(1) [OF g] by (auto simp: fs_wf_def)
    qed
    ultimately show ?thesis
      using SyncSymlink_touches [of s "zp X" "zq X" ds a "sl_boost (zL X)" _ t] fs_good_wf [OF g] pl znode_plain [OF pl n(1)]
        dir ab src KLink ok ctx
      by (auto simp: copy_entry_def sync_place_def dst_dir_def file_paths_def node_ok_def)
  qed (use n(2) ok in \<open>auto simp: node_ok_def\<close>)
qed

lemma sync_copy_ok:
  assumes su: "sync_setup X" and g: "fs_good X s" and n: "znode X ds = Some n" "nkind n \<noteq> KDir"
    and dir: "dst_dir X s (butlast ds)" and ab: "file_paths X ds a b"
    and ctx: "y_src ctx = render (zp X)" "y_dst ctx = render (zq X)"
  shows "\<exists>s1 s2. copy_entry (zL X) ctx (nkind n) a b s = Some (True, s1) \<and> SetUpdateTime b (mtime_ms n) s1 = (True, s2)
    \<and> touches (zq X @ ds) s s2 \<and> fs_good X s2 \<and> file_done X s2 ds"
proof -
  obtain s1 where s1: "copy_entry (zL X) ctx (nkind n) a b s = Some (True, s1)" "touches (zq X @ ds) s s1"
    "kind_at (fs_nodes s1) (zq X @ ds) = Some (nkind n)"
    using copy_entry_ok [OF assms] by blast
  have pl: "sync_place X" and ok: "node_ok X ds n" using su n(1) by (auto simp: sync_setup_def)
  obtain s2 m where s2: "SetUpdateTime b (mtime_ms n) s1 = (True, s2)" "touches (zq X @ ds) s1 s2"
    "node_at (fs_nodes s2) (zq X @ ds) = Some m" "nkind m = nkind n" "mtime_ms m = mtime_ms n"
    using SetUpdateTime_touches [of s1 b "zq X @ ds" "nkind n" "mtime_ms n"] s1(2,3) ab ms_nonneg [OF ok] pl
    by (auto simp: touches_def file_paths_def sync_place_def)
  have t: "touches (zq X @ ds) s s2" using touches_trans s1(2) s2(2) by blast
  have "zdst X s2 ds = Some m" "mirror n m" using s2 by (simp_all add: zdst_def mirror_def)
  then show ?thesis using s1(1) s2(1) t good_touch [OF pl g t n(1)] by blast
qed

lemma worker_paths:
  assumes pl: "sync_place X" and cs: "list_all plain_name (cs @ [n])"
  shows "file_paths X (cs @ [n]) (zname X cs @ ''/'' @ n) (render (zq X) @ ''/'' @ rel_name cs @ ''/'' @ n)"
proof -
  have a: "zname X cs @ ''/'' @ n = zname X (cs @ [n])"
    using pl render_append [of "zp X @ cs" "[n]"] by (simp add: zname_def rel_name_def sync_place_def)
  have "prefix (render (zp X)) (zname X (cs @ [n]))"
    using pl by (simp add: zname_def render_append sync_place_def)
  then have "StartWith (sl_boost (zL X)) (zname X (cs @ [n])) (render (zp X))"
    using pl by (simp add: StartWith_def boost_string.starts_with sync_place_def)
  then show ?thesis
    using pl cs a zname_plain [OF pl cs] item_path_plain [of "zq X" cs n] Relative_render [of "sl_boost (zL X)" "zp X" "cs @ [n]"]
    by (auto simp: file_paths_def sync_place_def zname_def)
qed

text \<open>The context while nothing has failed.\<close>

definition ctx_ok :: "('c, 'z) sync_case \<Rightarrow> SyncContext \<Rightarrow> bool" where
  "ctx_ok X ctx \<longleftrightarrow>
     y_src ctx = render (zp X) \<and> y_dst ctx = render (zq X) \<and> y_ignored_dirs ctx = y_ignored_dirs (zc X)
     \<and> y_err_code ctx = Err_Success \<and> y_sync_failed_files ctx = [] \<and> y_syncd_file_fail_cnt ctx = 0
     \<and> y_syncd_file_success_cnt ctx = y_total_file_cnt ctx"

definition file_step :: "('c, 'z) sync_case \<Rightarrow> string list \<Rightarrow> fs \<Rightarrow> fs \<Rightarrow> bool" where
  "file_step X ds s s' \<longleftrightarrow>
     fs_good X s' \<and> file_done X s' ds
     \<and> (\<forall>es. es \<noteq> ds \<longrightarrow> file_done X s' es = file_done X s es \<and> dst_dir X s' es = dst_dir X s es)"

lemma skipped_done:
  assumes "fs_good X s" and "znode X ds = Some n" and "zdst X s ds = Some m" and "mtime_ms n = mtime_ms m"
    and "kind_size (nkind n) = kind_size (nkind m)"
  shows "file_done X s ds"
proof -
  consider "zdst X s ds = zdst X (zs X) ds" | n' m' where "znode X ds = Some n'" "zdst X s ds = Some m'" "mirror n' m'"
    using assms(1) unfolding fs_good_def by blast
  then show ?thesis using assms(2-) by cases (auto simp: file_done_def)
qed

lemma sync_file_ok:
  assumes su: "sync_setup X" and g: "fs_good X (yt_fs st)" and c: "ctx_ok X (yt_ctx st)"
    and k: "zkind X (cs @ [n]) = Some k" "k \<noteq> KDir" and dir: "dst_dir X (yt_fs st) cs"
  shows "\<exists>st'. sync_file (zL X) (zname X cs) (rel_name cs) (n, k) st = Some st'
    \<and> file_step X (cs @ [n]) (yt_fs st) (yt_fs st') \<and> ctx_ok X (yt_ctx st')
    \<and> yt_stop st' = yt_stop st \<and> y_dir_queue (yt_ctx st') = y_dir_queue (yt_ctx st)"
proof -
  let ?s = "yt_fs st" and ?ds = "cs @ [n]" and ?ctx = "yt_ctx st"
  let ?a = "zname X cs @ ''/'' @ n" and ?b = "render (zq X) @ ''/'' @ rel_name cs @ ''/'' @ n"
  have pl: "sync_place X" using su by (simp add: sync_setup_def)
  obtain nd where nd: "znode X ?ds = Some nd" "nkind nd = k" using k(1) by (auto simp: zkind_def)
  note ab = worker_paths [OF pl znode_plain [OF pl nd(1)]]
  have pab: "plain_at ?a (zp X @ ?ds)" "plain_at ?b (zq X @ ?ds)" using ab by (auto simp: file_paths_def)
  note wf = fs_good_wf [OF g]
  have fi: "fst (FileInfo db ?s ?a True no_info)" "fi_update_time (snd (FileInfo db ?s ?a True no_info)) = mtime_ms nd"
    "fi_size (snd (FileInfo db ?s ?a True no_info)) = int (kind_size k)" for db
    using FileInfo_plain [OF wf(1) pab(1), of nd db True no_info] src_node [OF pl g, of ?ds] nd by simp_all
  have ex: "Exists ?s ?b \<longleftrightarrow> zdst X ?s ?ds \<noteq> None"
    using Exists_node [OF wf(1) pab(2)] dir pl by (simp add: zdst_def dst_dir_def butlast_append)
  have dfi: "fst (FileInfo db ?s ?b False no_info)" "fi_update_time (snd (FileInfo db ?s ?b False no_info)) = mtime_ms m"
    "fi_size (snd (FileInfo db ?s ?b False no_info)) = int (kind_size (nkind m))" if "zdst X ?s ?ds = Some m" for db m
    using FileInfo_plain [OF wf(1) pab(2), of m db False no_info] that by (simp_all add: zdst_def)
  have nonneg: "0 \<le> mtime_ms nd" using su nd(1) unfolding sync_setup_def by (metis ms_nonneg)
  have ctx: "y_src ?ctx = render (zp X)" "y_dst ?ctx = render (zq X)" using c by (auto simp: ctx_ok_def)
  show ?thesis
  proof (cases "\<exists>m. zdst X ?s ?ds = Some m \<and> mtime_ms nd = mtime_ms m \<and> kind_size k = kind_size (nkind m)")
    case True
    then obtain m where m: "zdst X ?s ?ds = Some m" "mtime_ms nd = mtime_ms m" "kind_size k = kind_size (nkind m)" by blast
    have "sync_file (zL X) (zname X cs) (rel_name cs) (n, k) st =
        Some (st\<lparr>yt_ctx := sync_skipped (?ctx\<lparr>y_total_file_cnt := y_total_file_cnt ?ctx + 1\<rparr>)\<rparr>)"
      using m fi [of "sl_db (zL X)"] dfi [OF m(1), of "sl_db (zL X)"] ex nonneg ctx
      by (simp add: sync_file_def Let_def split_beta)
    moreover have "file_step X ?ds ?s ?s"
      using g skipped_done [OF g nd(1) m(1,2)] m(3) nd(2) by (simp add: file_step_def)
    ultimately show ?thesis using c by (auto simp: ctx_ok_def sync_skipped_def)
  next
    case False
    obtain s1 s2 where s: "copy_entry (zL X) ?ctx (nkind nd) ?a ?b ?s = Some (True, s1)"
      "SetUpdateTime ?b (mtime_ms nd) s1 = (True, s2)" "touches (zq X @ ?ds) ?s s2" "fs_good X s2" "file_done X s2 ?ds"
      using sync_copy_ok [OF su g nd(1) _ _ ab ctx] k(2) nd(2) dir by auto
    have "sync_file (zL X) (zname X cs) (rel_name cs) (n, k) st =
        Some (st\<lparr>yt_fs := s2, yt_ctx := sync_done (?ctx\<lparr>y_total_file_cnt := y_total_file_cnt ?ctx + 1\<rparr>)\<rparr>)"
      using s(1,2) False fi [of "sl_db (zL X)"] dfi [of _ "sl_db (zL X)"] ex nonneg ctx nd(2)
      by (auto simp: sync_file_def Let_def split_beta)
    moreover have "file_step X ?ds ?s s2"
      using s(3-5) touch_keeps [OF s(3)] by (simp add: file_step_def)
    ultimately show ?thesis using c by (auto simp: ctx_ok_def sync_done_def)
  qed
qed

section \<open>One directory\<close>

text \<open>A step that loses nothing of what was done.\<close>

definition grows :: "('c, 'z) sync_case \<Rightarrow> fs \<Rightarrow> fs \<Rightarrow> bool" where
  "grows X s s' \<longleftrightarrow>
     fs_good X s' \<and> (\<forall>ds. (file_done X s ds \<longrightarrow> file_done X s' ds) \<and> (dst_dir X s ds \<longrightarrow> dst_dir X s' ds))"

lemma src_dirs:
  assumes "sync_place X" and "zkind X cs = Some KDir" and "prefix ds cs"
  shows "zkind X ds = Some KDir"
proof -
  obtain es where "zp X @ cs = (zp X @ ds) @ es" using assms(3) by (auto simp: prefix_def)
  moreover have "is_dir (fs_nodes (zs X)) (zp X @ cs)" using assms(2) by (simp add: is_dir_def zkind_def znode_def kind_at_def)
  ultimately have "is_dir (fs_nodes (zs X)) (zp X @ ds)"
    using assms(1) wf_ancestor_dir by (auto simp: sync_place_def fs_wf_def)
  then show ?thesis by (simp add: is_dir_def zkind_def znode_def kind_at_def)
qed

lemma dst_root: "sync_place X \<Longrightarrow> fs_good X s \<Longrightarrow> is_dir (fs_nodes s) (zq X)"
proof -
  assume pl: "sync_place X" and g: "fs_good X s"
  have "zdst X (zs X) [] \<noteq> None" "kind_at (fs_nodes (zs X)) (zq X) = Some KDir"
    using pl by (auto simp: sync_place_def is_dir_def zdst_def kind_at_def)
  moreover have "zkind X [] = Some KDir" using pl by (simp add: sync_place_def is_dir_def zkind_def znode_def kind_at_def)
  moreover have "zdst X s [] = zdst X (zs X) [] \<or> (\<exists>n m. znode X [] = Some n \<and> zdst X s [] = Some m \<and> mirror n m)"
    using g unfolding fs_good_def by blast
  ultimately show ?thesis
    by (auto simp: is_dir_def kind_at_def zdst_def mirror_def zkind_def)
qed

lemma dst_free_or_dir:
  assumes "sync_setup X" and "fs_good X s" and "zkind X cs = Some KDir"
  shows "kind_at (fs_nodes s) (zq X @ cs) = None \<or> is_dir (fs_nodes s) (zq X @ cs)"
proof (cases "zdst X s cs")
  case (Some m)
  obtain n where n: "znode X cs = Some n" "nkind n = KDir" using assms(3) by (auto simp: zkind_def)
  have "same_class KDir (nkind m)" using good_class [OF assms(1,2) n(1) Some] n(2) by simp
  then show ?thesis using Some by (cases "nkind m") (auto simp: zdst_def is_dir_def kind_at_def)
qed (simp add: zdst_def kind_at_def)

lemma dst_open:
  assumes su: "sync_setup X" and g: "fs_good X s" and k: "zkind X cs = Some KDir"
  shows "dirs_open (fs_nodes s) (zq X @ cs)"
  unfolding dirs_open_def
proof
  fix x assume x: "x \<in> set (prefixes (zq X @ cs))"
  have pl: "sync_place X" using su by (simp add: sync_setup_def)
  consider "prefix x (zq X)" | es where "x = zq X @ es" "prefix es cs" using x by (auto simp: prefix_append)
  then show "kind_at (fs_nodes s) x = None \<or> is_dir (fs_nodes s) x"
  proof cases
    case 1
    then show ?thesis
      using dst_root [OF pl g] fs_good_wf(1) [OF g] wf_ancestor_dir by (auto simp: fs_wf_def prefix_def)
  next
    case 2
    then show ?thesis using dst_free_or_dir [OF su g src_dirs [OF pl k]] by simp
  qed
qed

lemma walk_final_dot:
  assumes "wf_nodes N"
  shows "is_dir N (d @ cs) \<Longrightarrow> list_all plain_name cs \<Longrightarrow> walk l N f d (cs @ [''.'']) = Inr (d @ cs)"
proof (induction cs arbitrary: d)
  case (Cons c cs)
  have d: "is_dir N d" using Cons.prems(1) wf_ancestor_dir [OF assms, of d] by simp
  have "is_dir N ((d @ [c]) @ cs)" using Cons.prems(1) by simp
  then have "is_dir N (d @ [c])" using wf_ancestor_dir [OF assms] by blast
  then show ?case
    using Cons.IH [of "d @ [c]"] Cons.prems d
    by (simp add: walk_step_plain del: walk.simps(2)) (simp add: is_dir_def)
qed (simp add: is_dir_def)

text \<open>The name of a directory below \<open>p\<close>, as the workers spell it: the top has a slash at the end.\<close>

lemma below_resolve:
  assumes "fs_wf s" and "is_dir (fs_nodes s) (p @ cs)" and "list_all plain_name (p @ cs)" and "p \<noteq> []"
  shows "resolve s f (render p @ ''/'' @ rel_name cs) = Inr (p @ cs)"
proof (cases "cs = []")
  case True
  have p: "list_all plain_name p" using assms(3) by simp
  have "walk_comps (render p @ ''/'') = p @ [''.'']"
    using plain_at_comps [OF plain_at_render [OF p]] assms(4) by (simp add: walk_comps_def split_on_append_sep)
  moreover have "walk max_links (fs_nodes s) f [] (p @ [''.'']) = Inr ([] @ p)"
    using assms True by (intro walk_final_dot) (auto simp: fs_wf_def)
  moreover have "is_absolute (render p @ ''/'')" using assms(4) by (simp add: render_join is_absolute_def)
  ultimately show ?thesis using True by (simp add: resolve_def)
next
  case False
  have "good_at (fs_nodes s) (p @ cs)" using assms(1,2) by (auto simp: fs_wf_def intro: wf_dir_good)
  then have "resolve s f (render (p @ cs)) = Inr (p @ cs)"
    using assms plain_at_render [OF assms(3)] by (intro resolve_plain) (auto simp: good_at_def)
  then show ?thesis using False assms(4) by (simp add: render_append)
qed

lemma below_status:
  assumes "fs_wf s" and "is_dir (fs_nodes s) (p @ cs)" and "list_all plain_name (p @ cs)" and "p \<noteq> []"
  shows "Exists s (render p @ ''/'' @ rel_name cs)" and "fs_is_directory s (render p @ ''/'' @ rel_name cs) = Inr True"
    and "fs_is_symlink s (render p @ ''/'' @ rel_name cs) = Inr False"
  using below_resolve [OF assms, of True] below_resolve [OF assms, of False] assms(2)
  by (auto simp: Exists_iff fs_is_directory_def fs_is_symlink_def fs_status_def fs_symlink_status_def sys_stat_def
      sys_lstat_def stat_at_def status_of_def is_dir_def kind_at_def)

lemma Mkdir_grows:
  assumes su: "sync_setup X" and g: "fs_good X s" and k: "zkind X cs = Some KDir"
  shows "\<exists>s1. Mkdir (render (zq X) @ ''/'' @ rel_name cs) s = (True, s1) \<and> grows X s s1 \<and> dst_dir X s1 cs"
proof -
  have pl: "sync_place X" using su by (simp add: sync_setup_def)
  have q: "zq X \<noteq> []" "list_all plain_name (zq X @ cs)" using pl zkind_plain [OF pl k] by (auto simp: sync_place_def)
  show ?thesis
  proof (cases "cs = []")
    case True
    then have "Mkdir (render (zq X) @ ''/'' @ rel_name cs) s = (True, s)"
      using below_status(1) [OF fs_good_wf(1) [OF g], of "zq X" "[]"] dst_root [OF pl g] q by (simp add: Mkdir_def)
    then show ?thesis using dst_root [OF pl g] True g by (auto simp: grows_def dst_dir_def)
  next
    case False
    then have path: "render (zq X) @ ''/'' @ rel_name cs = render (zq X @ cs)" using q by (simp add: render_append)
    obtain s1 where s1: "Mkdir (render (zq X @ cs)) s = (True, s1)" "dirs_made (zq X @ cs) s s1"
      using Mkdir_plain [OF fs_good_wf [OF g] plain_at_render [OF q(2)] dst_open [OF su g k]] by blast
    have old: "node_at (fs_nodes s1) x = Some n" if "node_at (fs_nodes s) x = Some n" for x n
      using Mkdir_node [OF s1(1) that] .
    have kind: "kind_at (fs_nodes s1) x = (if prefix x (zq X @ cs) then Some KDir else kind_at (fs_nodes s) x)" for x
      using s1(2) by (simp add: dirs_made_def)
    have new: "node_at (fs_nodes s1) x = node_at (fs_nodes s) x" if "\<not> (\<exists>es. x = zq X @ es \<and> prefix es cs)" for x
    proof (cases "node_at (fs_nodes s) x")
      case None
      have "\<not> prefix x (zq X @ cs)"
      proof
        assume "prefix x (zq X @ cs)"
        then have "prefix x (zq X)" using that by (auto simp: prefix_append)
        then have "is_dir (fs_nodes s) x"
          using dst_root [OF pl g] fs_good_wf(1) [OF g] wf_ancestor_dir by (auto simp: fs_wf_def prefix_def)
        then show False using None by (simp add: is_dir_def kind_at_def)
      qed
      then show ?thesis using kind [of x] None by (simp add: kind_at_def)
    qed (use old in auto)
    have cell: "zdst X s1 ds = zdst X s ds \<or> (\<exists>n m. znode X ds = Some n \<and> zdst X s1 ds = Some m \<and> mirror n m)" for ds
    proof (cases "prefix ds cs")
      case True
      then have "zkind X ds = Some KDir" using src_dirs [OF pl k] by blast
      moreover have "kind_at (fs_nodes s1) (zq X @ ds) = Some KDir" using kind True by simp
      ultimately show ?thesis by (auto simp: zkind_def kind_at_def zdst_def mirror_def)
    qed (use new in \<open>auto simp: zdst_def\<close>)
    have "fs_good X s1"
      unfolding fs_good_def
    proof (intro conjI allI impI)
      show "fs_wf s1" "fs_faults s1 = []" using s1(2) fs_good_wf [OF g] by (simp_all add: dirs_made_def)
      fix x assume "\<not> prefix (zq X) x"
      then show "node_at (fs_nodes s1) x = node_at (fs_nodes (zs X)) x"
        using new [of x] g unfolding fs_good_def by (metis prefixI)
    next
      fix ds
      show "zdst X s1 ds = zdst X (zs X) ds \<or> (\<exists>n m. znode X ds = Some n \<and> zdst X s1 ds = Some m \<and> mirror n m)"
        using cell [of ds] g unfolding fs_good_def by metis
    qed
    moreover have "file_done X s1 ds" if "file_done X s ds" for ds
      using that old by (fastforce simp: file_done_def zdst_def)
    moreover have "dst_dir X s1 ds" if "dst_dir X s ds" for ds
      using that kind by (simp add: dst_dir_def is_dir_def)
    moreover have "dst_dir X s1 cs" using kind by (simp add: dst_dir_def is_dir_def)
    ultimately show ?thesis using s1(1) path by (auto simp: grows_def)
  qed
qed

section \<open>The invariant of the workers\<close>

definition todo :: "('c, 'z) sync_case \<Rightarrow> sync_phase worker set \<Rightarrow> sync_st \<Rightarrow> string list \<Rightarrow> bool" where
  "todo X W st cs \<longleftrightarrow>
     list_all plain_name cs
     \<and> (zname X cs \<in> set (y_dir_queue (yt_ctx st)) \<or> WBusy (RCheck (zname X cs)) \<in> W)"

definition listed :: "('c, 'z) sync_case \<Rightarrow> sync_phase worker set \<Rightarrow> string list \<Rightarrow> string \<times> fkind \<Rightarrow> bool" where
  "listed X W cs e \<longleftrightarrow> (\<exists>r es. WBusy (REntries (zname X cs) r es) \<in> W \<and> e \<in> set es)"

text \<open>
  What has become of an entry of a visited directory, where \<open>V\<close> are the visited directories.
\<close>

definition entrusted ::
  "('c, 'z) sync_case \<Rightarrow> string list set \<Rightarrow> sync_phase worker set \<Rightarrow> sync_st \<Rightarrow> string list \<Rightarrow> string \<times> fkind \<Rightarrow> bool" where
  "entrusted X V W st cs e \<longleftrightarrow>
     listed X W cs e
     \<or> (if snd e = KDir then zign X (cs @ [fst e]) \<or> cs @ [fst e] \<in> V \<or> todo X W st (cs @ [fst e])
        else file_done X (yt_fs st) (cs @ [fst e]))"

definition cover :: "('c, 'z) sync_case \<Rightarrow> string list set \<Rightarrow> sync_phase worker set \<Rightarrow> sync_st \<Rightarrow> bool" where
  "cover X V W st \<longleftrightarrow>
     (zign X [] \<or> [] \<in> V \<or> todo X W st [])
     \<and> (\<forall>cs \<in> V. zkind X cs = Some KDir \<and> dst_dir X (yt_fs st) cs
          \<and> (\<forall>n k. zkind X (cs @ [n]) = Some k \<longrightarrow> entrusted X V W st cs (n, k)))"

fun shape :: "('c, 'z) sync_case \<Rightarrow> fs \<Rightarrow> sync_phase worker \<Rightarrow> bool" where
  "shape X s (WBusy (RCheck d)) = (\<exists>cs. zkind X cs = Some KDir \<and> d = zname X cs)"
| "shape X s (WBusy (REntries d r es)) =
     (\<exists>cs. zkind X cs = Some KDir \<and> d = zname X cs \<and> r = rel_name cs \<and> dst_dir X s cs
        \<and> length es \<le> length (fs_nodes (zs X)) \<and> (\<forall>(n, k) \<in> set es. zkind X (cs @ [n]) = Some k))"
| "shape X s WHung = False"
| "shape X s _ = True"

definition sync_inv :: "('c, 'z) sync_case \<Rightarrow> sync_phase worker list \<Rightarrow> sync_st \<Rightarrow> bool" where
  "sync_inv X ws st \<longleftrightarrow>
     sync_setup X \<and> fs_good X (yt_fs st) \<and> ctx_ok X (yt_ctx st) \<and> \<not> yt_stop st
     \<and> (\<forall>d \<in> set (y_dir_queue (yt_ctx st)). \<exists>cs. zkind X cs = Some KDir \<and> d = zname X cs)
     \<and> (\<forall>w \<in> set ws. shape X (yt_fs st) w) \<and> (\<exists>V. cover X V (set ws) st)"

lemma shape_grows: "shape X s w \<Longrightarrow> grows X s s' \<Longrightarrow> shape X s' w"
  by (cases "(X, s, w)" rule: shape.cases) (auto simp: grows_def)

lemma file_step_grows:
  "file_step X ds s s' \<Longrightarrow> zkind X ds = Some k \<Longrightarrow> k \<noteq> KDir \<Longrightarrow> sync_setup X \<Longrightarrow> fs_good X s \<Longrightarrow> grows X s s'"
proof -
  assume f: "file_step X ds s s'" and k: "zkind X ds = Some k" "k \<noteq> KDir" and su: "sync_setup X" and g: "fs_good X s"
  have "\<not> dst_dir X s ds"
  proof
    assume "dst_dir X s ds"
    then obtain m where m: "zdst X s ds = Some m" "nkind m = KDir" by (auto simp: dst_dir_def is_dir_def zdst_def kind_at_def)
    obtain n where "znode X ds = Some n" "nkind n = k" using k(1) by (auto simp: zkind_def)
    then show False using good_class [OF su g _ m(1)] m(2) k(2) by (cases k) auto
  qed
  then show ?thesis using f unfolding file_step_def grows_def by metis
qed

lemma cover_step:
  assumes c: "cover X V W st" and mv: "moves W old new W'" and g: "grows X (yt_fs st) (yt_fs st')" and V: "V \<subseteq> V'"
    and td: "\<And>cs. todo X W st cs \<Longrightarrow> todo X W' st' cs \<or> cs \<in> V' \<or> zign X cs"
    and li: "\<And>cs e. listed X {old} cs e \<Longrightarrow> zkind X (cs @ [fst e]) = Some (snd e) \<Longrightarrow> entrusted X V' W' st' cs e"
    and nw: "\<And>cs. cs \<in> V' - V \<Longrightarrow> zkind X cs = Some KDir \<and> dst_dir X (yt_fs st') cs
          \<and> (\<forall>n k. zkind X (cs @ [n]) = Some k \<longrightarrow> entrusted X V' W' st' cs (n, k))"
  shows "cover X V' W' st'"
proof -
  have ent: "entrusted X V' W' st' cs (n, k)" if e: "entrusted X V W st cs (n, k)" and k: "zkind X (cs @ [n]) = Some k" for cs n k
  proof (cases "listed X W cs (n, k)")
    case True
    then consider "listed X {old} cs (n, k)" | "listed X W' cs (n, k)"
      using mv unfolding listed_def moves_def by blast
    then show ?thesis using li [of cs "(n, k)"] k by cases (auto simp: entrusted_def)
  next
    case False
    then show ?thesis using e V td [of "cs @ [n]"] g by (auto simp: entrusted_def grows_def split: if_splits)
  qed
  show ?thesis
    unfolding cover_def
  proof (intro conjI ballI)
    show "zign X [] \<or> [] \<in> V' \<or> todo X W' st' []" using c V td [of "[]"] by (auto simp: cover_def)
    fix cs assume "cs \<in> V'"
    then show "zkind X cs = Some KDir" "dst_dir X (yt_fs st') cs"
      "\<forall>n k. zkind X (cs @ [n]) = Some k \<longrightarrow> entrusted X V' W' st' cs (n, k)"
      using c g nw [of cs] ent [of cs] by (cases "cs \<in> V"; simp add: cover_def grows_def)+
  qed
qed

lemma inv_step:
  assumes inv: "sync_inv X ws st" and i: "i < length ws" and g: "grows X (yt_fs st) (yt_fs st')"
    and ctx: "ctx_ok X (yt_ctx st')" "\<not> yt_stop st'"
    and q: "\<And>d. d \<in> set (y_dir_queue (yt_ctx st')) \<Longrightarrow>
        d \<in> set (y_dir_queue (yt_ctx st)) \<or> (\<exists>cs. zkind X cs = Some KDir \<and> d = zname X cs)"
    and sh: "shape X (yt_fs st') new"
    and cv: "\<And>V. cover X V (set ws) st \<Longrightarrow> moves (set ws) (ws ! i) new (set (ws[i := new])) \<Longrightarrow>
        \<exists>V'. cover X V' (set (ws[i := new])) st'"
  shows "sync_inv X (ws[i := new]) st'"
proof -
  have "\<forall>w \<in> set (ws[i := new]). shape X (yt_fs st') w"
    using inv sh g shape_grows set_update_subset_insert [of ws i new] by (fastforce simp: sync_inv_def)
  moreover have "\<exists>V'. cover X V' (set (ws[i := new])) st'"
    using inv cv moves_update [OF i] by (auto simp: sync_inv_def)
  moreover have "\<forall>d \<in> set (y_dir_queue (yt_ctx st')). \<exists>cs. zkind X cs = Some KDir \<and> d = zname X cs"
    using inv q by (auto simp: sync_inv_def)
  moreover have "fs_good X (yt_fs st')" using g by (simp add: grows_def)
  ultimately show ?thesis using inv ctx by (simp add: sync_inv_def)
qed

lemma grows_refl: "fs_good X s \<Longrightarrow> grows X s s"
  by (simp add: grows_def)

lemma entry_no_throw:
  assumes su: "sync_setup X" and g: "fs_good X s" and k: "zkind X cs = Some k"
  shows "\<not> entry_throws s (zname X cs) k"
proof (cases k)
  case (KLink t)
  have pl: "sync_place X" using su by (simp add: sync_setup_def)
  obtain n where n: "znode X cs = Some n" "nkind n = k" using k by (auto simp: zkind_def)
  have ok: "node_ok X cs n" using su n(1) by (auto simp: sync_setup_def)
  have pa: "plain_at (zname X cs) (zp X @ cs)" using zname_plain [OF pl znode_plain [OF pl n(1)]] .
  then have r: "resolve s' True (zname X cs) = walk max_links (fs_nodes s') True [] (zp X @ cs)" for s'
    by (auto simp: resolve_def plain_at_def is_absolute_def)
  have "walk max_links (fs_nodes s) True [] (zp X @ cs) = walk max_links (fs_nodes (zs X)) True [] (zp X @ cs)"
    using ok n(2) KLink g by (intro outside_walk) (auto simp: node_ok_def fs_good_def kind_at_def)
  then show ?thesis
    using ok n(2) KLink r
    by (auto simp: entry_throws_def node_ok_def fs_is_directory_def fs_status_def sys_stat_def stat_at_def status_of_def
        split: sum.splits option.splits if_splits)
qed (simp_all add: entry_throws_def)

section \<open>The steps of the workers\<close>

definition after :: "sync_phase option \<Rightarrow> sync_phase worker" where
  "after r = (case r of None \<Rightarrow> WIdle 0 | Some w \<Rightarrow> WBusy w)"

definition inv_after :: "('c, 'z) sync_case \<Rightarrow> sync_phase worker list \<Rightarrow> sync_st \<Rightarrow> nat \<Rightarrow> sync_phase \<Rightarrow> bool" where
  "inv_after X ws st i w \<longleftrightarrow>
     (\<exists>st' r. RecursiveLocalSyncWorker_step (zL X) w st = Some (st', r) \<and> sync_inv X (ws[i := after r]) st')"

lemma listed_entries:
  assumes "sync_place X" "listed X {WBusy (REntries (zname X cs0) r es)} cs e" "zkind X cs0 = Some KDir"
    "zkind X (cs @ [fst e]) = Some (snd e)"
  shows "cs = cs0" and "e \<in> set es"
proof -
  have "zname X cs = zname X cs0" "e \<in> set es" using assms(2) by (auto simp: listed_def)
  moreover have "list_all plain_name cs" using zkind_plain [OF assms(1,4)] by simp
  ultimately show "cs = cs0" "e \<in> set es" using zname_inj [OF assms(1)] zkind_plain [OF assms(1,3)] by auto
qed

lemma todo_check:
  assumes "sync_place X" "todo X W st cs" "moves W (WBusy (RCheck (zname X cs0))) new W'"
    "y_dir_queue (yt_ctx st') = y_dir_queue (yt_ctx st)" "list_all plain_name cs0"
  shows "todo X W' st' cs \<or> cs = cs0"
  using assms zname_inj [OF assms(1) _ assms(5), of cs] unfolding todo_def moves_def by auto

lemma todo_other:
  assumes "todo X W st cs" "moves W old new W'" "\<And>d. old \<noteq> WBusy (RCheck d)"
    "set (y_dir_queue (yt_ctx st)) \<subseteq> set (y_dir_queue (yt_ctx st'))"
  shows "todo X W' st' cs"
  using assms unfolding todo_def moves_def by blast

lemma check_ignored:
  assumes inv: "sync_inv X ws st" and i: "i < length ws" and w: "ws ! i = WBusy (RCheck (zname X cs))"
    and k: "zkind X cs = Some KDir" "zign X cs"
  shows "sync_inv X (ws[i := WIdle 0]) st"
proof -
  have pl: "sync_place X" and g: "fs_good X (yt_fs st)" and c: "ctx_ok X (yt_ctx st)"
    using inv by (auto simp: sync_inv_def sync_setup_def)
  show ?thesis
  proof (rule inv_step [OF inv i grows_refl [OF g] c])
    show "\<not> yt_stop st" using inv by (simp add: sync_inv_def)
    fix V assume cv: "cover X V (set ws) st" and mv: "moves (set ws) (ws ! i) (WIdle 0) (set (ws[i := WIdle 0]))"
    have "cover X V (set (ws[i := WIdle 0])) st"
      using todo_check [OF pl _ mv [unfolded w]] zkind_plain [OF pl k(1)] k(2) w
      by (intro cover_step [OF cv mv grows_refl [OF g] order_refl]) (auto simp: listed_def)
    then show "\<exists>V'. cover X V' (set (ws[i := WIdle 0])) st" by blast
  qed auto
qed

lemma entries_of_source:
  assumes pl: "sync_place X" and g: "fs_good X s" and k: "zkind X cs = Some KDir"
  shows "\<exists>es. fs_entries s (zname X cs) = Inr es \<and> length es \<le> length (fs_nodes (zs X))
    \<and> (\<forall>n k. (n, k) \<in> set es \<longleftrightarrow> zkind X (cs @ [n]) = Some k)"
proof -
  let ?es = "ents (fs_nodes s) (zp X @ cs)" and ?old = "ents (fs_nodes (zs X)) (zp X @ cs)"
  have wf: "wf_nodes (fs_nodes s)" "wf_nodes (fs_nodes (zs X))"
    using fs_good_wf(1) [OF g] pl by (auto simp: fs_wf_def sync_place_def)
  have mem: "(n, k) \<in> set ?es \<longleftrightarrow> zkind X (cs @ [n]) = Some k" "(n, k) \<in> set ?old \<longleftrightarrow> zkind X (cs @ [n]) = Some k" for n k
    using ents_iff [OF wf(1), of n k "zp X @ cs"] ents_iff [OF wf(2), of n k "zp X @ cs"]
      src_kind [OF pl g, of "cs @ [n]"] by (simp_all add: zkind_at)
  have "distinct ?es" "distinct ?old" using distinct_ents wf by (simp_all add: distinct_map)
  moreover have "set ?es = set ?old" using mem by auto
  ultimately have "length ?es = length ?old" by (metis distinct_card)
  moreover have "length ?old \<le> length (fs_nodes (zs X))" by (simp add: ents_def)
  ultimately have "length ?es \<le> length (fs_nodes (zs X))" by simp
  moreover have "fs_entries s (zname X cs) = Inr ?es"
    using fs_entries_render [OF fs_good_wf(1) [OF g]] src_kind [OF pl g, of cs] k zkind_plain [OF pl k] pl
    by (simp add: zname_def is_dir_def sync_place_def)
  ultimately show ?thesis using mem(1) by blast
qed

lemma check_visit:
  assumes inv: "sync_inv X ws st" and i: "i < length ws" and w: "ws ! i = WBusy (RCheck (zname X cs))"
    and k: "zkind X cs = Some KDir" and g: "grows X (yt_fs st) s1" and dd: "dst_dir X s1 cs"
    and es: "length es \<le> length (fs_nodes (zs X))" "\<And>n k. (n, k) \<in> set es \<longleftrightarrow> zkind X (cs @ [n]) = Some k"
    and st': "yt_fs st' = s1" "ctx_ok X (yt_ctx st')" "y_dir_queue (yt_ctx st') = y_dir_queue (yt_ctx st)" "yt_stop st' = yt_stop st"
  shows "sync_inv X (ws[i := WBusy (REntries (zname X cs) (rel_name cs) es)]) st'"
    (is "sync_inv X (ws[i := ?new]) st'")
proof (rule inv_step [OF inv i])
  have pl: "sync_place X" using inv by (auto simp: sync_inv_def sync_setup_def)
  show "grows X (yt_fs st) (yt_fs st')" using g st'(1) by simp
  show "shape X (yt_fs st') ?new" using k dd es st'(1) by auto
  fix V assume cv: "cover X V (set ws) st" and mv: "moves (set ws) (ws ! i) ?new (set (ws[i := ?new]))"
  have li: "listed X (set (ws[i := ?new])) cs (n, k)" if "zkind X (cs @ [n]) = Some k" for n k
    using mv that es(2) unfolding listed_def moves_def by blast
  have "cover X (insert cs V) (set (ws[i := ?new])) st'"
  proof (rule cover_step [OF cv mv])
    show "grows X (yt_fs st) (yt_fs st')" using g st'(1) by simp
    show "todo X (set (ws[i := ?new])) st' cs' \<or> cs' \<in> insert cs V \<or> zign X cs'" if "todo X (set ws) st cs'" for cs'
      using todo_check [OF pl that mv [unfolded w] st'(3) zkind_plain [OF pl k]] by auto
    show "entrusted X (insert cs V) (set (ws[i := ?new])) st' cs' e" if "listed X {ws ! i} cs' e" for cs' e
      using that w by (simp add: listed_def)
  qed (use k dd st'(1) li in \<open>auto simp: entrusted_def\<close>)
  then show "\<exists>V'. cover X V' (set (ws[i := ?new])) st'" by blast
qed (use inv st' in \<open>auto simp: sync_inv_def\<close>)

lemma check_step:
  assumes inv: "sync_inv X ws st" and i: "i < length ws" and w: "ws ! i = WBusy (RCheck d)"
  shows "inv_after X ws st i (RCheck d)"
proof -
  have su: "sync_setup X" and pl: "sync_place X" and g: "fs_good X (yt_fs st)" and c: "ctx_ok X (yt_ctx st)"
    using inv by (auto simp: sync_inv_def sync_setup_def)
  have "shape X (yt_fs st) (ws ! i)" using inv i by (auto simp: sync_inv_def)
  then obtain cs where k: "zkind X cs = Some KDir" and d: "d = zname X cs" using w by auto
  have cs: "list_all plain_name cs" using zkind_plain [OF pl k] .
  have rel: "Relative (sl_boost (zL X)) d (y_src (yt_ctx st)) = Some (True, rel_name cs)"
    using Relative_render [of "sl_boost (zL X)" "zp X" cs] pl cs c d by (simp add: ctx_ok_def sync_place_def zname_def)
  show ?thesis
  proof (cases "zign X cs")
    case True
    then have "RecursiveLocalSyncWorker_step (zL X) (RCheck d) st = Some (st, None)"
      using rel c by (simp add: sync_check_def zign_def ctx_ok_def)
    then show ?thesis using check_ignored [OF inv i w [unfolded d] k True] by (auto simp: inv_after_def after_def)
  next
    case False
    obtain s1 where s1: "Mkdir (render (zq X) @ ''/'' @ rel_name cs) (yt_fs st) = (True, s1)" "grows X (yt_fs st) s1" "dst_dir X s1 cs"
      using Mkdir_grows [OF su g k] by blast
    obtain es where es: "fs_entries s1 d = Inr es" "length es \<le> length (fs_nodes (zs X))"
      "\<And>n k. (n, k) \<in> set es \<longleftrightarrow> zkind X (cs @ [n]) = Some k"
      using entries_of_source [OF pl _ k, of s1] s1(2) d by (auto simp: grows_def)
    let ?st = "st\<lparr>yt_ctx := (yt_ctx st)\<lparr>y_total_dir_cnt := y_total_dir_cnt (yt_ctx st) + 1\<rparr>, yt_fs := s1\<rparr>"
    have "Exists (yt_fs st) d"
      using Exists_present(1) [OF fs_good_wf(1) [OF g] zname_plain [OF pl cs]] src_kind [OF pl g, of cs] k d by simp
    then have "RecursiveLocalSyncWorker_step (zL X) (RCheck d) st = Some (?st, Some (REntries d (rel_name cs) es))"
      using rel c s1(1) es(1) False by (simp add: sync_check_def zign_def ctx_ok_def Let_def)
    moreover have "sync_inv X (ws[i := WBusy (REntries (zname X cs) (rel_name cs) es)]) ?st"
      using c by (intro check_visit [OF inv i w [unfolded d] k s1(2,3) es(2,3)]) (auto simp: ctx_ok_def)
    ultimately show ?thesis using d by (auto simp: inv_after_def after_def)
  qed
qed

lemma entry_dir:
  assumes inv: "sync_inv X ws st" and i: "i < length ws" and w: "ws ! i = WBusy (REntries (zname X cs) (rel_name cs) ((n, KDir) # es))"
    and k: "zkind X (cs @ [n]) = Some KDir"
  shows "sync_inv X (ws[i := WBusy (REntries (zname X cs) (rel_name cs) es)])
      (st\<lparr>yt_ctx := (yt_ctx st)\<lparr>y_dir_queue := BQ_PushBack (zname X (cs @ [n])) (y_dir_queue (yt_ctx st))\<rparr>\<rparr>)"
    (is "sync_inv X (ws[i := ?new]) ?st")
proof (rule inv_step [OF inv i])
  have pl: "sync_place X" and g: "fs_good X (yt_fs st)" using inv by (auto simp: sync_inv_def sync_setup_def)
  show gr: "grows X (yt_fs st) (yt_fs ?st)" using g by (simp add: grows_refl)
  have "shape X (yt_fs st) (ws ! i)" using inv i by (auto simp: sync_inv_def)
  then show "shape X (yt_fs ?st) ?new" using w by fastforce
  fix V assume cv: "cover X V (set ws) st" and mv: "moves (set ws) (ws ! i) ?new (set (ws[i := ?new]))"
  have k0: "zkind X cs = Some KDir" using src_parent_dir [OF pl k] .
  have "cover X V (set (ws[i := ?new])) ?st"
  proof (rule cover_step [OF cv mv gr order_refl])
    show "todo X (set (ws[i := ?new])) ?st cs' \<or> cs' \<in> V \<or> zign X cs'" if "todo X (set ws) st cs'" for cs'
      using todo_other [OF that mv, of ?st] w by (auto simp: BQ_PushBack_def)
    show "entrusted X V (set (ws[i := ?new])) ?st cs' e"
      if "listed X {ws ! i} cs' e" "zkind X (cs' @ [fst e]) = Some (snd e)" for cs' e
    proof -
      have e: "cs' = cs" "e \<in> set ((n, KDir) # es)" using listed_entries [OF pl that(1) [unfolded w] k0 that(2)] by auto
      then consider "e = (n, KDir)" | "listed X (set (ws[i := ?new])) cs' e"
        using mv unfolding listed_def moves_def by auto
      then show ?thesis using e(1) zkind_plain [OF pl k] by cases (auto simp: entrusted_def todo_def BQ_PushBack_def)
    qed
  qed auto
  then show "\<exists>V'. cover X V' (set (ws[i := ?new])) ?st" by blast
qed (use inv k in \<open>auto simp: sync_inv_def ctx_ok_def BQ_PushBack_def\<close>)

lemma entry_file:
  assumes inv: "sync_inv X ws st" and i: "i < length ws" and w: "ws ! i = WBusy (REntries (zname X cs) (rel_name cs) ((n, k) # es))"
    and k: "zkind X (cs @ [n]) = Some k" "k \<noteq> KDir"
    and st': "file_step X (cs @ [n]) (yt_fs st) (yt_fs st')" "ctx_ok X (yt_ctx st')" "yt_stop st' = yt_stop st"
      "y_dir_queue (yt_ctx st') = y_dir_queue (yt_ctx st)"
  shows "sync_inv X (ws[i := WBusy (REntries (zname X cs) (rel_name cs) es)]) st'"
    (is "sync_inv X (ws[i := ?new]) st'")
proof (rule inv_step [OF inv i])
  have su: "sync_setup X" and pl: "sync_place X" and g: "fs_good X (yt_fs st)" using inv by (auto simp: sync_inv_def sync_setup_def)
  show gr: "grows X (yt_fs st) (yt_fs st')" using file_step_grows [OF st'(1) k su g] .
  have "shape X (yt_fs st) (ws ! i)" using inv i by (auto simp: sync_inv_def)
  then have "shape X (yt_fs st) ?new" using w by fastforce
  then show "shape X (yt_fs st') ?new" using gr shape_grows by blast
  fix V assume cv: "cover X V (set ws) st" and mv: "moves (set ws) (ws ! i) ?new (set (ws[i := ?new]))"
  have k0: "zkind X cs = Some KDir" using src_parent_dir [OF pl k(1)] .
  have "cover X V (set (ws[i := ?new])) st'"
  proof (rule cover_step [OF cv mv gr order_refl])
    show "todo X (set (ws[i := ?new])) st' cs' \<or> cs' \<in> V \<or> zign X cs'" if "todo X (set ws) st cs'" for cs'
      using todo_other [OF that mv, of st'] w st'(4) by auto
    show "entrusted X V (set (ws[i := ?new])) st' cs' e"
      if "listed X {ws ! i} cs' e" "zkind X (cs' @ [fst e]) = Some (snd e)" for cs' e
    proof -
      have e: "cs' = cs" "e \<in> set ((n, k) # es)" using listed_entries [OF pl that(1) [unfolded w] k0 that(2)] by auto
      then consider "e = (n, k)" | "listed X (set (ws[i := ?new])) cs' e"
        using mv unfolding listed_def moves_def by auto
      then show ?thesis using e(1) st'(1) k(2) by cases (auto simp: entrusted_def file_step_def)
    qed
  qed auto
  then show "\<exists>V'. cover X V' (set (ws[i := ?new])) st'" by blast
qed (use inv st' in \<open>auto simp: sync_inv_def\<close>)

lemma idle_step:
  assumes inv: "sync_inv X ws st" and i: "i < length ws" and nl: "\<And>cs e. \<not> listed X {ws ! i} cs e"
    and nc: "\<And>d. ws ! i \<noteq> WBusy (RCheck d)" and new: "new = WStopped \<or> new = WIdle t"
  shows "sync_inv X (ws[i := new]) st"
proof (rule inv_step [OF inv i])
  have g: "fs_good X (yt_fs st)" using inv by (auto simp: sync_inv_def)
  show "grows X (yt_fs st) (yt_fs st)" using g by (rule grows_refl)
  show "shape X (yt_fs st) new" using new by auto
  fix V assume cv: "cover X V (set ws) st" and mv: "moves (set ws) (ws ! i) new (set (ws[i := new]))"
  have "cover X V (set (ws[i := new])) st"
    using nl todo_other [OF _ mv nc, of X st] by (intro cover_step [OF cv mv grows_refl [OF g] order_refl]) auto
  then show "\<exists>V'. cover X V' (set (ws[i := new])) st" by blast
qed (use inv in \<open>auto simp: sync_inv_def\<close>)

lemma entries_step:
  assumes inv: "sync_inv X ws st" and i: "i < length ws" and w: "ws ! i = WBusy (REntries d r es)"
  shows "inv_after X ws st i (REntries d r es)"
proof -
  have su: "sync_setup X" and pl: "sync_place X" and g: "fs_good X (yt_fs st)" and c: "ctx_ok X (yt_ctx st)"
    using inv by (auto simp: sync_inv_def sync_setup_def)
  have "shape X (yt_fs st) (ws ! i)" using inv i by (auto simp: sync_inv_def)
  then obtain cs where cs: "zkind X cs = Some KDir" "d = zname X cs" "r = rel_name cs" "dst_dir X (yt_fs st) cs"
    and es: "\<forall>(n, k) \<in> set es. zkind X (cs @ [n]) = Some k"
    using w by auto
  show ?thesis
  proof (cases es)
    case Nil
    then show ?thesis using idle_step [OF inv i, of "WIdle 0"] w by (auto simp: inv_after_def after_def listed_def)
  next
    case (Cons e es')
    obtain n k where e: "e = (n, k)" by fastforce
    then have k: "zkind X (cs @ [n]) = Some k" using es Cons by auto
    have w': "ws ! i = WBusy (REntries (zname X cs) (rel_name cs) ((n, k) # es'))" using w cs Cons e by simp
    have path: "entry_path d n = zname X (cs @ [n])"
      using entry_path_render [of "zp X @ cs" n] zkind_plain [OF pl cs(1)] pl cs(2) by (simp add: zname_def sync_place_def)
    show ?thesis
    proof (cases "k = KDir")
      case True
      then show ?thesis
        using entry_dir [OF inv i w' [unfolded True]] k path e Cons cs
        by (auto simp: inv_after_def after_def sync_entry_def Let_def)
    next
      case False
      obtain st' where st': "sync_file (zL X) d r (n, k) st = Some st'"
        "file_step X (cs @ [n]) (yt_fs st) (yt_fs st')" "ctx_ok X (yt_ctx st')" "yt_stop st' = yt_stop st"
        "y_dir_queue (yt_ctx st') = y_dir_queue (yt_ctx st)"
        using sync_file_ok [OF su g c k False cs(4)] cs(2,3) by blast
      have "RecursiveLocalSyncWorker_step (zL X) (REntries d r es) st = Some (st', Some (REntries d r es'))"
        using st'(1) entry_no_throw [OF su g k] False e Cons path by (simp add: sync_entry_def Let_def)
      then show ?thesis
        using entry_file [OF inv i w' k False st'(2-)] cs(2,3) by (auto simp: inv_after_def after_def)
    qed
  qed
qed

lemma pop_step:
  assumes inv: "sync_inv X ws st" and i: "i < length ws" and w: "ws ! i = WIdle t"
    and q: "y_dir_queue (yt_ctx st) = q @ [d]"
  shows "sync_inv X (ws[i := WBusy (RCheck d)]) (st\<lparr>yt_ctx := (yt_ctx st)\<lparr>y_dir_queue := q\<rparr>\<rparr>)"
    (is "sync_inv X (ws[i := ?new]) ?st")
proof (rule inv_step [OF inv i])
  have g: "fs_good X (yt_fs st)" using inv by (auto simp: sync_inv_def)
  then show gr: "grows X (yt_fs st) (yt_fs ?st)" by (simp add: grows_refl)
  show "shape X (yt_fs ?st) ?new" using inv q by (auto simp: sync_inv_def)
  fix V assume cv: "cover X V (set ws) st" and mv: "moves (set ws) (ws ! i) ?new (set (ws[i := ?new]))"
  have "todo X (set (ws[i := ?new])) ?st cs" if "todo X (set ws) st cs" for cs
    using that q w mv unfolding todo_def moves_def by auto
  then have "cover X V (set (ws[i := ?new])) ?st"
    using w by (intro cover_step [OF cv mv gr order_refl]) (auto simp: listed_def)
  then show "\<exists>V'. cover X V' (set (ws[i := ?new])) ?st" by blast
qed (use inv q in \<open>auto simp: sync_inv_def ctx_ok_def\<close>)

interpretation sync_pool: pool_invariant "RecursiveLocalSyncWorker (zL X)" sync_env_step "\<lambda>e. False" "sync_inv X"
proof unfold_locales
  show "jqueue (RecursiveLocalSyncWorker (zL X)) (jset_queue (RecursiveLocalSyncWorker (zL X)) q s) = q" for q s
    by (simp add: RecursiveLocalSyncWorker_def)
  show "sync_inv X (ws[i := v]) s"
    if "sync_inv X ws s" "i < length ws" "ws ! i = WIdle t" "v = WStopped \<or> v = WIdle t'" for ws s i t v t'
    using idle_step [OF that(1,2) _ _ that(4)] that(3) by (auto simp: listed_def)
  show "sync_inv X (ws[i := WBusy (jstart (RecursiveLocalSyncWorker (zL X)) d)]) (jset_queue (RecursiveLocalSyncWorker (zL X)) q s)"
    if "sync_inv X ws s" "i < length ws" "ws ! i = WIdle t" "jqueue (RecursiveLocalSyncWorker (zL X)) s = q @ [d]" for ws s i t q d
    using pop_step [OF that(1-3)] that(4) by (simp add: RecursiveLocalSyncWorker_def)
  show "\<exists>s' r. jwork (RecursiveLocalSyncWorker (zL X)) w s = Some (s', r)
      \<and> sync_inv X (ws[i := (case r of None \<Rightarrow> WIdle 0 | Some w' \<Rightarrow> WBusy w')]) s'"
    if "sync_inv X ws s" "i < length ws" "ws ! i = WBusy w" for ws s i w
    using check_step [OF that(1,2)] entries_step [OF that(1,2)] that(3)
    by (cases w) (auto simp: RecursiveLocalSyncWorker_def inv_after_def after_def)
  show "sync_inv X (ws[i := WIdle 0]) s" if "sync_inv X ws s" "i < length ws" "ws ! i = WStopped" for ws s i
    using idle_step [OF that(1,2), of "WIdle 0"] that(3) by (auto simp: listed_def)
  show "\<not> jstop (RecursiveLocalSyncWorker (zL X)) s" if "sync_inv X ws s" for ws s
    using that by (simp add: sync_inv_def RecursiveLocalSyncWorker_def)
qed simp

section \<open>The finished synchronisation\<close>

text \<open>No directory on the way, and not the directory itself, is ignored.\<close>

definition in_scope :: "('c, 'z) sync_case \<Rightarrow> string list \<Rightarrow> bool" where
  "in_scope X cs \<longleftrightarrow> (\<forall>ds. prefix ds cs \<and> zkind X ds = Some KDir \<longrightarrow> \<not> zign X ds)"

definition mirrored :: "('c, 'z) sync_case \<Rightarrow> fs \<Rightarrow> bool" where
  "mirrored X s \<longleftrightarrow>
     (\<forall>cs n. znode X cs = Some n \<and> in_scope X cs \<longrightarrow>
        (if nkind n = KDir then dst_dir X s cs else file_done X s cs))"

lemma cover_end:
  assumes pl: "sync_place X" and c: "cover X V W st" and q: "y_dir_queue (yt_ctx st) = []" and W: "W \<subseteq> {WStopped}"
  shows "mirrored X (yt_fs st)"
proof -
  have nt: "\<not> todo X W st cs" and nl: "\<not> listed X W cs e" for cs e
    using q W by (auto simp: todo_def listed_def)
  have dirs: "cs \<in> V" if "zkind X cs = Some KDir" "in_scope X cs" for cs
    using that
  proof (induction cs rule: rev_induct)
    case Nil
    then show ?case using c nt by (auto simp: cover_def in_scope_def)
  next
    case (snoc n cs)
    have "cs \<in> V" using snoc src_parent_dir [OF pl] by (auto simp: in_scope_def)
    then have "entrusted X V W st cs (n, KDir)" using c snoc.prems(1) by (auto simp: cover_def)
    then show ?case using nt nl snoc.prems by (auto simp: entrusted_def in_scope_def)
  qed
  show ?thesis
    unfolding mirrored_def
  proof (intro allI impI)
    fix cs n assume cs: "znode X cs = Some n \<and> in_scope X cs"
    show "if nkind n = KDir then dst_dir X (yt_fs st) cs else file_done X (yt_fs st) cs"
    proof (cases "nkind n = KDir")
      case True
      then have "cs \<in> V" using dirs [of cs] cs by (simp add: zkind_def)
      then show ?thesis using c True by (auto simp: cover_def)
    next
      case False
      have "zkind X [] = Some KDir" using pl by (simp add: sync_place_def zkind_def znode_def is_dir_def kind_at_def)
      then obtain ds a where ds: "cs = ds @ [a]" using cs False by (cases cs rule: rev_cases) (auto simp: zkind_def)
      then have k: "zkind X (ds @ [a]) = Some (nkind n)" using cs by (simp add: zkind_def)
      then have "ds \<in> V" using dirs [of ds] src_parent_dir [OF pl k] cs ds by (auto simp: in_scope_def)
      then have "entrusted X V W st ds (a, nkind n)" using c k by (auto simp: cover_def)
      then show ?thesis using nl False ds by (auto simp: entrusted_def)
    qed
  qed
qed

lemma validate_render:
  assumes su: "sync_place X" and np: "\<not> prefix (render (zq X)) (render (zp X))"
  shows "ValidateLocalSyncParameters (zL X) (zs X) (zc X) = (Inr Err_Success, zc X)"
proof -
  have u: "UnifyDir (sl_boost (zL X)) (render p) = render p" if "list_all plain_name p" "p \<noteq> []" for p
    using boost_string.unify_unified [of "sl_boost (zL X)"] plain_render_end(3) [OF that] su by (auto simp: sync_place_def)
  have st: "fs_status (zs X) (render p) = Inr (Some KDir)" "Exists (zs X) (render p)" "IsAbsolute (render p)"
    if "is_dir (fs_nodes (zs X)) p" "list_all plain_name p" for p
    using dir_status [OF _ plain_at_render [OF that(2)] that(1)] plain_at_render [OF that(2)] su
    by (auto simp: sync_place_def Exists_iff IsAbsolute_def plain_at_def)
  have "\<not> StartWith (sl_boost (zL X)) (render (zp X)) (render (zq X))"
    using np su by (simp add: StartWith_def boost_string.starts_with sync_place_def)
  then show ?thesis
    using su st [of "zp X"] st [of "zq X"] u [of "zp X"] u [of "zq X"]
    by (simp add: ValidateLocalSyncParameters_def sync_place_def unify_paths_def Let_def both_dirs_def fs_is_directory_def)
qed

text \<open>The state when the workers start.\<close>

definition sync_begin :: "('c, 'z) sync_case \<Rightarrow> sync_st" where
  "sync_begin X =
     \<lparr>yt_ctx = (Sync_Reset (zc X))\<lparr>y_dir_queue := [render (zp X)]\<rparr>, yt_fs = zs X, yt_stop = False\<rparr>"

lemma SyncLocalRecursive_run:
  assumes "sync_place X" and "\<not> prefix (render (zq X)) (render (zp X))" and "\<not> sync_stop m"
  shows "SyncLocalRecursive (zL X) es m (zc X) (zs X) =
    map_option (sync_finished (\<lambda>c. Err_Success) (m\<lparr>syncing := syncing m + 1\<rparr>))
      (run_pool (RecursiveLocalSyncWorker (zL X)) sync_env_step (nat (y_max_threads (zc X))) es (sync_begin X))"
proof -
  have "recursive_code = (\<lambda>c. Err_Success)" by (simp add: fun_eq_iff recursive_code_def Err_Success_def)
  then show ?thesis
    using validate_render [OF assms(1,2)] assms(3)
    by (simp add: SyncLocalRecursive_def sync_begin_def Let_def Sync_Reset_def BQ_Clear_def BQ_PushBack_def
        sync_place_def assms(1) [unfolded sync_place_def])
qed

lemma sync_inv_begin:
  assumes "sync_setup X"
  shows "sync_inv X (replicate n (WIdle 0)) (sync_begin X)"
proof -
  have pl: "sync_place X" using assms by (simp add: sync_setup_def)
  have "zkind X [] = Some KDir" using pl by (simp add: sync_place_def zkind_def znode_def is_dir_def kind_at_def)
  then have "\<exists>cs. zkind X cs = Some KDir \<and> render (zp X) = zname X cs" by (auto simp: zname_def)
  moreover have "cover X {} W (sync_begin X)" for W
    by (simp add: cover_def todo_def zname_def sync_begin_def)
  then have "\<exists>V. cover X V (set (replicate n (WIdle 0))) (sync_begin X)" by blast
  moreover have "ctx_ok X (yt_ctx (sync_begin X))"
    using pl by (simp add: ctx_ok_def sync_begin_def Sync_Reset_def sync_place_def)
  ultimately show ?thesis
    using assms fs_good_start [OF pl] by (simp add: sync_inv_def sync_begin_def)
qed


section \<open>Every synchronisation ends\<close>

fun sync_weight :: "fs \<Rightarrow> sync_phase \<Rightarrow> nat" where
  "sync_weight s (RCheck d) = dir_weight s d - 2"
| "sync_weight s (REntries d r es) = length es * (child_weight s d + 1) + 2"

lemma sync_file_queue:
  "sync_file L d r e st = Some st' \<Longrightarrow> y_dir_queue (yt_ctx st') = y_dir_queue (yt_ctx st)"
  by (auto simp: sync_file_def Let_def sync_skipped_def sync_done_def sync_failed_def sync_error_def
      split: prod.splits option.splits if_splits)

lemma sync_check_result:
  "sync_check L d st = Some (st', r) \<Longrightarrow>
   y_dir_queue (yt_ctx st') = y_dir_queue (yt_ctx st) \<and> (r = None \<or> (\<exists>k es. r = Some (REntries d k es)))"
  by (auto simp: sync_check_def Let_def split: option.splits if_splits prod.splits sum.splits)

lemma sync_lowers:
  assumes inv: "sync_inv X ws st" and i: "i < length ws" and w: "ws ! i = WBusy w"
    and step: "RecursiveLocalSyncWorker_step (zL X) w st = Some (st', r)"
  shows "sum_list (map (dir_weight (zs X)) (y_dir_queue (yt_ctx st')))
      + (case r of None \<Rightarrow> 0 | Some w' \<Rightarrow> Suc (sync_weight (zs X) w'))
    < sum_list (map (dir_weight (zs X)) (y_dir_queue (yt_ctx st))) + Suc (sync_weight (zs X) w)"
proof (cases w)
  case (RCheck d)
  have q: "y_dir_queue (yt_ctx st') = y_dir_queue (yt_ctx st)" "r = None \<or> (\<exists>k es. r = Some (REntries d k es))"
    using sync_check_result [of "zL X" d st st' r] step RCheck by auto
  have "length es \<le> length (fs_nodes (zs X))" if r: "r = Some (REntries d k es)" for k es
  proof -
    have "sync_inv X (ws[i := after r]) st'"
      using check_step [OF inv i] w RCheck step by (auto simp: inv_after_def)
    then have "shape X (yt_fs st') (after r)" using i by (auto simp: sync_inv_def set_update_memI)
    then show ?thesis using r by (auto simp: after_def)
  qed
  then show ?thesis using q RCheck entries_weight [of _ "zs X" d] dir_weight_ge [of "zs X" d] by fastforce
next
  case (REntries d k es)
  have pl: "sync_place X" using inv by (auto simp: sync_inv_def sync_setup_def)
  have "shape X (yt_fs st) (ws ! i)" using inv i by (auto simp: sync_inv_def)
  then obtain cs where cs: "zkind X cs = Some KDir" "d = zname X cs" "\<forall>(n, k) \<in> set es. zkind X (cs @ [n]) = Some k"
    using w REntries by auto
  show ?thesis
  proof (cases es)
    case Nil
    then show ?thesis using step REntries by auto
  next
    case (Cons e es')
    obtain n k' where e: "e = (n, k')" by fastforce
    have path: "entry_path d n = zname X (cs @ [n])"
      using entry_path_render [of "zp X @ cs" n] zkind_plain [OF pl cs(1)] pl cs(2) by (simp add: zname_def sync_place_def)
    have r: "r = None \<or> r = Some (REntries d k es')"
      using step REntries Cons by auto
    have q: "y_dir_queue (yt_ctx st') = (if k' = KDir then y_dir_queue (yt_ctx st) @ [zname X (cs @ [n])] else y_dir_queue (yt_ctx st))"
      using step REntries Cons e path
      by (auto simp: sync_entry_def Let_def BQ_PushBack_def dest: sync_file_queue split: if_splits)
    have k': "zkind X (cs @ [n]) = Some k'" using cs(3) Cons e by auto
    have "dir_weight (zs X) (zname X (cs @ [n])) = child_weight (zs X) d"
      using child_weight_render [of "zp X @ cs" n "zs X" k'] zkind_plain [OF pl k'] pl k' cs(2)
      by (simp add: zname_def zkind_at sync_place_def)
    then show ?thesis using q r REntries Cons by auto
  qed
qed

interpretation sync_term: pool_terminates "RecursiveLocalSyncWorker (zL X)" sync_env_step "\<lambda>e. False" "sync_inv X"
  "dir_weight (zs X)" "sync_weight (zs X)"
proof
  show "Suc (sync_weight (zs X) (jstart (RecursiveLocalSyncWorker (zL X)) d)) < dir_weight (zs X) d" for d
    using dir_weight_ge [of "zs X" d] by (simp add: RecursiveLocalSyncWorker_def)
  show "sum_list (map (dir_weight (zs X)) (jqueue (RecursiveLocalSyncWorker (zL X)) s')) +
      (case r of None \<Rightarrow> 0 | Some w' \<Rightarrow> Suc (sync_weight (zs X) w'))
      < sum_list (map (dir_weight (zs X)) (jqueue (RecursiveLocalSyncWorker (zL X)) s)) + Suc (sync_weight (zs X) w)"
    if "sync_inv X ws s" "i < length ws" "ws ! i = WBusy w" "jwork (RecursiveLocalSyncWorker (zL X)) w s = Some (s', r)"
    for ws s i s' r w
    using sync_lowers [OF that(1-3)] that(4) by (simp add: RecursiveLocalSyncWorker_def)
qed


section \<open>An example\<close>

definition node_checks :: "('c, 'z) sync_case \<Rightarrow> bool" where
  "node_checks X \<longleftrightarrow>
     list_all (\<lambda>(x, n). prefix (zp X) x \<longrightarrow>
        (let cs = drop (length (zp X)) x
         in node_ok X cs n \<and> (case zdst X (zs X) cs of None \<Rightarrow> True | Some m \<Rightarrow> same_class (nkind n) (nkind m))))
       (fs_nodes (zs X))"

lemma sync_setupI:
  assumes "sync_place X" and "node_checks X"
  shows "sync_setup X"
proof -
  have *: "node_ok X cs n \<and> (case zdst X (zs X) cs of None \<Rightarrow> True | Some m \<Rightarrow> same_class (nkind n) (nkind m))"
    if "znode X cs = Some n" for cs n
  proof -
    have "(zp X @ cs, n) \<in> set (fs_nodes (zs X))" using that by (simp add: znode_def node_at_def map_of_SomeD)
    then show ?thesis using assms(2) by (fastforce simp: node_checks_def list_all_iff Let_def)
  qed
  then show ?thesis using assms(1) by (fastforce simp: sync_setup_def)
qed

text \<open>\<^verbatim>\<open>/a\<close> of the scan example is copied to \<^verbatim>\<open>/b\<close>, which has an older version of a file.\<close>

definition demo_sync_ctx :: SyncContext where
  "demo_sync_ctx =
     \<lparr>y_remote_addr = '''', y_remote_port = '''', y_max_threads = 2, y_partition_size = 0, y_repo_type = RT_Unused,
      y_hash_method = Hash_NONE, y_sync_method = Sync_SYNC, y_disable_scan_cache = True, y_skip_scan = False,
      y_ignored_dirs = [], y_user = '''', y_token = '''', y_repo_uuid = '''', y_src = ''/a'', y_dst = ''/b'',
      y_stop_progress_task = False, y_total_dir_cnt = 0, y_total_file_cnt = 0, y_syncd_dir_success_cnt = 0,
      y_syncd_dir_fail_cnt = 0, y_syncd_dir_skipped_cnt = 0, y_syncd_file_success_cnt = 0,
      y_syncd_file_fail_cnt = 0, y_syncd_file_skipped_cnt = 0, y_sync_failed_files = [], y_err_code = 0,
      y_dir_queue = [], y_scan_ctx = None\<rparr>"

definition demo_sync :: "(evp_md \<times> bytes, bytes) sync_case" where
  "demo_sync =
     \<lparr>zL = demo_scan_libs,
      zs = demo_tree\<lparr>fs_nodes := fs_nodes demo_tree
             @ [([''b''], demo_node KDir), ([''b'', ''f''], demo_node (KReg ''older''))]\<rparr>,
      zp = [''a''], zq = [''b''], zc = demo_sync_ctx\<rparr>"

definition demo_sync_manager :: SyncManager where
  "demo_sync_manager = \<lparr>syncing = 0, sync_stop = False, sync_scan = demo_manager\<rparr>"

definition demo_sync_schedule :: "sync_event sched list" where
  "demo_sync_schedule =
     [Run 0, Run 1, Run 1, Run 1, Run 0, Run 0, Run 0, Restart 1, Run 1, Run 1, Run 0, Run 1, Run 0,
      Run 0, Run 0, Run 0, Run 1, Run 1, Run 1]"

lemma demo_sync_setup: "sync_setup demo_sync"
proof (rule sync_setupI)
  show "sync_place demo_sync"
    unfolding sync_place_def
  proof (intro conjI)
    show "boost_string (sl_boost (zL demo_sync))"
      using ref.boost_string_axioms by (simp add: demo_sync_def demo_scan_libs_def)
  qed code_simp+
  show "node_checks demo_sync" by code_simp
qed

lemma demo_sync_runs:
  "map_option (\<lambda>(r, m, ctx, s). (r, map_option nkind (zdst demo_sync s [''f''])))
     (SyncLocalRecursive (zL demo_sync) demo_sync_schedule demo_sync_manager (zc demo_sync) (zs demo_sync))
   = Some (Inr Err_Success, Some (KReg ''xy''))"
  by code_simp



section \<open>Findings\<close>

text \<open>
  The result of \<^verbatim>\<open>SyncLocalRecursive\<close> says nothing: whatever error the workers recorded, the call
  returns success.
\<close>

lemma SyncLocalRecursive_hides_errors:
  assumes "SyncLocalRecursive L es m ctx s = Some (Inr ret, m', ctx', s')"
    and "fst (ValidateLocalSyncParameters L s ctx) = Inr Err_Success"
  shows "ret = Err_Success"
  using assms
  by (auto simp: SyncLocalRecursive_def Let_def sync_finished_def recursive_code_def Err_Success_def
      split: prod.splits sum.splits if_splits)

text \<open>
  A destination inside the source is accepted, because the test compares the two paths the wrong
  way round.  The worker then copies what it has just made: here \<^verbatim>\<open>/a\<close> into \<^verbatim>\<open>/a/d\<close>, which
  becomes four levels deep in sixteen steps, with more in the queue.
\<close>

definition nested_sync :: "(evp_md \<times> bytes, bytes) sync_case" where
  "nested_sync =
     \<lparr>zL = demo_scan_libs,
      zs = demo_tree\<lparr>fs_nodes := [([], demo_node KDir), ([''a''], demo_node KDir), ([''a'', ''d''], demo_node KDir)]\<rparr>,
      zp = [''a''], zq = [''a'', ''d''], zc = demo_sync_ctx\<lparr>y_dst := ''/a/d''\<rparr>\<rparr>"

lemma nested_destination_grows:
  "fst (ValidateLocalSyncParameters (zL nested_sync) (zs nested_sync) (zc nested_sync)) = Inr Err_Success"
  "map_option (\<lambda>(ws, st). is_dir (fs_nodes (yt_fs st)) [''a'', ''d'', ''d'', ''d'', ''d''] \<and> y_dir_queue (yt_ctx st) \<noteq> [])
     (run_events (RecursiveLocalSyncWorker (zL nested_sync)) sync_env_step (replicate 16 (Run 0))
        ([WIdle 0], sync_begin nested_sync)) = Some True"
  by code_simp+

end
