(* ===== verification/TaskRely.thy ===== *)
theory TaskRely
  imports Sync
begin

text \<open>
  A rule for the tasks of \<^verbatim>\<open>SyncLocal\<close> and \<^verbatim>\<open>SyncRemote\<close>: what one thread does is shown once, against the
  interference of the others.
\<close>

section \<open>The thread of a directory\<close>

text \<open>Every directory has a thread, unless its hash is the smallest 64 bit number.\<close>

lemma assigned_thread:
  assumes "0 < n" and "- (2 ^ 63) < murmur k" and "murmur k < 2 ^ 63"
  shows "\<exists>i < nat n. assigned murmur n k = int i"
proof -
  have "to_i64 \<bar>murmur k\<bar> = \<bar>murmur k\<bar>" using assms(2,3) by (intro to_i64_small) auto
  then have "assigned murmur n k = \<bar>murmur k\<bar> mod n" using assms(1) by (simp add: assigned_def conv_simps)
  moreover have "0 \<le> \<bar>murmur k\<bar> mod n" "\<bar>murmur k\<bar> mod n < n" using assms(1) by simp_all
  ultimately show ?thesis by (intro exI [of _ "nat (\<bar>murmur k\<bar> mod n)"]) (simp add: nat_less_iff)
qed

section \<open>Rely and guarantee for tasks\<close>

text \<open>
  \<open>P i t s\<close>: what thread \<open>i\<close> knows when it stands at \<open>t\<close>.  A step of thread \<open>i\<close> keeps \<open>I\<close>, establishes
  what it knows next and stays within \<open>rel (Some i)\<close>, under which what the others know is stable; a
  step of the environment stays within \<open>rel None\<close>.
\<close>

definition all_know :: "('s \<Rightarrow> bool) \<Rightarrow> (nat \<Rightarrow> 't task \<Rightarrow> 's \<Rightarrow> bool) \<Rightarrow> 't task list \<times> 's \<Rightarrow> bool" where
  "all_know I P st \<longleftrightarrow> I (snd st) \<and> (\<forall>i < length (fst st). P i (fst st ! i) (snd st))"

locale rely_guarantee =
  fixes step :: "nat \<Rightarrow> 't \<Rightarrow> 's \<Rightarrow> 't task \<times> 's" and env :: "'e \<Rightarrow> 's \<Rightarrow> 's" and quiet :: "'e \<Rightarrow> bool"
    and I :: "'s \<Rightarrow> bool" and P :: "nat \<Rightarrow> 't task \<Rightarrow> 's \<Rightarrow> bool" and rel :: "nat option \<Rightarrow> 's \<Rightarrow> 's \<Rightarrow> bool"
  assumes guarantee: "I s \<Longrightarrow> P i (TRunning t) s \<Longrightarrow> step i t s = (u, s') \<Longrightarrow> I s' \<and> P i u s' \<and> rel (Some i) s s'"
    and stable: "P i u s \<Longrightarrow> a \<noteq> Some i \<Longrightarrow> rel a s s' \<Longrightarrow> P i u s'"
    and silence: "I s \<Longrightarrow> quiet e \<Longrightarrow> I (env e s) \<and> rel None s (env e s)"
begin

lemma event_knows:
  assumes "all_know I P st" and "event_ok quiet ev" and "task_event step env ev st = Some st'"
  shows "all_know I P st' \<and> length (fst st') = length (fst st)"
proof -
  obtain ts s where st: "st = (ts, s)" by fastforce
  show ?thesis
  proof (cases ev)
    case (Run i)
    then obtain t t' s' where i: "i < length ts" "ts ! i = TRunning t" "step i t s = (t', s')" "st' = (ts[i := t'], s')"
      using assms(3) st by (auto split: if_splits task.splits prod.splits)
    have g: "I s' \<and> P i t' s' \<and> rel (Some i) s s'" using guarantee [of s i t t' s'] assms(1) i st by (auto simp: all_know_def)
    have "P j (ts[i := t'] ! j) s'" if "j < length ts" for j
      using that assms(1) i g stable [of j "ts ! j" s "Some i" s'] st by (cases "j = i") (auto simp: all_know_def)
    then show ?thesis using i g st by (simp add: all_know_def)
  next
    case (Restart i)
    then show ?thesis using assms(3) st by simp
  next
    case (Env e)
    then show ?thesis
      using assms silence [of s e] stable [of _ _ s None "env e s"] st by (auto simp: all_know_def event_ok_def)
  qed
qed

lemma events_know:
  "all_know I P st \<Longrightarrow> list_all (event_ok quiet) es \<Longrightarrow> task_events step env es st = Some st' \<Longrightarrow>
   all_know I P st' \<and> length (fst st') = length (fst st)"
proof (induction es arbitrary: st)
  case (Cons e es)
  then obtain st1 where "task_event step env e st = Some st1" "task_events step env es st1 = Some st'"
    by (auto split: option.splits)
  then show ?case using Cons.IH [of st1] Cons.prems event_knows [of st e st1] by auto
qed simp

end

end
