(* ===== verification/SyncTasks.thy ===== *)
theory SyncTasks
  imports SyncMirror TaskRely
begin

text \<open>
  \<^verbatim>\<open>SyncLocal\<close>: the threads divide the directories of the scan among themselves by a hash of their
  names.  What one thread does is shown once, against the interference of the others
  (rely and guarantee), and gives that every recorded file is copied.
\<close>

section \<open>Names in the status\<close>

context boost_string
begin

lemma replace_all_skip:
  "no_dslash a \<Longrightarrow> (a \<noteq> [] \<Longrightarrow> last a \<noteq> slash) \<Longrightarrow>
   boost_replace_all B (a @ s) ''//'' t = a @ boost_replace_all B s ''//'' t"
proof (induction a)
  case (Cons c a)
  have "\<not> prefix ''//'' (c # a @ s)" using Cons.prems by (cases a) auto
  moreover have "no_dslash a" using Cons.prems(1) by (cases a) auto
  ultimately show ?case using Cons by (cases "a = []") (simp_all add: replace_all_miss)
qed simp

lemma unify_double_slash:
  assumes "no_dslash a" and "a \<noteq> []" and "last a \<noteq> slash" and "slash \<notin> set b" and "b \<noteq> []"
  shows "UnifyDir B (a @ ''//'' @ b) = a @ ''/'' @ b"
proof -
  have "last b \<noteq> slash" using assms(4,5) by (metis last_in_set)
  moreover have "boost_replace_all B b ''//'' ''/'' = b"
    using assms(4) no_dslash_noslash no_dslash_sublist by (intro replace_all_none) auto
  moreover have "boost_replace_all B (''//'' @ b) ''//'' ''/'' = ''/'' @ boost_replace_all B b ''//'' ''/''"
    by (rule replace_all_hit) simp
  moreover have "boost_replace_all B (a @ ''//'' @ b) ''//'' ''/'' = a @ boost_replace_all B (''//'' @ b) ''//'' ''/''"
    using assms(1,3) by (intro replace_all_skip)
  ultimately show ?thesis using assms(5) by (simp add: UnifyDir_def ReplaceAll_def)
qed

end

text \<open>The name the workers spell for a file of the status; in the top directory it has two slashes.\<close>

lemma status_paths:
  assumes pl: "sync_place X" and cs: "list_all plain_name (cs @ [n])"
  shows "file_paths X (cs @ [n]) (render (zp X) @ ''/'' @ rel_name cs @ ''/'' @ n) (render (zq X) @ ''/'' @ rel_name cs @ ''/'' @ n)"
proof -
  let ?a = "render (zp X) @ ''/'' @ rel_name cs @ ''/'' @ n"
  have b: "boost_string (sl_boost (zL X))" and p: "zp X \<noteq> []" "list_all plain_name (zp X)" using pl by (auto simp: sync_place_def)
  have u: "UnifyDir (sl_boost (zL X)) ?a = zname X (cs @ [n])"
  proof (cases "cs = []")
    case True
    have n: "n \<noteq> []" "slash \<notin> set n" using cs by (auto simp: plain_name_def)
    have "no_dslash (render (zp X))" using plain_render_end(3) [OF p(2,1)] by (simp add: unified_def)
    then show ?thesis
      using boost_string.unify_double_slash [OF b _ plain_render_end(1,2) [OF p(2,1)] n(2,1)] True p(1)
      by (simp add: zname_def render_append rel_name_def)
  next
    case False
    then have "?a = zname X (cs @ [n])"
      using p(1) render_append [of "zp X @ cs" "[n]"] by (simp add: zname_def render_append rel_name_def)
    then show ?thesis
      using boost_string.unify_unified [OF b] plain_render_end(3) [of "zp X @ cs @ [n]"] cs p by (simp add: zname_def)
  qed
  have "unified (zname X (cs @ [n]))" using plain_render_end(3) [of "zp X @ cs @ [n]"] cs p by (simp add: zname_def)
  then have "UnifyDir (sl_boost (zL X)) (zname X (cs @ [n])) = zname X (cs @ [n])" using boost_string.unify_unified [OF b] by blast
  then have "Relative (sl_boost (zL X)) ?a (render (zp X)) = Some (True, rel_name (cs @ [n]))"
    using Relative_render [OF b, of "zp X" "cs @ [n]"] cs p u by (simp add: Relative_def zname_def)
  then show ?thesis
    using pl cs item_path_plain [of "zq X" cs n] item_path_plain [of "zp X" cs n]
    by (auto simp: file_paths_def sync_place_def StartWith_def boost_string.starts_with)
qed

section \<open>What a thread knows\<close>

text \<open>
  The status describes the source: its directories, and of each some files with their types,
  times and sizes.  A file of size 0 dated 0 is excluded: the workers take a missing file for it.
\<close>

definition file_described :: "('c, 'z) sync_case \<Rightarrow> string list \<Rightarrow> string \<times> FileG \<Rightarrow> bool" where
  "file_described X cs f \<longleftrightarrow>
     (\<exists>nd. znode X (cs @ [fst f]) = Some nd \<and> nkind nd \<noteq> KDir \<and> f_update_time (snd f) = mtime_ms nd
        \<and> f_file_size (snd f) = int (kind_size (nkind nd))
        \<and> (f_file_type (snd f) = FT_Symlink \<longleftrightarrow> (\<exists>t. nkind nd = KLink t))
        \<and> (mtime_ms nd = 0 \<longrightarrow> kind_size (nkind nd) \<noteq> 0))"

definition dir_described :: "('c, 'z) sync_case \<Rightarrow> string \<times> Dir \<Rightarrow> bool" where
  "dir_described X d \<longleftrightarrow>
     (\<exists>cs. fst d = rel_name cs \<and> zkind X cs = Some KDir \<and> 0 \<le> d_update_time (snd d)
        \<and> (\<forall>f \<in> set (d_files (snd d)). file_described X cs f))"

definition dir_done :: "('c, 'z) sync_case \<Rightarrow> fs \<Rightarrow> string \<times> Dir \<Rightarrow> bool" where
  "dir_done X s d \<longleftrightarrow>
     (\<exists>cs. fst d = rel_name cs \<and> zkind X cs = Some KDir \<and> dst_dir X s cs
        \<and> (\<forall>f \<in> set (d_files (snd d)). file_done X s (cs @ [fst f])))"

definition mine :: "(string \<Rightarrow> int) \<Rightarrow> ('c, 'z) sync_case \<Rightarrow> nat \<Rightarrow> string \<times> Dir \<Rightarrow> bool" where
  "mine murmur X i d \<longleftrightarrow> assigned murmur (y_max_threads (zc X)) (fst d) = int i"

fun knows :: "(string \<Rightarrow> int) \<Rightarrow> ('c, 'z) sync_case \<Rightarrow> nat \<Rightarrow> local_phase task \<Rightarrow> sync_st \<Rightarrow> bool" where
  "knows murmur X i (TRunning (LDirs ds)) st =
     (\<exists>pre. sync_status (zc X) = pre @ ds \<and> (\<forall>d \<in> set pre. mine murmur X i d \<longrightarrow> dir_done X (yt_fs st) d))"
| "knows murmur X i (TRunning (LFiles a b fs ds)) st =
     (\<exists>pre d cs dn. sync_status (zc X) = pre @ d # ds \<and> (\<forall>d \<in> set pre. mine murmur X i d \<longrightarrow> dir_done X (yt_fs st) d)
        \<and> fst d = rel_name cs \<and> zkind X cs = Some KDir \<and> dst_dir X (yt_fs st) cs
        \<and> a = render (zp X) @ ''/'' @ rel_name cs \<and> b = render (zq X) @ ''/'' @ rel_name cs
        \<and> d_files (snd d) = dn @ fs \<and> (\<forall>f \<in> set (d_files (snd d)). file_described X cs f)
        \<and> (\<forall>f \<in> set dn. file_done X (yt_fs st) (cs @ [fst f])))"
| "knows murmur X i (TRunning (LRemoved ps)) st =
     ((\<forall>d \<in> set (sync_status (zc X)). mine murmur X i d \<longrightarrow> dir_done X (yt_fs st) d) \<and> set ps \<subseteq> set (sync_removed (zc X)))"
| "knows murmur X i TDone st = (\<forall>d \<in> set (sync_status (zc X)). mine murmur X i d \<longrightarrow> dir_done X (yt_fs st) d)"
| "knows murmur X i _ st = False"

definition local_ok :: "('c, 'z) sync_case \<Rightarrow> sync_st \<Rightarrow> bool" where
  "local_ok X st \<longleftrightarrow>
     sync_setup X \<and> fs_good X (yt_fs st) \<and> \<not> yt_stop st
     \<and> list_all (dir_described X) (sync_status (zc X)) \<and> list_all IsAbsolute (sync_removed (zc X))
     \<and> (\<exists>n k. yt_ctx st = (zc X)\<lparr>y_syncd_file_success_cnt := n, y_syncd_file_skipped_cnt := k\<rparr>)"

definition local_grows :: "('c, 'z) sync_case \<Rightarrow> sync_st \<Rightarrow> sync_st \<Rightarrow> bool" where
  "local_grows X st st' \<longleftrightarrow> grows X (yt_fs st) (yt_fs st')"

lemma dir_done_grows: "dir_done X s d \<Longrightarrow> grows X s s' \<Longrightarrow> dir_done X s' d"
  by (auto simp: dir_done_def grows_def)

lemma knows_stable:
  assumes "knows murmur X i t st" and "local_grows X st st'"
  shows "knows murmur X i t st'"
proof -
  have g: "grows X (yt_fs st) (yt_fs st')" using assms(2) by (simp add: local_grows_def)
  have d: "dir_done X (yt_fs st) d \<Longrightarrow> dir_done X (yt_fs st') d" for d using dir_done_grows g by blast
  show ?thesis
  proof (cases "(murmur, X, i, t, st)" rule: knows.cases)
    case (2 murmur X i a b fs ds st)
    then show ?thesis using assms(1) d g by (simp add: grows_def) blast
  next
    case (1 murmur X i ds st)
    then show ?thesis using assms(1) d by simp blast
  qed (use assms(1) d in auto)
qed

section \<open>The steps\<close>

lemma touch_dir_grows:
  assumes pl: "sync_place X" and g: "fs_good X s" and k: "zkind X cs = Some KDir" and t: "touches (zq X @ cs) s s'"
    and d: "dst_dir X s' cs"
  shows "grows X s s'"
proof -
  obtain n where n: "znode X cs = Some n" "nkind n = KDir" using k by (auto simp: zkind_def)
  obtain m where m: "zdst X s' cs = Some m" "nkind m = KDir" using d by (auto simp: dst_dir_def is_dir_def kind_at_def zdst_def)
  note gt = good_touch [OF pl g t n(1) m(1)]
  have "mirror n m" using n m by (simp add: mirror_def)
  then have "file_done X s' ds \<and> dst_dir X s' ds \<or> ds \<noteq> cs" for ds using gt(2) d by auto
  then show ?thesis using gt(1) \<open>mirror n m\<close> touch_keeps [OF t] unfolding grows_def by metis
qed

lemma local_dir_effect:
  assumes su: "sync_setup X" and g: "fs_good X s" and k: "zkind X cs = Some KDir" and t: "0 \<le> u"
  defines "b \<equiv> render (zq X) @ ''/'' @ rel_name cs"
  defines "s1 \<equiv> (if Exists s b then s else snd (Mkdir b s))"
  shows "grows X s (if rel_name cs = [] then s1 else snd (SetUpdateTime b u s1))
    \<and> dst_dir X (if rel_name cs = [] then s1 else snd (SetUpdateTime b u s1)) cs"
proof -
  have pl: "sync_place X" using su by (simp add: sync_setup_def)
  have s1: "s1 = snd (Mkdir b s)" by (simp add: s1_def Mkdir_def)
  then have gr: "grows X s s1" "dst_dir X s1 cs" using Mkdir_grows [OF su g k] by (auto simp: b_def)
  have cs: "list_all plain_name (zq X @ cs)" using zkind_plain [OF pl k] pl by (simp add: sync_place_def)
  show ?thesis
  proof (cases "cs = []")
    case False
    then have b: "b = render (zq X @ cs)" using pl by (simp add: b_def render_append sync_place_def)
    have g1: "fs_good X s1" using gr(1) by (simp add: grows_def)
    have "kind_at (fs_nodes s1) (zq X @ cs) = Some KDir" using gr(2) by (simp add: dst_dir_def is_dir_def)
    then obtain s2 m where s2: "SetUpdateTime b u s1 = (True, s2)" "touches (zq X @ cs) s1 s2"
      "node_at (fs_nodes s2) (zq X @ cs) = Some m" "nkind m = KDir"
      using SetUpdateTime_touches [OF fs_good_wf [OF g1] plain_at_render [OF cs] _ _ t] pl b by (auto simp: sync_place_def)
    then have d2: "dst_dir X s2 cs" by (simp add: dst_dir_def is_dir_def kind_at_def)
    have "grows X s1 s2" using touch_dir_grows [OF pl g1 k s2(2) d2] .
    then have "grows X s s2" using gr(1) by (simp add: grows_def)
    moreover have "rel_name cs \<noteq> []" using False rel_name_empty cs by auto
    ultimately show ?thesis using s2(1) d2 by simp
  qed (use gr in simp)
qed

lemma local_dir_ok:
  assumes ok: "local_ok X st" and kn: "knows murmur X i (TRunning (LDirs (d # ds))) st"
    and step: "local_dir murmur (zL X) i d ds st = (t, st')"
  shows "local_ok X st' \<and> knows murmur X i t st' \<and> local_grows X st st'"
proof -
  have su: "sync_setup X" and pl: "sync_place X" and g: "fs_good X (yt_fs st)" using ok by (auto simp: local_ok_def sync_setup_def)
  obtain pre where pre: "sync_status (zc X) = pre @ d # ds" "\<forall>d \<in> set pre. mine murmur X i d \<longrightarrow> dir_done X (yt_fs st) d"
    using kn by auto
  have "dir_described X d" using ok pre(1) by (auto simp: local_ok_def list_all_iff)
  then obtain cs where cs: "fst d = rel_name cs" "zkind X cs = Some KDir" "0 \<le> d_update_time (snd d)"
    "\<forall>f \<in> set (d_files (snd d)). file_described X cs f" by (auto simp: dir_described_def)
  obtain c: "y_src (yt_ctx st) = render (zp X)" "y_dst (yt_ctx st) = render (zq X)" "y_max_threads (yt_ctx st) = y_max_threads (zc X)"
    using ok pl by (auto simp: local_ok_def sync_place_def)
  show ?thesis
  proof (cases "mine murmur X i d")
    case False
    then have "t = TRunning (LDirs ds)" "st' = st"
      using step ok c by (auto simp: local_dir_def Let_def mine_def local_ok_def)
    moreover have "knows murmur X i (TRunning (LDirs ds)) st" using pre False by (auto intro!: exI [of _ "pre @ [d]"])
    ultimately show ?thesis using ok g by (simp add: local_grows_def grows_refl)
  next
    case True
    let ?b = "render (zq X) @ ''/'' @ rel_name cs"
    let ?s1 = "if Exists (yt_fs st) ?b then yt_fs st else snd (Mkdir ?b (yt_fs st))"
    define s2 where "s2 = (if rel_name cs = [] then ?s1 else snd (SetUpdateTime ?b (d_update_time (snd d)) ?s1))"
    have p: "is_dir (fs_nodes (yt_fs st)) (zp X @ cs)" "list_all plain_name (zp X @ cs)" "zp X \<noteq> []"
      using src_kind [OF pl g] cs(2) zkind_plain [OF pl cs(2)] pl by (auto simp: is_dir_def sync_place_def)
    note ex = below_status [OF fs_good_wf(1) [OF g] p]
    have r: "t = TRunning (LFiles (render (zp X) @ ''/'' @ rel_name cs) ?b (d_files (snd d)) ds)" "st' = st\<lparr>yt_fs := s2\<rparr>"
      using step True ok c cs(1) ex by (auto simp: local_dir_def Let_def mine_def local_ok_def s2_def)
    have gr: "grows X (yt_fs st) s2" "dst_dir X s2 cs" using local_dir_effect [OF su g cs(2,3)] by (simp_all add: s2_def)
    have "\<forall>d \<in> set pre. mine murmur X i d \<longrightarrow> dir_done X s2 d" using pre(2) dir_done_grows gr(1) by blast
    then have "knows murmur X i t st'"
      unfolding r knows.simps by (intro exI [of _ pre] exI [of _ d] exI [of _ cs] exI [of _ "[]"]) (use pre cs gr(2) in simp)
    then show ?thesis using ok gr(1) r(2) by (auto simp: local_ok_def local_grows_def grows_def)
  qed
qed

lemma local_file_ok:
  assumes ok: "local_ok X st" and k: "zkind X cs = Some KDir" and dir: "dst_dir X (yt_fs st) cs"
    and f: "file_described X cs f"
  shows "\<exists>st'. local_file (zL X) (render (zp X) @ ''/'' @ rel_name cs) (render (zq X) @ ''/'' @ rel_name cs) f st = Some st'
    \<and> local_ok X st' \<and> local_grows X st st' \<and> file_done X (yt_fs st') (cs @ [fst f])"
proof -
  let ?s = "yt_fs st" and ?ds = "cs @ [fst f]"
  let ?a = "(render (zp X) @ ''/'' @ rel_name cs) @ ''/'' @ fst f" and ?b = "(render (zq X) @ ''/'' @ rel_name cs) @ ''/'' @ fst f"
  have su: "sync_setup X" and pl: "sync_place X" and g: "fs_good X ?s" using ok by (auto simp: local_ok_def sync_setup_def)
  obtain nd where nd: "znode X ?ds = Some nd" "nkind nd \<noteq> KDir" "f_update_time (snd f) = mtime_ms nd"
      "f_file_size (snd f) = int (kind_size (nkind nd))" "f_file_type (snd f) = FT_Symlink \<longleftrightarrow> (\<exists>t. nkind nd = KLink t)"
      "mtime_ms nd = 0 \<longrightarrow> kind_size (nkind nd) \<noteq> 0"
    using f by (auto simp: file_described_def)
  have nok: "node_ok X ?ds nd" using su nd(1) by (auto simp: sync_setup_def)
  have ab: "file_paths X ?ds ?a ?b" using status_paths [OF pl znode_plain [OF pl nd(1)]] by simp
  have pab: "plain_at ?a (zp X @ ?ds)" "plain_at ?b (zq X @ ?ds)" using ab by (auto simp: file_paths_def)
  note wf = fs_good_wf [OF g]
  have ex: "Exists ?s ?a"
    using Exists_present(1) [OF wf(1) pab(1)] src_node [OF pl g, of ?ds] nd(1) by (simp add: kind_at_def)
  obtain nn kk where ctx: "yt_ctx st = (zc X)\<lparr>y_syncd_file_success_cnt := nn, y_syncd_file_skipped_cnt := kk\<rparr>"
    using ok by (auto simp: local_ok_def)
  have ctx': "y_src (yt_ctx st) = render (zp X)" "y_dst (yt_ctx st) = render (zq X)" using ctx pl by (simp_all add: sync_place_def)
  define dst where "dst = snd (FileInfo (sl_db (zL X)) ?s ?b False no_info)"
  define skip where "skip \<longleftrightarrow> fi_update_time dst = mtime_ms nd \<and> fi_size dst = int (kind_size (nkind nd))"
  have skip: "\<exists>m. zdst X ?s ?ds = Some m \<and> mtime_ms nd = mtime_ms m \<and> kind_size (nkind nd) = kind_size (nkind m)" if skip
  proof (cases "zdst X ?s ?ds")
    case None
    then have "free_name ?s ?b (zq X @ ?ds)"
      using wf(1) pab(2) dir by (simp add: free_name_def zdst_def kind_at_def dst_dir_def butlast_append)
    then have "sys_lstat ?s ?b = Inl ENOENT"
      using free_name_resolve [of ?s ?b "zq X @ ?ds" False] None by (simp add: sys_lstat_def stat_at_def zdst_def)
    then have "dst = no_info" by (simp add: dst_def FileInfo_def)
    then show ?thesis using that nd(6) by (simp add: skip_def no_info_def)
  next
    case (Some m)
    then show ?thesis
      using that FileInfo_plain [OF wf(1) pab(2), of m "sl_db (zL X)" False no_info] by (simp add: skip_def dst_def zdst_def)
  qed
  have nn: "mtime_ms nd \<noteq> - 1" using ms_nonneg [OF nok] by simp
  show ?thesis
  proof (cases skip)
    case True
    have "local_file (zL X) (render (zp X) @ ''/'' @ rel_name cs) (render (zq X) @ ''/'' @ rel_name cs) f st
        = Some (st\<lparr>yt_ctx := sync_skipped (yt_ctx st)\<rparr>)"
      using True ex nd(3,4) nn by (simp add: local_file_def Let_def skip_def dst_def)
    moreover have "file_done X ?s ?ds" using skip [OF True] skipped_done [OF g nd(1)] by blast
    moreover have "local_ok X (st\<lparr>yt_ctx := sync_skipped (yt_ctx st)\<rparr>)"
      using ok ctx by (auto simp: local_ok_def sync_skipped_def)
    ultimately show ?thesis using g by (auto simp: local_grows_def grows_refl)
  next
    case False
    obtain s1 s2 where s: "copy_entry (zL X) (yt_ctx st) (nkind nd) ?a ?b ?s = Some (True, s1)"
      "SetUpdateTime ?b (mtime_ms nd) s1 = (True, s2)" "touches (zq X @ ?ds) ?s s2" "fs_good X s2" "file_done X s2 ?ds"
      using sync_copy_ok [OF su g nd(1,2) _ ab ctx'] dir by auto
    have cp: "(if f_file_type (snd f) = FT_Symlink then SyncSymlink (sl_boost (zL X)) (y_src (yt_ctx st)) (y_dst (yt_ctx st)) ?a ?s
        else Some (CopyFile ?a ?b Copy_overwrite_existing ?s)) = Some (True, s1)"
      using s(1) nd(2,5) nok by (cases "nkind nd") (auto simp: copy_entry_def node_ok_def)
    have "local_file (zL X) (render (zp X) @ ''/'' @ rel_name cs) (render (zq X) @ ''/'' @ rel_name cs) f st
        = Some (st\<lparr>yt_fs := s2, yt_ctx := sync_done (yt_ctx st)\<rparr>)"
      using False cp s(2) ex nd(3,4) nn unfolding local_file_def Let_def skip_def dst_def by auto
    moreover have "file_step X ?ds ?s s2" using s(3-5) touch_keeps [OF s(3)] by (simp add: file_step_def)
    then have "grows X ?s s2" using file_step_grows [of X ?ds ?s s2 "nkind nd"] su g nd(1,2) by (simp add: zkind_def)
    moreover have "sync_done (yt_ctx st) = (zc X)\<lparr>y_syncd_file_success_cnt := nn + 1, y_syncd_file_skipped_cnt := kk\<rparr>"
      by (rule SyncContext.equality) (simp_all add: sync_done_def ctx)
    then have "local_ok X (st\<lparr>yt_fs := s2, yt_ctx := sync_done (yt_ctx st)\<rparr>)"
      using ok s(4) unfolding local_ok_def by simp blast
    ultimately show ?thesis using s(5) by (auto simp: local_grows_def)
  qed
qed

lemma worker_files_ok:
  assumes ok: "local_ok X st" and kn: "knows murmur X i (TRunning (LFiles a b (f # fs) ds)) st"
  shows "\<exists>st'. local_file (zL X) a b f st = Some st' \<and> local_ok X st' \<and> local_grows X st st'
    \<and> knows murmur X i (TRunning (LFiles a b fs ds)) st'"
proof -
  obtain pre d cs dn where kn': "sync_status (zc X) = pre @ d # ds" "\<forall>d \<in> set pre. mine murmur X i d \<longrightarrow> dir_done X (yt_fs st) d"
    "fst d = rel_name cs" "zkind X cs = Some KDir" "dst_dir X (yt_fs st) cs"
    "a = render (zp X) @ ''/'' @ rel_name cs" "b = render (zq X) @ ''/'' @ rel_name cs"
    "d_files (snd d) = dn @ f # fs" "\<forall>f \<in> set (d_files (snd d)). file_described X cs f"
    "\<forall>f \<in> set dn. file_done X (yt_fs st) (cs @ [fst f])"
    using kn by auto
  then have "file_described X cs f" by simp
  then obtain st' where st': "local_file (zL X) a b f st = Some st'" "local_ok X st'" "local_grows X st st'"
    "file_done X (yt_fs st') (cs @ [fst f])"
    using local_file_ok [OF ok kn'(4,5), of f] kn'(6,7) by auto
  have g: "grows X (yt_fs st) (yt_fs st')" using st'(3) by (simp add: local_grows_def)
  have "\<forall>d \<in> set pre. mine murmur X i d \<longrightarrow> dir_done X (yt_fs st') d" using kn'(2) dir_done_grows g by blast
  then have "knows murmur X i (TRunning (LFiles a b fs ds)) st'"
    unfolding knows.simps
    by (intro exI [of _ pre] exI [of _ d] exI [of _ cs] exI [of _ "dn @ [f]"]) (use kn' st'(4) g in \<open>auto simp: grows_def\<close>)
  then show ?thesis using st' by blast
qed

lemma worker_step_ok:
  assumes ok: "local_ok X st" and kn: "knows murmur X i (TRunning t) st" and step: "LocalSyncWorker murmur (zL X) i t st = (u, st')"
  shows "local_ok X st' \<and> knows murmur X i u st' \<and> local_grows X st st'"
proof -
  have g: "fs_good X (yt_fs st)" using ok by (simp add: local_ok_def)
  have same: "local_grows X st st" using g by (simp add: local_grows_def grows_refl)
  have ctx: "sync_removed (yt_ctx st) = sync_removed (zc X)"
    using ok by (auto simp: local_ok_def sync_removed_def)
  show ?thesis
  proof (cases "(murmur, zL X, i, t, st)" rule: LocalSyncWorker.cases)
    case (1 murmur L i st)
    then show ?thesis using kn step ok same ctx by (auto simp: after_dirs_def)
  next
    case (2 murmur L i d ds st)
    then show ?thesis using local_dir_ok [OF ok, of murmur i d ds u st'] kn step by simp
  next
    case (3 murmur L i a b ds st)
    then obtain pre d cs where "sync_status (zc X) = pre @ d # ds" "\<forall>d \<in> set pre. mine murmur X i d \<longrightarrow> dir_done X (yt_fs st) d"
      "fst d = rel_name cs" "zkind X cs = Some KDir" "dst_dir X (yt_fs st) cs"
      "\<forall>f \<in> set (d_files (snd d)). file_done X (yt_fs st) (cs @ [fst f])"
      using kn by auto
    then have "knows murmur X i (TRunning (LDirs ds)) st"
      by (auto simp: dir_done_def intro!: exI [of _ "pre @ [d]"])
    then show ?thesis using 3 step ok same by auto
  next
    case (4 murmur L i a b f fs ds st)
    then have "knows murmur X i (TRunning (LFiles a b (f # fs) ds)) st" "local_ok X st" using kn ok by (auto simp del: knows.simps)
    then show ?thesis using worker_files_ok [of X st murmur i a b f fs ds] 4 step by (auto simp del: knows.simps)
  next
    case (5 murmur L i st)
    then show ?thesis using kn step ok same by auto
  next
    case (6 murmur L i p ps st)
    then have "IsAbsolute p" using kn ok by (auto simp: local_ok_def list_all_iff)
    then have "st' = st" "u = TRunning (LRemoved ps)" using 6 step by (auto simp: local_removed_def Let_def)
    then show ?thesis using 6 kn ok same by auto
  qed
qed

interpretation sync_tasks: rely_guarantee "LocalSyncWorker murmur (zL X)" sync_env_step "\<lambda>e. False" "local_ok X" "knows murmur X" "\<lambda>a. local_grows X"
  by unfold_locales (auto dest: worker_step_ok knows_stable)

section \<open>SyncLocal\<close>

lemma tasks_finish:
  assumes ok: "local_ok X st" and n: "0 < y_max_threads (zc X)"
    and hash: "\<And>d. d \<in> set (sync_status (zc X)) \<Longrightarrow> - (2 ^ 63) < murmur (fst d) \<and> murmur (fst d) < 2 ^ 63"
    and es: "list_all (event_ok (\<lambda>e. False)) es"
    and run: "run_tasks (LocalSyncWorker murmur (zL X)) sync_env_step es
      (replicate (nat (y_max_threads (zc X))) (TRunning (LDirs (sync_status (zc X)))), st) = Some (e, st')"
  shows "e = None \<and> local_ok X st' \<and> (\<forall>d \<in> set (sync_status (zc X)). dir_done X (yt_fs st') d)"
proof -
  let ?ts = "replicate (nat (y_max_threads (zc X))) (TRunning (LDirs (sync_status (zc X))))"
  obtain ts where ts: "task_events (LocalSyncWorker murmur (zL X)) sync_env_step es (?ts, st) = Some (ts, st')"
    "list_all ended ts" "e = thrown ts"
    using run by (auto simp: run_tasks_def split: option.splits if_splits)
  have "all_know (local_ok X) (knows murmur X) (?ts, st)" using ok by (simp add: all_know_def)
  then have kn: "all_know (local_ok X) (knows murmur X) (ts, st')" and len: "length ts = nat (y_max_threads (zc X))"
    using sync_tasks.events_know [OF _ es ts(1)] by simp_all
  have dn: "ts ! i = TDone" if "i < length ts" for i
    using that kn ts(2) by (cases "ts ! i") (auto simp: all_know_def list_all_length ended_def)
  have th: "thrown xs = None" if "\<forall>t \<in> set xs. t = TDone" for xs :: "local_phase task list"
    using that by (induction xs) auto
  have "\<forall>t \<in> set ts. t = TDone" using dn by (auto simp: in_set_conv_nth)
  then have "e = None" using th [of ts] ts(3) by simp
  moreover have "dir_done X (yt_fs st') d" if d: "d \<in> set (sync_status (zc X))" for d
  proof -
    obtain i where "i < length ts" "mine murmur X i d"
      using assigned_thread [OF n, of murmur "fst d"] hash [OF d] len by (auto simp: mine_def)
    then show ?thesis using kn dn d by (fastforce simp: all_know_def)
  qed
  ultimately show ?thesis using kn by (simp add: all_know_def)
qed


section \<open>An example\<close>

definition file_check :: "('c, 'z) sync_case \<Rightarrow> string list \<Rightarrow> string \<times> FileG \<Rightarrow> bool" where
  "file_check X cs f \<longleftrightarrow>
     (case znode X (cs @ [fst f]) of
        None \<Rightarrow> False
      | Some nd \<Rightarrow>
          nkind nd \<noteq> KDir \<and> f_update_time (snd f) = mtime_ms nd \<and> f_file_size (snd f) = int (kind_size (nkind nd))
          \<and> (f_file_type (snd f) = FT_Symlink \<longleftrightarrow> (case nkind nd of KLink t \<Rightarrow> True | _ \<Rightarrow> False))
          \<and> (mtime_ms nd = 0 \<longrightarrow> kind_size (nkind nd) \<noteq> 0))"

definition dir_check :: "('c, 'z) sync_case \<Rightarrow> string \<times> Dir \<Rightarrow> bool" where
  "dir_check X d \<longleftrightarrow>
     (let cs = filter (\<lambda>c. c \<noteq> []) (split_on slash (fst d))
      in fst d = rel_name cs \<and> zkind X cs = Some KDir \<and> 0 \<le> d_update_time (snd d)
         \<and> list_all (file_check X cs) (d_files (snd d)))"

lemma dir_checkD: "dir_check X d \<Longrightarrow> dir_described X d"
proof -
  have "file_check X cs f \<Longrightarrow> file_described X cs f" for cs f
    by (auto simp: file_check_def file_described_def split: option.splits fkind.splits)
  then show "dir_check X d \<Longrightarrow> dir_described X d"
    unfolding dir_check_def dir_described_def Let_def list_all_iff by blast
qed

text \<open>The scan of \<^verbatim>\<open>/a\<close>, and the copy to \<^verbatim>\<open>/b\<close> by two threads.\<close>

definition demo_local_scan :: scan_result where
  "demo_local_scan =
     the (ParallelScan demo_scan_libs demo_scan_env demo_manager (local_scan_ctx demo_ctx (Sync_Reset demo_sync_ctx)) (zs demo_sync))"

definition demo_local_fs :: fs where
  "demo_local_fs =
     (zs demo_sync)\<lparr>fs_nodes := fs_nodes (zs demo_sync)
        @ [([''a'', CONFIG_DIR], (demo_node KDir)\<lparr>nmtime := (9, 0)\<rparr>),
           ([''a'', CONFIG_DIR, ''68''], (demo_node (KReg ''s''))\<lparr>nmtime := (9, 0)\<rparr>)]\<rparr>"

definition demo_local :: "(evp_md \<times> bytes, bytes) sync_case" where
  "demo_local =
     demo_sync\<lparr>zs := demo_local_fs, zc := set_totals (fst (snd (snd demo_local_scan))) (Sync_Reset demo_sync_ctx)\<rparr>"

definition demo_murmur :: "string \<Rightarrow> int" where
  "demo_murmur k = - int (length k)"

definition demo_local_schedule :: "sync_event sched list" where
  "demo_local_schedule = map Run [0, 1, 0, 1, 0, 1, 0, 1, 0, 1, 0, 0]"

lemma node_checks_ctx: "node_checks (X\<lparr>zc := c\<rparr>) = node_checks X"
proof -
  have "node_ok (X\<lparr>zc := c\<rparr>) cs n = node_ok X cs n" for cs n
    by (cases "nkind n") (simp_all add: node_ok_def zname_def)
  then show ?thesis by (simp add: node_checks_def zdst_def Let_def)
qed

lemma demo_local_setup: "sync_setup demo_local"
proof (rule sync_setupI)
  have "y_src (zc demo_local) = ''/a''" "y_dst (zc demo_local) = ''/b''"
    by (simp_all add: demo_local_def set_totals_def Sync_Reset_def demo_sync_ctx_def)
  moreover have "render [''a''] = ''/a''" "render [''b''] = ''/b''" "fs_wf demo_local_fs" "fs_faults demo_local_fs = []"
    "is_dir (fs_nodes demo_local_fs) [''a'']" "is_dir (fs_nodes demo_local_fs) [''b'']" "list_all plain_name [''a'', ''b'']"
    by code_simp+
  moreover have "zs demo_local = demo_local_fs" "zp demo_local = [''a'']" "zq demo_local = [''b'']" "sl_boost (zL demo_local) = boost_ref"
    by (simp_all add: demo_local_def demo_sync_def demo_scan_libs_def)
  ultimately show "sync_place demo_local" using ref.boost_string_axioms by (simp add: sync_place_def)
  have "node_checks (demo_sync\<lparr>zs := demo_local_fs\<rparr>)" by code_simp
  then show "node_checks demo_local" by (simp add: demo_local_def node_checks_ctx)
qed

lemma demo_local_runs:
  "map_option (\<lambda>(r, m, c, s). (r, s)) (ParallelScan demo_scan_libs demo_scan_env demo_manager
     (local_scan_ctx demo_ctx (Sync_Reset demo_sync_ctx)) (zs demo_sync)) = Some (Inr Err_Success, demo_local_fs)"
  "map_option (\<lambda>(r, m, ctx, s). map_option nkind (node_at (fs_nodes s) [''b'', ''f'']))
     (SyncLocal demo_murmur demo_scan_libs demo_scan_env demo_ctx demo_local_schedule demo_sync_manager demo_sync_ctx (zs demo_sync))
   = Some (Some (KReg ''xy''))"
  by code_simp+


section \<open>Findings\<close>

text \<open>
  The files the scan reports as removed are never removed from the destination: the scan records
  absolute paths, and the workers skip every absolute path.
\<close>

lemma removed_files_kept:
  "list_all IsAbsolute ps \<Longrightarrow> LocalSyncWorker murmur L i (LRemoved (p # ps)) st = (u, st') \<Longrightarrow> IsAbsolute p \<Longrightarrow> st' = st"
  by (auto simp: local_removed_def Let_def)

text \<open>A directory whose hash is the smallest 64 bit number is nobody's, with three threads.\<close>

lemma unassigned_directory: "murmur k = - (2 ^ 63) \<Longrightarrow> assigned murmur 3 k \<noteq> int i"
  by (simp add: assigned_def to_i64_def signed_modulo_int_def)

text \<open>When the scan fails, the counter of running synchronisations is not taken back.\<close>

lemma failed_scan_keeps_counter:
  assumes "ValidateLocalSyncParameters L s ctx = (Inr Err_Success, ctx1)"
    and "ParallelScan L E (sync_scan m) (local_scan_ctx fresh (Sync_Reset ctx1)) s = Some (Inr ret, sm, sc, s1)"
    and "ret \<noteq> Err_Success"
  shows "\<exists>c. SyncLocal murmur L E fresh es m ctx s = Some (Inr ret, m\<lparr>syncing := syncing m + 1, sync_scan := sm\<rparr>, c, s1)"
  using assms by (simp add: SyncLocal_def Let_def)

end
