(* ===== verification/FileClient.thy ===== *)
theory FileClient
  imports Sync
begin

text \<open>
  \<^verbatim>\<open>src/src/client/grpc_client/grpc_file_client.h\<close>: the upload client.  A worker puts contexts into a queue, a
  thread (\<^verbatim>\<open>Send\<close>) takes them out, builds requests and writes them to a gRPC stream, and the
  callbacks of the stream count answers, put further contexts into the queue and mark refused
  parts.  Send contexts are shared by pointer between the queue, the thread and the table of
  requests under way, so they live in a heap.  The threads and callbacks are interleaved: a step
  reads or changes the shared members once.  Calls that only log, and sleeping, are left out.
\<close>

section \<open>Data\<close>

record SendContext =
  sx_src :: string
  sx_dst :: string
  sx_file_type :: FileType
  sx_content :: string
  sx_file_hash :: string
  sx_op :: FileOp
  sx_mark :: "int list"

text \<open>\<^verbatim>\<open>std::make_shared<SendContext>()\<close>: all members are zero.\<close>

definition SendContext_new :: SendContext where
  "SendContext_new =
     \<lparr>sx_src = '''', sx_dst = '''', sx_file_type = FT_Unused, sx_content = '''', sx_file_hash = '''',
      sx_op = Op_FileUnused, sx_mark = []\<rparr>"

text \<open>A \<^verbatim>\<open>std::ifstream\<close> on a file whose content does not change while it is open.\<close>

record ifstream =
  if_data :: bytes
  if_pos :: nat
  if_fail :: bool

text \<open>\<^verbatim>\<open>read(buffer, n)\<close>: whether the stream is still good, the \<^verbatim>\<open>gcount()\<close> bytes, the stream.\<close>

definition ifstream_read :: "nat \<Rightarrow> ifstream \<Rightarrow> bool \<times> bytes \<times> ifstream" where
  "ifstream_read n f =
     (if if_fail f then (False, [], f)
      else let got = take n (drop (if_pos f) (if_data f));
               short = (length got < n)
           in (\<not> short, got, f\<lparr>if_pos := if_pos f + length got, if_fail := short\<rparr>))"

definition ifstream_seekg :: "nat \<Rightarrow> ifstream \<Rightarrow> ifstream" where
  "ifstream_seekg pos f = (if if_fail f then f else f\<lparr>if_pos := pos\<rparr>)"

text \<open>
  Where the thread \<^verbatim>\<open>Send\<close> stands.  A number is a context, a second one a part; \<open>PcAsk\<close>, \<open>PcWrite\<close> and
  \<open>PcRewait\<close> wait for \<^verbatim>\<open>OnWriteDone\<close>; \<open>PcFull\<close>, \<open>PcFly\<close> and \<open>PcSize\<close> evaluate the three conjuncts of
  the condition for \<^verbatim>\<open>StartWritesDone\<close>; \<open>PcReturned\<close> is the \<^verbatim>\<open>return\<close> in the middle.
\<close>

datatype send_pc =
  PcNone | PcWait | PcTop | PcPop | PcFull | PcFly | PcSize | PcFill nat | PcAsk
  | PcRead nat nat ifstream | PcWrite nat nat ifstream
  | PcStatus nat ifstream | PcResend nat nat ifstream SendStatus | PcRewait nat nat ifstream SendStatus
  | PcEnd nat SendStatus | PcStopped | PcReturned

datatype print_pc = PrNone | PrStart | PrLoop | PrEnd

text \<open>\<^verbatim>\<open>OnReadDone\<close>: waiting for a message, with a message, before \<^verbatim>\<open>fetch_sub\<close>, no read under way.\<close>

datatype read_pc = RdWait | RdGot FileResX | RdCount | RdEnd

text \<open>
  The client with its stream.  \<open>fc_writing\<close> is the message between \<^verbatim>\<open>StartWrite\<close> and \<^verbatim>\<open>OnWriteDone\<close>,
  \<open>fc_sent\<close> all messages given to \<^verbatim>\<open>StartWrite\<close>, \<open>fc_failed\<close> the number of failed writes, \<open>fc_answers\<close>
  the messages that arrived and \<open>fc_counted\<close> how many of them \<^verbatim>\<open>OnReadDone\<close> has subtracted;
  \<open>fc_taken\<close> lists the contexts that \<^verbatim>\<open>Send\<close> took from the queue with the id drawn for each;
  \<open>fc_locked\<close>: \<^verbatim>\<open>OnDone\<close> holds \<^verbatim>\<open>mu_\<close>.
\<close>

record FileClient =
  fc_sync :: SyncContext
  fc_heap :: "SendContext list"
  fc_done :: bool
  fc_req :: FileReqX
  fc_onfly :: int
  fc_skipped :: int
  fc_write_done :: bool
  fc_status :: "int option"
  fc_queue :: "nat bqueue"
  fc_map :: "(string \<times> nat) list"
  fc_send_stopped :: bool
  fc_print_stopped :: bool
  fc_fill_complete :: bool
  fc_pc :: send_pc
  fc_printer :: print_pc
  fc_reader :: read_pc
  fc_locked :: bool
  fc_writing :: "FileReqX option"
  fc_sent :: "FileReqX list"
  fc_failed :: nat
  fc_answers :: "FileResX list"
  fc_counted :: nat
  fc_writes_done :: bool
  fc_taken :: "(nat \<times> string) list"

text \<open>What a step may run into: undefined behaviour and exceptions nobody catches.\<close>

datatype client_fault =
  DivisionByZero | LengthError | BadIndex | BufferOverflow | OverlappingWrite | MessageInUse

text \<open>
  The libraries below \<^verbatim>\<open>PrepareFile\<close>, and the values of the uninitialised \<^verbatim>\<open>FileAttr\<close> that it fills.
\<close>

record 'b client_libs =
  cl_b3 :: "'b blake3_api"
  cl_fmt :: fmt_hex_fn
  cl_db :: userdb
  cl_attr :: FileAttr

section \<open>Life cycle\<close>

definition FC_Reset :: "FileClient \<Rightarrow> FileClient" where
  "FC_Reset c =
     c\<lparr>fc_req := FileReqX_default, fc_done := False, fc_write_done := False, fc_queue := BQ_Clear (fc_queue c),
       fc_map := [], fc_send_stopped := False, fc_print_stopped := False, fc_fill_complete := False,
       fc_onfly := 0, fc_skipped := 0\<rparr>"

definition FC_new :: "SyncContext \<Rightarrow> client_fault + FileClient" where
  "FC_new sy =
     (if y_partition_size sy < 0 then Inl LengthError
      else Inr \<lparr>fc_sync = sy, fc_heap = [], fc_done = False,
        fc_req = FileReqX_default\<lparr>fq_content := replicate (nat (y_partition_size sy)) (CHR 0x00)\<rparr>,
        fc_onfly = 0, fc_skipped = 0, fc_write_done = False, fc_status = Some 0, fc_queue = [], fc_map = [],
        fc_send_stopped = False, fc_print_stopped = False, fc_fill_complete = False, fc_pc = PcNone,
        fc_printer = PrNone, fc_reader = RdWait, fc_locked = False, fc_writing = None, fc_sent = [],
        fc_failed = 0, fc_answers = [], fc_counted = 0, fc_writes_done = False, fc_taken = []\<rparr>)"

text \<open>
  \<^verbatim>\<open>Start\<close> creates the threads and then resets the members; until a context is put, which is after
  \<^verbatim>\<open>Start\<close>, the threads change nothing but \<^verbatim>\<open>print_task_stopped_\<close>, to the value \<^verbatim>\<open>Reset\<close> gives it.
\<close>

definition FC_Start :: "FileClient \<Rightarrow> FileClient" where
  "FC_Start c = FC_Reset (c\<lparr>fc_pc := PcWait, fc_printer := PrStart\<rparr>)"

text \<open>\<^verbatim>\<open>Stop\<close> up to its waiting loop, which ends when both tasks have stopped.\<close>

definition FC_Stop :: "FileClient \<Rightarrow> FileClient" where
  "FC_Stop c = c\<lparr>fc_done := True\<rparr>"

definition FC_Stopped :: "FileClient \<Rightarrow> bool" where
  "FC_Stopped c \<longleftrightarrow> fc_send_stopped c \<and> fc_print_stopped c"

definition FC_Put :: "SendContext \<Rightarrow> FileClient \<Rightarrow> FileClient" where
  "FC_Put ctx c =
     c\<lparr>fc_heap := fc_heap c @ [ctx], fc_queue := BQ_PushBack (length (fc_heap c)) (fc_queue c)\<rparr>"

definition FC_Size :: "FileClient \<Rightarrow> nat" where
  "FC_Size c = BQ_Size (fc_queue c)"

definition SetFillQueueComplete :: "FileClient \<Rightarrow> FileClient" where
  "SetFillQueueComplete c = c\<lparr>fc_fill_complete := True\<rparr>"

section \<open>Callbacks\<close>

definition OnWriteDone :: "bool \<Rightarrow> FileClient \<Rightarrow> FileClient" where
  "OnWriteDone ok c =
     (let c1 = c\<lparr>fc_writing := None\<rparr>;
          c2 = (if ok then c1\<lparr>fc_onfly := fc_onfly c1 + 1\<rparr> else c1\<lparr>fc_failed := fc_failed c1 + 1\<rparr>)
      in c2\<lparr>fc_write_done := True\<rparr>)"

text \<open>The effect of a message, before \<^verbatim>\<open>onfly_req_num_\<close> is lowered.\<close>

definition on_answer :: "FileResX \<Rightarrow> FileClient \<Rightarrow> client_fault + FileClient" where
  "on_answer res c =
     (if fs_op res = Op_FileExists then
        Inr (if fr_res_type res = FT_Regular then
               (if \<not> fs_can_skip_upload res
                then FC_Put (SendContext_new\<lparr>sx_src := fr_src res, sx_dst := fr_dst res,
                               sx_file_type := fr_res_type res, sx_op := Op_FilePut\<rparr>) c
                else c\<lparr>fc_skipped := fc_skipped c + 1\<rparr>)
             else c)
      else if fs_op res = Op_FilePut \<and> fr_res_type res = FT_Regular then
        (case map_of (fc_map c) (fs_request_id res) of
           None \<Rightarrow> Inr c
         | Some i \<Rightarrow>
             (let ctx = fc_heap c ! i; k = fr_partition_num res; m = sx_mark ctx
              in if k < 0 \<or> int (length m) \<le> k then Inl BadIndex
                 else let v = (if fs_err_code res \<noteq> Err_Success then m ! nat k + 1 else - 1)
                      in Inr (c\<lparr>fc_heap := (fc_heap c)[i := ctx\<lparr>sx_mark := m[nat k := v]\<rparr>]\<rparr>)))
      else Inr c)"

text \<open>\<^verbatim>\<open>OnReadDone\<close> in three steps: the call, the effect of the message, the counter and the next read.\<close>

definition OnReadDone :: "FileResX option \<Rightarrow> FileClient \<Rightarrow> FileClient" where
  "OnReadDone r c =
     (case r of
        None \<Rightarrow> c\<lparr>fc_reader := RdEnd\<rparr>
      | Some res \<Rightarrow> c\<lparr>fc_answers := fc_answers c @ [res], fc_reader := RdGot res\<rparr>)"

definition read_step :: "FileClient \<Rightarrow> client_fault + FileClient" where
  "read_step c =
     (case fc_reader c of
        RdGot res \<Rightarrow>
          if fc_done c then Inr (c\<lparr>fc_reader := RdEnd\<rparr>)
          else (case on_answer res c of Inl e \<Rightarrow> Inl e | Inr c1 \<Rightarrow> Inr (c1\<lparr>fc_reader := RdCount\<rparr>))
      | RdCount \<Rightarrow> Inr (c\<lparr>fc_onfly := fc_onfly c - 1, fc_counted := fc_counted c + 1, fc_reader := RdWait\<rparr>)
      | _ \<Rightarrow> Inr c)"

text \<open>\<^verbatim>\<open>OnDone\<close> keeps the lock while it waits for the two tasks.\<close>

definition OnDone :: "int \<Rightarrow> FileClient \<Rightarrow> FileClient" where
  "OnDone s c = c\<lparr>fc_locked := True, fc_status := Some s, fc_done := True\<rparr>"

definition OnDone_end :: "FileClient \<Rightarrow> FileClient option" where
  "OnDone_end c = (if FC_Stopped c then Some (c\<lparr>fc_locked := False\<rparr>) else None)"

text \<open>\<open>None\<close>: \<^verbatim>\<open>Await\<close> waits.\<close>

definition FC_Await :: "FileClient \<Rightarrow> (int option \<times> FileClient) option" where
  "FC_Await c = (if fc_done c \<and> \<not> fc_locked c then Some (fc_status c, c\<lparr>fc_status := None\<rparr>) else None)"

fun status_of_marks :: "bool \<Rightarrow> int list \<Rightarrow> SendStatus" where
  "status_of_marks success [] = (if success then SS_SUCCESS else SS_RETRING)"
| "status_of_marks success (m # ms) =
     (if m > 1 then SS_TOO_MANY_RETRY else status_of_marks (if m \<ge> 0 then False else success) ms)"

definition GetStatus :: "SendContext \<Rightarrow> SendStatus" where
  "GetStatus ctx = status_of_marks True (sx_mark ctx)"

section \<open>Requests\<close>

definition vector_resize :: "nat \<Rightarrow> 'a \<Rightarrow> 'a list \<Rightarrow> 'a list" where
  "vector_resize n x xs = take n xs @ replicate (n - length xs) x"

definition FillRequest ::
  "'b client_libs \<Rightarrow> fs \<Rightarrow> string \<Rightarrow> SyncContext \<Rightarrow> SendContext
   \<Rightarrow> client_fault + bool \<times> FileReqX \<times> SendContext" where
  "FillRequest L s uuid sy ctx =
     (if sx_src ctx = '''' then Inr (False, FileReqX_default, ctx)
      else let r1 = FileReqX_default\<lparr>fq_request_id := uuid\<rparr>;
               (ok, r2) =
                 (if y_repo_type sy = RT_Ocean then
                    (if y_repo_uuid sy = '''' then (False, r1)
                     else if sx_file_type ctx = FT_Direcotry then (False, r1)
                     else (True, r1\<lparr>fq_repo_uuid := y_repo_uuid sy, fq_user := y_user sy,
                                    fq_token := y_token sy, fx_src := path_stem (sx_src ctx)\<rparr>))
                  else (sx_dst ctx \<noteq> '''', r1))
           in if \<not> ok then Inr (False, r2, ctx)
              else let r3 = r2\<lparr>fx_dst := sx_dst ctx, fq_repo_type := y_repo_type sy, fq_op := sx_op ctx,
                               fx_file_type := sx_file_type ctx\<rparr>;
                       r4 = (if sx_file_type ctx = FT_Symlink then r3\<lparr>fq_content := sx_content ctx\<rparr> else r3)
                   in if sx_op ctx = Op_FilePut \<and> sx_file_type ctx \<noteq> FT_Regular then Inr (False, r4, ctx)
                      else if sx_file_type ctx = FT_Regular \<or> sx_file_type ctx = FT_Symlink then
                        (case PrepareFile (cl_b3 L) (cl_fmt L) (cl_db L) s (sx_src ctx) (y_hash_method sy)
                                (y_partition_size sy) (cl_attr L) of
                           None \<Rightarrow> Inl DivisionByZero
                         | Some (False, _) \<Rightarrow> Inr (False, r4, ctx)
                         | Some (True, attr) \<Rightarrow>
                             (let r5 = (if y_hash_method sy \<noteq> Hash_NONE then r4\<lparr>fx_file_hash := fa_file_hash attr\<rparr> else r4);
                                  r6 = r5\<lparr>fx_file_size := fa_file_size attr, fx_partition_size := y_partition_size sy,
                                          fx_update_time := fa_update_time attr\<rparr>
                              in if fa_partition_num attr < 0 then Inl LengthError
                                 else Inr (True, r6,
                                   ctx\<lparr>sx_mark := vector_resize (nat (fa_partition_num attr)) 0 (sx_mark ctx)\<rparr>)))
                      else Inr (True, r4, ctx))"

text \<open>
  \<^verbatim>\<open>StartWrite\<close>: gRPC allows one write at a time, and the message must not change until
  \<^verbatim>\<open>OnWriteDone\<close>.
\<close>

definition start_write :: "FileClient \<Rightarrow> client_fault + FileClient" where
  "start_write c =
     (if fc_writing c \<noteq> None then Inl OverlappingWrite
      else Inr (c\<lparr>fc_write_done := False, fc_writing := Some (fc_req c), fc_sent := fc_sent c @ [fc_req c]\<rparr>))"

text \<open>\<^verbatim>\<open>BatchSend\<close> up to its wait, and the end of the wait.\<close>

definition BatchSend :: "nat \<Rightarrow> bytes \<Rightarrow> FileClient \<Rightarrow> client_fault + FileClient" where
  "BatchSend partition_num got c =
     (if fc_writing c \<noteq> None then Inl MessageInUse
      else start_write (c\<lparr>fc_req := (fc_req c)\<lparr>fq_content := got, fx_partition_num := int partition_num\<rparr>\<rparr>))"

definition write_wait_over :: "FileClient \<Rightarrow> bool" where
  "write_wait_over c \<longleftrightarrow> fc_write_done c \<or> fc_done c"

definition count_file :: "FileClient \<Rightarrow> FileClient" where
  "count_file c = c\<lparr>fc_sync := sync_done (fc_sync c)\<rparr>"

section \<open>The thread Send\<close>

definition goto_pc :: "send_pc \<Rightarrow> FileClient \<Rightarrow> FileClient" where
  "goto_pc p c = c\<lparr>fc_pc := p\<rparr>"

definition stop_send :: "FileClient \<Rightarrow> FileClient" where
  "stop_send c = goto_pc PcStopped (c\<lparr>fc_send_stopped := True\<rparr>)"

text \<open>From \<^verbatim>\<open>FillRequest\<close> to the first write of an inquiry or to the open file of an upload.\<close>

definition send_fill :: "'b client_libs \<Rightarrow> fs \<Rightarrow> string \<Rightarrow> nat \<Rightarrow> FileClient \<Rightarrow> client_fault + FileClient" where
  "send_fill L s uuid i c =
     (if fc_writing c \<noteq> None then Inl MessageInUse
      else case FillRequest L s uuid (fc_sync c) (fc_heap c ! i) of
             Inl e \<Rightarrow> Inl e
           | Inr (ok, r, ctx) \<Rightarrow>
               (let c1 = c\<lparr>fc_req := r, fc_heap := (fc_heap c)[i := ctx], fc_taken := fc_taken c @ [(i, uuid)]\<rparr>
                in if \<not> ok then Inr (goto_pc PcTop c1)
                   else if sx_op ctx = Op_FileExists then
                     start_write (goto_pc PcAsk (if sx_file_type ctx = FT_Symlink then count_file c1 else c1))
                   else let c2 = (case map_of (fc_map c1) (fq_request_id r) of
                                    None \<Rightarrow> c1\<lparr>fc_map := (fq_request_id r, i) # fc_map c1\<rparr>
                                  | Some _ \<Rightarrow> c1)
                        in case read_stream s (sx_src ctx) of
                             Inl e \<Rightarrow> Inr (goto_pc PcReturned c2)
                           | Inr (d, _) \<Rightarrow> Inr (goto_pc (PcRead i 0 \<lparr>if_data = d, if_pos = 0, if_fail = False\<rparr>) c2)))"

definition send_read :: "nat \<Rightarrow> nat \<Rightarrow> ifstream \<Rightarrow> FileClient \<Rightarrow> client_fault + FileClient" where
  "send_read i k f c =
     (case ifstream_read (nat (y_partition_size (fc_sync c))) f of
        (good, got, f1) \<Rightarrow>
          if good \<or> got \<noteq> [] then BatchSend k got (goto_pc (PcWrite i k f1) c)
          else Inr (goto_pc (PcStatus i f1) c))"

text \<open>One round of the loop over the marks; the buffer has \<^verbatim>\<open>partition_size\<close> bytes.\<close>

definition send_resend :: "nat \<Rightarrow> nat \<Rightarrow> ifstream \<Rightarrow> SendStatus \<Rightarrow> FileClient \<Rightarrow> client_fault + FileClient" where
  "send_resend i k f st c =
     (let m = sx_mark (fc_heap c ! i)
      in if k < length m then
           (if m ! k = 1 then
              (case ifstream_read (nat NET_BUFFER_SIZE_BYTES) (ifstream_seekg (k * nat NET_BUFFER_SIZE_BYTES) f) of
                 (good, got, f1) \<Rightarrow>
                   if int (length got) > y_partition_size (fc_sync c) then Inl BufferOverflow
                   else if good \<or> got \<noteq> [] then BatchSend k got (goto_pc (PcRewait i k f1 st) c)
                   else Inr (goto_pc (PcResend i (k + 1) f1 st) c))
            else Inr (goto_pc (PcResend i (k + 1) f st) c))
         else Inr (goto_pc (if st = SS_RETRING then PcStatus i f else PcEnd i st) c))"

definition Send_step :: "'b client_libs \<Rightarrow> fs \<Rightarrow> string \<Rightarrow> FileClient \<Rightarrow> client_fault + FileClient" where
  "Send_step L s uuid c =
     (case fc_pc c of
        PcWait \<Rightarrow> Inr (if FC_Size c \<le> 0 \<and> \<not> fc_fill_complete c then c
                       else goto_pc PcTop (c\<lparr>fc_send_stopped := False\<rparr>))
      | PcTop \<Rightarrow> Inr (if fc_done c then stop_send c else goto_pc PcPop c)
      | PcPop \<Rightarrow> Inr (case BQ_PopBack (fc_queue c) of
                        None \<Rightarrow> goto_pc PcFull c
                      | Some (i, q) \<Rightarrow> goto_pc (PcFill i) (c\<lparr>fc_queue := q\<rparr>))
      | PcFull \<Rightarrow> Inr (goto_pc (if fc_fill_complete c then PcFly else PcTop) c)
      | PcFly \<Rightarrow> Inr (goto_pc (if fc_onfly c \<le> 0 then PcSize else PcTop) c)
      | PcSize \<Rightarrow>
          if FC_Size c \<le> 0 then
            (if fc_writing c \<noteq> None then Inl OverlappingWrite
             else Inr (stop_send (c\<lparr>fc_writes_done := True\<rparr>)))
          else Inr (goto_pc PcTop c)
      | PcFill i \<Rightarrow> send_fill L s uuid i c
      | PcAsk \<Rightarrow> Inr (if write_wait_over c then goto_pc PcTop c else c)
      | PcRead i k f \<Rightarrow> send_read i k f c
      | PcWrite i k f \<Rightarrow>
          Inr (if \<not> write_wait_over c then c
               else if fc_done c then goto_pc (PcStatus i f) c else goto_pc (PcRead i (k + 1) f) c)
      | PcStatus i f \<Rightarrow>
          (let st = GetStatus (fc_heap c ! i)
           in Inr (goto_pc (if fc_done c then PcEnd i st else PcResend i 0 f st) c))
      | PcResend i k f st \<Rightarrow> send_resend i k f st c
      | PcRewait i k f st \<Rightarrow> Inr (if write_wait_over c then goto_pc (PcResend i (k + 1) f st) c else c)
      | PcEnd i st \<Rightarrow>
          Inr (goto_pc PcTop (count_file (c\<lparr>fc_map := filter (\<lambda>e. fst e \<noteq> fq_request_id (fc_req c)) (fc_map c)\<rparr>)))
      | _ \<Rightarrow> Inr c)"

section \<open>The thread Print\<close>

definition Print_step :: "FileClient \<Rightarrow> FileClient" where
  "Print_step c =
     (case fc_printer c of
        PrStart \<Rightarrow> c\<lparr>fc_print_stopped := False, fc_printer := PrLoop\<rparr>
      | PrLoop \<Rightarrow> (if fc_done c then c\<lparr>fc_print_stopped := True, fc_printer := PrEnd\<rparr> else c)
      | _ \<Rightarrow> c)"

section \<open>Schedules\<close>

text \<open>
  The setting of a run: libraries, the file system of the client's machine (nobody changes the
  files while they are read), the parameters of the synchronisation, and which contexts the worker
  puts.
\<close>

record 'b upload_case =
  u_libs :: "'b client_libs"
  u_fs :: fs
  u_sync :: SyncContext
  u_puts :: "SendContext \<Rightarrow> bool"

text \<open>
  An answer carries the fields of its request (\<^verbatim>\<open>FileHandler::FileOpHandle\<close> of the server copies them), or
  the server refused the session and filled in nothing but the code.
\<close>

definition answers :: "FileReqX \<Rightarrow> FileResX \<Rightarrow> bool" where
  "answers req res \<longleftrightarrow>
     fs_op res = Op_FileUnused
     \<or> (fs_op res = fq_op req \<and> fs_request_id res = fq_request_id req \<and> fr_src res = fx_src req
        \<and> fr_dst res = fx_dst req \<and> fr_partition_num res = fx_partition_num req
        \<and> fr_res_type res = fx_file_type req)"

datatype upload_event =
  EvSend string | EvPrint | EvPut SendContext | EvComplete | EvWritten bool | EvAnswer FileResX
  | EvReadError | EvRead | EvDone int | EvDoneEnd | EvStop | EvAwait | EvShared SyncContext

definition ok_result :: "'e + 'a \<Rightarrow> 'a option" where
  "ok_result r = (case r of Inl _ \<Rightarrow> None | Inr x \<Rightarrow> Some x)"

text \<open>
  The members of the shared \<^verbatim>\<open>SyncContext\<close> that the client reads.  Other threads change its counters
  and its error code at any time, never these.
\<close>

definition client_params :: "SyncContext \<Rightarrow> int \<times> RepoType \<times> string \<times> string \<times> string \<times> HashMethod" where
  "client_params sy =
     (y_partition_size sy, y_repo_type sy, y_repo_uuid sy, y_user sy, y_token sy, y_hash_method sy)"

text \<open>
  The events; \<open>None\<close>: the event cannot happen, or ends in a fault.  An id is not drawn twice, the
  worker puts nothing after \<^verbatim>\<open>SetFillQueueComplete\<close>, once a write has failed all later ones fail, and
  the server answers the requests it has received in their order.
\<close>

fun client_do :: "'b upload_case \<Rightarrow> upload_event \<Rightarrow> FileClient \<Rightarrow> FileClient option" where
  "client_do X (EvSend uuid) c =
     (if uuid \<in> snd ` set (fc_taken c) then None else ok_result (Send_step (u_libs X) (u_fs X) uuid c))"
| "client_do X EvPrint c = Some (Print_step c)"
| "client_do X (EvPut ctx) c = (if u_puts X ctx \<and> \<not> fc_fill_complete c then Some (FC_Put ctx c) else None)"
| "client_do X EvComplete c = Some (SetFillQueueComplete c)"
| "client_do X (EvWritten ok) c =
     (if fc_writing c \<noteq> None
         \<and> (if ok then fc_failed c = 0 else length (fc_answers c) + fc_failed c < length (fc_sent c))
      then Some (OnWriteDone ok c) else None)"
| "client_do X (EvAnswer res) c =
     (if fc_reader c = RdWait \<and> length (fc_answers c) + fc_failed c < length (fc_sent c)
         \<and> answers (fc_sent c ! length (fc_answers c)) res
      then Some (OnReadDone (Some res) c) else None)"
| "client_do X EvReadError c = (if fc_reader c = RdWait then Some (OnReadDone None c) else None)"
| "client_do X EvRead c = ok_result (read_step c)"
| "client_do X (EvDone st) c = (if fc_locked c then None else Some (OnDone st c))"
| "client_do X EvDoneEnd c = (if fc_locked c then OnDone_end c else None)"
| "client_do X EvStop c = Some (FC_Stop c)"
| "client_do X EvAwait c = map_option snd (FC_Await c)"
| "client_do X (EvShared sy) c =
     (if client_params sy = client_params (fc_sync c) then Some (c\<lparr>fc_sync := sy\<rparr>) else None)"

fun client_run :: "'b upload_case \<Rightarrow> upload_event list \<Rightarrow> FileClient \<Rightarrow> FileClient option" where
  "client_run X [] c = Some c"
| "client_run X (e # es) c = (case client_do X e c of None \<Rightarrow> None | Some c' \<Rightarrow> client_run X es c')"

inductive client_reach :: "'b upload_case \<Rightarrow> FileClient \<Rightarrow> bool" for X where
  start: "FC_new (u_sync X) = Inr c \<Longrightarrow> client_reach X (FC_Start c)"
| step: "client_reach X c \<Longrightarrow> client_do X e c = Some c' \<Longrightarrow> client_reach X c'"

lemma client_reach_run:
  "client_reach X c \<Longrightarrow> client_run X es c = Some c' \<Longrightarrow> client_reach X c'"
  by (induction es arbitrary: c) (auto split: option.splits intro: client_reach.step)

text \<open>
  Invariants of all schedules: it is enough to look at the steps of \<^verbatim>\<open>Send\<close> and, apart from them, at
  the other events.
\<close>

definition is_send :: "upload_event \<Rightarrow> bool" where
  "is_send e \<longleftrightarrow> (case e of EvSend _ \<Rightarrow> True | _ \<Rightarrow> False)"

locale client_invariant =
  fixes X :: "'b upload_case" and inv :: "FileClient \<Rightarrow> bool"
  assumes inv_start: "FC_new (u_sync X) = Inr c \<Longrightarrow> inv (FC_Start c)"
    and inv_send: "inv c \<Longrightarrow> uuid \<notin> snd ` set (fc_taken c)
      \<Longrightarrow> Send_step (u_libs X) (u_fs X) uuid c = Inr c' \<Longrightarrow> inv c'"
    and inv_other: "inv c \<Longrightarrow> \<not> is_send e \<Longrightarrow> client_do X e c = Some c' \<Longrightarrow> inv c'"
begin

lemma inv_event:
  assumes "inv c" and "client_do X e c = Some c'"
  shows "inv c'"
proof (cases "is_send e")
  case True
  then obtain uuid where "e = EvSend uuid" by (auto simp: is_send_def split: upload_event.splits)
  then show ?thesis
    using assms inv_send by (auto simp: ok_result_def split: if_splits sum.splits)
qed (use assms inv_other in blast)

lemma always: "client_reach X c \<Longrightarrow> inv c"
  by (induction rule: client_reach.induct) (auto intro: inv_start inv_event)

end

end
