(* ===== verification/FileUpload.thy ===== *)
theory FileUpload
  imports FileClient "HOL-Library.Sublist"
begin

text \<open>
  What holds of the upload client in every schedule of its threads, of the callbacks and of the
  worker that feeds it: the rules of the gRPC stream are kept, the requests written are those that
  the contexts call for, and the stream is closed only when everything has been sent and answered.
\<close>

section \<open>The rules of the stream\<close>

text \<open>Where \<^verbatim>\<open>Send\<close> may be while a write is under way: it waits, or it leaves because of \<^verbatim>\<open>done_\<close>.\<close>

fun waits :: "send_pc \<Rightarrow> bool" where
  "waits PcAsk = True"
| "waits (PcWrite i k f) = True"
| "waits _ = False"

fun leaves :: "send_pc \<Rightarrow> bool" where
  "leaves PcTop = True"
| "leaves (PcStatus i f) = True"
| "leaves (PcEnd i st) = True"
| "leaves PcStopped = True"
| "leaves _ = False"

text \<open>After the first pass over a file its stream has failed, or \<^verbatim>\<open>done_\<close> cut the pass short.\<close>

fun exhausted :: "bool \<Rightarrow> send_pc \<Rightarrow> bool" where
  "exhausted d (PcStatus i f) = (if_fail f \<or> d)"
| "exhausted d (PcResend i k f st) = if_fail f"
| "exhausted d (PcRewait i k f st) = False"
| "exhausted d _ = True"

definition same_sync :: "'b upload_case \<Rightarrow> FileClient \<Rightarrow> bool" where
  "same_sync X c \<longleftrightarrow>
     client_params (fc_sync c) = client_params (u_sync X)"

definition uploader_inv :: "'b upload_case \<Rightarrow> FileClient \<Rightarrow> bool" where
  "uploader_inv X c \<longleftrightarrow>
     same_sync X c \<and> 0 \<le> y_partition_size (u_sync X) \<and> exhausted (fc_done c) (fc_pc c)
     \<and> (\<forall>r. fc_writing c = Some r \<longrightarrow>
          r = fc_req c \<and> \<not> fc_write_done c \<and> (waits (fc_pc c) \<or> fc_done c \<and> leaves (fc_pc c)))"

lemmas client_defs =
  FC_Reset_def FC_Start_def FC_Stop_def FC_Put_def FC_Size_def SetFillQueueComplete_def OnWriteDone_def
  OnReadDone_def OnDone_def OnDone_end_def FC_Await_def FC_Stopped_def Print_step_def BQ_Size_def BQ_Clear_def
  BQ_PushBack_def Let_def

lemmas send_defs =
  goto_pc_def stop_send_def count_file_def write_wait_over_def start_write_def BatchSend_def

lemma same_sync_size: "same_sync X c \<Longrightarrow> y_partition_size (fc_sync c) = y_partition_size (u_sync X)"
  by (simp add: same_sync_def client_params_def)

lemma same_sync_done: "same_sync X c \<Longrightarrow> fc_sync c' = sync_done (fc_sync c) \<Longrightarrow> same_sync X c'"
  by (simp add: same_sync_def client_params_def sync_done_def)

lemma same_sync_eq: "same_sync X c \<Longrightarrow> fc_sync c' = fc_sync c \<Longrightarrow> same_sync X c'"
  by (simp add: same_sync_def)

lemmas same_syncI = same_sync_done same_sync_eq

lemma ifstream_read_end:
  "ifstream_read n f = (good, got, f1) \<Longrightarrow> \<not> good \<Longrightarrow> if_fail f1"
  by (auto simp: ifstream_read_def Let_def split: if_splits)

lemma ifstream_read_failed:
  "if_fail f \<Longrightarrow> ifstream_read n (ifstream_seekg p f) = (False, [], f)"
  by (simp add: ifstream_read_def ifstream_seekg_def)

lemma read_step_cases:
  assumes "read_step c = Inr c'"
  obtains "c' = c"
  | res where "fc_reader c = RdGot res" "fc_done c" "c' = c\<lparr>fc_reader := RdEnd\<rparr>"
  | res c1 where "fc_reader c = RdGot res" "\<not> fc_done c" "on_answer res c = Inr c1" "c' = c1\<lparr>fc_reader := RdCount\<rparr>"
  | "fc_reader c = RdCount"
    "c' = c\<lparr>fc_onfly := fc_onfly c - 1, fc_counted := fc_counted c + 1, fc_reader := RdWait\<rparr>"
proof (cases "fc_reader c")
  case (RdGot res)
  then show thesis using that(2,3) assms by (cases "fc_done c") (auto simp: read_step_def split: sum.splits)
qed (use that(1,4) assms in \<open>auto simp: read_step_def\<close>)

lemma on_answer_cases:
  assumes "on_answer res c = Inr c1"
  obtains "c1 = c"
  | "fs_op res = Op_FileExists" "fr_res_type res = FT_Regular" "\<not> fs_can_skip_upload res"
    "c1 = FC_Put (SendContext_new\<lparr>sx_src := fr_src res, sx_dst := fr_dst res, sx_file_type := fr_res_type res,
                     sx_op := Op_FilePut\<rparr>) c"
  | "c1 = c\<lparr>fc_skipped := fc_skipped c + 1\<rparr>"
  | i m where "map_of (fc_map c) (fs_request_id res) = Some i"
    "c1 = c\<lparr>fc_heap := (fc_heap c)[i := (fc_heap c ! i)\<lparr>sx_mark := m\<rparr>]\<rparr>"
    "fs_op res = Op_FilePut" "length m = length (sx_mark (fc_heap c ! i))"
proof -
  have "c1 = c \<or> c1 = c\<lparr>fc_skipped := fc_skipped c + 1\<rparr>
    \<or> (fs_op res = Op_FileExists \<and> fr_res_type res = FT_Regular \<and> \<not> fs_can_skip_upload res
       \<and> c1 = FC_Put (SendContext_new\<lparr>sx_src := fr_src res, sx_dst := fr_dst res, sx_file_type := fr_res_type res,
                     sx_op := Op_FilePut\<rparr>) c)
    \<or> (\<exists>i k v. map_of (fc_map c) (fs_request_id res) = Some i \<and> fs_op res = Op_FilePut
       \<and> c1 = c\<lparr>fc_heap := (fc_heap c)[i := (fc_heap c ! i)\<lparr>sx_mark := (sx_mark (fc_heap c ! i))[k := v]\<rparr>]\<rparr>)"
    using assms unfolding on_answer_def by (simp add: Let_def split: if_splits option.splits; blast)
  then show thesis using that by (metis length_list_update)
qed

lemma same_sync_start: "FC_new (u_sync X) = Inr c \<Longrightarrow> same_sync X (FC_Start c)"
  by (auto simp: same_sync_def FC_new_def client_defs split: if_splits)

lemma uploader_inv_start: "FC_new (u_sync X) = Inr c \<Longrightarrow> uploader_inv X (FC_Start c)"
  using same_sync_start [of X c]
  by (auto simp: uploader_inv_def FC_new_def client_defs split: if_splits)

lemma uploader_inv_frame:
  assumes "uploader_inv X c" "fc_sync c' = fc_sync c" "fc_req c' = fc_req c" "fc_writing c' = fc_writing c"
    "fc_write_done c' = fc_write_done c" "fc_pc c' = fc_pc c" "fc_done c \<longrightarrow> fc_done c'"
  shows "uploader_inv X c'"
proof -
  have "exhausted (fc_done c') (fc_pc c)"
    using assms(1,7) by (cases "fc_pc c") (auto simp: uploader_inv_def)
  then show ?thesis using assms by (auto simp: uploader_inv_def intro: same_syncI)
qed

lemma on_answer_frame:
  assumes "on_answer res c = Inr c1"
  shows "fc_sync c1 = fc_sync c" "fc_req c1 = fc_req c" "fc_writing c1 = fc_writing c"
    "fc_write_done c1 = fc_write_done c" "fc_pc c1 = fc_pc c" "fc_done c1 = fc_done c"
    "fc_sent c1 = fc_sent c" "fc_taken c1 = fc_taken c" "fc_fill_complete c1 = fc_fill_complete c"
    "fc_onfly c1 = fc_onfly c" "fc_counted c1 = fc_counted c" "fc_answers c1 = fc_answers c"
    "fc_failed c1 = fc_failed c" "fc_writes_done c1 = fc_writes_done c" "fc_reader c1 = fc_reader c"
    "fc_map c1 = fc_map c"
  using assms by (cases rule: on_answer_cases; simp add: FC_Put_def)+

lemma uploader_inv_other:
  assumes "uploader_inv X c" and "\<not> is_send e" and "client_do X e c = Some c'"
  shows "uploader_inv X c'"
proof (cases e)
  case (EvWritten ok)
  then show ?thesis using assms by (auto simp: client_defs uploader_inv_def intro: same_syncI split: if_splits)
next
  case EvRead
  then have "read_step c = Inr c'" using assms by (auto simp: ok_result_def split: sum.splits)
  then show ?thesis
    using assms(1) by (cases rule: read_step_cases) (auto intro: uploader_inv_frame simp: on_answer_frame)
next
  case (EvShared sy)
  then show ?thesis using assms by (auto simp: uploader_inv_def same_sync_def split: if_splits)
qed (use assms in \<open>auto simp: is_send_def client_defs intro: uploader_inv_frame split: if_splits print_pc.splits\<close>)

lemma uploader_inv_send:
  assumes "uploader_inv X c" and "Send_step (u_libs X) (u_fs X) uuid c = Inr c'"
  shows "uploader_inv X c'"
proof (cases "fc_pc c")
  case (PcFill i)
  then show ?thesis using assms
    by (auto simp: Send_step_def send_fill_def uploader_inv_def send_defs Let_def
        intro: same_syncI split: if_splits sum.splits option.splits prod.splits)
next
  case (PcRead i k f)
  then show ?thesis using assms ifstream_read_end
    by (fastforce simp: Send_step_def send_read_def uploader_inv_def send_defs
        intro: same_syncI split: if_splits prod.splits)
next
  case (PcResend i k f st)
  then show ?thesis using assms
    by (auto simp: Send_step_def send_resend_def uploader_inv_def send_defs Let_def
        ifstream_read_failed intro: same_syncI split: if_splits)
qed (use assms in \<open>auto simp: Send_step_def uploader_inv_def send_defs Let_def
      intro: same_syncI split: if_splits option.splits\<close>)

interpretation upload_stream: client_invariant X "uploader_inv X" for X :: "'b upload_case"
  using uploader_inv_start uploader_inv_send uploader_inv_other by unfold_locales blast+

lemma send_ready:
  assumes "uploader_inv X c" and "\<not> waits (fc_pc c)" and "\<not> fc_done c \<or> \<not> leaves (fc_pc c)"
  shows "fc_writing c = None"
  using assms by (cases "fc_writing c") (auto simp: uploader_inv_def)

section \<open>Counting requests and answers\<close>

text \<open>No write is under way, and every request that reached the server has been answered and the answer dealt with.\<close>

definition quiet :: "FileClient \<Rightarrow> bool" where
  "quiet c \<longleftrightarrow>
     fc_writing c = None \<and> fc_counted c = length (fc_answers c)
     \<and> length (fc_answers c) + fc_failed c = length (fc_sent c) \<and> (fc_reader c = RdWait \<or> fc_reader c = RdEnd)"

fun reader_ok :: "read_pc \<Rightarrow> nat \<Rightarrow> nat \<Rightarrow> bool" where
  "reader_ok RdWait n m \<longleftrightarrow> n = m"
| "reader_ok (RdGot res) n m \<longleftrightarrow> Suc n = m"
| "reader_ok RdCount n m \<longleftrightarrow> Suc n = m"
| "reader_ok RdEnd n m \<longleftrightarrow> n \<le> m"

definition count_inv :: "FileClient \<Rightarrow> bool" where
  "count_inv c \<longleftrightarrow>
     fc_onfly c = int (length (fc_sent c)) - int (fc_failed c) - (if fc_writing c = None then 0 else 1) - int (fc_counted c)
     \<and> length (fc_answers c) + fc_failed c \<le> length (fc_sent c)
     \<and> reader_ok (fc_reader c) (fc_counted c) (length (fc_answers c))
     \<and> (fc_pc c = PcFly \<longrightarrow> fc_fill_complete c)
     \<and> (fc_pc c = PcSize \<longrightarrow> fc_fill_complete c \<and> quiet c)
     \<and> (fc_writes_done c \<longrightarrow> fc_fill_complete c \<and> quiet c \<and> fc_queue c = [] \<and> fc_pc c = PcStopped)"

lemma reader_ok_le: "reader_ok r n m \<Longrightarrow> n \<le> m"
  by (cases r) auto

lemma quietI:
  assumes "count_inv c" and "fc_writing c = None" and "fc_onfly c \<le> 0"
  shows "quiet c"
proof -
  have "int (length (fc_sent c)) - int (fc_failed c) \<le> int (fc_counted c)"
    and le: "length (fc_answers c) + fc_failed c \<le> length (fc_sent c)"
    and r: "reader_ok (fc_reader c) (fc_counted c) (length (fc_answers c))"
    using assms by (simp_all add: count_inv_def)
  then have "fc_counted c = length (fc_answers c)" "length (fc_answers c) + fc_failed c = length (fc_sent c)"
    using reader_ok_le [OF r] by linarith+
  then show ?thesis using r assms(2) by (cases "fc_reader c") (auto simp: quiet_def)
qed

lemma count_inv_start: "FC_new (u_sync X) = Inr c \<Longrightarrow> count_inv (FC_Start c)"
  by (auto simp: count_inv_def FC_new_def client_defs split: if_splits)

lemma count_inv_answer:
  assumes "count_inv c" and "read_step c = Inr c'"
  shows "count_inv c'"
  using assms(2)
proof (cases rule: read_step_cases)
  case (3 res c1)
  have "\<not> quiet c" using 3(1) by (simp add: quiet_def)
  then show ?thesis using 3 assms(1) by (auto simp: count_inv_def on_answer_frame)
qed (use assms in \<open>auto simp: count_inv_def quiet_def\<close>)

lemma count_inv_written:
  assumes "count_inv c" and "client_do X (EvWritten ok) c = Some c'"
  shows "count_inv c'"
proof -
  have w: "fc_writing c \<noteq> None" and c': "c' = OnWriteDone ok c"
    and n: "\<not> ok \<longrightarrow> length (fc_answers c) + fc_failed c < length (fc_sent c)"
    using assms(2) by (auto split: if_splits)
  then have "\<not> quiet c" by (simp add: quiet_def)
  with w n assms(1) show ?thesis by (cases ok) (simp_all add: c' OnWriteDone_def Let_def count_inv_def)
qed

lemma count_inv_arrived:
  assumes "count_inv c" and "client_do X (EvAnswer res) c = Some c'"
  shows "count_inv c'"
proof -
  have r: "fc_reader c = RdWait" and c': "c' = OnReadDone (Some res) c"
    and n: "length (fc_answers c) + fc_failed c < length (fc_sent c)"
    using assms(2) by (auto split: if_splits)
  then have "\<not> quiet c" by (simp add: quiet_def)
  with r n assms(1) show ?thesis by (simp add: c' OnReadDone_def count_inv_def)
qed

text \<open>What a step can change of the counters, in the order of the record.\<close>

definition tally :: "FileClient \<Rightarrow> int \<times> nat \<times> nat \<times> bool \<times> nat \<times> nat \<times> read_pc" where
  "tally c = (fc_onfly c, length (fc_sent c), fc_failed c, fc_writing c = None, fc_counted c, length (fc_answers c),
     fc_reader c)"

lemma quiet_tally: "tally c' = tally c \<Longrightarrow> quiet c' = quiet c"
  by (simp add: tally_def quiet_def)

lemma count_inv_frame:
  assumes "count_inv c" "tally c' = tally c" "fc_fill_complete c \<longrightarrow> fc_fill_complete c'" "fc_pc c' = fc_pc c"
    "fc_writes_done c' = fc_writes_done c" "fc_writes_done c \<longrightarrow> fc_queue c' = fc_queue c"
  shows "count_inv c'"
  using assms quiet_tally [OF assms(2)] by (simp add: tally_def count_inv_def)

lemma count_inv_other:
  assumes "count_inv c" and "\<not> is_send e" and "client_do X e c = Some c'"
  shows "count_inv c'"
proof (cases e)
  case EvRead
  then show ?thesis using count_inv_answer assms by (auto simp: ok_result_def split: sum.splits)
next
  case (EvPut ctx)
  then have "\<not> fc_writes_done c" using assms(1,3) by (auto simp: count_inv_def split: if_splits)
  then show ?thesis
    using EvPut assms by (auto simp: tally_def FC_Put_def intro: count_inv_frame split: if_splits)
next
  case EvReadError
  then have "fc_reader c = RdWait" "c' = OnReadDone None c" using assms by (auto split: if_splits)
  then show ?thesis using assms(1) by (simp add: OnReadDone_def count_inv_def quiet_def)
next
  case (EvWritten ok)
  then show ?thesis using count_inv_written assms(1,3) by blast
next
  case (EvAnswer res)
  then show ?thesis using count_inv_arrived assms(1,3) by blast
next
  case EvPrint
  then show ?thesis
    using assms(3) by (intro count_inv_frame [OF assms(1)]) (auto simp: tally_def Print_step_def split: print_pc.splits if_splits)
next
  case EvDoneEnd
  then show ?thesis
    using assms(3) by (intro count_inv_frame [OF assms(1)]) (auto simp: tally_def OnDone_end_def split: if_splits)
next
  case (EvDone st)
  then show ?thesis
    using assms(3) by (intro count_inv_frame [OF assms(1)]) (auto simp: tally_def OnDone_def split: if_splits)
next
  case (EvSend u)
  then show ?thesis using assms(2) by (simp add: is_send_def)
next
  case EvComplete
  then show ?thesis
    using assms(3) by (intro count_inv_frame [OF assms(1)]) (auto simp: tally_def SetFillQueueComplete_def)
next
  case EvStop
  then show ?thesis using assms(3) by (intro count_inv_frame [OF assms(1)]) (auto simp: tally_def FC_Stop_def)
next
  case (EvShared sy)
  then show ?thesis
    using assms(3) by (intro count_inv_frame [OF assms(1)]) (auto simp: tally_def split: if_splits)
next
  case EvAwait
  then show ?thesis
    using assms(3) by (intro count_inv_frame [OF assms(1)]) (auto simp: tally_def FC_Await_def split: if_splits)
qed

text \<open>A step of \<^verbatim>\<open>Send\<close> starts one write, or leaves the counters alone.\<close>

lemma start_write_tally:
  "start_write c = Inr c' \<Longrightarrow> fc_writing c = None \<and> fc_writing c' = Some (fc_req c) \<and> fc_sent c' = fc_sent c @ [fc_req c]
     \<and> fc_pc c' = fc_pc c \<and> fc_writes_done c' = fc_writes_done c \<and> fc_fill_complete c' = fc_fill_complete c
     \<and> fc_onfly c' = fc_onfly c \<and> fc_failed c' = fc_failed c \<and> fc_counted c' = fc_counted c
     \<and> fc_answers c' = fc_answers c \<and> fc_reader c' = fc_reader c"
  by (auto simp: start_write_def split: if_splits)

definition starts_write :: "FileClient \<Rightarrow> FileClient \<Rightarrow> bool" where
  "starts_write c c' \<longleftrightarrow>
     fc_writing c = None \<and> fc_writing c' \<noteq> None \<and> length (fc_sent c') = Suc (length (fc_sent c)) \<and> waits (fc_pc c')
     \<and> fc_writes_done c' = fc_writes_done c \<and> fc_onfly c' = fc_onfly c \<and> fc_failed c' = fc_failed c
     \<and> fc_counted c' = fc_counted c \<and> length (fc_answers c') = length (fc_answers c) \<and> fc_reader c' = fc_reader c"

lemma BatchSend_starts:
  "BatchSend k got c = Inr c' \<Longrightarrow> waits (fc_pc c) \<Longrightarrow> starts_write c c'"
  by (auto simp: BatchSend_def starts_write_def dest!: start_write_tally split: if_splits)

lemma goto_pc_simps [simp]:
  "fc_pc (goto_pc p c) = p" "tally (goto_pc p c) = tally c" "fc_writes_done (goto_pc p c) = fc_writes_done c"
  "fc_fill_complete (goto_pc p c) = fc_fill_complete c" "starts_write (goto_pc p c) c' = starts_write c c'"
  by (simp_all add: goto_pc_def tally_def starts_write_def)

text \<open>
  \<^verbatim>\<open>send_fill\<close> by its four outcomes: refused, an inquiry under way, the file does not open, the file is open.
\<close>

definition filled :: "nat \<Rightarrow> string \<Rightarrow> FileReqX \<Rightarrow> SendContext \<Rightarrow> FileClient \<Rightarrow> FileClient" where
  "filled i uuid r ctx c = c\<lparr>fc_req := r, fc_heap := (fc_heap c)[i := ctx], fc_taken := fc_taken c @ [(i, uuid)]\<rparr>"

definition registered :: "nat \<Rightarrow> string \<Rightarrow> FileClient \<Rightarrow> FileClient" where
  "registered i rid c =
     (case map_of (fc_map c) rid of None \<Rightarrow> c\<lparr>fc_map := (rid, i) # fc_map c\<rparr> | Some _ \<Rightarrow> c)"

lemma send_fill_cases:
  assumes "send_fill L s uuid i c = Inr c'"
  obtains r ctx where "fc_writing c = None" "FillRequest L s uuid (fc_sync c) (fc_heap c ! i) = Inr (False, r, ctx)"
    "c' = goto_pc PcTop (filled i uuid r ctx c)"
  | r ctx c1 where "fc_writing c = None" "FillRequest L s uuid (fc_sync c) (fc_heap c ! i) = Inr (True, r, ctx)"
    "sx_op ctx = Op_FileExists" "c1 = filled i uuid r ctx c \<or> c1 = count_file (filled i uuid r ctx c)"
    "start_write (goto_pc PcAsk c1) = Inr c'"
  | r ctx e where "fc_writing c = None" "FillRequest L s uuid (fc_sync c) (fc_heap c ! i) = Inr (True, r, ctx)"
    "sx_op ctx \<noteq> Op_FileExists" "read_stream s (sx_src ctx) = Inl e"
    "c' = goto_pc PcReturned (registered i (fq_request_id r) (filled i uuid r ctx c))"
  | r ctx d b where "fc_writing c = None" "FillRequest L s uuid (fc_sync c) (fc_heap c ! i) = Inr (True, r, ctx)"
    "sx_op ctx \<noteq> Op_FileExists" "read_stream s (sx_src ctx) = Inr (d, b)"
    "c' = goto_pc (PcRead i 0 \<lparr>if_data = d, if_pos = 0, if_fail = False\<rparr>)
            (registered i (fq_request_id r) (filled i uuid r ctx c))"
proof -
  obtain ok r ctx where w: "fc_writing c = None"
    and f: "FillRequest L s uuid (fc_sync c) (fc_heap c ! i) = Inr (ok, r, ctx)"
    using assms by (auto simp: send_fill_def split: if_splits sum.splits)
  show thesis
  proof (cases ok)
    case False
    then show thesis using that(1) w f assms by (simp add: send_fill_def Let_def filled_def)
  next
    case ok: True
    show thesis
    proof (cases "sx_op ctx = Op_FileExists")
      case True
      then show thesis
        using that(2) [OF w _ True, of r "if sx_file_type ctx = FT_Symlink then count_file (filled i uuid r ctx c) else filled i uuid r ctx c"]
          f ok w assms by (simp add: send_fill_def Let_def filled_def [symmetric])
    next
      case False
      then have "c' = (case read_stream s (sx_src ctx) of
          Inl e \<Rightarrow> goto_pc PcReturned (registered i (fq_request_id r) (filled i uuid r ctx c))
        | Inr (d, b) \<Rightarrow> goto_pc (PcRead i 0 \<lparr>if_data = d, if_pos = 0, if_fail = False\<rparr>)
            (registered i (fq_request_id r) (filled i uuid r ctx c)))"
        using assms f ok w
        by (simp add: send_fill_def Let_def filled_def [symmetric] registered_def [symmetric] split: sum.splits prod.splits)
      then show thesis
        using that(3) [OF w _ False] that(4) [OF w _ False] f ok by (cases "read_stream s (sx_src ctx)") auto
    qed
  qed
qed

lemma filled_simps [simp]:
  "tally (filled i u r ctx c) = tally c" "fc_writes_done (filled i u r ctx c) = fc_writes_done c"
  "fc_queue (filled i u r ctx c) = fc_queue c" "fc_pc (filled i u r ctx c) = fc_pc c"
  "fc_taken (filled i u r ctx c) = fc_taken c @ [(i, u)]" "fc_heap (filled i u r ctx c) = (fc_heap c)[i := ctx]"
  "fc_sent (filled i u r ctx c) = fc_sent c" "fc_req (filled i u r ctx c) = r"
  "fc_map (filled i u r ctx c) = fc_map c" "fc_sync (filled i u r ctx c) = fc_sync c" "fc_done (filled i u r ctx c) = fc_done c"
  by (simp_all add: filled_def tally_def)

lemma count_file_simps [simp]:
  "tally (count_file c) = tally c" "fc_writes_done (count_file c) = fc_writes_done c"
  "fc_queue (count_file c) = fc_queue c" "fc_pc (count_file c) = fc_pc c" "fc_taken (count_file c) = fc_taken c"
  "fc_heap (count_file c) = fc_heap c" "fc_sent (count_file c) = fc_sent c" "fc_req (count_file c) = fc_req c"
  "fc_map (count_file c) = fc_map c" "fc_done (count_file c) = fc_done c"
  by (simp_all add: count_file_def tally_def)

lemma registered_simps [simp]:
  "tally (registered i u c) = tally c" "fc_writes_done (registered i u c) = fc_writes_done c"
  "fc_queue (registered i u c) = fc_queue c" "fc_pc (registered i u c) = fc_pc c" "fc_taken (registered i u c) = fc_taken c"
  "fc_heap (registered i u c) = fc_heap c" "fc_sent (registered i u c) = fc_sent c" "fc_req (registered i u c) = fc_req c"
  "fc_sync (registered i u c) = fc_sync c" "fc_done (registered i u c) = fc_done c"
  by (simp_all add: registered_def tally_def split: option.splits)

lemma send_fill_effect:
  assumes "send_fill L s uuid i c = Inr c'"
  shows "starts_write c c' \<or> tally c' = tally c \<and> fc_writes_done c' = fc_writes_done c \<and> fc_pc c' \<noteq> PcFly \<and> fc_pc c' \<noteq> PcSize"
  using assms
proof (cases rule: send_fill_cases)
  case (2 r ctx c1)
  have "tally c1 = tally c" "fc_writes_done c1 = fc_writes_done c" using 2(4) by auto
  then have "starts_write c c'"
    using start_write_tally [OF 2(5)] by (simp add: starts_write_def goto_pc_def tally_def)
  then show ?thesis by blast
qed simp_all

lemma send_read_effect:
  assumes "send_read i k f c = Inr c'"
  shows "starts_write c c' \<or> (\<exists>f1. c' = goto_pc (PcStatus i f1) c)"
  using assms BatchSend_starts by (fastforce simp: send_read_def split: prod.splits if_splits)

lemma send_resend_effect:
  assumes "send_resend i k f st c = Inr c'" and "if_fail f"
  shows "\<exists>p. c' = goto_pc p c \<and> p \<noteq> PcFly \<and> p \<noteq> PcSize"
  using assms by (auto simp: send_resend_def ifstream_read_failed Let_def split: if_splits)

lemma count_inv_write:
  assumes "count_inv c" and "starts_write c c'" and "fc_pc c \<noteq> PcStopped"
  shows "count_inv c'"
proof -
  have "\<not> fc_writes_done c" using assms(1,3) by (auto simp: count_inv_def)
  moreover have "fc_pc c' \<noteq> PcFly" "fc_pc c' \<noteq> PcSize" using assms(2) by (auto simp: starts_write_def)
  ultimately show ?thesis using assms(1,2) by (simp add: count_inv_def starts_write_def)
qed

lemma count_inv_move:
  assumes "count_inv c" and "tally c' = tally c" and "fc_pc c \<noteq> PcStopped" and "fc_writes_done c' = fc_writes_done c"
    and "fc_pc c' \<noteq> PcFly" and "fc_pc c' \<noteq> PcSize"
  shows "count_inv c'"
proof -
  have "\<not> fc_writes_done c" using assms(1,3) by (auto simp: count_inv_def)
  then show ?thesis using assms by (simp add: tally_def count_inv_def)
qed

lemma count_inv_goto:
  assumes "count_inv c" and "fc_pc c \<noteq> PcStopped" and "p = PcFly \<or> p = PcSize \<longrightarrow> fc_fill_complete c"
    and "p = PcSize \<longrightarrow> quiet c"
  shows "count_inv (goto_pc p c)"
proof -
  have "\<not> fc_writes_done c" using assms(1,2) by (auto simp: count_inv_def)
  moreover have "quiet (goto_pc p c) = quiet c" by (rule quiet_tally) simp
  ultimately show ?thesis using assms by (auto simp: count_inv_def goto_pc_def)
qed

lemma count_inv_send:
  assumes "uploader_inv X c" and "count_inv c" and "Send_step L s uuid c = Inr c'"
  shows "count_inv c'"
proof (cases "fc_pc c")
  case (PcFill i)
  then show ?thesis
    using assms send_fill_effect [of L s uuid i c c'] count_inv_write [of c c'] count_inv_move [of c c']
    by (auto simp: Send_step_def)
next
  case (PcRead i k f)
  then show ?thesis
    using assms send_read_effect [of i k f c c'] count_inv_write [of c c'] count_inv_move [of c c']
    by (auto simp: Send_step_def)
next
  case (PcResend i k f st)
  then have "if_fail f" using assms(1) by (simp add: uploader_inv_def)
  then show ?thesis
    using PcResend assms send_resend_effect [of i k f st c c'] count_inv_move [of c c'] by (auto simp: Send_step_def)
next
  case PcFly
  then have "fc_writing c = None" using assms(1) by (intro send_ready) auto
  then have "fc_onfly c \<le> 0 \<longrightarrow> quiet c" using quietI assms(2) by blast
  moreover have "fc_fill_complete c" using PcFly assms(2) by (simp add: count_inv_def)
  ultimately show ?thesis
    using PcFly assms(2,3) by (cases "fc_onfly c \<le> 0") (auto simp: Send_step_def intro: count_inv_goto)
next
  case PcFull
  then show ?thesis
    using assms(2,3) by (cases "fc_fill_complete c") (auto simp: Send_step_def intro: count_inv_goto)
next
  case PcSize
  then show ?thesis
    using assms(2,3) by (auto simp: Send_step_def count_inv_def quiet_def send_defs FC_Size_def BQ_Size_def split: if_splits)
next
  case PcNone
  then show ?thesis using assms(2,3) by (simp add: Send_step_def)
next
  case PcStopped
  then show ?thesis using assms(2,3) by (simp add: Send_step_def)
next
  case PcReturned
  then show ?thesis using assms(2,3) by (simp add: Send_step_def)
qed (use assms(2,3) in \<open>auto simp: Send_step_def tally_def send_defs Let_def intro!: count_inv_move [OF assms(2)]
      split: if_splits option.splits prod.splits\<close>)

interpretation upload_count: client_invariant X "\<lambda>c. uploader_inv X c \<and> count_inv c" for X :: "'b upload_case"
  by unfold_locales
    (auto intro: uploader_inv_start uploader_inv_send uploader_inv_other count_inv_start count_inv_send count_inv_other)

section \<open>Every context is taken once\<close>

fun in_hand :: "send_pc \<Rightarrow> nat list" where
  "in_hand (PcFill i) = [i]"
| "in_hand _ = []"

definition heap_inv :: "FileClient \<Rightarrow> bool" where
  "heap_inv c \<longleftrightarrow>
     distinct (fc_queue c @ map fst (fc_taken c) @ in_hand (fc_pc c))
     \<and> set (fc_queue c @ map fst (fc_taken c) @ in_hand (fc_pc c)) = {..<length (fc_heap c)}"

lemma heap_inv_start: "FC_new (u_sync X) = Inr c \<Longrightarrow> heap_inv (FC_Start c)"
  by (auto simp: heap_inv_def FC_new_def client_defs split: if_splits)

lemma heap_inv_frame:
  assumes "heap_inv c" "fc_queue c' = fc_queue c" "fc_taken c' = fc_taken c" "fc_pc c' = fc_pc c"
    "length (fc_heap c') = length (fc_heap c)"
  shows "heap_inv c'"
  using assms by (simp add: heap_inv_def)

lemma heap_inv_put: "heap_inv c \<Longrightarrow> heap_inv (FC_Put ctx c)"
  by (auto simp: heap_inv_def FC_Put_def BQ_PushBack_def lessThan_Suc)

lemma heap_inv_other:
  assumes "heap_inv c" and "\<not> is_send e" and "client_do X e c = Some c'"
  shows "heap_inv c'"
proof (cases e)
  case EvRead
  then have "read_step c = Inr c'" using assms by (auto simp: ok_result_def split: sum.splits)
  then show ?thesis
  proof (cases rule: read_step_cases)
    case (3 res c1)
    from 3(3) have "heap_inv c1"
      using assms(1) by (cases rule: on_answer_cases) (auto intro: heap_inv_put heap_inv_frame)
    then show ?thesis using 3(4) by (auto intro: heap_inv_frame)
  qed (use assms(1) in \<open>auto intro: heap_inv_frame\<close>)
next
  case (EvPut ctx)
  then show ?thesis using assms by (auto intro: heap_inv_put split: if_splits)
qed (use assms in \<open>auto simp: is_send_def client_defs intro: heap_inv_frame split: if_splits print_pc.splits\<close>)

lemma send_local:
  assumes "Send_step L s uuid c = Inr c'" and "\<forall>i. fc_pc c \<noteq> PcFill i" and "fc_pc c \<noteq> PcPop"
  shows "fc_queue c' = fc_queue c \<and> fc_taken c' = fc_taken c \<and> fc_heap c' = fc_heap c \<and> in_hand (fc_pc c') = []"
proof (cases "fc_pc c")
  case (PcRead i k f)
  then show ?thesis using assms
    by (auto simp: Send_step_def send_read_def send_defs split: if_splits prod.splits)
next
  case (PcResend i k f st)
  then show ?thesis using assms
    by (auto simp: Send_step_def send_resend_def send_defs Let_def split: if_splits prod.splits)
qed (use assms in \<open>auto simp: Send_step_def send_defs Let_def split: if_splits\<close>)

lemma heap_inv_send:
  assumes "heap_inv c" and "Send_step L s uuid c = Inr c'"
  shows "heap_inv c'"
proof (cases "fc_pc c")
  case (PcFill i)
  then have "send_fill L s uuid i c = Inr c'" using assms(2) by (simp add: Send_step_def)
  then have "fc_queue c' = fc_queue c \<and> fc_taken c' = fc_taken c @ [(i, uuid)] \<and> in_hand (fc_pc c') = []
      \<and> length (fc_heap c') = length (fc_heap c)"
    by (cases rule: send_fill_cases) (auto simp: goto_pc_def start_write_def split: if_splits)
  then show ?thesis using assms(1) PcFill by (simp add: heap_inv_def)
next
  case PcPop
  show ?thesis
  proof (cases "fc_queue c" rule: rev_cases)
    case (snoc q i)
    then have "c' = goto_pc (PcFill i) (c\<lparr>fc_queue := q\<rparr>)"
      using assms PcPop by (simp add: Send_step_def BQ_PopBack_def)
    moreover have "distinct (q @ map fst (fc_taken c) @ [i])" and "set (q @ map fst (fc_taken c) @ [i]) = {..<length (fc_heap c)}"
      using assms(1) snoc PcPop by (auto simp: heap_inv_def simp del: set_map)
    ultimately show ?thesis by (simp add: heap_inv_def goto_pc_def)
  next
    case Nil
    then have "c' = goto_pc PcFull c" using assms PcPop by (simp add: Send_step_def BQ_PopBack_def)
    then show ?thesis using assms(1) PcPop by (simp add: heap_inv_def goto_pc_def)
  qed
qed (use assms send_local [OF assms(2)] in \<open>simp_all add: heap_inv_def\<close>)

interpretation upload_heap: client_invariant X heap_inv for X :: "'b upload_case"
  using heap_inv_start heap_inv_send heap_inv_other by unfold_locales blast+

section \<open>The requests that are written\<close>

text \<open>
  What a context calls for: the request that \<^verbatim>\<open>FillRequest\<close> makes of it, and for an upload one copy
  of it for each part of the file.
\<close>

definition n_parts :: "nat \<Rightarrow> bytes \<Rightarrow> nat" where
  "n_parts ps d = (length d + ps - 1) div ps"

definition part_of :: "FileReqX \<Rightarrow> nat \<Rightarrow> bytes \<Rightarrow> nat \<Rightarrow> FileReqX" where
  "part_of r ps d k = r\<lparr>fq_content := part_data ps d k, fx_partition_num := int k\<rparr>"

definition upload_size :: "'b upload_case \<Rightarrow> nat" where
  "upload_size X = nat (y_partition_size (u_sync X))"

definition request_of :: "'b upload_case \<Rightarrow> SendContext \<Rightarrow> string \<Rightarrow> FileReqX option" where
  "request_of X ctx uuid =
     (case FillRequest (u_libs X) (u_fs X) uuid (u_sync X) ctx of Inr (True, r, _) \<Rightarrow> Some r | _ \<Rightarrow> None)"

definition requests_of :: "'b upload_case \<Rightarrow> SendContext \<Rightarrow> string \<Rightarrow> FileReqX list" where
  "requests_of X ctx uuid =
     (case request_of X ctx uuid of
        None \<Rightarrow> []
      | Some r \<Rightarrow>
          if sx_op ctx = Op_FileExists then [r]
          else (case read_stream (u_fs X) (sx_src ctx) of
                  Inl _ \<Rightarrow> []
                | Inr (d, _) \<Rightarrow> map (part_of r (upload_size X) d) [0..<n_parts (upload_size X) d]))"

definition due :: "'b upload_case \<Rightarrow> SendContext list \<Rightarrow> (nat \<times> string) list \<Rightarrow> FileReqX list" where
  "due X h ts = concat (map (\<lambda>(i, uuid). requests_of X (h ! i) uuid) ts)"

text \<open>The marks are the only members of a context that change, and contexts are only added.\<close>

definition faded :: "SendContext \<Rightarrow> SendContext" where
  "faded ctx = ctx\<lparr>sx_mark := []\<rparr>"

definition heap_ext :: "SendContext list \<Rightarrow> SendContext list \<Rightarrow> bool" where
  "heap_ext h h' \<longleftrightarrow> length h \<le> length h' \<and> (\<forall>i < length h. faded (h' ! i) = faded (h ! i))"

lemma heap_ext_refl [simp]: "heap_ext h h"
  by (simp add: heap_ext_def)

lemma heap_ext_append [simp]: "heap_ext h (h @ [x])"
  by (simp add: heap_ext_def nth_append)

lemma heap_ext_update: "faded x = faded (h ! i) \<Longrightarrow> heap_ext h (h[i := x])"
  by (simp add: heap_ext_def) (metis nth_list_update_eq nth_list_update_neq)

lemma faded_mark [simp]: "faded (ctx\<lparr>sx_mark := m\<rparr>) = faded ctx"
  by (simp add: faded_def)

lemma fadedD:
  assumes "faded x = faded y"
  shows "sx_op x = sx_op y" "sx_src x = sx_src y" "sx_dst x = sx_dst y" "sx_file_type x = sx_file_type y"
    "sx_content x = sx_content y"
  using assms by (cases x, cases y, simp add: faded_def)+

lemma faded_eq: "faded x = faded y \<Longrightarrow> x = y\<lparr>sx_mark := sx_mark x\<rparr>"
  by (cases x, cases y) (simp add: faded_def)

lemma FillRequest_ctx:
  "FillRequest L s uuid sy ctx = Inr (ok, r, ctx') \<Longrightarrow> faded ctx' = faded ctx"
  by (auto simp: FillRequest_def Let_def split: if_splits option.splits prod.splits bool.splits)

lemma FillRequest_params:
  assumes "client_params sy = client_params sy'"
  shows "FillRequest L s uuid sy ctx = FillRequest L s uuid sy' ctx"
proof -
  have "y_partition_size sy = y_partition_size sy'" "y_repo_type sy = y_repo_type sy'" "y_repo_uuid sy = y_repo_uuid sy'"
    "y_user sy = y_user sy'" "y_token sy = y_token sy'" "y_hash_method sy = y_hash_method sy'"
    using assms by (simp_all add: client_params_def)
  then show ?thesis by (simp only: FillRequest_def)
qed

definition fill_result :: "client_fault + bool \<times> FileReqX \<times> SendContext \<Rightarrow> client_fault + bool \<times> FileReqX" where
  "fill_result = map_sum id (apsnd fst)"

lemma fill_result_simps [simp]: "fill_result (Inl e) = Inl e" "fill_result (Inr (ok, r, x)) = Inr (ok, r)"
  by (simp_all add: fill_result_def)

lemma FillRequest_mark:
  "fill_result (FillRequest L s uuid sy (ctx\<lparr>sx_mark := m\<rparr>)) = fill_result (FillRequest L s uuid sy ctx)"
  by (simp add: FillRequest_def Let_def if_distrib [of fill_result] option.case_distrib [of fill_result]
      prod.case_distrib [of fill_result] bool.case_distrib [of fill_result]
      cong: if_cong option.case_cong prod.case_cong bool.case_cong)

lemma request_of_iff:
  "request_of X ctx uuid = Some r \<longleftrightarrow> (\<exists>x. FillRequest (u_libs X) (u_fs X) uuid (u_sync X) ctx = Inr (True, r, x))"
  by (auto simp: request_of_def split: sum.splits prod.splits bool.splits)

lemma request_of_result:
  "request_of X ctx uuid =
     (case fill_result (FillRequest (u_libs X) (u_fs X) uuid (u_sync X) ctx) of Inr (True, r) \<Rightarrow> Some r | _ \<Rightarrow> None)"
  by (simp add: request_of_def fill_result_def split: sum.splits prod.splits bool.splits)

lemma request_of_faded: "faded x = faded y \<Longrightarrow> request_of X x uuid = request_of X y uuid"
  using faded_eq [of x y] FillRequest_mark [of "u_libs X" "u_fs X" uuid "u_sync X" "sx_mark x" y]
  by (metis request_of_result)

lemma requests_of_faded: "faded x = faded y \<Longrightarrow> requests_of X x uuid = requests_of X y uuid"
  using request_of_faded [of x y X uuid] fadedD(1,2) [of x y] by (simp only: requests_of_def)

lemma due_ext:
  assumes "heap_ext h h'" and "fst ` set ts \<subseteq> {..<length h}"
  shows "due X h' ts = due X h ts"
proof -
  have "requests_of X (h' ! i) uuid = requests_of X (h ! i) uuid" if "(i, uuid) \<in> set ts" for i uuid
    using assms that by (intro requests_of_faded) (force simp: heap_ext_def)
  then show ?thesis unfolding due_def by (intro arg_cong [where f = concat] map_cong) auto
qed

lemma due_snoc [simp]: "due X h (ts @ [(i, uuid)]) = due X h ts @ requests_of X (h ! i) uuid"
  by (simp add: due_def)

text \<open>The \<open>k\<close> first parts of the context taken last have been written, and the stream stands behind them.\<close>

definition sending :: "'b upload_case \<Rightarrow> FileClient \<Rightarrow> nat \<Rightarrow> nat \<Rightarrow> ifstream \<Rightarrow> bool" where
  "sending X c i k f \<longleftrightarrow>
     (\<exists>ts uuid r b x y. fc_taken c = ts @ [(i, uuid)] \<and> request_of X (fc_heap c ! i) uuid = Some r
        \<and> sx_op (fc_heap c ! i) \<noteq> Op_FileExists
        \<and> read_stream (u_fs X) (sx_src (fc_heap c ! i)) = Inr (if_data f, b)
        \<and> fc_req c = r\<lparr>fq_content := x, fx_partition_num := y\<rparr>
        \<and> fc_sent c = due X (fc_heap c) ts @ map (part_of r (upload_size X) (if_data f)) [0..<k]
        \<and> k \<le> n_parts (upload_size X) (if_data f)
        \<and> (if if_fail f then k = n_parts (upload_size X) (if_data f)
           else if_pos f = k * upload_size X \<and> k * upload_size X \<le> length (if_data f)))"

definition trace_inv :: "'b upload_case \<Rightarrow> FileClient \<Rightarrow> bool" where
  "trace_inv X c \<longleftrightarrow>
     (case fc_pc c of
        PcRead i k f \<Rightarrow> sending X c i k f
      | PcWrite i k f \<Rightarrow> sending X c i (Suc k) f
      | _ \<Rightarrow> fc_sent c = due X (fc_heap c) (fc_taken c)
            \<or> fc_done c \<and> leaves (fc_pc c) \<and> prefix (fc_sent c) (due X (fc_heap c) (fc_taken c)))"

lemma sending_prefix:
  assumes "sending X c i k f"
  shows "prefix (fc_sent c) (due X (fc_heap c) (fc_taken c))"
    and "k = n_parts (upload_size X) (if_data f) \<Longrightarrow> fc_sent c = due X (fc_heap c) (fc_taken c)"
proof -
  obtain ts uuid r b where t: "fc_taken c = ts @ [(i, uuid)]" and r: "request_of X (fc_heap c ! i) uuid = Some r"
    "sx_op (fc_heap c ! i) \<noteq> Op_FileExists" "read_stream (u_fs X) (sx_src (fc_heap c ! i)) = Inr (if_data f, b)"
    and s: "fc_sent c = due X (fc_heap c) ts @ map (part_of r (upload_size X) (if_data f)) [0..<k]"
    and k: "k \<le> n_parts (upload_size X) (if_data f)"
    using assms unfolding sending_def by blast
  let ?n = "n_parts (upload_size X) (if_data f)"
  have rq: "requests_of X (fc_heap c ! i) uuid = map (part_of r (upload_size X) (if_data f)) [0..<?n]"
    using r by (simp add: requests_of_def)
  have "[0..<?n] = [0..<k] @ [k..<?n]" using k upt_add_eq_append [of 0 k "?n - k"] by simp
  then show "prefix (fc_sent c) (due X (fc_heap c) (fc_taken c))" using s t rq by (simp add: prefix_def)
  show "fc_sent c = due X (fc_heap c) (fc_taken c)" if "k = ?n" using s t rq that by simp
qed

lemma n_parts_iff:
  assumes "0 < ps"
  shows "k < n_parts ps d \<longleftrightarrow> k * ps < length d"
proof -
  have "k < n_parts ps d \<longleftrightarrow> Suc k * ps \<le> length d + ps - 1"
    using assms by (simp add: n_parts_def less_eq_div_iff_mult_less_eq Suc_le_eq [symmetric])
  also have "\<dots> \<longleftrightarrow> k * ps < length d" using assms by auto
  finally show ?thesis .
qed

lemma taken_known: "heap_inv c \<Longrightarrow> fst ` set (fc_taken c) \<subseteq> {..<length (fc_heap c)}"
  by (auto simp: heap_inv_def)

lemma sending_frame:
  assumes "sending X c i k f" and "heap_inv c" and "heap_ext (fc_heap c) (fc_heap c')"
    and "fc_taken c' = fc_taken c" and "fc_sent c' = fc_sent c"
    and "fc_req c' = fc_req c"
  shows "sending X c' i k f"
proof -
  obtain ts uuid r b x' y' where t: "fc_taken c = ts @ [(i, uuid)]" and r: "request_of X (fc_heap c ! i) uuid = Some r"
    "sx_op (fc_heap c ! i) \<noteq> Op_FileExists" "read_stream (u_fs X) (sx_src (fc_heap c ! i)) = Inr (if_data f, b)"
    and q: "fc_req c = r\<lparr>fq_content := x', fx_partition_num := y'\<rparr>"
    and s: "fc_sent c = due X (fc_heap c) ts @ map (part_of r (upload_size X) (if_data f)) [0..<k]"
    and k: "k \<le> n_parts (upload_size X) (if_data f)" "if if_fail f then k = n_parts (upload_size X) (if_data f)
       else if_pos f = k * upload_size X \<and> k * upload_size X \<le> length (if_data f)"
    using assms(1) unfolding sending_def by blast
  have i: "i < length (fc_heap c)" and ts: "fst ` set ts \<subseteq> {..<length (fc_heap c)}"
    using taken_known [OF assms(2)] t by auto
  have fd: "faded (fc_heap c' ! i) = faded (fc_heap c ! i)" using i assms(3) by (simp add: heap_ext_def)
  show ?thesis
    unfolding sending_def
    by (rule exI [of _ ts], rule exI [of _ uuid], rule exI [of _ r], rule exI [of _ b], rule exI [of _ x'], rule exI [of _ y'])
      (use t r q s k assms(4-6) request_of_faded [OF fd, of X uuid] fadedD(1,2) [OF fd] due_ext [OF assms(3) ts, of X] in simp)
qed

lemma trace_inv_frame:
  assumes "trace_inv X c" and "heap_inv c" and "heap_ext (fc_heap c) (fc_heap c')" and "fc_pc c' = fc_pc c"
    and "fc_taken c' = fc_taken c" and "fc_sent c' = fc_sent c" and "fc_req c' = fc_req c" and "fc_done c \<longrightarrow> fc_done c'"
  shows "trace_inv X c'"
proof -
  note sf = sending_frame [OF _ assms(2,3,5,6) assms(7)]
  note de = due_ext [OF assms(3) taken_known [OF assms(2)], of X]
  show ?thesis
    using assms(1,4-8) sf de by (cases "fc_pc c") (auto simp: trace_inv_def)
qed

lemma trace_inv_start: "FC_new (u_sync X) = Inr c \<Longrightarrow> trace_inv X (FC_Start c)"
  by (auto simp: trace_inv_def due_def FC_new_def client_defs split: if_splits)

lemma on_answer_ext: "on_answer res c = Inr c1 \<Longrightarrow> heap_ext (fc_heap c) (fc_heap c1)"
  by (cases rule: on_answer_cases [of res c c1]) (auto simp: FC_Put_def intro: heap_ext_update)

lemma trace_inv_other:
  assumes "trace_inv X c" and "heap_inv c" and "\<not> is_send e" and "client_do X e c = Some c'"
  shows "trace_inv X c'"
proof (cases e)
  case EvRead
  then have "read_step c = Inr c'" using assms by (auto simp: ok_result_def split: sum.splits)
  then show ?thesis
  proof (cases rule: read_step_cases)
    case (3 res c1)
    show ?thesis
      by (rule trace_inv_frame [OF assms(1,2)])
        (use on_answer_ext [OF 3(3)] in \<open>simp_all add: 3(4) on_answer_frame [OF 3(3)]\<close>)
  qed (use assms(1,2) in \<open>auto intro: trace_inv_frame\<close>)
next
  case (EvSend u)
  then show ?thesis using assms(3) by (simp add: is_send_def)
next
  case (EvWritten ok)
  then show ?thesis
    using assms by (intro trace_inv_frame [OF assms(1,2)]) (auto simp: OnWriteDone_def Let_def split: if_splits)
next
  case EvPrint
  then show ?thesis
    using assms by (intro trace_inv_frame [OF assms(1,2)]) (auto simp: Print_step_def split: if_splits print_pc.splits)
qed (use assms in \<open>auto simp: client_defs intro!: trace_inv_frame [OF assms(1,2)] split: if_splits\<close>)

text \<open>One read of the first pass: a part, or the end of the file.\<close>

lemma read_part:
  assumes "0 < ps" and "\<not> if_fail f" and "if_pos f = k * ps" and "k * ps \<le> length (if_data f)"
    and "ifstream_read ps f = (good, got, f1)"
  shows "if_data f1 = if_data f"
    and "k < n_parts ps (if_data f) \<Longrightarrow> got = part_data ps (if_data f) k \<and> got \<noteq> []
      \<and> (if if_fail f1 then Suc k = n_parts ps (if_data f)
         else if_pos f1 = Suc k * ps \<and> Suc k * ps \<le> length (if_data f))"
    and "\<not> k < n_parts ps (if_data f) \<Longrightarrow> got = [] \<and> \<not> good"
proof -
  let ?d = "if_data f" let ?g = "part_data ps (if_data f) k"
  have eq: "got = ?g" "good = (\<not> length ?g < ps)" "f1 = f\<lparr>if_pos := k * ps + length ?g, if_fail := length ?g < ps\<rparr>"
    using assms(2,3,5) by (auto simp: ifstream_read_def Let_def part_data_def Prelude.slice_def)
  show "if_data f1 = ?d" by (simp add: eq(3))
  have len: "length ?g = min ps (length ?d - k * ps)" by (simp add: part_data_def length_slice)
  {
    assume "k < n_parts ps ?d"
    then have lt: "k * ps < length ?d" using assms(1) by (simp add: n_parts_iff)
    then have "got \<noteq> []" using len eq(1) assms(1) by auto
    moreover have "Suc k = n_parts ps ?d" if "length ?g < ps"
    proof -
      have "\<not> Suc k * ps < length ?d" using that len by auto
      then show ?thesis
        using n_parts_iff [OF assms(1), of k ?d] n_parts_iff [OF assms(1), of "Suc k" ?d] lt by linarith
    qed
    moreover have "k * ps + length ?g = Suc k * ps \<and> Suc k * ps \<le> length ?d" if "\<not> length ?g < ps" using that len lt by auto
    ultimately show "got = ?g \<and> got \<noteq> [] \<and> (if if_fail f1 then Suc k = n_parts ps ?d
         else if_pos f1 = Suc k * ps \<and> Suc k * ps \<le> length ?d)" using eq by simp
  next
    assume "\<not> k < n_parts ps ?d"
    then have "\<not> k * ps < length ?d" using assms(1) by (simp add: n_parts_iff)
    then show "got = [] \<and> \<not> good" using len eq(1,2) assms(1) by auto
  }
qed

lemma trace_inv_read:
  assumes "sending X c i k f" and "heap_inv c" and "uploader_inv X c" and "0 < upload_size X"
    and "send_read i k f c = Inr c'"
  shows "trace_inv X c'"
proof -
  let ?ps = "upload_size X"
  obtain ts uuid r b x y where t: "fc_taken c = ts @ [(i, uuid)]" and r: "request_of X (fc_heap c ! i) uuid = Some r"
    "sx_op (fc_heap c ! i) \<noteq> Op_FileExists" "read_stream (u_fs X) (sx_src (fc_heap c ! i)) = Inr (if_data f, b)"
    and q: "fc_req c = r\<lparr>fq_content := x, fx_partition_num := y\<rparr>"
    and s: "fc_sent c = due X (fc_heap c) ts @ map (part_of r ?ps (if_data f)) [0..<k]"
    and k: "k \<le> n_parts ?ps (if_data f)" "if if_fail f then k = n_parts ?ps (if_data f)
       else if_pos f = k * ?ps \<and> k * ?ps \<le> length (if_data f)"
    using assms(1) unfolding sending_def by blast
  have size: "nat (y_partition_size (fc_sync c)) = ?ps"
    using assms(3) same_sync_size [of X c] by (simp add: uploader_inv_def upload_size_def)
  obtain good got f1 where rd: "ifstream_read ?ps f = (good, got, f1)" by (cases "ifstream_read ?ps f") auto
  show ?thesis
  proof (cases "k < n_parts ?ps (if_data f)")
    case False
    then have full: "k = n_parts ?ps (if_data f)" using k(1) by simp
    have "got = [] \<and> \<not> good"
      using read_part(3) [OF assms(4) _ _ _ rd] k(2) False rd by (cases "if_fail f") (auto simp: ifstream_read_def)
    then have "c' = goto_pc (PcStatus i f1) c" using assms(5) rd size by (simp add: send_read_def)
    then show ?thesis using sending_prefix(2) [OF assms(1) full] by (simp add: trace_inv_def goto_pc_def)
  next
    case True
    then have nf: "\<not> if_fail f" and pos: "if_pos f = k * ?ps" "k * ?ps \<le> length (if_data f)" using k(2) by (auto split: if_splits)
    note rp = read_part(1,2) [OF assms(4) nf pos rd]
    have got: "got = part_data ?ps (if_data f) k" "got \<noteq> []" using rp(2) True by auto
    have "BatchSend k got (goto_pc (PcWrite i k f1) c) = Inr c'" using assms(5) rd size got(2) by (simp add: send_read_def)
    then have c': "c' = (goto_pc (PcWrite i k f1) c)\<lparr>fc_req := part_of r ?ps (if_data f) k, fc_write_done := False,
        fc_writing := Some (part_of r ?ps (if_data f) k), fc_sent := fc_sent c @ [part_of r ?ps (if_data f) k]\<rparr>"
      by (auto simp: BatchSend_def start_write_def goto_pc_def part_of_def q got(1) split: if_splits)
    have "sending X c' i (Suc k) f1"
      unfolding sending_def rp(1)
      by (rule exI [of _ ts], rule exI [of _ uuid], rule exI [of _ r], rule exI [of _ b],
          rule exI [of _ "part_data ?ps (if_data f) k"], rule exI [of _ "int k"])
        (use t r s rp(2) [OF True] True in \<open>simp add: c' goto_pc_def part_of_def split: if_splits\<close>)
    then show ?thesis by (simp add: trace_inv_def c' goto_pc_def)
  qed
qed

lemma trace_inv_move:
  assumes "fc_sent c = due X (fc_heap c) (fc_taken c)" and "fc_sent c' = fc_sent c" and "fc_heap c' = fc_heap c"
    and "fc_taken c' = fc_taken c" and "\<And>i k f. fc_pc c' \<noteq> PcRead i k f" and "\<And>i k f. fc_pc c' \<noteq> PcWrite i k f"
  shows "trace_inv X c'"
  using assms by (simp add: trace_inv_def split: send_pc.splits)

lemma trace_inv_due:
  assumes "trace_inv X c" and "\<not> leaves (fc_pc c) \<or> \<not> fc_done c" and "\<And>i k f. fc_pc c \<noteq> PcRead i k f" and "\<And>i k f. fc_pc c \<noteq> PcWrite i k f"
  shows "fc_sent c = due X (fc_heap c) (fc_taken c)"
  using assms by (auto simp: trace_inv_def split: send_pc.splits)

lemma trace_inv_fill:
  assumes "trace_inv X c" and "heap_inv c" and "uploader_inv X c" and "fc_pc c = PcFill i"
    and "send_fill (u_libs X) (u_fs X) uuid i c = Inr c'"
  shows "trace_inv X c'"
proof -
  have sent: "fc_sent c = due X (fc_heap c) (fc_taken c)" using assms(1,4) by (intro trace_inv_due) auto
  have i: "i < length (fc_heap c)" using assms(2,4) by (auto simp: heap_inv_def)
  have fill: "FillRequest (u_libs X) (u_fs X) uuid (fc_sync c) ctx = FillRequest (u_libs X) (u_fs X) uuid (u_sync X) ctx" for ctx
    using assms(3) by (intro FillRequest_params) (simp add: uploader_inv_def same_sync_def)
  have heap: "due X ((fc_heap c)[i := ctx]) (fc_taken c) = due X (fc_heap c) (fc_taken c)"
    if "faded ctx = faded (fc_heap c ! i)" for ctx
    using that taken_known [OF assms(2)] by (intro due_ext heap_ext_update)
  from assms(5) show ?thesis
  proof (cases rule: send_fill_cases)
    case (1 r ctx)
    note fd = FillRequest_ctx [OF 1(2)]
    have "requests_of X (fc_heap c ! i) uuid = []" using 1(2) fill by (simp add: requests_of_def request_of_def)
    then have "requests_of X ctx uuid = []" by (simp only: requests_of_faded [OF fd])
    then show ?thesis using sent heap [OF fd] i by (simp add: 1(3) trace_inv_def goto_pc_def)
  next
    case (2 r ctx c1)
    note fd = FillRequest_ctx [OF 2(2)]
    have "requests_of X (fc_heap c ! i) uuid = [r]"
      using 2(2,3) fill fadedD(1) [OF fd] by (simp add: requests_of_def request_of_def)
    then have "requests_of X ctx uuid = [r]" by (simp only: requests_of_faded [OF fd])
    moreover have "fc_sent c' = fc_sent c @ [r]" "fc_heap c' = (fc_heap c)[i := ctx]" "fc_taken c' = fc_taken c @ [(i, uuid)]"
      "fc_pc c' = PcAsk"
      using 2(4,5) by (auto simp: start_write_def goto_pc_def split: if_splits)
    ultimately show ?thesis using sent heap [OF fd] i by (simp add: trace_inv_def)
  next
    case (3 r ctx e)
    note fd = FillRequest_ctx [OF 3(2)]
    have "requests_of X ctx uuid = []" using 3(3,4) by (simp add: requests_of_def split: option.splits)
    then show ?thesis using sent heap [OF fd] i by (simp add: 3(5) trace_inv_def goto_pc_def)
  next
    case (4 r ctx d b)
    note fd = FillRequest_ctx [OF 4(2)]
    have "request_of X (fc_heap c ! i) uuid = Some r" using 4(2) fill by (simp add: request_of_iff)
    then have "request_of X ctx uuid = Some r" by (simp only: request_of_faded [OF fd])
    then have "sending X c' i 0 \<lparr>if_data = d, if_pos = 0, if_fail = False\<rparr>"
      unfolding sending_def
      by (intro exI [of _ "fc_taken c"] exI [of _ uuid] exI [of _ r] exI [of _ b] exI [of _ "fq_content r"] exI [of _ "fx_partition_num r"])
        (use sent heap [OF fd] i in \<open>simp add: 4(3,4,5) goto_pc_def\<close>)
    then show ?thesis by (simp add: 4(5) trace_inv_def goto_pc_def)
  qed
qed

lemma trace_inv_send:
  assumes "trace_inv X c" and "heap_inv c" and "uploader_inv X c" and "0 < upload_size X"
    and "Send_step (u_libs X) (u_fs X) uuid c = Inr c'"
  shows "trace_inv X c'"
proof (cases "fc_pc c")
  case (PcFill i)
  then have "send_fill (u_libs X) (u_fs X) uuid i c = Inr c'" using assms(5) by (simp add: Send_step_def)
  then show ?thesis using trace_inv_fill [OF assms(1-3) PcFill] by blast
next
  case (PcRead i k f)
  then have "sending X c i k f" "send_read i k f c = Inr c'" using assms(1,5) by (simp_all add: Send_step_def trace_inv_def)
  then show ?thesis using trace_inv_read assms(2-4) by blast
next
  case (PcWrite i k f)
  then have s: "sending X c i (Suc k) f" using assms(1) by (simp add: trace_inv_def)
  have "sending X (goto_pc p c) i (Suc k) f" for p
    by (rule sending_frame [OF s assms(2)]) (simp_all add: goto_pc_def)
  moreover have "trace_inv X (goto_pc (PcStatus i f) c)" if "fc_done c"
    using that sending_prefix(1) [OF s] by (simp add: trace_inv_def goto_pc_def)
  ultimately show ?thesis
    using PcWrite assms(1,5) by (auto simp: Send_step_def trace_inv_def split: if_splits)
next
  case (PcResend i k f st)
  then have "if_fail f" and sent: "fc_sent c = due X (fc_heap c) (fc_taken c)"
    using assms(1,3) by (auto simp: uploader_inv_def intro: trace_inv_due)
  then obtain p where "c' = goto_pc p c" "p = PcResend i (k + 1) f st \<or> p = PcStatus i f \<or> p = PcEnd i st"
    using PcResend assms(5) by (auto simp: Send_step_def send_resend_def ifstream_read_failed Let_def split: if_splits)
  then show ?thesis using sent by (auto simp: trace_inv_def goto_pc_def)
next
  case (PcStatus i f)
  then show ?thesis using assms(1,5) by (auto simp: Send_step_def trace_inv_def goto_pc_def Let_def)
next
  case (PcEnd i st)
  then show ?thesis using assms(1,5) by (auto simp: Send_step_def trace_inv_def goto_pc_def count_file_def)
next
  case PcTop
  then show ?thesis using assms(1,5) by (auto simp: Send_step_def trace_inv_def goto_pc_def stop_send_def)
next
  case PcStopped
  then show ?thesis using assms(1,5) by (simp add: Send_step_def)
next
  case (PcRewait i k f st)
  then show ?thesis using assms(3) by (simp add: uploader_inv_def)
qed (use assms(5) trace_inv_due [OF assms(1)] in \<open>auto simp: Send_step_def send_defs intro!: trace_inv_move [of c]
      split: if_splits option.splits\<close>)

text \<open>The stream is closed only after everything has been written.\<close>

definition close_inv :: "'b upload_case \<Rightarrow> FileClient \<Rightarrow> bool" where
  "close_inv X c \<longleftrightarrow>
     (fc_writes_done c \<longrightarrow> fc_pc c = PcStopped \<and> fc_sent c = due X (fc_heap c) (fc_taken c))"

lemma close_inv_start: "FC_new (u_sync X) = Inr c \<Longrightarrow> close_inv X (FC_Start c)"
  by (auto simp: close_inv_def FC_new_def client_defs split: if_splits)

lemma close_inv_other:
  assumes "close_inv X c" and "heap_inv c" and "\<not> is_send e" and "client_do X e c = Some c'"
  shows "close_inv X c'"
proof -
  have "fc_writes_done c' = fc_writes_done c \<and> fc_pc c' = fc_pc c \<and> fc_sent c' = fc_sent c \<and> fc_taken c' = fc_taken c
      \<and> heap_ext (fc_heap c) (fc_heap c')"
  proof (cases e)
    case EvRead
    then have "read_step c = Inr c'" using assms by (auto simp: ok_result_def split: sum.splits)
    then show ?thesis
      by (cases rule: read_step_cases) (auto simp: on_answer_frame dest: on_answer_ext)
  next
    case (EvSend u)
    then show ?thesis using assms(3) by (simp add: is_send_def)
  qed (use assms(4) in \<open>auto simp: client_defs split: if_splits print_pc.splits\<close>)
  then show ?thesis using assms(1) due_ext [OF _ taken_known [OF assms(2)], of "fc_heap c'" X] by (simp add: close_inv_def)
qed

lemma send_writes_done:
  assumes "Send_step L s uuid c = Inr c'" and "fc_pc c \<noteq> PcSize"
  shows "fc_writes_done c' = fc_writes_done c"
proof (cases "fc_pc c")
  case (PcFill i)
  then show ?thesis using assms(1) send_fill_effect [of L s uuid i c c'] by (auto simp: Send_step_def starts_write_def)
next
  case (PcRead i k f)
  then show ?thesis using assms(1) send_read_effect [of i k f c c'] by (auto simp: Send_step_def starts_write_def)
next
  case (PcResend i k f st)
  then show ?thesis
    using assms(1) by (auto simp: Send_step_def send_resend_def send_defs Let_def split: if_splits prod.splits)
qed (use assms in \<open>auto simp: Send_step_def send_defs Let_def split: if_splits option.splits\<close>)

lemma close_inv_send:
  assumes "close_inv X c" and "trace_inv X c" and "Send_step L s uuid c = Inr c'"
  shows "close_inv X c'"
proof (cases "fc_pc c = PcSize")
  case True
  then have "fc_sent c = due X (fc_heap c) (fc_taken c)" using trace_inv_due [OF assms(2)] by auto
  then show ?thesis using True assms(1,3) by (auto simp: Send_step_def close_inv_def send_defs split: if_splits)
next
  case False
  show ?thesis
  proof (cases "fc_writes_done c")
    case True
    then show ?thesis using assms(1,3) by (simp add: close_inv_def Send_step_def)
  next
    case notyet: False
    then show ?thesis using send_writes_done [OF assms(3) False] by (simp add: close_inv_def)
  qed
qed

interpretation upload_trace: client_invariant X
  "\<lambda>c. uploader_inv X c \<and> heap_inv c \<and> (0 < upload_size X \<longrightarrow> trace_inv X c \<and> close_inv X c)" for X :: "'b upload_case"
proof unfold_locales
  fix c assume "FC_new (u_sync X) = Inr c"
  then show "uploader_inv X (FC_Start c) \<and> heap_inv (FC_Start c) \<and> (0 < upload_size X \<longrightarrow> trace_inv X (FC_Start c) \<and> close_inv X (FC_Start c))"
    using uploader_inv_start heap_inv_start trace_inv_start close_inv_start by blast
next
  fix c uuid c'
  assume "uploader_inv X c \<and> heap_inv c \<and> (0 < upload_size X \<longrightarrow> trace_inv X c \<and> close_inv X c)"
    "Send_step (u_libs X) (u_fs X) uuid c = Inr c'"
  then show "uploader_inv X c' \<and> heap_inv c' \<and> (0 < upload_size X \<longrightarrow> trace_inv X c' \<and> close_inv X c')"
    using uploader_inv_send heap_inv_send trace_inv_send close_inv_send by blast
next
  fix c e c'
  assume "uploader_inv X c \<and> heap_inv c \<and> (0 < upload_size X \<longrightarrow> trace_inv X c \<and> close_inv X c)"
    "\<not> is_send e" "client_do X e c = Some c'"
  then show "uploader_inv X c' \<and> heap_inv c' \<and> (0 < upload_size X \<longrightarrow> trace_inv X c' \<and> close_inv X c')"
    using uploader_inv_other heap_inv_other trace_inv_other close_inv_other by blast
qed

lemma send_fault:
  assumes "uploader_inv X c" and "Send_step L s uuid c = Inl e"
  shows "(e = DivisionByZero \<or> e = LengthError) \<and> (\<exists>i. fc_pc c = PcFill i)"
proof (cases "fc_pc c")
  case (PcFill i)
  then have w: "fc_writing c = None" using assms(1) by (intro send_ready) auto
  have "FillRequest L s uuid (fc_sync c) (fc_heap c ! i) = Inl e"
    using PcFill w assms(2)
    by (auto simp: Send_step_def send_fill_def start_write_def goto_pc_def count_file_def Let_def
        split: sum.splits if_splits prod.splits option.splits)
  then show ?thesis using PcFill
    by (auto simp: FillRequest_def Let_def split: if_splits option.splits prod.splits bool.splits)
next
  case (PcRead i k f)
  then have "fc_writing c = None" using assms(1) by (intro send_ready) auto
  then show ?thesis
    using PcRead assms(2)
    by (auto simp: Send_step_def send_read_def BatchSend_def start_write_def goto_pc_def split: prod.splits if_splits)
next
  case (PcResend i k f st)
  then have "if_fail f" "0 \<le> y_partition_size (fc_sync c)" using assms(1) same_sync_size [of X c] by (auto simp: uploader_inv_def)
  then show ?thesis
    using PcResend assms(2) by (auto simp: Send_step_def send_resend_def ifstream_read_failed Let_def split: if_splits)
next
  case PcSize
  then have "fc_writing c = None" using assms(1) by (intro send_ready) auto
  then show ?thesis using PcSize assms(2) by (simp add: Send_step_def split: if_splits)
qed (use assms(2) in \<open>auto simp: Send_step_def Let_def\<close>)

lemma send_busy:
  assumes "uploader_inv X c" and "Send_step L s uuid c = Inr c'" and "fc_writing c = Some r"
  shows "fc_req c' = r \<and> length (fc_sent c') = length (fc_sent c) \<and> fc_writes_done c' = fc_writes_done c"
proof -
  have r: "r = fc_req c" "\<not> fc_write_done c" and pc: "waits (fc_pc c) \<or> fc_done c \<and> leaves (fc_pc c)"
    using assms(1,3) by (auto simp: uploader_inv_def)
  from pc r assms(2) show ?thesis
    by (cases "fc_pc c") (auto simp: Send_step_def send_defs Let_def split: if_splits)
qed

lemma sent_prefix:
  assumes "client_reach X c" and "0 < upload_size X"
  shows "prefix (fc_sent c) (due X (fc_heap c) (fc_taken c))"
proof -
  have "trace_inv X c" using upload_trace.always [OF assms(1)] assms(2) by blast
  then show ?thesis using sending_prefix(1) by (fastforce simp: trace_inv_def split: send_pc.splits)
qed

lemma sent_request:
  assumes "client_reach X c" and "0 < upload_size X" and "req \<in> set (fc_sent c)"
  obtains i uuid r ctx where "i < length (fc_heap c)"
    "FillRequest (u_libs X) (u_fs X) uuid (u_sync X) (fc_heap c ! i) = Inr (True, r, ctx)"
    "req = r \<and> sx_op (fc_heap c ! i) = Op_FileExists
     \<or> sx_op (fc_heap c ! i) \<noteq> Op_FileExists
       \<and> (\<exists>d k. req = part_of r (upload_size X) d k \<and> k < n_parts (upload_size X) d)"
proof -
  have "req \<in> set (due X (fc_heap c) (fc_taken c))"
    using set_mono_prefix [OF sent_prefix [OF assms(1,2)]] assms(3) by blast
  then obtain i uuid where i: "(i, uuid) \<in> set (fc_taken c)" "req \<in> set (requests_of X (fc_heap c ! i) uuid)"
    by (auto simp: due_def)
  have "i < length (fc_heap c)" using taken_known [OF upload_heap.always [OF assms(1)]] i(1) by auto
  moreover obtain r ctx where "FillRequest (u_libs X) (u_fs X) uuid (u_sync X) (fc_heap c ! i) = Inr (True, r, ctx)"
    and "request_of X (fc_heap c ! i) uuid = Some r"
    using i(2) by (cases "request_of X (fc_heap c ! i) uuid") (auto simp: requests_of_def request_of_iff)
  moreover have "req = r \<and> sx_op (fc_heap c ! i) = Op_FileExists
     \<or> sx_op (fc_heap c ! i) \<noteq> Op_FileExists
       \<and> (\<exists>d k. req = part_of r (upload_size X) d k \<and> k < n_parts (upload_size X) d)"
    using i(2) \<open>request_of X (fc_heap c ! i) uuid = Some r\<close>
    by (simp add: requests_of_def split: if_splits sum.splits prod.splits) (metis atLeastLessThan_iff imageE)
  ultimately show thesis using that by blast
qed

lemma upload_closed:
  assumes "client_reach X c" and "fc_writes_done c" and "0 < upload_size X"
  shows "fc_sent c = due X (fc_heap c) (fc_taken c)" and "fst ` set (fc_taken c) = {..<length (fc_heap c)}" and "quiet c"
proof -
  have q: "quiet c" "fc_queue c = []" "fc_pc c = PcStopped"
    using upload_count.always [OF assms(1)] assms(2) by (auto simp: count_inv_def)
  show "fst ` set (fc_taken c) = {..<length (fc_heap c)}"
    using upload_heap.always [OF assms(1)] q(2,3) by (simp add: heap_inv_def)
  show "fc_sent c = due X (fc_heap c) (fc_taken c)" "quiet c" using upload_trace.always [OF assms(1)] assms q by (auto simp: close_inv_def)
qed

section \<open>Properties\<close>

text \<open>
  C7: In every schedule the upload client keeps the rules of its gRPC stream: \<^verbatim>\<open>Send\<close> never starts a
  write, or closes the stream, while a write is under way, and it does not touch the message that is
  being written; it never reads past its buffer.  A step of \<^verbatim>\<open>Send\<close> can only fail in \<^verbatim>\<open>FillRequest\<close>,
  at a partition size of zero or at a file with an impossible number of parts.
\<close>

theorem upload_stream_rules:
  assumes "client_reach X c"
  shows "case Send_step (u_libs X) (u_fs X) uuid c of
      Inl e \<Rightarrow> (e = DivisionByZero \<or> e = LengthError) \<and> (\<exists>i. fc_pc c = PcFill i)
    | Inr c' \<Rightarrow> (\<forall>r. fc_writing c = Some r \<longrightarrow> fc_req c' = r \<and> length (fc_sent c') = length (fc_sent c)
        \<and> fc_writes_done c' = fc_writes_done c)"
proof (cases "Send_step (u_libs X) (u_fs X) uuid c")
  case (Inl e)
  then show ?thesis using send_fault upload_stream.always [OF assms] by fastforce
next
  case (Inr c')
  then show ?thesis using send_busy upload_stream.always [OF assms] by fastforce
qed

text \<open>
  C4: What the upload client has written at any moment is, in order, a beginning of what the
  contexts it took from its queue call for: an inquiry, or the parts of the file one by one, each
  once.  When it closes the stream, every context ever put has been taken exactly once, all its
  requests have been written, and every request that reached the server has been answered and its
  answer dealt with.
\<close>

theorem upload_complete:
  assumes "client_reach X c" and "0 < y_partition_size (u_sync X)"
  shows "prefix (fc_sent c) (due X (fc_heap c) (fc_taken c)) \<and> distinct (map fst (fc_taken c))
    \<and> (fc_writes_done c \<longrightarrow>
         fc_sent c = due X (fc_heap c) (fc_taken c) \<and> fst ` set (fc_taken c) = {..<length (fc_heap c)}
         \<and> length (fc_answers c) + fc_failed c = length (fc_sent c) \<and> fc_counted c = length (fc_answers c))"
proof -
  have h: "heap_inv c" by (rule upload_heap.always [OF assms(1)])
  have "prefix (fc_sent c) (due X (fc_heap c) (fc_taken c))" using sent_prefix [OF assms(1)] assms(2) by (simp add: upload_size_def)
  moreover have "fc_sent c = due X (fc_heap c) (fc_taken c) \<and> fst ` set (fc_taken c) = {..<length (fc_heap c)}
         \<and> length (fc_answers c) + fc_failed c = length (fc_sent c) \<and> fc_counted c = length (fc_answers c)"
    if "fc_writes_done c"
    using upload_closed [OF assms(1) that] assms(2) h by (auto simp: heap_inv_def quiet_def upload_size_def)
  ultimately show ?thesis using h by (simp add: heap_inv_def)
qed

section \<open>A run\<close>

text \<open>A file of three bytes, cut into parts of two, is sent; the server accepts both.\<close>

definition demo_upload_ctx :: SyncContext where
  "demo_upload_ctx =
     \<lparr>y_remote_addr = ''h'', y_remote_port = ''1'', y_max_threads = 4, y_partition_size = 2, y_repo_type = RT_Remote,
      y_hash_method = Hash_NONE, y_sync_method = Sync_SYNC, y_disable_scan_cache = False, y_skip_scan = False,
      y_ignored_dirs = [], y_user = '''', y_token = '''', y_repo_uuid = '''', y_src = ''/a'', y_dst = ''/b'',
      y_stop_progress_task = False, y_total_dir_cnt = 0, y_total_file_cnt = 0, y_syncd_dir_success_cnt = 0,
      y_syncd_dir_fail_cnt = 0, y_syncd_dir_skipped_cnt = 0, y_syncd_file_success_cnt = 0, y_syncd_file_fail_cnt = 0,
      y_syncd_file_skipped_cnt = 0, y_sync_failed_files = [], y_err_code = 0, y_dir_queue = [], y_scan_ctx = None\<rparr>"

definition demo_upload :: "bytes upload_case" where
  "demo_upload =
     \<lparr>u_libs = \<lparr>cl_b3 = b3_buffer (\<lambda>x. x), cl_fmt = hex_pad, cl_db = \<lparr>pw_name = \<lambda>_. None, gr_name = \<lambda>_. None\<rparr>,
        cl_attr = \<lparr>fa_path = '''', fa_file_hash = '''', fa_enc_file_hash = '''', fa_file_size = 0, fa_partition_num = 0,
          fa_update_time = 0, fa_user = '''', fa_group = ''''\<rparr>\<rparr>,
      u_fs = demo_fs, u_sync = demo_upload_ctx, u_puts = \<lambda>_. True\<rparr>"

definition demo_put :: SendContext where
  "demo_put = SendContext_new\<lparr>sx_src := ''/a/f'', sx_dst := ''/b/f'', sx_file_type := FT_Regular, sx_op := Op_FilePut\<rparr>"

definition demo_answer :: "int \<Rightarrow> int \<Rightarrow> FileResX" where
  "demo_answer k code =
     FileResX_default\<lparr>fs_op := Op_FilePut, fs_request_id := ''u'', fr_dst := ''/b/f'', fr_partition_num := k,
       fr_res_type := FT_Regular, fs_err_code := code\<rparr>"

text \<open>The file is opened and both parts are written, then the answers to them arrive.\<close>

definition demo_first_pass :: "upload_event list" where
  "demo_first_pass =
     [EvPut demo_put, EvComplete, EvSend ''u'', EvSend ''u'', EvSend ''u'', EvSend ''u'', EvSend ''v'', EvWritten True,
      EvSend ''v'', EvSend ''v'', EvWritten True, EvSend ''v'', EvSend ''v'']"

definition demo_answers :: "int \<Rightarrow> upload_event list" where
  "demo_answers code =
     [EvAnswer (demo_answer 0 code), EvRead, EvRead, EvAnswer (demo_answer 1 0), EvRead, EvRead]"

definition demo_uploader :: FileClient where
  "demo_uploader = (case FC_new demo_upload_ctx of Inr c \<Rightarrow> FC_Start c)"

definition demo_run :: "int \<Rightarrow> nat \<Rightarrow> FileClient" where
  "demo_run code n =
     (case client_run demo_upload (demo_first_pass @ demo_answers code @ replicate n (EvSend ''v'')) demo_uploader of Some c \<Rightarrow> c)"

lemma demo_start: "client_reach demo_upload demo_uploader"
proof -
  obtain c where "FC_new demo_upload_ctx = Inr c" "demo_uploader = FC_Start c"
    by (simp add: FC_new_def demo_uploader_def demo_upload_ctx_def)
  then show ?thesis using client_reach.start [of demo_upload c] by (simp add: demo_upload_def)
qed

lemma demo_run_reach:
  assumes "client_run demo_upload (demo_first_pass @ demo_answers code @ replicate n (EvSend ''v'')) demo_uploader \<noteq> None"
  shows "client_reach demo_upload (demo_run code n)"
  using assms client_reach_run [OF demo_start] by (auto simp: demo_run_def)

lemma demo_complete:
  "client_run demo_upload (demo_first_pass @ demo_answers 0 @ replicate 10 (EvSend ''v'')) demo_uploader \<noteq> None"
  "fc_writes_done (demo_run 0 10)" "map fq_content (fc_sent (demo_run 0 10)) = [''ol'', ''d'']"
  by code_simp+

theorem upload_complete_witness:
  "fc_writes_done (demo_run 0 10) \<and> map fq_content (fc_sent (demo_run 0 10)) = [''ol'', ''d'']
   \<and> fc_sent (demo_run 0 10) = due demo_upload (fc_heap (demo_run 0 10)) (fc_taken (demo_run 0 10))"
  using upload_complete [OF demo_run_reach [OF demo_complete(1)]] demo_complete(2,3)
  by (simp add: demo_upload_def demo_upload_ctx_def)

theorem upload_stream_rules_witness:
  "fc_pc (demo_run 0 0) = PcStatus 0 \<lparr>if_data = ''old'', if_pos = 3, if_fail = True\<rparr>
   \<and> (case Send_step (u_libs demo_upload) (u_fs demo_upload) ''w'' (demo_run 0 0) of
        Inl e \<Rightarrow> e = DivisionByZero \<or> e = LengthError | Inr c' \<Rightarrow> True)"
proof -
  have r: "client_reach demo_upload (demo_run 0 0)" by (rule demo_run_reach) code_simp
  have "fc_pc (demo_run 0 0) = PcStatus 0 \<lparr>if_data = ''old'', if_pos = 3, if_fail = True\<rparr>" by code_simp
  then show ?thesis using upload_stream_rules [OF r, of "''w''"] by (simp split: sum.splits)
qed

section \<open>A refused part\<close>

text \<open>\<^verbatim>\<open>Send\<close> is in its loop over refused parts.\<close>

fun retries :: "nat \<Rightarrow> send_pc \<Rightarrow> bool" where
  "retries i (PcStatus j f) \<longleftrightarrow> j = i \<and> if_fail f"
| "retries i (PcResend j k f st) \<longleftrightarrow> j = i \<and> if_fail f \<and> st = SS_RETRING"
| "retries i _ \<longleftrightarrow> False"

definition hung :: "nat \<Rightarrow> FileClient \<Rightarrow> bool" where
  "hung i c \<longleftrightarrow>
     retries i (fc_pc c) \<and> GetStatus (fc_heap c ! i) = SS_RETRING \<and> quiet c \<and> \<not> fc_done c \<and> i < length (fc_heap c)"

text \<open>What \<^verbatim>\<open>Send\<close> has done so far.\<close>

definition work_done :: "FileClient \<Rightarrow> FileReqX list \<times> (nat \<times> string) list \<times> bool" where
  "work_done c = (fc_sent c, fc_taken c, fc_writes_done c)"

lemma hung_send:
  assumes "hung i c" and "Send_step L s uuid c = Inr c'"
  shows "hung i c' \<and> work_done c' = work_done c"
proof -
  have r: "retries i (fc_pc c)" and st: "GetStatus (fc_heap c ! i) = SS_RETRING" and nd: "\<not> fc_done c"
    using assms(1) by (auto simp: hung_def)
  obtain p where p: "c' = goto_pc p c" "retries i p"
  proof (cases "fc_pc c")
    case (PcStatus j f)
    then show thesis using r st nd assms(2) that by (auto simp: Send_step_def Let_def)
  next
    case (PcResend j k f q)
    then show thesis
      using r assms(2) that
      by (auto simp: Send_step_def send_resend_def ifstream_read_failed Let_def split: if_splits)
  qed (use r in auto)
  have "quiet c' = quiet c" by (rule quiet_tally) (simp add: p(1))
  then show ?thesis using p assms(1) by (simp add: hung_def work_done_def goto_pc_def)
qed

lemma hung_frame:
  assumes "hung i c" and "fc_pc c' = fc_pc c" and "tally c' = tally c" and "fc_heap c' ! i = fc_heap c ! i"
    and "length (fc_heap c) \<le> length (fc_heap c')"
  shows "fc_done c' \<or> hung i c'"
  using assms quiet_tally [OF assms(3)] by (auto simp: hung_def)

lemma hung_other:
  assumes "hung i c" and "\<not> is_send e" and "client_do X e c = Some c'"
  shows "(fc_done c' \<or> hung i c') \<and> work_done c' = work_done c"
proof -
  have q: "quiet c" and i: "i < length (fc_heap c)" using assms(1) by (auto simp: hung_def)
  show ?thesis
  proof (cases e)
    case EvRead
    then have "c' = c" using q assms(3) by (auto simp: quiet_def ok_result_def read_step_def)
    then show ?thesis using assms(1) by simp
  next
    case (EvWritten ok)
    then show ?thesis using q assms(3) by (auto simp: quiet_def)
  next
    case (EvAnswer res)
    then show ?thesis using q assms(3) by (auto simp: quiet_def)
  next
    case EvReadError
    then have "c' = c\<lparr>fc_reader := RdEnd\<rparr>" using assms(3) by (auto simp: OnReadDone_def split: if_splits)
    then show ?thesis using assms(1) by (auto simp: hung_def quiet_def work_done_def)
  next
    case (EvSend u)
    then show ?thesis using assms(2) by (simp add: is_send_def)
  next
    case (EvPut ctx)
    then have "c' = FC_Put ctx c" using assms(3) by (auto split: if_splits)
    then show ?thesis
      using hung_frame [OF assms(1), of c'] i by (simp add: FC_Put_def tally_def work_done_def nth_append)
  next
    case EvPrint
    then have "c' = Print_step c" using assms(3) by simp
    then show ?thesis
      using hung_frame [OF assms(1), of c'] by (auto simp: Print_step_def tally_def work_done_def split: print_pc.splits)
  qed (use assms(3) hung_frame [OF assms(1), of c'] in
        \<open>auto simp: client_defs tally_def work_done_def split: if_splits\<close>)
qed

lemma send_done: "Send_step L s uuid c = Inr c' \<Longrightarrow> fc_done c' = fc_done c"
proof (cases "fc_pc c")
  case (PcFill i)
  moreover assume "Send_step L s uuid c = Inr c'"
  ultimately have "send_fill L s uuid i c = Inr c'" by (simp add: Send_step_def)
  then show ?thesis by (cases rule: send_fill_cases) (auto simp: goto_pc_def start_write_def split: if_splits)
next
  case (PcRead i k f)
  moreover assume "Send_step L s uuid c = Inr c'"
  ultimately show ?thesis by (auto simp: Send_step_def send_read_def send_defs split: if_splits prod.splits)
next
  case (PcResend i k f st)
  moreover assume "Send_step L s uuid c = Inr c'"
  ultimately show ?thesis by (auto simp: Send_step_def send_resend_def send_defs Let_def split: if_splits prod.splits)
qed (auto simp: Send_step_def send_defs Let_def split: if_splits option.splits)

lemma done_event: "client_do X e c = Some c' \<Longrightarrow> fc_done c \<Longrightarrow> fc_done c'"
proof (cases e)
  case EvRead
  moreover assume "client_do X e c = Some c'" "fc_done c"
  ultimately show ?thesis
    by (auto simp: ok_result_def read_step_def split: sum.splits read_pc.splits)
next
  case (EvSend u)
  moreover assume "client_do X e c = Some c'" "fc_done c"
  ultimately show ?thesis by (auto simp: ok_result_def dest: send_done split: if_splits sum.splits)
qed (auto simp: client_defs split: if_splits print_pc.splits)

lemma done_run: "client_run X es c = Some c' \<Longrightarrow> fc_done c \<Longrightarrow> fc_done c'"
  by (induction es arbitrary: c) (auto split: option.splits dest: done_event)

lemma hung_run:
  assumes "client_run X es c = Some c'" and "hung i c" and "\<not> fc_done c'"
  shows "hung i c' \<and> work_done c' = work_done c"
  using assms
proof (induction es arbitrary: c)
  case (Cons e es)
  obtain c1 where c1: "client_do X e c = Some c1" "client_run X es c1 = Some c'"
    using Cons.prems(1) by (auto split: option.splits)
  have nd: "\<not> fc_done c1" using done_run [OF c1(2)] Cons.prems(3) by blast
  have "hung i c1 \<and> work_done c1 = work_done c"
  proof (cases "is_send e")
    case True
    then obtain u where "e = EvSend u" by (auto simp: is_send_def split: upload_event.splits)
    then have "Send_step (u_libs X) (u_fs X) u c = Inr c1"
      using c1(1) by (auto simp: ok_result_def split: if_splits sum.splits)
    then show ?thesis using hung_send Cons.prems(2) by blast
  next
    case False
    then show ?thesis using hung_other [OF Cons.prems(2) False c1(1)] nd by blast
  qed
  then show ?case using Cons.IH [OF c1(2)] Cons.prems(3) by auto
qed simp

text \<open>
  C27: A part that the server has refused once is never sent again, and the client hangs: when all
  parts of a file have been written and answered, and one of them was refused, \<^verbatim>\<open>Send\<close> stays in its
  retry loop for this file in every schedule until the stream breaks or the client is stopped; it
  writes nothing, takes no other context and never closes the stream.  (The stream
  of the file has failed at its end, so that \<^verbatim>\<open>seekg\<close> and \<^verbatim>\<open>read\<close> do nothing.)
\<close>

theorem refused_part_hangs:
  assumes "client_reach X c" and "fc_pc c = PcStatus i f" and "GetStatus (fc_heap c ! i) = SS_RETRING"
    and "quiet c" and "client_run X es c = Some c'" and "\<not> fc_done c'" and "i < length (fc_heap c)"
  shows "retries i (fc_pc c') \<and> fc_sent c' = fc_sent c \<and> fc_taken c' = fc_taken c
    \<and> fc_writes_done c' = fc_writes_done c"
proof -
  have nd: "\<not> fc_done c" using done_run [OF assms(5)] assms(6) by blast
  have "if_fail f" using upload_stream.always [OF assms(1)] assms(2) nd by (simp add: uploader_inv_def)
  then have h: "hung i c" using assms(2-4,7) nd by (simp add: hung_def)
  show ?thesis using hung_run [OF assms(5) h assms(6)] by (simp add: hung_def work_done_def)
qed

lemma client_run_append:
  "client_run X (es @ fs) c = (case client_run X es c of None \<Rightarrow> None | Some c' \<Rightarrow> client_run X fs c')"
  by (induction es arbitrary: c) (simp_all split: option.splits)

lemma send_resend_code [code]:
  "send_resend i k f st c =
     (let m = sx_mark (fc_heap c ! i)
      in if k < length m then
           (if m ! k = 1 then
              (if if_fail f then
                 (if 0 > y_partition_size (fc_sync c) then Inl BufferOverflow else Inr (goto_pc (PcResend i (k + 1) f st) c))
               else
                 (case ifstream_read (nat NET_BUFFER_SIZE_BYTES) (ifstream_seekg (k * nat NET_BUFFER_SIZE_BYTES) f) of
                    (good, got, f1) \<Rightarrow>
                      if int (length got) > y_partition_size (fc_sync c) then Inl BufferOverflow
                      else if good \<or> got \<noteq> [] then BatchSend k got (goto_pc (PcRewait i k f1 st) c)
                      else Inr (goto_pc (PcResend i (k + 1) f1 st) c)))
            else Inr (goto_pc (PcResend i (k + 1) f st) c))
         else Inr (goto_pc (if st = SS_RETRING then PcStatus i f else PcEnd i st) c))"
  by (simp add: send_resend_def Let_def ifstream_read_failed)

lemma demo_refused_run:
  "client_run demo_upload (demo_first_pass @ demo_answers 1 @ replicate 0 (EvSend ''v'')) demo_uploader \<noteq> None"
  "client_run demo_upload (demo_first_pass @ demo_answers 1 @ replicate 9 (EvSend ''v'')) demo_uploader \<noteq> None"
  by code_simp+

lemma demo_refused:
  "fc_pc (demo_run 1 0) = PcStatus 0 \<lparr>if_data = ''old'', if_pos = 3, if_fail = True\<rparr>"
  "GetStatus (fc_heap (demo_run 1 0) ! 0) = SS_RETRING" "quiet (demo_run 1 0)" "\<not> fc_done (demo_run 1 9)"
  "0 < length (fc_heap (demo_run 1 0))"
  by code_simp+

lemma demo_refused_more: "client_run demo_upload (replicate 9 (EvSend ''v'')) (demo_run 1 0) = Some (demo_run 1 9)"
  using demo_refused_run client_run_append [of demo_upload "demo_first_pass @ demo_answers 1" "replicate 9 (EvSend ''v'')" demo_uploader]
  by (auto simp: demo_run_def split: option.splits)

theorem refused_part_hangs_witness:
  "retries 0 (fc_pc (demo_run 1 9)) \<and> fc_sent (demo_run 1 9) = fc_sent (demo_run 1 0)"
  using refused_part_hangs [OF demo_run_reach [OF demo_refused_run(1)] demo_refused(1,2,3) demo_refused_more demo_refused(4,5)]
  by blast

end
