(* ===== verification/UploadServer.thy ===== *)
theory UploadServer
  imports FileUpload Handlers
begin

text \<open>
  The upload client together with the server's \<^verbatim>\<open>FileHandler\<close> (\<^verbatim>\<open>src/src/server/handler_proxy/file_handler.h\<close>): the
  answers of the server are answers in the sense of the client model, and what becomes of the
  requests that the client writes.
\<close>

lemma FileOpHandle_answers:
  assumes "FileOpHandle L e req FileResX_default sv = (Some res, sv')"
  shows "answers req res"
proof (cases "fq_repo_type req = RT_Ocean \<and> UserValidateSession e (fq_user req) (fq_token req) (us_sess (sv_user sv)) \<noteq> 0")
  case True
  then have "res = FileResX_default\<lparr>fs_err_code := Err_User_session_error\<rparr>" using assms by (auto simp: FileOpHandle_def)
  then show ?thesis by (simp add: answers_def FileResX_default_def)
next
  case False
  let ?r = "FileResX_default\<lparr>fr_src := fx_src req, fr_dst := fx_dst req, fs_file_hash := fx_file_hash req,
     fr_partition_num := fx_partition_num req, fr_res_type := fx_file_type req, fs_request_id := fq_request_id req, fs_op := fq_op req\<rparr>"
  have kept: "file_switch L req ?r sv = (Some (ret, res2), sv1) \<Longrightarrow> answers req res2" for ret res2 sv1
    by (auto simp: file_switch_def FileExists_def Read_def Let_def answers_def
        split: FileOp.splits prod.splits if_splits sum.splits option.splits)
  show ?thesis
    using assms False kept by (auto simp: FileOpHandle_def Let_def answers_def split: prod.splits option.splits if_splits)
qed

section \<open>The fields of the requests\<close>

lemma FillRequest_fields:
  assumes "FillRequest L s uuid sy ctx = Inr (True, r, ctx')"
  shows "sx_src ctx \<noteq> ''''" "fq_op r = sx_op ctx" "fq_repo_type r = y_repo_type sy" "fx_file_type r = sx_file_type ctx"
    "fx_dst r = sx_dst ctx" "fq_cur_part r = 0" "fq_size_per_part r = 0" "fq_file r = File_default"
    "y_repo_type sy \<noteq> RT_Ocean \<Longrightarrow> fx_src r = ''''"
  using assms
  by (auto simp: FillRequest_def FileReqX_default_def Let_def split: if_splits option.splits prod.splits bool.splits)

section \<open>Uploads are refused\<close>

lemma part_not_empty: "0 < ps \<Longrightarrow> k < n_parts ps d \<Longrightarrow> part_data ps d k \<noteq> []"
  by (simp add: n_parts_iff part_data_def Prelude.slice_def)

lemma Repo_WriteToFile_refuses:
  assumes "fq_cur_part req = 0" and "fq_size_per_part req = 0" and "fq_file req = File_default" and "fq_content req \<noteq> []"
    and "Repo_WriteToFile B xxh st req (s, fp) = Some (ret, out)"
  shows "ret \<noteq> 0"
proof -
  have cp: "CalcPartitionStart (to_i64 (f_file_size File_default)) 0 0 = (0, - 1)" by code_simp
  show ?thesis
    using assms by (auto simp: Repo_WriteToFile_def cp err_defs Let_def split: if_splits option.splits prod.splits sum.splits)
qed

lemma Save_refuses:
  assumes "fq_cur_part req = 0" and "fq_size_per_part req = 0" and "fq_file req = File_default" and "fq_content req \<noteq> []"
    and "Save L req sv = (Some ret, sv')"
  shows "ret \<noteq> 0"
proof (cases "fq_repo_type req = RT_Ocean")
  case True
  then obtain out where "Repo_WriteToFile (lb_boost L) (lb_xxh L) (sv_repo sv) (FileReq.truncate req) (sv_fs sv, sv_fpm sv)
      = Some (ret, out)"
    using assms(5) by (auto simp: Save_def split: option.splits)
  then show ?thesis
    by (rule Repo_WriteToFile_refuses [rotated 4]) (use assms(1-4) in \<open>simp_all add: FileReq.defs\<close>)
next
  case False
  then show ?thesis using assms(5) by (simp add: Save_def err_defs)
qed

text \<open>
  C24: No part of a file is ever accepted.  Whatever the schedule and the state of the server, a
  request to store a part that the upload client writes is answered with an error (or not at
  all): the client fills in \<^verbatim>\<open>partition_num\<close>, \<^verbatim>\<open>partition_size\<close> and \<^verbatim>\<open>file_size\<close>, and the server reads
  \<^verbatim>\<open>cur_part\<close>, \<^verbatim>\<open>size_per_part\<close> and \<^verbatim>\<open>file\<close>, or does not support the type of the repository.
\<close>

theorem upload_always_refused:
  assumes "client_reach X c" and "0 < y_partition_size (u_sync X)" and "req \<in> set (fc_sent c)" and "fq_op req = Op_FilePut"
    and "FileOpHandle L e req FileResX_default sv = (Some res, sv')"
  shows "fs_err_code res \<noteq> Err_Success"
proof -
  have ps: "0 < upload_size X" using assms(2) by (simp add: upload_size_def)
  obtain i uuid r ctx d k where
    f: "FillRequest (u_libs X) (u_fs X) uuid (u_sync X) (fc_heap c ! i) = Inr (True, r, ctx)"
    and req: "req = part_of r (upload_size X) d k" "k < n_parts (upload_size X) d"
  proof (rule sent_request [OF assms(1) ps assms(3)])
    fix i uuid r ctx
    assume f: "FillRequest (u_libs X) (u_fs X) uuid (u_sync X) (fc_heap c ! i) = Inr (True, r, ctx)"
      and "req = r \<and> sx_op (fc_heap c ! i) = Op_FileExists \<or> sx_op (fc_heap c ! i) \<noteq> Op_FileExists
        \<and> (\<exists>d k. req = part_of r (upload_size X) d k \<and> k < n_parts (upload_size X) d)"
    then show thesis using that assms(4) FillRequest_fields(2) [OF f] by auto
  qed
  have fields: "fq_cur_part req = 0" "fq_size_per_part req = 0" "fq_file req = File_default" "fq_content req \<noteq> []"
    using FillRequest_fields(6-8) [OF f] part_not_empty [OF ps req(2)] by (simp_all add: req(1) part_of_def)
  show ?thesis
    using assms(4,5) Save_refuses [OF fields]
    by (auto simp: FileOpHandle_def file_switch_def res_code_def err_defs Let_def split: if_splits prod.splits option.splits)
qed

theorem upload_always_refused_witness:
  "fq_op (fc_sent (demo_run 0 10) ! 0) = Op_FilePut
   \<and> map_option fs_err_code (fst (FileOpHandle demo_libs (demo_env ''t'') (fc_sent (demo_run 0 10) ! 0) FileResX_default demo_server))
       = Some Err_Fail
   \<and> Err_Fail \<noteq> Err_Success"
proof -
  let ?req = "fc_sent (demo_run 0 10) ! 0"
  have op: "fq_op ?req = Op_FilePut" "fq_repo_type ?req = RT_Remote" "length (fc_sent (demo_run 0 10)) = 2" by code_simp+
  then have m: "?req \<in> set (fc_sent (demo_run 0 10))" by (intro nth_mem) simp
  obtain res where r: "FileOpHandle demo_libs (demo_env ''t'') ?req FileResX_default demo_server = (Some res, demo_server)"
    and code: "fs_err_code res = Err_Fail"
    using op by (simp add: FileOpHandle_def file_switch_def Save_def res_code_def err_defs Let_def)
  have "0 < y_partition_size (u_sync demo_upload)" by code_simp
  from upload_always_refused [OF demo_run_reach [OF demo_complete(1)] this m op(1) r] show ?thesis
    using op r code by simp
qed

section \<open>Regular files are never uploaded to a remote directory\<close>

text \<open>The worker asks, and does not upload of itself.\<close>

definition asks_only :: "'b upload_case \<Rightarrow> bool" where
  "asks_only X \<longleftrightarrow> y_repo_type (u_sync X) \<noteq> RT_Ocean \<and> (\<forall>ctx. u_puts X ctx \<longrightarrow> sx_op ctx = Op_FileExists)"

text \<open>
  The contexts that the client makes of answers have no source, because inquiries carry none; so
  \<^verbatim>\<open>FillRequest\<close> refuses them.
\<close>

fun not_sending :: "send_pc \<Rightarrow> bool" where
  "not_sending (PcRead i k f) = False"
| "not_sending (PcWrite i k f) = False"
| "not_sending (PcStatus i f) = False"
| "not_sending (PcResend i k f st) = False"
| "not_sending (PcRewait i k f st) = False"
| "not_sending _ = True"

definition ask_ctx :: "SendContext \<Rightarrow> bool" where
  "ask_ctx ctx \<longleftrightarrow> sx_op ctx = Op_FileExists \<or> sx_src ctx = ''''"

definition ask_inv :: "FileClient \<Rightarrow> bool" where
  "ask_inv c \<longleftrightarrow>
     list_all ask_ctx (fc_heap c) \<and> (\<forall>r \<in> set (fc_sent c). fx_src r = '''' \<and> fq_op r = Op_FileExists)
     \<and> (\<forall>res. fc_reader c = RdGot res \<longrightarrow> fr_src res = '''' \<or> fs_op res = Op_FileUnused)
     \<and> not_sending (fc_pc c)"

lemma ask_inv_frame:
  assumes "ask_inv c" and "fc_sent c' = fc_sent c" and "fc_heap c' = fc_heap c" and "fc_pc c' = fc_pc c"
    and "\<forall>res. fc_reader c' \<noteq> RdGot res \<or> fc_reader c' = fc_reader c"
  shows "ask_inv c'"
  using assms unfolding ask_inv_def by metis

lemma ask_ctx_update: "list_all ask_ctx h \<Longrightarrow> faded x = faded (h ! i) \<Longrightarrow> list_all ask_ctx (h[i := x])"
  using fadedD(1,2) [of x "h ! i"] unfolding list_all_length ask_ctx_def
  by (metis length_list_update nth_list_update_eq nth_list_update_neq)

lemma ask_inv_start: "FC_new (u_sync X) = Inr c \<Longrightarrow> ask_inv (FC_Start c)"
  by (auto simp: ask_inv_def FC_new_def client_defs split: if_splits)

lemma ask_inv_answer:
  assumes "ask_inv c" and "fc_reader c = RdGot res" and "on_answer res c = Inr c1"
  shows "ask_inv (c1\<lparr>fc_reader := RdCount\<rparr>)"
  using assms(3)
proof (cases rule: on_answer_cases)
  case 2
  then have "fr_src res = ''''" using assms(1,2) by (auto simp: ask_inv_def)
  then show ?thesis using assms(1) 2 by (simp add: ask_inv_def FC_Put_def ask_ctx_def SendContext_new_def)
next
  case (4 i m)
  then show ?thesis using assms(1) ask_ctx_update [of "fc_heap c"] by (simp add: ask_inv_def)
qed (use assms(1) in \<open>simp_all add: ask_inv_def\<close>)

lemma ask_inv_other:
  assumes "asks_only X" and "ask_inv c" and "\<not> is_send e" and "client_do X e c = Some c'"
  shows "ask_inv c'"
proof (cases e)
  case (EvSend u)
  then show ?thesis using assms(3) by (simp add: is_send_def)
next
  case (EvPut ctx)
  then show ?thesis
    using assms by (auto simp: asks_only_def ask_inv_def ask_ctx_def FC_Put_def split: if_splits)
next
  case (EvAnswer res)
  then have c': "c' = OnReadDone (Some res) c" and n: "length (fc_answers c) < length (fc_sent c)"
    and a: "answers (fc_sent c ! length (fc_answers c)) res" using assms(4) by (auto split: if_splits)
  have "fr_src res = '''' \<or> fs_op res = Op_FileUnused"
    using a assms(2) nth_mem [OF n] by (auto simp: answers_def ask_inv_def)
  then show ?thesis using assms(2) by (simp add: c' OnReadDone_def ask_inv_def)
next
  case EvRead
  then have "read_step c = Inr c'" using assms(4) by (auto simp: ok_result_def split: sum.splits)
  then show ?thesis
    using assms(2) by (cases rule: read_step_cases) (auto intro: ask_inv_answer ask_inv_frame)
qed (use assms(2,4) in \<open>auto simp: client_defs intro: ask_inv_frame split: if_splits print_pc.splits\<close>)

lemma ask_inv_fill:
  assumes "asks_only X" and "ask_inv c" and "same_sync X c" and "i < length (fc_heap c)"
    and "send_fill (u_libs X) (u_fs X) uuid i c = Inr c'"
  shows "ask_inv c'"
proof -
  have fill: "FillRequest (u_libs X) (u_fs X) uuid (fc_sync c) ctx = FillRequest (u_libs X) (u_fs X) uuid (u_sync X) ctx" for ctx
    using assms(3) by (intro FillRequest_params) (simp add: same_sync_def)
  have heap: "list_all ask_ctx ((fc_heap c)[i := ctx])" if "faded ctx = faded (fc_heap c ! i)" for ctx
    using that assms(2) by (simp add: ask_inv_def ask_ctx_update)
  have op: "fx_src r = '''' \<and> fq_op r = Op_FileExists \<and> sx_op ctx = Op_FileExists"
    if "FillRequest (u_libs X) (u_fs X) uuid (fc_sync c) (fc_heap c ! i) = Inr (True, r, ctx)" for r ctx
  proof -
    note f = FillRequest_fields [OF that [unfolded fill]]
    have "ask_ctx (fc_heap c ! i)" using assms(2,4) by (simp add: ask_inv_def list_all_length)
    then show ?thesis
      using f(1,2,9) assms(1) fadedD(1) [OF FillRequest_ctx [OF that]] by (auto simp: ask_ctx_def asks_only_def)
  qed
  from assms(5) show ?thesis
  proof (cases rule: send_fill_cases)
    case (1 r ctx)
    then show ?thesis
      using assms(2) heap [OF FillRequest_ctx [OF 1(2)]] by (simp add: ask_inv_def goto_pc_def filled_def)
  next
    case (2 r ctx c1)
    then show ?thesis
      using assms(2) heap [OF FillRequest_ctx [OF 2(2)]] op [OF 2(2)]
      by (auto simp: ask_inv_def start_write_def goto_pc_def filled_def count_file_def split: if_splits)
  next
    case (3 r ctx e)
    then show ?thesis using op [OF 3(2)] by simp
  next
    case (4 r ctx d b)
    then show ?thesis using op [OF 4(2)] by simp
  qed
qed

lemma ask_inv_move:
  assumes "ask_inv c" and "fc_sent c' = fc_sent c" and "fc_heap c' = fc_heap c" and "fc_reader c' = fc_reader c"
    and "not_sending (fc_pc c')"
  shows "ask_inv c'"
  using assms by (simp add: ask_inv_def)

lemma ask_inv_send:
  assumes "asks_only X" and "ask_inv c" and "uploader_inv X c" and "heap_inv c"
    and "Send_step (u_libs X) (u_fs X) uuid c = Inr c'"
  shows "ask_inv c'"
proof -
  have not_sending: "not_sending (fc_pc c)" using assms(2) by (simp add: ask_inv_def)
  show ?thesis
  proof (cases "fc_pc c")
    case (PcFill i)
    then have "i < length (fc_heap c)" "send_fill (u_libs X) (u_fs X) uuid i c = Inr c'"
      using assms(4,5) by (auto simp: heap_inv_def Send_step_def)
    then show ?thesis using ask_inv_fill assms(1-3) by (auto simp: uploader_inv_def)
  next
    case PcPop
    then show ?thesis
      using assms(2,5) by (auto simp: Send_step_def ask_inv_def goto_pc_def split: option.splits)
  qed (use assms(5) not_sending in \<open>auto simp: Send_step_def send_defs intro!: ask_inv_move [OF assms(2)] split: if_splits\<close>)
qed

interpretation upload_ask: client_invariant X
  "\<lambda>c. uploader_inv X c \<and> heap_inv c \<and> (asks_only X \<longrightarrow> ask_inv c)" for X :: "'b upload_case"
proof unfold_locales
  fix c assume "FC_new (u_sync X) = Inr c"
  then show "uploader_inv X (FC_Start c) \<and> heap_inv (FC_Start c) \<and> (asks_only X \<longrightarrow> ask_inv (FC_Start c))"
    using uploader_inv_start heap_inv_start ask_inv_start by blast
next
  fix c uuid c'
  assume "uploader_inv X c \<and> heap_inv c \<and> (asks_only X \<longrightarrow> ask_inv c)" "Send_step (u_libs X) (u_fs X) uuid c = Inr c'"
  then show "uploader_inv X c' \<and> heap_inv c' \<and> (asks_only X \<longrightarrow> ask_inv c')"
    using uploader_inv_send heap_inv_send ask_inv_send by blast
next
  fix c e c'
  assume "uploader_inv X c \<and> heap_inv c \<and> (asks_only X \<longrightarrow> ask_inv c)" "\<not> is_send e" "client_do X e c = Some c'"
  then show "uploader_inv X c' \<and> heap_inv c' \<and> (asks_only X \<longrightarrow> ask_inv c')"
    using uploader_inv_other heap_inv_other ask_inv_other by blast
qed

text \<open>
  C25: A synchronisation to a remote directory never uploads a regular file.  If the worker only
  asks about files, as the synchronisation workers do, then in every schedule all requests that the
  client writes are inquiries, and an inquiry about a regular file leaves the server's files as
  they are: the answers on which the client would upload a file name no source, because the
  inquiry did not.
\<close>

theorem remote_files_never_uploaded:
  assumes "client_reach X c" and "asks_only X" and "req \<in> set (fc_sent c)"
  shows "fq_op req = Op_FileExists
    \<and> (fx_file_type req = FT_Regular \<longrightarrow> sv_fs (snd (FileOpHandle L e req FileResX_default sv)) = sv_fs sv)"
proof -
  have op: "fq_op req = Op_FileExists" using upload_ask.always [OF assms(1)] assms(2,3) by (auto simp: ask_inv_def)
  then show ?thesis
    by (auto simp: FileOpHandle_def file_switch_def FileExists_def Let_def split: prod.splits sum.splits)
qed

definition demo_asks :: "bytes upload_case" where
  "demo_asks = demo_upload\<lparr>u_puts := \<lambda>ctx. sx_op ctx = Op_FileExists\<rparr>"

definition demo_ask_run :: "FileClient option" where
  "demo_ask_run =
     client_run demo_asks
       ([EvPut (demo_put\<lparr>sx_op := Op_FileExists\<rparr>), EvComplete] @ replicate 4 (EvSend ''u'')) demo_uploader"

theorem remote_files_never_uploaded_witness:
  "length (fc_sent (the demo_ask_run)) = 1 \<and> fx_file_type (fc_sent (the demo_ask_run) ! 0) = FT_Regular
   \<and> fq_op (fc_sent (the demo_ask_run) ! 0) = Op_FileExists
   \<and> sv_fs (snd (FileOpHandle demo_libs (demo_env ''t'') (fc_sent (the demo_ask_run) ! 0) FileResX_default demo_server))
       = sv_fs demo_server"
proof -
  let ?c = "the demo_ask_run"
  have run: "demo_ask_run \<noteq> None" and n: "length (fc_sent ?c) = 1" and ft: "fx_file_type (fc_sent ?c ! 0) = FT_Regular"
    by code_simp+
  obtain c0 where "FC_new demo_upload_ctx = Inr c0" "demo_uploader = FC_Start c0"
    by (simp add: FC_new_def demo_uploader_def demo_upload_ctx_def)
  then have "client_reach demo_asks demo_uploader"
    using client_reach.start [of demo_asks c0] by (simp add: demo_asks_def demo_upload_def)
  moreover obtain c where c: "demo_ask_run = Some c" using run by blast
  ultimately have "client_reach demo_asks c" using client_reach_run unfolding demo_ask_run_def by blast
  then have r: "client_reach demo_asks ?c" by (simp add: c)
  have a: "asks_only demo_asks" by (simp add: asks_only_def demo_asks_def demo_upload_def demo_upload_ctx_def)
  have m: "fc_sent ?c ! 0 \<in> set (fc_sent ?c)" using n by (intro nth_mem) simp
  show ?thesis using remote_files_never_uploaded [OF r a m] n ft by simp
qed


section \<open>Storing the parts of an upload\<close>

text \<open>
  \<^verbatim>\<open>SyncManager::WriteToFile\<close> reads the fields that the client fills in: as a receiver of parts.
\<close>

definition sync_put :: "err_codes \<Rightarrow> FileReqX \<Rightarrow> fs \<Rightarrow> (int \<times> fs) option" where
  "sync_put codes req s = (case Sync_WriteToFile codes req s of Inl e \<Rightarrow> None | Inr out \<Rightarrow> Some out)"

definition sync_receiver :: "err_codes \<Rightarrow> FileReqX \<Rightarrow> fpath \<Rightarrow> bytes \<Rightarrow> nat \<Rightarrow> fs receiver" where
  "sync_receiver codes r p d ps =
     \<lparr>rv_put = \<lambda>i. sync_put codes (part_of r ps d i), rv_fs = id, rv_path = fx_dst r, rv_place = p, rv_data = d, rv_size = ps\<rparr>"

definition describes :: "FileReqX \<Rightarrow> fpath \<Rightarrow> bytes \<Rightarrow> nat \<Rightarrow> bool" where
  "describes r p d ps \<longleftrightarrow>
     fx_file_type r = FT_Regular \<and> fx_file_size r = int (length d) \<and> fx_partition_size r = int ps
     \<and> p \<noteq> [] \<and> 0 < ps \<and> int (length d) + int ps < 2 ^ 63"

lemma sync_stores:
  assumes "describes r p d ps" and "part_fits (sync_receiver codes r p d ps) i"
    and "MkParentDir (fx_dst r) s = (b, s1)" and "CreateFileWithSize (fx_dst r) (int (length d)) s1 = Inr (Err_Success, s2)"
    and "reg_file s2 (fx_dst r) p x" and "fs_faults s2 = []" and "length x = length d"
  shows "stores_part (sync_receiver codes r p d ps) i s x"
proof -
  have v: "fx_file_type r = FT_Regular" "fx_file_size r = int (length d)" "fx_partition_size r = int ps"
    "0 < ps" "int (length d) + int ps < 2 ^ 63" and i: "i * ps < length d" "i * ps + ps \<noteq> length d + 1"
    using assms(1,2) by (simp_all add: describes_def part_fits_def sync_receiver_def)
  obtain en where cp: "CalcPartitionStart (int (length d)) (int i) (int ps) = (int (i * ps), en)"
    "en - int (i * ps) + 1 = int (length (part_data ps d i))"
    using part_range [OF v(4) i(1) v(5)] i(2) by blast
  obtain s' x' where wr: "WriteToFile_at (fx_dst r) (part_data ps d i) (int (i * ps)) s2 = (Err_Success, s')"
    and x': "reg_file s' (fx_dst r) p x'" "fs_faults s' = []" "length x' = length d"
      "\<forall>j < length d. x' ! j = (if i * ps \<le> j \<and> j < i * ps + ps then d ! j else x ! j)"
    using write_part_ok [OF assms(5-7) i(1)] by blast
  have "sync_put codes (part_of r ps d i) s = Some (Err_Success, s')"
    using assms(3,4) v(1-3) cp wr by (simp add: sync_put_def Sync_WriteToFile_def part_of_def)
  then show ?thesis
    using x' part_bytes [OF v(4)] by (auto simp: stores_part_def has_bytes_def sync_receiver_def)
qed

interpretation sync_parts: part_store "sync_receiver codes r p d ps" "describes r p d ps" "free_place (fx_dst r) p"
  for codes r p d ps
proof
  fix i x and w :: fs
  assume v: "describes r p d ps" "part_fits (sync_receiver codes r p d ps) i"
    and h: "has_bytes (sync_receiver codes r p d ps) w x"
  have r: "reg_file w (fx_dst r) p x" "fs_faults w = []" "length x = length d"
    using h by (simp_all add: has_bytes_def sync_receiver_def)
  have "p \<noteq> []" using v(1) by (simp add: describes_def)
  then show "stores_part (sync_receiver codes r p d ps) i w x"
    using sync_stores [OF v MkParentDir_existing [OF r(1)] CreateFileWithSize_existing [OF r(1)] r] r(3) by simp
next
  fix i and w :: fs
  assume v: "describes r p d ps" "part_fits (sync_receiver codes r p d ps) i" and f: "free_place (fx_dst r) p w"
  obtain s1 s2 b where mk: "MkParentDir (fx_dst r) w = (b, s1)"
    "CreateFileWithSize (fx_dst r) (int (length d)) s1 = Inr (Err_Success, s2)"
    "reg_file s2 (fx_dst r) p (replicate (length d) (CHR 0x00))" "fs_faults s2 = []"
    using create_upload_file f unfolding free_place_def by blast
  show "stores_part (sync_receiver codes r p d ps) i w (replicate (length (rv_data (sync_receiver codes r p d ps))) (CHR 0x00))"
    using sync_stores [OF v mk] by (simp add: sync_receiver_def)
qed

text \<open>The request that \<^verbatim>\<open>FillRequest\<close> makes of a regular file describes its content.\<close>

lemma FillRequest_size:
  assumes "FillRequest L s uuid sy ctx = Inr (True, r, ctx')" and "sx_file_type ctx = FT_Regular"
    and "reg_file s (sx_src ctx) q d"
  shows "fx_file_size r = int (length d)" and "fx_partition_size r = y_partition_size sy"
proof -
  obtain n where "sys_lstat s (sx_src ctx) = Inr n" "nkind n = KReg d"
    using reg_file_stat [OF assms(3), of False] by (auto simp: sys_lstat_def)
  then have "fa_file_size attr = int (length d)"
    if "PrepareFile (cl_b3 L) (cl_fmt L) (cl_db L) s (sx_src ctx) h ps a = Some (True, attr)" for h ps a attr
    using that by (auto simp: PrepareFile_def FileInfo_def Let_def split: if_splits prod.splits option.splits)
  then show "fx_file_size r = int (length d)" "fx_partition_size r = y_partition_size sy"
    using assms(1,2) by (auto simp: FillRequest_def Let_def split: if_splits prod.splits option.splits bool.splits)
qed

text \<open>
  C5: What the upload client writes for a regular file is enough to have the file back.  Once it has
  closed the stream, the requests for the file are a contiguous piece of what it has written, and
  \<^verbatim>\<open>SyncManager::WriteToFile\<close>, given these requests on a machine where the destination is free and
  writable, stores each of them with success and leaves exactly the file.  (The size of the file is
  not one less than a multiple of a part size above one.)
\<close>

theorem upload_then_store:
  assumes "client_reach X c" and "fc_writes_done c" and ps: "y_partition_size (u_sync X) = int ps" "0 < ps"
    and ctx: "(i, uuid) \<in> set (fc_taken c)" "sx_op (fc_heap c ! i) = Op_FilePut" "request_of X (fc_heap c ! i) uuid = Some r"
    and d: "reg_file (u_fs X) (sx_src (fc_heap c ! i)) q d" "d \<noteq> []" "int (length d) + int ps < 2 ^ 63"
      "ps = 1 \<or> \<not> ps dvd length d + 1"
    and free: "free_place (sx_dst (fc_heap c ! i)) p s" "p \<noteq> []"
  shows "\<exists>before reqs after rets s'. fc_sent c = before @ reqs @ after
    \<and> store_parts (sync_put codes) reqs s = Some (rets, s') \<and> (\<forall>ret \<in> set rets. ret = Err_Success)
    \<and> read_stream s' (sx_dst (fc_heap c ! i)) = Inr (d, False)"
proof -
  let ?ctx = "fc_heap c ! i" and ?R = "sync_receiver codes r p d ps"
  have us: "upload_size X = ps" using ps(1) by (simp add: upload_size_def)
  obtain ctx' where f: "FillRequest (u_libs X) (u_fs X) uuid (u_sync X) ?ctx = Inr (True, r, ctx')"
    using ctx(3) by (auto simp: request_of_iff)
  have ft: "sx_file_type ?ctx = FT_Regular"
    using f ctx(2) by (auto simp: FillRequest_def Let_def split: if_splits prod.splits option.splits bool.splits)
  have de: "describes r p d ps" and dst: "fx_dst r = sx_dst ?ctx"
    using FillRequest_fields(4,5) [OF f] FillRequest_size [OF f ft d(1)] ft ps d(3) free(2) by (simp_all add: describes_def)
  have reqs: "requests_of X ?ctx uuid = map (part_of r ps d) [0..<n_parts ps d]"
    using ctx(2,3) reg_file_read [OF d(1)] by (simp add: requests_of_def us)
  obtain before after where sent: "fc_sent c = before @ requests_of X ?ctx uuid @ after"
    using upload_closed(1) [OF assms(1,2)] ps(2) split_list [OF ctx(1)] by (fastforce simp: us due_def)
  have "\<forall>k \<in> set [0..<n_parts ps d]. part_fits ?R k" "\<forall>k. k * rv_size ?R < length (rv_data ?R) \<longrightarrow> k \<in> set [0..<n_parts ps d]"
    using parts_fit [OF d(4)] ps(2) by (auto simp: part_fits_def sync_receiver_def n_parts_iff)
  then obtain rets s' where st: "store_parts (rv_put ?R) [0..<n_parts ps d] s = Some (rets, s')"
    "\<forall>ret \<in> set rets. ret = Err_Success" "has_bytes ?R s' d"
    using sync_parts.all_parts [of r p d ps s codes "[0..<n_parts ps d]"] de free(1) d(2) dst by (auto simp: sync_receiver_def)
  have "store_parts (sync_put codes) (requests_of X ?ctx uuid) s = Some (rets, s')"
    using st(1) by (simp add: reqs store_parts_map sync_receiver_def)
  moreover have "read_stream s' (sx_dst ?ctx) = Inr (d, False)"
    using st(3) dst by (auto simp: has_bytes_def sync_receiver_def intro: reg_file_read)
  ultimately show ?thesis using sent st(2) by blast
qed


text \<open>A file of four bytes in two parts.\<close>

definition demo_upload4 :: "bytes upload_case" where
  "demo_upload4 = demo_upload\<lparr>u_fs := snd (WriteToFile ''/a/f'' ''wxyz'' False demo_fs)\<rparr>"

definition demo_run4 :: FileClient where
  "demo_run4 = the (client_run demo_upload4 (demo_first_pass @ demo_answers 0 @ replicate 10 (EvSend ''v'')) demo_uploader)"

lemma demo_run4_facts:
  "client_run demo_upload4 (demo_first_pass @ demo_answers 0 @ replicate 10 (EvSend ''v'')) demo_uploader \<noteq> None"
  "fc_writes_done demo_run4" "fc_taken demo_run4 = [(0, ''u'')]" "sx_op (fc_heap demo_run4 ! 0) = Op_FilePut"
  "sx_src (fc_heap demo_run4 ! 0) = ''/a/f''" "sx_dst (fc_heap demo_run4 ! 0) = ''/b/f''"
  "request_of demo_upload4 (fc_heap demo_run4 ! 0) ''u'' \<noteq> None"
  "reg_file (u_fs demo_upload4) ''/a/f'' [''a'', ''f''] ''wxyz''" "free_place ''/b/f'' [''b'', ''f''] demo_fs"
  by code_simp+

theorem upload_then_store_witness:
  "\<exists>before reqs after rets s'. fc_sent demo_run4 = before @ reqs @ after
    \<and> store_parts (sync_put demo_codes) reqs demo_fs = Some (rets, s') \<and> (\<forall>ret \<in> set rets. ret = Err_Success)
    \<and> read_stream s' ''/b/f'' = Inr (''wxyz'', False)"
proof -
  obtain c0 where c0: "FC_new demo_upload_ctx = Inr c0" "demo_uploader = FC_Start c0"
    by (simp add: FC_new_def demo_uploader_def demo_upload_ctx_def)
  then have "client_reach demo_upload4 demo_uploader"
    using client_reach.start [of demo_upload4 c0] by (simp add: demo_upload4_def demo_upload_def)
  then have reach: "client_reach demo_upload4 demo_run4"
    using demo_run4_facts(1) client_reach_run unfolding demo_run4_def by fastforce
  have ps: "y_partition_size (u_sync demo_upload4) = int 2" by code_simp
  have i: "(0, ''u'') \<in> set (fc_taken demo_run4)" by (simp add: demo_run4_facts(3))
  obtain r where r: "request_of demo_upload4 (fc_heap demo_run4 ! 0) ''u'' = Some r" using demo_run4_facts(7) by blast
  have d: "reg_file (u_fs demo_upload4) (sx_src (fc_heap demo_run4 ! 0)) [''a'', ''f''] ''wxyz''"
    and f: "free_place (sx_dst (fc_heap demo_run4 ! 0)) [''b'', ''f''] demo_fs"
    using demo_run4_facts(5,6,8,9) by simp_all
  show ?thesis
    using upload_then_store [OF reach demo_run4_facts(2) ps _ i demo_run4_facts(4) r d _ _ _ f, of demo_codes]
    by (simp add: demo_run4_facts(6))
qed

end
