(* ===== verification/SyncRemote.thy ===== *)
theory SyncRemote
  imports FileUpload
begin

text \<open>
  The remote synchronisations of \<^verbatim>\<open>src/src/impl/sync_manager.cc\<close>.  Every worker thread owns an upload client
  (\<^verbatim>\<open>FileClient\<close>) and puts contexts into it; the clients run beside the workers and share the
  \<^verbatim>\<open>SyncContext\<close> with them.  Client \<open>i\<close> belongs to worker \<open>i\<close>.  Constructing and starting a client
  comes before any use of it and is done when the workers are posted; a client that faults ends
  the process, and such schedules are left out.  Nothing on the local machine is changed.
\<close>

section \<open>State\<close>

record remote_st =
  rt_base :: sync_st
  rt_clients :: "FileClient list"

abbreviation rt_ctx :: "remote_st \<Rightarrow> SyncContext" where
  "rt_ctx st \<equiv> yt_ctx (rt_base st)"

definition set_ctx :: "SyncContext \<Rightarrow> remote_st \<Rightarrow> remote_st" where
  "set_ctx ctx st = st\<lparr>rt_base := (rt_base st)\<lparr>yt_ctx := ctx\<rparr>\<rparr>"

text \<open>A call on client \<open>i\<close>.\<close>

definition on_client :: "nat \<Rightarrow> (FileClient \<Rightarrow> FileClient) \<Rightarrow> remote_st \<Rightarrow> remote_st" where
  "on_client i f st = st\<lparr>rt_clients := (rt_clients st)[i := f (rt_clients st ! i)]\<rparr>"

datatype remote_event = RemoteStop | RemoteClient nat upload_event

text \<open>
  A step of client \<open>i\<close>, which sees and changes the shared context.  Putting, completing and awaiting
  are calls of the worker; nobody calls \<^verbatim>\<open>Stop\<close>.
\<close>

definition own_event :: "upload_event \<Rightarrow> bool" where
  "own_event e \<longleftrightarrow>
     (case e of EvPut _ \<Rightarrow> False | EvComplete \<Rightarrow> False | EvShared _ \<Rightarrow> False | EvAwait \<Rightarrow> False | EvStop \<Rightarrow> False | _ \<Rightarrow> True)"

fun remote_env_step :: "'b upload_case \<Rightarrow> remote_event \<Rightarrow> remote_st \<Rightarrow> remote_st" where
  "remote_env_step X RemoteStop st = st\<lparr>rt_base := (rt_base st)\<lparr>yt_stop := True\<rparr>\<rparr>"
| "remote_env_step X (RemoteClient i e) st =
     (if i < length (rt_clients st) \<and> own_event e
      then (case client_do (X\<lparr>u_fs := yt_fs (rt_base st)\<rparr>) e ((rt_clients st ! i)\<lparr>fc_sync := rt_ctx st\<rparr>) of
              None \<Rightarrow> st
            | Some c \<Rightarrow> set_ctx (fc_sync c) (st\<lparr>rt_clients := (rt_clients st)[i := c]\<rparr>))
      else st)"

section \<open>RemoteSyncWorker\<close>

definition ask_dir :: "string \<Rightarrow> string \<Rightarrow> SendContext" where
  "ask_dir src dst =
     SendContext_new\<lparr>sx_src := src, sx_dst := dst, sx_file_type := FT_Direcotry, sx_op := Op_FileExists\<rparr>"

text \<open>
  \<^verbatim>\<open>~FileClient\<close> joins the threads \<^verbatim>\<open>Send\<close> and \<^verbatim>\<open>Print\<close>; an exception leaves the worker only after that.
\<close>

definition FC_joined :: "FileClient \<Rightarrow> bool" where
  "FC_joined c \<longleftrightarrow> (fc_pc c = PcStopped \<or> fc_pc c = PcReturned) \<and> fc_printer c = PrEnd"

text \<open>
  \<open>GWait\<close>: the queue of the client is too long; \<open>GComplete\<close>: after the loop; \<open>GAwait\<close>: in \<^verbatim>\<open>Await\<close>;
  \<open>GUnwind\<close>: in the destructor of the client, with an exception under way.
\<close>

datatype remote_phase =
  GDirs "(string \<times> Dir) list"
  | GWait "string \<times> Dir" "(string \<times> Dir) list"
  | GFiles string string "(string \<times> FileG) list" "(string \<times> Dir) list"
  | GComplete
  | GAwait
  | GUnwind errno

definition remote_dir ::
  "nat \<Rightarrow> string \<times> Dir \<Rightarrow> (string \<times> Dir) list \<Rightarrow> remote_st \<Rightarrow> remote_phase task \<times> remote_st" where
  "remote_dir thread_no d ds st =
     (let ctx = rt_ctx st; s = yt_fs (rt_base st);
          dir_src_path = y_src ctx @ ''/'' @ fst d; dir_dst_path = y_dst ctx @ ''/'' @ fst d
      in if \<not> Exists s dir_src_path then (TRunning (GDirs ds), st)
         else case fs_is_directory s dir_src_path of
                Inl e \<Rightarrow> (TRunning (GUnwind e), st)
              | Inr False \<Rightarrow> (TRunning (GDirs ds), st)
              | Inr True \<Rightarrow>
                  (case fs_is_symlink s dir_src_path of
                     Inl e \<Rightarrow> (TRunning (GUnwind e), st)
                   | Inr _ \<Rightarrow> (TRunning (GFiles dir_src_path dir_dst_path (d_files (snd d)) ds),
                               on_client thread_no (FC_Put (ask_dir dir_src_path dir_dst_path)) st)))"

definition remote_file ::
  "('c, 'z) scan_libs \<Rightarrow> fs \<Rightarrow> string \<Rightarrow> string \<Rightarrow> string \<times> FileG \<Rightarrow> SendContext option" where
  "remote_file L s dir_src_path dir_dst_path f =
     (let file_src_path = dir_src_path @ ''/'' @ fst f; file_dst_path = dir_dst_path @ ''/'' @ fst f;
          send = SendContext_new\<lparr>sx_src := file_src_path, sx_dst := file_dst_path,
                   sx_file_type := f_file_type (snd f), sx_op := Op_FileExists\<rparr>
      in if \<not> Exists s file_src_path then None
         else if f_file_type (snd f) = FT_Symlink
         then (case SyncRemoteSymlink (sl_boost L) s dir_src_path file_src_path (sx_content send) of
                 (ok, target) \<Rightarrow> if ok then Some (send\<lparr>sx_content := target\<rparr>) else None)
         else Some send)"

definition put_if :: "nat \<Rightarrow> SendContext option \<Rightarrow> remote_st \<Rightarrow> remote_st" where
  "put_if thread_no ctx st = (case ctx of None \<Rightarrow> st | Some x \<Rightarrow> on_client thread_no (FC_Put x) st)"

fun RemoteSyncWorker ::
  "(string \<Rightarrow> int) \<Rightarrow> ('c, 'z) scan_libs \<Rightarrow> nat \<Rightarrow> remote_phase \<Rightarrow> remote_st \<Rightarrow> remote_phase task \<times> remote_st" where
  "RemoteSyncWorker murmur L thread_no (GDirs []) st = (TRunning GComplete, st)"
| "RemoteSyncWorker murmur L thread_no (GDirs (d # ds)) st =
     (if yt_stop (rt_base st)
      then (TRunning GComplete, set_ctx (sync_error (Err_Sync_interrupted (sl_codes L)) (rt_ctx st)) st)
      else if assigned murmur (y_max_threads (rt_ctx st)) (fst d) \<noteq> int thread_no then (TRunning (GDirs ds), st)
      else (TRunning (GWait d ds), st))"
| "RemoteSyncWorker murmur L thread_no (GWait d ds) st =
     (if FC_Size (rt_clients st ! thread_no) > 1000 then (TRunning (GWait d ds), st)
      else remote_dir thread_no d ds st)"
| "RemoteSyncWorker murmur L thread_no (GFiles dir_src_path dir_dst_path [] ds) st = (TRunning (GDirs ds), st)"
| "RemoteSyncWorker murmur L thread_no (GFiles dir_src_path dir_dst_path (f # fs) ds) st =
     (TRunning (GFiles dir_src_path dir_dst_path fs ds),
      put_if thread_no (remote_file L (yt_fs (rt_base st)) dir_src_path dir_dst_path f) st)"
| "RemoteSyncWorker murmur L thread_no GComplete st =
     (TRunning GAwait, on_client thread_no SetFillQueueComplete st)"
| "RemoteSyncWorker murmur L thread_no GAwait st =
     (case FC_Await (rt_clients st ! thread_no) of
        None \<Rightarrow> (TRunning GAwait, st)
      | Some (_, c) \<Rightarrow> (TDone, on_client thread_no (\<lambda>_. c) st))"
| "RemoteSyncWorker murmur L thread_no (GUnwind e) st =
     (if FC_joined (rt_clients st ! thread_no) then TThrew e else TRunning (GUnwind e), st)"

section \<open>SyncRemote\<close>

definition remote_start :: "nat \<Rightarrow> FileClient \<Rightarrow> sync_st \<Rightarrow> remote_st" where
  "remote_start n c base = \<lparr>rt_base = base, rt_clients = replicate n (FC_Start c)\<rparr>"

text \<open>The setting of the clients of one synchronisation.\<close>

definition remote_case :: "'b client_libs \<Rightarrow> SyncContext \<Rightarrow> fs \<Rightarrow> 'b upload_case" where
  "remote_case C ctx s = \<lparr>u_libs = C, u_fs = s, u_sync = ctx, u_puts = (\<lambda>x. sx_op x = Op_FileExists)\<rparr>"

text \<open>
  \<open>None\<close>: the call does not return, a client cannot be constructed, or the schedule ends before
  the workers do.  The scan finds its context at \<^verbatim>\<open>&scan_ctx\<close>; ignored directories are not handed on.
\<close>

definition SyncRemote ::
  "(string \<Rightarrow> int) \<Rightarrow> ('c, 'z) scan_libs \<Rightarrow> 'b client_libs \<Rightarrow> scan_env \<Rightarrow> ScanContext \<Rightarrow> remote_event sched list
   \<Rightarrow> SyncManager \<Rightarrow> SyncContext \<Rightarrow> fs \<Rightarrow> sync_result option" where
  "SyncRemote murmur L C E fresh es m ctx s =
     (case ValidateRemoteSyncParameters L s ctx of
        (Inl e, ctx1) \<Rightarrow> Some (Inl e, m, ctx1, s)
      | (Inr ret, ctx1) \<Rightarrow>
          if ret \<noteq> Err_Success then Some (Inr ret, m, ctx1\<lparr>y_err_code := ret\<rparr>, s)
          else let ctx2 = Sync_Reset ctx1
               in case ParallelScan L E (sync_scan m) (make_scan_ctx fresh ctx2) s of
                    None \<Rightarrow> None
                  | Some (Inl e, sm, sc1, s1) \<Rightarrow> Some (Inl e, m\<lparr>sync_scan := sm\<rparr>, ctx2\<lparr>y_scan_ctx := Some sc1\<rparr>, s1)
                  | Some (Inr ret, sm, sc1, s1) \<Rightarrow>
                      if ret \<noteq> Err_Success
                      then Some (Inr ret, m\<lparr>sync_scan := sm\<rparr>, ctx2\<lparr>y_scan_ctx := Some sc1\<rparr>, s1)
                      else let ctx3 = set_totals sc1 ctx2; n = nat (y_max_threads ctx3);
                               m1 = m\<lparr>sync_scan := sm, syncing := syncing m + 1\<rparr>
                           in case FC_new ctx3 of
                                Inl _ \<Rightarrow> None
                              | Inr c \<Rightarrow>
                                  (case run_tasks (RemoteSyncWorker murmur L) (remote_env_step (remote_case C ctx3 s1)) es
                                          (replicate n (TRunning (GDirs (sync_status ctx3))),
                                           remote_start n c \<lparr>yt_ctx = ctx3, yt_fs = s1, yt_stop = sync_stop m1\<rparr>) of
                                     None \<Rightarrow> None
                                   | Some (Some e, st) \<Rightarrow> Some (Inl e, m1, rt_ctx st, yt_fs (rt_base st))
                                   | Some (None, st) \<Rightarrow>
                                       (let m2 = (if yt_stop (rt_base st) then Sync_Stop m1 else m1)
                                        in Some (Inr (y_err_code (rt_ctx st)), m2\<lparr>syncing := syncing m2 - 1\<rparr>, rt_ctx st,
                                                 yt_fs (rt_base st)))))"

section \<open>RecursiveRemoteSyncWorker\<close>

text \<open>
  One directory entry of a worker that walks the tree: a directory is queued and asked about under
  the name of the directory that holds it; an entry that is neither a link nor a regular file is
  asked about without a type.  An exception of the loop over the entries is only logged.
\<close>

definition ask_entry ::
  "('c, 'z) scan_libs \<Rightarrow> fs \<Rightarrow> string \<Rightarrow> string \<Rightarrow> string \<times> fkind \<Rightarrow> SendContext option" where
  "ask_entry L s cur_dir dst_dir entry =
     (let file_src_path = cur_dir @ ''/'' @ fst entry;
          send = SendContext_new\<lparr>sx_src := file_src_path, sx_dst := dst_dir @ ''/'' @ fst entry, sx_op := Op_FileExists\<rparr>
      in case snd entry of
           KLink t \<Rightarrow>
             (case SyncRemoteSymlink (sl_boost L) s cur_dir file_src_path '''' of
                (ok, target) \<Rightarrow>
                  if ok then Some (send\<lparr>sx_file_type := FT_Symlink, sx_content := target\<rparr>) else None)
         | KReg d \<Rightarrow> Some (send\<lparr>sx_file_type := FT_Regular\<rparr>)
         | _ \<Rightarrow> Some send)"

datatype walk_phase =
  KCheck string
  | KWait string string
  | KEntries string string "(string \<times> fkind) list"

definition walk_check ::
  "('c, 'z) scan_libs \<Rightarrow> string \<Rightarrow> remote_st \<Rightarrow> (remote_st \<times> walk_phase option) option" where
  "walk_check L cur_dir st =
     (let ctx = rt_ctx st
      in case Relative (sl_boost L) cur_dir (y_src ctx) of
           None \<Rightarrow> None
         | Some (_, relative_path) \<Rightarrow>
             if relative_path \<in> set (y_ignored_dirs ctx) then Some (st, None)
             else if \<not> Exists (yt_fs (rt_base st)) cur_dir then Some (st, None)
             else Some (st, Some (KWait cur_dir (y_dst ctx @ ''/'' @ relative_path))))"

definition walk_wait :: "nat \<Rightarrow> string \<Rightarrow> string \<Rightarrow> remote_st \<Rightarrow> remote_st \<times> walk_phase option" where
  "walk_wait thread_no cur_dir dst_dir st =
     (if FC_Size (rt_clients st ! thread_no) > 1000 then (st, Some (KWait cur_dir dst_dir))
      else let ctx = rt_ctx st
           in (set_ctx (ctx\<lparr>y_total_dir_cnt := y_total_dir_cnt ctx + 1\<rparr>) st,
               case fs_entries (yt_fs (rt_base st)) cur_dir of
                 Inl e \<Rightarrow> None
               | Inr es \<Rightarrow> Some (KEntries cur_dir dst_dir es)))"

definition walk_entry ::
  "('c, 'z) scan_libs \<Rightarrow> nat \<Rightarrow> string \<Rightarrow> string \<Rightarrow> string \<times> fkind \<Rightarrow> remote_st \<Rightarrow> remote_st \<times> bool" where
  "walk_entry L thread_no cur_dir dst_dir entry st =
     (let ctx = rt_ctx st; s = yt_fs (rt_base st); path = entry_path cur_dir (fst entry)
      in if snd entry = KDir
         then (on_client thread_no (FC_Put (ask_dir cur_dir dst_dir))
                 (set_ctx (ctx\<lparr>y_dir_queue := BQ_PushBack path (y_dir_queue ctx)\<rparr>) st), True)
         else if entry_throws s path (snd entry) then (st, False)
         else (put_if thread_no (ask_entry L s cur_dir dst_dir entry)
                 (set_ctx (ctx\<lparr>y_total_file_cnt := y_total_file_cnt ctx + 1\<rparr>) st), True))"

fun walk_step ::
  "('c, 'z) scan_libs \<Rightarrow> nat \<Rightarrow> walk_phase \<Rightarrow> remote_st \<Rightarrow> (remote_st \<times> walk_phase option) option" where
  "walk_step L thread_no (KCheck cur_dir) st = walk_check L cur_dir st"
| "walk_step L thread_no (KWait cur_dir dst_dir) st = Some (walk_wait thread_no cur_dir dst_dir st)"
| "walk_step L thread_no (KEntries cur_dir dst_dir []) st = Some (st, None)"
| "walk_step L thread_no (KEntries cur_dir dst_dir (e # es)) st =
     (case walk_entry L thread_no cur_dir dst_dir e st of
        (st', go) \<Rightarrow> Some (st', if go then Some (KEntries cur_dir dst_dir es) else None))"

definition RecursiveRemoteSyncWorker :: "('c, 'z) scan_libs \<Rightarrow> nat \<Rightarrow> (remote_st, walk_phase) job" where
  "RecursiveRemoteSyncWorker L thread_no =
     \<lparr>jqueue = (\<lambda>st. y_dir_queue (rt_ctx st)),
      jset_queue = (\<lambda>q st. set_ctx ((rt_ctx st)\<lparr>y_dir_queue := q\<rparr>) st),
      jstop = (\<lambda>st. yt_stop (rt_base st)),
      jinterrupt = (\<lambda>st. set_ctx (sync_error (Err_Sync_interrupted (sl_codes L)) (rt_ctx st)) st),
      jstart = KCheck, jwork = walk_step L thread_no\<rparr>"

section \<open>SyncRemoteRecursive\<close>

text \<open>
  The threads of \<^verbatim>\<open>SyncRemoteRecursive\<close>: first \<^verbatim>\<open>RecursiveRemoteSyncWorker\<close>, which after its loop completes
  and awaits its client; a thread that is posted again runs \<^verbatim>\<open>RecursiveLocalSyncWorker\<close>.
\<close>

datatype rr_worker =
  RRemote "walk_phase worker"
  | RRComplete
  | RRAwait
  | RRLocal "sync_phase worker"
  | RRStopped

definition lift_local :: "('c, 'z) scan_libs \<Rightarrow> sync_phase worker \<Rightarrow> remote_st \<Rightarrow> rr_worker \<times> remote_st" where
  "lift_local L w st =
     (case worker_step (RecursiveLocalSyncWorker L) w (rt_base st) of
        (w', base) \<Rightarrow> (if w' = WStopped then RRStopped else RRLocal w', st\<lparr>rt_base := base\<rparr>))"

fun rr_step :: "('c, 'z) scan_libs \<Rightarrow> nat \<Rightarrow> rr_worker \<Rightarrow> remote_st \<Rightarrow> rr_worker \<times> remote_st" where
  "rr_step L i (RRemote w) st =
     (case worker_step (RecursiveRemoteSyncWorker L i) w st of
        (w', st') \<Rightarrow> (if w' = WStopped then RRComplete else RRemote w', st'))"
| "rr_step L i RRComplete st = (RRAwait, on_client i SetFillQueueComplete st)"
| "rr_step L i RRAwait st =
     (case FC_Await (rt_clients st ! i) of
        None \<Rightarrow> (RRAwait, st)
      | Some (_, c) \<Rightarrow> (RRStopped, on_client i (\<lambda>_. c) st))"
| "rr_step L i (RRLocal w) st = lift_local L w st"
| "rr_step L i RRStopped st = (RRStopped, st)"

fun rr_event ::
  "('c, 'z) scan_libs \<Rightarrow> 'b upload_case \<Rightarrow> remote_event sched \<Rightarrow> rr_worker list \<times> remote_st
   \<Rightarrow> (rr_worker list \<times> remote_st) option" where
  "rr_event L X (Run i) (ws, st) =
     (if i < length ws \<and> ws ! i \<noteq> RRStopped then let (w, st') = rr_step L i (ws ! i) st in Some (ws[i := w], st') else None)"
| "rr_event L X (Restart i) (ws, st) =
     (if i < length ws \<and> ws ! i = RRStopped \<and> BQ_Size (y_dir_queue (rt_ctx st)) > 0
      then Some (ws[i := RRLocal (WIdle 0)], st) else None)"
| "rr_event L X (Env e) (ws, st) = Some (ws, remote_env_step X e st)"

fun rr_events ::
  "('c, 'z) scan_libs \<Rightarrow> 'b upload_case \<Rightarrow> remote_event sched list \<Rightarrow> rr_worker list \<times> remote_st
   \<Rightarrow> (rr_worker list \<times> remote_st) option" where
  "rr_events L X [] st = Some st"
| "rr_events L X (e # es) st = (case rr_event L X e st of None \<Rightarrow> None | Some st' \<Rightarrow> rr_events L X es st')"

text \<open>
  Client \<open>n\<close>, after those of the \<open>n\<close> threads, is the client of the calling thread: it is started and
  awaited, and nothing is put into it.
\<close>

definition SyncRemoteRecursive ::
  "('c, 'z) scan_libs \<Rightarrow> 'b client_libs \<Rightarrow> remote_event sched list \<Rightarrow> SyncManager \<Rightarrow> SyncContext \<Rightarrow> fs
   \<Rightarrow> sync_result option" where
  "SyncRemoteRecursive L C es m ctx s =
     (case ValidateRemoteSyncParameters L s ctx of
        (Inl e, ctx1) \<Rightarrow> Some (Inl e, m, ctx1, s)
      | (Inr ret, ctx1) \<Rightarrow>
          if ret \<noteq> Err_Success then Some (Inr ret, m, ctx1\<lparr>y_err_code := ret\<rparr>, s)
          else let ctx2 = Sync_Reset ctx1;
                   ctx3 = ctx2\<lparr>y_dir_queue := BQ_PushBack (y_src ctx2) (y_dir_queue ctx2)\<rparr>;
                   n = nat (y_max_threads ctx3); m1 = m\<lparr>syncing := syncing m + 1\<rparr>
               in case FC_new ctx3 of
                    Inl _ \<Rightarrow> None
                  | Inr c \<Rightarrow>
                      (case rr_events L (remote_case C ctx3 s) es
                              (replicate n (RRemote (WIdle 0)),
                               remote_start (Suc n) c \<lparr>yt_ctx = ctx3, yt_fs = s, yt_stop = sync_stop m1\<rparr>) of
                         None \<Rightarrow> None
                       | Some (ws, st) \<Rightarrow>
                           if \<not> list_all (\<lambda>w. w = RRStopped) ws then None
                           else (case FC_Await (rt_clients st ! n) of
                                   None \<Rightarrow> None
                                 | Some _ \<Rightarrow>
                                     (let m2 = (if yt_stop (rt_base st) then Sync_Stop m1 else m1)
                                      in Some (Inr (if y_err_code (rt_ctx st) = Err_Success then Err_Success else Err_Fail),
                                               m2\<lparr>syncing := syncing m2 - 1\<rparr>, rt_ctx st, yt_fs (rt_base st))))))"

section \<open>The recursive synchronisation does not return\<close>

text \<open>A client into which nothing is put and which is never told that nothing will be.\<close>

definition idle_client :: "FileClient \<Rightarrow> bool" where
  "idle_client c \<longleftrightarrow>
     fc_pc c = PcWait \<and> fc_queue c = [] \<and> \<not> fc_fill_complete c \<and> \<not> fc_send_stopped c \<and> fc_sent c = []
     \<and> (fc_reader c = RdWait \<or> fc_reader c = RdEnd) \<and> fc_writing c = None \<and> (fc_done c \<longrightarrow> fc_locked c)"

lemma idle_client_start: "FC_new sy = Inr c \<Longrightarrow> idle_client (FC_Start c)"
  by (auto simp: idle_client_def FC_new_def client_defs split: if_splits)

lemma idle_client_sync [simp]: "idle_client (c\<lparr>fc_sync := sy\<rparr>) = idle_client c"
  by (simp add: idle_client_def)

lemma idle_client_event:
  assumes "idle_client c" and "own_event e" and "client_do X e c = Some c'"
  shows "idle_client c'"
proof (cases e)
  case (EvSend u)
  then show ?thesis
    using assms by (auto simp: idle_client_def ok_result_def Send_step_def FC_Size_def BQ_Size_def split: if_splits)
next
  case EvRead
  then show ?thesis using assms by (auto simp: idle_client_def ok_result_def read_step_def)
next
  case EvDoneEnd
  then show ?thesis using assms by (auto simp: idle_client_def OnDone_end_def FC_Stopped_def split: if_splits)
qed (use assms in \<open>auto simp: idle_client_def own_event_def client_defs split: if_splits print_pc.splits\<close>)

lemma idle_client_waits: "idle_client c \<Longrightarrow> FC_Await c = None"
  by (auto simp: idle_client_def FC_Await_def)

text \<open>A step of one thread leaves the clients of the others alone.\<close>

definition only_client :: "nat \<Rightarrow> remote_st \<Rightarrow> remote_st \<Rightarrow> bool" where
  "only_client i st st' \<longleftrightarrow>
     length (rt_clients st') = length (rt_clients st) \<and> (\<forall>j. j \<noteq> i \<longrightarrow> rt_clients st' ! j = rt_clients st ! j)"

lemma only_client_refl [simp]: "only_client i st st"
  by (simp add: only_client_def)

lemma only_client_trans: "only_client i st st1 \<Longrightarrow> only_client i st1 st2 \<Longrightarrow> only_client i st st2"
  by (simp add: only_client_def)

lemma only_client_on [simp]: "only_client i st (on_client i f st)"
  by (simp add: only_client_def on_client_def)

lemma only_client_ctx [simp]: "only_client i st (set_ctx ctx st') = only_client i st st'"
  by (simp add: only_client_def set_ctx_def)

lemma only_client_on_ctx [simp]: "only_client i st (on_client i f (set_ctx ctx st))"
  by (simp add: only_client_def on_client_def set_ctx_def)

lemma only_client_put [simp]: "only_client i st (put_if i x st)" "only_client i st (put_if i x (set_ctx ctx st))"
  by (auto simp: put_if_def split: option.splits)

lemma walk_step_only: "walk_step L i p st = Some (st', q) \<Longrightarrow> only_client i st st'"
  by (cases "(L, i, p, st)" rule: walk_step.cases)
    (auto simp: walk_check_def walk_wait_def walk_entry_def Let_def split: option.splits if_splits prod.splits)

lemma rr_step_only:
  assumes "rr_step L i w st = (w', st')"
  shows "only_client i st st'"
proof (cases w)
  case (RRemote v)
  have "only_client i st (snd (worker_step (RecursiveRemoteSyncWorker L i) v st))"
    by (cases v) (auto simp: RecursiveRemoteSyncWorker_def dest: walk_step_only split: option.splits prod.splits)
  then show ?thesis using RRemote assms by (auto split: prod.splits)
next
  case (RRLocal v)
  then show ?thesis using assms by (auto simp: lift_local_def only_client_def split: prod.splits)
qed (use assms in \<open>auto split: option.splits\<close>)

lemma rr_event_idle:
  assumes "rr_event L X ev (ws, st) = Some (ws', st')" and "idle_client (rt_clients st ! n)"
    and "length ws \<le> n" and "n < length (rt_clients st)"
  shows "idle_client (rt_clients st' ! n) \<and> length ws' = length ws \<and> length (rt_clients st') = length (rt_clients st)"
proof (cases ev)
  case (Run i)
  then have i: "i < length ws" "ws' = ws[i := fst (rr_step L i (ws ! i) st)]" "st' = snd (rr_step L i (ws ! i) st)"
    using assms(1) by (auto simp: Let_def split: if_splits prod.splits)
  then have "only_client i st st'" using rr_step_only [of L i "ws ! i" st] by (cases "rr_step L i (ws ! i) st") auto
  then show ?thesis using i assms(2,3) by (simp add: only_client_def)
next
  case (Restart i)
  then show ?thesis using assms by (auto split: if_splits)
next
  case (Env e)
  then have st': "st' = remote_env_step X e st" "ws' = ws" using assms(1) by auto
  show ?thesis
  proof (cases e)
    case RemoteStop
    then show ?thesis using st' assms(2) by simp
  next
    case (RemoteClient i ce)
    have "idle_client c" if "i = n" "own_event ce"
      "client_do (X\<lparr>u_fs := yt_fs (rt_base st)\<rparr>) ce ((rt_clients st ! i)\<lparr>fc_sync := rt_ctx st\<rparr>) = Some c" for c
      using idle_client_event [OF _ that(2,3)] assms(2) that(1) by simp
    then show ?thesis
      using RemoteClient st' assms(2,4)
      by (auto simp: set_ctx_def nth_list_update split: option.splits)
  qed
qed

lemma rr_events_idle:
  "rr_events L X es (ws, st) = Some (ws', st') \<Longrightarrow> idle_client (rt_clients st ! n) \<Longrightarrow> length ws \<le> n
   \<Longrightarrow> n < length (rt_clients st) \<Longrightarrow> idle_client (rt_clients st' ! n)"
proof (induction es arbitrary: ws st)
  case (Cons e es)
  then obtain ws1 st1 where "rr_event L X e (ws, st) = Some (ws1, st1)" "rr_events L X es (ws1, st1) = Some (ws', st')"
    by (auto split: option.splits)
  then show ?case using Cons.IH [of ws1 st1] rr_event_idle [of L X e ws st ws1 st1 n] Cons.prems by auto
qed simp

text \<open>
  C26: \<^verbatim>\<open>SyncRemoteRecursive\<close> never returns once its parameters have been accepted, whatever the
  schedule of its threads and clients and whatever the server does: the calling thread awaits an
  upload client of its own, into which nothing is put and which is never told that the queue is
  complete, so that its \<^verbatim>\<open>Send\<close> waits for ever, even when the stream has ended.
\<close>

theorem SyncRemoteRecursive_never_returns:
  assumes "ValidateRemoteSyncParameters L s ctx = (Inr Err_Success, ctx1)"
  shows "SyncRemoteRecursive L C es m ctx s = None"
proof -
  let ?ctx2 = "Sync_Reset ctx1"
  let ?ctx3 = "?ctx2\<lparr>y_dir_queue := BQ_PushBack (y_src ?ctx2) (y_dir_queue ?ctx2)\<rparr>"
  let ?n = "nat (y_max_threads ?ctx3)"
  show ?thesis
  proof (cases "FC_new ?ctx3")
    case (Inl e)
    then show ?thesis using assms by (simp add: SyncRemoteRecursive_def Let_def)
  next
    case (Inr c)
    have "FC_Await (rt_clients st ! ?n) = None"
      if "rr_events L (remote_case C ?ctx3 s) es
           (replicate ?n (RRemote (WIdle 0)),
            remote_start (Suc ?n) c \<lparr>yt_ctx = ?ctx3, yt_fs = s, yt_stop = sync_stop (m\<lparr>syncing := syncing m + 1\<rparr>)\<rparr>) = Some (ws, st)"
      for ws st
      using that idle_client_start [OF Inr]
      by (intro idle_client_waits rr_events_idle [OF that]) (auto simp: remote_start_def simp del: replicate_Suc)
    then show ?thesis using assms Inr by (auto simp: SyncRemoteRecursive_def Let_def split: option.splits)
  qed
qed

lemma demo_remote_valid: "ValidateRemoteSyncParameters demo_scan_libs demo_fs demo_upload_ctx = (Inr Err_Success, demo_upload_ctx)"
  by code_simp

theorem SyncRemoteRecursive_never_returns_witness:
  "SyncRemoteRecursive demo_scan_libs (u_libs demo_upload)
     [Run 0, Run 0, Run 0, Env (RemoteClient 4 (EvSend ''u'')), Env (RemoteClient 4 (EvDone 0))]
     \<lparr>syncing = 0, sync_stop = False, sync_scan = \<lparr>scanning = 0, scan_stop = False\<rparr>\<rparr> demo_upload_ctx demo_fs = None"
  by (rule SyncRemoteRecursive_never_returns [OF demo_remote_valid])

end
