(* ===== verification/SyncInquire.thy ===== *)
theory SyncInquire
  imports SyncRemote TaskRely
begin

text \<open>
  \<^verbatim>\<open>SyncRemote\<close>: what its threads ask the server.  Each thread feeds its own upload client with one
  inquiry for every directory assigned to it and for every file of it, and every state of that
  client is one the client model reaches; so the properties of the upload client hold of the
  clients of the synchronisation.
\<close>

section \<open>What a directory of the status calls for\<close>

definition dir_asks :: "('c, 'z) scan_libs \<Rightarrow> SyncContext \<Rightarrow> fs \<Rightarrow> string \<times> Dir \<Rightarrow> SendContext list" where
  "dir_asks L ctx s d =
     (let a = y_src ctx @ ''/'' @ fst d; b = y_dst ctx @ ''/'' @ fst d
      in if Exists s a \<and> fs_is_directory s a = Inr True
         then ask_dir a b # List.map_filter (remote_file L s a b) (d_files (snd d)) else [])"

definition asked :: "FileClient \<Rightarrow> SendContext list" where
  "asked c = map faded (filter (\<lambda>x. sx_op x = Op_FileExists) (fc_heap c))"

text \<open>A status with its context, the number of threads and the hash.\<close>

record ('c, 'z, 'b) ask_case =
  aq_murmur :: "string \<Rightarrow> int"
  aq_libs :: "('c, 'z) scan_libs"
  aq_client :: "'b client_libs"
  aq_ctx :: SyncContext
  aq_fs :: fs
  aq_dirs :: "(string \<times> Dir) list"

abbreviation aq_case :: "('c, 'z, 'b) ask_case \<Rightarrow> 'b upload_case" where
  "aq_case Q \<equiv> remote_case (aq_client Q) (aq_ctx Q) (aq_fs Q)"

definition handed :: "('c, 'z, 'b) ask_case \<Rightarrow> nat \<Rightarrow> string \<times> Dir \<Rightarrow> bool" where
  "handed Q i d \<longleftrightarrow> assigned (aq_murmur Q) (y_max_threads (aq_ctx Q)) (fst d) = int i"

definition asks_of :: "('c, 'z, 'b) ask_case \<Rightarrow> nat \<Rightarrow> (string \<times> Dir) list \<Rightarrow> SendContext list" where
  "asks_of Q i ds = concat (map (dir_asks (aq_libs Q) (aq_ctx Q) (aq_fs Q)) (filter (handed Q i) ds))"

section \<open>The clients stay within the client model\<close>

text \<open>Counters and the error code are all that changes in the context.\<close>

definition ctx_params :: "SyncContext \<Rightarrow> (int \<times> RepoType \<times> string \<times> string \<times> string \<times> HashMethod) \<times> string \<times> string \<times> int" where
  "ctx_params ctx = (client_params ctx, y_src ctx, y_dst ctx, y_max_threads ctx)"

definition ask_ok :: "('c, 'z, 'b) ask_case \<Rightarrow> remote_st \<Rightarrow> bool" where
  "ask_ok Q st \<longleftrightarrow>
     yt_fs (rt_base st) = aq_fs Q \<and> \<not> yt_stop (rt_base st) \<and> ctx_params (rt_ctx st) = ctx_params (aq_ctx Q)
     \<and> (\<forall>c \<in> set (rt_clients st). client_reach (aq_case Q) (c\<lparr>fc_sync := rt_ctx st\<rparr>))"

definition ask_rel :: "nat option \<Rightarrow> remote_st \<Rightarrow> remote_st \<Rightarrow> bool" where
  "ask_rel a st st' \<longleftrightarrow>
     length (rt_clients st') = length (rt_clients st)
     \<and> (\<forall>i < length (rt_clients st). a \<noteq> Some i \<longrightarrow>
          asked (rt_clients st' ! i) = asked (rt_clients st ! i)
          \<and> fc_fill_complete (rt_clients st' ! i) = fc_fill_complete (rt_clients st ! i))"

lemma reach_shared:
  assumes "client_reach X (c\<lparr>fc_sync := sy\<rparr>)" and "client_params sy' = client_params sy"
  shows "client_reach X (c\<lparr>fc_sync := sy'\<rparr>)"
  by (rule client_reach.step [OF assms(1), of "EvShared sy'"]) (simp add: assms(2))

lemma reach_put:
  assumes "client_reach (aq_case Q) (c\<lparr>fc_sync := sy\<rparr>)" and "\<not> fc_fill_complete c" and "sx_op x = Op_FileExists"
  shows "client_reach (aq_case Q) ((FC_Put x c)\<lparr>fc_sync := sy\<rparr>)"
  by (rule client_reach.step [OF assms(1), of "EvPut x"]) (simp add: assms(2,3) remote_case_def FC_Put_def)

lemma reach_complete:
  assumes "client_reach X (c\<lparr>fc_sync := sy\<rparr>)"
  shows "client_reach X ((SetFillQueueComplete c)\<lparr>fc_sync := sy\<rparr>)"
  by (rule client_reach.step [OF assms, of EvComplete]) (simp add: SetFillQueueComplete_def)

lemma reach_await:
  assumes "client_reach X (c\<lparr>fc_sync := sy\<rparr>)" and "FC_Await c = Some (r, c')"
  shows "client_reach X (c'\<lparr>fc_sync := sy\<rparr>)"
  by (rule client_reach.step [OF assms(1), of EvAwait]) (use assms(2) in \<open>auto simp: FC_Await_def split: if_splits\<close>)

text \<open>What a client does of itself adds no inquiry.\<close>

lemma asked_update: "faded x = faded (h ! i) \<Longrightarrow> i < length h \<Longrightarrow>
  map faded (filter (\<lambda>x. sx_op x = Op_FileExists) (h[i := x])) = map faded (filter (\<lambda>x. sx_op x = Op_FileExists) h)"
proof (induction h arbitrary: i)
  case (Cons y h)
  then show ?case using fadedD(1) [of x y] by (cases i) auto
qed simp

lemma asked_heap:
  assumes "faded x = faded (fc_heap c ! i)"
  shows "map faded (filter (\<lambda>x. sx_op x = Op_FileExists) ((fc_heap c)[i := x])) = asked c"
  using assms asked_update [of x "fc_heap c" i] by (cases "i < length (fc_heap c)") (simp_all add: asked_def not_less list_update_beyond)

lemma count_file_sync [simp]: "fc_sync (count_file c) = sync_done (fc_sync c)"
  by (simp add: count_file_def)

lemma count_file_complete [simp]: "fc_fill_complete (count_file c) = fc_fill_complete c"
  by (simp add: count_file_def)

lemma registered_complete [simp]: "fc_fill_complete (registered i u c) = fc_fill_complete c"
  by (simp add: registered_def split: option.splits)

lemma start_write_simps:
  "start_write c = Inr c' \<Longrightarrow> fc_heap c' = fc_heap c \<and> fc_sync c' = fc_sync c \<and> fc_fill_complete c' = fc_fill_complete c"
  by (auto simp: start_write_def split: if_splits)

lemma BatchSend_simps:
  "BatchSend k got c = Inr c' \<Longrightarrow> fc_heap c' = fc_heap c \<and> fc_sync c' = fc_sync c \<and> fc_fill_complete c' = fc_fill_complete c"
  by (auto simp: BatchSend_def dest!: start_write_simps split: if_splits)

lemma goto_pc_shared [simp]: "fc_heap (goto_pc p c) = fc_heap c" "fc_sync (goto_pc p c) = fc_sync c"
  by (simp_all add: goto_pc_def)

lemma fill_asked:
  assumes "send_fill L s u i c = Inr c'"
  shows "asked c' = asked c \<and> fc_fill_complete c' = fc_fill_complete c \<and> (fc_sync c' = fc_sync c \<or> fc_sync c' = sync_done (fc_sync c))"
  using assms
proof (cases rule: send_fill_cases)
  case (2 r ctx c1)
  then have "fc_heap c1 = (fc_heap c)[i := ctx]" "fc_fill_complete c1 = fc_fill_complete c"
    "fc_sync c1 = fc_sync c \<or> fc_sync c1 = sync_done (fc_sync c)" by (auto simp: filled_def)
  then show ?thesis
    using start_write_simps [OF 2(5)] asked_heap [OF FillRequest_ctx [OF 2(2)]] by (simp add: asked_def)
next
  case (1 r ctx)
  then show ?thesis using asked_heap [OF FillRequest_ctx [OF 1(2)]] by (simp add: asked_def filled_def)
next
  case (3 r ctx e)
  then show ?thesis using asked_heap [OF FillRequest_ctx [OF 3(2)]] by (simp add: asked_def filled_def)
next
  case (4 r ctx d b)
  then show ?thesis using asked_heap [OF FillRequest_ctx [OF 4(2)]] by (simp add: asked_def filled_def)
qed

lemma send_asked:
  assumes "Send_step L s u c = Inr c'"
  shows "asked c' = asked c \<and> fc_fill_complete c' = fc_fill_complete c \<and> (fc_sync c' = fc_sync c \<or> fc_sync c' = sync_done (fc_sync c))"
proof (cases "fc_pc c")
  case (PcFill i)
  then show ?thesis using fill_asked assms by (simp add: Send_step_def)
next
  case (PcRead i k f)
  then show ?thesis
    using assms by (auto simp: Send_step_def send_read_def asked_def dest!: BatchSend_simps split: prod.splits if_splits)
next
  case (PcResend i k f st)
  then show ?thesis
    using assms
    by (auto simp: Send_step_def send_resend_def asked_def Let_def dest!: BatchSend_simps split: prod.splits if_splits)
next
  case (PcEnd i st)
  then show ?thesis using assms by (auto simp: Send_step_def asked_def)
qed (use assms in \<open>auto simp: Send_step_def asked_def stop_send_def Let_def split: if_splits option.splits\<close>)

lemma own_event_asked:
  assumes "own_event e" and "client_do X e c = Some c'"
  shows "asked c' = asked c \<and> fc_fill_complete c' = fc_fill_complete c \<and> (fc_sync c' = fc_sync c \<or> fc_sync c' = sync_done (fc_sync c))"
proof (cases e)
  case (EvSend u)
  then have s: "Send_step (u_libs X) (u_fs X) u c = Inr c'"
    using assms(2) by (auto simp: ok_result_def split: if_splits sum.splits)
  then show ?thesis using send_asked by blast
next
  case EvRead
  then have "read_step c = Inr c'" using assms by (auto simp: ok_result_def split: sum.splits)
  then show ?thesis
  proof (cases rule: read_step_cases)
    case (3 res c1)
    from 3(3) have "asked c1 = asked c"
      by (cases rule: on_answer_cases) (auto simp: asked_heap FC_Put_def asked_def SendContext_new_def)
    then show ?thesis using 3(4) on_answer_frame [OF 3(3)] by (simp add: asked_def)
  qed (auto simp: asked_def)
qed (use assms in \<open>auto simp: asked_def own_event_def client_defs split: if_splits print_pc.splits\<close>)


lemma done_params: "sy' = sy \<or> sy' = sync_done sy \<Longrightarrow> ctx_params sy' = ctx_params sy"
  by (auto simp: ctx_params_def client_params_def sync_done_def)

lemma remote_env_ok:
  assumes "ask_ok Q st" and "e \<noteq> RemoteStop"
  shows "ask_ok Q (remote_env_step (aq_case Q) e st) \<and> ask_rel None st (remote_env_step (aq_case Q) e st)"
proof (cases e)
  case (RemoteClient i ce)
  have same: "(aq_case Q)\<lparr>u_fs := yt_fs (rt_base st)\<rparr> = aq_case Q"
    using assms(1) by (simp add: ask_ok_def remote_case_def)
  show ?thesis
  proof (cases "i < length (rt_clients st) \<and> own_event ce")
    case True
    let ?c = "(rt_clients st ! i)\<lparr>fc_sync := rt_ctx st\<rparr>"
    show ?thesis
    proof (cases "client_do (aq_case Q) ce ?c")
      case None
      then show ?thesis using assms(1) True RemoteClient same by (simp add: ask_rel_def)
    next
      case (Some c)
      note a = own_event_asked [OF conjunct2 [OF True] Some]
      have r: "client_reach (aq_case Q) c" using assms(1) True Some by (auto simp: ask_ok_def intro: client_reach.step)
      have p: "ctx_params (fc_sync c) = ctx_params (aq_ctx Q)"
        using assms(1) a done_params [of "fc_sync c" "fc_sync ?c"] by (simp add: ask_ok_def)
      let ?st' = "set_ctx (fc_sync c) (st\<lparr>rt_clients := (rt_clients st)[i := c]\<rparr>)"
      have "client_reach (aq_case Q) (x\<lparr>fc_sync := fc_sync c\<rparr>)" if "x \<in> set ((rt_clients st)[i := c])" for x
      proof (cases "x = c")
        case False
        then have "x \<in> set (rt_clients st)" using that set_update_subset_insert by fastforce
        then show ?thesis using assms(1) p by (auto simp: ask_ok_def ctx_params_def intro: reach_shared)
      qed (use r in simp)
      then have "ask_ok Q ?st'" using assms(1) p by (simp add: ask_ok_def set_ctx_def)
      moreover have "ask_rel None st ?st'" using a True by (auto simp: ask_rel_def set_ctx_def nth_list_update asked_def)
      ultimately show ?thesis using Some True RemoteClient same by simp
    qed
  next
    case False
    then have "remote_env_step (aq_case Q) e st = st" using RemoteClient by auto
    then show ?thesis using assms(1) by (simp add: ask_rel_def)
  qed
qed (use assms(2) in simp)

section \<open>What a thread knows\<close>

fun ask_knows :: "('c, 'z, 'b) ask_case \<Rightarrow> nat \<Rightarrow> remote_phase task \<Rightarrow> remote_st \<Rightarrow> bool" where
  "ask_knows Q i (TRunning (GDirs ds)) st \<longleftrightarrow>
     i < length (rt_clients st) \<and> \<not> fc_fill_complete (rt_clients st ! i)
     \<and> (\<exists>seen. aq_dirs Q = seen @ ds \<and> asked (rt_clients st ! i) = asks_of Q i seen)"
| "ask_knows Q i (TRunning (GWait d ds)) st \<longleftrightarrow>
     i < length (rt_clients st) \<and> \<not> fc_fill_complete (rt_clients st ! i) \<and> handed Q i d
     \<and> (\<exists>seen. aq_dirs Q = seen @ d # ds \<and> asked (rt_clients st ! i) = asks_of Q i seen)"
| "ask_knows Q i (TRunning (GFiles a b fs ds)) st \<longleftrightarrow>
     i < length (rt_clients st) \<and> \<not> fc_fill_complete (rt_clients st ! i)
     \<and> (\<exists>seen d. aq_dirs Q = seen @ d # ds \<and> handed Q i d
          \<and> asked (rt_clients st ! i) @ List.map_filter (remote_file (aq_libs Q) (aq_fs Q) a b) fs = asks_of Q i (seen @ [d]))"
| "ask_knows Q i (TRunning GComplete) st \<longleftrightarrow>
     i < length (rt_clients st) \<and> \<not> fc_fill_complete (rt_clients st ! i) \<and> asked (rt_clients st ! i) = asks_of Q i (aq_dirs Q)"
| "ask_knows Q i (TRunning GAwait) st \<longleftrightarrow> i < length (rt_clients st) \<and> asked (rt_clients st ! i) = asks_of Q i (aq_dirs Q)"
| "ask_knows Q i (TRunning (GUnwind e)) st \<longleftrightarrow> True"
| "ask_knows Q i TDone st \<longleftrightarrow> i < length (rt_clients st) \<and> asked (rt_clients st ! i) = asks_of Q i (aq_dirs Q)"
| "ask_knows Q i (TThrew e) st \<longleftrightarrow> True"
| "ask_knows Q i THung st \<longleftrightarrow> True"

lemma ask_stable:
  assumes "ask_knows Q i t st" and "a \<noteq> Some i" and "ask_rel a st st'"
  shows "ask_knows Q i t st'"
  using assms by (cases "(Q, i, t, st)" rule: ask_knows.cases) (auto simp: ask_rel_def)

lemma asks_of_snoc [simp]:
  "asks_of Q i (seen @ [d]) = asks_of Q i seen @ (if handed Q i d then dir_asks (aq_libs Q) (aq_ctx Q) (aq_fs Q) d else [])"
  by (simp add: asks_of_def)

lemma on_client_nth [simp]: "i < length (rt_clients st) \<Longrightarrow> rt_clients (on_client i f st) ! i = f (rt_clients st ! i)"
  by (simp add: on_client_def)

lemma on_client_length [simp]: "length (rt_clients (on_client i f st)) = length (rt_clients st)"
  by (simp add: on_client_def)

lemma on_client_rel [simp]: "ask_rel (Some i) st (on_client i f st)"
  by (simp add: ask_rel_def on_client_def)

lemma ask_rel_refl [simp]: "ask_rel a st st"
  by (simp add: ask_rel_def)

lemma on_client_ok:
  assumes "ask_ok Q st" and "i < length (rt_clients st)"
    and "client_reach (aq_case Q) ((f (rt_clients st ! i))\<lparr>fc_sync := rt_ctx st\<rparr>)"
  shows "ask_ok Q (on_client i f st)"
proof -
  have "client_reach (aq_case Q) (c\<lparr>fc_sync := rt_ctx st\<rparr>)" if "c \<in> set ((rt_clients st)[i := f (rt_clients st ! i)])" for c
    using that assms set_update_subset_insert by (fastforce simp: ask_ok_def)
  then show ?thesis using assms(1) by (simp add: ask_ok_def on_client_def)
qed

lemma client_known: "ask_ok Q st \<Longrightarrow> i < length (rt_clients st) \<Longrightarrow> client_reach (aq_case Q) ((rt_clients st ! i)\<lparr>fc_sync := rt_ctx st\<rparr>)"
  by (simp add: ask_ok_def)

lemma put_ok:
  assumes "ask_ok Q st" and "i < length (rt_clients st)" and "\<not> fc_fill_complete (rt_clients st ! i)" and "sx_op x = Op_FileExists"
  shows "ask_ok Q (on_client i (FC_Put x) st)"
    and "asked (rt_clients (on_client i (FC_Put x) st) ! i) = asked (rt_clients st ! i) @ [faded x]"
    and "\<not> fc_fill_complete (rt_clients (on_client i (FC_Put x) st) ! i)"
  using assms on_client_ok [where f = "FC_Put x", OF assms(1,2) reach_put [OF client_known [OF assms(1,2)] assms(3,4)]]
  by (simp_all add: asked_def FC_Put_def)

lemma remote_file_ask: "remote_file L s a b f = Some x \<Longrightarrow> sx_op x = Op_FileExists \<and> faded x = x"
  by (auto simp: remote_file_def SendContext_new_def faded_def Let_def split: if_splits prod.splits)

lemma remote_dir_ok:
  assumes "ask_ok Q st" and "ask_knows Q i (TRunning (GWait d ds)) st" and "remote_dir i d ds st = (u, st')"
  shows "ask_ok Q st' \<and> ask_knows Q i u st' \<and> ask_rel (Some i) st st'"
proof -
  let ?a = "y_src (aq_ctx Q) @ ''/'' @ fst d" and ?b = "y_dst (aq_ctx Q) @ ''/'' @ fst d"
  have paths: "y_src (rt_ctx st) = y_src (aq_ctx Q)" "y_dst (rt_ctx st) = y_dst (aq_ctx Q)" "yt_fs (rt_base st) = aq_fs Q"
    using assms(1) by (simp_all add: ask_ok_def ctx_params_def)
  obtain seen where k: "i < length (rt_clients st)" "\<not> fc_fill_complete (rt_clients st ! i)" "handed Q i d"
    "aq_dirs Q = seen @ d # ds" "asked (rt_clients st ! i) = asks_of Q i seen" using assms(2) by auto
  show ?thesis
  proof (cases "Exists (aq_fs Q) ?a \<and> fs_is_directory (aq_fs Q) ?a = Inr True")
    case True
    have e: "sx_op (ask_dir ?a ?b) = Op_FileExists" "faded (ask_dir ?a ?b) = ask_dir ?a ?b"
      by (simp_all add: ask_dir_def faded_def SendContext_new_def)
    note p = put_ok [OF assms(1) k(1,2) e(1)]
    have "dir_asks (aq_libs Q) (aq_ctx Q) (aq_fs Q) d
        = ask_dir ?a ?b # List.map_filter (remote_file (aq_libs Q) (aq_fs Q) ?a ?b) (d_files (snd d))"
      using True by (simp add: dir_asks_def Let_def)
    then have "ask_knows Q i (TRunning (GFiles ?a ?b (d_files (snd d)) ds)) (on_client i (FC_Put (ask_dir ?a ?b)) st)"
      using k p e(2) by auto
    then show ?thesis
      using assms(1,3) True p(1) by (auto simp: remote_dir_def paths Let_def split: sum.splits)
  next
    case False
    then have "dir_asks (aq_libs Q) (aq_ctx Q) (aq_fs Q) d = []" by (simp add: dir_asks_def Let_def)
    then have "ask_knows Q i (TRunning (GDirs ds)) st" using k by (auto intro!: exI [of _ "seen @ [d]"])
    then show ?thesis
      using assms(1,3) False by (auto simp: remote_dir_def paths Let_def split: if_splits sum.splits bool.splits)
  qed
qed

lemma remote_worker_ok:
  assumes "ask_ok Q st" and "ask_knows Q i (TRunning t) st"
    and "RemoteSyncWorker (aq_murmur Q) (aq_libs Q) i t st = (u, st')"
  shows "ask_ok Q st' \<and> ask_knows Q i u st' \<and> ask_rel (Some i) st st'"
proof (cases t)
  case (GDirs ds)
  have "\<not> yt_stop (rt_base st)" "y_max_threads (rt_ctx st) = y_max_threads (aq_ctx Q)"
    using assms(1) by (simp_all add: ask_ok_def ctx_params_def)
  then show ?thesis
    using assms GDirs by (cases ds) (auto simp: handed_def split: if_splits intro!: exI [of _ "_ @ [_]"])
next
  case (GWait d ds)
  then show ?thesis
    using assms remote_dir_ok [OF assms(1), of i d ds u st'] by (cases "FC_Size (rt_clients st ! i) > 1000") auto
next
  case (GFiles a b fs ds)
  show ?thesis
  proof (cases fs)
    case Nil
    then show ?thesis using assms GFiles by (auto simp: List.map_filter_simps)
  next
    case (Cons f fs')
    have fs: "yt_fs (rt_base st) = aq_fs Q" using assms(1) by (simp add: ask_ok_def)
    have st': "u = TRunning (GFiles a b fs' ds)" "st' = put_if i (remote_file (aq_libs Q) (aq_fs Q) a b f) st"
      using assms(3) GFiles Cons fs by simp_all
    have k: "i < length (rt_clients st)" "\<not> fc_fill_complete (rt_clients st ! i)" using assms(2) GFiles by auto
    show ?thesis
    proof (cases "remote_file (aq_libs Q) (aq_fs Q) a b f")
      case None
      then show ?thesis using assms(1,2) st' GFiles Cons by (auto simp: put_if_def List.map_filter_simps)
    next
      case (Some x)
      note x = remote_file_ask [OF Some] and p = put_ok [OF assms(1) k conjunct1 [OF remote_file_ask [OF Some]]]
      show ?thesis
        using assms(2) st' GFiles Cons Some x p k by (auto simp: put_if_def List.map_filter_simps)
    qed
  qed
next
  case GComplete
  have k: "i < length (rt_clients st)" using assms(2) GComplete by simp
  have "ask_ok Q (on_client i SetFillQueueComplete st)"
    by (rule on_client_ok [where f = SetFillQueueComplete, OF assms(1) k reach_complete [OF client_known [OF assms(1) k]]])
  then show ?thesis using assms GComplete k by (auto simp: SetFillQueueComplete_def asked_def)
next
  case GAwait
  have k: "i < length (rt_clients st)" using assms(2) GAwait by simp
  show ?thesis
  proof (cases "FC_Await (rt_clients st ! i)")
    case None
    then show ?thesis using assms GAwait by auto
  next
    case (Some r)
    then obtain x c where r: "FC_Await (rt_clients st ! i) = Some (x, c)" by (cases r) auto
    have "ask_ok Q (on_client i (\<lambda>_. c) st)"
      by (rule on_client_ok [where f = "\<lambda>_. c", OF assms(1) k reach_await [OF client_known [OF assms(1) k] r]])
    moreover have "asked c = asked (rt_clients st ! i)" using r by (auto simp: FC_Await_def asked_def split: if_splits)
    ultimately show ?thesis using assms GAwait k r by auto
  qed
next
  case (GUnwind e)
  then show ?thesis using assms by (auto split: if_splits)
qed

interpretation ask_tasks: rely_guarantee "RemoteSyncWorker (aq_murmur Q) (aq_libs Q)" "remote_env_step (aq_case Q)"
  "\<lambda>e. e \<noteq> RemoteStop" "ask_ok Q" "ask_knows Q" ask_rel for Q :: "('c, 'z, 'b) ask_case"
  by unfold_locales (use remote_worker_ok ask_stable remote_env_ok in blast)+


section \<open>Everything is asked about\<close>

lemma asked_member:
  assumes "client_reach X c" and "fc_writes_done c" and "0 < upload_size X" and "x \<in> set (asked c)"
  shows "\<exists>uuid. set (requests_of X x uuid) \<subseteq> set (fc_sent c)"
proof -
  note u = upload_closed [OF assms(1-3)]
  obtain i where i: "i < length (fc_heap c)" "x = faded (fc_heap c ! i)"
    using assms(4) by (auto simp: asked_def in_set_conv_nth)
  then have "i \<in> fst ` set (fc_taken c)" using u(2) by simp
  then obtain uuid where "(i, uuid) \<in> set (fc_taken c)" by auto
  then have "set (requests_of X (fc_heap c ! i) uuid) \<subseteq> set (fc_sent c)" unfolding u(1) due_def by fastforce
  moreover have "requests_of X x uuid = requests_of X (fc_heap c ! i) uuid"
    by (rule requests_of_faded) (simp add: i(2) faded_def)
  ultimately show ?thesis by (intro exI [of _ uuid]) simp
qed

lemma reach_sync: "client_reach X c \<Longrightarrow> client_params sy = client_params (fc_sync c) \<Longrightarrow> client_reach X (c\<lparr>fc_sync := sy\<rparr>)"
  using reach_shared [where c = c and sy = "fc_sync c"] by simp

lemma ask_start:
  assumes "FC_new (aq_ctx Q) = Inr c"
  shows "all_know (ask_ok Q) (ask_knows Q)
    (replicate n (TRunning (GDirs (aq_dirs Q))), remote_start n c \<lparr>yt_ctx = aq_ctx Q, yt_fs = aq_fs Q, yt_stop = False\<rparr>)"
proof -
  have c: "fc_sync (FC_Start c) = aq_ctx Q" "\<not> fc_fill_complete (FC_Start c)" "asked (FC_Start c) = []"
    using assms by (auto simp: FC_new_def client_defs asked_def split: if_splits)
  have "client_reach (aq_case Q) (FC_Start c)" by (rule client_reach.start) (simp add: remote_case_def assms)
  then have "client_reach (aq_case Q) ((FC_Start c)\<lparr>fc_sync := aq_ctx Q\<rparr>)" by (rule reach_sync) (simp add: c(1))
  then show ?thesis
    using c(2,3) by (auto simp: all_know_def ask_ok_def remote_start_def asks_of_def intro!: exI [of _ "[]"])
qed

lemma thrown_None: "list_all ended ts \<Longrightarrow> thrown ts = None \<Longrightarrow> list_all (\<lambda>t. t = TDone) ts"
  by (induction ts rule: thrown.induct) (auto simp: ended_def split: task.splits)



definition demo_ask_case :: "(evp_md \<times> bytes, bytes, bytes) ask_case" where
  "demo_ask_case =
     \<lparr>aq_murmur = (\<lambda>_. 0), aq_libs = demo_scan_libs, aq_client = u_libs demo_upload,
      aq_ctx = demo_upload_ctx\<lparr>y_max_threads := 1\<rparr>, aq_fs = demo_fs,
      aq_dirs = [('''', \<lparr>d_path = '''', d_update_time = 0, d_user = '''', d_group = '''',
        d_files = [(''f'', FileG_default\<lparr>f_file_type := FT_Regular\<rparr>)], d_visible_users = []\<rparr>)]\<rparr>"

text \<open>One thread asks about a directory and its file; both answers arrive and the stream ends.\<close>

definition demo_ask_answer :: "string \<Rightarrow> string \<Rightarrow> FileType \<Rightarrow> FileResX" where
  "demo_ask_answer u dst ty =
     FileResX_default\<lparr>fs_op := Op_FileExists, fs_request_id := u, fr_dst := dst, fr_res_type := ty, fs_err_code := 0\<rparr>"

definition demo_ask_schedule :: "remote_event sched list" where
  "demo_ask_schedule =
     replicate 7 (Run 0)
     @ map (\<lambda>e. Env (RemoteClient 0 e))
         ([EvSend ''x'', EvSend ''x'', EvSend ''x'', EvSend ''u'', EvWritten True, EvSend ''x'',
           EvSend ''x'', EvSend ''x'', EvSend ''v'', EvWritten True, EvSend ''x'',
           EvAnswer (demo_ask_answer ''u'' ''/b//f'' FT_Regular), EvRead, EvRead,
           EvAnswer (demo_ask_answer ''v'' ''/b/'' FT_Direcotry), EvRead, EvRead]
          @ replicate 3 (EvSend ''y'') @ replicate 5 (EvSend ''z'') @ [EvReadError, EvPrint, EvDone 0, EvPrint, EvDoneEnd])
     @ [Run 0]"

definition demo_remote_run :: "(errno option \<times> remote_st) option" where
  "demo_remote_run =
     run_tasks (RemoteSyncWorker (aq_murmur demo_ask_case) (aq_libs demo_ask_case)) (remote_env_step (aq_case demo_ask_case))
       demo_ask_schedule
       (replicate 1 (TRunning (GDirs (aq_dirs demo_ask_case))),
        remote_start 1 (case FC_new (aq_ctx demo_ask_case) of Inr c \<Rightarrow> c)
          \<lparr>yt_ctx = aq_ctx demo_ask_case, yt_fs = aq_fs demo_ask_case, yt_stop = False\<rparr>)"


lemma demo_ask_runs:
  "map_option fst demo_remote_run = Some None"
  "map_option (\<lambda>x. (list_all fc_writes_done (rt_clients (snd x)),
     map (\<lambda>cl. map (\<lambda>q. (fx_dst q, fx_file_type q)) (fc_sent cl)) (rt_clients (snd x)))) demo_remote_run
   = Some (True, [[(''/b//f'', FT_Regular), (''/b/'', FT_Direcotry)]])"
  by code_simp+

lemma demo_ask_events: "list_all (event_ok (\<lambda>e. e \<noteq> RemoteStop)) demo_ask_schedule"
  by code_simp


end
