(* ===== verification/Clients.thy ===== *)
theory Clients
  imports GrpcServer Scan
begin

text \<open>
  The clients of \<^verbatim>\<open>src/src/client/grpc_client/\<close> that make unary calls: \<^verbatim>\<open>UserClient\<close>, \<^verbatim>\<open>RepoClient\<close> and
  \<^verbatim>\<open>ServerClient\<close>.  The stub is generated code and gRPC: it is an argument of every operation, and the
  locale \<open>unary_stub\<close> states what the clients rely on.  It is interpreted on the request handlers of
  the server behind a link that may lose the request or the reply.
\<close>

section \<open>Messages\<close>

text \<open>
  \<^verbatim>\<open>grpc_repo_client.h\<close> sets a field \<^verbatim>\<open>path\<close> of the request and reads a field \<^verbatim>\<open>dir\<close> of the response, which
  \<^verbatim>\<open>service.proto\<close> does not declare; the handlers know neither.
\<close>

record RepoReqX = RepoReq +
  rx_path :: string

record RepoResX = RepoRes +
  ry_dir :: Dir

definition Dir_default :: Dir where
  "Dir_default = \<lparr>d_path = '''', d_update_time = 0, d_user = '''', d_group = '''', d_files = [], d_visible_users = []\<rparr>"

definition RepoReqX_default :: RepoReqX where
  "RepoReqX_default = RepoReq.extend RepoReq_default \<lparr>rx_path = ''''\<rparr>"

definition RepoResX_of :: "RepoRes \<Rightarrow> RepoResX" where
  "RepoResX_of res = RepoRes.extend res \<lparr>ry_dir = Dir_default\<rparr>"

section \<open>Calls\<close>

text \<open>
  The two tests after every call: whether gRPC delivered a response, and its error code.
\<close>

definition checked :: "('res \<Rightarrow> int) \<Rightarrow> bool \<times> 'res \<times> 'w \<Rightarrow> 'res option \<times> 'w" where
  "checked err r = (case r of (ok, res, w) \<Rightarrow> (if ok \<and> err res = 0 then Some res else None, w))"

section \<open>UserClient\<close>

definition Client_Register ::
  "(UserReq \<Rightarrow> 'w \<Rightarrow> bool \<times> UserRes \<times> 'w) \<Rightarrow> string \<Rightarrow> string \<Rightarrow> string \<Rightarrow> string \<Rightarrow> 'w \<Rightarrow> bool \<times> string \<times> 'w" where
  "Client_Register stub request_id user password token w =
     (case checked us_err_code (stub (UserReq_default\<lparr>uq_request_id := request_id, uq_op := Op_UserCreate,
             uq_user := user, uq_password := password\<rparr>) w) of
        (None, w') \<Rightarrow> (False, token, w')
      | (Some res, w') \<Rightarrow> (True, us_token res, w'))"

definition Client_Login ::
  "(UserReq \<Rightarrow> 'w \<Rightarrow> bool \<times> UserRes \<times> 'w) \<Rightarrow> string \<Rightarrow> string \<Rightarrow> string \<Rightarrow> string \<Rightarrow> 'w \<Rightarrow> bool \<times> string \<times> 'w" where
  "Client_Login stub request_id user password token w =
     (case checked us_err_code (stub (UserReq_default\<lparr>uq_request_id := request_id, uq_op := Op_UserLogin,
             uq_user := user, uq_password := password\<rparr>) w) of
        (None, w') \<Rightarrow> (False, token, w')
      | (Some res, w') \<Rightarrow> (True, us_token res, w'))"

definition Client_ChangePassword ::
  "(UserReq \<Rightarrow> 'w \<Rightarrow> bool \<times> UserRes \<times> 'w) \<Rightarrow> string \<Rightarrow> string \<Rightarrow> string \<Rightarrow> string \<Rightarrow> string \<Rightarrow> 'w \<Rightarrow> bool \<times> 'w" where
  "Client_ChangePassword stub request_id user old_password new_password token w =
     (case checked us_err_code (stub (UserReq_default\<lparr>uq_request_id := request_id, uq_op := Op_UserChangePassword,
             uq_user := user, uq_old_password := old_password, uq_password := new_password, uq_token := token\<rparr>) w) of
        (r, w') \<Rightarrow> (r \<noteq> None, w'))"

section \<open>RepoClient\<close>

definition repo_request :: "RepoOp \<Rightarrow> string \<Rightarrow> string \<Rightarrow> string \<Rightarrow> RepoReqX" where
  "repo_request op request_id user token =
     RepoReqX_default\<lparr>rq_request_id := request_id, rq_op := op, rq_user := user, rq_token := token\<rparr>"

text \<open>\<^verbatim>\<open>repos->swap\<close>: the map of the caller is exchanged for that of the response.\<close>

definition Client_ListUserRepo ::
  "(RepoReqX \<Rightarrow> 'w \<Rightarrow> bool \<times> RepoResX \<times> 'w) \<Rightarrow> string \<Rightarrow> string \<Rightarrow> string \<Rightarrow> Repos \<Rightarrow> 'w \<Rightarrow> bool \<times> Repos \<times> 'w" where
  "Client_ListUserRepo stub request_id user token repos w =
     (case checked rs_err_code (stub (repo_request Op_RepoListUserRepo request_id user token) w) of
        (None, w') \<Rightarrow> (False, repos, w')
      | (Some res, w') \<Rightarrow> (True, rs_repos res, w'))"

definition Client_ListServerDir ::
  "(RepoReqX \<Rightarrow> 'w \<Rightarrow> bool \<times> RepoResX \<times> 'w) \<Rightarrow> string \<Rightarrow> string \<Rightarrow> string \<Rightarrow> string \<Rightarrow> Dir \<Rightarrow> 'w \<Rightarrow> bool \<times> Dir \<times> 'w" where
  "Client_ListServerDir stub request_id user token path dir w =
     (case checked rs_err_code (stub ((repo_request Op_RepoListServerDir request_id user token)\<lparr>rx_path := path\<rparr>) w) of
        (None, w') \<Rightarrow> (False, dir, w')
      | (Some res, w') \<Rightarrow> (True, ry_dir res, w'))"

definition Client_CreateServerDir ::
  "(RepoReqX \<Rightarrow> 'w \<Rightarrow> bool \<times> RepoResX \<times> 'w) \<Rightarrow> string \<Rightarrow> string \<Rightarrow> string \<Rightarrow> string \<Rightarrow> 'w \<Rightarrow> bool \<times> 'w" where
  "Client_CreateServerDir stub request_id user token path w =
     (case checked rs_err_code (stub ((repo_request Op_RepoCreateServerDir request_id user token)\<lparr>rx_path := path\<rparr>) w) of
        (r, w') \<Rightarrow> (r \<noteq> None, w'))"

text \<open>
  \<^verbatim>\<open>*repo = res.mutable_repos()->begin()->second\<close> is undefined when the response has no repository
  (outer \<open>None\<close>).
\<close>

definition Client_CreateRepo ::
  "(RepoReqX \<Rightarrow> 'w \<Rightarrow> bool \<times> RepoResX \<times> 'w) \<Rightarrow> string \<Rightarrow> string \<Rightarrow> string \<Rightarrow> string \<Rightarrow> string \<Rightarrow> RepoMeta \<Rightarrow> 'w
   \<Rightarrow> (bool \<times> RepoMeta) option \<times> 'w" where
  "Client_CreateRepo stub request_id user token repo_name path repo w =
     (case checked rs_err_code (stub ((repo_request Op_RepoCreateRepo request_id user token)\<lparr>rq_repo_name := repo_name,
             rx_path := path\<rparr>) w) of
        (None, w') \<Rightarrow> (Some (False, repo), w')
      | (Some res, w') \<Rightarrow> (case rs_repos res of [] \<Rightarrow> None | (k, m) # _ \<Rightarrow> Some (True, m), w'))"

definition Client_DeleteRepo ::
  "(RepoReqX \<Rightarrow> 'w \<Rightarrow> bool \<times> RepoResX \<times> 'w) \<Rightarrow> string \<Rightarrow> string \<Rightarrow> string \<Rightarrow> string \<Rightarrow> 'w \<Rightarrow> bool \<times> 'w" where
  "Client_DeleteRepo stub request_id user token repo_uuid w =
     (case checked rs_err_code (stub ((repo_request Op_RepoDeleteRepo request_id user token)\<lparr>rq_repo_uuid := repo_uuid\<rparr>) w) of
        (r, w') \<Rightarrow> (r \<noteq> None, w'))"

section \<open>ServerClient\<close>

definition Client_Status :: "(ServerReq \<Rightarrow> 'w \<Rightarrow> bool \<times> ServerRes \<times> 'w) \<Rightarrow> ServerReq \<Rightarrow> 'w \<Rightarrow> bool \<times> ServerRes \<times> 'w" where
  "Client_Status stub req w = (case stub req w of (ok, res, w') \<Rightarrow> (ok, res, w'))"

section \<open>What the clients rely on\<close>

text \<open>
  A call that gRPC reports as OK was served once and brought back the response; one that failed was
  not served, or served without its response arriving.
\<close>

locale unary_stub =
  fixes stub :: "'l \<Rightarrow> 'req \<Rightarrow> 'w \<Rightarrow> bool \<times> 'res \<times> 'w" and serve :: "'req \<Rightarrow> 'w \<Rightarrow> 'res option \<times> 'w"
  assumes answered: "stub l req w = (True, res, w') \<Longrightarrow> serve req w = (Some res, w')"
    and unanswered: "stub l req w = (False, res, w') \<Longrightarrow> w' = w \<or> w' = snd (serve req w)"
begin

lemma accepted: "checked err (stub l req w) = (Some res, w') \<Longrightarrow> serve req w = (Some res, w') \<and> err res = 0"
  using answered [of l req w res w'] by (auto simp: checked_def split: prod.splits if_splits)

lemma refused: "checked err (stub l req w) = (None, w') \<Longrightarrow> w' = w \<or> w' = snd (serve req w)"
proof -
  assume c: "checked err (stub l req w) = (None, w')"
  obtain ok res v where s: "stub l req w = (ok, res, v)" by (cases "stub l req w")
  then have "v = w'" using c by (auto simp: checked_def split: if_splits)
  then show ?thesis using s answered [of l req w res v] unanswered [of l req w res v] by (cases ok) auto
qed

end

text \<open>A link to a server, per call.\<close>

datatype link = Delivered | RequestLost | ReplyLost

definition link_call :: "('req \<Rightarrow> 'w \<Rightarrow> 'res option \<times> 'w) \<Rightarrow> 'res \<Rightarrow> link \<Rightarrow> 'req \<Rightarrow> 'w \<Rightarrow> bool \<times> 'res \<times> 'w" where
  "link_call serve res0 l req w =
     (if l = RequestLost then (False, res0, w)
      else case serve req w of
             (Some res, w') \<Rightarrow> (if l = Delivered then (True, res, w') else (False, res0, w'))
           | (None, w') \<Rightarrow> (False, res0, w'))"

definition user_serve :: "'d libs \<Rightarrow> call_env \<Rightarrow> UserReq \<Rightarrow> 'd server \<Rightarrow> UserRes option \<times> 'd server" where
  "user_serve L e req = UserOpHandle L e req UserRes_default"

definition repo_serve :: "'d libs \<Rightarrow> call_env \<Rightarrow> repo_env \<Rightarrow> RepoReqX \<Rightarrow> 'd server \<Rightarrow> RepoResX option \<times> 'd server" where
  "repo_serve L e re req sv =
     (case RepoOpHandle L e re (RepoReq.truncate req) RepoRes_default sv of (r, sv') \<Rightarrow> (map_option RepoResX_of r, sv'))"

abbreviation user_link :: "'d libs \<Rightarrow> call_env \<Rightarrow> link \<Rightarrow> UserReq \<Rightarrow> 'd server \<Rightarrow> bool \<times> UserRes \<times> 'd server" where
  "user_link L e \<equiv> link_call (user_serve L e) UserRes_default"

abbreviation repo_link ::
  "'d libs \<Rightarrow> call_env \<Rightarrow> repo_env \<Rightarrow> link \<Rightarrow> RepoReqX \<Rightarrow> 'd server \<Rightarrow> bool \<times> RepoResX \<times> 'd server" where
  "repo_link L e re \<equiv> link_call (repo_serve L e re) (RepoResX_of RepoRes_default)"

interpretation user_stub: unary_stub "user_link L e" "user_serve L e" for L :: "'d libs" and e
  by unfold_locales (auto simp: link_call_def split: if_splits option.splits prod.splits)

interpretation repo_stub: unary_stub "repo_link L e re" "repo_serve L e re" for L :: "'d libs" and e re
  by unfold_locales (auto simp: link_call_def split: if_splits option.splits prod.splits)


definition server_serve :: "ServerReq \<Rightarrow> config_st \<Rightarrow> ServerRes option \<times> config_st" where
  "server_serve req c = (Some (ServerOpHandle c req ServerRes_default), c)"

interpretation server_stub: unary_stub "link_call server_serve ServerRes_default" server_serve
  by unfold_locales (auto simp: link_call_def split: if_splits option.splits prod.splits)

section \<open>Sessions through the clients\<close>

lemma repo_truncate [simp]:

  "RepoReq.truncate (repo_request op rid user token) = RepoReq_default\<lparr>rq_request_id := rid, rq_op := op, rq_user := user, rq_token := token\<rparr>"
  by (simp_all add: repo_request_def RepoReqX_default_def RepoReq.defs RepoReq_default_def)

lemma repo_truncate_path [simp]: "RepoReq.truncate (req\<lparr>rx_path := p\<rparr>) = RepoReq.truncate (req :: RepoReqX)"
  by (simp add: RepoReq.defs)

lemma RepoResX_of_simps [simp]:
  "rs_err_code (RepoResX_of res) = rs_err_code res" "rs_repos (RepoResX_of res) = rs_repos res"
  by (simp_all add: RepoResX_of_def RepoRes.defs)

lemma client_session:
  assumes "server_reach L sv log" and "ce_uuid e \<notin> fst ` set log" and "ce_uuid e \<noteq> ''''"
    and "Client_Register (user_link L e l) rid user password tok sv = (True, token, sv')
      \<or> Client_Login (user_link L e l) rid user password tok sv = (True, token, sv')"
    and "now - ce_now e < 300000"
  shows "ValidateSession now token (us_sess (sv_user sv')) = Some user \<and> token \<noteq> ''''"
proof -
  have key: ?thesis if req: "uq_op req \<in> {Op_UserCreate, Op_UserLogin}" "uq_user req = user" and res: "us_token res = token"
    and c: "checked us_err_code (user_link L e l req sv) = (Some res, sv')" for req res
  proof -
    have h: "UserOpHandle L e req UserRes_default sv = (Some res, sv')" "us_err_code res = Err_Success"
      using user_stub.accepted [OF c] by (simp_all add: user_serve_def Err_Success_def)
    show ?thesis using issued_session(1,2) [OF assms(1-3) req(1) h assms(5)] req(2) res by simp
  qed
  from assms(4) show ?thesis
    by (elim disjE; simp add: Client_Register_def Client_Login_def split: prod.splits option.splits)
      (rule key; simp)+
qed



definition demo_link_env :: repo_env where
  "demo_link_env = \<lparr>re_uuid = '''', re_location_uuid = '''', re_time = ''''\<rparr>"

lemma demo_client_register:
  "Client_Register (user_link demo_libs (demo_env ''t1'') Delivered) '''' ''bob'' ''bobspass'' '''' demo_server = (True, ''t1'', demo_server1)"
proof -
  have "UserReq_default\<lparr>uq_request_id := '''', uq_op := Op_UserCreate, uq_user := ''bob'', uq_password := ''bobspass''\<rparr> = demo_join"
    by (simp add: UserReq_default_def demo_join_def)
  then show ?thesis
    using demo_joined(1) by (simp add: Client_Register_def link_call_def user_serve_def checked_def Err_Success_def)
qed


section \<open>Paths do not reach the server\<close>

text \<open>
  The three calls of \<^verbatim>\<open>RepoClient\<close> that take a path put it into the field \<^verbatim>\<open>path\<close>, and the server reads
  \<^verbatim>\<open>dir\<close>: the answers do not depend on the path.  With a valid session \<^verbatim>\<open>CreateServerDir\<close> reports success
  and makes no directory, and \<^verbatim>\<open>ListServerDir\<close> returns an empty directory.
\<close>

lemma root_present:
  assumes "fs_wf s"
  shows "Mkdir ''/'' s = (True, s)" and "resolve s f ''/'' = Inr []" and "\<exists>ns. fs_list_dir s ''/'' = Inr ns"
proof -
  have pa: "plain_at ''/'' []" by code_simp
  have d: "is_dir (fs_nodes s) []" using assms by (simp add: fs_wf_def wf_nodes_def)
  have "good_at (fs_nodes s) []" using assms by (auto simp: fs_wf_def intro: wf_root_good)
  then show r: "resolve s f ''/'' = Inr []" for f using assms pa d by (intro resolve_plain) (auto simp: good_at_def)
  show "Mkdir ''/'' s = (True, s)" using dir_status [OF assms pa d] by (simp add: Mkdir_def Exists_iff)
  show "\<exists>ns. fs_list_dir s ''/'' = Inr ns" using r d by (simp add: fs_list_dir_def is_dir_def)
qed

theorem client_paths_lost:
  assumes "ValidateSession (ce_now e) token (us_sess (sv_user sv)) = Some user" and "token \<noteq> ''''" and "fs_wf (sv_fs sv)"
  shows "Client_CreateServerDir (repo_link L e re Delivered) rid user token path sv = (True, sv)
    \<and> Client_ListServerDir (repo_link L e re Delivered) rid user token path dir sv = (True, Dir_default, sv)
    \<and> Client_CreateRepo (repo_link L e re l) rid user token name path repo sv
      = Client_CreateRepo (repo_link L e re l) rid user token name '''' repo sv"
proof -
  note run = link_call_def repo_serve_def checked_def RepoOpHandle_def repo_gate_def assms(1,2) repo_switch_def dir_or_root_def res_code_def Err_Success_def
  have "Client_CreateServerDir (repo_link L e re Delivered) rid user token path sv = (True, sv)"
    using root_present(1) [OF assms(3)] by (simp add: Client_CreateServerDir_def run CreateServerDir_def RepoReq_default_def)
  moreover have "Client_ListServerDir (repo_link L e re Delivered) rid user token path dir sv = (True, Dir_default, sv)"
    using root_present(2,3) [OF assms(3)]
    by (auto simp: Client_ListServerDir_def run ListServerDir_def RepoReq_default_def RepoResX_of_def RepoRes.defs)
  moreover have "Client_CreateRepo (repo_link L e re l) rid user token name path repo sv
      = Client_CreateRepo (repo_link L e re l) rid user token name '''' repo sv"
    by (simp add: Client_CreateRepo_def link_call_def repo_serve_def)
  ultimately show ?thesis by blast
qed

theorem client_paths_lost_witness:
  "Client_CreateServerDir (repo_link demo_libs (demo_env '''') demo_link_env Delivered) '''' ''bob'' ''t1'' ''/a/new'' demo_server1
     = (True, demo_server1)
   \<and> kind_at (fs_nodes (sv_fs demo_server1)) [''a'', ''new''] = None"
proof -
  have "ValidateSession 1000 ''t1'' (us_sess (sv_user demo_server1)) = Some ''bob''"
    unfolding demo_joined(2) by code_simp
  then have v: "ValidateSession (ce_now (demo_env '''')) ''t1'' (us_sess (sv_user demo_server1)) = Some ''bob''"
    by (simp add: demo_env_def)
  have w: "fs_wf (sv_fs demo_server1)" by (simp add: demo_joined(4) demo_wf)
  have "kind_at (fs_nodes demo_fs) [''a'', ''new''] = None" by code_simp
  then show ?thesis using client_paths_lost [OF v _ w, of demo_libs demo_link_env "''''" "''/a/new''"] by (simp add: demo_joined(4))
qed

text \<open>
  A successful answer to \<^verbatim>\<open>CreateRepo\<close> always has a repository, so the dereference in the client is defined.
\<close>

lemma CreateRepo_filled: "CreateRepo J re req res st s = Some (Err_Success, res', st', s') \<Longrightarrow> rs_repos res' \<noteq> []"
  by (auto simp: CreateRepo_def err_defs Let_def pmap_insert_def split: sum.splits prod.splits option.splits if_splits bool.splits)

theorem client_repo_defined: "fst (Client_CreateRepo (repo_link L e re l) rid user token name path repo sv) \<noteq> None"
proof (cases "checked rs_err_code (repo_link L e re l ((repo_request Op_RepoCreateRepo rid user token)\<lparr>rq_repo_name := name, rx_path := path\<rparr>) sv)")
  case (Pair r sv')
  show ?thesis
  proof (cases r)
    case None
    then show ?thesis using Pair by (simp add: Client_CreateRepo_def)
  next
    case (Some res)
    have "rs_repos res \<noteq> []"
      using repo_stub.accepted [OF Pair [unfolded Some]] CreateRepo_filled
      by (fastforce simp: repo_serve_def RepoOpHandle_def repo_switch_def repo_request_def RepoReqX_default_def RepoReq.defs
          RepoReq_default_def res_code_def err_defs split: if_splits prod.splits option.splits)
    then show ?thesis using Pair Some by (auto simp: Client_CreateRepo_def split: list.splits)
  qed
qed

end
