(* ===== verification/ReceiveQueue.thy ===== *)
theory ReceiveQueue
  imports RepoManager
begin

text \<open>
  \<^verbatim>\<open>src/src/impl/receive_queue_manager.h\<close>: the queue of uploads under way, the task \<^verbatim>\<open>Clean\<close> that finishes or
  abandons them and the task \<^verbatim>\<open>Delete\<close> that removes the files of abandoned ones.  \<^verbatim>\<open>Put\<close> and a pass of
  \<^verbatim>\<open>Clean\<close> hold the same spin lock; \<^verbatim>\<open>Delete\<close> holds the mutex of the list of files.  The file is not part of
  the build and uses members of \<^verbatim>\<open>ReceiveContext\<close> and of the request that are not declared: they are
  added to the records.
\<close>

section \<open>State\<close>

record QueueContext = ReceiveContext +
  qc_file_name :: string
  qc_file_update_time :: int
  qc_update_time :: int
  qc_dst :: string
  qc_file_hash :: string
  qc_part_num :: int

text \<open>
  \<open>Looping now kept rest\<close>: \<^verbatim>\<open>Clean\<close> holds the lock; its iterator stands at the head of \<open>rest\<close>, the entries
  \<open>kept\<close> are behind it.
\<close>

datatype clean_pc = Waiting | Looping int "(string \<times> QueueContext) list" "(string \<times> QueueContext) list" | Exited

text \<open>\<^verbatim>\<open>Delete\<close> at the top of its loop, in its wait, and ended.\<close>

datatype delete_pc = AtTop | InWait | Ended

record receive_st =
  qm_queue :: "(string \<times> QueueContext) list"
  qm_stop :: bool
  qm_to_remove :: "string list"
  qm_clean :: clean_pc
  qm_last_time :: int
  qm_delete :: delete_pc

definition ReceiveQueueTimeout :: int where
  "ReceiveQueueTimeout = 5 * 60 * 1000"

definition RQ_GetSize :: "receive_st \<Rightarrow> nat" where
  "RQ_GetSize st = length (qm_queue st)"

text \<open>The state after \<^verbatim>\<open>Init\<close>, once both tasks have begun.\<close>

definition RQ_Init :: "int \<Rightarrow> receive_st" where
  "RQ_Init now =
     \<lparr>qm_queue = [], qm_stop = False, qm_to_remove = [], qm_clean = Waiting, qm_last_time = now, qm_delete = AtTop\<rparr>"

definition RQ_Stop :: "receive_st \<Rightarrow> receive_st" where
  "RQ_Stop st = st\<lparr>qm_stop := True\<rparr>"

text \<open>The end of the waiting loop of \<^verbatim>\<open>Stop\<close>.\<close>

definition RQ_Stopped :: "receive_st \<Rightarrow> bool" where
  "RQ_Stopped st \<longleftrightarrow> qm_delete st = Ended \<and> qm_clean st = Exited"

section \<open>Put\<close>

text \<open>A new entry; \<open>None\<close>: division by a part size of zero.\<close>

definition new_entry :: "FileReqX \<Rightarrow> int \<Rightarrow> QueueContext option" where
  "new_entry req now =
     (case FilePartitionNum (fx_file_size req) (fx_partition_size req) of
        None \<Rightarrow> None
      | Some n \<Rightarrow>
          Some \<lparr>rc_repo_type = fq_repo_type req,
            rc_repo_uuid = (if fq_repo_type req = RT_Ocean then fq_repo_uuid req else ''''),
            rc_repo_location = '''', rc_total_part_num = 0, rc_partitions = set_insert (fx_partition_num req) [],
            rc_file = File_default, rc_user = '''',
            qc_file_name = (if fq_repo_type req = RT_Ocean then fx_src req else ''''),
            qc_file_update_time = (if fq_repo_type req = RT_Remote then fx_update_time req else 0),
            qc_update_time = now, qc_dst = fx_dst req, qc_file_hash = fx_file_hash req, qc_part_num = n\<rparr>)"

definition RQ_Put :: "FileReqX \<Rightarrow> int \<Rightarrow> receive_st \<Rightarrow> receive_st option" where
  "RQ_Put req now st =
     (case map_of (qm_queue st) (fq_request_id req) of
        Some ctx \<Rightarrow>
          Some (st\<lparr>qm_queue := AList.update (fq_request_id req)
                    (ctx\<lparr>qc_update_time := now, rc_partitions := set_insert (fx_partition_num req) (rc_partitions ctx)\<rparr>)
                    (qm_queue st)\<rparr>)
      | None \<Rightarrow>
          (case new_entry req now of
             None \<Rightarrow> None
           | Some ctx \<Rightarrow> Some (st\<lparr>qm_queue := qm_queue st @ [(fq_request_id req, ctx)]\<rparr>)))"

section \<open>Delete\<close>

fun remove_all :: "string list \<Rightarrow> fs \<Rightarrow> fs" where
  "remove_all [] s = s"
| "remove_all (p # ps) s = remove_all ps (snd (Remove p s))"

definition RQ_Delete :: "receive_st \<times> fs \<Rightarrow> receive_st \<times> fs" where
  "RQ_Delete w =
     (case w of (st, s) \<Rightarrow>
        case qm_delete st of
          AtTop \<Rightarrow> (st\<lparr>qm_delete := (if qm_stop st then Ended else InWait)\<rparr>, s)
        | InWait \<Rightarrow>
            if qm_stop st \<or> qm_to_remove st \<noteq> []
            then (st\<lparr>qm_delete := AtTop, qm_to_remove := []\<rparr>, remove_all (qm_to_remove st) s)
            else (st, s)
        | Ended \<Rightarrow> (st, s))"

section \<open>Clean\<close>

text \<open>
  What the loop does with an entry: it goes on to the next one, erases the entry, erases it and
  hands its file to \<^verbatim>\<open>Delete\<close>, or (\<^verbatim>\<open>continue\<close> without advancing) stays.
\<close>

datatype verdict = Next | Erase | Abandon | Stay

definition clean_entry :: "repo_st \<Rightarrow> int \<Rightarrow> QueueContext \<Rightarrow> fs \<Rightarrow> verdict \<times> fs" where
  "clean_entry R now ctx s =
     (if qc_part_num ctx = int (length (rc_partitions ctx)) then
        (if rc_repo_type ctx = RT_Ocean
         then (if CreateRepoFile (ReceiveContext.truncate ctx) R \<noteq> 0 then Abandon else Erase, s)
         else if rc_repo_type ctx = RT_Remote
         then (case SetUpdateTime (qc_dst ctx) (qc_file_update_time ctx) s of (ok, s1) \<Rightarrow> (if ok then Erase else Abandon, s1))
         else (Stay, s))
      else if now - qc_update_time ctx < ReceiveQueueTimeout then (Next, s)
      else (Abandon, s))"

definition clean_step :: "repo_st \<Rightarrow> int \<Rightarrow> receive_st \<times> fs \<Rightarrow> receive_st \<times> fs" where
  "clean_step R now w =
     (case w of (st, s) \<Rightarrow>
        case qm_clean st of
          Waiting \<Rightarrow>
            if qm_stop st then (st\<lparr>qm_clean := Exited\<rparr>, s)
            else if RQ_GetSize st \<le> 5 \<and> now - qm_last_time st < 1000 * 5 then (st, s)
            else (st\<lparr>qm_last_time := now, qm_clean := Looping now [] (qm_queue st)\<rparr>, s)
        | Looping t kept [] \<Rightarrow> (st\<lparr>qm_clean := Waiting, qm_queue := kept\<rparr>, s)
        | Looping t kept ((k, ctx) # rest) \<Rightarrow>
            (case clean_entry R t ctx s of
               (Next, s1) \<Rightarrow> (st\<lparr>qm_clean := Looping t (kept @ [(k, ctx)]) rest\<rparr>, s1)
             | (Erase, s1) \<Rightarrow> (st\<lparr>qm_clean := Looping t kept rest\<rparr>, s1)
             | (Abandon, s1) \<Rightarrow>
                 (st\<lparr>qm_clean := Looping t kept rest, qm_to_remove := qm_to_remove st @ [qc_dst ctx]\<rparr>, s1)
             | (Stay, s1) \<Rightarrow> (st, s1))
        | Exited \<Rightarrow> (st, s))"

section \<open>Schedules\<close>

text \<open>A \<^verbatim>\<open>Put\<close> spins while \<^verbatim>\<open>Clean\<close> holds the lock (\<open>None\<close>: not now, or a crash).\<close>

datatype receive_event = RqPut FileReqX int | RqClean int | RqDelete | RqStop

fun receive_do :: "repo_st \<Rightarrow> receive_event \<Rightarrow> receive_st \<times> fs \<Rightarrow> (receive_st \<times> fs) option" where
  "receive_do R (RqPut req now) w =
     (case qm_clean (fst w) of
        Looping _ _ _ \<Rightarrow> None
      | _ \<Rightarrow> map_option (\<lambda>st. (st, snd w)) (RQ_Put req now (fst w)))"
| "receive_do R (RqClean now) w = Some (clean_step R now w)"
| "receive_do R RqDelete w = Some (RQ_Delete w)"
| "receive_do R RqStop w = Some (RQ_Stop (fst w), snd w)"

fun receive_run :: "repo_st \<Rightarrow> receive_event list \<Rightarrow> receive_st \<times> fs \<Rightarrow> (receive_st \<times> fs) option" where
  "receive_run R [] w = Some w"
| "receive_run R (e # es) w = (case receive_do R e w of None \<Rightarrow> None | Some w' \<Rightarrow> receive_run R es w')"

section \<open>A pass of Clean\<close>

definition parts_complete :: "QueueContext \<Rightarrow> bool" where
  "parts_complete ctx \<longleftrightarrow> qc_part_num ctx = int (length (rc_partitions ctx))"

definition supported :: "QueueContext \<Rightarrow> bool" where
  "supported ctx \<longleftrightarrow> rc_repo_type ctx \<in> {RT_Ocean, RT_Remote}"

definition awaited :: "int \<Rightarrow> QueueContext \<Rightarrow> bool" where
  "awaited now ctx \<longleftrightarrow> \<not> parts_complete ctx \<and> now - qc_update_time ctx < ReceiveQueueTimeout"

lemma clean_entry_cases:
  assumes "parts_complete ctx \<longrightarrow> supported ctx"
  shows "fst (clean_entry R now ctx s) = Next \<longleftrightarrow> awaited now ctx" and "fst (clean_entry R now ctx s) \<noteq> Stay"
  using assms by (auto simp: clean_entry_def parts_complete_def supported_def awaited_def split: prod.splits)

fun is_put :: "receive_event \<Rightarrow> bool" where
  "is_put (RqPut _ _) = True"
| "is_put _ = False"

fun is_clean :: "receive_event \<Rightarrow> bool" where
  "is_clean (RqClean _) = True"
| "is_clean _ = False"

lemma other_event:
  assumes "receive_do R e (st, s) = Some (st', s')" and "\<not> is_put e" and "\<not> is_clean e"
  shows "qm_clean st' = qm_clean st \<and> qm_queue st' = qm_queue st"
  using assms by (cases e) (auto simp: RQ_Delete_def RQ_Stop_def split: delete_pc.splits if_splits)

lemma clean_moves:
  assumes "qm_clean st = Looping t kept ((k, ctx) # rest)" and "parts_complete ctx \<longrightarrow> supported ctx"
    and "clean_step R now (st, s) = (st', s')"
  shows "qm_clean st' = Looping t (if awaited t ctx then kept @ [(k, ctx)] else kept) rest"
proof (cases "clean_entry R t ctx s")
  case (Pair v s1)
  then show ?thesis
    using clean_entry_cases [OF assms(2), of R t s] assms(1,3) by (cases v) (auto simp: clean_step_def)
qed

lemma quiet_run:
  "receive_run R es (st, s) = Some (st', s') \<Longrightarrow> list_all (\<lambda>e. \<not> is_put e) es \<Longrightarrow> filter is_clean es = []
   \<Longrightarrow> qm_clean st' = qm_clean st \<and> qm_queue st' = qm_queue st"
proof (induction es arbitrary: st s)
  case (Cons e es)
  then obtain st1 s1 where one: "receive_do R e (st, s) = Some (st1, s1)" and run: "receive_run R es (st1, s1) = Some (st', s')"
    by (auto split: option.splits)
  then show ?case using other_event [OF one] Cons.IH [OF run] Cons.prems(2,3) by (auto split: if_splits)
qed simp

lemma clean_pass:
  "receive_run R es (st, s) = Some (st', s') \<Longrightarrow> qm_clean st = Looping t kept rest \<Longrightarrow> list_all (\<lambda>e. \<not> is_put e) es
   \<Longrightarrow> \<forall>e \<in> set rest. parts_complete (snd e) \<longrightarrow> supported (snd e) \<Longrightarrow> length (filter is_clean es) = Suc (length rest)
   \<Longrightarrow> qm_clean st' = Waiting \<and> qm_queue st' = kept @ filter (\<lambda>e. awaited t (snd e)) rest"
proof (induction es arbitrary: st s kept rest)
  case (Cons e es)
  obtain st1 s1 where one: "receive_do R e (st, s) = Some (st1, s1)" and run: "receive_run R es (st1, s1) = Some (st', s')"
    using Cons.prems(1) by (auto split: option.splits)
  show ?case
  proof (cases "is_clean e")
    case False
    then have "qm_clean st1 = Looping t kept rest" using other_event [OF one] Cons.prems(2,3) by simp
    then show ?thesis using Cons.IH [OF run] Cons.prems(3-5) False by simp
  next
    case True
    then obtain now where e: "e = RqClean now" by (cases e) auto
    then have step: "clean_step R now (st, s) = (st1, s1)" using one by simp
    show ?thesis
    proof (cases rest)
      case Nil
      then have st1: "st1 = st\<lparr>qm_clean := Waiting, qm_queue := kept\<rparr>" using step Cons.prems(2) by (simp add: clean_step_def)
      have "filter is_clean es = []" using Cons.prems(5) Nil True by simp
      then have "qm_clean st' = qm_clean st1 \<and> qm_queue st' = qm_queue st1"
        using run Cons.prems(3) quiet_run by auto
      then show ?thesis using st1 Nil by simp
    next
      case more: (Cons a rest')
      obtain k ctx where a: "a = (k, ctx)" by fastforce
      note mv = clean_moves [OF _ _ step, of t kept k ctx rest']
      show ?thesis
        using Cons.IH [OF run, of "if awaited t ctx then kept @ [(k, ctx)] else kept" rest'] mv Cons.prems more a True by auto
    qed
  qed
qed simp


lemma run_total: "list_all (\<lambda>e. \<not> is_put e) es \<Longrightarrow> \<exists>w'. receive_run R es w = Some w'"
proof (induction es arbitrary: w)
  case (Cons e es)
  then obtain w1 where "receive_do R e w = Some w1" by (cases e) auto
  then show ?case using Cons by simp
qed simp

text \<open>
  C28: A pass of \<^verbatim>\<open>Clean\<close> over the receive queue ends, as long as every complete upload has a type of
  repository that the loop knows.  However \<^verbatim>\<open>Delete\<close> and \<^verbatim>\<open>Stop\<close> run in between, one step for each entry and
  one more release the lock, and the queue then holds exactly the uploads that miss a part and got one
  less than five minutes before the pass.
\<close>

theorem Clean_settles_queue:
  assumes "qm_clean st = Waiting" and "\<not> qm_stop st" and "5 < RQ_GetSize st \<or> 5000 \<le> now - qm_last_time st"
    and "\<forall>e \<in> set (qm_queue st). parts_complete (snd e) \<longrightarrow> supported (snd e)"
    and "list_all (\<lambda>e. \<not> is_put e) es" and "length (filter is_clean es) = Suc (length (qm_queue st))"
  shows "\<exists>st' s'. receive_run R (RqClean now # es) (st, s) = Some (st', s') \<and> qm_clean st' = Waiting
    \<and> qm_queue st' = filter (\<lambda>e. awaited now (snd e)) (qm_queue st)"
proof -
  let ?st1 = "st\<lparr>qm_last_time := now, qm_clean := Looping now [] (qm_queue st)\<rparr>"
  have "clean_step R now (st, s) = (?st1, s)" using assms(1-3) by (auto simp: clean_step_def)
  then have first: "receive_run R (RqClean now # es) (st, s) = receive_run R es (?st1, s)" by simp
  obtain st' s' where run: "receive_run R es (?st1, s) = Some (st', s')" using run_total [OF assms(5)] by fastforce
  have "qm_clean st' = Waiting \<and> qm_queue st' = [] @ filter (\<lambda>e. awaited now (snd e)) (qm_queue st)"
    by (rule clean_pass [OF run _ assms(5,4,6)]) simp
  then show ?thesis using first run by simp
qed

section \<open>A type the loop does not know\<close>

lemma stuck_step:
  assumes "qm_clean st = Looping t kept ((k, ctx) # rest)" and "parts_complete ctx" and "\<not> supported ctx"
    and "receive_do R e (st, s) = Some (st', s')"
  shows "qm_clean st' = qm_clean st \<and> \<not> is_put e"
proof (cases "is_clean e")
  case True
  then obtain now where "e = RqClean now" by (cases e) auto
  then show ?thesis
    using assms by (auto simp: clean_step_def clean_entry_def parts_complete_def supported_def)
next
  case False
  then show ?thesis using assms other_event [OF assms(4)] by (cases e) auto
qed

text \<open>
  A complete upload of an unsupported type hangs the server: when the loop of \<^verbatim>\<open>Clean\<close> reaches it, it
  stays there for ever with the lock held.  In no schedule does another \<^verbatim>\<open>Put\<close> get through, and \<^verbatim>\<open>Stop\<close> does
  not return.
\<close>

theorem unsupported_type_hangs:
  assumes "qm_clean st = Looping t kept ((k, ctx) # rest)" and "parts_complete ctx" and "\<not> supported ctx"
    and "receive_run R es (st, s) = Some (st', s')"
  shows "qm_clean st' = qm_clean st \<and> \<not> RQ_Stopped st' \<and> list_all (\<lambda>e. \<not> is_put e) es"
  using assms
proof (induction es arbitrary: st s)
  case (Cons e es)
  then obtain st1 s1 where one: "receive_do R e (st, s) = Some (st1, s1)" and run: "receive_run R es (st1, s1) = Some (st', s')"
    by (auto split: option.splits)
  then show ?case using stuck_step [OF Cons.prems(1-3) one] Cons.IH [OF _ Cons.prems(2,3) run] Cons.prems(1) by simp
qed (auto simp: RQ_Stopped_def)

definition demo_part :: "RepoType \<Rightarrow> string \<Rightarrow> int \<Rightarrow> FileReqX" where
  "demo_part ty rid n =
     FileReqX_default\<lparr>fq_request_id := rid, fq_repo_type := ty, fx_dst := ''/a/f'', fx_file_size := 3, fx_partition_size := 2,
       fx_partition_num := n, fx_update_time := 5000\<rparr>"

definition demo_two :: receive_st where
  "demo_two =
     fst (the (receive_run demo_rst [RqPut (demo_part RT_Remote ''x'' 0) 10, RqPut (demo_part RT_Remote ''x'' 1) 20,
        RqPut (demo_part RT_Remote ''y'' 0) 30] (RQ_Init 0, demo_fs)))"

theorem Clean_settles_queue_witness:
  "map (\<lambda>e. (fst e, rc_partitions (snd e))) (qm_queue demo_two) = [(''x'', [0, 1]), (''y'', [0])]
   \<and> (\<exists>st' s'. receive_run demo_rst [RqClean 6000, RqClean 0, RqDelete, RqClean 0, RqStop, RqClean 0] (demo_two, demo_fs) = Some (st', s')
       \<and> map fst (qm_queue st') = [''y''])"
proof -
  have f: "qm_clean demo_two = Waiting" "\<not> qm_stop demo_two" "qm_last_time demo_two = 0" "length (qm_queue demo_two) = 2"
    "map (\<lambda>e. (fst e, rc_partitions (snd e))) (qm_queue demo_two) = [(''x'', [0, 1]), (''y'', [0])]"
    "list_all (\<lambda>e. parts_complete (snd e) \<longrightarrow> supported (snd e)) (qm_queue demo_two)"
    "map fst (filter (\<lambda>e. awaited 6000 (snd e)) (qm_queue demo_two)) = [''y'']"
    by code_simp+
  have "\<exists>st' s'. receive_run demo_rst (RqClean 6000 # [RqClean 0, RqDelete, RqClean 0, RqStop, RqClean 0]) (demo_two, demo_fs) = Some (st', s')
      \<and> qm_clean st' = Waiting \<and> qm_queue st' = filter (\<lambda>e. awaited 6000 (snd e)) (qm_queue demo_two)"
    using f(1-4,6) by (intro Clean_settles_queue) (simp_all add: list_all_iff)
  then show ?thesis using f(5,7) by auto
qed

definition demo_stuck :: "(receive_st \<times> fs) option" where
  "demo_stuck =
     receive_run demo_rst [RqPut (demo_part RT_Unused ''x'' 0) 10, RqPut (demo_part RT_Unused ''x'' 1) 20, RqClean 6000]
       (RQ_Init 0, demo_fs)"

theorem unsupported_type_hangs_witness:
  "\<exists>st s. demo_stuck = Some (st, s)
    \<and> (\<exists>st' s'. receive_run demo_rst [RqClean 0, RqStop, RqClean 0, RqDelete] (st, s) = Some (st', s') \<and> \<not> RQ_Stopped st')"
proof -
  have l: "map_option (\<lambda>w. case qm_clean (fst w) of Looping t kept (e # rest) \<Rightarrow> parts_complete (snd e) \<and> \<not> supported (snd e) | _ \<Rightarrow> False) demo_stuck
      = Some True" by code_simp
  then obtain st s where st: "demo_stuck = Some (st, s)" by auto
  have "case qm_clean st of Looping t kept (e # rest) \<Rightarrow> parts_complete (snd e) \<and> \<not> supported (snd e) | _ \<Rightarrow> False"
    using l by (simp add: st)
  then obtain t kept k ctx rest where c: "qm_clean st = Looping t kept ((k, ctx) # rest)" "parts_complete ctx" "\<not> supported ctx"
    by (cases "qm_clean st") (auto split: list.splits)
  have "list_all (\<lambda>e. \<not> is_put e) [RqClean 0, RqStop, RqClean 0, RqDelete]" by simp
  from run_total [OF this, of demo_rst "(st, s)"] obtain st' s' where
    "receive_run demo_rst [RqClean 0, RqStop, RqClean 0, RqDelete] (st, s) = Some (st', s')" by fast
  then show ?thesis using st unsupported_type_hangs [OF c] by blast
qed

end
