(* ===== verification/Spec2Isabelle.thy ===== *)
theory Spec2Isabelle
  imports UtilString BlockingQueue Http GrpcServer GrpcClient ScanReport SyncTasks UploadServer SyncInquire Clients ReceiveQueue
begin

text \<open>
  \<^bold>\<open>A verification library for oceanfile\<close>

  oceanfile is a file station: a server that keeps user accounts, repositories (directories on the
  server's disk) and files that clients upload in parts.  Paths below are relative to the repository,
  whose own code lives under \<^verbatim>\<open>src/src\<close>.

  \<^bold>\<open>The program's parts.\<close>  Requests arrive over gRPC, HTTP or UDP
  (\<^verbatim>\<open>src/src/server\<close>) and reach one set of handlers (\<^verbatim>\<open>server/handler_proxy\<close>).  The handlers check the session
  with \<^verbatim>\<open>impl/session_manager.h\<close> and call \<^verbatim>\<open>impl/user_manager.h\<close> (accounts in SQLite, through
  \<^verbatim>\<open>util/sqlite_manager.h\<close>) or \<^verbatim>\<open>impl/repo_manager.h\<close> (the table of repositories, a JSON file with a backup, and the
  parts of uploaded files).  A stored part is announced to \<^verbatim>\<open>impl/file_process_manager.h\<close>, whose threads write the
  metadata of finished files.  All of them use \<^verbatim>\<open>util/util.cc\<close> (paths, files, hashes, strings) and the constants
  of \<^verbatim>\<open>common/defs.h\<close>.

  \<^bold>\<open>How it is modelled.\<close>  Every function is a HOL function with the state it reads and writes passed
  explicitly; members of a class are a record; an exception that leaves a function is \<open>None\<close> or the left
  summand; an integer that can overflow is wrapped with \<open>to_i32\<close> or \<open>to_i64\<close>.  Functions under one lock are atomic steps.
  Time, random bytes and uuids are arguments.  Third-party libraries are arguments too, with what the code
  relies on as the assumptions of a locale, which is interpreted on a concrete implementation: boost string
  algorithms (\<open>boost_string\<close>), fmt (\<open>fmt_hex\<close>), OpenSSL digests (\<open>evp\<close>), BLAKE3 (\<open>blake3\<close>), liblzma
  (\<open>lzma_stream\<close>), the SQL statements on the users table (\<open>users_db\<close>), the JSON codec (\<open>json_codec\<close>,
  \<open>meta_codec\<close>).  Log output is dropped.

  \<^item> \<open>Prelude\<close>: machine integers, byte ranges, and the interface \<open>op_invariant\<close> for operations that keep an invariant.
  \<^item> \<open>StdPath\<close>, \<open>BoostString\<close>, \<open>FileSystem\<close>: the language and system libraries: \<^verbatim>\<open>std::filesystem::path\<close>, the boost
    algorithms, and a POSIX file system (a tree of directories, regular files, links and sockets; symbolic
    links are resolved with the limit of forty; any system call can fail by a scripted fault).
  \<^item> \<open>UtilPath\<close>, \<open>UtilString\<close>, \<open>UtilFile\<close>, \<open>UtilHash\<close>: \<^verbatim>\<open>util/util.cc\<close> and \<^verbatim>\<open>util/util.h\<close>.  Shown: when the path functions
    return and what; round trips of hexadecimal text, files and times; that every file function keeps the
    tree well formed; block-wise hashing equals hashing at once; password checks; that decompression ends with the data.
  \<^item> \<open>Defs\<close>, \<open>Proto\<close>: constants, error codes, messages.
  \<^item> \<open>BlockingQueue\<close>: both queue classes, refined to one first-in-first-out specification (locale \<open>fifo\<close>).
  \<^item> \<open>Sqlite\<close>: the connection pool (locale \<open>pool\<close>), statements and queries; where connections and statements go.
  \<^item> \<open>Session\<close>: the two session tables as a state machine \<open>sess_reach\<close>; authenticity of tokens, rotation, logout.
  \<^item> \<open>UserManager\<close>: registration, login, password change, deletion; sequences of calls keep the accounts well formed
    and the administrator present.
  \<^item> \<open>FileProcess\<close>: the queues of received parts.
  \<^item> \<open>RepoManager\<close>: the repository table and its file, listing, and the storage of parts; an upload in any order gives the file back.
  \<^item> \<open>Config\<close>: configuration, server identity, handshake, UDP discovery.
  \<^item> \<open>Handlers\<close>: the handlers over all managers, with the reachable server states \<open>server_reach\<close>; authentication end to end.
  \<^item> \<open>Http\<close>: upload form, download, routing.

  \<^bold>\<open>Bounds and termination.\<close>  Loops that may not end are \<^theory_text>\<open>partial_function\<close>s into \<open>option\<close>
  (\<open>FindCommonRoot\<close>, \<open>climb_to\<close>, \<open>lzma_drain\<close>, \<open>feed_loop\<close>); where they return, that is proved.  Link resolution carries the
  number of links left, as the kernel does.  Everything else is total.

  \<^bold>\<open>Where the sources do not fit together.\<close>  \<^verbatim>\<open>handler_proxy/file_handler.h\<close> and \<^verbatim>\<open>http_handler\<close> use message fields
  that \<^verbatim>\<open>service.proto\<close> no longer declares; they are the record extensions \<open>FileReqX\<close> and \<open>FileResX\<close>.  The state that
  accompanies an exception (\<open>None\<close>) in a handler is not meaningful: the exception ends the process.

  \<^bold>\<open>Not modelled.\<close>  \<^verbatim>\<open>src/src/async_grpc\<close> apart from its queue, the clients, the thread pool and process start-up;
  \<^verbatim>\<open>scan_manager\<close>, \<^verbatim>\<open>sync_manager\<close> and \<^verbatim>\<open>receive_queue_manager\<close>, which the build leaves out; time formatting and process
  information; the Windows branches; tools.  Next in the plan: the per-call state machine and event queues of
  \<^verbatim>\<open>async_grpc/rpc.cc\<close> and \<^verbatim>\<open>service.cc\<close>, its retry strategies, the upload client, then scanning and synchronisation.
\<close>

end
